(* ===== verification/Prelude.thy ===== *)
theory Prelude
  imports Main "HOL-Library.Word"
begin

text \<open>
  Shared material of the development: the machine types of the C sources, byte
  memories and little-endian encodings, the alignment macros of
  \<^verbatim>\<open>util/common.h\<close>, lemmas on bits of 64-bit words and on updating lists,
  and the interface of a pool of identifiers that several components provide.
\<close>

unbundle bit_operations_syntax

section \<open>Machine types\<close>

type_synonym u8 = "8 word"
type_synonym u16 = "16 word"
type_synonym u32 = "32 word"
type_synonym u64 = "64 word"

text \<open>Facts that compute reads and writes of byte memories.\<close>

named_theorems mem_simps

text \<open>Facts about single bits of bitmap words.\<close>

named_theorems bitmap_simps

text \<open>Error numbers of the C library.\<close>

definition ENOMEM :: int where "ENOMEM = 12"
definition ENODEV :: int where "ENODEV = 19"
definition EINVAL :: int where "EINVAL = 22"
definition ERANGE :: int where "ERANGE = 34"
definition EINPROGRESS :: int where "EINPROGRESS = 115"

section \<open>Alignment macros of util/common.h\<close>

definition CEIL_ALIGN :: "'a::len word \<Rightarrow> 'a word \<Rightarrow> 'a word" where
  "CEIL_ALIGN v algn = (v + algn - 1) AND NOT (algn - 1)"

definition FLOOR_ALIGN :: "'a::len word \<Rightarrow> 'a word \<Rightarrow> 'a word" where
  "FLOOR_ALIGN v algn = v AND NOT (algn - 1)"

lemma FLOOR_ALIGN_1 [simp]: "FLOOR_ALIGN v 1 = v"
  by (simp add: FLOOR_ALIGN_def)

lemma CEIL_ALIGN_1 [simp]: "CEIL_ALIGN v 1 = v"
  by (simp add: CEIL_ALIGN_def)

lemma word_and_not_mask:
  fixes w :: "'a::len word"
  shows "w AND NOT (mask n) = push_bit n (drop_bit n w)"
  by (rule bit_word_eqI) (auto simp: bit_simps)

lemma take_bit_of_unat: "take_bit LENGTH('a) (unat (w :: 'a::len word)) = unat w"
  by (simp add: take_bit_nat_eq_self)

lemma unat_word_and_not_mask:
  fixes w :: "'a::len word"
  shows "unat (w AND NOT (mask n)) = unat w div 2 ^ n * 2 ^ n"
proof -
  have le: "unat w div 2 ^ n * 2 ^ n < 2 ^ LENGTH('a)"
    by (rule le_less_trans [OF _ unsigned_less [of w]]) simp
  have "unat (push_bit n (drop_bit n w)) = take_bit LENGTH('a) (unat w div 2 ^ n * 2 ^ n)"
    by (simp only: unsigned_push_bit_eq unsigned_drop_bit_eq push_bit_eq_mult [where 'a = nat]
        drop_bit_eq_div [where 'a = nat] take_bit_of_unat)
  with le show ?thesis
    by (simp only: word_and_not_mask take_bit_eq_mod mod_less)
qed

lemma less_mask_imp: "n < m \<Longrightarrow> (mask n :: nat) < 2 ^ m"
  using power_strict_increasing [of n m "2::nat"] mask_nat_less_exp [of n] by linarith

lemma unat_mask_eq:
  "n < LENGTH('a) \<Longrightarrow> unat (mask n :: 'a::len word) = 2 ^ n - 1"
proof -
  assume n: "n < LENGTH('a)"
  have "(mask n :: nat) < 2 ^ LENGTH('a)"
    using less_mask_imp [OF n] .
  then have "unat (of_nat (mask n) :: 'a word) = mask n" by (simp add: unat_of_nat)
  then show ?thesis by (simp add: of_nat_mask_eq mask_eq_exp_minus_1)
qed

lemma unat_CEIL_ALIGN:
  fixes v :: "'a::len word"
  assumes "unat v + (2 ^ n - 1) < 2 ^ LENGTH('a)" and "n < LENGTH('a)"
  shows "unat (CEIL_ALIGN v (2 ^ n)) = (unat v + (2 ^ n - 1)) div 2 ^ n * 2 ^ n"
proof -
  have m: "(2::'a word) ^ n - 1 = mask n"
    by (simp add: mask_eq_exp_minus_1)
  have u: "unat (mask n :: 'a word) = 2 ^ n - 1"
    using assms(2) by (simp add: unat_mask_eq)
  have e: "v + 2 ^ n - 1 = v + mask n"
    by (simp add: m [symmetric])
  have a: "unat (v + mask n) = unat v + (2 ^ n - 1)"
    using assms(1) by (simp only: unat_word_ariths u mod_less)
  show ?thesis
    unfolding CEIL_ALIGN_def e m unat_word_and_not_mask a ..
qed

section \<open>Bits of 64-bit words\<close>

text \<open>The mask \<open>1ULL << k\<close>, and setting, clearing and testing a bit with it.\<close>

definition ull_bit :: "nat \<Rightarrow> u64" where
  "ull_bit k = push_bit k 1"

lemma bit_ull_bit [bitmap_simps]: "k < 64 \<Longrightarrow> bit (ull_bit k) n \<longleftrightarrow> n = k"
  by (auto simp: ull_bit_def bit_simps)

lemma and_ull_bit_eq_0 [bitmap_simps]:
  "k < 64 \<Longrightarrow> v AND ull_bit k = 0 \<longleftrightarrow> \<not> bit v k"
proof
  assume k: "k < 64" and z: "v AND ull_bit k = 0"
  have "bit (v AND ull_bit k) k = bit v k"
    using k by (simp add: bit_and_iff bit_ull_bit)
  with z show "\<not> bit v k" by simp
next
  assume k: "k < 64" and nb: "\<not> bit v k"
  show "v AND ull_bit k = 0"
    using nb by (intro bit_word_eqI) (auto simp: bit_and_iff bit_ull_bit k)
qed

lemma bit_or_ull_bit [bitmap_simps]:
  "k < 64 \<Longrightarrow> bit (v OR ull_bit k) n \<longleftrightarrow> n = k \<or> bit v n"
  by (auto simp: bit_or_iff bit_ull_bit)

lemma bit_clear_ull_bit [bitmap_simps]:
  "k < 64 \<Longrightarrow> n < 64 \<Longrightarrow> bit (v AND NOT (ull_bit k)) n \<longleftrightarrow> n \<noteq> k \<and> bit v n"
  by (auto simp: bit_and_iff bit_not_iff bit_ull_bit)

lemma u64_full_iff: "(v :: u64) = - 1 \<longleftrightarrow> (\<forall>n<64. bit v n)"
proof
  assume "\<forall>n<64. bit v n"
  then show "v = - 1" by (intro bit_word_eqI) simp
qed simp

lemma u64_zero_iff: "(v :: u64) = 0 \<longleftrightarrow> (\<forall>n<64. \<not> bit v n)"
proof
  assume "\<forall>n<64. \<not> bit v n"
  then show "v = 0" by (intro bit_word_eqI) simp
qed simp

lemma div_mod_64_eq: "(i :: nat) div 64 = j div 64 \<Longrightarrow> i mod 64 = j mod 64 \<Longrightarrow> i = j"
  by (metis div_mult_mod_eq)

section \<open>Pools of identifiers\<close>

text \<open>
  Several components hand out small integers and take them back: the fixed cache of
  \<^verbatim>\<open>util/fixed_cache.h\<close> and the operation slots of an I/O channel in
  \<^verbatim>\<open>liboss.c\<close>. The laws a provider promises; what a client concludes from them.
\<close>

datatype pool_event = PoolGet | PoolPut nat

text \<open>
  The weaker contract: what is handed out was free and is not free any more; a failed
  request may lose identifiers, but never frees one.
\<close>

locale id_source =
  fixes pool_inv :: "'s \<Rightarrow> bool"
    and pool_free :: "'s \<Rightarrow> nat set"
    and pool_ids :: "'s \<Rightarrow> nat set"
    and pool_get :: "'s \<Rightarrow> nat option \<times> 's"
    and pool_put :: "nat \<Rightarrow> 's \<Rightarrow> 's"
  assumes free_subset: "pool_inv s \<Longrightarrow> pool_free s \<subseteq> pool_ids s"
    and get_fail: "pool_inv s \<Longrightarrow> pool_get s = (None, s') \<Longrightarrow>
      pool_free s' \<subseteq> pool_free s \<and> pool_ids s' = pool_ids s \<and> pool_inv s'"
    and get_Some: "pool_inv s \<Longrightarrow> pool_get s = (Some i, s') \<Longrightarrow>
      i \<in> pool_free s \<and> pool_free s' = pool_free s - {i} \<and> pool_ids s' = pool_ids s \<and> pool_inv s'"
    and put_law: "pool_inv s \<Longrightarrow> i \<in> pool_ids s - pool_free s \<Longrightarrow>
      pool_free (pool_put i s) = insert i (pool_free s) \<and> pool_ids (pool_put i s) = pool_ids s
      \<and> pool_inv (pool_put i s)"
begin

text \<open>
  A client that holds the identifiers \<open>held\<close>, and puts back only what it holds.
\<close>

fun pool_run :: "'s \<Rightarrow> nat list \<Rightarrow> pool_event list \<Rightarrow> 's \<times> nat list" where
  "pool_run s held [] = (s, held)"
| "pool_run s held (PoolGet # es) =
     (case pool_get s of
        (None, s') \<Rightarrow> pool_run s' held es
      | (Some i, s') \<Rightarrow> pool_run s' (i # held) es)"
| "pool_run s held (PoolPut i # es) =
     (if i \<in> set held then pool_run (pool_put i s) (remove1 i held) es
      else pool_run s held es)"

definition pool_held :: "'s \<Rightarrow> nat list \<Rightarrow> bool" where
  "pool_held s held \<longleftrightarrow> pool_inv s \<and> distinct held \<and> set held \<subseteq> pool_ids s - pool_free s"

lemma pool_held_get:
  assumes "pool_held s held" and "pool_get s = (Some i, s')"
  shows "pool_held s' (i # held) \<and> pool_ids s' = pool_ids s"
  using get_Some [OF _ assms(2)] free_subset assms(1) by (auto simp: pool_held_def)

lemma pool_held_fail:
  assumes "pool_held s held" and "pool_get s = (None, s')"
  shows "pool_held s' held \<and> pool_ids s' = pool_ids s"
  using get_fail [OF _ assms(2)] assms(1) by (auto simp: pool_held_def)

lemma pool_held_put:
  assumes "pool_held s held" and "i \<in> set held"
  shows "pool_held (pool_put i s) (remove1 i held) \<and> pool_ids (pool_put i s) = pool_ids s"
  using put_law [of s i] assms by (auto simp: pool_held_def)

lemma pool_run_held:
  "pool_held s held \<Longrightarrow> pool_run s held es = (s', held') \<Longrightarrow>
     pool_held s' held' \<and> pool_ids s' = pool_ids s"
proof (induction s held es rule: pool_run.induct)
  case (2 s held es)
  obtain r t where g: "pool_get s = (r, t)" by (cases "pool_get s")
  show ?case
  proof (cases r)
    case None
    with 2(4) g have "pool_run t held es = (s', held')" by simp
    with 2(1) [OF g [symmetric] None] pool_held_fail [of s held t] 2(3) g None
    show ?thesis by auto
  next
    case (Some i)
    with 2(4) g have "pool_run t (i # held) es = (s', held')" by simp
    with 2(2) [OF g [symmetric] Some] pool_held_get [of s held i t] 2(3) g Some
    show ?thesis by auto
  qed
next
  case (3 s held i es)
  then show ?case
    using pool_held_put [of s held i] by (cases "i \<in> set held") auto
qed simp

text \<open>No identifier is ever held twice, and none is both held and free.\<close>

lemma pool_run_distinct:
  assumes "pool_held s held" and "pool_run s held es = (s', held')"
  shows "distinct held' \<and> set held' \<subseteq> pool_ids s \<and> set held' \<inter> pool_free s' = {}"
  using pool_run_held [OF assms] by (auto simp: pool_held_def)

end

text \<open>The stronger contract: a request fails only when nothing is free, and changes nothing.\<close>

locale id_pool = id_source +
  assumes get_None: "pool_inv s \<Longrightarrow> pool_get s = (None, s') \<Longrightarrow> pool_free s = {} \<and> s' = s"
begin

definition pool_exact where
  "pool_exact s held \<longleftrightarrow> pool_held s held \<and> set held \<union> pool_free s = pool_ids s"

lemma pool_exact_get:
  assumes "pool_exact s held" and "pool_get s = (Some i, t)"
  shows "pool_exact t (i # held)"
  using assms(1) pool_held_get [OF _ assms(2)] get_Some [OF _ assms(2)]
  by (auto simp: pool_exact_def pool_held_def)

lemma pool_exact_put:
  assumes "pool_exact s held" and "i \<in> set held"
  shows "pool_exact (pool_put i s) (remove1 i held)"
proof -
  have h: "pool_held s held" and u: "set held \<union> pool_free s = pool_ids s"
    using assms(1) by (simp_all add: pool_exact_def)
  have p: "pool_free (pool_put i s) = insert i (pool_free s)"
    using put_law [of s i] h assms(2) by (auto simp: pool_held_def)
  have "set (remove1 i held) \<union> insert i (pool_free s) = set held \<union> pool_free s"
    using h assms(2) by (auto simp: pool_held_def)
  with p u pool_held_put [OF h assms(2)] show ?thesis by (simp add: pool_exact_def)
qed

lemma pool_run_exact:
  "pool_exact s held \<Longrightarrow> pool_run s held es = (s', held') \<Longrightarrow> pool_exact s' held'"
proof (induction s held es rule: pool_run.induct)
  case (2 s held es)
  obtain r t where g: "pool_get s = (r, t)" by (cases "pool_get s")
  have inv: "pool_inv s" using 2(3) by (simp add: pool_exact_def pool_held_def)
  show ?case
  proof (cases r)
    case None
    with 2(4) g have "pool_run t held es = (s', held')" by simp
    moreover have "t = s" using get_None [OF inv] g None by simp
    ultimately show ?thesis using 2(1) [OF g [symmetric] None] 2(3) by simp
  next
    case (Some i)
    with 2(4) g have "pool_run t (i # held) es = (s', held')" by simp
    then show ?thesis
      using 2(2) [OF g [symmetric] Some] pool_exact_get [OF 2(3)] g Some by simp
  qed
next
  case (3 s held i es)
  then show ?case
    using pool_exact_put [of s held i] by (cases "i \<in> set held") auto
qed simp

text \<open>Nothing is lost: every identifier is held or free.\<close>

lemma pool_run_partition:
  assumes "pool_exact s held" and "pool_run s held es = (s', held')"
  shows "distinct held' \<and> set held' \<inter> pool_free s' = {} \<and> set held' \<union> pool_free s' = pool_ids s"
  using pool_run_exact [OF assms] pool_run_held [OF _ assms(2)] assms(1)
  by (auto simp: pool_exact_def pool_held_def)

end

section \<open>An interface: a log that grows by appending\<close>

text \<open>
  What a client that collects records relies on: a record that is well formed and fits is
  appended behind those already there.
\<close>

locale append_log =
  fixes log_inv :: "'s \<Rightarrow> 'e list \<Rightarrow> bool"
    and rec_ok :: "'e \<Rightarrow> bool"
    and rec_size :: "'e \<Rightarrow> nat"
    and log_cap :: nat
    and log_add :: "'s \<Rightarrow> 'e \<Rightarrow> 's option"
  assumes add_law: "log_inv s es \<Longrightarrow> rec_ok e \<Longrightarrow> sum_list (map rec_size es) + rec_size e \<le> log_cap \<Longrightarrow>
      \<exists>s'. log_add s e = Some s' \<and> log_inv s' (es @ [e])"
begin

primrec log_adds where
  "log_adds s [] = Some s"
| "log_adds s (e # es) = Option.bind (log_add s e) (\<lambda>s'. log_adds s' es)"

lemma log_adds_ok:
  assumes "log_inv s es" and "list_all rec_ok fs"
    and "sum_list (map rec_size es) + sum_list (map rec_size fs) \<le> log_cap"
  shows "\<exists>s'. log_adds s fs = Some s' \<and> log_inv s' (es @ fs)"
  using assms
proof (induction fs arbitrary: s es)
  case (Cons f fs)
  then obtain s' where a: "log_add s f = Some s'" and i: "log_inv s' (es @ [f])"
    using add_law [of s es f] by auto
  have "\<exists>s''. log_adds s' fs = Some s'' \<and> log_inv s'' ((es @ [f]) @ fs)"
    by (rule Cons.IH [OF i]) (use Cons.prems in simp_all)
  with a show ?case by simp
qed simp

end

end
