(* ===== verification/Fixed_Cache.thy ===== *)
theory Fixed_Cache
  imports Prelude
begin

text \<open>
  The fixed-size element cache of \<^verbatim>\<open>util/fixed_cache.h\<close>: \<open>ptr_arr\<close> holds a
  permutation of element numbers, those from index \<open>tail\<close> on are free. Addresses are
  natural numbers; the products \<open>id * elem_size\<close> are computed in C in 32 bits, which is
  written out. The result \<open>-1\<close> of the id functions and a null pointer are \<open>None\<close>.
\<close>

section \<open>State and operations\<close>

datatype allocator_type = MALLOC | SPDK_MALLOC

record fcache =
  mem_allocator :: allocator_type
  elems :: nat
  elems_tail :: nat
  ptr_arr :: "nat list"
  elem_size :: nat
  fc_size :: nat
  tail :: nat

text \<open>The base address is what the allocator returned; it is an argument.\<close>

definition fcache_constructor :: "nat \<Rightarrow> nat \<Rightarrow> nat \<Rightarrow> allocator_type \<Rightarrow> fcache" where
  "fcache_constructor base cache_sz elem_sz mem_alloc =
     \<lparr>mem_allocator = mem_alloc, elems = base,
      elems_tail = base + (elem_sz * cache_sz) mod 2 ^ 32,
      ptr_arr = [0..<cache_sz], elem_size = elem_sz, fc_size = cache_sz, tail = 0\<rparr>"

definition fcache_id_get :: "fcache \<Rightarrow> nat option \<times> fcache" where
  "fcache_id_get fc =
     (if tail fc = fc_size fc then (None, fc)
      else (Some (ptr_arr fc ! tail fc), fc\<lparr>tail := tail fc + 1\<rparr>))"

definition fcache_id_put :: "nat \<Rightarrow> fcache \<Rightarrow> fcache" where
  "fcache_id_put idx fc =
     (if tail fc = 0 then fc
      else if idx < fc_size fc then
        fc\<lparr>tail := tail fc - 1, ptr_arr := (ptr_arr fc)[tail fc - 1 := idx]\<rparr>
      else fc)"

definition fcahe_id_elem :: "fcache \<Rightarrow> nat \<Rightarrow> nat" where
  "fcahe_id_elem fc i = elems fc + (i * elem_size fc) mod 2 ^ 32"

definition fcache_get :: "fcache \<Rightarrow> nat option \<times> fcache" where
  "fcache_get fc =
     (if tail fc = fc_size fc then (None, fc)
      else (Some (elems fc + (ptr_arr fc ! tail fc * elem_size fc) mod 2 ^ 32),
            fc\<lparr>tail := tail fc + 1\<rparr>))"

text \<open>
  \<open>(char*)elem - (char*)elems) / elem_size\<close> is a signed division that truncates, then a
  conversion to \<open>uint32_t\<close>.
\<close>

definition fc_index :: "fcache \<Rightarrow> nat \<Rightarrow> nat" where
  "fc_index fc elem =
     (let d = int elem - int (elems fc);
          q = (if d < 0 then - (- d div int (elem_size fc)) else d div int (elem_size fc))
      in nat (q mod 2 ^ 32))"

definition fcache_put :: "fcache \<Rightarrow> nat \<Rightarrow> fcache" where
  "fcache_put fc elem =
     (if tail fc = 0 then fc
      else let idx = fc_index fc elem in
        if idx < fc_size fc then
          fc\<lparr>tail := tail fc - 1, ptr_arr := (ptr_arr fc)[tail fc - 1 := idx]\<rparr>
        else fc)"

definition fcache_elem_id :: "fcache \<Rightarrow> nat \<Rightarrow> nat option" where
  "fcache_elem_id fc elem =
     (let idx = fc_index fc elem in if idx < fc_size fc then Some idx else None)"

definition fcache_in :: "fcache \<Rightarrow> nat \<Rightarrow> bool" where
  "fcache_in fc p \<longleftrightarrow>
     elems fc \<le> p \<and> p < elems fc + (elem_size fc * fc_size fc) mod 2 ^ 32"

section \<open>Invariant\<close>

definition fcache_free :: "fcache \<Rightarrow> nat set" where
  "fcache_free fc = set (drop (tail fc) (ptr_arr fc))"

definition fcache_ids :: "fcache \<Rightarrow> nat set" where
  "fcache_ids fc = {..<fc_size fc}"

definition fcache_inv :: "fcache \<Rightarrow> bool" where
  "fcache_inv fc \<longleftrightarrow>
     length (ptr_arr fc) = fc_size fc \<and> tail fc \<le> fc_size fc \<and>
     distinct (drop (tail fc) (ptr_arr fc)) \<and>
     set (drop (tail fc) (ptr_arr fc)) \<subseteq> {..<fc_size fc} \<and>
     0 < elem_size fc \<and> elem_size fc * fc_size fc < 2 ^ 32"

lemma fcache_constructor_inv:
  "0 < elem_sz \<Longrightarrow> elem_sz * cache_sz < 2 ^ 32 \<Longrightarrow>
     fcache_inv (fcache_constructor base cache_sz elem_sz m)"
  by (auto simp: fcache_inv_def fcache_constructor_def)

lemma fcache_get_eq:
  "fcache_get fc = (map_option (fcahe_id_elem fc) (fst (fcache_id_get fc)), snd (fcache_id_get fc))"
  by (simp add: fcache_get_def fcache_id_get_def fcahe_id_elem_def)

lemma drop_tail_Cons:
  "tail fc < length (ptr_arr fc) \<Longrightarrow>
     drop (tail fc) (ptr_arr fc) = ptr_arr fc ! tail fc # drop (Suc (tail fc)) (ptr_arr fc)"
  by (rule Cons_nth_drop_Suc [symmetric])

lemma fcache_id_get_Some:
  assumes inv: "fcache_inv fc" and get: "fcache_id_get fc = (Some i, fc')"
  shows "i \<in> fcache_free fc \<and> fcache_free fc' = fcache_free fc - {i} \<and>
    fcache_ids fc' = fcache_ids fc \<and> fcache_inv fc'"
proof -
  from inv get have lt: "tail fc < length (ptr_arr fc)"
    and i: "i = ptr_arr fc ! tail fc" and fc': "fc' = fc\<lparr>tail := tail fc + 1\<rparr>"
    by (auto simp: fcache_inv_def fcache_id_get_def split: if_splits)
  from inv lt show ?thesis
    unfolding fc' i using drop_tail_Cons [OF lt]
    by (auto simp: fcache_inv_def fcache_free_def fcache_ids_def)
qed

lemma drop_list_update_last:
  "0 < n \<Longrightarrow> n \<le> length xs \<Longrightarrow> drop (n - 1) (xs[n - 1 := x]) = x # drop n xs"
  using Cons_nth_drop_Suc [of "n - 1" "xs[n - 1 := x]"] by simp

lemma fcache_id_put_held:
  assumes inv: "fcache_inv fc" and i: "i \<in> fcache_ids fc - fcache_free fc"
  shows "fcache_free (fcache_id_put i fc) = insert i (fcache_free fc) \<and>
    fcache_ids (fcache_id_put i fc) = fcache_ids fc \<and> fcache_inv (fcache_id_put i fc)"
proof -
  have card: "card (fcache_free fc) = fc_size fc - tail fc"
    using inv by (simp add: fcache_free_def fcache_inv_def distinct_card)
  have sub: "fcache_free fc \<subseteq> {..<fc_size fc}" and iid: "i < fc_size fc" "i \<notin> fcache_free fc"
    using inv i by (simp_all add: fcache_free_def fcache_inv_def fcache_ids_def)
  have "card (fcache_free fc) < card {..<fc_size fc}"
    by (rule psubset_card_mono) (use sub iid in blast)+
  then have "card (fcache_free fc) < fc_size fc" by simp
  with card have pos: "0 < tail fc" by linarith
  have len: "tail fc \<le> length (ptr_arr fc)" using inv by (simp add: fcache_inv_def)
  define arr where "arr = (ptr_arr fc)[tail fc - 1 := i]"
  have drop: "drop (tail fc - 1) arr = i # drop (tail fc) (ptr_arr fc)"
    unfolding arr_def by (rule drop_list_update_last [OF pos len])
  have put: "fcache_id_put i fc = fc\<lparr>tail := tail fc - 1, ptr_arr := arr\<rparr>"
    using i pos by (simp add: fcache_id_put_def fcache_ids_def arr_def)
  have "length arr = fc_size fc" using inv by (simp add: arr_def fcache_inv_def)
  then show ?thesis
    using inv i pos unfolding put
    by (auto simp: fcache_inv_def fcache_free_def fcache_ids_def drop [unfolded One_nat_def])
qed

lemma fcache_id_get_None:
  "fcache_inv fc \<Longrightarrow> fcache_id_get fc = (None, fc') \<Longrightarrow> fcache_free fc = {} \<and> fc' = fc"
  by (auto simp: fcache_inv_def fcache_free_def fcache_id_get_def split: if_splits)

lemma fcache_free_ids: "fcache_inv fc \<Longrightarrow> fcache_free fc \<subseteq> fcache_ids fc"
  by (simp add: fcache_inv_def fcache_free_def fcache_ids_def)

interpretation fcp: id_pool fcache_inv fcache_free fcache_ids fcache_id_get fcache_id_put
  by unfold_locales (use fcache_free_ids fcache_id_get_None fcache_id_get_Some
      fcache_id_put_held in blast)+

section \<open>Elements and their numbers\<close>

text \<open>
  Addresses and numbers of elements correspond: the element handed out for a number
  lies in the cache's memory and gives that number back.
\<close>

lemma fc_index_elem:
  assumes inv: "fcache_inv fc" and i: "i < fc_size fc"
  shows "fc_index fc (fcahe_id_elem fc i) = i" and "fcache_in fc (fcahe_id_elem fc i)"
proof -
  have pos: "0 < elem_size fc" and lt: "elem_size fc * fc_size fc < 2 ^ 32"
    using inv by (auto simp: fcache_inv_def)
  have "i * elem_size fc < fc_size fc * elem_size fc" using i pos by simp
  with lt have m: "i * elem_size fc < 2 ^ 32"
    using less_trans by (metis mult.commute)
  have "fc_size fc \<le> elem_size fc * fc_size fc" using pos by simp
  then have i32: "i < 2 ^ 32" using i lt by linarith
  have "int (i * elem_size fc) div int (elem_size fc) = int i" using pos by simp
  then show "fc_index fc (fcahe_id_elem fc i) = i"
    using m i32 by (simp add: fc_index_def fcahe_id_elem_def Let_def flip: of_nat_mult)
  show "fcache_in fc (fcahe_id_elem fc i)"
    using m lt \<open>i * elem_size fc < fc_size fc * elem_size fc\<close>
    by (simp add: fcache_in_def fcahe_id_elem_def mult.commute)
qed

lemma fcache_put_eq:
  assumes "fcache_inv fc" and "i < fc_size fc"
  shows "fcache_put fc (fcahe_id_elem fc i) = fcache_id_put i fc"
  using assms by (simp add: fcache_put_def fcache_id_put_def fc_index_elem Let_def)

section \<open>Properties\<close>

text \<open>
  C35: A cache never hands out an element twice and loses none: after any sequence of gets
  and puts by a client that returns only what it holds, the numbers held are distinct, none
  of them is free, and the held and the free ones together are all \<open>size\<close> of them.
\<close>

theorem fcache_partition:
  assumes "0 < elem_sz" and "elem_sz * cache_sz < 2 ^ 32"
    and "fcp.pool_run (fcache_constructor base cache_sz elem_sz m) [] es = (fc, held)"
  shows "distinct held \<and> set held \<inter> fcache_free fc = {} \<and> set held \<union> fcache_free fc = {..<cache_sz}"
proof -
  let ?fc = "fcache_constructor base cache_sz elem_sz m"
  have i: "fcache_inv ?fc" by (rule fcache_constructor_inv [OF assms(1,2)])
  have f: "fcache_free ?fc = {..<cache_sz}" "fcache_ids ?fc = {..<cache_sz}"
    by (auto simp: fcache_free_def fcache_ids_def fcache_constructor_def)
  have "fcp.pool_exact ?fc []" using i f by (simp add: fcp.pool_exact_def fcp.pool_held_def)
  from fcp.pool_run_partition [OF this assms(3)] f show ?thesis by simp
qed

lemma fcache_partition_witness:
  "\<exists>fc held. fcp.pool_run (fcache_constructor 4096 4 64 MALLOC) [] [PoolGet, PoolGet, PoolPut 0] = (fc, held) \<and>
     distinct held \<and> set held \<union> fcache_free fc = {..<4}"
proof -
  obtain fc held where r: "fcp.pool_run (fcache_constructor 4096 4 64 MALLOC) [] [PoolGet, PoolGet, PoolPut 0] = (fc, held)"
    by (cases "fcp.pool_run (fcache_constructor 4096 4 64 MALLOC) [] [PoolGet, PoolGet, PoolPut 0]") blast
  from fcache_partition [OF _ _ r] r show ?thesis by auto
qed

text \<open>
  Elements and numbers: the address handed out for a number lies in the memory of the
  cache, is recognised by \<open>fcache_in\<close>, is mapped back to the number, and putting the
  address back is putting the number back.
\<close>

theorem fcache_elem_roundtrip:
  assumes "fcache_inv fc" and "i < fc_size fc"
  shows "fcache_in fc (fcahe_id_elem fc i) \<and> fcache_elem_id fc (fcahe_id_elem fc i) = Some i \<and>
    fcache_put fc (fcahe_id_elem fc i) = fcache_id_put i fc"
  using fc_index_elem [OF assms] fcache_put_eq [OF assms] assms(2)
  by (simp add: fcache_elem_id_def Let_def)

lemma fcache_elem_roundtrip_witness:
  "fcache_elem_id (fcache_constructor 4096 4 64 MALLOC) (4096 + 3 * 64) = Some 3"
proof -
  have "fcache_inv (fcache_constructor 4096 4 64 MALLOC)" by (rule fcache_constructor_inv) simp_all
  from fcache_elem_roundtrip [OF this, of 3] show ?thesis
    by (simp add: fcache_constructor_def fcahe_id_elem_def)
qed

end
