(* ===== verification/Errcode.thy ===== *)
theory Errcode
  imports Prelude
begin

text \<open>
  The status codes of \<^verbatim>\<open>util/errcode.h\<close>, their numbers and their names.
\<close>

datatype status =
    SUCCESS | UNKNOWN_OP | INVALID_OP | MSGR_EAGAIN | MSGR_CONNECT_EXCEPTION
  | OSTORE_UNSUPPORTED_OPERATION | OSTORE_OBJECT_EXIST | OSTORE_OBJECT_NOT_EXIST
  | OSTORE_NO_SPACE | OSTORE_NO_NODE | OSTORE_WRITE_OUT_MAX_SIZE | OSTORE_READ_EOF
  | OSTORE_READ_HOLE | OSTORE_IO_ERROR | OSTORE_INTERNAL_UNKNOWN_ERRORR

fun status_code :: "status \<Rightarrow> int" where
  "status_code SUCCESS = 0"
| "status_code UNKNOWN_OP = 1"
| "status_code INVALID_OP = 2"
| "status_code MSGR_EAGAIN = 16"
| "status_code MSGR_CONNECT_EXCEPTION = 17"
| "status_code OSTORE_UNSUPPORTED_OPERATION = 18"
| "status_code OSTORE_OBJECT_EXIST = 19"
| "status_code OSTORE_OBJECT_NOT_EXIST = 20"
| "status_code OSTORE_NO_SPACE = 21"
| "status_code OSTORE_NO_NODE = 22"
| "status_code OSTORE_WRITE_OUT_MAX_SIZE = 23"
| "status_code OSTORE_READ_EOF = 24"
| "status_code OSTORE_READ_HOLE = 25"
| "status_code OSTORE_IO_ERROR = 26"
| "status_code OSTORE_INTERNAL_UNKNOWN_ERRORR = 27"

definition OSTORE_SUBMIT_OK :: int where
  "OSTORE_SUBMIT_OK = status_code SUCCESS"

definition OSTORE_EXECUTE_OK :: int where
  "OSTORE_EXECUTE_OK = status_code SUCCESS"

definition errcode_str :: "int \<Rightarrow> string" where
  "errcode_str s =
     (if s = status_code SUCCESS then ''SUCCESS''
      else if s = status_code UNKNOWN_OP then ''UNKNOWN_OP''
      else if s = status_code INVALID_OP then ''INVALID_OP''
      else if s = status_code MSGR_EAGAIN then ''MSGR_EAGAIN''
      else if s = status_code MSGR_CONNECT_EXCEPTION then ''MSGR_CONNECT_EXCEPTION''
      else if s = status_code OSTORE_UNSUPPORTED_OPERATION then ''OSTORE_UNSUPPORTED_OPERATION''
      else if s = status_code OSTORE_OBJECT_EXIST then ''OSTORE_OBJECT_EXIST''
      else if s = status_code OSTORE_OBJECT_NOT_EXIST then ''OSTORE_OBJECT_NOT_EXIST''
      else if s = status_code OSTORE_NO_SPACE then ''OSTORE_NO_SPACE''
      else if s = status_code OSTORE_NO_NODE then ''OSTORE_NO_NODE''
      else if s = status_code OSTORE_WRITE_OUT_MAX_SIZE then ''OSTORE_WRITE_OUT_MAX_SIZE''
      else if s = status_code OSTORE_READ_EOF then ''OSTORE_READ_EOF''
      else if s = status_code OSTORE_READ_HOLE then ''OSTORE_READ_EOF''
      else if s = status_code OSTORE_IO_ERROR then ''OSTORE_IO_ERROR''
      else if s = status_code OSTORE_INTERNAL_UNKNOWN_ERRORR then ''OSTORE_INTERNAL_UNKNOWN_ERRORR''
      else ''????'')"

text \<open>Status codes are ordered by their numbers.\<close>

lemma status_code_inj: "status_code a = status_code b \<longleftrightarrow> a = b"
  by (cases a; cases b) simp_all

lemma status_code_ok_iff: "status_code a = 0 \<longleftrightarrow> a = SUCCESS"
  using status_code_inj [of a SUCCESS] by simp

instantiation status :: linorder
begin

definition less_eq_status :: "status \<Rightarrow> status \<Rightarrow> bool" where
  "less_eq_status a b \<longleftrightarrow> status_code a \<le> status_code b"

definition less_status :: "status \<Rightarrow> status \<Rightarrow> bool" where
  "less_status a b \<longleftrightarrow> status_code a < status_code b"

instance
  by standard (auto simp: less_eq_status_def less_status_def status_code_inj)

end

text \<open>Every status code fits the single byte of a response header.\<close>

lemma status_code_byte: "0 \<le> status_code a \<and> status_code a < 256"
  by (cases a) simp_all

lemma errcode_str_known: "errcode_str (status_code a) \<noteq> ''????''"
  by (cases a) (simp_all add: errcode_str_def)

lemma errcode_str_eq:
  "errcode_str (status_code a) = errcode_str (status_code b) \<longleftrightarrow>
     a = b \<or> a = OSTORE_READ_EOF \<and> b = OSTORE_READ_HOLE \<or> a = OSTORE_READ_HOLE \<and> b = OSTORE_READ_EOF"
  by (cases a; cases b) (simp_all add: errcode_str_def)

end
