(* ===== verification/Bitmap.thy ===== *)
theory Bitmap
  imports Prelude
begin

text \<open>
  The word bitmap of \<^verbatim>\<open>util/bitmap.h\<close>. Indices are natural numbers; the conversion of
  a found index to \<open>int\<close> and the failure \<open>-1\<close> are \<open>Some\<close> and \<open>None\<close>. The
  arithmetic on \<open>unsigned int\<close> lengths is written out modulo \<open>2 ^ 32\<close>.
\<close>

section \<open>State and operations\<close>

record bitmap_t =
  bit_length :: nat
  words_length :: nat
  words :: "u64 list"

definition bitmap_words :: "nat \<Rightarrow> nat" where
  "bitmap_words bl = (bl + 64 - 1) mod 2 ^ 32 div 64"

definition bitmap_constructor :: "nat \<Rightarrow> bool \<Rightarrow> bitmap_t" where
  "bitmap_constructor bl init_value =
     \<lparr>bit_length = bl, words_length = bitmap_words bl,
      words = replicate (bitmap_words bl) (if init_value then - 1 else 0)\<rparr>"

text \<open>
  \<open>memset(b->words, v, b->words_length)\<close>: the first \<open>words_length\<close> bytes of the
  array, so word \<open>k\<close> has \<open>min 8 (words_length - 8 * k)\<close> of its bytes written.
\<close>

definition bitmap_reset :: "bitmap_t \<Rightarrow> bool \<Rightarrow> bitmap_t" where
  "bitmap_reset b value =
     b\<lparr>words := map (\<lambda>k. let m = mask (8 * min 8 (words_length b - 8 * k))
                          in if value then (words b ! k) OR m else (words b ! k) AND NOT m)
                    [0..<length (words b)]\<rparr>"

definition bitmap_set_bit :: "bitmap_t \<Rightarrow> nat \<Rightarrow> bitmap_t" where
  "bitmap_set_bit b i =
     b\<lparr>words := (words b)[i div 64 := (words b ! (i div 64)) OR ull_bit (i mod 64)]\<rparr>"

definition bitmap_clr_bit :: "bitmap_t \<Rightarrow> nat \<Rightarrow> bitmap_t" where
  "bitmap_clr_bit b i =
     b\<lparr>words := (words b)[i div 64 := (words b ! (i div 64)) AND NOT (ull_bit (i mod 64))]\<rparr>"

definition bitmap_get_bit :: "bitmap_t \<Rightarrow> nat \<Rightarrow> bool" where
  "bitmap_get_bit b i \<longleftrightarrow> (words b ! (i div 64)) AND ull_bit (i mod 64) \<noteq> 0"

text \<open>\<open>__builtin_ffsll\<close>: one plus the number of the lowest set bit, 0 for 0.\<close>

definition ffsll :: "u64 \<Rightarrow> nat" where
  "ffsll v = (case find (bit v) [0..<64] of None \<Rightarrow> 0 | Some k \<Rightarrow> k + 1)"

definition scan_words :: "u64 list \<Rightarrow> nat \<Rightarrow> nat \<Rightarrow> nat option" where
  "scan_words ws wi wn =
     map_option (\<lambda>w. w * 64 + ffsll (ws ! w) - 1) (find (\<lambda>w. ws ! w \<noteq> 0) [wi..<wn])"

definition bitmap_next_set :: "bitmap_t \<Rightarrow> nat \<Rightarrow> nat option" where
  "bitmap_next_set b bit_hint =
     (case scan_words (words b) (bit_hint div 64) (words_length b) of
        Some i \<Rightarrow> Some i
      | None \<Rightarrow> scan_words (words b) 0 (bit_hint div 64))"

definition bitmap_find_next_set_and_clr :: "bitmap_t \<Rightarrow> nat \<Rightarrow> nat option \<times> bitmap_t" where
  "bitmap_find_next_set_and_clr b bit_hint =
     (case bitmap_next_set b bit_hint of
        None \<Rightarrow> (None, b)
      | Some i \<Rightarrow> (Some i, bitmap_clr_bit b i))"

section \<open>Bits\<close>

definition bitmap_wf :: "bitmap_t \<Rightarrow> bool" where
  "bitmap_wf b \<longleftrightarrow> length (words b) = words_length b"

definition bitmap_cap :: "bitmap_t \<Rightarrow> nat" where
  "bitmap_cap b = 64 * words_length b"

lemma bitmap_get_bit_iff: "bitmap_get_bit b i \<longleftrightarrow> bit (words b ! (i div 64)) (i mod 64)"
  by (simp add: bitmap_get_bit_def and_ull_bit_eq_0)

lemma bitmap_get_set_bit:
  assumes "bitmap_wf b" and "i < bitmap_cap b"
  shows "bitmap_get_bit (bitmap_set_bit b i) j \<longleftrightarrow> j = i \<or> bitmap_get_bit b j"
proof -
  have "i div 64 < length (words b)"
    using assms by (simp add: bitmap_wf_def bitmap_cap_def less_mult_imp_div_less mult.commute)
  then show ?thesis
    by (cases "j div 64 = i div 64")
      (auto simp: bitmap_get_bit_iff bitmap_set_bit_def bit_or_ull_bit dest: div_mod_64_eq)
qed

lemma bitmap_get_clr_bit:
  assumes "bitmap_wf b" and "i < bitmap_cap b"
  shows "bitmap_get_bit (bitmap_clr_bit b i) j \<longleftrightarrow> j \<noteq> i \<and> bitmap_get_bit b j"
proof -
  have "i div 64 < length (words b)"
    using assms by (simp add: bitmap_wf_def bitmap_cap_def less_mult_imp_div_less mult.commute)
  then show ?thesis
    by (cases "j div 64 = i div 64")
      (auto simp: bitmap_get_bit_iff bitmap_clr_bit_def bit_clear_ull_bit dest: div_mod_64_eq)
qed

lemma bitmap_frame [simp]:
  "bitmap_wf (bitmap_set_bit b i) = bitmap_wf b" "bitmap_wf (bitmap_clr_bit b i) = bitmap_wf b"
  "bitmap_cap (bitmap_set_bit b i) = bitmap_cap b" "bitmap_cap (bitmap_clr_bit b i) = bitmap_cap b"
  "bit_length (bitmap_set_bit b i) = bit_length b" "bit_length (bitmap_clr_bit b i) = bit_length b"
  by (simp_all add: bitmap_wf_def bitmap_cap_def bitmap_set_bit_def bitmap_clr_bit_def)

lemma ffsll_nonzero:
  assumes "v \<noteq> 0"
  obtains k where "ffsll v = k + 1" "k < 64" "bit v k" "\<And>n. n < k \<Longrightarrow> \<not> bit v n"
proof -
  obtain n where n: "n < 64" "bit v n" using assms u64_zero_iff by blast
  then obtain k where k: "find (bit v) [0..<64] = Some k"
    by (cases "find (bit v) [0..<64]") (auto simp: find_None_iff)
  then have "k < 64 \<and> bit v k \<and> (\<forall>n<k. \<not> bit v n)"
    by (auto simp: find_Some_iff)
  with k that show thesis by (auto simp: ffsll_def)
qed

lemma scan_words_Some:
  assumes "scan_words ws a b = Some i"
  shows "a \<le> i div 64 \<and> i div 64 < b \<and> bit (ws ! (i div 64)) (i mod 64)"
proof -
  from assms obtain w where w: "find (\<lambda>w. ws ! w \<noteq> 0) [a..<b] = Some w"
    and i: "i = w * 64 + ffsll (ws ! w) - 1"
    by (auto simp: scan_words_def)
  from w have "ws ! w \<noteq> 0" and "w \<in> set [a..<b]"
    by (auto simp: find_Some_iff in_set_conv_nth)
  moreover obtain k where "ffsll (ws ! w) = k + 1" "k < 64" "bit (ws ! w) k"
    using ffsll_nonzero \<open>ws ! w \<noteq> 0\<close> by blast
  moreover from this i have "i = w * 64 + k" by simp
  ultimately show ?thesis by simp
qed

lemma scan_words_None:
  "scan_words ws a b = None \<Longrightarrow> a \<le> w \<Longrightarrow> w < b \<Longrightarrow> ws ! w = 0"
  by (auto simp: scan_words_def find_None_iff)

lemma bitmap_next_set_Some:
  assumes "bitmap_next_set b h = Some i" and "h \<le> bitmap_cap b"
  shows "i < bitmap_cap b \<and> bitmap_get_bit b i"
proof -
  have hd: "h div 64 \<le> words_length b"
    using div_le_mono [OF assms(2), of 64] by (simp add: bitmap_cap_def)
  have "i div 64 < words_length b \<and> bit (words b ! (i div 64)) (i mod 64)"
    using assms(1) hd scan_words_Some [of "words b" _ _ i]
    by (fastforce simp: bitmap_next_set_def split: option.splits)
  then show ?thesis
    by (auto simp: bitmap_cap_def bitmap_get_bit_iff div_less_iff_less_mult mult.commute)
qed

lemma bitmap_next_set_None:
  assumes "bitmap_next_set b h = None" and "i < bitmap_cap b"
  shows "\<not> bitmap_get_bit b i"
proof -
  have s: "scan_words (words b) (h div 64) (words_length b) = None"
    "scan_words (words b) 0 (h div 64) = None"
    using assms(1) by (auto simp: bitmap_next_set_def split: option.splits)
  have "i div 64 < words_length b"
    using assms(2) by (simp add: bitmap_cap_def less_mult_imp_div_less mult.commute)
  then have "words b ! (i div 64) = 0"
    using scan_words_None [OF s(1), of "i div 64"] scan_words_None [OF s(2), of "i div 64"]
    by (cases "h div 64 \<le> i div 64") auto
  then show ?thesis by (simp add: bitmap_get_bit_iff)
qed

section \<open>The bits a constructor sets\<close>

lemma bitmap_constructor_wf [simp]: "bitmap_wf (bitmap_constructor n v)"
  by (simp add: bitmap_wf_def bitmap_constructor_def)

lemma bitmap_constructor_cap:
  "n + 63 < 2 ^ 32 \<Longrightarrow> bitmap_cap (bitmap_constructor n v) = (n + 63) div 64 * 64"
  by (simp add: bitmap_cap_def bitmap_constructor_def bitmap_words_def)

lemma bitmap_constructor_get:
  "i < bitmap_cap (bitmap_constructor n v) \<Longrightarrow> bitmap_get_bit (bitmap_constructor n v) i = v"
  by (simp add: bitmap_cap_def bitmap_constructor_def bitmap_get_bit_iff less_mult_imp_div_less
      mult.commute)

section \<open>Properties\<close>

text \<open>
  Searching and claiming a bit: \<open>bitmap_find_next_set_and_clr\<close> returns the number of
  a bit that is set, wherever the search starts, and clears that bit and no other; it fails
  only when no bit is set, and changes nothing then.
\<close>

theorem bitmap_claim:
  assumes "bitmap_wf b" and "h \<le> bitmap_cap b"
  shows "case bitmap_find_next_set_and_clr b h of
      (Some i, b') \<Rightarrow> i < bitmap_cap b \<and> bitmap_get_bit b i \<and> bitmap_wf b' \<and> bitmap_cap b' = bitmap_cap b \<and>
        (\<forall>j. bitmap_get_bit b' j \<longleftrightarrow> j \<noteq> i \<and> bitmap_get_bit b j)
    | (None, b') \<Rightarrow> b' = b \<and> (\<forall>i \<in> {..<bitmap_cap b}. \<not> bitmap_get_bit b i)"
proof (cases "bitmap_next_set b h")
  case None
  then show ?thesis
    using bitmap_next_set_None [OF None] by (simp add: bitmap_find_next_set_and_clr_def)
next
  case (Some i)
  note n = bitmap_next_set_Some [OF Some assms(2)]
  show ?thesis
    using n assms(1) bitmap_get_clr_bit [OF assms(1), of i] Some
    by (simp add: bitmap_find_next_set_and_clr_def)
qed

lemma bitmap_claim_witness:
  "case bitmap_find_next_set_and_clr (bitmap_constructor 70 True) 69 of
      (Some i, b') \<Rightarrow> i < bitmap_cap (bitmap_constructor 70 True) \<and> bitmap_get_bit (bitmap_constructor 70 True) i \<and>
        bitmap_wf b' \<and> bitmap_cap b' = bitmap_cap (bitmap_constructor 70 True) \<and>
        (\<forall>j. bitmap_get_bit b' j \<longleftrightarrow> j \<noteq> i \<and> bitmap_get_bit (bitmap_constructor 70 True) j)
    | (None, b') \<Rightarrow> b' = bitmap_constructor 70 True \<and>
        (\<forall>i \<in> {..<bitmap_cap (bitmap_constructor 70 True)}. \<not> bitmap_get_bit (bitmap_constructor 70 True) i)"
  by (rule bitmap_claim) (simp_all add: bitmap_constructor_cap)

lemma reset_bit:
  assumes "i < 64"
  shows "bit ((w :: u64) OR mask n) i \<longleftrightarrow> bit w i \<or> i < n"
    and "bit (w AND NOT (mask n)) i \<longleftrightarrow> bit w i \<and> \<not> i < n"
  using assms by (auto simp: bit_simps)

lemma reset_index:
  fixes i wl :: nat
  shows "i mod 64 < 8 * min 8 (wl - 8 * (i div 64)) \<longleftrightarrow> i < 8 * wl"
    and "i mod 64 < 8 * (wl - 8 * (i div 64)) \<longleftrightarrow> i < 8 * wl"
proof -
  have m: "i mod 64 < 64" by simp
  have d: "i = 64 * (i div 64) + i mod 64" by simp
  show g: "i mod 64 < 8 * (wl - 8 * (i div 64)) \<longleftrightarrow> i < 8 * wl" using m d by linarith
  show "i mod 64 < 8 * min 8 (wl - 8 * (i div 64)) \<longleftrightarrow> i < 8 * wl"
  proof (cases "8 \<le> wl - 8 * (i div 64)")
    case True
    then have "i < 8 * wl" using m d by linarith
    then show ?thesis using True m by (simp add: min_def)
  qed (simp add: g min_def)
qed

text \<open>
  Resetting a bitmap does not reset it: \<open>memset\<close> is given the number of words, not of
  bytes, so only the first \<open>8 * words_length\<close> bits get the value; the other seven eighths
  keep theirs.
\<close>

theorem bitmap_reset_partial:
  assumes "bitmap_wf b" and "i < bitmap_cap b"
  shows "bitmap_get_bit (bitmap_reset b v) i \<longleftrightarrow> (if i < 8 * words_length b then v else bitmap_get_bit b i)"
proof -
  have "i div 64 < length (words b)"
    using assms by (simp add: bitmap_wf_def bitmap_cap_def less_mult_imp_div_less mult.commute)
  then show ?thesis
    by (simp add: bitmap_get_bit_iff bitmap_reset_def Let_def reset_bit reset_index)
qed

lemma bitmap_reset_partial_witness:
  "\<not> bitmap_get_bit (bitmap_reset (bitmap_constructor 128 False) True) 16 \<and>
   bitmap_get_bit (bitmap_reset (bitmap_constructor 128 False) True) 15"
  using bitmap_reset_partial [of "bitmap_constructor 128 False" 16 True]
    bitmap_reset_partial [of "bitmap_constructor 128 False" 15 True]
  by (simp add: bitmap_constructor_cap bitmap_constructor_get)
    (simp add: bitmap_constructor_def bitmap_words_def)

end
