(* ===== verification/Allocator.thy ===== *)
theory Allocator
  imports Errcode
begin

text \<open>
  The block allocator of \<^verbatim>\<open>zstore_allocator.h\<close>: a bitmap of 512-bit entries (bit set:
  allocated), a counter of free blocks and a search hint. Block numbers, lengths and
  counters are natural numbers: mkfs bounds the number of blocks by \<open>2 ^ 28\<close>, far below
  the width of \<open>uint64_t\<close>. The words of the bitmap are 64-bit words. A write or read of
  the array \<open>bs_\<close> beyond the entries allocated for it is a memory fault: the
  operations return \<open>None\<close> (or \<open>Alloc_fault\<close> inside the loop). A field with a trailing
  underscore has a prefix instead: \<open>bs_\<close> is \<open>sa_bs\<close>, \<open>lba_\<close> is \<open>ze_lba\<close>.
\<close>

section \<open>Data\<close>

record zstore_extent =
  ze_lba :: nat
  ze_len :: nat

type_synonym stupid_bitmap_entry = "u64 list" \<comment> \<open>\<open>bits_[8]\<close>\<close>

record stupid_allocator =
  sa_bs :: "stupid_bitmap_entry list"
  sa_nr_free :: nat
  sa_nr_total :: nat
  sa_nr_entrys :: nat
  sa_hint :: nat

text \<open>The word \<open>bs_[i >> 9].bits_[(i & 511) >> 6]\<close> of block \<open>i\<close>.\<close>

definition in_bs :: "stupid_bitmap_entry list \<Rightarrow> nat \<Rightarrow> bool" where
  "in_bs bs i \<longleftrightarrow> i div 512 < length bs"

definition word_at :: "stupid_bitmap_entry list \<Rightarrow> nat \<Rightarrow> u64" where
  "word_at bs i = bs ! (i div 512) ! ((i mod 512) div 64)"

definition set_word :: "stupid_bitmap_entry list \<Rightarrow> nat \<Rightarrow> u64 \<Rightarrow> stupid_bitmap_entry list" where
  "set_word bs i v = bs[i div 512 := (bs ! (i div 512))[(i mod 512) div 64 := v]]"

definition stupid_allocator_constructor :: "nat \<Rightarrow> stupid_allocator" where
  "stupid_allocator_constructor nr_total =
     \<lparr>sa_bs = replicate (nr_total div 512) (replicate 8 0), sa_nr_free = 0, sa_nr_total = nr_total,
      sa_nr_entrys = (nr_total + 511) div 512, sa_hint = 0\<rparr>"

section \<open>Loading a bitmap entry\<close>

function count_free_loop :: "stupid_bitmap_entry list \<Rightarrow> nat \<Rightarrow> nat \<Rightarrow> nat \<Rightarrow> nat" where
  "count_free_loop bs end i total_free =
     (if i < end then
        if i + 64 < end \<and> word_at bs i = 0 then count_free_loop bs end (i + 64) (total_free + 64)
        else count_free_loop bs end (i + 1)
               (if word_at bs i AND ull_bit (i mod 64) = 0 then total_free + 1 else total_free)
      else total_free)"
  by pat_completeness auto
termination
  by (relation "measure (\<lambda>(bs, end, i, n). end - i)") auto

definition stupid_allocator_init_bitmap_entry ::
    "stupid_allocator \<Rightarrow> nat \<Rightarrow> stupid_bitmap_entry \<Rightarrow> stupid_allocator option" where
  "stupid_allocator_init_bitmap_entry a entry_index src =
     (if entry_index < length (sa_bs a) then
        let bs = (sa_bs a)[entry_index := src];
            end = (if (entry_index + 1) * 512 > sa_nr_total a then sa_nr_total a
                   else (entry_index + 1) * 512);
            total_free = count_free_loop bs end (entry_index * 512) 0
        in Some (a\<lparr>sa_bs := bs, sa_nr_free := sa_nr_free a + total_free\<rparr>)
      else None)"

section \<open>Allocation\<close>

text \<open>
  The local variables of \<open>stupid_alloc_space\<close>. The extents written so far are a list:
  \<open>p_ex\<close> points at its last element while \<open>in_found_ctx\<close> holds, and one past it
  otherwise, so a new extent is appended and the current one is the last.
\<close>

record alloc_st =
  as_bs :: "stupid_bitmap_entry list"
  as_it :: nat
  as_rsv_len :: nat
  as_ex :: "zstore_extent list"
  as_end_flag :: bool
  as_in_found_ctx :: bool

datatype alloc_res =
    Alloc_fault
  | Alloc_no_space "stupid_bitmap_entry list" "zstore_extent list"
  | Alloc_done "stupid_bitmap_entry list" "zstore_extent list" nat

definition grow_last :: "zstore_extent list \<Rightarrow> zstore_extent list" where
  "grow_last ex = butlast ex @ [(last ex)\<lparr>ze_len := ze_len (last ex) + 1\<rparr>]"

text \<open>One turn of the loop, with its guard and its increment \<open>++it\<close>.\<close>

definition alloc_step :: "nat \<Rightarrow> nat \<Rightarrow> nat \<Rightarrow> alloc_st \<Rightarrow> alloc_res + alloc_st" where
  "alloc_step tot hint sz st =
     (if as_it st < tot + hint then
        let i = as_it st mod tot in
        if \<not> in_bs (as_bs st) i then Inl Alloc_fault
        else let v = word_at (as_bs st) i in
        if NOT v = 0 then Inr (st\<lparr>as_it := as_it st + 64 + 1\<rparr>)
        else let bit = v AND ull_bit (i mod 64) in
        if \<not> as_end_flag st then
          let st1 =
            (if bit = 0 then
               let ex = (if as_in_found_ctx st then as_ex st
                         else as_ex st @ [\<lparr>ze_lba = i, ze_len = 0\<rparr>])
               in st\<lparr>as_ex := grow_last ex, as_in_found_ctx := True,
                     as_rsv_len := as_rsv_len st + 1,
                     as_bs := set_word (as_bs st) i (v OR ull_bit (i mod 64))\<rparr>
             else st\<lparr>as_in_found_ctx := False\<rparr>)
          in Inr (st1\<lparr>as_end_flag := (as_rsv_len st1 = sz), as_it := as_it st + 1\<rparr>)
        else if bit = 0 then Inl (Alloc_done (as_bs st) (as_ex st) i)
        else Inr (st\<lparr>as_it := as_it st + 1\<rparr>)
      else Inl (Alloc_no_space (as_bs st) (as_ex st)))"

lemma alloc_step_it: "alloc_step tot hint sz st = Inr st' \<Longrightarrow>
    as_it st < tot + hint \<and> as_it st < as_it st'"
  by (auto simp: alloc_step_def Let_def split: if_splits)

function alloc_loop :: "nat \<Rightarrow> nat \<Rightarrow> nat \<Rightarrow> alloc_st \<Rightarrow> alloc_res" where
  "alloc_loop tot hint sz st =
     (case alloc_step tot hint sz st of
        Inl r \<Rightarrow> r
      | Inr st' \<Rightarrow> alloc_loop tot hint sz st')"
  by pat_completeness auto
termination
  by (relation "measure (\<lambda>(tot, hint, sz, st). tot + hint - as_it st)")
    (auto dest: alloc_step_it)

text \<open>
  The status, the new allocator and the extents with their number \<open>*ex_nr\<close> (left alone
  by the early return, hence the empty list there).
\<close>

definition stupid_alloc_space ::
    "stupid_allocator \<Rightarrow> nat \<Rightarrow> (int \<times> stupid_allocator \<times> zstore_extent list) option" where
  "stupid_alloc_space a sz =
     (if sa_nr_free a < sz then Some (- 1, a, [])
      else case alloc_loop (sa_nr_total a) (sa_hint a) sz
             \<lparr>as_bs = sa_bs a, as_it = sa_hint a, as_rsv_len = 0, as_ex = [],
              as_end_flag = False, as_in_found_ctx = False\<rparr> of
        Alloc_fault \<Rightarrow> None
      | Alloc_no_space bs ex \<Rightarrow> Some (status_code OSTORE_NO_SPACE, a\<lparr>sa_bs := bs\<rparr>, ex)
      | Alloc_done bs ex h \<Rightarrow>
          Some (0, a\<lparr>sa_bs := bs, sa_hint := h, sa_nr_free := sa_nr_free a - sz\<rparr>, ex))"

section \<open>Release\<close>

fun free_blocks :: "stupid_bitmap_entry list \<Rightarrow> nat \<Rightarrow> nat \<Rightarrow> stupid_bitmap_entry list option" where
  "free_blocks bs lba 0 = Some bs"
| "free_blocks bs lba (Suc n) =
     (if in_bs bs lba then
        free_blocks (set_word bs lba (word_at bs lba AND NOT (ull_bit (lba mod 64)))) (lba + 1) n
      else None)"

fun free_extents :: "stupid_bitmap_entry list \<Rightarrow> zstore_extent list \<Rightarrow> stupid_bitmap_entry list option"
  where
  "free_extents bs [] = Some bs"
| "free_extents bs (e # es) =
     (case free_blocks bs (ze_lba e) (ze_len e) of None \<Rightarrow> None | Some bs' \<Rightarrow> free_extents bs' es)"

definition stupid_free_space ::
    "stupid_allocator \<Rightarrow> zstore_extent list \<Rightarrow> stupid_allocator option" where
  "stupid_free_space a ex =
     map_option (\<lambda>bs. a\<lparr>sa_bs := bs, sa_nr_free := sa_nr_free a + sum_list (map ze_len ex)\<rparr>)
       (free_extents (sa_bs a) ex)"

section \<open>Bits of the bitmap\<close>

definition wf_bs :: "stupid_bitmap_entry list \<Rightarrow> bool" where
  "wf_bs bs \<longleftrightarrow> (\<forall>e\<in>set bs. length e = 8)"

definition bs_bit :: "stupid_bitmap_entry list \<Rightarrow> nat \<Rightarrow> bool" where
  "bs_bit bs i \<longleftrightarrow> bit (word_at bs i) (i mod 64)"

lemma block_word_index: "i div 512 = i div 64 div 8" "i mod 512 div 64 = i div 64 mod (8 :: nat)"
  using div_mult2_eq [of i 64 8] mod_mult2_eq [of i 64 8] by simp_all

lemma word_index_lt: "(i :: nat) mod 512 div 64 < 8"
  by (simp add: less_mult_imp_div_less)

lemma wf_bs_entry: "wf_bs bs \<Longrightarrow> in_bs bs i \<Longrightarrow> length (bs ! (i div 512)) = 8"
  by (simp add: wf_bs_def in_bs_def)

lemma in_bs_set_word [simp]: "in_bs (set_word bs i v) j = in_bs bs j"
  by (simp add: in_bs_def set_word_def)

lemma length_set_word [simp]: "length (set_word bs i v) = length bs"
  by (simp add: set_word_def)

lemma wf_set_word [simp]: "wf_bs bs \<Longrightarrow> wf_bs (set_word bs i v)"
  unfolding wf_bs_def set_word_def
  by (cases "i div 512 < length bs")
    (auto dest!: subsetD [OF set_update_subset_insert] simp: list_update_beyond)

lemma word_at_set_word:
  assumes "wf_bs bs" and "in_bs bs i"
  shows "word_at (set_word bs i v) j = (if j div 64 = i div 64 then v else word_at bs j)"
proof -
  have "j div 64 = i div 64 \<longleftrightarrow> j div 64 div 8 = i div 64 div 8 \<and> j div 64 mod 8 = i div 64 mod 8"
    by (metis div_mult_mod_eq)
  with wf_bs_entry [OF assms] assms(2) show ?thesis
    by (auto simp: word_at_def set_word_def in_bs_def nth_list_update block_word_index)
qed

lemma word_at_cong: "i div 64 = j div 64 \<Longrightarrow> word_at bs i = word_at bs j"
  by (simp add: word_at_def block_word_index)

lemma bs_bit_set:
  assumes "wf_bs bs" and "in_bs bs i"
  shows "bs_bit (set_word bs i (word_at bs i OR ull_bit (i mod 64))) j \<longleftrightarrow> j = i \<or> bs_bit bs j"
proof (cases "j div 64 = i div 64")
  case True
  then show ?thesis
    using div_mod_64_eq [OF True] word_at_cong [OF True, of bs]
    by (auto simp: bs_bit_def word_at_set_word [OF assms] bit_or_ull_bit)
qed (auto simp: bs_bit_def word_at_set_word [OF assms])

lemma bs_bit_clear:
  assumes "wf_bs bs" and "in_bs bs i"
  shows "bs_bit (set_word bs i (word_at bs i AND NOT (ull_bit (i mod 64)))) j \<longleftrightarrow>
    j \<noteq> i \<and> bs_bit bs j"
proof (cases "j div 64 = i div 64")
  case True
  then show ?thesis
    using div_mod_64_eq [OF True] word_at_cong [OF True, of bs]
    by (auto simp: bs_bit_def word_at_set_word [OF assms] bit_clear_ull_bit)
qed (auto simp: bs_bit_def word_at_set_word [OF assms])

lemma bit_test: "word_at bs i AND ull_bit (i mod 64) = 0 \<longleftrightarrow> \<not> bs_bit bs i"
  by (simp add: bs_bit_def and_ull_bit_eq_0)

lemma word_not_full: "\<not> bs_bit bs i \<Longrightarrow> NOT (word_at bs i) \<noteq> 0"
proof
  assume nb: "\<not> bs_bit bs i" and "NOT (word_at bs i) = 0"
  then have "word_at bs i = - 1" by (metis bit.double_compl bit.compl_zero)
  with nb show False by (simp add: bs_bit_def)
qed

section \<open>Counting free blocks\<close>

definition free_set :: "stupid_bitmap_entry list \<Rightarrow> nat \<Rightarrow> nat set" where
  "free_set bs n = {i. i < n \<and> \<not> bs_bit bs i}"

lemma finite_free_set [simp]: "finite (free_set bs n)"
  by (rule finite_subset [of _ "{..<n}"]) (auto simp: free_set_def)

text \<open>
  What the allocator keeps of its state: the array covers every block, and the counter is
  the number of clear bits.
\<close>

definition alloc_inv :: "stupid_allocator \<Rightarrow> bool" where
  "alloc_inv a \<longleftrightarrow> wf_bs (sa_bs a) \<and> sa_nr_total a \<le> 512 * length (sa_bs a) \<and>
     sa_nr_free a = card (free_set (sa_bs a) (sa_nr_total a))"

lemma in_bs_total: "n \<le> 512 * length bs \<Longrightarrow> i < n \<Longrightarrow> in_bs bs i"
  by (simp add: in_bs_def less_mult_imp_div_less mult.commute)

subsection \<open>The counting loop\<close>

declare count_free_loop.simps [simp del] alloc_loop.simps [simp del]

text \<open>
  A zero word is skipped whole. That is right at the start of a word; inside a zero word
  the loop is only near its end, where it goes bit by bit.
\<close>

lemma word_zero_bits:
  assumes "word_at bs i = 0" and "i mod 64 = 0" and "i \<le> j" and "j < i + 64"
  shows "\<not> bs_bit bs j"
proof -
  have "j div 64 = i div 64" using assms(2-4) by (intro div_nat_eqI) (auto simp: mult.commute)
  then show ?thesis using assms(1) by (simp add: bs_bit_def word_at_cong [of j i])
qed

lemma count_free_loop_acc:
  assumes "i mod 64 = 0 \<or> word_at bs i \<noteq> 0 \<or> end \<le> i + 64"
  shows "count_free_loop bs end i n = n + card {j. i \<le> j \<and> j < end \<and> \<not> bs_bit bs j}"
  using assms
proof (induction bs "end" i n rule: count_free_loop.induct)
  case (1 bs "end" i n)
  let ?S = "\<lambda>i. {j. i \<le> j \<and> j < end \<and> \<not> bs_bit bs j}"
  have fin: "finite (?S k)" for k by (rule finite_subset [of _ "{..<end}"]) auto
  consider (stop) "end \<le> i" | (skip) "i + 64 < end" "word_at bs i = 0"
    | (one) "i < end" "\<not> (i + 64 < end \<and> word_at bs i = 0)" by linarith
  then show ?case
  proof cases
    case stop
    then show ?thesis by (simp add: count_free_loop.simps [of bs "end" i n])
  next
    case skip
    then have al: "i mod 64 = 0" using 1(3) by auto
    have S: "?S i = {i..<i + 64} \<union> ?S (i + 64)"
      using word_zero_bits [OF skip(2) al] skip(1) by auto
    have "card (?S i) = 64 + card (?S (i + 64))"
      unfolding S using fin by (subst card_Un_disjoint) auto
    moreover have "count_free_loop bs end (i + 64) (n + 64) = n + 64 + card (?S (i + 64))"
      using 1(1) skip al by simp
    ultimately show ?thesis using skip by (simp add: count_free_loop.simps [of bs "end" i n])
  next
    case one
    have nxt: "(i + 1) mod 64 = 0 \<or> word_at bs (i + 1) \<noteq> 0 \<or> end \<le> (i + 1) + 64"
    proof (cases "(i + 1) mod 64 = 0")
      case False
      then have "(i + 1) div 64 = i div 64" by (metis Suc_eq_plus1 div_Suc)
      then show ?thesis using one word_at_cong [of "i + 1" i bs] by auto
    qed simp
    have S: "?S i = (if bs_bit bs i then {} else {i}) \<union> ?S (i + 1)"
      using one(1) by (auto simp: le_less Suc_le_eq)
    have "card (?S i) = (if bs_bit bs i then 0 else 1) + card (?S (i + 1))"
      unfolding S using fin by (subst card_Un_disjoint) auto
    then show ?thesis
      using one 1(2) [OF one nxt]
      by (auto simp: count_free_loop.simps [of bs "end" i n] bit_test)
  qed
qed

end
