(* ===== verification/Allocator_Correct.thy ===== *)
theory Allocator_Correct
  imports Allocator
begin

text \<open>
  Correctness of the block allocator: what the allocation loop keeps, what a successful
  allocation returns, when it fails, and the inputs on which it hands out blocks that are
  in use.
\<close>

section \<open>Reasoning about the loop\<close>

lemma alloc_loop_rule:
  "P st \<Longrightarrow>
   (\<And>st st'. P st \<Longrightarrow> alloc_step tot hint sz st = Inr st' \<Longrightarrow> P st') \<Longrightarrow>
   (\<And>st r. P st \<Longrightarrow> alloc_step tot hint sz st = Inl r \<Longrightarrow> Q r) \<Longrightarrow>
   Q (alloc_loop tot hint sz st)"
proof (induction tot hint sz st rule: alloc_loop.induct)
  case (1 tot hint sz st)
  show ?case
  proof (cases "alloc_step tot hint sz st")
    case (Inl r)
    then show ?thesis using 1(2,4) by (simp add: alloc_loop.simps [of tot hint sz st])
  next
    case (Inr st')
    then show ?thesis
      using 1(1) [OF Inr 1(3) [OF 1(2) Inr] 1(3,4)] by (simp add: alloc_loop.simps [of tot hint sz st])
  qed
qed

text \<open>The ways a turn goes on: a full word, a free block, a used block, the final search.\<close>

definition take_block :: "nat \<Rightarrow> nat \<Rightarrow> alloc_st \<Rightarrow> alloc_st" where
  "take_block i sz st =
     st\<lparr>as_bs := set_word (as_bs st) i (word_at (as_bs st) i OR ull_bit (i mod 64)),
        as_it := as_it st + 1, as_rsv_len := as_rsv_len st + 1,
        as_ex := grow_last (if as_in_found_ctx st then as_ex st
                            else as_ex st @ [\<lparr>ze_lba = i, ze_len = 0\<rparr>]),
        as_end_flag := (as_rsv_len st + 1 = sz), as_in_found_ctx := True\<rparr>"

lemma alloc_step_Inr:
  assumes "alloc_step tot hint sz st = Inr st'"
  shows "as_it st < tot + hint \<and> in_bs (as_bs st) (as_it st mod tot) \<and>
    (st' = st\<lparr>as_it := as_it st + 65\<rparr> \<and> NOT (word_at (as_bs st) (as_it st mod tot)) = 0
     \<or> \<not> as_end_flag st \<and> \<not> bs_bit (as_bs st) (as_it st mod tot) \<and>
         st' = take_block (as_it st mod tot) sz st
     \<or> \<not> as_end_flag st \<and> bs_bit (as_bs st) (as_it st mod tot) \<and>
         st' = st\<lparr>as_it := as_it st + 1, as_end_flag := (as_rsv_len st = sz),
                  as_in_found_ctx := False\<rparr>
     \<or> as_end_flag st \<and> bs_bit (as_bs st) (as_it st mod tot) \<and>
         st' = st\<lparr>as_it := as_it st + 1\<rparr>)"
  using assms
  by (auto simp: alloc_step_def Let_def bit_test take_block_def split: if_splits)

lemma alloc_step_Inl:
  assumes "alloc_step tot hint sz st = Inl r"
  shows "r = Alloc_fault \<and> as_it st < tot + hint \<and> \<not> in_bs (as_bs st) (as_it st mod tot)
    \<or> r = Alloc_no_space (as_bs st) (as_ex st) \<and> tot + hint \<le> as_it st
    \<or> (as_end_flag st \<and> as_it st < tot + hint \<and>
       \<not> bs_bit (as_bs st) (as_it st mod tot) \<and>
       r = Alloc_done (as_bs st) (as_ex st) (as_it st mod tot))"
  using assms
  by (auto simp: alloc_step_def Let_def bit_test split: if_splits)

section \<open>The general invariant\<close>

definition ex_total :: "zstore_extent list \<Rightarrow> nat" where
  "ex_total ex = sum_list (map ze_len ex)"

lemma ex_total_grow [simp]: "ex \<noteq> [] \<Longrightarrow> ex_total (grow_last ex) = ex_total ex + 1"
  by (cases ex rule: rev_cases) (simp_all add: ex_total_def grow_last_def)

lemma ex_total_snoc [simp]: "ex_total (ex @ [e]) = ex_total ex + ze_len e"
  by (simp add: ex_total_def)

lemma grow_last_nonempty [simp]: "grow_last ex \<noteq> []"
  by (simp add: grow_last_def)

lemma length_grow_last [simp]: "ex \<noteq> [] \<Longrightarrow> length (grow_last ex) = length ex"
  by (simp add: grow_last_def)

text \<open>Against the bitmap \<open>bs0\<close> at the start.\<close>

definition st_inv :: "stupid_bitmap_entry list \<Rightarrow> nat \<Rightarrow> nat \<Rightarrow> alloc_st \<Rightarrow> bool" where
  "st_inv bs0 tot sz st \<longleftrightarrow>
     wf_bs (as_bs st) \<and> length (as_bs st) = length bs0 \<and>
     free_set (as_bs st) tot \<subseteq> free_set bs0 tot \<and>
     card (free_set (as_bs st) tot) + as_rsv_len st = card (free_set bs0 tot) \<and>
     ex_total (as_ex st) = as_rsv_len st \<and> length (as_ex st) \<le> as_rsv_len st \<and>
     (as_in_found_ctx st \<longrightarrow> as_ex st \<noteq> []) \<and>
     as_rsv_len st \<le> sz \<and> (as_end_flag st \<longleftrightarrow> as_rsv_len st = sz)"

lemma free_set_take:
  assumes "wf_bs bs" and "in_bs bs i"
  shows "free_set (set_word bs i (word_at bs i OR ull_bit (i mod 64))) tot = free_set bs tot - {i}"
  by (auto simp: free_set_def bs_bit_set [OF assms])

lemma free_set_clear:
  assumes "wf_bs bs" and "in_bs bs i" and "i < tot"
  shows "free_set (set_word bs i (word_at bs i AND NOT (ull_bit (i mod 64)))) tot =
    insert i (free_set bs tot)"
  using assms(3) by (auto simp: free_set_def bs_bit_clear [OF assms(1,2)])

lemma st_inv_take:
  assumes "st_inv bs0 tot sz st" and "in_bs (as_bs st) i" and "i \<in> free_set (as_bs st) tot"
    and "\<not> as_end_flag st"
  shows "st_inv bs0 tot sz (take_block i sz st)"
proof -
  have wf: "wf_bs (as_bs st)" using assms(1) by (simp add: st_inv_def)
  have "0 < card (free_set (as_bs st) tot)"
    using assms(3) card_gt_0_iff by fastforce
  then have "card (free_set (as_bs st) tot - {i}) + 1 = card (free_set (as_bs st) tot)"
    using assms(3) by (simp add: card_Diff_singleton)
  then show ?thesis
    using assms free_set_take [OF wf assms(2), of tot]
    by (auto simp: st_inv_def take_block_def)
qed

lemma st_inv_step:
  assumes "st_inv bs0 tot sz st" and "alloc_step tot hint sz st = Inr st'" and "0 < tot"
  shows "st_inv bs0 tot sz st'"
proof -
  have "as_it st mod tot < tot" using assms(3) by simp
  then show ?thesis
    using alloc_step_Inr [OF assms(2)] assms(1) st_inv_take [OF assms(1), of "as_it st mod tot"]
    by (auto simp: st_inv_def free_set_def)
qed

definition alloc_start :: "stupid_allocator \<Rightarrow> alloc_st" where
  "alloc_start a = \<lparr>as_bs = sa_bs a, as_it = sa_hint a, as_rsv_len = 0, as_ex = [],
     as_end_flag = False, as_in_found_ctx = False\<rparr>"

lemma st_inv_start:
  "wf_bs (sa_bs a) \<Longrightarrow> 0 < sz \<Longrightarrow> st_inv (sa_bs a) tot sz (alloc_start a)"
  by (simp add: st_inv_def alloc_start_def ex_total_def)

text \<open>What holds of the loop's result.\<close>

fun res_inv :: "stupid_bitmap_entry list \<Rightarrow> nat \<Rightarrow> nat \<Rightarrow> alloc_res \<Rightarrow> bool" where
  "res_inv bs0 tot sz Alloc_fault \<longleftrightarrow> False"
| "res_inv bs0 tot sz (Alloc_no_space bs ex) \<longleftrightarrow>
     wf_bs bs \<and> length bs = length bs0 \<and> free_set bs tot \<subseteq> free_set bs0 tot \<and>
     card (free_set bs tot) + ex_total ex = card (free_set bs0 tot)"
| "res_inv bs0 tot sz (Alloc_done bs ex h) \<longleftrightarrow>
     wf_bs bs \<and> length bs = length bs0 \<and> free_set bs tot \<subseteq> free_set bs0 tot \<and>
     card (free_set bs tot) + sz = card (free_set bs0 tot) \<and> ex_total ex = sz \<and>
     length ex \<le> sz \<and> h \<in> free_set bs tot"

lemma alloc_loop_res_inv:
  assumes "wf_bs (sa_bs a)" and "sa_nr_total a \<le> 512 * length (sa_bs a)" and "0 < sz"
  shows "res_inv (sa_bs a) (sa_nr_total a) sz
    (alloc_loop (sa_nr_total a) (sa_hint a) sz (alloc_start a))"
proof (cases "sa_nr_total a = 0")
  case True
  then have "alloc_step (sa_nr_total a) (sa_hint a) sz (alloc_start a) =
      Inl (Alloc_no_space (sa_bs a) [])"
    by (simp add: alloc_step_def alloc_start_def)
  with True assms show ?thesis
    by (simp add: alloc_loop.simps free_set_def ex_total_def)
next
  case False
  let ?P = "\<lambda>st. st_inv (sa_bs a) (sa_nr_total a) sz st"
  show ?thesis
  proof (rule alloc_loop_rule [where P = ?P])
    show "?P (alloc_start a)" by (rule st_inv_start [OF assms(1,3)])
    show "?P st'" if "?P st" "alloc_step (sa_nr_total a) (sa_hint a) sz st = Inr st'" for st st'
      using st_inv_step that False by blast
    show "res_inv (sa_bs a) (sa_nr_total a) sz r"
      if P: "?P st" and s: "alloc_step (sa_nr_total a) (sa_hint a) sz st = Inl r" for st r
    proof -
      have lt: "as_it st mod sa_nr_total a < sa_nr_total a" using False by simp
      have "in_bs (as_bs st) (as_it st mod sa_nr_total a)"
        using in_bs_total [OF _ lt] assms(2) P by (simp add: st_inv_def)
      with alloc_step_Inl [OF s] P lt show ?thesis
        by (auto simp: st_inv_def free_set_def)
    qed
  qed
qed

lemma stupid_alloc_space_cases:
  assumes "stupid_alloc_space a sz = Some (rc, a', ex)"
  shows "rc = - 1 \<and> a' = a \<and> ex = [] \<and> sa_nr_free a < sz
    \<or> (\<exists>bs. alloc_loop (sa_nr_total a) (sa_hint a) sz (alloc_start a) = Alloc_no_space bs ex \<and>
          rc = status_code OSTORE_NO_SPACE \<and> a' = a\<lparr>sa_bs := bs\<rparr> \<and> sz \<le> sa_nr_free a)
    \<or> (\<exists>bs h. alloc_loop (sa_nr_total a) (sa_hint a) sz (alloc_start a) = Alloc_done bs ex h \<and>
          rc = 0 \<and> a' = a\<lparr>sa_bs := bs, sa_hint := h, sa_nr_free := sa_nr_free a - sz\<rparr> \<and>
          sz \<le> sa_nr_free a)"
  using assms
  by (auto simp: stupid_alloc_space_def alloc_start_def split: if_splits alloc_res.splits)

section \<open>Success and failure\<close>

lemma alloc_no_fault:
  assumes "alloc_inv a" and "0 < sz"
  obtains rc a' ex where "stupid_alloc_space a sz = Some (rc, a', ex)"
proof (cases "stupid_alloc_space a sz")
  case None
  then have "alloc_loop (sa_nr_total a) (sa_hint a) sz (alloc_start a) = Alloc_fault"
    by (auto simp: stupid_alloc_space_def alloc_start_def split: if_splits alloc_res.splits)
  with alloc_loop_res_inv [of a sz] assms show ?thesis by (auto simp: alloc_inv_def)
next
  case (Some r)
  then show ?thesis using that by (cases r) auto
qed

lemma alloc_success:
  assumes "alloc_inv a" and "0 < sz" and "stupid_alloc_space a sz = Some (0, a', ex)"
  shows "alloc_inv a' \<and> sa_nr_total a' = sa_nr_total a \<and> sa_nr_free a' + sz = sa_nr_free a \<and>
    ex_total ex = sz \<and> length ex \<le> sz \<and> sa_hint a' < sa_nr_total a \<and>
    0 < sa_nr_free a' \<and>
    free_set (sa_bs a') (sa_nr_total a) \<subseteq> free_set (sa_bs a) (sa_nr_total a)"
proof -
  obtain bs h where l: "alloc_loop (sa_nr_total a) (sa_hint a) sz (alloc_start a) = Alloc_done bs ex h"
    and a': "a' = a\<lparr>sa_bs := bs, sa_hint := h, sa_nr_free := sa_nr_free a - sz\<rparr>"
    and le: "sz \<le> sa_nr_free a"
    using stupid_alloc_space_cases [OF assms(3)] by auto
  have r: "res_inv (sa_bs a) (sa_nr_total a) sz (Alloc_done bs ex h)"
    using alloc_loop_res_inv [of a sz] assms l by (auto simp: alloc_inv_def)
  then have "0 < card (free_set bs (sa_nr_total a))"
    using card_gt_0_iff by fastforce
  with r assms(1) le show ?thesis
    by (auto simp: a' alloc_inv_def free_set_def)
qed

text \<open>
  The last free blocks cannot be allocated: after taking what it needs the loop insists on
  one more free block for the new hint.
\<close>

lemma alloc_needs_spare:
  assumes "alloc_inv a" and "0 < sz" and "sa_nr_free a \<le> sz"
    and "stupid_alloc_space a sz = Some (rc, a', ex)"
  shows "rc \<noteq> 0"
  using alloc_success [of a sz a' ex] assms by auto

lemma alloc_failure_leak:
  assumes "alloc_inv a" and "0 < sz" and "stupid_alloc_space a sz = Some (rc, a', ex)" and "rc \<noteq> 0"
  shows "sa_nr_free a' = sa_nr_free a \<and> sa_nr_total a' = sa_nr_total a \<and> wf_bs (sa_bs a') \<and>
    length (sa_bs a') = length (sa_bs a) \<and>
    free_set (sa_bs a') (sa_nr_total a) \<subseteq> free_set (sa_bs a) (sa_nr_total a) \<and>
    card (free_set (sa_bs a') (sa_nr_total a)) + ex_total ex = sa_nr_free a \<and>
    (rc = - 1 \<or> rc = status_code OSTORE_NO_SPACE)"
  using stupid_alloc_space_cases [OF assms(3)] assms alloc_loop_res_inv [of a sz]
  by (auto simp: alloc_inv_def ex_total_def)

section \<open>One block\<close>

text \<open>The metadata allocator asks for one block at a time; then the answer is right.\<close>

definition one_inv :: "stupid_bitmap_entry list \<Rightarrow> nat \<Rightarrow> alloc_st \<Rightarrow> bool" where
  "one_inv bs0 tot st \<longleftrightarrow>
     (if as_end_flag st then
        \<exists>i. i \<in> free_set bs0 tot \<and> as_ex st = [\<lparr>ze_lba = i, ze_len = 1\<rparr>] \<and>
            as_bs st = set_word bs0 i (word_at bs0 i OR ull_bit (i mod 64))
      else as_ex st = [] \<and> as_bs st = bs0 \<and> as_rsv_len st = 0 \<and> \<not> as_in_found_ctx st)"

lemma one_inv_step:
  assumes "one_inv bs0 tot st" and "alloc_step tot hint 1 st = Inr st'" and "0 < tot"
  shows "one_inv bs0 tot st'"
proof -
  have "as_it st mod tot < tot" using assms(3) by simp
  then show ?thesis
    using alloc_step_Inr [OF assms(2)] assms(1)
    by (auto simp: one_inv_def free_set_def take_block_def grow_last_def)
qed

fun one_res :: "stupid_bitmap_entry list \<Rightarrow> nat \<Rightarrow> alloc_res \<Rightarrow> bool" where
  "one_res bs0 tot (Alloc_done bs ex h) \<longleftrightarrow>
     (\<exists>i. i \<in> free_set bs0 tot \<and> ex = [\<lparr>ze_lba = i, ze_len = 1\<rparr>] \<and>
          bs = set_word bs0 i (word_at bs0 i OR ull_bit (i mod 64)))"
| "one_res bs0 tot r \<longleftrightarrow> True"

lemma alloc_loop_one:
  "one_res (sa_bs a) (sa_nr_total a) (alloc_loop (sa_nr_total a) (sa_hint a) 1 (alloc_start a))"
proof (cases "sa_nr_total a = 0")
  case True
  then have "alloc_step (sa_nr_total a) (sa_hint a) 1 (alloc_start a) =
      Inl (Alloc_no_space (sa_bs a) [])"
    by (simp add: alloc_step_def alloc_start_def)
  with True show ?thesis by (simp add: alloc_loop.simps)
next
  case False
  show ?thesis
  proof (rule alloc_loop_rule [where P = "one_inv (sa_bs a) (sa_nr_total a)"])
    show "one_inv (sa_bs a) (sa_nr_total a) (alloc_start a)"
      by (simp add: one_inv_def alloc_start_def)
  next
    show "one_inv (sa_bs a) (sa_nr_total a) st'" if "one_inv (sa_bs a) (sa_nr_total a) st"
      "alloc_step (sa_nr_total a) (sa_hint a) 1 st = Inr st'" for st st'
      using one_inv_step that False by blast
  next
    show "one_res (sa_bs a) (sa_nr_total a) r" if "one_inv (sa_bs a) (sa_nr_total a) st"
      "alloc_step (sa_nr_total a) (sa_hint a) 1 st = Inl r" for st r
      using alloc_step_Inl [OF that(2)] that(1) by (auto simp: one_inv_def)
  qed
qed

lemma alloc_one:
  assumes "stupid_alloc_space a 1 = Some (0, a', ex)"
  obtains i where "i \<in> free_set (sa_bs a) (sa_nr_total a)" and "ex = [\<lparr>ze_lba = i, ze_len = 1\<rparr>]"
    and "sa_bs a' = set_word (sa_bs a) i (word_at (sa_bs a) i OR ull_bit (i mod 64))"
  using stupid_alloc_space_cases [OF assms] alloc_loop_one [of a] by auto

section \<open>A run of free blocks at the hint\<close>

text \<open>
  The normal case of a store that fills up: all \<open>sz\<close> blocks from the hint on are free.
  They are returned as one extent, and exactly their bits are set.
\<close>

definition run_bits :: "stupid_bitmap_entry list \<Rightarrow> stupid_bitmap_entry list \<Rightarrow> nat \<Rightarrow> nat \<Rightarrow> bool"
  where
  "run_bits bs bs0 h n \<longleftrightarrow> (\<forall>j. bs_bit bs j \<longleftrightarrow> bs_bit bs0 j \<or> h \<le> j \<and> j < h + n)"

definition run_ex :: "nat \<Rightarrow> nat \<Rightarrow> zstore_extent list" where
  "run_ex h n = (if n = 0 then [] else [\<lparr>ze_lba = h, ze_len = n\<rparr>])"

definition run_inv :: "stupid_bitmap_entry list \<Rightarrow> nat \<Rightarrow> nat \<Rightarrow> alloc_st \<Rightarrow> bool" where
  "run_inv bs0 h sz st \<longleftrightarrow> wf_bs (as_bs st) \<and>
     (if as_end_flag st then as_ex st = run_ex h sz \<and> run_bits (as_bs st) bs0 h sz
      else as_rsv_len st < sz \<and> as_it st = h + as_rsv_len st \<and>
        as_in_found_ctx st = (0 < as_rsv_len st) \<and> as_ex st = run_ex h (as_rsv_len st) \<and>
        run_bits (as_bs st) bs0 h (as_rsv_len st))"

lemma run_ex_grow:
  "grow_last (if 0 < n then run_ex h n else run_ex h n @ [\<lparr>ze_lba = h + n, ze_len = 0\<rparr>]) =
     run_ex h (n + 1)"
  by (auto simp: run_ex_def grow_last_def)

lemma run_bits_set:
  assumes "run_bits bs bs0 h n" and "wf_bs bs" and "in_bs bs (h + n)"
  shows "run_bits (set_word bs (h + n) (word_at bs (h + n) OR ull_bit ((h + n) mod 64))) bs0 h (n + 1)"
  unfolding run_bits_def
proof (intro allI)
  fix j
  have "bs_bit bs j \<longleftrightarrow> bs_bit bs0 j \<or> h \<le> j \<and> j < h + n"
    using assms(1) unfolding run_bits_def by (rule spec)
  then show "bs_bit (set_word bs (h + n) (word_at bs (h + n) OR ull_bit ((h + n) mod 64))) j \<longleftrightarrow>
      bs_bit bs0 j \<or> h \<le> j \<and> j < h + (n + 1)"
    unfolding bs_bit_set [OF assms(2,3)] by linarith
qed

lemma run_bits_0: "run_bits bs bs h 0"
  unfolding run_bits_def by (intro allI) linarith

lemma run_inv_take:
  assumes inv: "run_inv bs0 h sz st" and "\<not> as_end_flag st" and "in_bs (as_bs st) (as_it st)"
  shows "run_inv bs0 h sz (take_block (as_it st) sz st)"
proof -
  define n where "n = as_rsv_len st"
  have n: "n < sz" "as_it st = h + n" "as_in_found_ctx st = (0 < n)" "as_ex st = run_ex h n"
    and b: "run_bits (as_bs st) bs0 h n" and wf: "wf_bs (as_bs st)"
    using inv assms(2) by (auto simp: run_inv_def n_def)
  have ib: "in_bs (as_bs st) (h + n)" using assms(3) n(2) by simp
  have "as_ex (take_block (as_it st) sz st) = run_ex h (n + 1)"
    using run_ex_grow [of n h] n by (cases "n = 0") (simp_all add: take_block_def)
  moreover have "run_bits (as_bs (take_block (as_it st) sz st)) bs0 h (n + 1)"
    using run_bits_set [OF b wf ib] n(2) by (simp add: take_block_def)
  moreover have "wf_bs (as_bs (take_block (as_it st) sz st))"
    using wf by (simp add: take_block_def)
  ultimately show ?thesis
    using n by (cases "sz = n + 1") (simp_all add: run_inv_def take_block_def flip: n_def)
qed

lemma run_inv_step:
  assumes inv: "run_inv bs0 h sz st" and step: "alloc_step tot h sz st = Inr st'"
    and free: "\<forall>k < sz. \<not> bs_bit bs0 (h + k)" and tot: "h + sz \<le> tot"
  shows "run_inv bs0 h sz st'"
proof (cases "as_end_flag st")
  case True
  then show ?thesis
    using alloc_step_Inr [OF step] inv by (elim conjE disjE) (simp_all add: run_inv_def)
next
  case False
  define n where "n = as_rsv_len st"
  have n: "n < sz" "as_it st = h + n" and b: "run_bits (as_bs st) bs0 h n"
    using inv False by (auto simp: run_inv_def n_def)
  have m: "as_it st mod tot = as_it st" using tot n by simp
  have nb: "\<not> bs_bit (as_bs st) (as_it st)"
    using b free n by (simp add: run_bits_def)
  have "st' = take_block (as_it st) sz st"
    using alloc_step_Inr [OF step] nb word_not_full [OF nb] False m by auto
  moreover have "in_bs (as_bs st) (as_it st)" using alloc_step_Inr [OF step] m by auto
  ultimately show ?thesis using run_inv_take [OF inv False] by simp
qed

lemma alloc_run:
  assumes wf: "wf_bs (sa_bs a)" and free: "\<forall>k < sz. \<not> bs_bit (sa_bs a) (sa_hint a + k)"
    and sz: "0 < sz" and tot: "sa_hint a + sz \<le> sa_nr_total a"
    and s: "stupid_alloc_space a sz = Some (0, a', ex)"
  shows "ex = [\<lparr>ze_lba = sa_hint a, ze_len = sz\<rparr>] \<and>
    (\<forall>j. bs_bit (sa_bs a') j \<longleftrightarrow> bs_bit (sa_bs a) j \<or> sa_hint a \<le> j \<and> j < sa_hint a + sz)"
proof -
  define Q where "Q = (\<lambda>r. case r of Alloc_done bs ex h \<Rightarrow>
      ex = run_ex (sa_hint a) sz \<and> run_bits bs (sa_bs a) (sa_hint a) sz | _ \<Rightarrow> True)"
  have "Q (alloc_loop (sa_nr_total a) (sa_hint a) sz (alloc_start a))"
  proof (rule alloc_loop_rule [where P = "run_inv (sa_bs a) (sa_hint a) sz"])
    show "run_inv (sa_bs a) (sa_hint a) sz (alloc_start a)"
      using wf sz by (simp add: run_inv_def alloc_start_def run_bits_0 run_ex_def)
  next
    show "run_inv (sa_bs a) (sa_hint a) sz st'" if "run_inv (sa_bs a) (sa_hint a) sz st"
      "alloc_step (sa_nr_total a) (sa_hint a) sz st = Inr st'" for st st'
      using run_inv_step [OF that free tot] .
  next
    show "Q r" if "run_inv (sa_bs a) (sa_hint a) sz st"
      "alloc_step (sa_nr_total a) (sa_hint a) sz st = Inl r" for st r
      using alloc_step_Inl [OF that(2)] that(1)
      by (elim disjE) (simp_all add: run_inv_def Q_def)
  qed
  with stupid_alloc_space_cases [OF s] sz show ?thesis
    by (auto simp: Q_def run_ex_def run_bits_def)
qed

text \<open>And it succeeds when the block after the run is free too.\<close>

lemma alloc_run_ok:
  assumes wf: "wf_bs (sa_bs a)" and cap: "sa_nr_total a \<le> 512 * length (sa_bs a)"
    and free: "\<forall>k \<le> sz. \<not> bs_bit (sa_bs a) (sa_hint a + k)"
    and sz: "0 < sz" and tot: "sa_hint a + sz < sa_nr_total a" and nf: "sz \<le> sa_nr_free a"
  obtains a' ex where "stupid_alloc_space a sz = Some (0, a', ex)"
    and "sa_hint a' = sa_hint a + sz"
proof -
  let ?h = "sa_hint a" and ?tot = "sa_nr_total a"
  define P where "P = (\<lambda>st. run_inv (sa_bs a) ?h sz st \<and> length (as_bs st) = length (sa_bs a) \<and>
    (as_end_flag st \<longrightarrow> as_it st = ?h + sz))"
  have tot': "?h + sz \<le> ?tot" and free': "\<forall>k < sz. \<not> bs_bit (sa_bs a) (?h + k)"
    using tot free by auto
  have it: "as_it st < ?tot" "\<not> bs_bit (as_bs st) (as_it st)" "in_bs (as_bs st) (as_it st)"
    if "P st" for st
  proof -
    show lt: "as_it st < ?tot" using that tot by (cases "as_end_flag st") (auto simp: P_def run_inv_def)
    show "\<not> bs_bit (as_bs st) (as_it st)" using that free
      by (cases "as_end_flag st") (auto simp: P_def run_inv_def run_bits_def)
    show "in_bs (as_bs st) (as_it st)"
      using in_bs_total [OF _ lt] cap that by (simp add: P_def)
  qed
  have "\<exists>bs ex. alloc_loop ?tot ?h sz (alloc_start a) = Alloc_done bs ex (?h + sz)"
  proof (rule alloc_loop_rule [where P = P])
    show "P (alloc_start a)"
      using wf sz by (simp add: P_def run_inv_def alloc_start_def run_bits_0 run_ex_def)
  next
    fix st st' assume P: "P st" and s: "alloc_step ?tot ?h sz st = Inr st'"
    have inv': "run_inv (sa_bs a) ?h sz st'"
      using run_inv_step [OF _ s free' tot'] P by (simp add: P_def)
    have "\<not> as_end_flag st \<and> st' = take_block (as_it st) sz st"
      using alloc_step_Inr [OF s] it [OF P] word_not_full [of "as_bs st" "as_it st"] by auto
    with P inv' show "P st'"
      by (auto simp: P_def take_block_def run_inv_def)
  next
    fix st r assume P: "P st" and s: "alloc_step ?tot ?h sz st = Inl r"
    then show "\<exists>bs ex. r = Alloc_done bs ex (?h + sz)"
      using alloc_step_Inl [OF s] it [OF P] by (auto simp: P_def)
  qed
  then show thesis
    using that nf by (auto simp: stupid_alloc_space_def alloc_start_def)
qed

lemma alloc_run_full:
  assumes "alloc_inv a" and "0 < sz" and "sa_hint a + sz < sa_nr_total a"
    and "\<forall>k. k \<le> sz \<longrightarrow> \<not> bs_bit (sa_bs a) (sa_hint a + k)"
  shows "\<exists>a'. stupid_alloc_space a sz = Some (0, a', [\<lparr>ze_lba = sa_hint a, ze_len = sz\<rparr>]) \<and>
    sa_hint a' = sa_hint a + sz \<and>
    (\<forall>j. bs_bit (sa_bs a') j \<longleftrightarrow> bs_bit (sa_bs a) j \<or> sa_hint a \<le> j \<and> j < sa_hint a + sz)"
proof -
  have wf: "wf_bs (sa_bs a)" and cap: "sa_nr_total a \<le> 512 * length (sa_bs a)"
    and nf: "sa_nr_free a = card (free_set (sa_bs a) (sa_nr_total a))"
    using assms(1) by (auto simp: alloc_inv_def)
  have "{sa_hint a..<sa_hint a + sz} \<subseteq> free_set (sa_bs a) (sa_nr_total a)"
  proof
    fix j assume j: "j \<in> {sa_hint a..<sa_hint a + sz}"
    then have "j - sa_hint a \<le> sz" and "sa_hint a + (j - sa_hint a) = j" by auto
    then have "\<not> bs_bit (sa_bs a) j"
      using assms(4) [rule_format, of "j - sa_hint a"] by simp
    with j assms(3) show "j \<in> free_set (sa_bs a) (sa_nr_total a)" by (simp add: free_set_def)
  qed
  then have "card {sa_hint a..<sa_hint a + sz} \<le> card (free_set (sa_bs a) (sa_nr_total a))"
    by (intro card_mono) simp
  then have le: "sz \<le> sa_nr_free a" using nf by simp
  obtain a' ex where s: "stupid_alloc_space a sz = Some (0, a', ex)"
    and h: "sa_hint a' = sa_hint a + sz"
    using alloc_run_ok [OF wf cap assms(4,2,3) le] .
  have free: "\<forall>k < sz. \<not> bs_bit (sa_bs a) (sa_hint a + k)" using assms(4) by simp
  show ?thesis
    using alloc_run [OF wf free assms(2) less_imp_le [OF assms(3)] s] s h by blast
qed

section \<open>Release\<close>

definition ex_blocks :: "zstore_extent list \<Rightarrow> nat list" where
  "ex_blocks ex = concat (map (\<lambda>e. [ze_lba e..<ze_lba e + ze_len e]) ex)"

lemma length_ex_blocks: "length (ex_blocks ex) = ex_total ex"
  by (induction ex) (simp_all add: ex_blocks_def ex_total_def)

lemma free_blocks_correct:
  assumes "wf_bs bs" and "\<forall>j. l \<le> j \<and> j < l + n \<longrightarrow> in_bs bs j"
  shows "\<exists>bs'. free_blocks bs l n = Some bs' \<and> wf_bs bs' \<and> length bs' = length bs \<and>
    (\<forall>j. bs_bit bs' j \<longleftrightarrow> bs_bit bs j \<and> j \<notin> {l..<l + n})"
  using assms
proof (induction bs l n rule: free_blocks.induct)
  case (1 bs l)
  then show ?case by simp
next
  case (2 bs l n)
  let ?bs = "set_word bs l (word_at bs l AND NOT (ull_bit (l mod 64)))"
  have ib: "in_bs bs l" using 2(3) by simp
  obtain bs' where bs': "free_blocks ?bs (l + 1) n = Some bs'" "wf_bs bs'" "length bs' = length bs"
    and b: "\<And>j. bs_bit bs' j \<longleftrightarrow> bs_bit ?bs j \<and> j \<notin> {l + 1..<l + 1 + n}"
    using 2(1) [OF ib] 2(2,3) by auto
  have "bs_bit bs' j \<longleftrightarrow> bs_bit bs j \<and> j \<notin> {l..<l + Suc n}" for j
    unfolding b bs_bit_clear [OF 2(2) ib] by auto
  with bs' ib show ?case by simp
qed

lemma free_extents_correct:
  assumes "wf_bs bs" and "\<forall>j \<in> set (ex_blocks ex). in_bs bs j"
  shows "\<exists>bs'. free_extents bs ex = Some bs' \<and> wf_bs bs' \<and> length bs' = length bs \<and>
    (\<forall>j. bs_bit bs' j \<longleftrightarrow> bs_bit bs j \<and> j \<notin> set (ex_blocks ex))"
  using assms
proof (induction ex arbitrary: bs)
  case Nil
  then show ?case by (simp add: ex_blocks_def)
next
  case (Cons e ex)
  obtain bs1 where 1: "free_blocks bs (ze_lba e) (ze_len e) = Some bs1" "wf_bs bs1"
      "length bs1 = length bs"
      "\<And>j. bs_bit bs1 j \<longleftrightarrow> bs_bit bs j \<and> j \<notin> {ze_lba e..<ze_lba e + ze_len e}"
    using free_blocks_correct [OF Cons(2), of "ze_lba e" "ze_len e"] Cons(3)
    by (auto simp: ex_blocks_def)
  have "\<forall>j \<in> set (ex_blocks ex). in_bs bs1 j"
    using Cons(3) 1(3) by (auto simp: ex_blocks_def in_bs_def)
  then obtain bs2 where 2: "free_extents bs1 ex = Some bs2" "wf_bs bs2" "length bs2 = length bs1"
      "\<And>j. bs_bit bs2 j \<longleftrightarrow> bs_bit bs1 j \<and> j \<notin> set (ex_blocks ex)"
    using Cons(1) [OF 1(2)] by blast
  show ?case using 1 2 by (auto simp: ex_blocks_def)
qed

lemma free_space_correct:
  assumes inv: "alloc_inv a" and lt: "\<forall>j \<in> set (ex_blocks ex). j < sa_nr_total a"
    and used: "\<forall>j \<in> set (ex_blocks ex). bs_bit (sa_bs a) j" and dist: "distinct (ex_blocks ex)"
  obtains a' where "stupid_free_space a ex = Some a'" and "alloc_inv a'"
    and "free_set (sa_bs a') (sa_nr_total a) = free_set (sa_bs a) (sa_nr_total a) \<union> set (ex_blocks ex)"
    and "sa_nr_total a' = sa_nr_total a"
proof -
  let ?tot = "sa_nr_total a"
  have "\<forall>j \<in> set (ex_blocks ex). in_bs (sa_bs a) j"
    using lt in_bs_total [of ?tot "sa_bs a"] inv unfolding alloc_inv_def by blast
  then obtain bs where bs: "free_extents (sa_bs a) ex = Some bs" "wf_bs bs"
      "length bs = length (sa_bs a)"
      and b: "\<And>j. bs_bit bs j \<longleftrightarrow> bs_bit (sa_bs a) j \<and> j \<notin> set (ex_blocks ex)"
    using free_extents_correct [of "sa_bs a" ex] inv unfolding alloc_inv_def by blast
  have fs: "free_set bs ?tot = free_set (sa_bs a) ?tot \<union> set (ex_blocks ex)"
    using lt by (auto simp: free_set_def b)
  have "card (free_set bs ?tot) = card (free_set (sa_bs a) ?tot) + card (set (ex_blocks ex))"
    unfolding fs using used by (intro card_Un_disjoint) (auto simp: free_set_def)
  then have c: "card (free_set bs ?tot) = sa_nr_free a + ex_total ex"
    using inv dist by (simp add: alloc_inv_def distinct_card length_ex_blocks)
  define a' where "a' = a\<lparr>sa_bs := bs, sa_nr_free := sa_nr_free a + ex_total ex\<rparr>"
  have "stupid_free_space a ex = Some a'"
    using bs by (simp add: stupid_free_space_def ex_total_def a'_def)
  moreover have "alloc_inv a'"
    using inv bs c by (simp add: alloc_inv_def a'_def)
  moreover have "free_set (sa_bs a') ?tot = free_set (sa_bs a) ?tot \<union> set (ex_blocks ex)"
    using fs by (simp add: a'_def)
  moreover have "sa_nr_total a' = ?tot" by (simp add: a'_def)
  ultimately show thesis by (rule that)
qed

section \<open>The metadata allocator as a source of identifiers\<close>

text \<open>
  ZStore takes index blocks one at a time and gives them back one at a time. Safety does
  not need the counter, so the invariant leaves it out: a failed allocation breaks it.
\<close>

definition block_inv :: "stupid_allocator \<Rightarrow> bool" where
  "block_inv a \<longleftrightarrow> wf_bs (sa_bs a) \<and> sa_nr_total a \<le> 512 * length (sa_bs a)"

definition block_free :: "stupid_allocator \<Rightarrow> nat set" where
  "block_free a = free_set (sa_bs a) (sa_nr_total a)"

definition block_ids :: "stupid_allocator \<Rightarrow> nat set" where
  "block_ids a = {..<sa_nr_total a}"

definition block_get :: "stupid_allocator \<Rightarrow> nat option \<times> stupid_allocator" where
  "block_get a = (case stupid_alloc_space a 1 of
      None \<Rightarrow> (None, a)
    | Some (rc, a', ex) \<Rightarrow> if rc = 0 then (Some (ze_lba (hd ex)), a') else (None, a'))"

definition block_put :: "nat \<Rightarrow> stupid_allocator \<Rightarrow> stupid_allocator" where
  "block_put i a = (case stupid_free_space a [\<lparr>ze_lba = i, ze_len = 1\<rparr>] of
      None \<Rightarrow> a | Some a' \<Rightarrow> a')"

lemma block_get_fail:
  assumes "block_inv a" and "block_get a = (None, a')"
  shows "block_free a' \<subseteq> block_free a \<and> block_ids a' = block_ids a \<and> block_inv a'"
proof (cases "stupid_alloc_space a 1")
  case None
  with assms show ?thesis by (simp add: block_get_def)
next
  case (Some r)
  obtain rc a1 ex where r: "r = (rc, a1, ex)" by (cases r)
  with assms(2) Some have "a1 = a'" "rc \<noteq> 0" by (auto simp: block_get_def split: if_splits)
  with r Some have s: "stupid_alloc_space a 1 = Some (rc, a', ex)" by simp
  show ?thesis
    using stupid_alloc_space_cases [OF s] \<open>rc \<noteq> 0\<close> assms(1) alloc_loop_res_inv [of a 1]
    by (auto simp: block_inv_def block_free_def block_ids_def)
qed

lemma block_get_Some:
  assumes "block_inv a" and "block_get a = (Some i, a')"
  shows "i \<in> block_free a \<and> block_free a' = block_free a - {i} \<and> block_ids a' = block_ids a \<and>
    block_inv a'"
proof -
  from assms(2) obtain ex where s: "stupid_alloc_space a 1 = Some (0, a', ex)"
    and i: "i = ze_lba (hd ex)"
    by (auto simp: block_get_def split: option.splits if_splits)
  obtain j where j: "j \<in> free_set (sa_bs a) (sa_nr_total a)" and ex: "ex = [\<lparr>ze_lba = j, ze_len = 1\<rparr>]"
    and bs: "sa_bs a' = set_word (sa_bs a) j (word_at (sa_bs a) j OR ull_bit (j mod 64))"
    using alloc_one [OF s] .
  have "in_bs (sa_bs a) j"
    using in_bs_total j assms(1) by (auto simp: block_inv_def free_set_def)
  moreover have "sa_nr_total a' = sa_nr_total a"
    using stupid_alloc_space_cases [OF s] by auto
  ultimately show ?thesis
    using assms(1) j free_set_take [of "sa_bs a" j "sa_nr_total a"]
    by (auto simp: block_inv_def block_free_def block_ids_def bs i ex)
qed

lemma block_put_law:
  assumes "block_inv a" and "i \<in> block_ids a - block_free a"
  shows "block_free (block_put i a) = insert i (block_free a) \<and>
    block_ids (block_put i a) = block_ids a \<and> block_inv (block_put i a)"
proof -
  have i: "i < sa_nr_total a" using assms(2) by (simp add: block_ids_def)
  then have ib: "in_bs (sa_bs a) i"
    using in_bs_total [of "sa_nr_total a" "sa_bs a" i] assms(1) by (simp add: block_inv_def)
  define bs where "bs = set_word (sa_bs a) i (word_at (sa_bs a) i AND NOT (ull_bit (i mod 64)))"
  have put: "block_put i a = a\<lparr>sa_bs := bs, sa_nr_free := sa_nr_free a + 1\<rparr>"
    using ib by (simp add: block_put_def stupid_free_space_def bs_def)
  have wf: "wf_bs (sa_bs a)" using assms(1) by (simp add: block_inv_def)
  have "free_set bs (sa_nr_total a) = insert i (free_set (sa_bs a) (sa_nr_total a))"
    unfolding bs_def by (rule free_set_clear [OF wf ib i])
  moreover have "wf_bs bs" "length bs = length (sa_bs a)" using wf by (simp_all add: bs_def)
  ultimately show ?thesis
    using assms(1) unfolding put by (simp add: block_inv_def block_free_def block_ids_def)
qed

interpretation pmb: id_source block_inv block_free block_ids block_get block_put
proof unfold_locales
  show "block_free s \<subseteq> block_ids s" for s
    by (auto simp: block_free_def block_ids_def free_set_def)
qed (use block_get_fail block_get_Some block_put_law in blast)+

section \<open>Where extents start, and the jump over a full word\<close>

text \<open>Every extent of an allocation starts at a block that was free before it.\<close>

lemma alloc_ex_free:
  assumes inv: "alloc_inv a" and sz: "0 < sz" and s: "stupid_alloc_space a sz = Some (0, a', ex)"
  shows "\<forall>e \<in> set ex. ze_lba e \<in> free_set (sa_bs a) (sa_nr_total a) \<and> 0 < ze_len e"
proof -
  let ?t = "sa_nr_total a" and ?F = "free_set (sa_bs a) (sa_nr_total a)"
  define ok where "ok = (\<lambda>ex :: zstore_extent list. \<forall>e \<in> set ex. ze_lba e \<in> ?F \<and> 0 < ze_len e)"
  define Q where "Q = (\<lambda>r. case r of Alloc_done bs ex h \<Rightarrow> ok ex | _ \<Rightarrow> True)"
  have t: "0 < ?t" using alloc_success [OF assms] by linarith
  have wf: "wf_bs (sa_bs a)" using inv by (simp add: alloc_inv_def)
  have g: "ok (grow_last ex)" if "ok ex" "ex \<noteq> []" for ex
    using that by (auto simp: ok_def grow_last_def dest: in_set_butlastD)
  have n: "ok (grow_last (ex @ [\<lparr>ze_lba = i, ze_len = 0\<rparr>]))" if "ok ex" "i \<in> ?F" for ex i
    using that by (simp add: ok_def grow_last_def)
  have "Q (alloc_loop ?t (sa_hint a) sz (alloc_start a))"
  proof (rule alloc_loop_rule [where P = "\<lambda>st. st_inv (sa_bs a) ?t sz st \<and> ok (as_ex st)"])
    show "st_inv (sa_bs a) ?t sz (alloc_start a) \<and> ok (as_ex (alloc_start a))"
      using st_inv_start [OF wf sz] by (simp add: ok_def alloc_start_def)
  next
    fix st st' assume P: "st_inv (sa_bs a) ?t sz st \<and> ok (as_ex st)"
      and r: "alloc_step ?t (sa_hint a) sz st = Inr st'"
    let ?i = "as_it st mod ?t"
    have "ok (as_ex (take_block ?i sz st))" if "\<not> bs_bit (as_bs st) ?i"
    proof -
      have "free_set (as_bs st) ?t \<subseteq> ?F" using P by (simp add: st_inv_def)
      moreover have "?i \<in> free_set (as_bs st) ?t" using that t by (simp add: free_set_def)
      ultimately have "?i \<in> ?F" by blast
      moreover have "ok (as_ex st)" "as_in_found_ctx st \<longrightarrow> as_ex st \<noteq> []" using P by (simp_all add: st_inv_def)
      ultimately show ?thesis using g [of "as_ex st"] n [of "as_ex st" ?i]
        by (cases "as_in_found_ctx st") (simp_all add: take_block_def)
    qed
    then have "ok (as_ex st')"
      using P alloc_step_Inr [OF r] by (elim conjE disjE) simp_all
    then show "st_inv (sa_bs a) ?t sz st' \<and> ok (as_ex st')"
      using st_inv_step [OF conjunct1 [OF P] r t] by blast
  next
    fix st r assume "st_inv (sa_bs a) ?t sz st \<and> ok (as_ex st)"
      and "alloc_step ?t (sa_hint a) sz st = Inl r"
    then show "Q r" by (auto dest!: alloc_step_Inl simp: Q_def)
  qed
  then show ?thesis using stupid_alloc_space_cases [OF s] by (auto simp: Q_def ok_def)
qed

text \<open>What the loop leaves of the first extent once it covers two blocks.\<close>

definition first_two :: "nat \<Rightarrow> zstore_extent list \<Rightarrow> bool" where
  "first_two b ex \<longleftrightarrow> ex \<noteq> [] \<and> ze_lba (hd ex) = b \<and> 2 \<le> ze_len (hd ex)"

lemma first_two_grow: "first_two b ex \<Longrightarrow> first_two b (grow_last ex)"
  by (cases ex rule: rev_cases) (auto simp: first_two_def grow_last_def hd_append split: if_splits)

lemma first_two_snoc: "first_two b ex \<Longrightarrow> first_two b (grow_last (ex @ [e]))"
  unfolding first_two_def grow_last_def butlast_snoc last_snoc by simp

lemma first_two_loop:
  assumes "first_two b (as_ex st)" and "alloc_loop tot hint sz st = Alloc_done bs ex h"
  shows "first_two b ex"
proof -
  have "case alloc_loop tot hint sz st of Alloc_done bs ex h \<Rightarrow> first_two b ex | _ \<Rightarrow> True"
  proof (rule alloc_loop_rule [where P = "\<lambda>st. first_two b (as_ex st)"])
    fix st st' assume "first_two b (as_ex st)" and "alloc_step tot hint sz st = Inr st'"
    then show "first_two b (as_ex st')"
      by (auto dest!: alloc_step_Inr simp: take_block_def first_two_grow first_two_snoc)
  next
    fix st r assume "first_two b (as_ex st)" and "alloc_step tot hint sz st = Inl r"
    then show "case r of Alloc_done bs ex h \<Rightarrow> first_two b ex | _ \<Rightarrow> True"
      by (auto dest!: alloc_step_Inl)
  qed (rule assms(1))
  then show ?thesis using assms(2) by simp
qed

lemma full_word: "(\<And>j. j div 64 = i div 64 \<Longrightarrow> bs_bit bs j) \<Longrightarrow> NOT (word_at bs i) = 0"
proof (rule bit_eqI)
  fix n assume a: "\<And>j. j div 64 = i div 64 \<Longrightarrow> bs_bit bs j" and "possible_bit TYPE(u64) n"
  then have n: "n < 64" by simp
  have "bs_bit bs (i div 64 * 64 + n)" using n by (intro a) simp
  moreover have "word_at bs (i div 64 * 64 + n) = word_at bs i"
    using n by (intro word_at_cong) simp
  ultimately show "bit (NOT (word_at bs i)) n = bit 0 n"
    using n by (simp add: bs_bit_def bit_simps)
qed

lemma div_64_Suc: "b mod 64 < 63 \<Longrightarrow> (b + 1) div 64 = b div (64 :: nat)"
  using div_add1_eq [of b 1 64] by (simp del: One_nat_def add: div_eq_0_iff)

text \<open>The first three turns: the free block, the jump over its full word, the next one taken.\<close>

lemma alloc_jump:
  assumes inv: "wf_bs (sa_bs a)" "sa_nr_total a \<le> 512 * length (sa_bs a)"
    and sz: "2 \<le> sz" and b: "sa_hint a = b" "b + 66 < sa_nr_total a" "b mod 64 < 63"
    and used: "\<forall>j. j div 64 = b div 64 \<longrightarrow> bs_bit (sa_bs a) j \<longleftrightarrow> j \<noteq> b"
    and nx: "\<not> bs_bit (sa_bs a) (b + 66)"
  shows "\<exists>st. alloc_loop (sa_nr_total a) b sz (alloc_start a) = alloc_loop (sa_nr_total a) b sz st \<and>
    as_ex st = [\<lparr>ze_lba = b, ze_len = 2\<rparr>]"
proof -
  let ?t = "sa_nr_total a" and ?s0 = "alloc_start a"
  define s1 where "s1 = take_block b sz ?s0"
  define s2 where "s2 = s1\<lparr>as_it := b + 66\<rparr>"
  define s3 where "s3 = take_block (b + 66) sz s2"
  have i: "in_bs (sa_bs a) j" if "j < ?t" for j using in_bs_total [OF inv(2) that] .
  have nb: "\<not> bs_bit (sa_bs a) b" using used by blast
  have b1: "b mod ?t = b" "(b + 1) mod ?t = b + 1" "(b + 66) mod ?t = b + 66"
    using b(2) by simp_all
  have d: "(b + 1) div 64 = b div 64" using b(3) by (rule div_64_Suc)
  have st0: "alloc_step ?t b sz ?s0 = Inr s1"
    using word_not_full [OF nb] nb i [of b] b(1,2)
    by (simp add: alloc_step_def alloc_start_def s1_def take_block_def Let_def b1 bit_test)
  have bs1: "as_bs s1 = set_word (sa_bs a) b (word_at (sa_bs a) b OR ull_bit (b mod 64))"
    by (simp add: s1_def take_block_def alloc_start_def)
  have bit1: "bs_bit (as_bs s1) j \<longleftrightarrow> j = b \<or> bs_bit (sa_bs a) j" for j
    unfolding bs1 using bs_bit_set [OF inv(1) i [of b]] b(2) by simp
  have "NOT (word_at (as_bs s1) (b + 1)) = 0"
    unfolding word_at_cong [OF d]
    using used by (intro full_word) (auto simp: bit1)
  then have st1: "alloc_step ?t b sz s1 = Inr s2"
    using i [of "b + 1"] b(1,2) b1(2) sz
    by (simp add: alloc_step_def s2_def Let_def bs1) (simp add: s1_def take_block_def alloc_start_def)
  have n2: "\<not> bs_bit (as_bs s2) (b + 66)" using nx bit1 by (simp add: s2_def)
  have "as_end_flag s2 = False" using sz by (simp add: s2_def s1_def take_block_def alloc_start_def)
  then have st2: "alloc_step ?t b sz s2 = Inr s3"
    using word_not_full [OF n2] n2 i [of "b + 66"] b(1,2) b1(3)
    by (simp add: alloc_step_def s3_def Let_def take_block_def bit_test)
      (simp add: s2_def bs1)
  have "as_ex s3 = [\<lparr>ze_lba = b, ze_len = 2\<rparr>]"
    by (simp add: s3_def s2_def s1_def take_block_def alloc_start_def grow_last_def)
  moreover have "alloc_loop ?t b sz ?s0 = alloc_loop ?t b sz s3"
    by (simp add: alloc_loop.simps [of ?t b sz ?s0] alloc_loop.simps [of ?t b sz s1]
        alloc_loop.simps [of ?t b sz s2] st0 st1 st2)
  ultimately show ?thesis by blast
qed

section \<open>Properties\<close>

text \<open>A small allocator with one bitmap entry, for concrete runs.\<close>

definition demo_alloc :: "nat \<Rightarrow> u64 list \<Rightarrow> nat \<Rightarrow> stupid_allocator" where
  "demo_alloc n e free =
     \<lparr>sa_bs = [e], sa_nr_free = free, sa_nr_total = n, sa_nr_entrys = 1, sa_hint = 0\<rparr>"

lemma free_set_code: "free_set bs n = set (filter (\<lambda>i. \<not> bs_bit bs i) [0..<n])"
  by (auto simp: free_set_def)

lemma card_free_set: "card (free_set bs n) = length (filter (\<lambda>i. \<not> bs_bit bs i) [0..<n])"
  unfolding free_set_code by (rule distinct_card) simp

lemma alloc_inv_demo:
  "length e = 8 \<Longrightarrow> n \<le> 512 \<Longrightarrow> free = length (filter (\<lambda>i. \<not> bs_bit [e] i) [0..<n]) \<Longrightarrow>
     alloc_inv (demo_alloc n e free)"
  by (simp add: alloc_inv_def demo_alloc_def wf_bs_def card_free_set)

lemma demo_empty_inv: "alloc_inv (demo_alloc 4 (replicate 8 0) 4)"
  by (rule alloc_inv_demo) code_simp+

lemma demo_empty_alloc: "stupid_alloc_space (demo_alloc 4 (replicate 8 0) 4) 2 =
    Some (0, (demo_alloc 4 (3 # replicate 7 0) 2)\<lparr>sa_hint := 2\<rparr>, [\<lparr>ze_lba = 0, ze_len = 2\<rparr>])"
  by code_simp

text \<open>
  C13: A successful allocation keeps the allocator's invariant (the counter is the number of
  clear bits), takes exactly the number of blocks asked for, never clears a bit, and
  leaves the hint on a block of the device.
\<close>

theorem alloc_keeps_counts:
  assumes "alloc_inv a" and "0 < sz" and "stupid_alloc_space a sz = Some (0, a', ex)"
  shows "alloc_inv a' \<and> sa_nr_free a' + sz = sa_nr_free a \<and> sum_list (map ze_len ex) = sz \<and>
    (\<forall>j. j < sa_nr_total a \<and> bs_bit (sa_bs a) j \<longrightarrow> bs_bit (sa_bs a') j) \<and>
    sa_hint a' < sa_nr_total a'"
  using alloc_success [OF assms] by (auto simp: ex_total_def free_set_def)

theorem alloc_keeps_counts_witness:
  "alloc_inv ((demo_alloc 4 (3 # replicate 7 0) 2)\<lparr>sa_hint := 2\<rparr>) \<and>
   sum_list (map ze_len [\<lparr>ze_lba = 0, ze_len = 2\<rparr>]) = 2"
  using alloc_keeps_counts [OF demo_empty_inv _ demo_empty_alloc] by simp

text \<open>
  When the blocks from the hint on are free, an allocation of \<open>sz\<close> blocks succeeds,
  returns them as the single extent that starts at the hint, sets exactly their bits, and
  moves the hint behind them.
\<close>

theorem alloc_contiguous:
  assumes "alloc_inv a" and "0 < sz" and "sa_hint a + sz < sa_nr_total a"
    and "\<forall>k. k \<le> sz \<longrightarrow> \<not> bs_bit (sa_bs a) (sa_hint a + k)"
  shows "\<exists>a'. stupid_alloc_space a sz = Some (0, a', [\<lparr>ze_lba = sa_hint a, ze_len = sz\<rparr>]) \<and>
    sa_hint a' = sa_hint a + sz \<and>
    (\<forall>j. bs_bit (sa_bs a') j \<longleftrightarrow> bs_bit (sa_bs a) j \<or> sa_hint a \<le> j \<and> j < sa_hint a + sz)"
  by (rule alloc_run_full [OF assms])

theorem alloc_contiguous_witness:
  "\<exists>a'. stupid_alloc_space (demo_alloc 4 (replicate 8 0) 4) 2 =
     Some (0, a', [\<lparr>ze_lba = 0, ze_len = 2\<rparr>]) \<and> sa_hint a' = 2"
proof -
  have "\<not> bs_bit [replicate 8 0] k" if "k \<le> 2" for k
    using that by (simp add: bs_bit_def word_at_def)
  then show ?thesis
    using alloc_contiguous [OF demo_empty_inv, of 2] by (auto simp: demo_alloc_def)
qed

text \<open>
  C14: Index blocks of the metadata space, which are taken one at a time, are never handed
  out twice: after any sequence of allocations and releases the blocks held are distinct,
  inside the device and marked allocated.
\<close>

theorem index_blocks_distinct:
  assumes "block_inv a" and "pmb.pool_run a [] es = (a', held)"
  shows "distinct held \<and> (\<forall>i \<in> set held. i < sa_nr_total a \<and> i \<notin> block_free a')"
  using pmb.pool_run_distinct [OF _ assms(2)] assms(1)
  by (auto simp: pmb.pool_held_def block_ids_def)

theorem index_blocks_distinct_witness:
  "distinct [1, 0 :: nat] \<and>
   pmb.pool_run (demo_alloc 4 (replicate 8 0) 4) [] [PoolGet, PoolGet] =
     ((demo_alloc 4 (3 # replicate 7 0) 2)\<lparr>sa_hint := 2\<rparr>, [1, 0])"
proof -
  have g1: "block_get (demo_alloc 4 (replicate 8 0) 4) =
      (Some 0, (demo_alloc 4 (1 # replicate 7 0) 3)\<lparr>sa_hint := 1\<rparr>)"
    by code_simp
  have g2: "block_get ((demo_alloc 4 (1 # replicate 7 0) 3)\<lparr>sa_hint := 1\<rparr>) =
      (Some 1, (demo_alloc 4 (3 # replicate 7 0) 2)\<lparr>sa_hint := 2\<rparr>)"
    by code_simp
  have run: "pmb.pool_run (demo_alloc 4 (replicate 8 0) 4) [] [PoolGet, PoolGet] =
      ((demo_alloc 4 (3 # replicate 7 0) 2)\<lparr>sa_hint := 2\<rparr>, [1, 0])"
    using g1 g2 by simp
  have "block_inv (demo_alloc 4 (replicate 8 0) 4)"
    using demo_empty_inv by (simp add: alloc_inv_def block_inv_def)
  with run index_blocks_distinct [OF this run] show ?thesis by simp
qed

text \<open>
  The last free blocks cannot be allocated. A request for as many blocks as are free
  fails although there is room: the loop takes them all and then looks for one more.
\<close>

theorem alloc_last_fails:
  assumes "alloc_inv a" and "0 < sz" and "sa_nr_free a = sz"
  shows "\<exists>rc a' ex. stupid_alloc_space a sz = Some (rc, a', ex) \<and> rc \<noteq> 0 \<and>
    sa_nr_free a' = sz \<and> card (free_set (sa_bs a') (sa_nr_total a)) + sum_list (map ze_len ex) = sz"
proof -
  obtain rc a' ex where s: "stupid_alloc_space a sz = Some (rc, a', ex)"
    using alloc_no_fault [OF assms(1,2)] .
  have "rc \<noteq> 0" using alloc_needs_spare [OF assms(1,2) _ s] assms(3) by simp
  with alloc_failure_leak [OF assms(1,2) s] s assms(3) show ?thesis by (auto simp: ex_total_def)
qed

theorem alloc_last_fails_witness:
  "\<exists>rc a' ex. stupid_alloc_space (demo_alloc 4 (replicate 8 0) 4) 4 = Some (rc, a', ex) \<and> rc \<noteq> 0"
  using alloc_last_fails [OF demo_empty_inv, of 4] by (auto simp: demo_alloc_def)

text \<open>
  C34: The multi-block allocation is not safe on a fragmented bitmap. When the hint is on a
  free block \<open>b\<close> whose word of the bitmap is otherwise full and which is not the last block
  of that word, and block \<open>b + 66\<close> is free, then every allocation of two or more blocks that
  succeeds returns block \<open>b + 1\<close>, which is in use: taking \<open>b\<close> fills its word, the scan jumps
  over the rest of that word and into the next, and the extent goes on as if the blocks
  were adjacent.
\<close>

theorem alloc_returns_used_block:
  assumes "alloc_inv a" and "2 \<le> sz" and "sa_hint a = b" and "b + 66 < sa_nr_total a"
    and "b mod 64 < 63"
    and "\<forall>j. j div 64 = b div 64 \<longrightarrow> bs_bit (sa_bs a) j \<longleftrightarrow> j \<noteq> b"
    and "\<not> bs_bit (sa_bs a) (b + 66)"
    and "stupid_alloc_space a sz = Some (0, a', ex)"
  shows "b + 1 \<in> set (ex_blocks ex) \<and> bs_bit (sa_bs a) (b + 1)"
proof -
  have u: "bs_bit (sa_bs a) (b + 1)"
  proof -
    have "(b + 1) div 64 = b div 64" using assms(5) by (rule div_64_Suc)
    then show ?thesis using assms(6) by simp
  qed
  obtain st where l: "alloc_loop (sa_nr_total a) (sa_hint a) sz (alloc_start a) =
      alloc_loop (sa_nr_total a) (sa_hint a) sz st" and st: "as_ex st = [\<lparr>ze_lba = b, ze_len = 2\<rparr>]"
    using alloc_jump [OF _ _ assms(2-7)] assms(1,3) by (auto simp: alloc_inv_def)
  obtain bs h where "alloc_loop (sa_nr_total a) (sa_hint a) sz (alloc_start a) = Alloc_done bs ex h"
    using stupid_alloc_space_cases [OF assms(8)] by auto
  then have "first_two b ex"
    using first_two_loop [of b st] st l by (auto simp: first_two_def)
  then show ?thesis using u by (cases ex) (auto simp: first_two_def ex_blocks_def)
qed

theorem alloc_returns_used_block_witness:
  "3 + 1 \<in> set (ex_blocks [\<lparr>ze_lba = 3, ze_len = 2\<rparr>]) \<and>
   bs_bit [[NOT 8, 31] @ replicate 6 (0 :: u64)] (3 + 1)"
proof -
  let ?e = "[NOT 8, 31] @ replicate 6 (0 :: u64)"
  let ?a = "(demo_alloc 128 ?e 60)\<lparr>sa_hint := 3\<rparr>"
  have "alloc_inv (demo_alloc 128 ?e 60)" by (rule alloc_inv_demo) code_simp+
  then have i: "alloc_inv ?a" by (simp add: alloc_inv_def)
  have r: "stupid_alloc_space ?a 2 =
      Some (0, (demo_alloc 128 ([- 1, 63] @ replicate 6 0) 58)\<lparr>sa_hint := 70\<rparr>,
            [\<lparr>ze_lba = 3, ze_len = 2\<rparr>])"
    by code_simp
  have u: "bs_bit (sa_bs ?a) j \<longleftrightarrow> j \<noteq> 3" if "j div 64 = 3 div 64" for j
  proof -
    have "j < 64" using that by simp
    moreover have "\<forall>j \<in> set [0..<64]. bs_bit (sa_bs ?a) j \<longleftrightarrow> j \<noteq> 3" by code_simp
    ultimately show ?thesis by simp
  qed
  have n: "\<not> bs_bit (sa_bs ?a) (3 + 66)" by code_simp
  show ?thesis
    using alloc_returns_used_block [OF i _ _ _ _ _ n r] u by (simp add: demo_alloc_def)
qed

text \<open>
  Releasing extents whose blocks are allocated, distinct and on the device keeps the
  invariant and makes exactly those blocks free.
\<close>

theorem free_space_frees:
  assumes "alloc_inv a" and "distinct (ex_blocks ex)"
    and "\<forall>j \<in> set (ex_blocks ex). j < sa_nr_total a \<and> bs_bit (sa_bs a) j"
  shows "\<exists>a'. stupid_free_space a ex = Some a' \<and> alloc_inv a' \<and>
    free_set (sa_bs a') (sa_nr_total a) = free_set (sa_bs a) (sa_nr_total a) \<union> set (ex_blocks ex)"
  using free_space_correct [OF assms(1) _ _ assms(2)] assms(3) by blast

theorem free_space_frees_witness:
  "\<exists>a'. stupid_free_space (demo_alloc 4 (3 # replicate 7 0) 2) [\<lparr>ze_lba = 0, ze_len = 2\<rparr>] = Some a' \<and>
     alloc_inv a'"
proof -
  have i: "alloc_inv (demo_alloc 4 (3 # replicate 7 0) 2)"
    by (rule alloc_inv_demo) code_simp+
  have d: "distinct (ex_blocks [\<lparr>ze_lba = 0, ze_len = 2\<rparr>])" by code_simp
  have u: "\<forall>j \<in> set (ex_blocks [\<lparr>ze_lba = 0, ze_len = 2\<rparr>]).
      j < sa_nr_total (demo_alloc 4 (3 # replicate 7 0) 2) \<and>
      bs_bit (sa_bs (demo_alloc 4 (3 # replicate 7 0) 2)) j"
    by code_simp
  show ?thesis using free_space_frees [OF i d u] by blast
qed

text \<open>
  Loading an entry of the on-disk bitmap counts its free blocks exactly (the word-wise
  shortcut of the loop included), and an entry past the array is a memory fault: the array
  has one entry per full 512 blocks, so a device whose size is not a multiple of 512 blocks
  faults on its last entry.
\<close>

theorem init_entry_counts:
  assumes "k < sa_nr_entrys a" and "sa_nr_entrys a = (sa_nr_total a + 511) div 512"
    and "length (sa_bs a) = sa_nr_total a div 512"
  shows "case stupid_allocator_init_bitmap_entry a k src of
      None \<Rightarrow> sa_nr_total a mod 512 \<noteq> 0 \<and> k = sa_nr_total a div 512
    | Some a' \<Rightarrow> sa_nr_free a' = sa_nr_free a +
        card {j. k * 512 \<le> j \<and> j < min (sa_nr_total a) ((k + 1) * 512) \<and> \<not> bs_bit (sa_bs a') j}"
proof (cases "k < length (sa_bs a)")
  case True
  have "(k * 512) mod 64 = 0" by (simp add: mod_eq_0_iff_dvd)
  then show ?thesis
    using True
    by (simp add: stupid_allocator_init_bitmap_entry_def Let_def count_free_loop_acc min_def
        not_le less_imp_le)
next
  case False
  define n where "n = sa_nr_total a"
  have "Suc k \<le> (n + 511) div 512" and "n div 512 < Suc k"
    using assms False by (simp_all add: n_def)
  then have b: "Suc k * 512 \<le> n + 511" "n < Suc k * 512"
    by (simp_all only: less_eq_div_iff_mult_less_eq div_less_iff_less_mult zero_less_numeral)
  then have q: "n div 512 = k" by (intro div_nat_eqI) simp_all
  then have "n mod 512 = n - k * 512" by (simp add: modulo_nat_def)
  with b q have "n mod 512 \<noteq> 0 \<and> k = n div 512" by simp
  with False show ?thesis by (simp add: stupid_allocator_init_bitmap_entry_def n_def)
qed

theorem init_entry_counts_witness:
  "stupid_allocator_init_bitmap_entry (stupid_allocator_constructor 513) 1 (replicate 8 0) = None \<and>
   (513 :: nat) mod 512 \<noteq> 0"
proof -
  have n: "stupid_allocator_init_bitmap_entry (stupid_allocator_constructor 513) 1 (replicate 8 0) = None"
    by (simp add: stupid_allocator_init_bitmap_entry_def stupid_allocator_constructor_def)
  show ?thesis
    using init_entry_counts [of 1 "stupid_allocator_constructor 513" "replicate 8 0"] n
    by (simp add: stupid_allocator_constructor_def)
qed

end
