(* ===== verification/Memory.thy ===== *)
theory Memory
  imports Prelude
begin

text \<open>
  Byte memories as functions from addresses to bytes, with reads and writes of blocks of
  bytes, and the little-endian encoding of unsigned integers (the code is for x86 only:
  the conversion macros of \<^verbatim>\<open>util/common.h\<close> are identities).
\<close>

section \<open>Reads and writes\<close>

type_synonym memory = "nat \<Rightarrow> u8"

definition mem_read :: "memory \<Rightarrow> nat \<Rightarrow> nat \<Rightarrow> u8 list" where
  "mem_read m a n = map (\<lambda>i. m (a + i)) [0..<n]"

definition mem_write :: "memory \<Rightarrow> nat \<Rightarrow> u8 list \<Rightarrow> memory" where
  "mem_write m a bs = (\<lambda>x. if a \<le> x \<and> x < a + length bs then bs ! (x - a) else m x)"

definition in_block :: "nat \<Rightarrow> nat \<Rightarrow> nat \<Rightarrow> bool" where
  "in_block x a n \<longleftrightarrow> a \<le> x \<and> x < a + n"

definition disjoint_blocks :: "nat \<Rightarrow> nat \<Rightarrow> nat \<Rightarrow> nat \<Rightarrow> bool" where
  "disjoint_blocks a n b k \<longleftrightarrow> a + n \<le> b \<or> b + k \<le> a"

lemma length_mem_read [simp, mem_simps]: "length (mem_read m a n) = n"
  by (simp add: mem_read_def)

lemma nth_mem_read [mem_simps]: "i < n \<Longrightarrow> mem_read m a n ! i = m (a + i)"
  by (simp add: mem_read_def)

lemma mem_write_in [mem_simps]: "a \<le> x \<Longrightarrow> x < a + length bs \<Longrightarrow> mem_write m a bs x = bs ! (x - a)"
  by (simp add: mem_write_def)

lemma mem_write_out [mem_simps]: "x < a \<or> a + length bs \<le> x \<Longrightarrow> mem_write m a bs x = m x"
  by (auto simp: mem_write_def)

lemma mem_write_Nil [simp, mem_simps]: "mem_write m a [] = m"
proof (rule ext)
  fix x
  show "mem_write m a [] x = m x" by (rule mem_write_out) (simp, linarith)
qed

lemma mem_read_cong: "(\<And>i. i < n \<Longrightarrow> m (a + i) = m' (a + i)) \<Longrightarrow> mem_read m a n = mem_read m' a n"
  by (simp add: mem_read_def)

lemma mem_read_write_same [mem_simps]:
  "length bs = n \<Longrightarrow> mem_read (mem_write m a bs) a n = bs"
  by (rule nth_equalityI) (auto simp: nth_mem_read mem_write_in)

lemma mem_read_write_disjoint [mem_simps]:
  "disjoint_blocks a n b (length bs) \<Longrightarrow> mem_read (mem_write m b bs) a n = mem_read m a n"
  by (rule mem_read_cong) (auto simp: disjoint_blocks_def mem_write_def)

lemma mem_read_split: "mem_read m a (n + k) = mem_read m a n @ mem_read m (a + n) k"
  by (rule nth_equalityI) (auto simp: nth_mem_read nth_append)

lemma take_mem_read: "take k (mem_read m a n) = mem_read m a (min k n)"
  by (rule nth_equalityI) (auto simp: nth_mem_read)

lemma drop_mem_read: "drop k (mem_read m a n) = mem_read m (a + k) (n - k)"
  by (rule nth_equalityI) (auto simp: nth_mem_read add.assoc)

lemma mem_write_commute:
  "disjoint_blocks a (length bs) b (length cs) \<Longrightarrow>
     mem_write (mem_write m a bs) b cs = mem_write (mem_write m b cs) a bs"
  by (rule ext) (auto simp: mem_write_def disjoint_blocks_def)

lemma mem_write_append:
  "mem_write m a (bs @ cs) = mem_write (mem_write m a bs) (a + length bs) cs"
  by (rule ext) (auto simp: mem_write_def nth_append)

lemma mem_write_eqI:
  "(\<And>i. i < length bs \<Longrightarrow> m' (a + i) = bs ! i) \<Longrightarrow>
   (\<And>x. x < a \<or> a + length bs \<le> x \<Longrightarrow> m' x = m x) \<Longrightarrow> m' = mem_write m a bs"
proof (rule ext)
  fix x
  assume i: "\<And>i. i < length bs \<Longrightarrow> m' (a + i) = bs ! i"
    and o: "\<And>x. x < a \<or> a + length bs \<le> x \<Longrightarrow> m' x = m x"
  show "m' x = mem_write m a bs x"
    using i [of "x - a"] o [of x] by (auto simp: mem_write_def)
qed

section \<open>Little-endian integers\<close>

fun le_bytes :: "nat \<Rightarrow> nat \<Rightarrow> u8 list" where
  "le_bytes 0 v = []"
| "le_bytes (Suc n) v = word_of_nat (v mod 256) # le_bytes n (v div 256)"

fun le_val :: "u8 list \<Rightarrow> nat" where
  "le_val [] = 0"
| "le_val (b # bs) = unat b + 256 * le_val bs"

lemma length_le_bytes [simp]: "length (le_bytes n v) = n"
  by (induction n arbitrary: v) auto

lemma le_val_le_bytes: "v < 256 ^ n \<Longrightarrow> le_val (le_bytes n v) = v"
proof (induction n arbitrary: v)
  case 0
  then show ?case by simp
next
  case (Suc n)
  have "v div 256 < 256 ^ n" using Suc.prems by (simp add: div_less_iff_less_mult mult.commute)
  moreover have "unat (word_of_nat (v mod 256) :: u8) = v mod 256"
    by (simp add: unat_of_nat)
  ultimately show ?case using Suc.IH by simp
qed

lemma le_val_bound: "le_val bs < 256 ^ length bs"
proof (induction bs)
  case (Cons b bs)
  have "unat b < 256" using unsigned_less [of b] by simp
  with Cons show ?case by simp
qed simp

lemma le_bytes_le_val: "le_bytes (length bs) (le_val bs) = bs"
proof (induction bs)
  case (Cons b bs)
  have "unat b < 256" using unsigned_less [of b] by simp
  with Cons show ?case by (simp add: unat_of_nat)
qed simp

lemma hd_le_bytes: "0 < n \<Longrightarrow> le_bytes n v ! 0 = word_of_nat (v mod 256)"
  by (cases n) auto

text \<open>The unsigned integer of \<open>n\<close> bytes at an offset of a structure.\<close>

definition field :: "u8 list \<Rightarrow> nat \<Rightarrow> nat \<Rightarrow> nat" where
  "field bs ofst n = le_val (take n (drop ofst bs))"

lemma field_bound: "field bs ofst n < 256 ^ n"
proof -
  have "le_val (take n (drop ofst bs)) < 256 ^ length (take n (drop ofst bs))" by (rule le_val_bound)
  also have "\<dots> \<le> 256 ^ n" by (rule power_increasing) simp_all
  finally show ?thesis by (simp add: field_def)
qed

text \<open>Arrays of integers of \<open>w\<close> bytes.\<close>

definition le_array :: "nat \<Rightarrow> nat list \<Rightarrow> u8 list" where
  "le_array w vs = concat (map (le_bytes w) vs)"

definition array_of :: "nat \<Rightarrow> nat \<Rightarrow> u8 list \<Rightarrow> nat list" where
  "array_of w n bs = map (\<lambda>i. field bs (w * i) w) [0..<n]"

lemma length_le_array [simp]: "length (le_array w vs) = w * length vs"
  by (induction vs) (simp_all add: le_array_def)

lemma drop_le_array: "drop (w * i) (le_array w vs) = le_array w (drop i vs)"
proof (induction i arbitrary: vs)
  case (Suc i)
  then show ?case by (cases vs) (simp_all add: le_array_def flip: drop_drop)
qed simp

lemma array_of_le_array: "\<forall>v \<in> set vs. v < 256 ^ w \<Longrightarrow> array_of w (length vs) (le_array w vs) = vs"
proof (rule nth_equalityI)
  fix i assume b: "\<forall>v \<in> set vs. v < 256 ^ w" and "i < length (array_of w (length vs) (le_array w vs))"
  then have i: "i < length vs" by (simp add: array_of_def)
  have "drop (w * i) (le_array w vs) = le_array w (vs ! i # drop (Suc i) vs)"
    using Cons_nth_drop_Suc [OF i] by (simp add: drop_le_array)
  then have "take w (drop (w * i) (le_array w vs)) = le_bytes w (vs ! i)"
    by (simp add: le_array_def)
  then show "array_of w (length vs) (le_array w vs) ! i = vs ! i"
    using i b by (simp add: array_of_def field_def le_val_le_bytes)
qed (simp add: array_of_def)

end
