(* ===== verification/Pmem.thy ===== *)
theory Pmem
  imports Memory Errcode
begin

text \<open>
  The persistent memory layer (\<^verbatim>\<open>pm.c\<close>): the per-core redo log, building a
  transaction in DRAM, applying it and replaying it at mount.  The calls of the PMDK library
  (\<^verbatim>\<open>pmem_memcpy_persist\<close>, \<^verbatim>\<open>pmem_memcpy_nodrain\<close>,
  \<^verbatim>\<open>pmem_drain\<close>) are the operations \<^verbatim>\<open>pm_op\<close>: a transaction is
  modelled by the sequence of the calls it makes.  What they do to the mapped file is their
  documented contract, stated by \<^verbatim>\<open>pm_run\<close> (no crash) and by the relation
  \<^verbatim>\<open>pm_crash\<close> (what a power failure in the middle may leave behind).
\<close>

section \<open>The calls of PMDK\<close>

datatype pm_op = PM_persist nat "u8 list" | PM_nodrain nat "u8 list" | PM_drain

fun pm_exec :: "pm_op \<Rightarrow> memory \<Rightarrow> memory" where
  "pm_exec (PM_persist a bs) m = mem_write m a bs"
| "pm_exec (PM_nodrain a bs) m = mem_write m a bs"
| "pm_exec PM_drain m = m"

definition pm_run :: "pm_op list \<Rightarrow> memory \<Rightarrow> memory" where
  "pm_run ops m = fold pm_exec ops m"

text \<open>
  The writes that have been issued and not yet drained may have reached the medium or not,
  byte by byte.
\<close>

definition crash_image :: "memory \<Rightarrow> (nat \<times> u8 list) list \<Rightarrow> memory \<Rightarrow> bool" where
  "crash_image m pend m' \<longleftrightarrow>
     (\<forall>x. m' x = m x \<or> (\<exists>(a, bs) \<in> set pend. in_block x a (length bs) \<and> m' x = bs ! (x - a)))"

definition pm_settle :: "memory \<Rightarrow> (nat \<times> u8 list) list \<Rightarrow> memory" where
  "pm_settle m pend = fold (\<lambda>(a, bs) m. mem_write m a bs) pend m"

inductive pm_crash :: "memory \<Rightarrow> (nat \<times> u8 list) list \<Rightarrow> pm_op list \<Rightarrow> memory \<Rightarrow> bool" where
  crash_here: "crash_image m pend m' \<Longrightarrow> pm_crash m pend ops m'"
| crash_in_persist: "crash_image m (pend @ [(a, bs)]) m' \<Longrightarrow> pm_crash m pend (PM_persist a bs # ops) m'"
| crash_persist: "pm_crash (mem_write (pm_settle m pend) a bs) [] ops m' \<Longrightarrow>
    pm_crash m pend (PM_persist a bs # ops) m'"
| crash_nodrain: "pm_crash m (pend @ [(a, bs)]) ops m' \<Longrightarrow> pm_crash m pend (PM_nodrain a bs # ops) m'"
| crash_drain: "pm_crash (pm_settle m pend) [] ops m' \<Longrightarrow> pm_crash m pend (PM_drain # ops) m'"

section \<open>Data of the log\<close>

definition PM_LOG_REGION_SIZE :: nat where "PM_LOG_REGION_SIZE = 8192"

record pmem_t = log_region_ofst :: nat

record pm_log_header =
  lh_valid :: bool
  lh_rsv :: nat
  lh_nr_logs :: u16
  lh_align_length :: u32

definition lh_size :: nat where "lh_size = 64"

definition lh_word :: "pm_log_header \<Rightarrow> nat" where
  "lh_word lh = of_bool (lh_valid lh) + 2 * (lh_rsv lh mod 2 ^ 15) + 2 ^ 16 * unat (lh_nr_logs lh)
     + 2 ^ 32 * unat (lh_align_length lh)"

definition lh_encode :: "pm_log_header \<Rightarrow> u8 list" where
  "lh_encode lh = le_bytes 8 (lh_word lh) @ replicate 56 0"

definition lh_decode :: "u8 list \<Rightarrow> pm_log_header" where
  "lh_decode bs = (let w = le_val (take 8 bs) in
     \<lparr> lh_valid = odd w, lh_rsv = w div 2 mod 2 ^ 15, lh_nr_logs = word_of_nat (w div 2 ^ 16 mod 2 ^ 16),
       lh_align_length = word_of_nat (w div 2 ^ 32 mod 2 ^ 32) \<rparr>)"

definition lh_zero :: pm_log_header where
  "lh_zero = \<lparr> lh_valid = False, lh_rsv = 0, lh_nr_logs = 0, lh_align_length = 0 \<rparr>"

text \<open>A log entry: the DRAM address to update later, the offset in PM, the length, the value.\<close>

record pm_entry =
  e_paddr :: nat
  e_ofst :: nat
  e_value :: "u8 list"

definition entry_hdr :: nat where "entry_hdr = 24"

definition entry_bytes :: "pm_entry \<Rightarrow> u8 list" where
  "entry_bytes e = le_bytes 8 (e_paddr e) @ le_bytes 8 (e_ofst e) @ le_bytes 8 (length (e_value e)) @ e_value e"

definition le_paddr :: "u8 list \<Rightarrow> nat \<Rightarrow> nat" where "le_paddr buf c = le_val (take 8 (drop c buf))"
definition le_ofst :: "u8 list \<Rightarrow> nat \<Rightarrow> nat" where "le_ofst buf c = le_val (take 8 (drop (c + 8) buf))"
definition le_length :: "u8 list \<Rightarrow> nat \<Rightarrow> nat" where "le_length buf c = le_val (take 8 (drop (c + 16) buf))"
definition le_value :: "u8 list \<Rightarrow> nat \<Rightarrow> u8 list" where
  "le_value buf c = take (le_length buf c) (drop (c + entry_hdr) buf)"

section \<open>Opening, reading and writing\<close>

definition pmem_open :: "nat \<Rightarrow> pmem_t \<times> nat" where
  "pmem_open cpu = (\<lparr> log_region_ofst = 4096 + cpu * PM_LOG_REGION_SIZE \<rparr>, 4 * 2 ^ 30)"

text \<open>
  Memory is a total function here; the file that is mapped has the size \<open>pmem_open\<close> reports, and
  an access that leaves it ends the program.
\<close>

definition pm_mapped :: "nat \<Rightarrow> nat \<Rightarrow> bool" where
  "pm_mapped ofst len \<longleftrightarrow> ofst + len \<le> snd (pmem_open 0)"

definition pmem_read :: "memory \<Rightarrow> nat \<Rightarrow> nat \<Rightarrow> u8 list" where
  "pmem_read m ofst len = mem_read m ofst len"

definition pmem_write :: "bool \<Rightarrow> u8 list \<Rightarrow> nat \<Rightarrow> pm_op" where
  "pmem_write sync src ofst = (if sync then PM_persist ofst src else PM_nodrain ofst src)"

section \<open>Transactions\<close>

text \<open>
  The union \<^verbatim>\<open>pmem_transaction_t\<close> is one block of 8192 bytes: the header and, from
  byte 64 on, the entries; \<^verbatim>\<open>malloc\<close> leaves the entries as they were
  (\<^verbatim>\<open>garbage\<close>).  Writing behind the block is \<^verbatim>\<open>Add_overrun\<close>.
\<close>

record pm_tx =
  tx_lh :: pm_log_header
  tx_le :: "u8 list"

definition le_cap :: nat where "le_cap = PM_LOG_REGION_SIZE - lh_size"

definition pmem_transaction_alloc :: "u8 list \<Rightarrow> pm_tx" where
  "pmem_transaction_alloc garbage = \<lparr> tx_lh = lh_zero, tx_le = garbage \<rparr>"

datatype add_res = Add_ok pm_tx | Add_full pm_tx | Add_overrun

definition write_at :: "u8 list \<Rightarrow> nat \<Rightarrow> u8 list \<Rightarrow> u8 list" where
  "write_at buf c bs = take c buf @ bs @ drop (c + length bs) buf"

definition pmem_transaction_add :: "pm_tx \<Rightarrow> nat \<Rightarrow> nat \<Rightarrow> u8 list \<Rightarrow> add_res" where
  "pmem_transaction_add tx pmem_ofst mem_addr new_value =
     (let log_len = word_of_nat (entry_hdr + length new_value) :: u32;
          pl = unat (lh_align_length (tx_lh tx));
          lh' = (tx_lh tx)\<lparr> lh_align_length := lh_align_length (tx_lh tx) + log_len,
                            lh_nr_logs := lh_nr_logs (tx_lh tx) + 1 \<rparr>;
          tx' = tx\<lparr> tx_lh := lh' \<rparr>
      in if PM_LOG_REGION_SIZE < unat (lh_align_length lh') then Add_full tx'
         else if le_cap < pl + entry_hdr + length new_value then Add_overrun
         else Add_ok (tx'\<lparr> tx_le := write_at (tx_le tx) pl
                (entry_bytes \<lparr> e_paddr = mem_addr, e_ofst = pmem_ofst, e_value = new_value \<rparr>) \<rparr>))"

text \<open>Step 3 of applying a transaction and step 5; \<^term>\<open>None\<close> reads behind the block.\<close>

fun apply_entries :: "nat \<Rightarrow> nat \<Rightarrow> u8 list \<Rightarrow> pm_op list option" where
  "apply_entries 0 pl le = Some []"
| "apply_entries (Suc n) pl le =
     (if length le < pl + entry_hdr \<or> length le < pl + entry_hdr + le_length le pl then None
      else map_option (\<lambda>ops. pmem_write False (le_value le pl) (le_ofst le pl) # ops)
             (apply_entries n (pl + entry_hdr + le_length le pl) le))"

fun apply_deferred :: "nat \<Rightarrow> nat \<Rightarrow> u8 list \<Rightarrow> memory \<Rightarrow> memory option" where
  "apply_deferred 0 pl le dram = Some dram"
| "apply_deferred (Suc n) pl le dram =
     (if length le < pl + entry_hdr \<or> length le < pl + entry_hdr + le_length le pl then None
      else apply_deferred n (pl + entry_hdr + le_length le pl) le
             (if le_paddr le pl \<noteq> 0 then mem_write dram (le_paddr le pl) (le_value le pl) else dram))"

definition pmem_transaction_apply ::
    "pmem_t \<Rightarrow> pm_tx \<Rightarrow> memory \<Rightarrow> (pm_op list \<times> pm_tx \<times> memory) option" where
  "pmem_transaction_apply pmem tx dram =
     (let len = CEIL_ALIGN (lh_align_length (tx_lh tx)) 256;
          lh' = (tx_lh tx)\<lparr> lh_align_length := len \<rparr>;
          lh0 = lh_zero;
          ofst = log_region_ofst pmem
      in if le_cap < unat len then None
         else case apply_entries (unat (lh_nr_logs lh')) 0 (tx_le tx) of
           None \<Rightarrow> None
         | Some entry_ops \<Rightarrow>
             (case apply_deferred (unat (lh_nr_logs lh')) 0 (tx_le tx) dram of
                None \<Rightarrow> None
              | Some dram' \<Rightarrow>
                  Some (pmem_write True (take (unat len) (tx_le tx)) (ofst + lh_size)
                        # pmem_write True (lh_encode lh') ofst
                        # entry_ops @ [PM_drain, pmem_write True (lh_encode lh0) ofst],
                        tx\<lparr> tx_lh := lh0 \<rparr>, dram')))"

section \<open>Recovery\<close>

text \<open>
  The recovery copies the log into a buffer of 4096 bytes on the stack and replays the
  entries from there.  \<^verbatim>\<open>Rec_abort\<close> is a failed assertion,
  \<^verbatim>\<open>Rec_fault\<close> an access outside the buffer; \<^verbatim>\<open>stack\<close> is what the
  buffer held before.
\<close>

datatype 'a rec_res = Rec_ok 'a | Rec_abort | Rec_fault

fun replay :: "nat \<Rightarrow> nat \<Rightarrow> u8 list \<Rightarrow> pm_op list rec_res" where
  "replay 0 cur buf = Rec_ok []"
| "replay (Suc n) cur buf =
     (if length buf < cur + entry_hdr then Rec_fault
      else if le_length buf cur mod 64 \<noteq> 0 then Rec_abort
      else if le_ofst buf cur mod 64 \<noteq> 0 then Rec_abort
      else if length buf < cur + entry_hdr + le_length buf cur then Rec_fault
      else case replay n (cur + entry_hdr + le_length buf cur) buf of
             Rec_ok ops \<Rightarrow> Rec_ok (pmem_write True (le_value buf cur) (le_ofst buf cur) # ops)
           | r \<Rightarrow> r)"

definition pmem_recovery :: "pmem_t \<Rightarrow> u8 list \<Rightarrow> memory \<Rightarrow> memory rec_res" where
  "pmem_recovery pmem stack m =
     (let ofst = log_region_ofst pmem;
          lh = lh_decode (pmem_read m ofst lh_size)
      in if lh_valid lh then
           (let n = unat (lh_nr_logs lh); len = unat (lh_align_length lh) in
            if len mod 256 \<noteq> 0 then Rec_abort
            else if length stack < len then Rec_fault
            else case replay n 0 (pmem_read m (ofst + lh_size) len @ drop len stack) of
                   Rec_ok ops \<Rightarrow> Rec_ok (pm_run (ops @ [pmem_write True (lh_encode lh_zero) ofst]) m)
                 | Rec_abort \<Rightarrow> Rec_abort
                 | Rec_fault \<Rightarrow> Rec_fault)
         else Rec_ok m)"

end
