(* ===== verification/Pmem_Correct.thy ===== *)
theory Pmem_Correct
  imports Pmem
begin

text \<open>
  Correctness of the persistent memory layer: the bytes of a transaction are its entries, in
  order; applying it without a crash writes every entry; what recovery does with a log whose
  header is valid, and that no crash ever leaves such a header.
\<close>

section \<open>The header\<close>

lemma lh_word_bound:
  "lh_word lh < 2 ^ 64"
proof -
  have "unat (lh_nr_logs lh) < 2 ^ 16" using unsigned_less [of "lh_nr_logs lh"] by simp
  moreover have "unat (lh_align_length lh) < 2 ^ 32" using unsigned_less [of "lh_align_length lh"] by simp
  moreover have "lh_rsv lh mod 2 ^ 15 < 2 ^ 15" by simp
  ultimately show ?thesis unfolding lh_word_def by (cases "lh_valid lh") simp_all
qed

lemma low_part:
  fixes a b k :: nat
  assumes "a < k"
  shows "(a + k * b) div k = b" and "(a + k * b) mod k = a"
  using assms by simp_all

lemma lh_word_parts:
  "odd (lh_word lh) = lh_valid lh"
  "lh_word lh div 2 mod 2 ^ 15 = lh_rsv lh mod 2 ^ 15"
  "lh_word lh div 2 ^ 16 mod 2 ^ 16 = unat (lh_nr_logs lh)"
  "lh_word lh div 2 ^ 32 mod 2 ^ 32 = unat (lh_align_length lh)"
proof -
  define v r n l where d: "v = (of_bool (lh_valid lh) :: nat)" "r = lh_rsv lh mod 2 ^ 15"
    "n = unat (lh_nr_logs lh)" "l = unat (lh_align_length lh)"
  have b: "v < 2" "r < 2 ^ 15" "n < 2 ^ 16" "l < 2 ^ 32"
    using unsigned_less [of "lh_nr_logs lh"] unsigned_less [of "lh_align_length lh"] by (auto simp: d)
  have w: "lh_word lh = v + 2 * (r + 2 ^ 15 * (n + 2 ^ 16 * l))"
    by (simp add: lh_word_def d)
  have s: "lh_word lh div 2 = r + 2 ^ 15 * (n + 2 ^ 16 * l)"
    unfolding w by (rule low_part(1) [OF b(1)])
  have s16: "lh_word lh div 2 ^ 16 = n + 2 ^ 16 * l"
    using low_part(1) [OF b(2), of "n + 2 ^ 16 * l"] s div_mult2_eq [of "lh_word lh" 2 "2 ^ 15"] by simp
  have s32: "lh_word lh div 2 ^ 32 = l"
    using low_part(1) [OF b(3), of l] s16 div_mult2_eq [of "lh_word lh" "2 ^ 16" "2 ^ 16"] by simp
  show "odd (lh_word lh) = lh_valid lh" unfolding w by (simp add: d)
  show "lh_word lh div 2 mod 2 ^ 15 = lh_rsv lh mod 2 ^ 15"
    by (simp only: s low_part(2) [OF b(2)] flip: d(2))
  show "lh_word lh div 2 ^ 16 mod 2 ^ 16 = unat (lh_nr_logs lh)"
    by (simp only: s16 low_part(2) [OF b(3)] flip: d(3))
  show "lh_word lh div 2 ^ 32 mod 2 ^ 32 = unat (lh_align_length lh)"
    unfolding s32 using b(4) by (simp add: d(4))
qed

lemma length_lh_encode [simp]: "length (lh_encode lh) = lh_size"
  by (simp add: lh_encode_def lh_size_def)

lemma lh_decode_append: "lh_decode (lh_encode lh @ bs) = lh\<lparr> lh_rsv := lh_rsv lh mod 2 ^ 15 \<rparr>"
proof -
  have "le_val (take 8 (lh_encode lh @ bs)) = lh_word lh"
    using lh_word_bound [of lh] by (simp add: lh_encode_def le_val_le_bytes)
  then show ?thesis by (simp only: lh_decode_def Let_def lh_word_parts) simp
qed

lemma lh_decode_encode: "lh_decode (lh_encode lh) = lh\<lparr> lh_rsv := lh_rsv lh mod 2 ^ 15 \<rparr>"
  using lh_decode_append [of lh "[]"] by simp

lemma odd_le_val: "bs \<noteq> [] \<Longrightarrow> odd (le_val bs) = odd (unat (hd bs))"
  by (cases bs) auto

lemma lh_valid_first_byte:
  "lh_valid (lh_decode (mem_read m a lh_size)) = odd (unat (m a))"
proof -
  have "take 8 (mem_read m a lh_size) = mem_read m a (1 + 7)"
    by (simp add: take_mem_read lh_size_def)
  also have "\<dots> = mem_read m a 1 @ mem_read m (a + 1) 7" by (rule mem_read_split)
  also have "mem_read m a 1 = [m a]" by (simp add: mem_read_def)
  finally have "le_val (take 8 (mem_read m a lh_size)) = unat (m a) + 256 * le_val (mem_read m (a + 1) 7)"
    by simp
  then show ?thesis by (simp only: lh_decode_def Let_def pm_log_header.simps) simp
qed

lemma lh_encode_first_even:
  assumes "\<not> lh_valid lh"
  shows "even (unat (lh_encode lh ! 0))"
proof -
  have e: "even (lh_word lh)" using lh_word_parts(1) [of lh] assms by blast
  have "lh_encode lh ! 0 = word_of_nat (lh_word lh mod 256)"
    using hd_le_bytes [of 8 "lh_word lh"] by (simp add: lh_encode_def nth_append)
  then have "unat (lh_encode lh ! 0) = lh_word lh mod 256" by (simp only: unat_of_nat) simp
  moreover have "even (lh_word lh mod 256)" by (rule dvd_mod [OF e]) simp
  ultimately show ?thesis by (simp only:)
qed

section \<open>Entries in a buffer\<close>

definition entry_ok :: "pm_entry \<Rightarrow> bool" where
  "entry_ok e \<longleftrightarrow> e_paddr e < 2 ^ 64 \<and> e_ofst e < 2 ^ 64 \<and> length (e_value e) < 2 ^ 32 - 24"

definition entry_size :: "pm_entry \<Rightarrow> nat" where
  "entry_size e = entry_hdr + length (e_value e)"

definition entries_size :: "pm_entry list \<Rightarrow> nat" where
  "entries_size es = sum_list (map entry_size es)"

definition entries_bytes :: "pm_entry list \<Rightarrow> u8 list" where
  "entries_bytes es = concat (map entry_bytes es)"

lemma entries_size_simps [simp]:
  "entries_size [] = 0" "entries_size (e # es) = entry_size e + entries_size es"
  "entries_size (es @ fs) = entries_size es + entries_size fs"
  by (simp_all add: entries_size_def)

lemma entries_bytes_simps [simp]:
  "entries_bytes [] = []" "entries_bytes (e # es) = entry_bytes e @ entries_bytes es"
  "entries_bytes (es @ fs) = entries_bytes es @ entries_bytes fs"
  by (simp_all add: entries_bytes_def)

lemma length_entry_bytes [simp]: "length (entry_bytes e) = entry_size e"
  by (simp add: entry_bytes_def entry_size_def entry_hdr_def)

lemma length_entries_bytes [simp]: "length (entries_bytes es) = entries_size es"
  by (induction es) auto

lemma entry_at:
  assumes "drop c buf = entry_bytes e @ rest" and "entry_ok e"
  shows "le_paddr buf c = e_paddr e" "le_ofst buf c = e_ofst e"
    "le_length buf c = length (e_value e)" "le_value buf c = e_value e"
    "c + entry_size e \<le> length buf" "drop (c + entry_size e) buf = rest"
proof -
  have d: "drop (c + k) buf = drop k (entry_bytes e @ rest)" for k
    by (simp add: assms(1) [symmetric] add.commute)
  have b: "e_paddr e < 256 ^ 8" "e_ofst e < 256 ^ 8" "length (e_value e) < 256 ^ 8"
    using assms(2) by (simp_all add: entry_ok_def)
  show "le_paddr buf c = e_paddr e"
    using b by (simp add: le_paddr_def assms(1) entry_bytes_def le_val_le_bytes)
  show "le_ofst buf c = e_ofst e"
    using b by (simp add: le_ofst_def d entry_bytes_def le_val_le_bytes)
  show l: "le_length buf c = length (e_value e)"
    using b by (simp add: le_length_def d entry_bytes_def le_val_le_bytes)
  show "le_value buf c = e_value e"
    by (simp add: le_value_def l d entry_bytes_def entry_hdr_def)
  have "entry_size e \<le> length buf - c"
    using arg_cong [OF assms(1), of length] by simp
  moreover have "0 < entry_size e" by (simp add: entry_size_def entry_hdr_def)
  ultimately show "c + entry_size e \<le> length buf" by linarith
  show "drop (c + entry_size e) buf = rest" by (simp add: d)
qed

lemmas entry_size_unfold = entry_size_def [symmetric]

lemma apply_entries_eq:
  "drop c buf = entries_bytes es @ rest \<Longrightarrow> list_all entry_ok es \<Longrightarrow>
     apply_entries (length es) c buf = Some (map (\<lambda>e. PM_nodrain (e_ofst e) (e_value e)) es)"
proof (induction es arbitrary: c)
  case (Cons e es)
  from Cons.prems have d: "drop c buf = entry_bytes e @ (entries_bytes es @ rest)" and ok: "entry_ok e"
    by simp_all
  note at = entry_at [OF d ok]
  from at(5) have "\<not> (length buf < c + entry_hdr \<or> length buf < c + entry_hdr + le_length buf c)"
    by (simp add: at(3) entry_size_def)
  moreover have "apply_entries (length es) (c + entry_size e) buf
      = Some (map (\<lambda>e. PM_nodrain (e_ofst e) (e_value e)) es)"
    by (rule Cons.IH [OF at(6)]) (use Cons.prems in simp)
  ultimately show ?case
    by (simp add: at(2,3,4) pmem_write_def entry_size_def add.assoc)
qed simp

definition deferred :: "pm_entry list \<Rightarrow> memory \<Rightarrow> memory" where
  "deferred es dram =
     fold (\<lambda>e d. if e_paddr e \<noteq> 0 then mem_write d (e_paddr e) (e_value e) else d) es dram"

definition entries_write :: "pm_entry list \<Rightarrow> memory \<Rightarrow> memory" where
  "entries_write es m = fold (\<lambda>e m. mem_write m (e_ofst e) (e_value e)) es m"

lemma apply_deferred_eq:
  "drop c buf = entries_bytes es @ rest \<Longrightarrow> list_all entry_ok es \<Longrightarrow>
     apply_deferred (length es) c buf dram = Some (deferred es dram)"
proof (induction es arbitrary: c dram)
  case Nil
  then show ?case by (simp add: deferred_def)
next
  case (Cons e es)
  from Cons.prems have d: "drop c buf = entry_bytes e @ (entries_bytes es @ rest)" and ok: "entry_ok e"
    by simp_all
  note at = entry_at [OF d ok]
  from at(5) have "\<not> (length buf < c + entry_hdr \<or> length buf < c + entry_hdr + le_length buf c)"
    by (simp add: at(3) entry_size_def)
  moreover have "apply_deferred (length es) (c + entry_size e) buf dram' = Some (deferred es dram')" for dram'
    by (rule Cons.IH [OF at(6)]) (use Cons.prems in simp)
  ultimately show ?case
    by (simp add: at(1,3,4) deferred_def entry_size_def add.assoc)
qed

lemma replay_eq:
  "drop c buf = entries_bytes es @ rest \<Longrightarrow> list_all entry_ok es \<Longrightarrow>
   list_all (\<lambda>e. length (e_value e) mod 64 = 0 \<and> e_ofst e mod 64 = 0) es \<Longrightarrow>
     replay (length es) c buf = Rec_ok (map (\<lambda>e. PM_persist (e_ofst e) (e_value e)) es)"
proof (induction es arbitrary: c)
  case (Cons e es)
  from Cons.prems have d: "drop c buf = entry_bytes e @ (entries_bytes es @ rest)" and ok: "entry_ok e"
    by simp_all
  note at = entry_at [OF d ok]
  from at(5) have "\<not> length buf < c + entry_hdr" "\<not> length buf < c + entry_hdr + le_length buf c"
    by (simp_all add: at(3) entry_size_def)
  moreover have "replay (length es) (c + entry_size e) buf
      = Rec_ok (map (\<lambda>e. PM_persist (e_ofst e) (e_value e)) es)"
    by (rule Cons.IH [OF at(6)]) (use Cons.prems in simp_all)
  ultimately show ?case using Cons.prems(3)
    by (simp add: at(2,3,4) pmem_write_def entry_size_def add.assoc)
qed simp

section \<open>Building a transaction\<close>

definition tx_inv :: "pm_tx \<Rightarrow> pm_entry list \<Rightarrow> bool" where
  "tx_inv tx es \<longleftrightarrow> length (tx_le tx) = le_cap \<and> \<not> lh_valid (tx_lh tx) \<and> list_all entry_ok es \<and>
     entries_size es \<le> le_cap \<and> unat (lh_align_length (tx_lh tx)) = entries_size es \<and>
     unat (lh_nr_logs (tx_lh tx)) = length es \<and> (\<exists>rest. tx_le tx = entries_bytes es @ rest)"

lemma le_cap_val: "le_cap = 8128"
  by (simp add: le_cap_def PM_LOG_REGION_SIZE_def lh_size_def)

lemma entries_length_bound: "24 * length es \<le> entries_size es"
  by (induction es) (auto simp: entry_size_def entry_hdr_def)

lemma tx_alloc_inv: "length garbage = le_cap \<Longrightarrow> tx_inv (pmem_transaction_alloc garbage) []"
  by (simp add: tx_inv_def pmem_transaction_alloc_def lh_zero_def)

lemma write_at_entry:
  assumes "buf = xs @ rest" and "length xs + length bs \<le> length buf"
  shows "write_at buf (length xs) bs = (xs @ bs) @ drop (length xs + length bs) buf"
  using assms by (simp add: write_at_def)

lemma length_write_at: "c + length bs \<le> length buf \<Longrightarrow> length (write_at buf c bs) = length buf"
  by (simp add: write_at_def)

lemma add_lengths:
  assumes "tx_inv tx es" and "entry_ok e"
  shows "unat (lh_align_length (tx_lh tx) + word_of_nat (entry_hdr + length (e_value e)))
           = (entries_size es + entry_size e) mod 2 ^ 32"
    and "unat (lh_nr_logs (tx_lh tx) + 1) = Suc (length es)"
proof -
  have l: "entry_size e < 2 ^ 32" using assms(2) by (simp add: entry_ok_def entry_size_def entry_hdr_def)
  have a: "unat (lh_align_length (tx_lh tx)) = entries_size es" and
    n: "unat (lh_nr_logs (tx_lh tx)) = length es" and c: "entries_size es \<le> 8128"
    using assms(1) by (simp_all add: tx_inv_def le_cap_val)
  have "unat (word_of_nat (entry_size e) :: u32) = entry_size e" using l by (simp add: unat_of_nat)
  then show "unat (lh_align_length (tx_lh tx) + word_of_nat (entry_hdr + length (e_value e)))
           = (entries_size es + entry_size e) mod 2 ^ 32"
    by (simp only: entry_size_unfold unat_word_ariths a) simp
  have "length es \<le> 400" using entries_length_bound [of es] c by linarith
  then have "Suc (length es) < 2 ^ 16" by simp
  with n show "unat (lh_nr_logs (tx_lh tx) + 1) = Suc (length es)"
    by (simp add: unat_word_ariths)
qed

lemma tx_add_ok:
  assumes "tx_inv tx es" and "entry_ok e" and "entries_size es + entry_size e \<le> le_cap"
  shows "\<exists>tx'. pmem_transaction_add tx (e_ofst e) (e_paddr e) (e_value e) = Add_ok tx' \<and> tx_inv tx' (es @ [e])"
proof -
  note len = add_lengths [OF assms(1,2)]
  have a: "unat (lh_align_length (tx_lh tx)) = entries_size es" using assms(1) by (simp add: tx_inv_def)
  obtain rest where r: "tx_le tx = entries_bytes es @ rest" and b: "length (tx_le tx) = le_cap"
    using assms(1) by (auto simp: tx_inv_def)
  have s: "unat (lh_align_length (tx_lh tx) + word_of_nat (entry_hdr + length (e_value e)))
      = entries_size es + entry_size e"
    using len(1) assms(3) by (simp add: le_cap_val)
  have w: "write_at (tx_le tx) (entries_size es) (entry_bytes e)
      = entries_bytes (es @ [e]) @ drop (entries_size es + entry_size e) (tx_le tx)"
    using write_at_entry [OF r, of "entry_bytes e"] assms(3) b by simp
  have lw: "length (write_at (tx_le tx) (entries_size es) (entry_bytes e)) = le_cap"
    using assms(3) b by (subst length_write_at) simp_all
  have g: "\<not> PM_LOG_REGION_SIZE < entries_size es + entry_size e"
    using assms(3) by (simp add: le_cap_def)
  have o: "\<not> le_cap < entries_size es + entry_hdr + length (e_value e)"
    using assms(3) by (simp add: entry_size_def)
  have e: "\<lparr> e_paddr = e_paddr e, e_ofst = e_ofst e, e_value = e_value e \<rparr> = e" by simp
  define tx' where "tx' = tx\<lparr> tx_lh := (tx_lh tx)\<lparr> lh_align_length := lh_align_length (tx_lh tx)
      + word_of_nat (entry_hdr + length (e_value e)), lh_nr_logs := lh_nr_logs (tx_lh tx) + 1 \<rparr>,
      tx_le := write_at (tx_le tx) (entries_size es) (entry_bytes e) \<rparr>"
  have "pmem_transaction_add tx (e_ofst e) (e_paddr e) (e_value e) = Add_ok tx'"
    using g o by (simp add: pmem_transaction_add_def Let_def s a e tx'_def del: of_nat_add)
  moreover have "tx_inv tx' (es @ [e])"
  proof -
    have f: "tx_le tx' = write_at (tx_le tx) (entries_size es) (entry_bytes e)"
      "lh_valid (tx_lh tx') = lh_valid (tx_lh tx)"
      "lh_align_length (tx_lh tx') = lh_align_length (tx_lh tx) + word_of_nat (entry_hdr + length (e_value e))"
      "lh_nr_logs (tx_lh tx') = lh_nr_logs (tx_lh tx) + 1"
      by (simp_all add: tx'_def del: of_nat_add)
    have p: "\<exists>rest. write_at (tx_le tx) (entries_size es) (entry_bytes e) = entries_bytes (es @ [e]) @ rest"
      unfolding w by blast
    show ?thesis using assms lw p by (simp only: tx_inv_def f s len(2)) simp
  qed
  ultimately show ?thesis by blast
qed

lemma tx_add_full:
  assumes "tx_inv tx es" and "entry_ok e" and "PM_LOG_REGION_SIZE < entries_size es + entry_size e"
    and "entries_size es + entry_size e < 2 ^ 32"
  shows "\<exists>tx'. pmem_transaction_add tx (e_ofst e) (e_paddr e) (e_value e) = Add_full tx'
           \<and> unat (lh_nr_logs (tx_lh tx')) = Suc (length es)"
proof -
  note len = add_lengths [OF assms(1,2)]
  have s: "unat (lh_align_length (tx_lh tx) + word_of_nat (entry_hdr + length (e_value e)))
      = entries_size es + entry_size e"
    using len(1) assms(4) by simp
  show ?thesis using assms(3) len(2)
    by (simp add: pmem_transaction_add_def Let_def s del: of_nat_add)
qed

lemma tx_add_overrun:
  assumes "tx_inv tx es" and "entry_ok e" and "le_cap < entries_size es + entry_size e"
    and "entries_size es + entry_size e \<le> PM_LOG_REGION_SIZE"
  shows "pmem_transaction_add tx (e_ofst e) (e_paddr e) (e_value e) = Add_overrun"
proof -
  note len = add_lengths [OF assms(1,2)]
  have a: "unat (lh_align_length (tx_lh tx)) = entries_size es" using assms(1) by (simp add: tx_inv_def)
  have s: "unat (lh_align_length (tx_lh tx) + word_of_nat (entry_hdr + length (e_value e)))
      = entries_size es + entry_size e"
    using len(1) assms(4) by (simp add: PM_LOG_REGION_SIZE_def)
  have g: "\<not> PM_LOG_REGION_SIZE < entries_size es + entry_size e"
    using assms(4) by simp
  have o: "le_cap < entries_size es + entry_hdr + length (e_value e)"
    using assms(3) by (simp add: entry_size_def)
  show ?thesis using g o by (simp add: pmem_transaction_add_def Let_def s a del: of_nat_add)
qed

section \<open>Applying a transaction\<close>

lemma pm_run_simps [simp]:
  "pm_run [] m = m" "pm_run (op # ops) m = pm_run ops (pm_exec op m)"
  "pm_run (ops @ ops') m = pm_run ops' (pm_run ops m)"
  by (simp_all add: pm_run_def)

lemma pm_run_nodrain: "pm_run (map (\<lambda>e. PM_nodrain (e_ofst e) (e_value e)) es) m = entries_write es m"
  by (induction es arbitrary: m) (simp_all add: entries_write_def)

lemma pm_run_persist: "pm_run (map (\<lambda>e. PM_persist (e_ofst e) (e_value e)) es) m = entries_write es m"
  by (induction es arbitrary: m) (simp_all add: entries_write_def)

lemma ceil_align_256:
  "unat (w :: u32) \<le> le_cap \<Longrightarrow> unat (CEIL_ALIGN w 256) = (unat w + 255) div 256 * 256"
  using unat_CEIL_ALIGN [of w 8] by (simp add: le_cap_val)

text \<open>The operations a transaction performs when nothing faults.\<close>

definition tx_ops :: "pmem_t \<Rightarrow> pm_tx \<Rightarrow> pm_entry list \<Rightarrow> pm_op list" where
  "tx_ops pmem tx es =
     PM_persist (log_region_ofst pmem + lh_size)
       (take (unat (CEIL_ALIGN (lh_align_length (tx_lh tx)) 256)) (tx_le tx))
     # PM_persist (log_region_ofst pmem)
         (lh_encode ((tx_lh tx)\<lparr> lh_align_length := CEIL_ALIGN (lh_align_length (tx_lh tx)) 256 \<rparr>))
     # map (\<lambda>e. PM_nodrain (e_ofst e) (e_value e)) es
     @ [PM_drain, PM_persist (log_region_ofst pmem) (lh_encode lh_zero)]"

lemma tx_apply_ops:
  assumes "tx_inv tx es" and "entries_size es \<le> 7936"
  shows "pmem_transaction_apply pmem tx dram
           = Some (tx_ops pmem tx es, tx\<lparr> tx_lh := lh_zero \<rparr>, deferred es dram)"
proof -
  obtain rest where r: "drop 0 (tx_le tx) = entries_bytes es @ rest" and ok: "list_all entry_ok es"
    using assms(1) by (auto simp: tx_inv_def)
  have a: "unat (lh_align_length (tx_lh tx)) = entries_size es" and
    n: "unat (lh_nr_logs (tx_lh tx)) = length es" using assms(1) by (simp_all add: tx_inv_def)
  have c: "unat (CEIL_ALIGN (lh_align_length (tx_lh tx)) 256) = (entries_size es + 255) div 256 * 256"
    using ceil_align_256 [of "lh_align_length (tx_lh tx)"] assms(2) a by (simp add: le_cap_val)
  have "(entries_size es + 255) div 256 < 32" using assms(2) by (simp add: div_less_iff_less_mult)
  with c have l: "\<not> le_cap < unat (CEIL_ALIGN (lh_align_length (tx_lh tx)) 256)"
    by (simp add: le_cap_val)
  show ?thesis using l
    by (simp add: pmem_transaction_apply_def Let_def n apply_entries_eq [OF r ok]
        apply_deferred_eq [OF r ok] pmem_write_def tx_ops_def)
qed

lemma tx_apply_overlong:
  assumes "tx_inv tx es" and "7936 < entries_size es"
  shows "pmem_transaction_apply pmem tx dram = None"
proof -
  have a: "unat (lh_align_length (tx_lh tx)) = entries_size es" "entries_size es \<le> 8128"
    using assms(1) by (simp_all add: tx_inv_def le_cap_val)
  have c: "unat (CEIL_ALIGN (lh_align_length (tx_lh tx)) 256) = (entries_size es + 255) div 256 * 256"
    using ceil_align_256 [of "lh_align_length (tx_lh tx)"] a by (simp add: le_cap_val)
  have "8192 div 256 \<le> (entries_size es + 255) div 256"
    by (rule div_le_mono) (use assms(2) in simp)
  with c have "le_cap < unat (CEIL_ALIGN (lh_align_length (tx_lh tx)) 256)"
    by (simp add: le_cap_val)
  then show ?thesis by (simp add: pmem_transaction_apply_def Let_def)
qed

section \<open>Writes of the entries\<close>

lemma entries_write_simps [simp]:
  "entries_write [] m = m"
  "entries_write (e # es) m = entries_write es (mem_write m (e_ofst e) (e_value e))"
  by (simp_all add: entries_write_def)

definition in_entries :: "nat \<Rightarrow> pm_entry list \<Rightarrow> bool" where
  "in_entries x es \<longleftrightarrow> (\<exists>e \<in> set es. in_block x (e_ofst e) (length (e_value e)))"

lemma in_entries_simps [simp]:
  "\<not> in_entries x []"
  "in_entries x (e # es) \<longleftrightarrow> in_block x (e_ofst e) (length (e_value e)) \<or> in_entries x es"
  by (simp_all add: in_entries_def)

lemma entries_write_out: "\<not> in_entries x es \<Longrightarrow> entries_write es m x = m x"
proof (induction es arbitrary: m)
  case (Cons e es)
  from Cons.prems have "mem_write m (e_ofst e) (e_value e) x = m x"
    by (auto intro!: mem_write_out simp: in_block_def)
  with Cons show ?case by simp
qed simp

text \<open>What the entries write does not depend on what was there before.\<close>

lemma entries_write_agree:
  "in_entries x es \<or> m x = m' x \<Longrightarrow> entries_write es m x = entries_write es m' x"
proof (induction es arbitrary: m m')
  case (Cons e es)
  have "in_entries x es \<or> mem_write m (e_ofst e) (e_value e) x = mem_write m' (e_ofst e) (e_value e) x"
    using Cons.prems by (auto simp: mem_write_def in_block_def)
  from Cons.IH [of "mem_write m (e_ofst e) (e_value e)" "mem_write m' (e_ofst e) (e_value e)", OF this]
  show ?case by simp
qed simp

definition log_block :: "pmem_t \<Rightarrow> nat \<Rightarrow> bool" where
  "log_block pmem x \<longleftrightarrow> in_block x (log_region_ofst pmem) PM_LOG_REGION_SIZE"

definition clear_of_log :: "pmem_t \<Rightarrow> pm_entry list \<Rightarrow> bool" where
  "clear_of_log pmem es \<longleftrightarrow> (\<forall>e \<in> set es.
     disjoint_blocks (e_ofst e) (length (e_value e)) (log_region_ofst pmem) PM_LOG_REGION_SIZE)"

lemma clear_of_log_in: "clear_of_log pmem es \<Longrightarrow> log_block pmem x \<Longrightarrow> \<not> in_entries x es"
  by (auto simp: clear_of_log_def log_block_def in_entries_def in_block_def disjoint_blocks_def)

lemma tx_ops_result:
  assumes "tx_inv tx es" and "entries_size es \<le> 7936" and "clear_of_log pmem es"
  shows "\<not> log_block pmem x \<Longrightarrow> pm_run (tx_ops pmem tx es) m x = entries_write es m x"
    and "mem_read (pm_run (tx_ops pmem tx es) m) (log_region_ofst pmem) lh_size = lh_encode lh_zero"
proof -
  have l: "length (take (unat (CEIL_ALIGN (lh_align_length (tx_lh tx)) 256)) (tx_le tx)) \<le> 8128"
    using assms(1) by (simp add: tx_inv_def le_cap_val)
  define m1 where "m1 = mem_write (mem_write m (log_region_ofst pmem + lh_size)
       (take (unat (CEIL_ALIGN (lh_align_length (tx_lh tx)) 256)) (tx_le tx))) (log_region_ofst pmem)
         (lh_encode ((tx_lh tx)\<lparr> lh_align_length := CEIL_ALIGN (lh_align_length (tx_lh tx)) 256 \<rparr>))"
  have r: "pm_run (tx_ops pmem tx es) m
      = mem_write (entries_write es m1) (log_region_ofst pmem) (lh_encode lh_zero)"
    by (simp add: tx_ops_def m1_def pm_run_nodrain)
  show "mem_read (pm_run (tx_ops pmem tx es) m) (log_region_ofst pmem) lh_size = lh_encode lh_zero"
    unfolding r by (rule mem_read_write_same) simp
  assume x: "\<not> log_block pmem x"
  have "mem_write (entries_write es m1) (log_region_ofst pmem) (lh_encode lh_zero) x = entries_write es m1 x"
    using x by (intro mem_write_out) (auto simp: log_block_def in_block_def PM_LOG_REGION_SIZE_def lh_size_def)
  moreover have "m1 x = m x"
    unfolding m1_def using x l
    by (subst mem_write_out, (auto simp: log_block_def in_block_def PM_LOG_REGION_SIZE_def lh_size_def)[1])+ simp
  ultimately show "pm_run (tx_ops pmem tx es) m x = entries_write es m x"
    unfolding r by (simp add: entries_write_agree)
qed

section \<open>Crashes\<close>

lemma pm_settle_simps [simp]:
  "pm_settle m [] = m" "pm_settle m (pend @ [(a, bs)]) = mem_write (pm_settle m pend) a bs"
  by (simp_all add: pm_settle_def)

lemma crash_image_settle: "crash_image m pend (pm_settle m pend)"
proof (induction pend rule: rev_induct)
  case Nil
  then show ?case by (simp add: crash_image_def)
next
  case (snoc w pend)
  obtain a bs where w: "w = (a, bs)" by fastforce
  show ?case unfolding crash_image_def
  proof (intro allI)
    fix x
    show "pm_settle m (pend @ [w]) x = m x
        \<or> (\<exists>(b, cs) \<in> set (pend @ [w]). in_block x b (length cs) \<and> pm_settle m (pend @ [w]) x = cs ! (x - b))"
    proof (cases "in_block x a (length bs)")
      case True
      then show ?thesis by (simp add: w mem_write_in in_block_def)
    next
      case False
      then have "pm_settle m (pend @ [w]) x = pm_settle m pend x"
        by (auto simp: w in_block_def intro!: mem_write_out)
      with snoc show ?thesis by (auto simp: crash_image_def)
    qed
  qed
qed

text \<open>A crash right after a call returned leaves what the calls up to there have written.\<close>

lemma crash_prefix_pend: "pm_crash m pend ops (pm_run (take k ops) (pm_settle m pend))"
proof (induction ops arbitrary: k m pend)
  case Nil
  show ?case by (simp add: pm_crash.crash_here crash_image_settle)
next
  case (Cons op ops)
  show ?case
  proof (cases k)
    case 0
    then show ?thesis by (simp add: pm_crash.crash_here crash_image_settle)
  next
    case (Suc j)
    show ?thesis
    proof (cases op)
      case (PM_persist a bs)
      show ?thesis using Cons.IH [of "mem_write (pm_settle m pend) a bs" "[]" j]
        by (simp add: Suc PM_persist pm_crash.crash_persist)
    next
      case (PM_nodrain a bs)
      show ?thesis using Cons.IH [of m "pend @ [(a, bs)]" j]
        by (simp add: Suc PM_nodrain pm_crash.crash_nodrain)
    next
      case PM_drain
      show ?thesis using Cons.IH [of "pm_settle m pend" "[]" j]
        by (simp add: Suc PM_drain pm_crash.crash_drain)
    qed
  qed
qed

lemma crash_prefix: "pm_crash m [] ops (pm_run (take k ops) m)"
  using crash_prefix_pend [of m "[]" ops k] by simp

text \<open>A property of one byte that every write to it has holds after any crash.\<close>

fun op_write :: "pm_op \<Rightarrow> (nat \<times> u8 list) list" where
  "op_write (PM_persist a bs) = [(a, bs)]"
| "op_write (PM_nodrain a bs) = [(a, bs)]"
| "op_write PM_drain = []"

definition byte_writes :: "(u8 \<Rightarrow> bool) \<Rightarrow> nat \<Rightarrow> (nat \<times> u8 list) list \<Rightarrow> bool" where
  "byte_writes P x ws \<longleftrightarrow> (\<forall>(a, bs) \<in> set ws. in_block x a (length bs) \<longrightarrow> P (bs ! (x - a)))"

lemma byte_writes_simps [simp]:
  "byte_writes P x []"
  "byte_writes P x ((a, bs) # ws) \<longleftrightarrow>
     (in_block x a (length bs) \<longrightarrow> P (bs ! (x - a))) \<and> byte_writes P x ws"
  "byte_writes P x (ws @ vs) \<longleftrightarrow> byte_writes P x ws \<and> byte_writes P x vs"
  by (auto simp: byte_writes_def)

lemma byte_crash_image:
  assumes "crash_image m pend m'" and "P (m x)" and "byte_writes P x pend"
  shows "P (m' x)"
  using assms unfolding crash_image_def byte_writes_def by (auto dest!: spec [of _ x])

lemma byte_settle: "P (m x) \<Longrightarrow> byte_writes P x pend \<Longrightarrow> P (pm_settle m pend x)"
  by (rule byte_crash_image [OF crash_image_settle])

lemma byte_write: "P (m x) \<Longrightarrow> (in_block x a (length bs) \<longrightarrow> P (bs ! (x - a))) \<Longrightarrow> P (mem_write m a bs x)"
  by (auto simp: mem_write_def in_block_def)

lemma byte_crash:
  "pm_crash m pend ops m' \<Longrightarrow> P (m x) \<Longrightarrow> byte_writes P x pend \<Longrightarrow>
     byte_writes P x (concat (map op_write ops)) \<Longrightarrow> P (m' x)"
proof (induction rule: pm_crash.induct)
  case (crash_here m pend m' ops)
  then show ?case by (blast intro: byte_crash_image)
next
  case (crash_in_persist m pend a bs m' ops)
  show ?case
    by (rule byte_crash_image [OF crash_in_persist.hyps]) (use crash_in_persist.prems in simp_all)
next
  case (crash_persist m pend a bs ops m')
  show ?case
    by (rule crash_persist.IH) (use crash_persist.prems in \<open>simp_all add: byte_write byte_settle\<close>)
next
  case (crash_nodrain m pend a bs ops m')
  show ?case by (rule crash_nodrain.IH) (use crash_nodrain.prems in simp_all)
next
  case (crash_drain m pend ops m')
  show ?case by (rule crash_drain.IH) (use crash_drain.prems in \<open>simp_all add: byte_settle\<close>)
qed

lemma byte_writes_entries:
  "\<not> in_entries x es \<Longrightarrow> byte_writes P x (concat (map op_write (map (\<lambda>e. PM_nodrain (e_ofst e) (e_value e)) es)))"
  by (induction es) auto

lemma tx_crash_header_even:
  assumes "tx_inv tx es" and "clear_of_log pmem es" and "even (unat (m (log_region_ofst pmem)))"
    and "pm_crash m [] (tx_ops pmem tx es) m'"
  shows "even (unat (m' (log_region_ofst pmem)))"
proof -
  let ?x = "log_region_ofst pmem"
  have v: "\<not> lh_valid (tx_lh tx)" using assms(1) by (simp add: tx_inv_def)
  have x: "\<not> in_entries ?x es"
    by (rule clear_of_log_in [OF assms(2)])
      (simp add: log_block_def in_block_def PM_LOG_REGION_SIZE_def)
  have e: "byte_writes (\<lambda>b. even (unat b)) ?x (concat (map op_write (tx_ops pmem tx es)))"
    using v byte_writes_entries [OF x]
    by (simp add: tx_ops_def lh_encode_first_even lh_zero_def in_block_def lh_size_def)
  show ?thesis
    by (rule byte_crash [where P = "\<lambda>b. even (unat b)", OF assms(4)]) (use assms(3) e in simp_all)
qed

lemma recovery_invalid:
  "even (unat (m (log_region_ofst pmem))) \<Longrightarrow> pmem_recovery pmem stack m = Rec_ok m"
  by (simp add: pmem_recovery_def Let_def pmem_read_def lh_valid_first_byte)

section \<open>The transaction as an append log\<close>

definition tx_add :: "pm_tx \<Rightarrow> pm_entry \<Rightarrow> pm_tx option" where
  "tx_add tx e = (case pmem_transaction_add tx (e_ofst e) (e_paddr e) (e_value e) of
     Add_ok tx' \<Rightarrow> Some tx' | _ \<Rightarrow> None)"

interpretation pmlog: append_log tx_inv entry_ok entry_size le_cap tx_add
proof
  fix s es e
  assume "tx_inv s es" and "entry_ok e" and "sum_list (map entry_size es) + entry_size e \<le> le_cap"
  then show "\<exists>s'. tx_add s e = Some s' \<and> tx_inv s' (es @ [e])"
    using tx_add_ok [of s es e] by (auto simp: tx_add_def entries_size_def)
qed

lemma tx_build:
  assumes "length garbage = le_cap" and "list_all entry_ok es" and "entries_size es \<le> le_cap"
  shows "\<exists>tx. pmlog.log_adds (pmem_transaction_alloc garbage) es = Some tx \<and> tx_inv tx es"
  using pmlog.log_adds_ok [OF tx_alloc_inv [OF assms(1)] assms(2)] assms(3)
  by (simp add: entries_size_def)

section \<open>Replaying a valid log\<close>

definition valid_log :: "pmem_t \<Rightarrow> memory \<Rightarrow> pm_entry list \<Rightarrow> bool" where
  "valid_log pmem m es \<longleftrightarrow> list_all entry_ok es \<and>
     list_all (\<lambda>e. length (e_value e) mod 64 = 0 \<and> e_ofst e mod 64 = 0) es \<and>
     (\<exists>lh rest. pmem_read m (log_region_ofst pmem) lh_size = lh_encode lh \<and> lh_valid lh \<and>
        unat (lh_nr_logs lh) = length es \<and> unat (lh_align_length lh) mod 256 = 0 \<and>
        unat (lh_align_length lh) \<le> 4096 \<and>
        pmem_read m (log_region_ofst pmem + lh_size) (unat (lh_align_length lh)) = entries_bytes es @ rest)"

lemma valid_log_recovery:
  assumes "valid_log pmem m es" and "length stack = 4096"
  shows "pmem_recovery pmem stack m
           = Rec_ok (mem_write (entries_write es m) (log_region_ofst pmem) (lh_encode lh_zero))"
proof -
  obtain lh rest where r: "pmem_read m (log_region_ofst pmem) lh_size = lh_encode lh"
    and v: "lh_valid lh" and n: "unat (lh_nr_logs lh) = length es"
    and a: "unat (lh_align_length lh) mod 256 = 0" and b: "unat (lh_align_length lh) \<le> 4096"
    and p: "pmem_read m (log_region_ofst pmem + lh_size) (unat (lh_align_length lh)) = entries_bytes es @ rest"
    and ok: "list_all entry_ok es"
    and al: "list_all (\<lambda>e. length (e_value e) mod 64 = 0 \<and> e_ofst e mod 64 = 0) es"
    using assms(1) by (auto simp: valid_log_def)
  define len where "len = unat (lh_align_length lh)"
  define lh' where "lh' = lh_decode (lh_encode lh)"
  have h: "lh_valid lh'" "unat (lh_nr_logs lh') = length es" "unat (lh_align_length lh') = len"
    using v n by (simp_all add: lh'_def lh_decode_encode len_def)
  have d: "drop 0 (pmem_read m (log_region_ofst pmem + lh_size) len @ drop len stack)
      = entries_bytes es @ (rest @ drop len stack)"
    using p by (simp add: len_def)
  note rp = replay_eq [OF d ok al]
  have g: "\<not> length stack < len" "len mod 256 = 0" using a b assms(2) by (simp_all add: len_def)
  show ?thesis
    unfolding pmem_recovery_def Let_def r
    by (fold lh'_def) (simp add: h rp g pm_run_persist pmem_write_def)
qed

section \<open>Properties\<close>

text \<open>
  Adding an entry to a transaction: when it fits into the 8128 bytes behind the header
  it is appended behind the earlier entries; up to 64 bytes more the check against the size
  of the region still passes and the entry is written behind the block; beyond that the
  call returns false.
\<close>

theorem add_cases:
  assumes "tx_inv tx es" and "entry_ok e" and "entries_size es + entry_size e < 2 ^ 32"
  shows "case pmem_transaction_add tx (e_ofst e) (e_paddr e) (e_value e) of
      Add_ok tx' \<Rightarrow> entries_size es + entry_size e \<le> 8128 \<and> tx_inv tx' (es @ [e])
    | Add_overrun \<Rightarrow> 8128 < entries_size es + entry_size e \<and> entries_size es + entry_size e \<le> 8192
    | Add_full tx' \<Rightarrow> 8192 < entries_size es + entry_size e"
proof -
  consider "entries_size es + entry_size e \<le> le_cap"
    | "le_cap < entries_size es + entry_size e" "entries_size es + entry_size e \<le> PM_LOG_REGION_SIZE"
    | "PM_LOG_REGION_SIZE < entries_size es + entry_size e" by linarith
  then show ?thesis
  proof cases
    case 1
    then show ?thesis using tx_add_ok [OF assms(1,2)] by (auto simp: le_cap_val)
  next
    case 2
    then show ?thesis using tx_add_overrun [OF assms(1,2)] by (auto simp: le_cap_val PM_LOG_REGION_SIZE_def)
  next
    case 3
    then show ?thesis using tx_add_full [OF assms(1,2) _ assms(3)] by (auto simp: PM_LOG_REGION_SIZE_def)
  qed
qed

definition demo_entry :: "nat \<Rightarrow> nat \<Rightarrow> pm_entry" where
  "demo_entry a n = \<lparr> e_paddr = 0, e_ofst = a, e_value = replicate n 1 \<rparr>"

lemma demo_entry_ok: "a < 2 ^ 64 \<Longrightarrow> n < 2 ^ 16 \<Longrightarrow> entry_ok (demo_entry a n)"
  by (simp add: demo_entry_def entry_ok_def)

lemma demo_entry_size: "entry_size (demo_entry a n) = 24 + n"
  by (simp add: demo_entry_def entry_size_def entry_hdr_def)

lemma demo_alloc_inv: "tx_inv (pmem_transaction_alloc (replicate 8128 0)) []"
  by (rule tx_alloc_inv) (simp add: le_cap_val)

lemma add_cases_witness:
  "case pmem_transaction_add (pmem_transaction_alloc (replicate 8128 0)) (e_ofst (demo_entry 0 8150))
        (e_paddr (demo_entry 0 8150)) (e_value (demo_entry 0 8150)) of
      Add_ok tx' \<Rightarrow> entries_size [] + entry_size (demo_entry 0 8150) \<le> 8128 \<and> tx_inv tx' ([] @ [demo_entry 0 8150])
    | Add_overrun \<Rightarrow> 8128 < entries_size [] + entry_size (demo_entry 0 8150) \<and>
        entries_size [] + entry_size (demo_entry 0 8150) \<le> 8192
    | Add_full tx' \<Rightarrow> 8192 < entries_size [] + entry_size (demo_entry 0 8150)"
  by (rule add_cases [OF demo_alloc_inv demo_entry_ok]) (simp_all add: demo_entry_size)

text \<open>
  C18: A transaction that is built from well-formed entries of at most 7936 bytes in all and
  applied without a crash writes every entry to PM, in the order they were added, changes
  nothing else outside its log region, ends with an empty log header, and performs the
  deferred updates of DRAM.
\<close>

theorem apply_writes_all:
  assumes "length garbage = le_cap" and "list_all entry_ok es" and "entries_size es \<le> 7936"
    and "clear_of_log pmem es"
  shows "\<exists>tx ops tx'. pmlog.log_adds (pmem_transaction_alloc garbage) es = Some tx \<and>
    pmem_transaction_apply pmem tx dram = Some (ops, tx', deferred es dram) \<and>
    (\<forall>x. log_block pmem x \<or> pm_run ops m x = entries_write es m x) \<and>
    pmem_read (pm_run ops m) (log_region_ofst pmem) lh_size = lh_encode lh_zero"
proof -
  have "entries_size es \<le> le_cap" using assms(3) by (simp add: le_cap_val)
  then obtain tx where b: "pmlog.log_adds (pmem_transaction_alloc garbage) es = Some tx" and i: "tx_inv tx es"
    using tx_build [OF assms(1,2)] by blast
  show ?thesis
    using b tx_apply_ops [OF i assms(3)] tx_ops_result [OF i assms(3,4)]
    by (auto simp: pmem_read_def)
qed

definition demo_pmem :: pmem_t where "demo_pmem = fst (pmem_open 0)"

lemma demo_pmem_ofst [simp]: "log_region_ofst demo_pmem = 4096"
  by (simp add: demo_pmem_def pmem_open_def)

lemma demo_clear: "12288 \<le> a \<Longrightarrow> 12288 \<le> b \<Longrightarrow> clear_of_log demo_pmem [demo_entry a n, demo_entry b k]"
  by (simp add: clear_of_log_def demo_entry_def disjoint_blocks_def PM_LOG_REGION_SIZE_def)

lemma apply_writes_all_witness:
  "\<exists>tx ops tx'. pmlog.log_adds (pmem_transaction_alloc (replicate le_cap 0))
      [demo_entry 1048576 8, demo_entry 1048640 8] = Some tx \<and>
    pmem_transaction_apply demo_pmem tx (\<lambda>_. 0) = Some (ops, tx', deferred [demo_entry 1048576 8, demo_entry 1048640 8] (\<lambda>_. 0)) \<and>
    (\<forall>x. log_block demo_pmem x \<or> pm_run ops (\<lambda>_. 0) x
        = entries_write [demo_entry 1048576 8, demo_entry 1048640 8] (\<lambda>_. 0) x) \<and>
    pmem_read (pm_run ops (\<lambda>_. 0)) (log_region_ofst demo_pmem) lh_size = lh_encode lh_zero"
  by (rule apply_writes_all) (simp_all add: demo_entry_ok demo_entry_size demo_clear)

text \<open>
  C2: No crash leaves a log that recovery replays. The bit \<open>valid\<close> of the header is
  never set by the code, so whatever a power failure leaves behind of a transaction,
  the next recovery finds the header invalid and changes nothing: transactions are not
  rolled forward.
\<close>

theorem crash_never_replayed:
  assumes "tx_inv tx es" and "entries_size es \<le> 7936" and "clear_of_log pmem es"
    and "even (unat (m (log_region_ofst pmem)))"
    and "pmem_transaction_apply pmem tx dram = Some (ops, tx', dram')"
    and "pm_crash m [] ops m'"
  shows "pmem_recovery pmem stack m' = Rec_ok m'"
proof (rule recovery_invalid)
  have "ops = tx_ops pmem tx es" using tx_apply_ops [OF assms(1,2)] assms(5) by simp
  with tx_crash_header_even [of tx es pmem m m'] assms(1,3,4,6)
  show "even (unat (m' (log_region_ofst pmem)))" by blast
qed

lemma demo_build:
  "\<exists>tx. pmlog.log_adds (pmem_transaction_alloc (replicate le_cap 0))
      [demo_entry 1048576 8, demo_entry 1048640 8] = Some tx \<and>
    tx_inv tx [demo_entry 1048576 8, demo_entry 1048640 8]"
  by (rule tx_build) (simp_all add: demo_entry_ok demo_entry_size le_cap_val)

lemma crash_never_replayed_witness:
  "\<exists>tx ops. tx_inv tx [demo_entry 1048576 8, demo_entry 1048640 8] \<and>
    pmem_transaction_apply demo_pmem tx (\<lambda>_. 0) \<noteq> None \<and>
    pm_crash (\<lambda>_. 0) [] ops (pm_run (take 3 ops) (\<lambda>_. 0)) \<and>
    pmem_recovery demo_pmem [] (pm_run (take 3 ops) (\<lambda>_. 0)) = Rec_ok (pm_run (take 3 ops) (\<lambda>_. 0))"
proof -
  let ?es = "[demo_entry 1048576 8, demo_entry 1048640 8]"
  obtain tx where i: "tx_inv tx ?es" using demo_build by blast
  have s: "entries_size ?es \<le> 7936" by (simp add: demo_entry_size)
  note a = tx_apply_ops [OF i s, of demo_pmem "\<lambda>_. 0"]
  note c = crash_prefix [of "\<lambda>_. 0" "tx_ops demo_pmem tx ?es" 3]
  have "pmem_recovery demo_pmem [] (pm_run (take 3 (tx_ops demo_pmem tx ?es)) (\<lambda>_. 0))
      = Rec_ok (pm_run (take 3 (tx_ops demo_pmem tx ?es)) (\<lambda>_. 0))"
    by (rule crash_never_replayed [OF i s demo_clear _ a c]) simp_all
  with i a c show ?thesis by blast
qed

text \<open>
  C9: Applying a transaction is therefore not atomic. However the entries are split into a
  first part and a second, a crash may leave the first part written and the second not, and
  the recovery that follows leaves PM in that state.
\<close>

theorem torn_transaction:
  assumes "tx_inv tx (es1 @ es2)" and "entries_size (es1 @ es2) \<le> 7936" and "clear_of_log pmem (es1 @ es2)"
    and "even (unat (m (log_region_ofst pmem)))"
  shows "\<exists>ops m'. pmem_transaction_apply pmem tx dram = Some (ops, tx\<lparr> tx_lh := lh_zero \<rparr>, deferred (es1 @ es2) dram) \<and>
    pm_crash m [] ops m' \<and> pmem_recovery pmem stack m' = Rec_ok m' \<and>
    (\<forall>x. log_block pmem x \<or> m' x = entries_write es1 m x)"
proof -
  let ?ops = "tx_ops pmem tx (es1 @ es2)" and ?k = "2 + length es1"
  let ?m = "pm_run (take ?k ?ops) m"
  note a = tx_apply_ops [OF assms(1,2), of pmem dram]
  note c = crash_prefix [of m ?ops ?k]
  have r: "pmem_recovery pmem stack ?m = Rec_ok ?m"
    by (rule recovery_invalid, rule tx_crash_header_even [of tx "es1 @ es2" pmem m]) (use assms(1,3,4) c in simp_all)
  define bs where "bs = take (unat (CEIL_ALIGN (lh_align_length (tx_lh tx)) 256)) (tx_le tx)"
  define hs where "hs = lh_encode ((tx_lh tx)\<lparr> lh_align_length := CEIL_ALIGN (lh_align_length (tx_lh tx)) 256 \<rparr>)"
  have l: "length bs \<le> 8128" "length hs = 64"
    using assms(1) by (simp_all add: tx_inv_def le_cap_val bs_def hs_def lh_size_def)
  have t: "take ?k ?ops = PM_persist (log_region_ofst pmem + lh_size) bs # PM_persist (log_region_ofst pmem) hs
      # map (\<lambda>e. PM_nodrain (e_ofst e) (e_value e)) es1"
    by (simp add: tx_ops_def bs_def hs_def)
  have "log_block pmem x \<or> ?m x = entries_write es1 m x" for x
  proof (cases "log_block pmem x")
    case False
    have "mem_write (mem_write m (log_region_ofst pmem + lh_size) bs) (log_region_ofst pmem) hs x
        = mem_write m (log_region_ofst pmem + lh_size) bs x"
      using False l
      by (intro mem_write_out) (auto simp: log_block_def in_block_def PM_LOG_REGION_SIZE_def)
    also have "\<dots> = m x" using False l
      by (intro mem_write_out) (auto simp: log_block_def in_block_def PM_LOG_REGION_SIZE_def lh_size_def)
    finally show ?thesis unfolding t by (simp add: pm_run_nodrain entries_write_agree)
  qed simp
  with a c r show ?thesis by blast
qed

lemma torn_transaction_witness:
  "\<exists>tx ops m'. pmem_transaction_apply demo_pmem tx (\<lambda>_. 0)
      = Some (ops, tx\<lparr> tx_lh := lh_zero \<rparr>, deferred ([demo_entry 1048576 8] @ [demo_entry 1048640 8]) (\<lambda>_. 0)) \<and>
    pm_crash (\<lambda>_. 0) [] ops m' \<and> pmem_recovery demo_pmem [] m' = Rec_ok m' \<and> m' 1048576 = 1 \<and> m' 1048640 = 0"
proof -
  obtain tx where i: "tx_inv tx ([demo_entry 1048576 8] @ [demo_entry 1048640 8])" using demo_build by auto
  have s: "entries_size ([demo_entry 1048576 8] @ [demo_entry 1048640 8]) \<le> 7936" by (simp add: demo_entry_size)
  have c: "clear_of_log demo_pmem ([demo_entry 1048576 8] @ [demo_entry 1048640 8])" by (simp add: demo_clear)
  obtain ops m' where o: "pmem_transaction_apply demo_pmem tx (\<lambda>_. 0)
      = Some (ops, tx\<lparr> tx_lh := lh_zero \<rparr>, deferred ([demo_entry 1048576 8] @ [demo_entry 1048640 8]) (\<lambda>_. 0))"
    and p: "pm_crash (\<lambda>_. 0) [] ops m'" "pmem_recovery demo_pmem [] m' = Rec_ok m'"
    and w: "\<And>x. log_block demo_pmem x \<or> m' x = entries_write [demo_entry 1048576 8] (\<lambda>_. 0) x"
    using torn_transaction [OF i s c, of "\<lambda>_. 0" "\<lambda>_. 0" "[]"] by auto
  have n: "\<not> log_block demo_pmem 1048576" "\<not> log_block demo_pmem 1048640"
    by (simp_all add: log_block_def in_block_def PM_LOG_REGION_SIZE_def)
  have "m' 1048576 = 1" "m' 1048640 = 0"
    using w [of 1048576] w [of 1048640] n by (simp_all add: demo_entry_def mem_write_def)
  with o p show ?thesis by blast
qed

text \<open>
  C28: Recovery from a log whose header is valid: when it holds well-formed entries, aligned
  to 64 bytes, in at most 4096 bytes, it writes every entry and clears the header; and what
  the entries' blocks held before does not matter, so recovering again after a crash during
  recovery gives the same PM.
\<close>

theorem recovery_replays:
  assumes "valid_log pmem m es" and "valid_log pmem m' es" and "length stack = 4096"
    and "\<forall>x. in_entries x es \<or> m x = m' x"
  shows "pmem_recovery pmem stack m
      = Rec_ok (mem_write (entries_write es m) (log_region_ofst pmem) (lh_encode lh_zero)) \<and>
    pmem_recovery pmem stack m' = pmem_recovery pmem stack m"
proof -
  have "entries_write es m = entries_write es m'"
    by (rule ext, rule entries_write_agree) (use assms(4) in blast)
  then show ?thesis by (simp add: valid_log_recovery [OF assms(1,3)] valid_log_recovery [OF assms(2,3)])
qed

definition demo_header :: pm_log_header where
  "demo_header = \<lparr> lh_valid = True, lh_rsv = 0, lh_nr_logs = 1, lh_align_length = 256 \<rparr>"

definition demo_image :: "u8 \<Rightarrow> memory" where
  "demo_image b = mem_write (mem_write (mem_write (\<lambda>_. 0) 1048576 (replicate 64 b))
     4160 (entries_bytes [demo_entry 1048576 64])) 4096 (lh_encode demo_header)"

lemma demo_image_valid: "valid_log demo_pmem (demo_image b) [demo_entry 1048576 64]"
proof -
  let ?e = "[demo_entry 1048576 64]"
  have l: "length (entries_bytes ?e) = 88" by (simp add: demo_entry_size)
  have h: "pmem_read (demo_image b) (log_region_ofst demo_pmem) lh_size = lh_encode demo_header"
    unfolding pmem_read_def demo_image_def demo_pmem_ofst by (rule mem_read_write_same) simp
  have "mem_read (demo_image b) 4160 88 = entries_bytes ?e"
    unfolding demo_image_def using l
    by (subst mem_read_write_disjoint) (simp_all add: disjoint_blocks_def lh_size_def mem_read_write_same)
  then have "pmem_read (demo_image b) (log_region_ofst demo_pmem + lh_size) 256
      = entries_bytes ?e @ mem_read (demo_image b) 4248 168"
    using mem_read_split [of "demo_image b" 4160 88 168] by (simp add: pmem_read_def lh_size_def)
  then show ?thesis unfolding valid_log_def
    by (intro conjI exI [of _ demo_header] exI [of _ "mem_read (demo_image b) 4248 168"] h)
      (simp_all add: demo_header_def demo_entry_ok, simp_all add: demo_entry_def)
qed

lemma recovery_replays_witness:
  "pmem_recovery demo_pmem (replicate 4096 0) (demo_image 0)
      = Rec_ok (mem_write (entries_write [demo_entry 1048576 64] (demo_image 0)) 4096 (lh_encode lh_zero)) \<and>
    pmem_recovery demo_pmem (replicate 4096 0) (demo_image 7)
      = pmem_recovery demo_pmem (replicate 4096 0) (demo_image 0)"
proof -
  have "\<forall>x. in_entries x [demo_entry 1048576 64] \<or> demo_image 0 x = demo_image 7 x"
    by (auto simp: demo_image_def mem_write_def demo_entry_def in_block_def)
  from recovery_replays [OF demo_image_valid demo_image_valid _ this, of "replicate 4096 0"]
  show ?thesis by simp
qed

text \<open>
  Transactions the code accepts and cannot carry through: with more than 7936 bytes of
  entries applying it reads behind the transaction (the length is rounded up to 8192 bytes
  behind a header of 64).
\<close>

theorem apply_overlong_faults:
  assumes "tx_inv tx es" and "7936 < entries_size es"
  shows "pmem_transaction_apply pmem tx dram = None"
  by (rule tx_apply_overlong [OF assms])

lemma apply_overlong_faults_witness:
  "\<exists>tx. tx_inv tx [demo_entry 1048576 8000] \<and> pmem_transaction_apply demo_pmem tx (\<lambda>_. 0) = None"
proof -
  obtain tx where i: "tx_inv tx [demo_entry 1048576 8000]"
    using tx_build [of "replicate le_cap 0" "[demo_entry 1048576 8000]"]
    by (auto simp: demo_entry_ok demo_entry_size le_cap_val)
  have "pmem_transaction_apply demo_pmem tx (\<lambda>_. 0) = None"
    by (rule apply_overlong_faults [OF i]) (simp add: demo_entry_size)
  with i show ?thesis by blast
qed

end
