(* ===== verification/Zstore_Layout.thy ===== *)
theory Zstore_Layout
  imports Allocator_Correct Pmem_Correct
begin

text \<open>
  The on-media layout of a store and its life cycle (\<^verbatim>\<open>zstore.c\<close>: the superblock, the
  object table, \<^verbatim>\<open>zstore_mkfs\<close> and \<^verbatim>\<open>zstore_mount\<close>).  What the code
  takes from SPDK (the number and size of the blocks of the device) is an argument.
  Contents of uninitialised memory (padding, unset fields) are arguments too.
\<close>

section \<open>Constants and data\<close>

definition ZSTORE_MAGIC :: nat where "ZSTORE_MAGIC = 0x1997070519980218"
definition ZSTORE_PAGE_SIZE :: nat where "ZSTORE_PAGE_SIZE = 4096"
definition ZSTORE_ENBALE_TRIM :: nat where "ZSTORE_ENBALE_TRIM = 2"
definition ZSTORE_MKFS_RESERVE_OBJID :: nat where "ZSTORE_MKFS_RESERVE_OBJID = 4"
definition ZSTORE_MKFS_RESERVE_OBJ_NR :: nat where "ZSTORE_MKFS_RESERVE_OBJ_NR = 512 * 512"

record zstore_superblock =
  sb_magic :: nat
  sb_features :: nat
  sb_ssd_min_alloc_size_shift :: nat
  sb_pm_min_alloc_size_shift :: nat
  sb_ssd_nr_pages :: nat
  sb_ssd_min_alloc_size :: nat
  sb_pm_nr_pages :: nat
  sb_pm_min_alloc_size :: nat
  sb_pm_ulog_ofst :: nat
  sb_pm_ssd_bitmap_ofst :: nat
  sb_pm_dy_bitmap_ofst :: nat
  sb_onodes_rsv :: nat
  sb_pm_otable_ofst :: nat
  sb_pm_dy_space_ofst :: nat
  sb_rest :: "u8 list"

text \<open>The bytes of a superblock: the C structure pads four bytes after \<^verbatim>\<open>features\<close>.\<close>

definition sb_encode :: "zstore_superblock \<Rightarrow> u8 list" where
  "sb_encode sb =
     le_bytes 8 (sb_magic sb) @ le_bytes 8 (sb_features sb) @
     le_bytes 8 (sb_ssd_min_alloc_size_shift sb) @ le_bytes 8 (sb_pm_min_alloc_size_shift sb) @
     le_bytes 4 (sb_ssd_nr_pages sb) @ le_bytes 4 (sb_ssd_min_alloc_size sb) @
     le_bytes 4 (sb_pm_nr_pages sb) @ le_bytes 4 (sb_pm_min_alloc_size sb) @
     le_bytes 8 (sb_pm_ulog_ofst sb) @ le_bytes 8 (sb_pm_ssd_bitmap_ofst sb) @
     le_bytes 8 (sb_pm_dy_bitmap_ofst sb) @ le_bytes 8 (sb_onodes_rsv sb) @
     le_bytes 8 (sb_pm_otable_ofst sb) @ le_bytes 8 (sb_pm_dy_space_ofst sb) @ sb_rest sb"

definition sb_decode :: "u8 list \<Rightarrow> zstore_superblock" where
  "sb_decode bs =
     \<lparr> sb_magic = field bs 0 8, sb_features = field bs 8 8,
       sb_ssd_min_alloc_size_shift = field bs 16 8, sb_pm_min_alloc_size_shift = field bs 24 8,
       sb_ssd_nr_pages = field bs 32 4, sb_ssd_min_alloc_size = field bs 36 4,
       sb_pm_nr_pages = field bs 40 4, sb_pm_min_alloc_size = field bs 44 4,
       sb_pm_ulog_ofst = field bs 48 8, sb_pm_ssd_bitmap_ofst = field bs 56 8,
       sb_pm_dy_bitmap_ofst = field bs 64 8, sb_onodes_rsv = field bs 72 8,
       sb_pm_otable_ofst = field bs 80 8, sb_pm_dy_space_ofst = field bs 88 8,
       sb_rest = drop 96 bs \<rparr>"

text \<open>An entry of the object table, 64 bytes.\<close>

record otable_entry =
  oe_valid :: bool
  oe_rsv :: nat
  oe_oid :: nat
  oe_rsv2 :: nat
  oe_data_idx_id :: nat
  oe_pad :: "u8 list"

definition oe_encode :: "otable_entry \<Rightarrow> u8 list" where
  "oe_encode oe =
     le_bytes 8 (of_bool (oe_valid oe) + 2 * (oe_rsv oe mod 2 ^ 15) + 2 ^ 16 * (oe_oid oe mod 2 ^ 48)) @
     le_bytes 4 (oe_rsv2 oe) @ le_bytes 4 (oe_data_idx_id oe) @ oe_pad oe"

definition oe_decode :: "u8 list \<Rightarrow> otable_entry" where
  "oe_decode bs = (let w = field bs 0 8 in
     \<lparr> oe_valid = odd w, oe_rsv = w div 2 mod 2 ^ 15, oe_oid = w div 2 ^ 16 mod 2 ^ 48,
       oe_rsv2 = field bs 8 4, oe_data_idx_id = field bs 12 4, oe_pad = drop 16 bs \<rparr>)"

section \<open>mkfs\<close>

definition mkfs_superblock :: "nat \<Rightarrow> nat \<Rightarrow> nat \<Rightarrow> u8 list \<Rightarrow> zstore_superblock" where
  "mkfs_superblock nblks pm_size features rest =
     (let onode_rsv = 2 ^ 20; ssd_bitmap_sz = 32 * 2 ^ 20; pm_bitmap_sz = 2 ^ 20;
          otable = 2 ^ 20 + ssd_bitmap_sz + pm_bitmap_sz
      in \<lparr> sb_magic = ZSTORE_MAGIC, sb_features = features,
           sb_ssd_min_alloc_size_shift = 12, sb_pm_min_alloc_size_shift = 12,
           sb_ssd_nr_pages = min (2 ^ 28) nblks, sb_ssd_min_alloc_size = 4096,
           sb_pm_nr_pages = pm_size div 4096, sb_pm_min_alloc_size = 4096,
           sb_pm_ulog_ofst = 4096, sb_pm_ssd_bitmap_ofst = 2 ^ 20,
           sb_pm_dy_bitmap_ofst = 2 ^ 20 + ssd_bitmap_sz, sb_onodes_rsv = onode_rsv,
           sb_pm_otable_ofst = otable, sb_pm_dy_space_ofst = otable + 64 * onode_rsv,
           sb_rest = rest \<rparr>)"

definition page_zero :: "u8 list" where "page_zero = replicate 4096 0"
definition page_ff :: "u8 list" where "page_ff = replicate 4096 0xff"

text \<open>The part of mkfs that creates the reserved objects.\<close>

definition mkfs_reserve :: "zstore_superblock \<Rightarrow> otable_entry \<Rightarrow> pm_op list" where
  "mkfs_reserve sb e0 =
     (if ZSTORE_MKFS_RESERVE_OBJ_NR mod (4096 * 8 * 8) \<noteq> 0 then []
      else let pages = ZSTORE_MKFS_RESERVE_OBJ_NR div (4096 * 8 * 8) in
        map (\<lambda>i. pmem_write True page_ff (sb_pm_ssd_bitmap_ofst sb + i * 4096)) [0..<pages] @
        map (\<lambda>i. pmem_write True page_ff (sb_pm_dy_bitmap_ofst sb + i * 4096)) [0..<pages] @
        map (\<lambda>i. pmem_write True (oe_encode (e0\<lparr> oe_oid := i, oe_data_idx_id := i, oe_valid := True \<rparr>))
                   (sb_pm_otable_ofst sb + i * 64)) [0..<ZSTORE_MKFS_RESERVE_OBJ_NR] @
        map (\<lambda>i. pmem_write True page_ff (sb_pm_dy_space_ofst sb + i * 4096)) [0..<ZSTORE_MKFS_RESERVE_OBJ_NR])"

text \<open>The part that writes the superblock and clears the log, the bitmaps and the table.\<close>

definition mkfs_clean :: "zstore_superblock \<Rightarrow> pm_op list" where
  "mkfs_clean sb =
     pmem_write True (sb_encode sb) 0
     # map (\<lambda>i. pmem_write True page_zero ((i + 1) * 4096)) [0..<255]
     @ map (\<lambda>i. pmem_write True page_zero (i * 4096))
         [sb_pm_ssd_bitmap_ofst sb div 4096..<sb_pm_dy_space_ofst sb div 4096]"

definition zstore_mkfs ::
    "nat \<Rightarrow> nat \<Rightarrow> nat \<Rightarrow> nat \<Rightarrow> nat \<Rightarrow> u8 list \<Rightarrow> otable_entry \<Rightarrow> pm_op list option" where
  "zstore_mkfs cpu blk_sz nblks flags features rest e0 =
     (let (pm, pm_size) = pmem_open cpu; sb = mkfs_superblock nblks pm_size features rest in
      if blk_sz \<noteq> 4096 then None
      else Some
        (mkfs_clean sb
         @ (if flags AND ZSTORE_MKFS_RESERVE_OBJID \<noteq> 0 then mkfs_reserve sb e0 else [])))"

section \<open>Mounting\<close>

record zstore =
  zs_mnt_flag :: nat
  zs_pmem :: pmem_t
  zs_sb :: zstore_superblock
  zs_ssd :: stupid_allocator
  zs_pm :: stupid_allocator
  zs_otable :: nat
  zs_dram :: memory
  zs_tid_max :: nat

definition bitmap_entry_of :: "u8 list \<Rightarrow> stupid_bitmap_entry" where
  "bitmap_entry_of bs = map (\<lambda>j. word_of_nat (field bs (8 * j) 8)) [0..<8]"

text \<open>Loading a bitmap region; a store behind the array is \<^term>\<open>None\<close>.\<close>

fun load_bitmap :: "memory \<Rightarrow> nat \<Rightarrow> nat list \<Rightarrow> stupid_allocator \<Rightarrow> stupid_allocator option" where
  "load_bitmap m ofst [] a = Some a"
| "load_bitmap m ofst (i # is) a =
     (case stupid_allocator_init_bitmap_entry a i (bitmap_entry_of (pmem_read m (ofst + 64 * i) 64)) of
        None \<Rightarrow> None
      | Some a' \<Rightarrow> load_bitmap m ofst is a')"

definition mount_allocator :: "memory \<Rightarrow> nat \<Rightarrow> nat \<Rightarrow> stupid_allocator option" where
  "mount_allocator m nr_pages ofst =
     (let a = stupid_allocator_constructor nr_pages in load_bitmap m ofst [0..<sa_nr_entrys a] a)"

text \<open>
  The object table is an array in DRAM (\<open>zs_otable\<close> is its address, from \<open>calloc\<close>),
  because the log keeps pointers into it.
\<close>

definition load_otable :: "memory \<Rightarrow> nat \<Rightarrow> nat \<Rightarrow> nat \<Rightarrow> memory" where
  "load_otable m base ofst n =
     fold (\<lambda>i d. mem_write d (base + i * 64) (pmem_read m (ofst + i * 64) 64)) [0..<n] (\<lambda>_. 0)"

definition onode_addr :: "zstore \<Rightarrow> nat \<Rightarrow> nat" where
  "onode_addr zs oid = zs_otable zs + oid * 64"

definition onode :: "zstore \<Rightarrow> nat \<Rightarrow> otable_entry" where
  "onode zs oid = oe_decode (mem_read (zs_dram zs) (onode_addr zs oid) 64)"

definition zstore_mount :: "nat \<Rightarrow> u8 list \<Rightarrow> nat \<Rightarrow> nat \<Rightarrow> memory \<Rightarrow> (zstore \<times> memory) rec_res" where
  "zstore_mount cpu stack otable flags m =
     (let pm = fst (pmem_open cpu); sb = sb_decode (pmem_read m 0 4096) in
      if sb_magic sb \<noteq> ZSTORE_MAGIC then Rec_abort
      else case pmem_recovery pm stack m of
        Rec_abort \<Rightarrow> Rec_abort
      | Rec_fault \<Rightarrow> Rec_fault
      | Rec_ok m1 \<Rightarrow>
          (case mount_allocator m1 (sb_ssd_nr_pages sb) (sb_pm_ssd_bitmap_ofst sb) of
             None \<Rightarrow> Rec_fault
           | Some ssd \<Rightarrow>
               (case mount_allocator m1 (sb_pm_nr_pages sb) (sb_pm_dy_bitmap_ofst sb) of
                  None \<Rightarrow> Rec_fault
                | Some pma \<Rightarrow>
                    if 2 ^ 20 < sb_onodes_rsv sb then Rec_fault
                    else Rec_ok (\<lparr> zs_mnt_flag = flags, zs_pmem = pm, zs_sb = sb, zs_ssd = ssd, zs_pm = pma,
                        zs_otable = otable,
                        zs_dram = load_otable m1 otable (sb_pm_otable_ofst sb) (sb_onodes_rsv sb),
                        zs_tid_max = 0 \<rparr>, m1))))"

end
