(* ===== verification/Message.thy ===== *)
theory Message
  imports Memory Errcode
begin

text \<open>
  Messages and the parameters of operations (\<^verbatim>\<open>message.h\<close>,
  \<^verbatim>\<open>operation.h\<close>): a packed header of 26 bytes, the parameters of the operation
  (meta buffer) and the data.  The conversions \<^verbatim>\<open>le16_to_cpu\<close> and so on are
  identities.  A buffer pointer is the bytes it points to, or \<^term>\<open>None\<close> for NULL.
\<close>

section \<open>Operation codes\<close>

definition msg_hdr :: nat where "msg_hdr = 0"
definition msg_ping :: nat where "msg_ping = 1"
definition msg_oss_op_min :: nat where "msg_oss_op_min = 10"
definition msg_oss_op_stat :: nat where "msg_oss_op_stat = 11"
definition msg_oss_op_create :: nat where "msg_oss_op_create = 12"
definition msg_oss_op_read :: nat where "msg_oss_op_read = 13"
definition msg_oss_op_write :: nat where "msg_oss_op_write = 14"
definition msg_oss_op_delete :: nat where "msg_oss_op_delete = 15"
definition msg_oss_op_max :: nat where "msg_oss_op_max = 74"

definition LOCAL :: nat where "LOCAL = 0x11"
definition REMOTE :: nat where "REMOTE = 0x22"

lemmas msg_op_defs = msg_hdr_def msg_ping_def msg_oss_op_min_def msg_oss_op_stat_def msg_oss_op_create_def
  msg_oss_op_read_def msg_oss_op_write_def msg_oss_op_delete_def msg_oss_op_max_def

definition MSG_TYPE_OSS :: "nat \<Rightarrow> bool" where
  "MSG_TYPE_OSS op \<longleftrightarrow> msg_oss_op_min < op \<and> op < msg_oss_op_max"

section \<open>The header\<close>

record msg_hdr_t =
  h_seq :: nat
  h_type :: nat
  h_status :: nat
  h_magic :: nat
  h_meta_length :: nat
  h_data_length :: nat
  h_slo :: nat
  h_rsv :: "nat \<times> nat"

definition hdr_size :: nat where "hdr_size = 26"

definition hdr_encode :: "msg_hdr_t \<Rightarrow> u8 list" where
  "hdr_encode h =
     le_bytes 8 (h_seq h) @ le_bytes 1 (h_type h) @ le_bytes 1 (h_status h) @ le_bytes 1 (h_magic h) @
     le_bytes 1 (h_meta_length h) @ le_bytes 4 (h_data_length h) @ le_bytes 2 (h_slo h) @
     le_bytes 4 (fst (h_rsv h)) @ le_bytes 4 (snd (h_rsv h))"

definition hdr_decode :: "u8 list \<Rightarrow> msg_hdr_t" where
  "hdr_decode bs =
     \<lparr> h_seq = field bs 0 8, h_type = field bs 8 1, h_status = field bs 9 1, h_magic = field bs 10 1,
       h_meta_length = field bs 11 1, h_data_length = field bs 12 4, h_slo = field bs 16 2,
       h_rsv = (field bs 18 4, field bs 22 4) \<rparr>"

definition hdr_ok :: "msg_hdr_t \<Rightarrow> bool" where
  "hdr_ok h \<longleftrightarrow> h_seq h < 2 ^ 64 \<and> h_type h < 2 ^ 8 \<and> h_status h < 2 ^ 8 \<and> h_magic h < 2 ^ 8 \<and>
     h_meta_length h < 2 ^ 8 \<and> h_data_length h < 2 ^ 32 \<and> h_slo h < 2 ^ 16 \<and>
     fst (h_rsv h) < 2 ^ 32 \<and> snd (h_rsv h) < 2 ^ 32"

lemma length_hdr_encode [simp]: "length (hdr_encode h) = hdr_size"
  by (simp add: hdr_encode_def hdr_size_def)

lemma hdr_decode_encode: "hdr_ok h \<Longrightarrow> hdr_decode (hdr_encode h @ rest) = h"
  by (simp add: hdr_decode_def hdr_encode_def hdr_ok_def field_def le_val_le_bytes del: le_bytes.simps)

section \<open>Messages\<close>

record message =
  hdr_rem_len :: nat
  meta_rem_len :: nat
  data_rem_len :: nat
  m_header :: msg_hdr_t
  meta_buffer :: "u8 list option"
  data_buffer :: "u8 list option"
  priv_ctx :: nat

definition message_get_op :: "message \<Rightarrow> nat" where "message_get_op m = h_type (m_header m)"
definition message_get_status :: "message \<Rightarrow> nat" where "message_get_status m = h_status (m_header m)"
definition message_get_seq :: "message \<Rightarrow> nat" where "message_get_seq m = h_seq (m_header m)"
definition message_get_meta_len :: "message \<Rightarrow> nat" where "message_get_meta_len m = h_meta_length (m_header m)"
definition message_get_data_len :: "message \<Rightarrow> nat" where "message_get_data_len m = h_data_length (m_header m)"

definition hdr_zero :: msg_hdr_t where
  "hdr_zero = hdr_decode (replicate 26 0)"

definition message_zero :: message where
  "message_zero = \<lparr> hdr_rem_len = 0, meta_rem_len = 0, data_rem_len = 0, m_header = hdr_zero,
     meta_buffer = None, data_buffer = None, priv_ctx = 0 \<rparr>"

text \<open>Moving a message out of its source: the result is the destination and the source.\<close>

definition message_move :: "message \<Rightarrow> message \<times> message" where
  "message_move src = (src, message_zero)"

definition message_claim_meta :: "message \<Rightarrow> u8 list option \<times> message" where
  "message_claim_meta src = (meta_buffer src, src\<lparr> meta_buffer := None \<rparr>)"

definition message_claim_data :: "message \<Rightarrow> u8 list option \<times> message" where
  "message_claim_data src = (data_buffer src, src\<lparr> data_buffer := None \<rparr>)"

definition message_len :: "message \<Rightarrow> u32" where
  "message_len m = word_of_nat (hdr_size + h_meta_length (m_header m) + h_data_length (m_header m))"

definition message_state_reset :: "message \<Rightarrow> message" where
  "message_state_reset m = m\<lparr> hdr_rem_len := hdr_size,
     meta_rem_len := h_meta_length (m_header m), data_rem_len := h_data_length (m_header m) \<rparr>"

section \<open>Parameters of operations\<close>

record op_rw =
  rw_oid :: nat
  rw_ofst :: nat
  rw_len :: nat
  rw_flags :: nat

definition op_oid :: "u8 list \<Rightarrow> nat" where "op_oid meta = field meta 0 8"

definition op_rw_decode :: "u8 list \<Rightarrow> op_rw" where
  "op_rw_decode meta = \<lparr> rw_oid = field meta 0 8, rw_ofst = field meta 8 8, rw_len = field meta 16 8,
     rw_flags = field meta 24 8 \<rparr>"

definition op_rw_encode :: "op_rw \<Rightarrow> u8 list" where
  "op_rw_encode a = le_bytes 8 (rw_oid a) @ le_bytes 8 (rw_ofst a) @ le_bytes 8 (rw_len a) @ le_bytes 8 (rw_flags a)"

lemma op_rw_decode_encode:
  "rw_oid a < 2 ^ 64 \<Longrightarrow> rw_ofst a < 2 ^ 64 \<Longrightarrow> rw_len a < 2 ^ 64 \<Longrightarrow> rw_flags a < 2 ^ 64 \<Longrightarrow>
     op_rw_decode (op_rw_encode a @ rest) = a"
  by (simp add: op_rw_decode_def op_rw_encode_def field_def le_val_le_bytes del: le_bytes.simps)

record op_stat_result =
  st_type :: nat
  st_capcity_gib :: nat
  st_obj_blk_sz_kib :: nat
  st_max_oid :: nat
  st_max_obj_size_kib :: nat

definition op_stat_encode :: "op_stat_result \<Rightarrow> u8 list" where
  "op_stat_encode r = le_array 4 [st_type r, st_capcity_gib r, st_obj_blk_sz_kib r, st_max_oid r, st_max_obj_size_kib r]"

end
