(* ===== verification/Zstore_Prep.thy ===== *)
theory Zstore_Prep
  imports Zstore_Layout Message
begin

text \<open>
  Preparing the transactions of a store (\<^verbatim>\<open>zstore.c\<close>): looking up the blocks of a
  range of an object, allocating blocks for a write, building the log of the metadata.
  Arrays on the stack have \<^verbatim>\<open>ZSTORE_TX_IOV_MAX\<close> elements; writing behind one is
  \<^verbatim>\<open>Prep_fault\<close>, a failed assertion \<^verbatim>\<open>Prep_abort\<close>.
\<close>

section \<open>Data\<close>

definition ZSTORE_TX_IOV_MAX :: nat where "ZSTORE_TX_IOV_MAX = 32"
definition ZSTORE_IO_UNIT_MAX :: nat where "ZSTORE_IO_UNIT_MAX = 128 * 1024"
definition DIB_HOLE :: nat where "DIB_HOLE = 2 ^ 32 - 1"

datatype io_type = IO_READ | IO_WRITE | IO_TRIM

record bio =
  io_ty :: io_type
  blk_ofst :: nat
  blk_len :: nat

datatype tx_state = PREPARE | DATA_IO | PM_TX | END_TX

datatype tx_type = TX_NONE | TX_RDONLY | TX_WRITE

record zstore_tx =
  tx_tid :: nat
  tx_type :: tx_type
  tx_sync :: bool
  tx_state :: tx_state
  tx_err :: int
  tx_bio_outstanding :: nat
  tx_bios :: "bio list"
  tx_pm :: "pm_tx option"

datatype prep_res = Prep_rc int zstore zstore_tx memory | Prep_fault | Prep_abort

section \<open>Looking up blocks\<close>

definition onode_entry :: "zstore \<Rightarrow> nat \<Rightarrow> otable_entry option" where
  "onode_entry zs oid = (if oid < sb_onodes_rsv (zs_sb zs) then Some (onode zs oid) else None)"

definition object_data_index_block :: "zstore \<Rightarrow> otable_entry \<Rightarrow> nat" where
  "object_data_index_block zs oe = sb_pm_dy_space_ofst (zs_sb zs) + oe_data_idx_id oe * 2 ^ 12"

text \<open>
  Merging block numbers into extents.  \<open>ex\<close> are the extents so far (the pointer \<open>p\<close> is at
  the last), \<open>mb\<close> counts the mapped blocks.
\<close>

fun merge_loop :: "nat list \<Rightarrow> bool \<Rightarrow> zstore_extent list \<Rightarrow> nat \<Rightarrow> zstore_extent list \<times> nat" where
  "merge_loop [] in_found ex mb = (ex, mb)"
| "merge_loop (ba # bi) in_found ex mb =
     (if ba = DIB_HOLE then merge_loop bi False ex mb
      else if in_found then
        (let p = last ex in
         if ze_len p + ze_lba p = ba \<and> ze_lba p div 512 = ba div 512 \<and> ze_len p < ZSTORE_IO_UNIT_MAX
         then merge_loop bi True (grow_last ex) (mb + 1)
         else merge_loop bi True (ex @ [\<lparr> ze_lba = ba, ze_len = 1 \<rparr>]) (mb + 1))
      else merge_loop bi True (ex @ [\<lparr> ze_lba = ba, ze_len = 1 \<rparr>]) (mb + 1))"

definition object_lba_merge_to :: "nat list \<Rightarrow> zstore_extent list \<times> nat" where
  "object_lba_merge_to bi = merge_loop bi False [] 0"

text \<open>
  The extents, the number of mapped blocks and the data index entries of a range.  With an
  alignment of 1 the range of entries is the range of blocks.
\<close>

definition object_lba_range_get ::
    "zstore \<Rightarrow> memory \<Rightarrow> otable_entry \<Rightarrow> nat \<Rightarrow> nat \<Rightarrow> bool \<Rightarrow> (zstore_extent list \<times> nat \<times> nat list) option" where
  "object_lba_range_get zs m oe op_ofst op_len is_write =
     (let shift = sb_ssd_min_alloc_size_shift (zs_sb zs);
          bofst = op_ofst div 2 ^ shift; blen = op_len div 2 ^ shift;
          dib_addr = object_data_index_block zs oe
      in if ZSTORE_TX_IOV_MAX < blen then None
         else let dib0 = array_of 4 blen (pmem_read m (dib_addr + bofst * 4) (blen * 4));
                  dib = (if is_write then dib0 else map (\<lambda>v. if v = DIB_HOLE then 0 else v) dib0);
                  (ex, mapped) = object_lba_merge_to dib
              in Some (ex, mapped, dib))"

text \<open>
  Whether the entries of the data index that are read lie in the mapped file; the preparation
  of an operation whose entries do not is a fault.
\<close>

definition index_mapped :: "zstore \<Rightarrow> otable_entry \<Rightarrow> nat \<Rightarrow> nat \<Rightarrow> bool" where
  "index_mapped zs oe op_ofst op_len \<longleftrightarrow>
     (let shift = sb_ssd_min_alloc_size_shift (zs_sb zs) in
      pm_mapped (object_data_index_block zs oe + op_ofst div 2 ^ shift * 4) (op_len div 2 ^ shift * 4))"

definition lba_to_bitmap_id :: "zstore_extent list \<Rightarrow> nat list" where
  "lba_to_bitmap_id ex =
     fold (\<lambda>e bid. if ze_lba e div 512 \<in> set bid then bid else bid @ [ze_lba e div 512]) ex []"

section \<open>Building the log\<close>

definition bitmap_entry_bytes :: "stupid_bitmap_entry \<Rightarrow> u8 list" where
  "bitmap_entry_bytes e = le_array 8 (map unat e)"

text \<open>
  The log entries of the bitmap: the loop stops at the first one refused.  The result is
  the transaction and whether all were added; \<^term>\<open>None\<close> is an overrun or an entry of the
  bitmap outside its array.
\<close>

fun add_bitmaps :: "zstore \<Rightarrow> nat list \<Rightarrow> pm_tx \<Rightarrow> (pm_tx \<times> bool) option" where
  "add_bitmaps zs [] tx = Some (tx, True)"
| "add_bitmaps zs (b # bid) tx =
     (if length (sa_bs (zs_ssd zs)) \<le> b then None
      else case pmem_transaction_add tx (sb_pm_ssd_bitmap_ofst (zs_sb zs) + b * 64) 0
             (bitmap_entry_bytes (sa_bs (zs_ssd zs) ! b)) of
          Add_ok tx' \<Rightarrow> add_bitmaps zs bid tx'
        | Add_full tx' \<Rightarrow> Some (tx', False)
        | Add_overrun \<Rightarrow> None)"

definition add_ignore :: "pm_tx \<Rightarrow> nat \<Rightarrow> nat \<Rightarrow> u8 list \<Rightarrow> pm_tx option" where
  "add_ignore tx ofst paddr v = (case pmem_transaction_add tx ofst paddr v of
     Add_ok tx' \<Rightarrow> Some tx' | Add_full tx' \<Rightarrow> Some tx' | Add_overrun \<Rightarrow> None)"

definition dib_update :: "zstore_extent list \<Rightarrow> nat list" where
  "dib_update enew = concat (map (\<lambda>e. [ze_lba e..<ze_lba e + ze_len e]) enew)"

definition write_bios :: "zstore \<Rightarrow> zstore_extent list \<Rightarrow> zstore_extent list \<Rightarrow> bio list" where
  "write_bios zs enew e =
     map (\<lambda>x. \<lparr> io_ty = IO_WRITE, blk_ofst = ze_lba x, blk_len = ze_len x \<rparr>) enew @
     (if zs_mnt_flag zs AND ZSTORE_ENBALE_TRIM \<noteq> 0
      then map (\<lambda>x. \<lparr> io_ty = IO_TRIM, blk_ofst = ze_lba x, blk_len = ze_len x \<rparr>) e else [])"

definition read_bios :: "zstore_extent list \<Rightarrow> bio list" where
  "read_bios e = map (\<lambda>x. \<lparr> io_ty = IO_READ, blk_ofst = ze_lba x, blk_len = ze_len x \<rparr>) e"

text \<open>
  The log of a write: the bitmap entries of the released and of the new blocks, the data
  index, the object's entry.
\<close>

definition write_log ::
    "zstore \<Rightarrow> u8 list \<Rightarrow> otable_entry \<Rightarrow> op_rw \<Rightarrow> nat list \<Rightarrow> nat list \<Rightarrow> nat list \<Rightarrow> (pm_tx \<times> bool) option" where
  "write_log zs garbage oe a bid bid2 dib =
     (case add_bitmaps zs bid (pmem_transaction_alloc garbage) of
        None \<Rightarrow> None
      | Some (tx1, False) \<Rightarrow> Some (tx1, False)
      | Some (tx1, True) \<Rightarrow>
          (case add_bitmaps zs bid2 tx1 of
             None \<Rightarrow> None
           | Some (tx2, False) \<Rightarrow> Some (tx2, False)
           | Some (tx2, True) \<Rightarrow>
               (case add_ignore tx2 (object_data_index_block zs oe + rw_ofst a div 2 ^ 12 mod 2 ^ 32 * 4) 0 (le_array 4 dib) of
                  None \<Rightarrow> None
                | Some tx3 \<Rightarrow>
                    map_option (\<lambda>tx4. (tx4, True))
                      (add_ignore tx3 (sb_pm_otable_ofst (zs_sb zs) + 64 * rw_oid a) (onode_addr zs (rw_oid a))
                         (mem_read (zs_dram zs) (onode_addr zs (rw_oid a)) 64)))))"

section \<open>Reading and writing\<close>

definition tx_prep_read :: "zstore \<Rightarrow> zstore_tx \<Rightarrow> memory \<Rightarrow> op_rw \<Rightarrow> zstore_extent list \<Rightarrow> nat \<Rightarrow> prep_res" where
  "tx_prep_read zs tx m a e mapped =
     (if e = [] \<or> rw_len a div 2 ^ 12 \<noteq> mapped then Prep_rc (status_code OSTORE_READ_HOLE) zs tx m
      else Prep_rc 0 zs (tx\<lparr> tx_type := TX_RDONLY, tx_state := DATA_IO, tx_bios := read_bios e,
             tx_bio_outstanding := length e \<rparr>) m)"

definition tx_prep_write ::
    "zstore \<Rightarrow> zstore_tx \<Rightarrow> memory \<Rightarrow> u8 list \<Rightarrow> op_rw \<Rightarrow> otable_entry \<Rightarrow> zstore_extent list \<Rightarrow> prep_res" where
  "tx_prep_write zs tx m garbage a oe e =
     (if 4 * 2 ^ 20 < (rw_ofst a + rw_len a) mod 2 ^ 64 then Prep_rc (status_code OSTORE_WRITE_OUT_MAX_SIZE) zs tx m
      else let tx1 = tx\<lparr> tx_type := TX_WRITE, tx_state := DATA_IO \<rparr>;
               blen = rw_len a div 2 ^ 12
      in case (if e = [] then Some (zs_ssd zs) else stupid_free_space (zs_ssd zs) e) of
           None \<Rightarrow> Prep_fault
         | Some ssd1 \<Rightarrow>
             (case stupid_alloc_space ssd1 blen of
                None \<Rightarrow> Prep_fault
              | Some (rc, ssd2, enew) \<Rightarrow>
                  (let zs2 = zs\<lparr> zs_ssd := ssd2 \<rparr>; bios = write_bios zs enew e in
                   if rc \<noteq> 0 then Prep_rc rc zs2 tx1 m
                   else let tx2 = tx1\<lparr> tx_bios := bios, tx_bio_outstanding := length bios \<rparr>
                     in case write_log zs2 garbage oe a (lba_to_bitmap_id e) (lba_to_bitmap_id enew) (dib_update enew) of
                       None \<Rightarrow> Prep_fault
                     | Some (pm, False) \<Rightarrow> Prep_rc (status_code INVALID_OP) zs2 tx2 m
                     | Some (pm, True) \<Rightarrow>
                         if length (dib_update enew) \<noteq> blen then Prep_abort
                         else Prep_rc 0 zs2 (tx2\<lparr> tx_pm := Some pm \<rparr>) m)))"

definition tx_prep_rw_common :: "zstore \<Rightarrow> zstore_tx \<Rightarrow> memory \<Rightarrow> u8 list \<Rightarrow> nat \<Rightarrow> u8 list \<Rightarrow> prep_res" where
  "tx_prep_rw_common zs tx m garbage op meta =
     (if op \<noteq> msg_oss_op_read \<and> op \<noteq> msg_oss_op_write then Prep_rc (status_code UNKNOWN_OP) zs tx m
      else let a = op_rw_decode meta; is_write = (op = msg_oss_op_write) in
        if rw_len a = 0 \<or> rw_len a mod ZSTORE_PAGE_SIZE \<noteq> 0 then Prep_rc (status_code INVALID_OP) zs tx m
        else if rw_ofst a mod ZSTORE_PAGE_SIZE \<noteq> 0 then Prep_rc (status_code INVALID_OP) zs tx m
        else case onode_entry zs (rw_oid a) of
          None \<Rightarrow> Prep_rc (status_code OSTORE_NO_NODE) zs tx m
        | Some oe \<Rightarrow>
            (if \<not> index_mapped zs oe (rw_ofst a) (rw_len a) then Prep_fault
             else case object_lba_range_get zs m oe (rw_ofst a) (rw_len a) is_write of
               None \<Rightarrow> Prep_fault
             | Some (e, mapped, dib) \<Rightarrow>
                 if is_write then tx_prep_write zs tx m garbage a oe e
                 else tx_prep_read zs tx m a e mapped))"

section \<open>Creating and deleting\<close>

definition tx_prep_cre_del_common :: "zstore \<Rightarrow> zstore_tx \<Rightarrow> memory \<Rightarrow> u8 list \<Rightarrow> nat \<Rightarrow> u8 list \<Rightarrow> prep_res" where
  "tx_prep_cre_del_common zs tx m garbage op meta =
     (let oid = op_oid meta mod 2 ^ 48; is_create = (op = msg_oss_op_create);
          tx1 = tx\<lparr> tx_type := TX_WRITE, tx_state := PM_TX, tx_sync := True \<rparr>;
          finish = (\<lambda>zs' m' ote bid.
            case add_ignore (pmem_transaction_alloc garbage)
                   (sb_pm_otable_ofst (zs_sb zs') + 64 * oid) (onode_addr zs' oid) (oe_encode ote) of
              None \<Rightarrow> Prep_fault
            | Some p1 \<Rightarrow>
                (case bid of
                   None \<Rightarrow> Prep_rc 0 zs' (tx1\<lparr> tx_pm := Some p1 \<rparr>) m'
                 | Some b \<Rightarrow>
                     (case add_ignore p1 (sb_pm_dy_bitmap_ofst (zs_sb zs') + 64 * b) 0
                             (bitmap_entry_bytes (sa_bs (zs_pm zs') ! b)) of
                        None \<Rightarrow> Prep_fault
                      | Some p2 \<Rightarrow> Prep_rc 0 zs' (tx1\<lparr> tx_pm := Some p2 \<rparr>) m')))
      in case onode_entry zs oid of
           None \<Rightarrow> Prep_rc (status_code OSTORE_NO_NODE) zs tx m
         | Some oe \<Rightarrow>
             if \<not> oe_valid oe \<and> is_create then
               (case stupid_alloc_space (zs_pm zs) 1 of
                  None \<Rightarrow> Prep_fault
                | Some (rc, pma, ze) \<Rightarrow>
                    (let zs1 = zs\<lparr> zs_pm := pma \<rparr> in
                     if rc \<noteq> 0 then Prep_rc (status_code OSTORE_NO_NODE) zs1 tx m
                     else let lba = ze_lba (hd ze);
                              m1 = pm_exec (pmem_write False page_ff (lba * 2 ^ 12 + sb_pm_dy_space_ofst (zs_sb zs))) m;
                              ote = \<lparr> oe_valid = True, oe_rsv = 0, oe_oid = oid, oe_rsv2 = 0,
                                      oe_data_idx_id = lba mod 2 ^ 32, oe_pad = replicate 48 0 \<rparr>
                          in finish zs1 m1 ote (Some (lba div 512))))
             else if oe_valid oe \<and> \<not> is_create then
               (case stupid_free_space (zs_pm zs) [\<lparr> ze_lba = oe_data_idx_id oe, ze_len = 1 \<rparr>] of
                  None \<Rightarrow> Prep_fault
                | Some pma \<Rightarrow> finish (zs\<lparr> zs_pm := pma \<rparr>) m (oe_decode (replicate 64 0)) None)
             else Prep_rc (status_code OSTORE_NO_NODE) zs tx m)"

definition tx_init :: "nat \<Rightarrow> zstore_tx" where
  "tx_init tid = \<lparr> tx_tid = tid, tx_type = TX_NONE, tx_sync = False, tx_state = PREPARE, tx_err = 0,
     tx_bio_outstanding = 0, tx_bios = [], tx_pm = None \<rparr>"

definition zstore_tx_prepare :: "zstore \<Rightarrow> memory \<Rightarrow> u8 list \<Rightarrow> nat \<Rightarrow> u8 list \<Rightarrow> prep_res" where
  "zstore_tx_prepare zs m garbage op meta =
     (let tx = tx_init (zs_tid_max zs); zs1 = zs\<lparr> zs_tid_max := zs_tid_max zs + 1 \<rparr> in
      if op = msg_oss_op_create \<or> op = msg_oss_op_delete then tx_prep_cre_del_common zs1 tx m garbage op meta
      else if op = msg_oss_op_read \<or> op = msg_oss_op_write then tx_prep_rw_common zs1 tx m garbage op meta
      else Prep_rc (status_code UNKNOWN_OP) zs1 tx m)"

end
