(* ===== verification/Zstore_Layout_Correct.thy ===== *)
theory Zstore_Layout_Correct
  imports Zstore_Layout
begin

text \<open>
  Making a store and mounting it: the codecs of the superblock and of the object table, what
  mkfs writes where, what mounting rebuilds from it.
\<close>

section \<open>Codecs\<close>

lemma le_field:
  "length xs = ofst \<Longrightarrow> v < 256 ^ n \<Longrightarrow> field (xs @ le_bytes n v @ ys) ofst n = v"
  by (simp add: field_def le_val_le_bytes)

definition sb_ok :: "zstore_superblock \<Rightarrow> bool" where
  "sb_ok sb \<longleftrightarrow>
     list_all (\<lambda>v. v < 2 ^ 64) [sb_magic sb, sb_features sb, sb_ssd_min_alloc_size_shift sb,
       sb_pm_min_alloc_size_shift sb, sb_pm_ulog_ofst sb, sb_pm_ssd_bitmap_ofst sb,
       sb_pm_dy_bitmap_ofst sb, sb_onodes_rsv sb, sb_pm_otable_ofst sb, sb_pm_dy_space_ofst sb] \<and>
     list_all (\<lambda>v. v < 2 ^ 32) [sb_ssd_nr_pages sb, sb_ssd_min_alloc_size sb, sb_pm_nr_pages sb,
       sb_pm_min_alloc_size sb] \<and> length (sb_rest sb) = 4000"

lemma length_sb_encode: "sb_ok sb \<Longrightarrow> length (sb_encode sb) = 4096"
  by (simp add: sb_encode_def sb_ok_def)

lemma sb_decode_encode: "sb_ok sb \<Longrightarrow> sb_decode (sb_encode sb) = sb"
  by (simp add: sb_decode_def sb_encode_def sb_ok_def field_def le_val_le_bytes)

lemma oe_word_parts:
  fixes r i :: nat and v :: bool
  assumes "r < 2 ^ 15" and "i < 2 ^ 48"
  defines "w \<equiv> of_bool v + 2 * r + 2 ^ 16 * i"
  shows "odd w = v" and "w div 2 mod 2 ^ 15 = r" and "w div 2 ^ 16 mod 2 ^ 48 = i" and "w < 2 ^ 64"
proof -
  have w: "w = of_bool v + 2 * (r + 2 ^ 15 * i)" by (simp add: w_def)
  have s: "w div 2 = r + 2 ^ 15 * i" unfolding w by (rule low_part(1)) simp
  have s16: "w div 2 ^ 16 = i"
    using low_part(1) [OF assms(1), of i] s div_mult2_eq [of w 2 "2 ^ 15"] by simp
  show "odd w = v" unfolding w by simp
  show "w div 2 mod 2 ^ 15 = r" by (simp only: s low_part(2) [OF assms(1)])
  show "w div 2 ^ 16 mod 2 ^ 48 = i" using assms(2) by (simp only: s16 mod_less)
  show "w < 2 ^ 64" unfolding w_def using assms(1,2) by (cases v) simp_all
qed

definition oe_ok :: "otable_entry \<Rightarrow> bool" where
  "oe_ok oe \<longleftrightarrow> oe_rsv oe < 2 ^ 15 \<and> oe_oid oe < 2 ^ 48 \<and> oe_rsv2 oe < 2 ^ 32 \<and>
     oe_data_idx_id oe < 2 ^ 32 \<and> length (oe_pad oe) = 48"

lemma length_oe_encode: "oe_ok oe \<Longrightarrow> length (oe_encode oe) = 64"
  by (simp add: oe_encode_def oe_ok_def)

lemma oe_decode_encode:
  assumes "oe_ok oe"
  shows "oe_decode (oe_encode oe) = oe"
proof -
  have b: "oe_rsv oe < 2 ^ 15" "oe_oid oe < 2 ^ 48" "oe_rsv2 oe < 256 ^ 4" "oe_data_idx_id oe < 256 ^ 4"
    using assms by (simp_all add: oe_ok_def)
  define w where "w = of_bool (oe_valid oe) + 2 * oe_rsv oe + 2 ^ 16 * oe_oid oe"
  note parts = oe_word_parts [OF b(1,2), of "oe_valid oe", folded w_def]
  have w64: "w < 256 ^ 8" using parts(4) by simp
  have e: "oe_encode oe = le_bytes 8 w @ le_bytes 4 (oe_rsv2 oe) @ le_bytes 4 (oe_data_idx_id oe) @ oe_pad oe"
    using b(1,2) by (simp only: oe_encode_def w_def mod_less)
  have f: "field (oe_encode oe) 0 8 = w" "field (oe_encode oe) 8 4 = oe_rsv2 oe"
    "field (oe_encode oe) 12 4 = oe_data_idx_id oe" "drop 16 (oe_encode oe) = oe_pad oe"
    unfolding e using w64 b(3,4) by (simp_all only: field_def) (simp_all add: le_val_le_bytes)
  show ?thesis by (simp only: oe_decode_def f Let_def parts) simp
qed

section \<open>Writes of equal blocks in a row\<close>

lemma run_stride:
  assumes "\<And>i. length (g i) = sz" and "0 < sz" and "a \<le> b"
  shows "pm_run (map (\<lambda>i. PM_persist (base + i * sz) (g i)) [a..<b]) m x =
    (if base + a * sz \<le> x \<and> x < base + b * sz then g ((x - base) div sz) ! ((x - base) mod sz) else m x)"
  using assms(3)
proof (induction b rule: dec_induct)
  case base
  then show ?case by (simp, linarith)
next
  case (step b)
  show ?case
  proof (cases "base + b * sz \<le> x \<and> x < base + b * sz + sz")
    case True
    have q: "(x - base) div sz = b"
      by (rule div_nat_eqI) (use True in \<open>auto simp: mult.commute\<close>)
    have "(x - base) mod sz = x - base - b * sz"
      using q minus_div_mult_eq_mod [of "x - base" sz] by simp
    then have r: "(x - base) mod sz = x - (base + b * sz)" by simp
    have "a * sz \<le> b * sz" using step(1) by simp
    then have c: "base + a * sz \<le> x \<and> x < base + Suc b * sz"
      using True by (simp only: mult_Suc) linarith
    have "pm_run (map (\<lambda>i. PM_persist (base + i * sz) (g i)) [a..<Suc b]) m x = g b ! (x - (base + b * sz))"
      using True step(1) by (simp add: mem_write_in assms(1))
    then show ?thesis using c by (simp only: q r if_True simp_thms)
  next
    case False
    have l: "a * sz \<le> b * sz" using step(1) by simp
    have o: "mem_write m' (base + b * sz) (g b) x = m' x" for m'
      by (rule mem_write_out) (use False in \<open>auto simp: assms(1)\<close>)
    show ?thesis using False l step(1) step.IH by (auto simp: o)
  qed
qed

lemma run_zero_pages:
  assumes "a \<le> b"
  shows "pm_run (map (\<lambda>i. PM_persist (base + i * 4096) page_zero) [a..<b]) m x =
    (if base + a * 4096 \<le> x \<and> x < base + b * 4096 then 0 else m x)"
  by (subst run_stride [OF _ _ assms]) (simp_all add: page_zero_def)

lemma run_ff_pages:
  assumes "a \<le> b"
  shows "pm_run (map (\<lambda>i. PM_persist (base + i * 4096) page_ff) [a..<b]) m x =
    (if base + a * 4096 \<le> x \<and> x < base + b * 4096 then 0xff else m x)"
  by (subst run_stride [OF _ _ assms]) (simp_all add: page_ff_def)

section \<open>Loading an allocator\<close>

definition bitmap_entries :: "memory \<Rightarrow> nat \<Rightarrow> nat \<Rightarrow> stupid_bitmap_entry list" where
  "bitmap_entries m ofst n = map (\<lambda>i. bitmap_entry_of (mem_read m (ofst + 64 * i) 64)) [0..<n]"

lemma length_bitmap_entries [simp]: "length (bitmap_entries m ofst n) = n"
  by (simp add: bitmap_entries_def)

lemma length_bitmap_entry_of [simp]: "length (bitmap_entry_of bs) = 8"
  by (simp add: bitmap_entry_of_def)

lemma wf_bitmap_entries: "wf_bs (bitmap_entries m ofst n)"
  by (auto simp: wf_bs_def bitmap_entries_def)

definition load_inv :: "memory \<Rightarrow> nat \<Rightarrow> nat \<Rightarrow> nat \<Rightarrow> stupid_allocator \<Rightarrow> bool" where
  "load_inv m ofst n k a \<longleftrightarrow> length (sa_bs a) = n \<and> sa_nr_total a = 512 * n \<and>
     (\<forall>i<k. sa_bs a ! i = bitmap_entries m ofst n ! i) \<and>
     sa_nr_free a = card (free_set (bitmap_entries m ofst n) (512 * k))"

lemma word_at_entry: "bs ! (i div 512) = bs' ! (i div 512) \<Longrightarrow> word_at bs i = word_at bs' i"
  by (simp add: word_at_def)

lemma load_step:
  assumes "load_inv m ofst n k a" and "k < n"
  shows "\<exists>a'. stupid_allocator_init_bitmap_entry a k (bitmap_entry_of (pmem_read m (ofst + 64 * k) 64)) = Some a' \<and>
    load_inv m ofst n (Suc k) a' \<and> sa_nr_entrys a' = sa_nr_entrys a \<and> sa_hint a' = sa_hint a"
proof -
  let ?E = "bitmap_entries m ofst n" and ?src = "bitmap_entry_of (mem_read m (ofst + 64 * k) 64)"
  let ?bs = "(sa_bs a)[k := ?src]"
  have l: "length (sa_bs a) = n" and t: "sa_nr_total a = 512 * n"
    and old: "\<And>i. i < k \<Longrightarrow> sa_bs a ! i = ?E ! i"
    and fr: "sa_nr_free a = card (free_set ?E (512 * k))"
    using assms(1) by (auto simp: load_inv_def)
  have src: "?E ! k = ?src" using assms(2) by (simp add: bitmap_entries_def)
  have new: "?bs ! i = ?E ! i" if "i < Suc k" for i
    using that old l assms(2) src by (auto simp: nth_list_update less_Suc_eq)
  have bit: "bs_bit ?bs j = bs_bit ?E j" if "j < 512 * Suc k" for j
  proof -
    have "j div 512 < Suc k" using that by (simp add: div_less_iff_less_mult mult.commute)
    from word_at_entry [OF new [OF this]] show ?thesis by (simp add: bs_bit_def)
  qed
  have "count_free_loop ?bs (512 * Suc k) (512 * k) 0
      = 0 + card {j. 512 * k \<le> j \<and> j < 512 * Suc k \<and> \<not> bs_bit ?bs j}"
    by (rule count_free_loop_acc) (simp add: mod_mult_left_eq [symmetric] mod_mult_right_eq [symmetric])
  also have "{j. 512 * k \<le> j \<and> j < 512 * Suc k \<and> \<not> bs_bit ?bs j}
      = {j. 512 * k \<le> j \<and> j < 512 * Suc k \<and> \<not> bs_bit ?E j}"
    using bit by auto
  finally have c: "count_free_loop ?bs (512 * Suc k) (512 * k) 0
      = card {j. 512 * k \<le> j \<and> j < 512 * Suc k \<and> \<not> bs_bit ?E j}" by simp
  have u: "free_set ?E (512 * Suc k) = free_set ?E (512 * k) \<union> {j. 512 * k \<le> j \<and> j < 512 * Suc k \<and> \<not> bs_bit ?E j}"
    by (auto simp: free_set_def)
  have "card (free_set ?E (512 * Suc k))
      = card (free_set ?E (512 * k)) + card {j. 512 * k \<le> j \<and> j < 512 * Suc k \<and> \<not> bs_bit ?E j}"
    unfolding u by (rule card_Un_disjoint) (auto simp: free_set_def)
  with c fr have f: "sa_nr_free a + count_free_loop ?bs (512 * Suc k) (512 * k) 0 = card (free_set ?E (512 * Suc k))"
    by simp
  have e: "\<not> sa_nr_total a < (k + 1) * 512" using assms(2) t by simp
  have s: "stupid_allocator_init_bitmap_entry a k ?src
      = Some (a\<lparr> sa_bs := ?bs, sa_nr_free := card (free_set ?E (512 * Suc k)) \<rparr>)"
    using assms(2) l e f
    by (simp add: stupid_allocator_init_bitmap_entry_def Let_def mult.commute [of _ 512] del: mult_Suc_right mult_Suc)
  show ?thesis
    by (rule exI [of _ "a\<lparr> sa_bs := ?bs, sa_nr_free := card (free_set ?E (512 * Suc k)) \<rparr>"])
      (use s new l t in \<open>simp add: load_inv_def pmem_read_def del: mult_Suc_right mult_Suc\<close>)
qed

lemma load_bitmap_ok:
  assumes "load_inv m ofst n k a" and "k \<le> n"
  shows "\<exists>a'. load_bitmap m ofst [k..<n] a = Some a' \<and> load_inv m ofst n n a' \<and>
    sa_nr_entrys a' = sa_nr_entrys a \<and> sa_hint a' = sa_hint a"
  using assms
proof (induction "n - k" arbitrary: k a)
  case 0
  then show ?case by simp
next
  case (Suc d)
  then have "k < n" by simp
  from load_step [OF Suc.prems(1) this] obtain a' where
    s: "stupid_allocator_init_bitmap_entry a k (bitmap_entry_of (pmem_read m (ofst + 64 * k) 64)) = Some a'"
    and i: "load_inv m ofst n (Suc k) a'" "sa_nr_entrys a' = sa_nr_entrys a" "sa_hint a' = sa_hint a" by blast
  have "[k..<n] = k # [Suc k..<n]" using \<open>k < n\<close> by (rule upt_conv_Cons)
  moreover have "d = n - Suc k" "Suc k \<le> n" using Suc.hyps(2) by simp_all
  ultimately show ?case using Suc.hyps(1) [OF _ i(1)] s i(2,3) by auto
qed

lemma mount_allocator_ok:
  "\<exists>a. mount_allocator m (512 * n) ofst = Some a \<and> alloc_inv a \<and> sa_bs a = bitmap_entries m ofst n \<and>
     sa_nr_total a = 512 * n \<and> sa_hint a = 0"
proof -
  let ?a = "stupid_allocator_constructor (512 * n)"
  have e: "sa_nr_entrys ?a = n" "sa_hint ?a = 0" by (simp_all add: stupid_allocator_constructor_def)
  have "load_inv m ofst n 0 ?a"
    by (simp add: load_inv_def stupid_allocator_constructor_def free_set_def)
  from load_bitmap_ok [OF this] obtain a where
    l: "load_bitmap m ofst [0..<n] ?a = Some a" and i: "load_inv m ofst n n a" and h: "sa_hint a = 0"
    using e by auto
  have bs: "sa_bs a = bitmap_entries m ofst n"
    by (rule nth_equalityI) (use i in \<open>auto simp: load_inv_def\<close>)
  show ?thesis using l i h bs e(1) wf_bitmap_entries [of m ofst n]
    by (auto simp: mount_allocator_def Let_def alloc_inv_def load_inv_def)
qed

lemma bitmap_bit:
  assumes "j < 512 * n"
  shows "bs_bit (bitmap_entries m ofst n) j
    \<longleftrightarrow> bit (word_of_nat (le_val (mem_read m (ofst + 8 * (j div 64)) 8)) :: u64) (j mod 64)"
proof -
  have q: "j div 512 < n" using assms by (simp add: div_less_iff_less_mult mult.commute)
  have w: "j mod 512 div 64 < 8" by (rule word_index_lt)
  have a: "64 * (j div 512) + 8 * (j mod 512 div 64) = 8 * (j div 64)"
  proof -
    have "j div 64 = 8 * (j div 64 div 8) + j div 64 mod 8" by simp
    then show ?thesis by (simp only: block_word_index)
  qed
  have "word_at (bitmap_entries m ofst n) j
      = word_of_nat (field (mem_read m (ofst + 64 * (j div 512)) 64) (8 * (j mod 512 div 64)) 8)"
    using q w by (simp add: word_at_def bitmap_entries_def bitmap_entry_of_def)
  also have "field (mem_read m (ofst + 64 * (j div 512)) 64) (8 * (j mod 512 div 64)) 8
      = le_val (mem_read m (ofst + 64 * (j div 512) + 8 * (j mod 512 div 64)) 8)"
    using w by (simp add: field_def drop_mem_read take_mem_read)
  also have "ofst + 64 * (j div 512) + 8 * (j mod 512 div 64) = ofst + 8 * (j div 64)"
    using a by simp
  finally show ?thesis by (simp add: bs_bit_def)
qed

section \<open>What mkfs leaves in PM\<close>

lemma mkfs_sb_simps [simp]:
  "sb_magic (mkfs_superblock nblks pms f r) = ZSTORE_MAGIC"
  "sb_ssd_nr_pages (mkfs_superblock nblks pms f r) = min (2 ^ 28) nblks"
  "sb_pm_nr_pages (mkfs_superblock nblks pms f r) = pms div 4096"
  "sb_pm_ssd_bitmap_ofst (mkfs_superblock nblks pms f r) = 1048576"
  "sb_pm_dy_bitmap_ofst (mkfs_superblock nblks pms f r) = 34603008"
  "sb_onodes_rsv (mkfs_superblock nblks pms f r) = 1048576"
  "sb_pm_otable_ofst (mkfs_superblock nblks pms f r) = 35651584"
  "sb_pm_dy_space_ofst (mkfs_superblock nblks pms f r) = 102760448"
  by (simp_all add: mkfs_superblock_def Let_def)

lemma mkfs_sb_ok: "f < 2 ^ 64 \<Longrightarrow> length r = 4000 \<Longrightarrow> pms < 2 ^ 44 \<Longrightarrow> sb_ok (mkfs_superblock nblks pms f r)"
  by (simp add: sb_ok_def mkfs_superblock_def ZSTORE_MAGIC_def Let_def div_less_iff_less_mult)

definition fresh_mem :: "zstore_superblock \<Rightarrow> memory \<Rightarrow> memory" where
  "fresh_mem sb m = (\<lambda>x. if x < 4096 then sb_encode sb ! x else if x < 102760448 then 0 else m x)"

definition mkfs_sb :: "nat \<Rightarrow> nat \<Rightarrow> u8 list \<Rightarrow> zstore_superblock" where
  "mkfs_sb nblks f r = mkfs_superblock nblks (4 * 2 ^ 30) f r"

lemma mkfs_sb_fields [simp]:
  "sb_magic (mkfs_sb nblks f r) = ZSTORE_MAGIC"
  "sb_ssd_nr_pages (mkfs_sb nblks f r) = min (2 ^ 28) nblks"
  "sb_pm_nr_pages (mkfs_sb nblks f r) = 2 ^ 20"
  "sb_pm_ssd_bitmap_ofst (mkfs_sb nblks f r) = 1048576"
  "sb_pm_dy_bitmap_ofst (mkfs_sb nblks f r) = 34603008"
  "sb_onodes_rsv (mkfs_sb nblks f r) = 1048576"
  "sb_pm_otable_ofst (mkfs_sb nblks f r) = 35651584"
  "sb_pm_dy_space_ofst (mkfs_sb nblks f r) = 102760448"
  by (simp_all add: mkfs_sb_def)

lemma mkfs_base:
  assumes "length (sb_encode (mkfs_superblock nblks pms f r)) = 4096"
  defines "sb \<equiv> mkfs_superblock nblks pms f r"
  shows "pm_run (mkfs_clean sb) m = fresh_mem sb m"
proof (rule ext)
  fix x
  define m1 where "m1 = mem_write m 0 (sb_encode sb)"
  define m2 where "m2 = pm_run (map (\<lambda>i. PM_persist (4096 + i * 4096) page_zero) [0..<255]) m1"
  have d: "sb_pm_ssd_bitmap_ofst sb div 4096 = 256" "sb_pm_dy_space_ofst sb div 4096 = 25088"
    by (simp_all add: sb_def)
  have r: "pm_run (map (\<lambda>i. PM_persist (i * 4096) page_zero) [256..<25088]) m2 x
      = (if 0 + 256 * 4096 \<le> x \<and> x < 0 + 25088 * 4096 then 0 else m2 x)"
    using run_zero_pages [of 256 25088 0 m2 x] by (simp del: upt_rec_numeral)
  have m2: "m2 x = (if 4096 \<le> x \<and> x < 4096 + 255 * 4096 then 0 else m1 x)"
    using run_zero_pages [of 0 255 4096 m1 x] by (simp add: m2_def del: upt_rec_numeral)
  have "m1 x = (if x < 4096 then sb_encode sb ! x else m x)"
    using assms(1) by (simp add: m1_def mem_write_def sb_def)
  with r m2 have "pm_run (map (\<lambda>i. PM_persist (i * 4096) page_zero) [256..<25088]) m2 x = fresh_mem sb m x"
    by (simp add: fresh_mem_def del: upt_rec_numeral)
  moreover have "(\<lambda>i. PM_persist ((i + 1) * 4096) page_zero) = (\<lambda>i. PM_persist (4096 + i * 4096) page_zero)"
    by (simp add: add.commute)
  ultimately show "pm_run (mkfs_clean sb) m x = fresh_mem sb m x"
    by (simp only: mkfs_clean_def d pmem_write_def if_True pm_run_simps pm_exec.simps m1_def [symmetric] m2_def)
qed

lemma zstore_mkfs_mem:
  assumes "f < 2 ^ 64" and "length r = 4000"
  shows "\<exists>ops. zstore_mkfs cpu 4096 nblks flags f r e0 = Some ops \<and>
    pm_run ops m = pm_run (if flags AND ZSTORE_MKFS_RESERVE_OBJID \<noteq> 0 then mkfs_reserve (mkfs_sb nblks f r) e0 else [])
      (fresh_mem (mkfs_sb nblks f r) m)"
proof -
  have l: "length (sb_encode (mkfs_superblock nblks (4 * 2 ^ 30) f r)) = 4096"
    by (rule length_sb_encode, rule mkfs_sb_ok) (use assms in simp_all)
  show ?thesis
    using mkfs_base [OF l, of m] by (simp add: zstore_mkfs_def pmem_open_def Let_def mkfs_sb_def)
qed

lemma fresh_mem_sb:
  assumes "f < 2 ^ 64" and "length r = 4000"
  shows "sb_decode (mem_read (fresh_mem (mkfs_sb nblks f r) m) 0 4096) = mkfs_sb nblks f r"
proof -
  have ok: "sb_ok (mkfs_sb nblks f r)" using assms by (simp add: mkfs_sb_def mkfs_sb_ok)
  have "mem_read (fresh_mem (mkfs_sb nblks f r) m) 0 4096 = sb_encode (mkfs_sb nblks f r)"
    by (rule nth_equalityI) (simp_all add: length_sb_encode [OF ok] nth_mem_read fresh_mem_def)
  then show ?thesis by (simp add: sb_decode_encode [OF ok])
qed

lemma mem_read_zeros: "(\<And>i. i < n \<Longrightarrow> m (a + i) = 0) \<Longrightarrow> mem_read m a n = replicate n 0"
  by (rule nth_equalityI) (simp_all add: nth_mem_read)

lemma le_val_zeros [simp]: "le_val (replicate n 0) = 0"
  by (induction n) simp_all

lemma free_set_all:
  assumes "\<And>j. j < n \<Longrightarrow> \<not> bs_bit bs j"
  shows "card (free_set bs n) = n"
proof -
  have "free_set bs n = {..<n}" using assms by (auto simp: free_set_def)
  then show ?thesis by simp
qed

section \<open>The reserved objects\<close>

definition reserved_entry :: "otable_entry \<Rightarrow> nat \<Rightarrow> otable_entry" where
  "reserved_entry e0 i = e0\<lparr> oe_oid := i, oe_data_idx_id := i, oe_valid := True \<rparr>"

lemma reserved_entry_ok: "oe_ok e0 \<Longrightarrow> i < 2 ^ 32 \<Longrightarrow> oe_ok (reserved_entry e0 i)"
  by (simp add: oe_ok_def reserved_entry_def)

lemma mkfs_reserve_eq:
  "mkfs_reserve (mkfs_sb nblks f r) e0 =
     map (\<lambda>i. PM_persist (1048576 + i * 4096) page_ff) [0..<8 div 8] @
     map (\<lambda>i. PM_persist (34603008 + i * 4096) page_ff) [0..<8 div 8] @
     map (\<lambda>i. PM_persist (35651584 + i * 64) (oe_encode (reserved_entry e0 i))) [0..<262144] @
     map (\<lambda>i. PM_persist (102760448 + i * 4096) page_ff) [0..<262144]"
  by (simp add: mkfs_reserve_def mkfs_sb_def ZSTORE_MKFS_RESERVE_OBJ_NR_def Let_def pmem_write_def
      reserved_entry_def del: upt_rec_numeral)

lemma run_entries:
  assumes "oe_ok e0" and "n \<le> 2 ^ 32"
  shows "pm_run (map (\<lambda>i. PM_persist (base + i * 64) (oe_encode (reserved_entry e0 i))) [0..<n]) m x =
    (if base \<le> x \<and> x < base + n * 64
     then oe_encode (reserved_entry e0 ((x - base) div 64)) ! ((x - base) mod 64) else m x)"
proof -
  let ?g = "\<lambda>i. if i < n then oe_encode (reserved_entry e0 i) else replicate 64 0"
  have l: "length (?g i) = 64" for i
    using assms by (simp add: length_oe_encode reserved_entry_ok)
  have e: "map (\<lambda>i. PM_persist (base + i * 64) (oe_encode (reserved_entry e0 i))) [0..<n]
      = map (\<lambda>i. PM_persist (base + i * 64) (?g i)) [0..<n]" by (rule map_cong) simp_all
  have "pm_run (map (\<lambda>i. PM_persist (base + i * 64) (?g i)) [0..<n]) m x =
    (if base + 0 * 64 \<le> x \<and> x < base + n * 64 then ?g ((x - base) div 64) ! ((x - base) mod 64) else m x)"
    by (rule run_stride [OF l]) simp_all
  moreover have "x < base + n * 64 \<Longrightarrow> base \<le> x \<Longrightarrow> (x - base) div 64 < n"
    by (simp add: div_less_iff_less_mult)
  ultimately show ?thesis unfolding e by simp
qed

lemma reserve_mem:
  fixes nblks f r m
  assumes "oe_ok e0"
  defines "m' \<equiv> pm_run (mkfs_reserve (mkfs_sb nblks f r) e0) (fresh_mem (mkfs_sb nblks f r) m)"
  shows "34603008 \<le> x \<Longrightarrow> x < 35651584 \<Longrightarrow> m' x = (if x < 34603008 + 4096 then 0xff else 0)"
    and "oid < 262144 \<Longrightarrow> mem_read m' (35651584 + oid * 64) 64 = oe_encode (reserved_entry e0 oid)"
    and "x < 1048576 \<Longrightarrow> m' x = fresh_mem (mkfs_sb nblks f r) m x"
    and "1048576 \<le> x \<Longrightarrow> x < 34603008 \<Longrightarrow> m' x = (if x < 1048576 + 4096 then 0xff else 0)"
    and "35651584 + 262144 * 64 \<le> x \<Longrightarrow> x < 102760448 \<Longrightarrow> m' x = 0"
proof -
  define m1 where "m1 = pm_run (map (\<lambda>i. PM_persist (1048576 + i * 4096) page_ff) [0..<8 div 8])
    (fresh_mem (mkfs_sb nblks f r) m)"
  define m2 where "m2 = pm_run (map (\<lambda>i. PM_persist (34603008 + i * 4096) page_ff) [0..<8 div 8]) m1"
  define m3 where "m3 = pm_run (map (\<lambda>i. PM_persist (35651584 + i * 64) (oe_encode (reserved_entry e0 i))) [0..<262144]) m2"
  have m': "m' = pm_run (map (\<lambda>i. PM_persist (102760448 + i * 4096) page_ff) [0..<262144]) m3"
    by (simp only: m'_def mkfs_reserve_eq pm_run_simps m3_def m2_def m1_def)
  have f4: "m' x = m3 x" if "x < 102760448" for x
    using run_ff_pages [of 0 262144 102760448 m3 x] that by (simp add: m' del: upt_rec_numeral)
  have f3: "m3 x = (if 35651584 \<le> x \<and> x < 35651584 + 262144 * 64
     then oe_encode (reserved_entry e0 ((x - 35651584) div 64)) ! ((x - 35651584) mod 64) else m2 x)" for x
    using run_entries [OF assms(1), of 262144 35651584 m2 x] by (simp add: m3_def del: upt_rec_numeral)
  have f2: "m2 x = (if 34603008 \<le> x \<and> x < 34603008 + 4096 then 0xff else m1 x)" for x
    using run_ff_pages [of 0 "8 div 8" 34603008 m1 x] by (simp add: m2_def)
  have f0: "m1 x = (if 1048576 \<le> x \<and> x < 1052672 then 0xff else fresh_mem (mkfs_sb nblks f r) m x)" for x
    using run_ff_pages [of 0 "8 div 8" 1048576 "fresh_mem (mkfs_sb nblks f r) m" x]
    by (simp add: m1_def)
  have f1: "m1 x = 0" if "1052672 \<le> x" "x < 102760448" for x
    using that by (simp add: f0 fresh_mem_def)
  show "m' x = fresh_mem (mkfs_sb nblks f r) m x" if "x < 1048576"
    using that by (simp add: f4 f3 f2 f0)
  show "m' x = (if x < 1048576 + 4096 then 0xff else 0)" if "1048576 \<le> x" "x < 34603008"
    using that by (simp add: f4 f3 f2 f0 fresh_mem_def)
  show "m' x = 0" if "35651584 + 262144 * 64 \<le> x" "x < 102760448"
    using that f1 [of x] by (simp add: f4 f3 f2)
  show "m' x = (if x < 34603008 + 4096 then 0xff else 0)" if "34603008 \<le> x" "x < 35651584"
    using that f1 [of x] by (simp add: f4 f3 f2)
  show "mem_read m' (35651584 + oid * 64) 64 = oe_encode (reserved_entry e0 oid)" if o: "oid < 262144"
  proof (rule nth_equalityI)
    show "length (mem_read m' (35651584 + oid * 64) 64) = length (oe_encode (reserved_entry e0 oid))"
      using o by (simp add: length_oe_encode [OF reserved_entry_ok [OF assms(1)]])
    fix i assume "i < length (mem_read m' (35651584 + oid * 64) 64)"
    then have i: "i < 64" by simp
    have "m' (35651584 + oid * 64 + i) = m3 (35651584 + oid * 64 + i)"
      by (rule f4) (use i o in simp)
    also have "\<dots> = oe_encode (reserved_entry e0 oid) ! i"
      using i o by (simp add: f3)
    finally show "mem_read m' (35651584 + oid * 64) 64 ! i = oe_encode (reserved_entry e0 oid) ! i"
      using i by (simp add: nth_mem_read)
  qed
qed

lemma le_val_ff: "le_val (replicate n 0xff) + 1 = 256 ^ n"
  by (induction n) simp_all

lemma ff_bits: "k < 64 \<Longrightarrow> bit (word_of_nat (le_val (replicate 8 (0xff :: u8))) :: u64) k"
proof -
  assume k: "k < 64"
  have v: "le_val (replicate 8 (0xff :: u8)) = mask 64"
    using le_val_ff [of 8] by (simp add: mask_eq_exp_minus_1)
  show ?thesis unfolding v of_nat_mask_eq using k by (simp add: bit_mask_iff)
qed

section \<open>Mounting a marked bitmap\<close>

text \<open>A bitmap region whose first \<open>k\<close> words are full and whose other words are empty.\<close>

definition words_set :: "memory \<Rightarrow> nat \<Rightarrow> nat \<Rightarrow> nat \<Rightarrow> bool" where
  "words_set m ofst n k \<longleftrightarrow>
     (\<forall>x. ofst \<le> x \<and> x < ofst + 64 * n \<longrightarrow> m x = (if x < ofst + 8 * k then 0xff else 0))"

lemma words_set_bit:
  assumes "words_set m ofst n k" and "j < 512 * n"
  shows "bs_bit (bitmap_entries m ofst n) j \<longleftrightarrow> j < 64 * k"
proof -
  have j: "j div 64 < 8 * n" using assms(2) by (simp add: div_less_iff_less_mult)
  have lt: "j < 64 * k \<longleftrightarrow> j div 64 < k" by (simp add: div_less_iff_less_mult mult.commute)
  have "mem_read m (ofst + 8 * (j div 64)) 8 = replicate 8 (if j < 64 * k then 0xff else 0)"
  proof (rule nth_equalityI)
    fix i assume "i < length (mem_read m (ofst + 8 * (j div 64)) 8)"
    then have i: "i < 8" by simp
    have "ofst + 8 * (j div 64) + i < ofst + 64 * n" using i j by linarith
    moreover have "ofst + 8 * (j div 64) + i < ofst + 8 * k \<longleftrightarrow> j < 64 * k" using i lt by linarith
    ultimately show "mem_read m (ofst + 8 * (j div 64)) 8 ! i = replicate 8 (if j < 64 * k then 0xff else 0) ! i"
      using assms(1) i by (simp add: words_set_def nth_mem_read)
  qed simp
  then show ?thesis using ff_bits [of "j mod 64"] by (cases "j < 64 * k") (simp_all add: bitmap_bit [OF assms(2)])
qed

lemma mount_marked_allocator:
  assumes "words_set m ofst n k"
  shows "\<exists>a. mount_allocator m (512 * n) ofst = Some a \<and> alloc_inv a \<and> sa_nr_total a = 512 * n \<and>
    sa_nr_free a = 512 * n - 64 * k \<and> (\<forall>j < 512 * n. bs_bit (sa_bs a) j \<longleftrightarrow> j < 64 * k)"
proof -
  obtain a where a: "mount_allocator m (512 * n) ofst = Some a" "alloc_inv a" "sa_bs a = bitmap_entries m ofst n"
    "sa_nr_total a = 512 * n" using mount_allocator_ok [of m n ofst] by blast
  have b: "\<forall>j < 512 * n. bs_bit (sa_bs a) j \<longleftrightarrow> j < 64 * k"
    using words_set_bit [OF assms] by (simp add: a(3))
  then have "free_set (sa_bs a) (512 * n) = {64 * k..<512 * n}" by (auto simp: free_set_def)
  then have "sa_nr_free a = 512 * n - 64 * k" using a(2,4) by (simp add: alloc_inv_def)
  with a b show ?thesis by blast
qed

text \<open>A number of blocks that is not a multiple of 512: the last entry does not fit the array.\<close>

lemma load_bitmap_bound:
  "load_bitmap m ofst is a = Some a' \<Longrightarrow> i \<in> set is \<Longrightarrow> i < length (sa_bs a)"
proof (induction "is" arbitrary: a)
  case (Cons j js)
  then obtain a1 where s: "stupid_allocator_init_bitmap_entry a j (bitmap_entry_of (pmem_read m (ofst + 64 * j) 64)) = Some a1"
    and l: "load_bitmap m ofst js a1 = Some a'" by (auto split: option.splits)
  have "j < length (sa_bs a) \<and> length (sa_bs a1) = length (sa_bs a)"
    using s by (auto simp: stupid_allocator_init_bitmap_entry_def Let_def split: if_splits)
  then show ?case using Cons.IH [OF l] Cons.prems(2) by auto
qed simp

lemma mount_ragged_allocator: "n mod 512 \<noteq> 0 \<Longrightarrow> mount_allocator m n ofst = None"
proof (rule ccontr)
  assume n: "n mod 512 \<noteq> 0" and "mount_allocator m n ofst \<noteq> None"
  then obtain a where "load_bitmap m ofst [0..<(n + 511) div 512] (stupid_allocator_constructor n) = Some a"
    by (auto simp: mount_allocator_def Let_def stupid_allocator_constructor_def)
  moreover have "n div 512 < (n + 511) div 512"
  proof -
    define q r where "q = n div 512" and "r = n mod 512"
    then have "n = q * 512 + r" "1 \<le> r" using n by simp_all
    then have "Suc (n div 512) * 512 \<le> n + 511" unfolding q_def [symmetric] by simp
    then have "Suc (n div 512) \<le> (n + 511) div 512" by (simp only: less_eq_div_iff_mult_less_eq zero_less_numeral)
    then show ?thesis by simp
  qed
  ultimately have "n div 512 < length (sa_bs (stupid_allocator_constructor n))"
    by (intro load_bitmap_bound) auto
  then show False by (simp add: stupid_allocator_constructor_def)
qed

section \<open>Loading the object table\<close>

lemma load_otable_run:
  "load_otable m base ofst n = pm_run (map (\<lambda>i. PM_persist (base + i * 64) (mem_read m (ofst + i * 64) 64)) [0..<n]) (\<lambda>_. 0)"
proof -
  have "pm_exec (PM_persist a bs) = (\<lambda>d. mem_write d a bs)" for a bs by (rule ext) simp
  then show ?thesis by (simp add: load_otable_def pm_run_def fold_map comp_def pmem_read_def)
qed

lemma load_otable_read:
  assumes "oid < n"
  shows "mem_read (load_otable m base ofst n) (base + oid * 64) 64 = mem_read m (ofst + oid * 64) 64"
proof (rule nth_equalityI)
  fix i assume "i < length (mem_read (load_otable m base ofst n) (base + oid * 64) 64)"
  then have i: "i < 64" by simp
  have "load_otable m base ofst n (base + oid * 64 + i) = m (ofst + oid * 64 + i)"
    unfolding load_otable_run
    by (subst run_stride) (use i assms in \<open>simp_all add: nth_mem_read\<close>)
  then show "mem_read (load_otable m base ofst n) (base + oid * 64) 64 ! i = mem_read m (ofst + oid * 64) 64 ! i"
    using i by (simp add: nth_mem_read)
qed simp

lemma ze: "\<not> oe_valid (oe_decode (replicate 64 0))"
  by (simp add: oe_decode_def field_def Let_def)

text \<open>The regions of PM after mkfs.\<close>

lemma mkfs_regions:
  fixes flags m
  assumes f: "f < 2 ^ 64" and r: "length r = 4000" and e: "oe_ok e0"
    and o: "zstore_mkfs cpu 4096 nblks flags f r e0 = Some ops"
  defines "R \<equiv> flags AND ZSTORE_MKFS_RESERVE_OBJID \<noteq> 0" and "M \<equiv> pm_run ops m"
  shows "sb_decode (pmem_read M 0 4096) = mkfs_sb nblks f r"
    and "4096 \<le> x \<Longrightarrow> x < 1048576 \<Longrightarrow> M x = 0"
    and "n \<le> 524288 \<Longrightarrow> words_set M 1048576 n (if R then 512 else 0)"
    and "words_set M 34603008 2048 (if R then 512 else 0)"
    and "oid < 1048576 \<Longrightarrow> (if R \<and> oid < 262144 then oe_decode (mem_read M (35651584 + oid * 64) 64) = reserved_entry e0 oid
           else \<not> oe_valid (oe_decode (mem_read M (35651584 + oid * 64) 64)))"
proof -
  let ?F = "fresh_mem (mkfs_sb nblks f r) m"
  have M: "M = pm_run (if R then mkfs_reserve (mkfs_sb nblks f r) e0 else []) ?F"
    using zstore_mkfs_mem [OF f r, of cpu nblks flags e0 m] o by (simp add: R_def M_def)
  note rm = reserve_mem [OF e, where nblks = nblks and f = f and r = r and m = m]
  have low: "M x = ?F x" if "x < 1048576" for x using rm(3) [OF that] by (simp add: M)
  have "mem_read M 0 4096 = mem_read ?F 0 4096"
    by (rule nth_equalityI) (simp_all add: nth_mem_read low)
  then show "sb_decode (pmem_read M 0 4096) = mkfs_sb nblks f r"
    using fresh_mem_sb [OF f r, of nblks m] by (simp add: pmem_read_def)
  show "4096 \<le> x \<Longrightarrow> x < 1048576 \<Longrightarrow> M x = 0" by (simp add: low fresh_mem_def)
  show "words_set M 1048576 n (if R then 512 else 0)" if "n \<le> 524288"
    using rm(4) that by (simp add: words_set_def M) (simp add: fresh_mem_def)
  show "words_set M 34603008 2048 (if R then 512 else 0)"
    using rm(1) by (simp add: words_set_def M) (simp add: fresh_mem_def)
  show "if R \<and> oid < 262144 then oe_decode (mem_read M (35651584 + oid * 64) 64) = reserved_entry e0 oid
      else \<not> oe_valid (oe_decode (mem_read M (35651584 + oid * 64) 64))" if oid: "oid < 1048576"
  proof (cases "R \<and> oid < 262144")
    case True
    then show ?thesis
      using rm(2) [of oid] oe_decode_encode [OF reserved_entry_ok [OF e, of oid]] by (simp add: M)
  next
    case False
    have "M (35651584 + oid * 64 + i) = 0" if "i < 64" for i
    proof (cases R)
      case True
      then show ?thesis using rm(5) [of "35651584 + oid * 64 + i"] False that oid by (simp add: M)
    qed (use that oid in \<open>simp add: M fresh_mem_def\<close>)
    then have "mem_read M (35651584 + oid * 64) 64 = replicate 64 0" by (intro mem_read_zeros)
    then show ?thesis using False ze by auto
  qed
qed

text \<open>Mounting a memory with those regions.\<close>

lemma fresh_no_log:
  assumes "cpu < 127" and "\<And>x. 4096 \<le> x \<Longrightarrow> x < 1048576 \<Longrightarrow> M x = 0"
  shows "pmem_recovery (fst (pmem_open cpu)) stack M = Rec_ok M"
  using assms(1) by (intro recovery_invalid) (simp add: assms(2) pmem_open_def PM_LOG_REGION_SIZE_def)

lemma mount_regions:
  assumes cpu: "cpu < 127" and sb: "sb_decode (pmem_read M 0 4096) = mkfs_sb nblks f r"
    and log: "\<And>x. 4096 \<le> x \<Longrightarrow> x < 1048576 \<Longrightarrow> M x = 0"
    and w: "words_set M 1048576 n k" "words_set M 34603008 2048 k" and n: "512 * n = min (2 ^ 28) nblks"
  shows "\<exists>zs. zstore_mount cpu stack otable mflags M = Rec_ok (zs, M) \<and>
    alloc_inv (zs_ssd zs) \<and> sa_nr_total (zs_ssd zs) = 512 * n \<and>
    alloc_inv (zs_pm zs) \<and> sa_nr_total (zs_pm zs) = 2 ^ 20 \<and>
    (\<forall>j < 512 * n. bs_bit (sa_bs (zs_ssd zs)) j \<longleftrightarrow> j < 64 * k) \<and>
    (\<forall>j < 2 ^ 20. bs_bit (sa_bs (zs_pm zs)) j \<longleftrightarrow> j < 64 * k) \<and>
    (\<forall>oid < 1048576. onode zs oid = oe_decode (mem_read M (35651584 + oid * 64) 64))"
proof -
  obtain a1 where a1: "mount_allocator M (512 * n) 1048576 = Some a1" "alloc_inv a1"
    "sa_nr_total a1 = 512 * n" "\<forall>j < 512 * n. bs_bit (sa_bs a1) j \<longleftrightarrow> j < 64 * k"
    using mount_marked_allocator [OF w(1)] by auto
  obtain a2 where a2: "mount_allocator M (512 * 2048) 34603008 = Some a2" "alloc_inv a2"
    "sa_nr_total a2 = 512 * 2048" "\<forall>j < 512 * 2048. bs_bit (sa_bs a2) j \<longleftrightarrow> j < 64 * k"
    using mount_marked_allocator [OF w(2)] by auto
  define d where "d = load_otable M otable 35651584 1048576"
  have "zstore_mount cpu stack otable mflags M = Rec_ok (\<lparr> zs_mnt_flag = mflags, zs_pmem = fst (pmem_open cpu),
      zs_sb = mkfs_sb nblks f r, zs_ssd = a1, zs_pm = a2, zs_otable = otable, zs_dram = d, zs_tid_max = 0 \<rparr>, M)"
    using a1(1) a2(1) n
    by (simp add: zstore_mount_def sb fresh_no_log [OF cpu log] Let_def d_def)
  then show ?thesis
    using a1 a2 by (auto simp: onode_def onode_addr_def d_def load_otable_read)
qed

lemma mount_ragged:
  assumes "cpu < 127" and "sb_decode (pmem_read M 0 4096) = mkfs_sb nblks f r"
    and "\<And>x. 4096 \<le> x \<Longrightarrow> x < 1048576 \<Longrightarrow> M x = 0" and "min (2 ^ 28) nblks mod 512 \<noteq> 0"
  shows "zstore_mount cpu stack otable mflags M = Rec_fault"
  using mount_ragged_allocator [OF assms(4)]
  by (simp add: zstore_mount_def assms(2) fresh_no_log [OF assms(1,3)] Let_def)

section \<open>Properties\<close>

text \<open>
  C27: Mounting rebuilds an allocator from any bitmap in PM: for a number of blocks that is a
  multiple of 512, the loop over the bitmap entries ends with a copy of them, and with a
  counter that is the number of clear bits, the invariant every operation of the allocator
  relies on.
\<close>

theorem mount_builds_allocator:
  "\<exists>a. mount_allocator m (512 * n) ofst = Some a \<and> alloc_inv a \<and> sa_nr_total a = 512 * n \<and>
     sa_bs a = map (\<lambda>i. bitmap_entry_of (mem_read m (ofst + 64 * i) 64)) [0..<n]"
  using mount_allocator_ok [of m n ofst] by (auto simp: bitmap_entries_def)

text \<open>
  C12: A store that has just been made, with or without the flag RESERVE_OBJID (the server
  always passes it) and on a core below 127, is mounted with exactly what mkfs put there,
  whatever PM held before, when its number of blocks is a multiple of 512: no log is
  replayed; with the flag, the first 32768 blocks of the device and of PM are used (as far
  as they exist) and the objects below 262144 exist, each with the index block of its
  number; without it every block is free and no object exists. When the number of blocks is
  not a multiple of 512, mounting always writes the last bitmap entry behind the array.
\<close>

theorem mount_after_mkfs:
  assumes "cpu < 127" and "f < 2 ^ 64" and "length r = 4000" and "oe_ok e0"
  shows "\<exists>ops. zstore_mkfs cpu 4096 nblks flags f r e0 = Some ops \<and>
    (if min (2 ^ 28) nblks mod 512 \<noteq> 0
     then zstore_mount cpu stack otable mflags (pm_run ops m) = Rec_fault
     else \<exists>zs. zstore_mount cpu stack otable mflags (pm_run ops m) = Rec_ok (zs, pm_run ops m) \<and>
       alloc_inv (zs_ssd zs) \<and> sa_nr_total (zs_ssd zs) = min (2 ^ 28) nblks \<and>
       alloc_inv (zs_pm zs) \<and> sa_nr_total (zs_pm zs) = 2 ^ 20 \<and>
       (\<forall>j \<in> {..<min (2 ^ 28) nblks}. bs_bit (sa_bs (zs_ssd zs)) j \<longleftrightarrow>
          flags AND ZSTORE_MKFS_RESERVE_OBJID \<noteq> 0 \<and> j < 32768) \<and>
       (\<forall>j \<in> {..<2 ^ 20}. bs_bit (sa_bs (zs_pm zs)) j \<longleftrightarrow>
          flags AND ZSTORE_MKFS_RESERVE_OBJID \<noteq> 0 \<and> j < 32768) \<and>
       (\<forall>oid \<in> {..<2 ^ 20}.
          if flags AND ZSTORE_MKFS_RESERVE_OBJID \<noteq> 0 \<and> oid < 262144
          then onode zs oid = e0\<lparr> oe_oid := oid, oe_data_idx_id := oid, oe_valid := True \<rparr>
          else \<not> oe_valid (onode zs oid)))"
proof -
  let ?N = "min (2 ^ 28) nblks"
  obtain ops where o: "zstore_mkfs cpu 4096 nblks flags f r e0 = Some ops"
    using zstore_mkfs_mem [OF assms(2,3), of cpu nblks flags e0 m] by blast
  note M = mkfs_regions [OF assms(2-4) o, where m = m]
  show ?thesis
  proof (cases "?N mod 512 = 0")
    case True
    then obtain n where n: "?N = 512 * n" by (auto simp: mod_eq_0_iff_dvd dvd_def)
    then have "n \<le> 524288" using min.cobounded1 [of "2 ^ 28" nblks] by simp
    define R where "R = (flags AND ZSTORE_MKFS_RESERVE_OBJID \<noteq> 0)"
    have k: "j < 64 * (if R then 512 else 0) \<longleftrightarrow> R \<and> j < 32768" for j :: nat by simp
    note M' = M [folded R_def]
    obtain zs where z: "zstore_mount cpu stack otable mflags (pm_run ops m) = Rec_ok (zs, pm_run ops m)"
      "alloc_inv (zs_ssd zs)" "sa_nr_total (zs_ssd zs) = 512 * n" "alloc_inv (zs_pm zs)" "sa_nr_total (zs_pm zs) = 2 ^ 20"
      and b: "\<forall>j < 512 * n. bs_bit (sa_bs (zs_ssd zs)) j \<longleftrightarrow> R \<and> j < 32768"
        "\<forall>j < 2 ^ 20. bs_bit (sa_bs (zs_pm zs)) j \<longleftrightarrow> R \<and> j < 32768"
      and v: "\<forall>oid < 1048576. onode zs oid = oe_decode (mem_read (pm_run ops m) (35651584 + oid * 64) 64)"
      using mount_regions [OF assms(1) M'(1,2) M'(3) [OF \<open>n \<le> 524288\<close>] M'(4) n [symmetric], of stack otable mflags]
      unfolding k by blast
    have "\<forall>oid \<in> {..<2 ^ 20}. if R \<and> oid < 262144
        then onode zs oid = e0\<lparr> oe_oid := oid, oe_data_idx_id := oid, oe_valid := True \<rparr> else \<not> oe_valid (onode zs oid)"
      using v M'(5) by (simp add: reserved_entry_def)
    moreover have "512 * n mod 512 = 0" by simp
    ultimately show ?thesis using o z b unfolding R_def [symmetric] n by auto
  next
    case False
    then show ?thesis using o mount_ragged [OF assms(1) M(1,2)] by auto
  qed
qed

definition demo_oe :: otable_entry where
  "demo_oe = \<lparr> oe_valid = False, oe_rsv = 0, oe_oid = 0, oe_rsv2 = 0, oe_data_idx_id = 0, oe_pad = replicate 48 0 \<rparr>"

lemma mount_after_mkfs_witness:
  "\<exists>ops zs. zstore_mkfs 0 4096 1024 ZSTORE_MKFS_RESERVE_OBJID 0 (replicate 4000 0) demo_oe = Some ops \<and>
    zstore_mount 0 [] 65536 0 (pm_run ops (\<lambda>_. 7)) = Rec_ok (zs, pm_run ops (\<lambda>_. 7)) \<and>
    bs_bit (sa_bs (zs_ssd zs)) 1023 \<and> bs_bit (sa_bs (zs_pm zs)) 32767 \<and> \<not> bs_bit (sa_bs (zs_pm zs)) 32768 \<and>
    oe_valid (onode zs 262143) \<and> \<not> oe_valid (onode zs 262144)"
proof -
  have R: "ZSTORE_MKFS_RESERVE_OBJID AND ZSTORE_MKFS_RESERVE_OBJID \<noteq> 0" by (simp add: ZSTORE_MKFS_RESERVE_OBJID_def)
  have m: "min (2 ^ 28) 1024 = (1024 :: nat)" "(1024 :: nat) mod 512 = 0" by simp_all
  have e: "oe_ok demo_oe" by (simp add: oe_ok_def demo_oe_def)
  have l: "length (replicate 4000 (0 :: u8)) = 4000" by simp
  obtain ops zs where o: "zstore_mkfs 0 4096 1024 ZSTORE_MKFS_RESERVE_OBJID 0 (replicate 4000 0) demo_oe = Some ops"
    and z: "zstore_mount 0 [] 65536 0 (pm_run ops (\<lambda>_. 7)) = Rec_ok (zs, pm_run ops (\<lambda>_. 7))"
    and b: "\<forall>j \<in> {..<1024}. bs_bit (sa_bs (zs_ssd zs)) j \<longleftrightarrow> j < 32768"
      "\<forall>j \<in> {..<2 ^ 20}. bs_bit (sa_bs (zs_pm zs)) j \<longleftrightarrow> j < 32768"
    and v: "\<forall>oid \<in> {..<2 ^ 20}. if oid < 262144
          then onode zs oid = demo_oe\<lparr> oe_oid := oid, oe_data_idx_id := oid, oe_valid := True \<rparr>
          else \<not> oe_valid (onode zs oid)"
    using mount_after_mkfs [OF _ _ l e, of 0 0 1024 ZSTORE_MKFS_RESERVE_OBJID "[]" 65536 0 "\<lambda>_. 7"]
    unfolding m using R by auto
  have "oe_valid (onode zs 262143)" "\<not> oe_valid (onode zs 262144)"
    using bspec [OF v, of 262143] bspec [OF v, of 262144] by simp_all
  then show ?thesis using o z b by auto
qed

text \<open>
  The reserved objects are not protected. mkfs with the flag RESERVE_OBJID creates
  262144 objects, each with its own index block, but marks only the first 32768 index
  blocks as allocated (it computes the number of bitmap pages with one factor 8 too many):
  object 32768 and all later ones exist and use a block that is free.
\<close>

theorem mkfs_reserved_blocks_free:
  assumes "f < 2 ^ 64" and "length r = 4000" and "oe_ok e0" and "oid < 262144"
    and "zstore_mkfs cpu 4096 nblks ZSTORE_MKFS_RESERVE_OBJID f r e0 = Some ops"
  shows "oe_decode (pmem_read (pm_run ops m) (sb_pm_otable_ofst (mkfs_sb nblks f r) + oid * 64) 64)
      = reserved_entry e0 oid \<and>
    (bs_bit (bitmap_entries (pm_run ops m) (sb_pm_dy_bitmap_ofst (mkfs_sb nblks f r)) 2048) oid
      \<longleftrightarrow> oid < 32768)"
proof -
  let ?m = "pm_run (mkfs_reserve (mkfs_sb nblks f r) e0) (fresh_mem (mkfs_sb nblks f r) m)"
  have m: "pm_run ops m = ?m"
    using zstore_mkfs_mem [OF assms(1,2), of cpu nblks ZSTORE_MKFS_RESERVE_OBJID e0 m] assms(5)
    by (simp add: ZSTORE_MKFS_RESERVE_OBJID_def)
  note rm = reserve_mem [OF assms(3), where nblks = nblks and f = f and r = r and m = m]
  have e: "oe_decode (mem_read ?m (35651584 + oid * 64) 64) = reserved_entry e0 oid"
    using rm(2) [OF assms(4)] oe_decode_encode [OF reserved_entry_ok [OF assms(3)]] assms(4) by simp
  have q: "oid div 64 < 4096" using assms(4) by (simp add: div_less_iff_less_mult)
  have bytes: "mem_read ?m (34603008 + 8 * (oid div 64)) 8 = replicate 8 (if oid < 32768 then 0xff else 0)"
  proof (rule nth_equalityI)
    fix i assume "i < length (mem_read ?m (34603008 + 8 * (oid div 64)) 8)"
    then have i: "i < 8" by simp
    have "oid < 32768 \<longleftrightarrow> oid div 64 < 512" by (simp add: div_less_iff_less_mult)
    then show "mem_read ?m (34603008 + 8 * (oid div 64)) 8 ! i
        = replicate 8 (if oid < 32768 then 0xff else 0) ! i"
      using i q by (simp add: nth_mem_read rm(1))
  qed simp
  have b: "bs_bit (bitmap_entries ?m 34603008 2048) oid \<longleftrightarrow> oid < 32768"
  proof (cases "oid < 32768")
    case True
    then have "mem_read ?m (34603008 + 8 * (oid div 64)) 8 = replicate 8 0xff" using bytes by simp
    then show ?thesis using True ff_bits [of "oid mod 64"] by (subst bitmap_bit) simp_all
  next
    case False
    then have "mem_read ?m (34603008 + 8 * (oid div 64)) 8 = replicate 8 0" using bytes by simp
    then show ?thesis using False assms(4) by (subst bitmap_bit) simp_all
  qed
  from e b show ?thesis by (simp add: m mkfs_sb_def pmem_read_def)
qed

lemma mkfs_reserved_blocks_free_witness:
  "\<exists>ops. zstore_mkfs 0 4096 1024 ZSTORE_MKFS_RESERVE_OBJID 0 (replicate 4000 0) demo_oe = Some ops \<and>
    oe_decode (pmem_read (pm_run ops (\<lambda>_. 0)) (35651584 + 40000 * 64) 64) = reserved_entry demo_oe 40000 \<and>
    \<not> bs_bit (bitmap_entries (pm_run ops (\<lambda>_. 0)) 34603008 2048) 40000"
proof -
  obtain ops where o: "zstore_mkfs 0 4096 1024 ZSTORE_MKFS_RESERVE_OBJID 0 (replicate 4000 0) demo_oe = Some ops"
    using zstore_mkfs_mem [of 0 "replicate 4000 0" 0 1024 ZSTORE_MKFS_RESERVE_OBJID demo_oe] by auto
  from mkfs_reserved_blocks_free [OF _ _ _ _ o, of 40000 "\<lambda>_. 0"] o show ?thesis
    by (simp add: demo_oe_def oe_ok_def)
qed

end
