(* ===== verification/Zstore_Prep_Correct.thy ===== *)
theory Zstore_Prep_Correct
  imports Zstore_Prep Zstore_Layout_Correct
begin

text \<open>
  Correctness of the preparation of transactions: the extents of a range, the log a write
  builds and what applying it does, creation and deletion, and the limits of the code.
\<close>

section \<open>Merging blocks into extents\<close>

definition ext_ok :: "zstore_extent \<Rightarrow> bool" where
  "ext_ok e \<longleftrightarrow> 0 < ze_len e \<and> ze_lba e div 512 = (ze_lba e + ze_len e - 1) div 512"

lemma ex_blocks_simps [simp]:
  "ex_blocks [] = []" "ex_blocks (e # es) = [ze_lba e..<ze_lba e + ze_len e] @ ex_blocks es"
  "ex_blocks (es @ fs) = ex_blocks es @ ex_blocks fs"
  by (simp_all add: ex_blocks_def)

lemma dib_update_blocks: "dib_update ex = ex_blocks ex"
  by (simp add: dib_update_def ex_blocks_def)

lemma ex_blocks_grow:
  "ex \<noteq> [] \<Longrightarrow> ex_blocks (grow_last ex) = ex_blocks ex @ [ze_lba (last ex) + ze_len (last ex)]"
proof -
  assume "ex \<noteq> []"
  then have "ex_blocks ex = ex_blocks (butlast ex) @ ex_blocks [last ex]"
    by (metis append_butlast_last_id ex_blocks_simps(3))
  then show ?thesis by (simp add: grow_last_def)
qed

lemma grow_last_ok:
  assumes "ex \<noteq> []" and "list_all ext_ok ex"
    and "ze_lba (last ex) div 512 = (ze_lba (last ex) + ze_len (last ex)) div 512"
  shows "list_all ext_ok (grow_last ex)"
proof -
  have "list_all ext_ok (butlast ex)"
    using assms(2) by (auto simp: list_all_iff dest: in_set_butlastD)
  moreover have "ext_ok ((last ex)\<lparr> ze_len := ze_len (last ex) + 1 \<rparr>)"
    using assms(3) by (simp add: ext_ok_def)
  ultimately show ?thesis by (simp add: grow_last_def)
qed

lemma merge_loop_correct:
  assumes "merge_loop bi fnd ex mb = (ex', mb')" and "list_all ext_ok ex" and "fnd \<longrightarrow> ex \<noteq> []"
  shows "ex_blocks ex' = ex_blocks ex @ filter (\<lambda>b. b \<noteq> DIB_HOLE) bi \<and>
    mb' = mb + length (filter (\<lambda>b. b \<noteq> DIB_HOLE) bi) \<and> list_all ext_ok ex'"
  using assms
proof (induction bi arbitrary: fnd ex mb)
  case Nil
  then show ?case by simp
next
  case (Cons ba bi)
  let ?new = "ex @ [\<lparr> ze_lba = ba, ze_len = 1 \<rparr>]"
  let ?P = "fnd \<and> ze_len (last ex) + ze_lba (last ex) = ba \<and>
     ze_lba (last ex) div 512 = ba div 512 \<and> ze_len (last ex) < ZSTORE_IO_UNIT_MAX"
  have one: "ext_ok \<lparr> ze_lba = ba, ze_len = 1 \<rparr>" by (simp add: ext_ok_def)
  have new: "list_all ext_ok ?new" "ex_blocks ?new = ex_blocks ex @ [ba]"
    using Cons.prems(2) one by simp_all
  show ?case
  proof (cases "ba = DIB_HOLE")
    case True
    then show ?thesis using Cons.IH [of False ex mb] Cons.prems by simp
  next
    case nh: False
    show ?thesis
    proof (cases ?P)
      case True
      have ne: "ex \<noteq> []" using True Cons.prems(3) by simp
      have g: "list_all ext_ok (grow_last ex)"
        by (rule grow_last_ok [OF ne Cons.prems(2)]) (use True in \<open>simp add: add.commute\<close>)
      have "merge_loop bi True (grow_last ex) (mb + 1) = (ex', mb')"
        using Cons.prems(1) True nh by simp
      from Cons.IH [OF this g] True nh show ?thesis
        by (simp add: ex_blocks_grow [OF ne] add.commute)
    next
      case False
      then have "merge_loop bi True ?new (mb + 1) = (ex', mb')"
        using Cons.prems(1) nh by (auto simp: Let_def split: if_splits)
      from Cons.IH [OF this new(1)] new(2) nh show ?thesis by simp
    qed
  qed
qed

lemma merge_correct:
  assumes "object_lba_merge_to bi = (ex, mb)"
  shows "ex_blocks ex = filter (\<lambda>b. b \<noteq> DIB_HOLE) bi" "mb = length (filter (\<lambda>b. b \<noteq> DIB_HOLE) bi)"
    "list_all ext_ok ex"
  using merge_loop_correct [of bi False "[]" 0 ex mb] assms by (simp_all add: object_lba_merge_to_def)

section \<open>The log of a write\<close>

definition bitmap_log :: "zstore \<Rightarrow> nat list \<Rightarrow> pm_entry list" where
  "bitmap_log zs bid = map (\<lambda>b. \<lparr> e_paddr = 0, e_ofst = sb_pm_ssd_bitmap_ofst (zs_sb zs) + b * 64,
     e_value = bitmap_entry_bytes (sa_bs (zs_ssd zs) ! b) \<rparr>) bid"

definition dib_entry :: "zstore \<Rightarrow> otable_entry \<Rightarrow> op_rw \<Rightarrow> nat list \<Rightarrow> pm_entry" where
  "dib_entry zs oe a dib = \<lparr> e_paddr = 0,
     e_ofst = object_data_index_block zs oe + rw_ofst a div 2 ^ 12 mod 2 ^ 32 * 4, e_value = le_array 4 dib \<rparr>"

definition oe_entry :: "zstore \<Rightarrow> nat \<Rightarrow> pm_entry" where
  "oe_entry zs oid = \<lparr> e_paddr = onode_addr zs oid, e_ofst = sb_pm_otable_ofst (zs_sb zs) + 64 * oid,
     e_value = mem_read (zs_dram zs) (onode_addr zs oid) 64 \<rparr>"

definition write_entries ::
    "zstore \<Rightarrow> otable_entry \<Rightarrow> op_rw \<Rightarrow> nat list \<Rightarrow> nat list \<Rightarrow> nat list \<Rightarrow> pm_entry list" where
  "write_entries zs oe a bid bid2 dib =
     bitmap_log zs bid @ bitmap_log zs bid2 @ [dib_entry zs oe a dib, oe_entry zs (rw_oid a)]"

text \<open>What a well-formed mounted store is, with the layout that mkfs makes.\<close>

definition zs_wf :: "zstore \<Rightarrow> bool" where
  "zs_wf zs \<longleftrightarrow> sb_pm_ssd_bitmap_ofst (zs_sb zs) = 1048576 \<and> sb_pm_dy_bitmap_ofst (zs_sb zs) = 34603008 \<and>
     sb_onodes_rsv (zs_sb zs) = 1048576 \<and> sb_pm_otable_ofst (zs_sb zs) = 35651584 \<and>
     sb_pm_dy_space_ofst (zs_sb zs) = 102760448 \<and> sb_ssd_min_alloc_size_shift (zs_sb zs) = 12 \<and>
     alloc_inv (zs_ssd zs) \<and> sa_nr_total (zs_ssd zs) \<le> 2 ^ 28 \<and>
     alloc_inv (zs_pm zs) \<and> sa_nr_total (zs_pm zs) \<le> 2 ^ 20 \<and>
     0 < zs_otable zs \<and> zs_otable zs < 2 ^ 63 \<and> log_region_ofst (zs_pmem zs) + PM_LOG_REGION_SIZE \<le> 1048576"

lemma zs_wf_sb:
  assumes "zs_wf zs"
  shows "sb_pm_ssd_bitmap_ofst (zs_sb zs) = 1048576" "sb_pm_dy_bitmap_ofst (zs_sb zs) = 34603008"
    "sb_onodes_rsv (zs_sb zs) = 1048576" "sb_pm_otable_ofst (zs_sb zs) = 35651584"
    "sb_pm_dy_space_ofst (zs_sb zs) = 102760448" "sb_ssd_min_alloc_size_shift (zs_sb zs) = 12"
  using assms by (simp_all add: zs_wf_def)

lemma length_bitmap_entry_bytes: "wf_bs bs \<Longrightarrow> b < length bs \<Longrightarrow> length (bitmap_entry_bytes (bs ! b)) = 64"
  by (simp add: bitmap_entry_bytes_def wf_bs_def)

lemma bitmap_log_simps [simp]:
  "bitmap_log zs [] = []"
  "bitmap_log zs (b # bid) = \<lparr> e_paddr = 0, e_ofst = sb_pm_ssd_bitmap_ofst (zs_sb zs) + b * 64,
     e_value = bitmap_entry_bytes (sa_bs (zs_ssd zs) ! b) \<rparr> # bitmap_log zs bid"
  "length (bitmap_log zs bid) = length bid"
  by (simp_all add: bitmap_log_def)

definition bitmap_id_ok :: "zstore \<Rightarrow> nat \<Rightarrow> bool" where
  "bitmap_id_ok zs b \<longleftrightarrow> b < length (sa_bs (zs_ssd zs)) \<and> b < 2 ^ 32"

definition ssd_entries_ok :: "zstore \<Rightarrow> bool" where
  "ssd_entries_ok zs \<longleftrightarrow> wf_bs (sa_bs (zs_ssd zs)) \<and>
     sb_pm_ssd_bitmap_ofst (zs_sb zs) = 1048576"

lemma bitmap_log_size:
  "ssd_entries_ok zs \<Longrightarrow> list_all (bitmap_id_ok zs) bid \<Longrightarrow>
     entries_size (bitmap_log zs bid) = 88 * length bid"
  by (induction bid) (simp_all add: entry_size_def entry_hdr_def length_bitmap_entry_bytes ssd_entries_ok_def
      bitmap_id_ok_def)

lemma bitmap_log_ok:
  "ssd_entries_ok zs \<Longrightarrow> list_all (bitmap_id_ok zs) bid \<Longrightarrow> list_all entry_ok (bitmap_log zs bid)"
  by (induction bid) (simp_all add: entry_ok_def length_bitmap_entry_bytes ssd_entries_ok_def bitmap_id_ok_def)

lemma add_bitmaps_ok:
  assumes "ssd_entries_ok zs" and "list_all (bitmap_id_ok zs) bid"
    and "tx_inv tx es" and "entries_size es + 88 * length bid \<le> le_cap"
  shows "\<exists>tx'. add_bitmaps zs bid tx = Some (tx', True) \<and> tx_inv tx' (es @ bitmap_log zs bid)"
  using assms
proof (induction bid arbitrary: tx es)
  case (Cons b bid)
  let ?e = "\<lparr> e_paddr = 0, e_ofst = sb_pm_ssd_bitmap_ofst (zs_sb zs) + b * 64,
     e_value = bitmap_entry_bytes (sa_bs (zs_ssd zs) ! b) \<rparr>"
  have b: "b < length (sa_bs (zs_ssd zs))" "b < 2 ^ 32" using Cons.prems(2) by (simp_all add: bitmap_id_ok_def)
  have ok: "entry_ok ?e" and sz: "entry_size ?e = 88"
    using b Cons.prems(1) by (simp_all add: entry_ok_def entry_size_def entry_hdr_def length_bitmap_entry_bytes ssd_entries_ok_def)
  obtain tx' where a: "pmem_transaction_add tx (e_ofst ?e) (e_paddr ?e) (e_value ?e) = Add_ok tx'"
    and i: "tx_inv tx' (es @ [?e])"
    using tx_add_ok [OF Cons.prems(3) ok] Cons.prems(4) sz by auto
  have "\<exists>tx''. add_bitmaps zs bid tx' = Some (tx'', True) \<and> tx_inv tx'' ((es @ [?e]) @ bitmap_log zs bid)"
    by (rule Cons.IH [OF Cons.prems(1) _ i]) (use Cons.prems(2,4) sz in simp_all)
  then show ?case using a b by simp
qed simp

lemma add_ignore_ok:
  assumes "tx_inv tx es" and "entry_ok e" and "entries_size es + entry_size e \<le> le_cap"
  shows "\<exists>tx'. add_ignore tx (e_ofst e) (e_paddr e) (e_value e) = Some tx' \<and> tx_inv tx' (es @ [e])"
  using tx_add_ok [OF assms] by (auto simp: add_ignore_def)

lemma write_log_ok:
  assumes "ssd_entries_ok zs" and "length garbage = le_cap"
    and "list_all (bitmap_id_ok zs) bid" and "list_all (bitmap_id_ok zs) bid2"
    and "length bid \<le> 32" and "length bid2 \<le> 32" and "length dib \<le> 32"
    and "entry_ok (dib_entry zs oe a dib)" and "entry_ok (oe_entry zs (rw_oid a))"
  shows "\<exists>tx. write_log zs garbage oe a bid bid2 dib = Some (tx, True) \<and>
      tx_inv tx (write_entries zs oe a bid bid2 dib)"
    and "entries_size (write_entries zs oe a bid bid2 dib) \<le> 5872"
proof -
  note s1 = bitmap_log_size [OF assms(1,3)] and s2 = bitmap_log_size [OF assms(1,4)]
  have sd: "entry_size (dib_entry zs oe a dib) = 24 + 4 * length dib"
    by (simp add: entry_size_def dib_entry_def entry_hdr_def)
  have so: "entry_size (oe_entry zs (rw_oid a)) = 88"
    by (simp add: entry_size_def oe_entry_def entry_hdr_def)
  show "entries_size (write_entries zs oe a bid bid2 dib) \<le> 5872"
    using assms(5-7) by (simp add: write_entries_def s1 s2 sd so)
  have e0: "entries_size [] + 88 * length bid \<le> le_cap" using assms(5) by (simp add: le_cap_val)
  obtain t1 where t1: "add_bitmaps zs bid (pmem_transaction_alloc garbage) = Some (t1, True)"
    and i1: "tx_inv t1 (bitmap_log zs bid)"
    using add_bitmaps_ok [OF assms(1,3) tx_alloc_inv [OF assms(2)] e0] by auto
  have e1: "entries_size (bitmap_log zs bid) + 88 * length bid2 \<le> le_cap"
    using assms(5,6) by (simp add: s1 le_cap_val)
  obtain t2 where t2: "add_bitmaps zs bid2 t1 = Some (t2, True)"
    and i2: "tx_inv t2 (bitmap_log zs bid @ bitmap_log zs bid2)"
    using add_bitmaps_ok [OF assms(1,4) i1 e1] by auto
  have e2: "entries_size (bitmap_log zs bid @ bitmap_log zs bid2) + entry_size (dib_entry zs oe a dib) \<le> le_cap"
    using assms(5-7) by (simp add: s1 s2 sd le_cap_val)
  obtain t3 where t3: "add_ignore t2 (object_data_index_block zs oe + rw_ofst a div 2 ^ 12 mod 2 ^ 32 * 4) 0 (le_array 4 dib) = Some t3"
    and i3: "tx_inv t3 ((bitmap_log zs bid @ bitmap_log zs bid2) @ [dib_entry zs oe a dib])"
    using add_ignore_ok [OF i2 assms(8) e2] by (auto simp: dib_entry_def)
  have e3: "entries_size ((bitmap_log zs bid @ bitmap_log zs bid2) @ [dib_entry zs oe a dib])
      + entry_size (oe_entry zs (rw_oid a)) \<le> le_cap"
    using assms(5-7) by (simp add: s1 s2 sd so le_cap_val)
  obtain t4 where t4: "add_ignore t3 (sb_pm_otable_ofst (zs_sb zs) + 64 * rw_oid a) (onode_addr zs (rw_oid a))
      (mem_read (zs_dram zs) (onode_addr zs (rw_oid a)) 64) = Some t4"
    and i4: "tx_inv t4 (((bitmap_log zs bid @ bitmap_log zs bid2) @ [dib_entry zs oe a dib]) @ [oe_entry zs (rw_oid a)])"
    using add_ignore_ok [OF i3 assms(9) e3] by (auto simp: oe_entry_def)
  show "\<exists>tx. write_log zs garbage oe a bid bid2 dib = Some (tx, True) \<and>
      tx_inv tx (write_entries zs oe a bid bid2 dib)"
  proof (intro exI conjI)
    show "write_log zs garbage oe a bid bid2 dib = Some (t4, True)"
      unfolding write_log_def t1 option.case prod.case bool.case t2 t3 t4 option.map ..
    show "tx_inv t4 (write_entries zs oe a bid bid2 dib)"
      using i4 by (simp add: write_entries_def)
  qed
qed

section \<open>The bitmap entries of a list of extents\<close>

lemma lba_to_bitmap_fold:
  "set (fold (\<lambda>e bid. if ze_lba e div 512 \<in> set bid then bid else bid @ [ze_lba e div 512]) ex b0)
     = set b0 \<union> (\<lambda>e. ze_lba e div 512) ` set ex \<and>
   length (fold (\<lambda>e bid. if ze_lba e div 512 \<in> set bid then bid else bid @ [ze_lba e div 512]) ex b0)
     \<le> length b0 + length ex"
proof (induction ex arbitrary: b0)
  case (Cons e ex)
  show ?case
  proof (cases "ze_lba e div 512 \<in> set b0")
    case True
    then show ?thesis using Cons.IH [of b0] by (simp add: insert_absorb le_SucI)
  next
    case False
    then show ?thesis using Cons.IH [of "b0 @ [ze_lba e div 512]"] by simp
  qed
qed simp

lemma lba_to_bitmap_id_set: "set (lba_to_bitmap_id ex) = (\<lambda>e. ze_lba e div 512) ` set ex"
  using lba_to_bitmap_fold [of ex "[]"] by (simp add: lba_to_bitmap_id_def)

lemma lba_to_bitmap_id_length: "length (lba_to_bitmap_id ex) \<le> length ex"
  using lba_to_bitmap_fold [of ex "[]"] by (simp add: lba_to_bitmap_id_def)

lemma ext_ok_count: "list_all ext_ok ex \<Longrightarrow> length ex \<le> length (ex_blocks ex)"
  by (induction ex) (auto simp: ext_ok_def)

lemma alloc_ex_lba:
  assumes "stupid_alloc_space a sz = Some (0, a', ex)" and "0 < sz" and "0 < sa_nr_total a"
  shows "\<forall>e \<in> set ex. ze_lba e < sa_nr_total a"
proof -
  define Q where "Q = (\<lambda>r. case r of Alloc_done bs ex h \<Rightarrow> \<forall>e \<in> set ex. ze_lba e < sa_nr_total a | _ \<Rightarrow> True)"
  have g: "\<forall>e \<in> set (grow_last ex). ze_lba e < n" if "\<forall>e \<in> set ex. ze_lba e < n" "ex \<noteq> []" for ex n
    using that by (auto simp: grow_last_def dest: in_set_butlastD)
  have "Q (alloc_loop (sa_nr_total a) (sa_hint a) sz (alloc_start a))"
  proof (rule alloc_loop_rule [where P = "\<lambda>st. (\<forall>e \<in> set (as_ex st). ze_lba e < sa_nr_total a) \<and>
      (as_in_found_ctx st \<longrightarrow> as_ex st \<noteq> [])"])
    show "(\<forall>e \<in> set (as_ex (alloc_start a)). ze_lba e < sa_nr_total a) \<and>
        (as_in_found_ctx (alloc_start a) \<longrightarrow> as_ex (alloc_start a) \<noteq> [])"
      by (simp add: alloc_start_def)
  next
    fix st st'
    assume P: "(\<forall>e \<in> set (as_ex st). ze_lba e < sa_nr_total a) \<and> (as_in_found_ctx st \<longrightarrow> as_ex st \<noteq> [])"
      and s: "alloc_step (sa_nr_total a) (sa_hint a) sz st = Inr st'"
    have lt: "as_it st mod sa_nr_total a < sa_nr_total a" using assms(3) by simp
    have "\<forall>e \<in> set (as_ex (take_block (as_it st mod sa_nr_total a) sz st)). ze_lba e < sa_nr_total a"
    proof (cases "as_in_found_ctx st")
      case True
      then show ?thesis using P g [of "as_ex st"] by (simp add: take_block_def)
    next
      case False
      then show ?thesis
        using g [of "as_ex st @ [\<lparr>ze_lba = as_it st mod sa_nr_total a, ze_len = 0\<rparr>]"] P lt
        by (simp add: take_block_def)
    qed
    then show "(\<forall>e \<in> set (as_ex st'). ze_lba e < sa_nr_total a) \<and> (as_in_found_ctx st' \<longrightarrow> as_ex st' \<noteq> [])"
      using alloc_step_Inr [OF s] P by (auto simp: take_block_def)
  next
    fix st r
    assume P: "(\<forall>e \<in> set (as_ex st). ze_lba e < sa_nr_total a) \<and> (as_in_found_ctx st \<longrightarrow> as_ex st \<noteq> [])"
      and s: "alloc_step (sa_nr_total a) (sa_hint a) sz st = Inl r"
    show "Q r" using alloc_step_Inl [OF s] P by (auto simp: Q_def)
  qed
  with stupid_alloc_space_cases [OF assms(1)] show ?thesis by (auto simp: Q_def)
qed

section \<open>A write that succeeds\<close>

text \<open>The extents a range of an object already has: blocks of the device, in allocated state.\<close>

definition old_extents_ok :: "zstore \<Rightarrow> zstore_extent list \<Rightarrow> bool" where
  "old_extents_ok zs e \<longleftrightarrow> distinct (ex_blocks e) \<and> list_all ext_ok e \<and> length (ex_blocks e) \<le> 32 \<and>
     (\<forall>j \<in> set (ex_blocks e). j < sa_nr_total (zs_ssd zs) \<and> bs_bit (sa_bs (zs_ssd zs)) j)"

lemma ext_ok_first: "list_all ext_ok ex \<Longrightarrow> e \<in> set ex \<Longrightarrow> ze_lba e \<in> set (ex_blocks ex)"
  by (induction ex) (auto simp: ext_ok_def)

definition released :: "zstore \<Rightarrow> zstore_extent list \<Rightarrow> stupid_allocator option" where
  "released zs e = (if e = [] then Some (zs_ssd zs) else stupid_free_space (zs_ssd zs) e)"

lemma released_ok:
  assumes "zs_wf zs" and "old_extents_ok zs e"
  obtains ssd1 where "released zs e = Some ssd1" and "alloc_inv ssd1"
    and "sa_nr_total ssd1 = sa_nr_total (zs_ssd zs)"
    and "free_set (sa_bs ssd1) (sa_nr_total ssd1)
      = free_set (sa_bs (zs_ssd zs)) (sa_nr_total (zs_ssd zs)) \<union> set (ex_blocks e)"
proof (cases "e = []")
  case True
  have "alloc_inv (zs_ssd zs)" using assms(1) by (simp add: zs_wf_def)
  then show ?thesis by (rule that [rotated]) (simp_all add: True released_def)
next
  case False
  have "alloc_inv (zs_ssd zs)" "\<forall>j \<in> set (ex_blocks e). j < sa_nr_total (zs_ssd zs)"
    "\<forall>j \<in> set (ex_blocks e). bs_bit (sa_bs (zs_ssd zs)) j" "distinct (ex_blocks e)"
    using assms by (auto simp: zs_wf_def old_extents_ok_def)
  from free_space_correct [OF this] obtain a' where "stupid_free_space (zs_ssd zs) e = Some a'" "alloc_inv a'"
    "free_set (sa_bs a') (sa_nr_total (zs_ssd zs)) = free_set (sa_bs (zs_ssd zs)) (sa_nr_total (zs_ssd zs)) \<union> set (ex_blocks e)"
    "sa_nr_total a' = sa_nr_total (zs_ssd zs)" by metis
  then show ?thesis using that [of a'] False by (simp add: released_def)
qed

definition write_args_ok :: "op_rw \<Rightarrow> nat \<Rightarrow> bool" where
  "write_args_ok a blen \<longleftrightarrow> rw_len a = 4096 * blen \<and> 0 < blen \<and> blen \<le> 32 \<and> rw_ofst a mod 4096 = 0 \<and>
     rw_ofst a + rw_len a \<le> 4 * 2 ^ 20 \<and> rw_oid a < 2 ^ 20"

text \<open>The state after a write has taken its blocks.\<close>

lemma write_ok:
  assumes "zs_wf zs" and "old_extents_ok zs e" and "write_args_ok a blen" and "length garbage = le_cap"
    and "oe_data_idx_id oe < 2 ^ 32" and "released zs e = Some ssd1"
    and "stupid_alloc_space ssd1 blen = Some (0, ssd2, enew)"
  defines "zs2 \<equiv> zs\<lparr> zs_ssd := ssd2 \<rparr>"
  shows "\<exists>pm tx2. tx_prep_write zs tx m garbage a oe e = Prep_rc 0 zs2 tx2 m \<and> tx_pm tx2 = Some pm \<and>
    tx_bios tx2 = write_bios zs enew e \<and> tx_bio_outstanding tx2 = length (tx_bios tx2) \<and>
    tx_state tx2 = DATA_IO \<and> tx_type tx2 = TX_WRITE \<and> tx_tid tx2 = tx_tid tx \<and>
    tx_inv pm (write_entries zs2 oe a (lba_to_bitmap_id e) (lba_to_bitmap_id enew) (ex_blocks enew)) \<and>
    entries_size (write_entries zs2 oe a (lba_to_bitmap_id e) (lba_to_bitmap_id enew) (ex_blocks enew)) \<le> 5872 \<and>
    length (ex_blocks enew) = blen \<and> zs_wf zs2 \<and> 0 < length enew"
proof -
  obtain ssd1' where r: "released zs e = Some ssd1'" "alloc_inv ssd1'" "sa_nr_total ssd1' = sa_nr_total (zs_ssd zs)"
    using released_ok [OF assms(1,2)] by blast
  then have inv1: "alloc_inv ssd1" and t1: "sa_nr_total ssd1 = sa_nr_total (zs_ssd zs)"
    using assms(6) by simp_all
  have bl: "0 < blen" "blen \<le> 32" using assms(3) by (simp_all add: write_args_ok_def)
  note as = alloc_success [OF inv1 bl(1) assms(7)]
  have t2: "sa_nr_total ssd2 = sa_nr_total (zs_ssd zs)" using as t1 by simp
  have tot: "sa_nr_total (zs_ssd zs) \<le> 2 ^ 28" using assms(1) by (simp add: zs_wf_def)
  have tot1: "0 < sa_nr_total ssd1" using as by linarith
  have idok: "bitmap_id_ok zs2 (j div 512)" if "j < sa_nr_total (zs_ssd zs)" for j
  proof -
    have "sa_nr_total ssd2 \<le> 512 * length (sa_bs ssd2)" using as by (simp add: alloc_inv_def)
    then have "j < 512 * length (sa_bs ssd2)" using that t2 by simp
    then have "j div 512 < length (sa_bs ssd2)" by (simp add: div_less_iff_less_mult mult.commute)
    moreover have "j div 512 < 2 ^ 32" using that tot by (simp add: div_less_iff_less_mult)
    ultimately show ?thesis by (simp add: bitmap_id_ok_def zs2_def)
  qed
  have old: "list_all ext_ok e" "length (ex_blocks e) \<le> 32" "\<forall>j \<in> set (ex_blocks e). j < sa_nr_total (zs_ssd zs)"
    using assms(2) by (auto simp: old_extents_ok_def)
  have id1: "list_all (bitmap_id_ok zs2) (lba_to_bitmap_id e)"
    using old ext_ok_first [OF old(1)] idok by (auto simp: list_all_iff lba_to_bitmap_id_set)
  have id2: "list_all (bitmap_id_ok zs2) (lba_to_bitmap_id enew)"
    using alloc_ex_lba [OF assms(7) bl(1) tot1] idok t1 by (auto simp: list_all_iff lba_to_bitmap_id_set)
  have n1: "length (lba_to_bitmap_id e) \<le> 32"
    using lba_to_bitmap_id_length [of e] ext_ok_count [OF old(1)] old(2) by linarith
  have n2: "length (lba_to_bitmap_id enew) \<le> 32"
    using lba_to_bitmap_id_length [of enew] as bl(2) by linarith
  have n3: "length (ex_blocks enew) = blen" using as by (simp add: length_ex_blocks)
  have wf2: "zs_wf zs2" using assms(1) as t2 by (simp add: zs_wf_def zs2_def)
  have so: "ssd_entries_ok zs2"
    using wf2 by (simp add: ssd_entries_ok_def zs_wf_def alloc_inv_def)
  have d_ok: "entry_ok (dib_entry zs2 oe a (ex_blocks enew))"
    using assms(5) n3 bl(2) wf2
    by (simp add: entry_ok_def dib_entry_def object_data_index_block_def zs_wf_sb)
  have o_ok: "entry_ok (oe_entry zs2 (rw_oid a))"
    using wf2 assms(3) by (simp add: entry_ok_def oe_entry_def onode_addr_def write_args_ok_def zs_wf_def)
  obtain pm where pm: "write_log zs2 garbage oe a (lba_to_bitmap_id e) (lba_to_bitmap_id enew) (ex_blocks enew) = Some (pm, True)"
    and pi: "tx_inv pm (write_entries zs2 oe a (lba_to_bitmap_id e) (lba_to_bitmap_id enew) (ex_blocks enew))"
    using write_log_ok(1) [OF so assms(4) id1 id2 n1 n2 _ d_ok o_ok] n3 bl(2) by auto
  note sz = write_log_ok(2) [OF so assms(4) id1 id2 n1 n2 _ d_ok o_ok]
  have en: "0 < length enew" using n3 bl(1) by (cases enew) auto
  have w: "tx_prep_write zs tx m garbage a oe e = Prep_rc 0 zs2
      (tx\<lparr> tx_type := TX_WRITE, tx_state := DATA_IO, tx_bios := write_bios zs enew e,
           tx_bio_outstanding := length (write_bios zs enew e), tx_pm := Some pm \<rparr>) m"
    using assms(3,6) assms(7) pm n3
    by (simp add: tx_prep_write_def write_args_ok_def Let_def dib_update_blocks zs2_def flip: released_def)
  show ?thesis using w pi sz n3 bl(2) wf2 en by simp
qed

lemma entries_write_append [simp]: "entries_write (es @ fs) m = entries_write fs (entries_write es m)"
  by (simp add: entries_write_def)

lemma clear_of_log_append [simp]:
  "clear_of_log pm (es @ fs) \<longleftrightarrow> clear_of_log pm es \<and> clear_of_log pm fs"
  "clear_of_log pm (e # es) \<longleftrightarrow>
     disjoint_blocks (e_ofst e) (length (e_value e)) (log_region_ofst pm) PM_LOG_REGION_SIZE \<and> clear_of_log pm es"
  "clear_of_log pm []"
  by (auto simp: clear_of_log_def)

lemma log_below: "zs_wf zs \<Longrightarrow> 1048576 \<le> ofst \<Longrightarrow>
    disjoint_blocks ofst n (log_region_ofst (zs_pmem zs)) PM_LOG_REGION_SIZE"
  by (simp add: zs_wf_def disjoint_blocks_def)

lemma clear_bitmap_log: "zs_wf zs \<Longrightarrow> clear_of_log (zs_pmem zs) (bitmap_log zs bid)"
  by (induction bid) (simp_all add: log_below zs_wf_sb)

lemma clear_write_entries:
  assumes "zs_wf zs"
  shows "clear_of_log (zs_pmem zs) (write_entries zs oe a bid bid2 dib)"
  using clear_bitmap_log [OF assms] assms
  by (simp add: write_entries_def log_below zs_wf_sb dib_entry_def oe_entry_def object_data_index_block_def)

lemma log_block_low: "zs_wf zs \<Longrightarrow> 1048576 \<le> x \<Longrightarrow> \<not> log_block (zs_pmem zs) x"
  by (simp add: zs_wf_def log_block_def in_block_def)

text \<open>
  A transaction built for a store commits: it can be applied, the deferred updates reach DRAM,
  and behind the logs PM reads as if its entries had been written one after the other.
\<close>

lemma commit_reads:
  assumes "zs_wf zs" and "tx_inv pm es" and "entries_size es \<le> 7936" and "clear_of_log (zs_pmem zs) es"
  shows "\<exists>ops tx'. pmem_transaction_apply (zs_pmem zs) pm dram = Some (ops, tx', deferred es dram) \<and>
    (\<forall>m x n. 1048576 \<le> x \<longrightarrow> mem_read (pm_run ops m) x n = mem_read (entries_write es m) x n)"
proof -
  have "mem_read (pm_run (tx_ops (zs_pmem zs) pm es) m) x n = mem_read (entries_write es m) x n"
    if "1048576 \<le> x" for m x n
  proof (rule mem_read_cong)
    fix k
    show "pm_run (tx_ops (zs_pmem zs) pm es) m (x + k) = entries_write es m (x + k)"
      by (rule tx_ops_result(1) [OF assms(2-4)]) (use log_block_low [OF assms(1), of "x + k"] that in simp)
  qed
  with tx_apply_ops [OF assms(2,3)] show ?thesis by blast
qed

lemma write_entries_dib:
  fixes oe dib
  assumes "zs_wf zs" and "rw_oid a < 2 ^ 20"
  defines "D \<equiv> e_ofst (dib_entry zs oe a dib)"
  shows "mem_read (entries_write (write_entries zs oe a bid bid2 dib) m) D (4 * length dib) = le_array 4 dib"
proof -
  have o: "e_ofst (oe_entry zs (rw_oid a)) + 64 \<le> D"
    using assms(1,2) by (simp add: D_def dib_entry_def oe_entry_def object_data_index_block_def zs_wf_sb)
  have l: "length (e_value (oe_entry zs (rw_oid a))) = 64" by (simp add: oe_entry_def)
  have v: "e_value (dib_entry zs oe a dib) = le_array 4 dib" by (simp add: dib_entry_def)
  have dj: "disjoint_blocks D (4 * length dib) (e_ofst (oe_entry zs (rw_oid a)))
      (length (e_value (oe_entry zs (rw_oid a))))"
    using o l by (simp add: disjoint_blocks_def)
  show ?thesis
    by (simp add: write_entries_def mem_read_write_disjoint [OF dj] v flip: D_def)
      (rule mem_read_write_same, simp)
qed

lemma new_blocks_bound:
  assumes "zs_wf zs" and "old_extents_ok zs e" and "released zs e = Some ssd1"
    and "stupid_alloc_space ssd1 blen = Some (0, ssd2, enew)" and "b \<in> set (ex_blocks enew)" and "0 < blen"
  shows "b < 2 ^ 28 + blen"
proof -
  obtain ssd1' where r: "released zs e = Some ssd1'" "alloc_inv ssd1'" "sa_nr_total ssd1' = sa_nr_total (zs_ssd zs)"
    using released_ok [OF assms(1,2)] by blast
  then have inv1: "alloc_inv ssd1" and t1: "sa_nr_total ssd1 \<le> 2 ^ 28"
    using assms(1,3) by (simp_all add: zs_wf_def)
  note as = alloc_success [OF inv1 assms(6,4)]
  have tot: "0 < sa_nr_total ssd1" using as by linarith
  obtain x where x: "x \<in> set enew" "b < ze_lba x + ze_len x"
    using assms(5) by (auto simp: ex_blocks_def)
  have "ze_len x \<le> ex_total enew" unfolding ex_total_def
    using x(1) by (intro member_le_sum_list) auto
  moreover have "ze_lba x < sa_nr_total ssd1" using alloc_ex_lba [OF assms(4,6) tot] x(1) by blast
  ultimately show ?thesis using x(2) as t1 by linarith
qed

section \<open>Properties\<close>

text \<open>
  Looking up a range: the extents found are, in order, the blocks of the data index that
  are mapped; every extent lies in one bitmap entry; and the number of mapped blocks is
  right.  A read finds every block mapped, because it takes an unwritten block for block 0.
\<close>

theorem range_get_blocks:
  assumes "object_lba_range_get zs m oe ofst len w = Some (ex, mapped, dib)"
  shows "ex_blocks ex = filter (\<lambda>b. b \<noteq> DIB_HOLE) dib \<and> mapped = length (ex_blocks ex) \<and> list_all ext_ok ex \<and>
    length dib = len div 2 ^ sb_ssd_min_alloc_size_shift (zs_sb zs) \<and> (w \<or> mapped = length dib)"
proof -
  define d0 where "d0 = array_of 4 (len div 2 ^ sb_ssd_min_alloc_size_shift (zs_sb zs))
    (pmem_read m (object_data_index_block zs oe + ofst div 2 ^ sb_ssd_min_alloc_size_shift (zs_sb zs) * 4)
      (len div 2 ^ sb_ssd_min_alloc_size_shift (zs_sb zs) * 4))"
  have d: "dib = (if w then d0 else map (\<lambda>v. if v = DIB_HOLE then 0 else v) d0)"
    and m: "object_lba_merge_to dib = (ex, mapped)"
    using assms by (auto simp: object_lba_range_get_def Let_def d0_def split: if_splits prod.splits)
  have l: "length d0 = len div 2 ^ sb_ssd_min_alloc_size_shift (zs_sb zs)"
    by (simp add: d0_def array_of_def)
  have "filter (\<lambda>b. b \<noteq> DIB_HOLE) dib = dib" if "\<not> w"
    by (rule filter_True) (use that d in \<open>auto simp: DIB_HOLE_def\<close>)
  with merge_correct [OF m] d l show ?thesis by auto
qed

text \<open>The blocks taken for a write are numbers of the device, so the array in PM holds them exactly.\<close>

lemma new_blocks_array:
  assumes "zs_wf zs" and "old_extents_ok zs e" and "write_args_ok a blen" and "released zs e = Some ssd1"
    and "stupid_alloc_space ssd1 blen = Some (0, ssd2, enew)" and "length (ex_blocks enew) = blen"
  shows "array_of 4 blen (le_array 4 (ex_blocks enew)) = ex_blocks enew"
    and "filter (\<lambda>b. b \<noteq> DIB_HOLE) (ex_blocks enew) = ex_blocks enew"
proof -
  have blk: "b < DIB_HOLE" if "b \<in> set (ex_blocks enew)" for b
  proof -
    have bl: "0 < blen" "blen \<le> 32" using assms(3) by (simp_all add: write_args_ok_def)
    have "b < 2 ^ 28 + blen" by (rule new_blocks_bound [OF assms(1,2,4,5) that bl(1)])
    with bl(2) show ?thesis by (simp add: DIB_HOLE_def)
  qed
  have "\<forall>v \<in> set (ex_blocks enew). v < 256 ^ 4"
  proof
    fix v assume "v \<in> set (ex_blocks enew)"
    from blk [OF this] show "v < 256 ^ 4" by (simp add: DIB_HOLE_def)
  qed
  from array_of_le_array [OF this] show "array_of 4 blen (le_array 4 (ex_blocks enew)) = ex_blocks enew"
    by (simp add: assms(6))
  show "filter (\<lambda>b. b \<noteq> DIB_HOLE) (ex_blocks enew) = ex_blocks enew"
    by (rule filter_True) (use blk in auto)
qed

text \<open>
  C1: A write followed by its transaction takes effect: with blocks allocated for it, a
  write of at most 32 blocks prepares a log of at most 5872 bytes that is never refused
  and never overruns its buffer; applied without a crash, the object's data index names
  exactly the blocks the data was written to.  (The index lies in the 4 GiB that are mapped:
  the preparation of a request has read it before this step, or has faulted.)
\<close>

theorem write_then_lookup:
  assumes "zs_wf zs" and "old_extents_ok zs e" and "write_args_ok a blen" and "length garbage = le_cap"
    and "oe_data_idx_id oe < 2 ^ 32" and "released zs e = Some ssd1"
    and "stupid_alloc_space ssd1 blen = Some (0, ssd2, enew)"
  shows "\<exists>pm tx2 ops tx' dram'.
    tx_prep_write zs tx m garbage a oe e = Prep_rc 0 (zs\<lparr> zs_ssd := ssd2 \<rparr>) tx2 m \<and> tx_pm tx2 = Some pm \<and>
    tx_bios tx2 = write_bios zs enew e \<and>
    pmem_transaction_apply (zs_pmem zs) pm (zs_dram zs) = Some (ops, tx', dram') \<and>
    (\<exists>ex. object_lba_range_get (zs\<lparr> zs_ssd := ssd2 \<rparr>) (pm_run ops m) oe (rw_ofst a) (rw_len a) True
        = Some (ex, blen, ex_blocks enew) \<and> ex_blocks ex = ex_blocks enew)"
proof -
  define zs2 where "zs2 = zs\<lparr> zs_ssd := ssd2 \<rparr>"
  define es where "es = write_entries zs2 oe a (lba_to_bitmap_id e) (lba_to_bitmap_id enew) (ex_blocks enew)"
  obtain pm tx2 where p: "tx_prep_write zs tx m garbage a oe e = Prep_rc 0 zs2 tx2 m" "tx_pm tx2 = Some pm"
    "tx_bios tx2 = write_bios zs enew e" and i: "tx_inv pm es" and sz: "entries_size es \<le> 5872"
    and lb: "length (ex_blocks enew) = blen" and wf2: "zs_wf zs2"
    using write_ok [OF assms, of tx m] by (auto simp: zs2_def es_def)
  have pm: "zs_pmem zs2 = zs_pmem zs" by (simp add: zs2_def)
  have sz': "entries_size es \<le> 7936" using sz by simp
  have cl: "clear_of_log (zs_pmem zs2) es" using clear_write_entries [OF wf2] by (simp add: es_def)
  obtain ops tx' where ap: "pmem_transaction_apply (zs_pmem zs) pm (zs_dram zs) = Some (ops, tx', deferred es (zs_dram zs))"
    and run: "\<And>x n. 1048576 \<le> x \<Longrightarrow> mem_read (pm_run ops m) x n = mem_read (entries_write es m) x n"
    using commit_reads [OF wf2 i sz' cl] unfolding pm by blast
  let ?D = "e_ofst (dib_entry zs2 oe a (ex_blocks enew))"
  have D: "1048576 \<le> ?D" using wf2 by (simp add: dib_entry_def object_data_index_block_def zs_wf_sb)
  have "mem_read (entries_write es m) ?D (4 * length (ex_blocks enew)) = le_array 4 (ex_blocks enew)"
    unfolding es_def by (rule write_entries_dib [OF wf2]) (use assms(3) in \<open>simp add: write_args_ok_def\<close>)
  then have rd: "mem_read (pm_run ops m) ?D (4 * blen) = le_array 4 (ex_blocks enew)" by (simp add: run [OF D] lb)
  note blocks = new_blocks_array [OF assms(1-3,6,7) lb]
  obtain ex mb where mg: "object_lba_merge_to (ex_blocks enew) = (ex, mb)" by fastforce
  have len: "rw_len a div 2 ^ 12 = blen" "\<not> ZSTORE_TX_IOV_MAX < blen" "rw_ofst a div 2 ^ 12 mod 2 ^ 32 = rw_ofst a div 2 ^ 12"
    using assms(3) by (auto simp: write_args_ok_def ZSTORE_TX_IOV_MAX_def div_less_iff_less_mult)
  have "object_lba_range_get zs2 (pm_run ops m) oe (rw_ofst a) (rw_len a) True = Some (ex, mb, ex_blocks enew)"
    unfolding object_lba_range_get_def Let_def zs_wf_sb(6) [OF wf2] len(1) pmem_read_def
    using rd len(2,3) blocks(1) mg by (simp add: dib_entry_def mult.commute [of _ 4])
  with p ap merge_correct [OF mg] blocks(2) lb show ?thesis by (auto simp: zs2_def)
qed

end
