(* ===== verification/Zstore_Objects.thy ===== *)
theory Zstore_Objects
  imports Zstore_Prep_Correct
begin

text \<open>
  Concrete stores for the witnesses, the limits of writing and reading objects, and the
  effect of creating and deleting an object.
\<close>

section \<open>A concrete store\<close>

definition demo_store :: "stupid_allocator \<Rightarrow> memory \<Rightarrow> zstore" where
  "demo_store ssd dram = \<lparr> zs_mnt_flag = 0, zs_pmem = demo_pmem, zs_sb = mkfs_sb 512 0 (replicate 4000 0),
     zs_ssd = ssd, zs_pm = demo_alloc 4 (replicate 8 0) 4, zs_otable = 65536, zs_dram = dram, zs_tid_max = 0 \<rparr>"

lemma demo_store_wf: "alloc_inv ssd \<Longrightarrow> sa_nr_total ssd \<le> 2 ^ 28 \<Longrightarrow> zs_wf (demo_store ssd dram)"
  using demo_empty_inv
  by (simp add: zs_wf_def demo_store_def PM_LOG_REGION_SIZE_def mkfs_sb_def mkfs_superblock_def Let_def demo_alloc_def)

definition demo_rw :: "nat \<Rightarrow> nat \<Rightarrow> op_rw" where
  "demo_rw oid blen = \<lparr> rw_oid = oid, rw_ofst = 0, rw_len = 4096 * blen, rw_flags = 0 \<rparr>"

lemma demo_rw_ok: "oid < 2 ^ 20 \<Longrightarrow> 0 < blen \<Longrightarrow> blen \<le> 32 \<Longrightarrow> write_args_ok (demo_rw oid blen) blen"
  by (simp add: write_args_ok_def demo_rw_def)

definition demo_tx :: zstore_tx where "demo_tx = tx_init 0"

lemma old_extents_Nil [simp]: "old_extents_ok zs []"
  by (simp add: old_extents_ok_def)

lemma released_Nil [simp]: "released zs [] = Some (zs_ssd zs)"
  by (simp add: released_def)

lemma write_then_lookup_witness:
  "\<exists>pm tx2 ops tx' dram'.
    tx_prep_write (demo_store (demo_alloc 4 (replicate 8 0) 4) (\<lambda>_. 0)) demo_tx (\<lambda>_. 0) (replicate le_cap 0) (demo_rw 5 2) demo_oe []
      = Prep_rc 0 (demo_store ((demo_alloc 4 (3 # replicate 7 0) 2)\<lparr>sa_hint := 2\<rparr>) (\<lambda>_. 0)) tx2 (\<lambda>_. 0) \<and>
    tx_pm tx2 = Some pm \<and>
    pmem_transaction_apply demo_pmem pm (\<lambda>_. 0) = Some (ops, tx', dram') \<and>
    (\<exists>ex. object_lba_range_get (demo_store ((demo_alloc 4 (3 # replicate 7 0) 2)\<lparr>sa_hint := 2\<rparr>) (\<lambda>_. 0))
        (pm_run ops (\<lambda>_. 0)) demo_oe 0 8192 True = Some (ex, 2, [0, 1]))"
proof -
  let ?zs = "demo_store (demo_alloc 4 (replicate 8 0) 4) (\<lambda>_. 0)"
  have wf: "zs_wf ?zs" by (rule demo_store_wf [OF demo_empty_inv]) (simp add: demo_alloc_def)
  have a: "write_args_ok (demo_rw 5 2) 2" by (rule demo_rw_ok) simp_all
  have i: "oe_data_idx_id demo_oe < 2 ^ 32" by (simp add: demo_oe_def)
  have r: "released ?zs [] = Some (demo_alloc 4 (replicate 8 0) 4)" by (simp add: demo_store_def)
  have u: "[0..<2] = [0, 1 :: nat]" by (simp add: upt_rec)
  from write_then_lookup [OF wf old_extents_Nil a _ i r demo_empty_alloc, of "replicate le_cap 0" demo_tx "\<lambda>_. 0"]
  show ?thesis by (auto simp: demo_store_def demo_rw_def u)
qed

section \<open>Limits of writing\<close>

text \<open>The entries of a write leave the bitmap entries in PM that they do not name alone.\<close>

lemma bitmap_entry_untouched:
  assumes "zs_wf zs" and "k < length (sa_bs (zs_ssd zs))" and "k \<noteq> q" and "q \<le> 2 ^ 19"
  shows "mem_read (entries_write (write_entries zs oe a [] [k] dib) m) (1048576 + 64 * q) 64 = mem_read m (1048576 + 64 * q) 64"
proof (rule mem_read_cong)
  fix i :: nat assume i: "i < 64"
  have l64: "length (bitmap_entry_bytes (sa_bs (zs_ssd zs) ! k)) = 64"
    by (rule length_bitmap_entry_bytes [OF _ assms(2)]) (use assms(1) in \<open>simp add: zs_wf_def alloc_inv_def\<close>)
  have "\<not> in_block (1048576 + 64 * q + i) (1048576 + k * 64) 64"
    using i assms(3) by (auto simp: in_block_def)
  then have "\<not> in_entries (1048576 + 64 * q + i) (write_entries zs oe a [] [k] dib)"
    using i assms(1,4)
    by (simp add: write_entries_def zs_wf_sb dib_entry_def oe_entry_def object_data_index_block_def
        in_entries_def in_block_def) (simp add: l64 add.commute)
  then show "entries_write (write_entries zs oe a [] [k] dib) m (1048576 + 64 * q + i) = m (1048576 + 64 * q + i)"
    by (rule entries_write_out)
qed

text \<open>
  A write that crosses a boundary of 512 blocks loses part of its allocation. The log
  takes one bitmap entry per extent, that of its first block; when the blocks from the
  hint on are free and the new extent reaches into the next entry, that entry is changed in
  DRAM and never written to PM: after a restart the object's last blocks are free.
\<close>

theorem write_misses_bitmap_entry:
  assumes "zs_wf zs" and "write_args_ok a blen" and "length garbage = le_cap" and "oe_data_idx_id oe < 2 ^ 32"
    and "sa_hint (zs_ssd zs) + blen < sa_nr_total (zs_ssd zs)"
    and "\<forall>k. k \<le> blen \<longrightarrow> \<not> bs_bit (sa_bs (zs_ssd zs)) (sa_hint (zs_ssd zs) + k)"
  defines "q \<equiv> (sa_hint (zs_ssd zs) + blen - 1) div 512"
  assumes "sa_hint (zs_ssd zs) div 512 \<noteq> q"
  shows "\<exists>zs2 tx2 pm ops tx' dram'.
    tx_prep_write zs tx m garbage a oe [] = Prep_rc 0 zs2 tx2 m \<and> tx_pm tx2 = Some pm \<and>
    pmem_transaction_apply (zs_pmem zs) pm (zs_dram zs) = Some (ops, tx', dram') \<and>
    bs_bit (sa_bs (zs_ssd zs2)) (sa_hint (zs_ssd zs) + blen - 1) \<and>
    mem_read (pm_run ops m) (sb_pm_ssd_bitmap_ofst (zs_sb zs) + 64 * q) 64
      = mem_read m (sb_pm_ssd_bitmap_ofst (zs_sb zs) + 64 * q) 64"
proof -
  let ?h = "sa_hint (zs_ssd zs)"
  have bl: "0 < blen" using assms(2) by (simp add: write_args_ok_def)
  have inv: "alloc_inv (zs_ssd zs)" and tot: "sa_nr_total (zs_ssd zs) \<le> 2 ^ 28"
    using assms(1) by (simp_all add: zs_wf_def)
  obtain ssd2 where al: "stupid_alloc_space (zs_ssd zs) blen = Some (0, ssd2, [\<lparr>ze_lba = ?h, ze_len = blen\<rparr>])"
    and bits: "\<And>j. bs_bit (sa_bs ssd2) j \<longleftrightarrow> bs_bit (sa_bs (zs_ssd zs)) j \<or> ?h \<le> j \<and> j < ?h + blen"
    using alloc_run_full [OF inv bl assms(5,6)] by blast
  define zs2 where "zs2 = zs\<lparr> zs_ssd := ssd2 \<rparr>"
  let ?en = "[\<lparr>ze_lba = ?h, ze_len = blen\<rparr>]"
  define es where "es = write_entries zs2 oe a (lba_to_bitmap_id []) (lba_to_bitmap_id ?en) (ex_blocks ?en)"
  obtain pm tx2 where p: "tx_prep_write zs tx m garbage a oe [] = Prep_rc 0 zs2 tx2 m" "tx_pm tx2 = Some pm"
    and i: "tx_inv pm es" and sz: "entries_size es \<le> 5872" and wf2: "zs_wf zs2"
    using write_ok [OF assms(1) old_extents_Nil assms(2-4) released_Nil al, of tx m] by (auto simp: zs2_def es_def)
  have pmz: "zs_pmem zs2 = zs_pmem zs" "zs_sb zs2 = zs_sb zs" by (simp_all add: zs2_def)
  have sz': "entries_size es \<le> 7936" using sz by simp
  have cl: "clear_of_log (zs_pmem zs2) es" using clear_write_entries [OF wf2] by (simp add: es_def)
  obtain ops tx' where ap: "pmem_transaction_apply (zs_pmem zs) pm (zs_dram zs) = Some (ops, tx', deferred es (zs_dram zs))"
    and run: "\<And>x n. 1048576 \<le> x \<Longrightarrow> mem_read (pm_run ops m) x n = mem_read (entries_write es m) x n"
    using commit_reads [OF wf2 i sz' cl] unfolding pmz by blast
  have ids: "lba_to_bitmap_id [] = []" "lba_to_bitmap_id ?en = [?h div 512]" by (simp_all add: lba_to_bitmap_id_def)
  have inb: "?h div 512 < length (sa_bs ssd2)"
  proof -
    have "sa_nr_total ssd2 \<le> 512 * length (sa_bs ssd2)" "sa_nr_total ssd2 = sa_nr_total (zs_ssd zs)"
      using alloc_success [OF inv bl al] by (simp_all add: alloc_inv_def)
    then have "?h < 512 * length (sa_bs ssd2)" using assms(5) by simp
    then show ?thesis by (simp add: div_less_iff_less_mult mult.commute)
  qed
  have "q \<le> 2 ^ 19"
    using div_le_mono [of "?h + blen - 1" "2 ^ 28" 512] assms(5) tot by (simp add: q_def)
  then have unt: "mem_read (entries_write es m) (1048576 + 64 * q) 64 = mem_read m (1048576 + 64 * q) 64"
    unfolding es_def ids using bitmap_entry_untouched [OF wf2 _ assms(8)] inb by (simp add: zs2_def)
  have "mem_read (pm_run ops m) (1048576 + 64 * q) 64 = mem_read (entries_write es m) (1048576 + 64 * q) 64"
    by (rule run) simp
  moreover have "bs_bit (sa_bs (zs_ssd zs2)) (?h + blen - 1)" using bl by (simp add: zs2_def bits, linarith)
  ultimately show ?thesis using p ap unt assms(1) by (auto simp: zs_wf_sb)
qed

definition demo_blank :: "nat \<Rightarrow> nat \<Rightarrow> stupid_allocator" where
  "demo_blank n hint = \<lparr>sa_bs = replicate n (replicate 8 0), sa_nr_free = 512 * n, sa_nr_total = 512 * n,
     sa_nr_entrys = n, sa_hint = hint\<rparr>"

lemma blank_bit: "j < 512 * n \<Longrightarrow> \<not> bs_bit (replicate n (replicate 8 0)) j"
  using word_index_lt [of j] by (simp add: bs_bit_def word_at_def div_less_iff_less_mult mult.commute)

lemma demo_blank_inv: "alloc_inv (demo_blank n hint)"
  by (simp add: alloc_inv_def demo_blank_def wf_bs_def free_set_all blank_bit)

lemma mem_read_const: "mem_read (\<lambda>_. c) a n = replicate n c"
  by (rule nth_equalityI) (simp_all add: nth_mem_read)

lemma range_get_blocks_witness:
  "\<exists>ex. object_lba_range_get (demo_store (demo_blank 2 0) (\<lambda>_. 0)) (\<lambda>_. 0xff) demo_oe 0 8192 False = Some (ex, 2, [0, 0]) \<and>
     ex_blocks ex = [0, 0]"
proof -
  have "replicate 4 c = [c, c, c, c]" for c :: u8 by (simp add: numeral_eq_Suc)
  then have v: "le_val (replicate 4 0xff) = 4294967295" by simp
  have u: "[0..<2] = [0, 1 :: nat]" by (simp add: upt_rec)
  have f: "field (replicate 8 0xff) i 4 = 4294967295" if "i \<le> 4" for i
  proof -
    have "take 4 (drop i (replicate 8 c)) = replicate 4 c" for c :: u8 using that by (simp add: min_def)
    then show ?thesis by (simp only: field_def v)
  qed
  have a: "array_of 4 2 (replicate 8 0xff) = [4294967295, 4294967295]"
    unfolding array_of_def u list.map by (simp only: f)
  have mg: "object_lba_merge_to [0, 0] = ([\<lparr>ze_lba = 0, ze_len = 1\<rparr>, \<lparr>ze_lba = 0, ze_len = 1\<rparr>], 2)"
    by (simp add: object_lba_merge_to_def DIB_HOLE_def Let_def)
  have sh: "sb_ssd_min_alloc_size_shift (zs_sb (demo_store (demo_blank 2 0) (\<lambda>_. 0))) = 12"
    by (simp add: demo_store_def mkfs_sb_def mkfs_superblock_def Let_def)
  have l: "8192 div 2 ^ 12 = (2 :: nat)" "2 * 4 = (8 :: nat)" by simp_all
  have g: "object_lba_range_get (demo_store (demo_blank 2 0) (\<lambda>_. 0)) (\<lambda>_. 0xff) demo_oe 0 8192 False =
      Some ([\<lparr>ze_lba = 0, ze_len = 1\<rparr>, \<lparr>ze_lba = 0, ze_len = 1\<rparr>], 2, [0, 0])"
    unfolding object_lba_range_get_def Let_def sh pmem_read_def l mem_read_const a
    by (simp add: ZSTORE_TX_IOV_MAX_def DIB_HOLE_def mg)
  from range_get_blocks [OF g] g show ?thesis by (auto simp: DIB_HOLE_def)
qed

lemma write_misses_bitmap_entry_witness:
  "\<exists>zs2 tx2 pm ops tx' dram'.
    tx_prep_write (demo_store (demo_blank 2 510) (\<lambda>_. 0)) demo_tx (\<lambda>_. 0) (replicate le_cap 0) (demo_rw 5 4) demo_oe []
      = Prep_rc 0 zs2 tx2 (\<lambda>_. 0) \<and> tx_pm tx2 = Some pm \<and>
    pmem_transaction_apply demo_pmem pm (\<lambda>_. 0) = Some (ops, tx', dram') \<and>
    bs_bit (sa_bs (zs_ssd zs2)) 513 \<and>
    mem_read (pm_run ops (\<lambda>_. 0)) (1048576 + 64) 64 = mem_read (\<lambda>_. 0) (1048576 + 64) 64"
proof -
  let ?zs = "demo_store (demo_blank 2 510) (\<lambda>_. 0)"
  have z: "zs_ssd ?zs = demo_blank 2 510" "sb_pm_ssd_bitmap_ofst (zs_sb ?zs) = 1048576"
    "zs_pmem ?zs = demo_pmem" "zs_dram ?zs = (\<lambda>_. 0)"
    by (simp_all add: demo_store_def)
  have b: "sa_hint (demo_blank 2 510) = 510" "sa_nr_total (demo_blank 2 510) = 1024"
    "sa_bs (demo_blank 2 510) = replicate 2 (replicate 8 0)" by (simp_all add: demo_blank_def)
  have wf: "zs_wf ?zs" by (rule demo_store_wf [OF demo_blank_inv]) (simp add: b)
  have fr: "\<forall>k. k \<le> 4 \<longrightarrow> \<not> bs_bit (sa_bs (zs_ssd ?zs)) (sa_hint (zs_ssd ?zs) + k)"
    by (simp add: z b blank_bit)
  have a: "write_args_ok (demo_rw 5 4) 4" by (rule demo_rw_ok) simp_all
  from write_misses_bitmap_entry [OF wf a _ _ _ fr, of "replicate le_cap 0" demo_oe demo_tx "\<lambda>_. 0"]
  show ?thesis by (simp add: z b demo_oe_def)
qed

text \<open>
  C26: A write that fails for lack of space has already released the object's old blocks:
  they are free in the allocator while the data index in PM, which is not changed, still
  names them.
\<close>

theorem failed_write_frees_live_blocks:
  assumes "zs_wf zs" and "old_extents_ok zs e" and "write_args_ok a blen"
    and "sa_nr_free (zs_ssd zs) + length (ex_blocks e) < blen"
  shows "\<exists>zs2 tx2. tx_prep_write zs tx m garbage a oe e = Prep_rc (- 1) zs2 tx2 m \<and>
    (\<forall>j \<in> set (ex_blocks e). \<not> bs_bit (sa_bs (zs_ssd zs2)) j)"
proof -
  obtain ssd1 where r: "released zs e = Some ssd1" "alloc_inv ssd1" "sa_nr_total ssd1 = sa_nr_total (zs_ssd zs)"
    and f: "free_set (sa_bs ssd1) (sa_nr_total ssd1)
      = free_set (sa_bs (zs_ssd zs)) (sa_nr_total (zs_ssd zs)) \<union> set (ex_blocks e)"
    using released_ok [OF assms(1,2)] by blast
  have "sa_nr_free ssd1 \<le> card (free_set (sa_bs (zs_ssd zs)) (sa_nr_total (zs_ssd zs))) + card (set (ex_blocks e))"
    using r(2) by (simp add: alloc_inv_def f card_Un_le)
  also have "\<dots> \<le> sa_nr_free (zs_ssd zs) + length (ex_blocks e)"
    using assms(1) card_length [of "ex_blocks e"] by (simp add: zs_wf_def alloc_inv_def)
  finally have "sa_nr_free ssd1 < blen" using assms(4) by simp
  then have al: "stupid_alloc_space ssd1 blen = Some (- 1, ssd1, [])" by (simp add: stupid_alloc_space_def)
  have "tx_prep_write zs tx m garbage a oe e
      = Prep_rc (- 1) (zs\<lparr> zs_ssd := ssd1 \<rparr>) (tx\<lparr> tx_type := TX_WRITE, tx_state := DATA_IO \<rparr>) m"
    using assms(3) r(1) al by (simp add: tx_prep_write_def write_args_ok_def Let_def flip: released_def)
  moreover have "\<not> bs_bit (sa_bs ssd1) j" if "j \<in> set (ex_blocks e)" for j
  proof -
    have "j \<in> free_set (sa_bs ssd1) (sa_nr_total ssd1)" using that by (simp add: f)
    then show ?thesis by (simp add: free_set_def)
  qed
  ultimately show ?thesis by auto
qed

lemma failed_write_frees_live_blocks_witness:
  "\<exists>zs2 tx2. tx_prep_write (demo_store (demo_alloc 4 (15 # replicate 7 0) 0) (\<lambda>_. 0)) demo_tx (\<lambda>_. 0) [] (demo_rw 5 2) demo_oe
      [\<lparr>ze_lba = 1, ze_len = 1\<rparr>] = Prep_rc (- 1) zs2 tx2 (\<lambda>_. 0) \<and>
    \<not> bs_bit (sa_bs (zs_ssd zs2)) 1"
proof -
  let ?a = "demo_alloc 4 (15 # replicate 7 0) 0" and ?e = "[\<lparr>ze_lba = 1, ze_len = 1\<rparr>]"
  let ?zs = "demo_store ?a (\<lambda>_. 0)"
  have inv: "alloc_inv ?a" by (rule alloc_inv_demo) code_simp+
  have wf: "zs_wf ?zs" by (rule demo_store_wf [OF inv]) (simp add: demo_alloc_def)
  have bit: "bs_bit (sa_bs ?a) 1" by code_simp
  have ok: "old_extents_ok ?zs ?e"
    using bit by (simp add: old_extents_ok_def ext_ok_def demo_store_def demo_alloc_def upt_rec)
  have a: "write_args_ok (demo_rw 5 2) 2" by (rule demo_rw_ok) simp_all
  have "sa_nr_free (zs_ssd ?zs) + length (ex_blocks ?e) < 2" by (simp add: demo_store_def demo_alloc_def)
  from failed_write_frees_live_blocks [OF wf ok a this, of demo_tx "\<lambda>_. 0" "[]" demo_oe]
  show ?thesis by (auto simp: upt_rec)
qed



end
