(* ===== verification/Zstore_Create.thy ===== *)
theory Zstore_Create
  imports Zstore_Objects
begin

text \<open>
  Creating and deleting objects, from the preparation to the applied transaction, and what
  a read accepts.
\<close>

section \<open>Reading\<close>

lemma prep_read_common:
  fixes m :: memory
  assumes "zs_wf zs" and "rw_oid a < 2 ^ 20" and "rw_len a = 4096 * blen" and "0 < blen" and "blen \<le> 32"
    and "rw_ofst a mod 4096 = 0" and "op_rw_decode meta = a"
    and "index_mapped zs (onode zs (rw_oid a)) (rw_ofst a) (rw_len a)"
  defines "dib \<equiv> map (\<lambda>v. if v = DIB_HOLE then 0 else v) (array_of 4 blen (pmem_read m
     (object_data_index_block zs (onode zs (rw_oid a)) + rw_ofst a div 2 ^ 12 * 4) (blen * 4)))"
  shows "\<exists>ex. ex \<noteq> [] \<and> list_all ext_ok ex \<and> ex_blocks ex = dib \<and>
    tx_prep_rw_common zs tx m garbage msg_oss_op_read meta = Prep_rc 0 zs (tx\<lparr> tx_type := TX_RDONLY,
      tx_state := DATA_IO, tx_bios := read_bios ex, tx_bio_outstanding := length ex \<rparr>) m"
proof -
  obtain ex mb where mg: "object_lba_merge_to dib = (ex, mb)" by fastforce
  have fl: "filter (\<lambda>b. b \<noteq> DIB_HOLE) dib = dib"
    by (rule filter_True) (auto simp: dib_def DIB_HOLE_def)
  have ld: "length dib = blen" by (simp add: dib_def array_of_def)
  note mc = merge_correct [OF mg, unfolded fl]
  have ne: "ex \<noteq> []" using mc(1) ld assms(4) by auto
  have sh: "rw_len a div 2 ^ sb_ssd_min_alloc_size_shift (zs_sb zs) = blen" "rw_len a div 2 ^ 12 = blen"
    "rw_len a div 4096 = blen"
    using assms(3) by (simp_all add: zs_wf_sb(6) [OF assms(1)])
  have rg: "object_lba_range_get zs m (onode zs (rw_oid a)) (rw_ofst a) (rw_len a) False = Some (ex, mb, dib)"
    using assms(5) mg
    by (simp add: object_lba_range_get_def Let_def sh zs_wf_sb(6) [OF assms(1)] ZSTORE_TX_IOV_MAX_def)
      (simp add: dib_def)
  have on: "onode_entry zs (rw_oid a) = Some (onode zs (rw_oid a))"
    using assms(2) by (simp add: onode_entry_def zs_wf_sb(3) [OF assms(1)])
  have "tx_prep_rw_common zs tx m garbage msg_oss_op_read meta = tx_prep_read zs tx m a ex mb"
    using assms(3,4,6) by (simp add: tx_prep_rw_common_def assms(7) msg_op_defs ZSTORE_PAGE_SIZE_def Let_def on
        assms(8) [unfolded assms(3)] rg [unfolded assms(3)])
  also have "\<dots> = Prep_rc 0 zs (tx\<lparr> tx_type := TX_RDONLY, tx_state := DATA_IO, tx_bios := read_bios ex,
      tx_bio_outstanding := length ex \<rparr>) m"
    using ne mc(2) ld sh(2) by (simp add: tx_prep_read_def)
  finally have p: "tx_prep_rw_common zs tx m garbage msg_oss_op_read meta = \<dots>" .
  with ne mc(1,3) show ?thesis by blast
qed

text \<open>
  C30: A read never fails on a hole and never asks whether the object exists, and nothing checks
  its offset against the size of an object. For every entry of the object table, valid or not,
  and every aligned range of 1 to 32 blocks: when its entries of the data index lie in the
  4 GiB of persistent memory that are mapped, the read is prepared, and its device reads cover
  the blocks of the index with unwritten ones replaced by block 0 of the device; when they do
  not, the preparation reads outside of the mapping and the program crashes.
\<close>

theorem read_always_prepared:
  fixes m :: memory
  assumes "zs_wf zs" and "rw_oid a < 2 ^ 20" and "rw_len a = 4096 * blen" and "0 < blen" and "blen \<le> 32"
    and "rw_ofst a mod 4096 = 0" and "op_rw_decode meta = a"
    and "addr = object_data_index_block zs (onode zs (rw_oid a)) + rw_ofst a div 2 ^ 12 * 4"
  shows "if addr + blen * 4 \<le> 4 * 2 ^ 30
    then \<exists>tx2. tx_prep_rw_common zs tx m garbage msg_oss_op_read meta = Prep_rc 0 zs tx2 m \<and>
      concat (map (\<lambda>b. [blk_ofst b..<blk_ofst b + blk_len b]) (tx_bios tx2)) =
        map (\<lambda>v. if v = DIB_HOLE then 0 else v) (array_of 4 blen (pmem_read m addr (blen * 4))) \<and>
      list_all (\<lambda>b. io_ty b = IO_READ) (tx_bios tx2)
    else tx_prep_rw_common zs tx m garbage msg_oss_op_read meta = Prep_fault"
proof -
  let ?dib = "map (\<lambda>v. if v = DIB_HOLE then 0 else v) (array_of 4 blen (pmem_read m addr (blen * 4)))"
  have im: "index_mapped zs (onode zs (rw_oid a)) (rw_ofst a) (rw_len a) \<longleftrightarrow> addr + blen * 4 \<le> 4 * 2 ^ 30"
    by (simp add: index_mapped_def pm_mapped_def pmem_open_def zs_wf_sb(6) [OF assms(1)] assms(3,8))
  show ?thesis
  proof (cases "addr + blen * 4 \<le> 4 * 2 ^ 30")
    case True
    then obtain ex where e: "ex_blocks ex = ?dib"
      "tx_prep_rw_common zs tx m garbage msg_oss_op_read meta = Prep_rc 0 zs (tx\<lparr> tx_type := TX_RDONLY,
        tx_state := DATA_IO, tx_bios := read_bios ex, tx_bio_outstanding := length ex \<rparr>) m"
      using prep_read_common [OF assms(1-7), where tx = tx and garbage = garbage and m = m] im by (auto simp: assms(8))
    have "concat (map (\<lambda>b. [blk_ofst b..<blk_ofst b + blk_len b]) (read_bios ex)) = ex_blocks ex"
      by (simp add: read_bios_def ex_blocks_def comp_def)
    with e True show ?thesis by (simp add: read_bios_def list_all_iff)
  next
    case False
    have "onode_entry zs (rw_oid a) = Some (onode zs (rw_oid a))"
      using assms(2) by (simp add: onode_entry_def zs_wf_sb(3) [OF assms(1)])
    moreover have "\<not> index_mapped zs (onode zs (rw_oid a)) (rw_ofst a) (4096 * blen)" using im False assms(3) by simp
    ultimately show ?thesis
      using False assms(3,4,6) by (simp add: tx_prep_rw_common_def assms(7) msg_op_defs ZSTORE_PAGE_SIZE_def Let_def)
  qed
qed

lemma demo_index_mapped:
  "index_mapped (demo_store (demo_blank 2 0) (\<lambda>_. 0)) (onode (demo_store (demo_blank 2 0) (\<lambda>_. 0)) 5) 0 4096"
  by (simp add: index_mapped_def pm_mapped_def object_data_index_block_def demo_store_def mkfs_sb_def mkfs_superblock_def
      onode_def onode_addr_def oe_decode_def field_def mem_read_const Let_def pmem_open_def)

lemma read_always_prepared_witness:
  "\<exists>tx2. tx_prep_rw_common (demo_store (demo_blank 2 0) (\<lambda>_. 0)) demo_tx (\<lambda>_. 0xff) [] msg_oss_op_read
      (op_rw_encode (demo_rw 5 1)) = Prep_rc 0 (demo_store (demo_blank 2 0) (\<lambda>_. 0)) tx2 (\<lambda>_. 0xff)"
proof -
  have wf: "zs_wf (demo_store (demo_blank 2 0) (\<lambda>_. 0))"
    by (rule demo_store_wf [OF demo_blank_inv]) (simp add: demo_blank_def)
  have d: "op_rw_decode (op_rw_encode (demo_rw 5 1)) = demo_rw 5 1"
    using op_rw_decode_encode [of "demo_rw 5 1" "[]"] by (simp add: demo_rw_def)
  let ?zs = "demo_store (demo_blank 2 0) (\<lambda>_. 0)"
  have "object_data_index_block ?zs (onode ?zs 5) + 4 \<le> 4 * 2 ^ 30"
    using demo_index_mapped by (simp add: index_mapped_def pm_mapped_def pmem_open_def zs_wf_sb(6) [OF wf])
  then show ?thesis
    using read_always_prepared [OF wf _ _ _ _ _ d refl, of 1 demo_tx "\<lambda>_. 0xff" "[]"] by (auto simp: demo_rw_def)
qed

text \<open>
  A range of more than 32 blocks overruns the array for the data index on the stack,
  in reads and in writes; neither is refused before.
\<close>

theorem long_range_overruns:
  assumes "zs_wf zs" and "op_rw_decode meta = a" and "rw_oid a < 2 ^ 20" and "rw_len a = 4096 * blen"
    and "32 < blen" and "rw_ofst a mod 4096 = 0" and "op = msg_oss_op_read \<or> op = msg_oss_op_write"
  shows "tx_prep_rw_common zs tx m garbage op meta = Prep_fault"
proof -
  have rg: "object_lba_range_get zs m (onode zs (rw_oid a)) (rw_ofst a) (rw_len a) w = None" for w
    using assms(4,5) by (simp add: object_lba_range_get_def Let_def zs_wf_sb(6) [OF assms(1)] ZSTORE_TX_IOV_MAX_def)
  have on: "onode_entry zs (rw_oid a) = Some (onode zs (rw_oid a))"
    using assms(3) by (simp add: onode_entry_def zs_wf_sb(3) [OF assms(1)])
  show ?thesis
    using assms(4-7) by (cases "index_mapped zs (onode zs (rw_oid a)) (rw_ofst a) (rw_len a)")
      (simp_all add: tx_prep_rw_common_def assms(2) ZSTORE_PAGE_SIZE_def Let_def on
        rg [unfolded assms(4)])
qed

lemma long_range_overruns_witness:
  "tx_prep_rw_common (demo_store (demo_blank 2 0) (\<lambda>_. 0)) demo_tx (\<lambda>_. 0) [] msg_oss_op_write
      (op_rw_encode (demo_rw 5 33)) = Prep_fault"
proof -
  have wf: "zs_wf (demo_store (demo_blank 2 0) (\<lambda>_. 0))"
    by (rule demo_store_wf [OF demo_blank_inv]) (simp add: demo_blank_def)
  have d: "op_rw_decode (op_rw_encode (demo_rw 5 33)) = demo_rw 5 33"
    using op_rw_decode_encode [of "demo_rw 5 33" "[]"] by (simp add: demo_rw_def)
  show ?thesis by (rule long_range_overruns [OF wf d, where blen = 33]) (simp_all add: demo_rw_def)
qed

section \<open>Creating an object\<close>

definition new_entry :: "nat \<Rightarrow> nat \<Rightarrow> otable_entry" where
  "new_entry oid lba = \<lparr> oe_valid = True, oe_rsv = 0, oe_oid = oid, oe_rsv2 = 0, oe_data_idx_id = lba,
     oe_pad = replicate 48 0 \<rparr>"

lemma new_entry_ok: "oid < 2 ^ 48 \<Longrightarrow> lba < 2 ^ 32 \<Longrightarrow> oe_ok (new_entry oid lba)"
  by (simp add: new_entry_def oe_ok_def)

definition otable_log :: "zstore \<Rightarrow> nat \<Rightarrow> otable_entry \<Rightarrow> pm_entry" where
  "otable_log zs oid oe = \<lparr> e_paddr = onode_addr zs oid, e_ofst = sb_pm_otable_ofst (zs_sb zs) + 64 * oid,
     e_value = oe_encode oe \<rparr>"

definition dy_bitmap_log :: "zstore \<Rightarrow> nat \<Rightarrow> pm_entry" where
  "dy_bitmap_log zs b = \<lparr> e_paddr = 0, e_ofst = sb_pm_dy_bitmap_ofst (zs_sb zs) + 64 * b,
     e_value = bitmap_entry_bytes (sa_bs (zs_pm zs) ! b) \<rparr>"

lemma otable_log_ok:
  "zs_wf zs \<Longrightarrow> oid < 2 ^ 20 \<Longrightarrow> oe_ok oe \<Longrightarrow> entry_ok (otable_log zs oid oe) \<and> entry_size (otable_log zs oid oe) = 88"
  by (simp add: entry_ok_def otable_log_def onode_addr_def length_oe_encode entry_size_def entry_hdr_def zs_wf_def)

text \<open>The object table after the deferred updates of a transaction.\<close>

lemma deferred_otable:
  assumes "zs_wf zs" and "oid < 2 ^ 20" and "oe_ok oe"
  shows "onode (zs\<lparr> zs_dram := deferred [otable_log zs oid oe] (zs_dram zs) \<rparr>) oid = oe"
    and "deferred [otable_log zs oid oe, dy_bitmap_log zs b] d = deferred [otable_log zs oid oe] d"
proof -
  have p: "onode_addr zs oid \<noteq> 0" using assms(1) by (simp add: onode_addr_def zs_wf_def)
  have a: "onode_addr (zs\<lparr> zs_dram := d \<rparr>) oid = onode_addr zs oid" for d by (simp add: onode_addr_def)
  show "onode (zs\<lparr> zs_dram := deferred [otable_log zs oid oe] (zs_dram zs) \<rparr>) oid = oe"
    using p by (simp add: onode_def a deferred_def otable_log_def mem_read_write_same
        length_oe_encode [OF assms(3)] oe_decode_encode [OF assms(3)])
  show "deferred [otable_log zs oid oe, dy_bitmap_log zs b] d = deferred [otable_log zs oid oe] d"
    by (simp add: deferred_def dy_bitmap_log_def)
qed

lemma add_two:
  assumes "length garbage = le_cap" and "list_all entry_ok [e1, e2]" and "entry_size e1 + entry_size e2 \<le> le_cap"
  obtains p1 p2 where "add_ignore (pmem_transaction_alloc garbage) (e_ofst e1) (e_paddr e1) (e_value e1) = Some p1"
    and "tx_inv p1 [e1]" and "add_ignore p1 (e_ofst e2) (e_paddr e2) (e_value e2) = Some p2" and "tx_inv p2 [e1, e2]"
proof -
  obtain p1 where p1: "add_ignore (pmem_transaction_alloc garbage) (e_ofst e1) (e_paddr e1) (e_value e1) = Some p1"
    "tx_inv p1 [e1]"
    using add_ignore_ok [OF tx_alloc_inv [OF assms(1)], of e1] assms(2,3) by auto
  obtain p2 where "add_ignore p1 (e_ofst e2) (e_paddr e2) (e_value e2) = Some p2" "tx_inv p2 [e1, e2]"
    using add_ignore_ok [OF p1(2), of e2] assms(2,3) by auto
  with p1 that show ?thesis by blast
qed

lemma created_index_block:
  assumes "zs_wf zs" and "stupid_alloc_space (zs_pm zs) 1 = Some (0, pma, ze)"
  shows "ze_lba (hd ze) \<in> free_set (sa_bs (zs_pm zs)) (sa_nr_total (zs_pm zs)) \<and> ze_lba (hd ze) < 2 ^ 20 \<and>
    ze_lba (hd ze) div 512 < 2048 \<and> zs_wf (zs\<lparr> zs_pm := pma \<rparr>) \<and>
    length (bitmap_entry_bytes (sa_bs pma ! (ze_lba (hd ze) div 512))) = 64"
proof -
  have inv: "alloc_inv (zs_pm zs)" and tot: "sa_nr_total (zs_pm zs) \<le> 2 ^ 20"
    using assms(1) by (simp_all add: zs_wf_def)
  obtain i where i: "i \<in> free_set (sa_bs (zs_pm zs)) (sa_nr_total (zs_pm zs))" "ze = [\<lparr>ze_lba = i, ze_len = 1\<rparr>]"
    using alloc_one [OF assms(2)] by blast
  then have lt: "i < 2 ^ 20" "i < sa_nr_total (zs_pm zs)" using tot by (simp_all add: free_set_def)
  note as = alloc_success [OF inv _ assms(2)]
  have "sa_nr_total pma \<le> 512 * length (sa_bs pma)" "i < sa_nr_total pma"
    using as lt(2) by (simp_all add: alloc_inv_def)
  then have "i < 512 * length (sa_bs pma)" by simp
  then have b: "i div 512 < length (sa_bs pma)" by (simp add: div_less_iff_less_mult mult.commute)
  have "length (bitmap_entry_bytes (sa_bs pma ! (i div 512))) = 64"
    by (rule length_bitmap_entry_bytes [OF _ b]) (use as in \<open>simp add: alloc_inv_def\<close>)
  moreover have "zs_wf (zs\<lparr> zs_pm := pma \<rparr>)" using assms(1) as by (simp add: zs_wf_def)
  ultimately show ?thesis using i lt by (simp add: div_less_iff_less_mult)
qed

lemma dy_bitmap_log_ok:
  assumes "zs_wf zs" and "b < 2048" and "length (bitmap_entry_bytes (sa_bs (zs_pm zs) ! b)) = 64"
  shows "entry_ok (dy_bitmap_log zs b)" and "entry_size (dy_bitmap_log zs b) = 88"
  using assms by (simp_all add: entry_ok_def entry_size_def entry_hdr_def dy_bitmap_log_def zs_wf_sb)

text \<open>The preparation of a creation: the new entry and the bitmap entry of its index block are logged.\<close>

lemma create_prep:
  assumes "zs_wf zs" and "oid < 2 ^ 20" and "\<not> oe_valid (onode zs oid)" and "op_oid meta = oid"
    and "length garbage = le_cap" and "stupid_alloc_space (zs_pm zs) 1 = Some (0, pma, ze)"
  defines "lba \<equiv> ze_lba (hd ze)" and "zs2 \<equiv> zs\<lparr> zs_pm := pma \<rparr>"
  shows "\<exists>pm. tx_inv pm [otable_log zs2 oid (new_entry oid lba), dy_bitmap_log zs2 (lba div 512)] \<and>
    tx_prep_cre_del_common zs tx m garbage msg_oss_op_create meta
      = Prep_rc 0 zs2 (tx\<lparr> tx_type := TX_WRITE, tx_state := PM_TX, tx_sync := True, tx_pm := Some pm \<rparr>)
         (pm_exec (pmem_write False page_ff (lba * 2 ^ 12 + sb_pm_dy_space_ofst (zs_sb zs))) m)"
proof -
  note cb = created_index_block [OF assms(1,6)]
  then have lba: "lba < 2 ^ 20" "lba div 512 < 2048" and wf2: "zs_wf zs2"
    and l64: "length (bitmap_entry_bytes (sa_bs (zs_pm zs2) ! (lba div 512))) = 64"
    by (simp_all add: lba_def zs2_def)
  let ?e1 = "otable_log zs2 oid (new_entry oid lba)" and ?e2 = "dy_bitmap_log zs2 (lba div 512)"
  have ok: "oe_ok (new_entry oid lba)" by (rule new_entry_ok) (use assms(2) lba(1) in simp_all)
  obtain p1 p2 where p1: "add_ignore (pmem_transaction_alloc garbage) (e_ofst ?e1) (e_paddr ?e1) (e_value ?e1) = Some p1"
    and p2: "add_ignore p1 (e_ofst ?e2) (e_paddr ?e2) (e_value ?e2) = Some p2" and pi: "tx_inv p2 [?e1, ?e2]"
    by (rule add_two [OF assms(5), of ?e1 ?e2])
      (use otable_log_ok [OF wf2 assms(2) ok] dy_bitmap_log_ok [OF wf2 lba(2) l64] in \<open>simp_all add: le_cap_val\<close>)
  have on: "onode_entry zs oid = Some (onode zs oid)"
    using assms(2) by (simp add: onode_entry_def zs_wf_sb(3) [OF assms(1)])
  have oid: "op_oid meta mod 2 ^ 48 = oid" using assms(2,4) by simp
  have ote: "\<lparr> oe_valid = True, oe_rsv = 0, oe_oid = oid, oe_rsv2 = 0,
      oe_data_idx_id = lba mod 2 ^ 32, oe_pad = replicate 48 0 \<rparr> = new_entry oid lba"
    using lba(1) by (simp add: new_entry_def)
  have "tx_prep_cre_del_common zs tx m garbage msg_oss_op_create meta
      = Prep_rc 0 zs2 (tx\<lparr> tx_type := TX_WRITE, tx_state := PM_TX, tx_sync := True, tx_pm := Some p2 \<rparr>)
         (pm_exec (pmem_write False page_ff (lba * 2 ^ 12 + sb_pm_dy_space_ofst (zs_sb zs))) m)"
    using p1 p2 assms(3)
    unfolding tx_prep_cre_del_common_def Let_def oid on option.case assms(6) prod.case
      lba_def [symmetric] zs2_def [symmetric] ote
    by (simp add: otable_log_def dy_bitmap_log_def)
  with pi show ?thesis by blast
qed

text \<open>What the two logged entries leave in PM.\<close>

lemma create_entries_read:
  fixes oid :: nat
  assumes "zs_wf zs" and "oe_ok oe" and "b < 2048" and "length (bitmap_entry_bytes (sa_bs (zs_pm zs) ! b)) = 64"
  defines "es \<equiv> [otable_log zs oid oe, dy_bitmap_log zs b]"
  shows "mem_read (entries_write es m) (35651584 + 64 * oid) 64 = oe_encode oe"
    and "mem_read (entries_write es m) (34603008 + 64 * b) 64 = bitmap_entry_bytes (sa_bs (zs_pm zs) ! b)"
    and "clear_of_log (zs_pmem zs) es"
proof -
  have v: "e_ofst (otable_log zs oid oe) = 35651584 + 64 * oid" "e_value (otable_log zs oid oe) = oe_encode oe"
    "e_ofst (dy_bitmap_log zs b) = 34603008 + 64 * b"
    "e_value (dy_bitmap_log zs b) = bitmap_entry_bytes (sa_bs (zs_pm zs) ! b)"
    by (simp_all add: otable_log_def dy_bitmap_log_def zs_wf_sb [OF assms(1)])
  have "disjoint_blocks (35651584 + 64 * oid) 64 (34603008 + 64 * b) 64"
    using assms(3) by (simp add: disjoint_blocks_def)
  then show "mem_read (entries_write es m) (35651584 + 64 * oid) 64 = oe_encode oe"
    by (simp add: es_def v assms(4) mem_read_write_disjoint mem_read_write_same length_oe_encode [OF assms(2)])
  show "mem_read (entries_write es m) (34603008 + 64 * b) 64 = bitmap_entry_bytes (sa_bs (zs_pm zs) ! b)"
    by (simp add: es_def v assms(4) mem_read_write_same)
  show "clear_of_log (zs_pmem zs) es" using log_below [OF assms(1)] by (simp add: es_def v)
qed

text \<open>
  C22: Creating an object that does not exist: it takes an index block that was free; after the
  transaction has been applied without a crash, the object table in DRAM and in PM has the
  new entry, and the bitmap entry of the block is in PM as it is in DRAM.  (The memory of the
  model has no end; the last 25088 index blocks lie behind the 4 GiB that are mapped, as shown
  at the end of this theory, and filling one of those would fault.)
\<close>

theorem create_effect:
  assumes "zs_wf zs" and "oid < 2 ^ 20" and "\<not> oe_valid (onode zs oid)" and "op_oid meta = oid"
    and "length garbage = le_cap" and "stupid_alloc_space (zs_pm zs) 1 = Some (0, pma, ze)"
  defines "lba \<equiv> ze_lba (hd ze)" and "zs2 \<equiv> zs\<lparr> zs_pm := pma \<rparr>"
  shows "lba \<in> free_set (sa_bs (zs_pm zs)) (sa_nr_total (zs_pm zs)) \<and>
    (\<exists>tx2 m1 pm ops tx' dram'.
      tx_prep_cre_del_common zs tx m garbage msg_oss_op_create meta = Prep_rc 0 zs2 tx2 m1 \<and>
      tx_pm tx2 = Some pm \<and> tx_state tx2 = PM_TX \<and> tx_sync tx2 \<and>
      pmem_transaction_apply (zs_pmem zs) pm (zs_dram zs) = Some (ops, tx', dram') \<and>
      onode (zs2\<lparr> zs_dram := dram' \<rparr>) oid = new_entry oid lba \<and>
      oe_decode (mem_read (pm_run ops m1) (35651584 + 64 * oid) 64) = new_entry oid lba \<and>
      mem_read (pm_run ops m1) (34603008 + 64 * (lba div 512)) 64 = bitmap_entry_bytes (sa_bs pma ! (lba div 512)))"
proof -
  note cb = created_index_block [OF assms(1,6)]
  then have lba: "lba < 2 ^ 20" "lba div 512 < 2048" and wf2: "zs_wf zs2"
    and l64: "length (bitmap_entry_bytes (sa_bs (zs_pm zs2) ! (lba div 512))) = 64"
    by (simp_all add: lba_def zs2_def)
  let ?es = "[otable_log zs2 oid (new_entry oid lba), dy_bitmap_log zs2 (lba div 512)]"
  have ok: "oe_ok (new_entry oid lba)" by (rule new_entry_ok) (use assms(2) lba(1) in simp_all)
  obtain pm m1 where prep: "tx_inv pm ?es"
    "tx_prep_cre_del_common zs tx m garbage msg_oss_op_create meta
      = Prep_rc 0 zs2 (tx\<lparr> tx_type := TX_WRITE, tx_state := PM_TX, tx_sync := True, tx_pm := Some pm \<rparr>) m1"
    using create_prep [OF assms(1-6)] unfolding lba_def zs2_def by blast
  note er = create_entries_read [OF wf2 ok lba(2) l64]
  have pz: "zs_pmem zs2 = zs_pmem zs" "zs_dram zs2 = zs_dram zs" "zs_pm zs2 = pma" by (simp_all add: zs2_def)
  have "entries_size ?es \<le> 7936"
    using otable_log_ok [OF wf2 assms(2) ok] dy_bitmap_log_ok [OF wf2 lba(2) l64] by simp
  from commit_reads [OF wf2 prep(1) this er(3), of "zs_dram zs"] obtain ops tx' where
    ap: "pmem_transaction_apply (zs_pmem zs) pm (zs_dram zs) = Some (ops, tx', deferred ?es (zs_dram zs))"
    and run: "\<And>m x n. 1048576 \<le> x \<Longrightarrow> mem_read (pm_run ops m) x n = mem_read (entries_write ?es m) x n"
    unfolding pz by blast
  have "onode (zs2\<lparr> zs_dram := deferred ?es (zs_dram zs) \<rparr>) oid = new_entry oid lba"
    using deferred_otable [OF wf2 assms(2) ok] unfolding pz by simp
  moreover have "oe_decode (mem_read (pm_run ops m1) (35651584 + 64 * oid) 64) = new_entry oid lba"
    by (subst run, simp, subst er(1), rule oe_decode_encode [OF ok])
  moreover have "mem_read (pm_run ops m1) (34603008 + 64 * (lba div 512)) 64 = bitmap_entry_bytes (sa_bs pma ! (lba div 512))"
    unfolding pz(3) [symmetric] by (subst run, simp, rule er(2))
  ultimately show ?thesis using cb prep(2) ap unfolding lba_def by auto
qed

lemma create_effect_witness:
  "\<exists>tx2 m1 pm ops tx' dram'.
    tx_prep_cre_del_common (demo_store (demo_blank 2 0) (\<lambda>_. 0)) demo_tx (\<lambda>_. 0) (replicate le_cap 0) msg_oss_op_create (le_bytes 8 5)
      = Prep_rc 0 ((demo_store (demo_blank 2 0) (\<lambda>_. 0))\<lparr> zs_pm := (demo_alloc 4 (1 # replicate 7 0) 3)\<lparr>sa_hint := 1\<rparr> \<rparr>) tx2 m1 \<and>
    tx_pm tx2 = Some pm \<and> pmem_transaction_apply demo_pmem pm (\<lambda>_. 0) = Some (ops, tx', dram') \<and>
    oe_decode (mem_read (pm_run ops m1) (35651584 + 64 * 5) 64) = new_entry 5 0"
proof -
  let ?zs = "demo_store (demo_blank 2 0) (\<lambda>_. 0)"
  have wf: "zs_wf ?zs" by (rule demo_store_wf [OF demo_blank_inv]) (simp add: demo_blank_def)
  have z: "zs_pm ?zs = demo_alloc 4 (replicate 8 0) 4" "zs_pmem ?zs = demo_pmem" "zs_dram ?zs = (\<lambda>_. 0)"
    by (simp_all add: demo_store_def)
  have "mem_read (\<lambda>_. 0) a n = replicate n 0" for a n by (rule mem_read_zeros) simp
  then have nv: "\<not> oe_valid (onode ?zs 5)" by (simp add: onode_def z ze)
  have al: "stupid_alloc_space (zs_pm ?zs) 1
      = Some (0, (demo_alloc 4 (1 # replicate 7 0) 3)\<lparr>sa_hint := 1\<rparr>, [\<lparr>ze_lba = 0, ze_len = 1\<rparr>])"
    unfolding z by code_simp
  have o: "op_oid (le_bytes 8 5) = 5" by (simp add: op_oid_def field_def le_val_le_bytes del: le_bytes.simps)
  from create_effect [OF wf _ nv o _ al, of "replicate le_cap 0" demo_tx "\<lambda>_. 0"]
  show ?thesis by (auto simp: z)
qed

section \<open>Deleting an object\<close>

definition zero_entry :: otable_entry where "zero_entry = oe_decode (replicate 64 0)"

lemma zero_entry_eq: "zero_entry = \<lparr> oe_valid = False, oe_rsv = 0, oe_oid = 0, oe_rsv2 = 0, oe_data_idx_id = 0,
    oe_pad = replicate 48 0 \<rparr>"
  by (simp add: zero_entry_def oe_decode_def field_def Let_def)

lemma zero_entry_ok: "oe_ok zero_entry"
  by (simp add: zero_entry_eq oe_ok_def)

text \<open>Releasing one index block in DRAM.\<close>

lemma release_block:
  assumes "alloc_inv sa" and "idx < sa_nr_total sa"
  shows "\<exists>sa'. stupid_free_space sa [\<lparr> ze_lba = idx, ze_len = 1 \<rparr>] = Some sa' \<and> \<not> bs_bit (sa_bs sa') idx"
proof -
  let ?e = "[\<lparr> ze_lba = idx, ze_len = 1 \<rparr>]"
  have "sa_nr_total sa \<le> 512 * length (sa_bs sa)" and w: "wf_bs (sa_bs sa)"
    using assms(1) by (simp_all add: alloc_inv_def)
  then have "idx div 512 < length (sa_bs sa)"
    using assms(2) by (simp add: div_less_iff_less_mult mult.commute)
  then have ib: "\<forall>j \<in> set (ex_blocks ?e). in_bs (sa_bs sa) j" by (simp add: in_bs_def)
  obtain bs where bs: "free_extents (sa_bs sa) ?e = Some bs"
      and b: "\<And>j. bs_bit bs j \<longleftrightarrow> bs_bit (sa_bs sa) j \<and> j \<notin> set (ex_blocks ?e)"
    using free_extents_correct [OF w ib] by blast
  show ?thesis using bs b by (auto simp: stupid_free_space_def)
qed

text \<open>The preparation of a deletion: the zero entry is logged, and nothing else.\<close>

lemma delete_prep:
  assumes "zs_wf zs" and "oid < 2 ^ 20" and "oe_valid (onode zs oid)" and "op_oid meta = oid"
    and "length garbage = le_cap" and "op \<noteq> msg_oss_op_create"
    and "stupid_free_space (zs_pm zs) [\<lparr> ze_lba = oe_data_idx_id (onode zs oid), ze_len = 1 \<rparr>] = Some pma"
  shows "\<exists>pm. tx_inv pm [otable_log zs oid zero_entry] \<and>
    tx_prep_cre_del_common zs tx m garbage op meta = Prep_rc 0 (zs\<lparr> zs_pm := pma \<rparr>)
      (tx\<lparr> tx_type := TX_WRITE, tx_state := PM_TX, tx_sync := True, tx_pm := Some pm \<rparr>) m"
proof -
  let ?e1 = "otable_log zs oid zero_entry"
  have e1: "entry_ok ?e1" "entry_size ?e1 = 88" using otable_log_ok [OF assms(1,2) zero_entry_ok] by simp_all
  obtain p1 where p1: "add_ignore (pmem_transaction_alloc garbage) (e_ofst ?e1) (e_paddr ?e1) (e_value ?e1) = Some p1"
    and pi: "tx_inv p1 [?e1]"
    using add_ignore_ok [OF tx_alloc_inv [OF assms(5)] e1(1)] e1(2) by (auto simp: le_cap_val)
  have on: "onode_entry zs oid = Some (onode zs oid)"
    using assms(2) by (simp add: onode_entry_def zs_wf_sb(3) [OF assms(1)])
  have oid: "op_oid meta mod 2 ^ 48 = oid" using assms(2,4) by simp
  have "tx_prep_cre_del_common zs tx m garbage op meta = Prep_rc 0 (zs\<lparr> zs_pm := pma \<rparr>)
      (tx\<lparr> tx_type := TX_WRITE, tx_state := PM_TX, tx_sync := True, tx_pm := Some p1 \<rparr>) m"
    using p1 assms(3,6,7)
    unfolding tx_prep_cre_del_common_def Let_def oid on option.case zero_entry_def [symmetric]
    by (simp add: otable_log_def onode_addr_def)
  with pi show ?thesis by blast
qed

lemma zero_entry_read:
  fixes oid :: nat
  assumes "zs_wf zs" and "b < 2048"
  defines "es \<equiv> [otable_log zs oid zero_entry]"
  shows "mem_read (entries_write es m) (35651584 + 64 * oid) 64 = oe_encode zero_entry"
    and "mem_read (entries_write es m) (34603008 + 64 * b) 64 = mem_read m (34603008 + 64 * b) 64"
    and "clear_of_log (zs_pmem zs) es"
proof -
  have v: "e_ofst (otable_log zs oid zero_entry) = 35651584 + 64 * oid"
    "e_value (otable_log zs oid zero_entry) = oe_encode zero_entry"
    by (simp_all add: otable_log_def zs_wf_sb [OF assms(1)])
  note l = length_oe_encode [OF zero_entry_ok]
  show "mem_read (entries_write es m) (35651584 + 64 * oid) 64 = oe_encode zero_entry"
    by (simp add: es_def v l mem_read_write_same)
  have "disjoint_blocks (34603008 + 64 * b) 64 (35651584 + 64 * oid) 64"
    using assms(2) by (simp add: disjoint_blocks_def)
  then show "mem_read (entries_write es m) (34603008 + 64 * b) 64 = mem_read m (34603008 + 64 * b) 64"
    by (simp add: es_def v l mem_read_write_disjoint)
  show "clear_of_log (zs_pmem zs) es" using log_below [OF assms(1)] by (simp add: es_def v)
qed

text \<open>
  C23: Deleting an object that exists clears its entry in DRAM and in PM. It leaks: the index
  block is released in DRAM only (the bitmap entry in PM is not written, so the block is
  allocated again after a restart), and the blocks of the object's data stay allocated.
\<close>

theorem delete_effect:
  assumes "zs_wf zs" and "oid < 2 ^ 20" and "oe_valid (onode zs oid)" and "op_oid meta = oid"
    and "length garbage = le_cap" and "op \<noteq> msg_oss_op_create"
    and "oe_data_idx_id (onode zs oid) < sa_nr_total (zs_pm zs)"
  defines "idx \<equiv> oe_data_idx_id (onode zs oid)"
  shows "\<exists>zs2 tx2 pm ops tx' dram'.
      tx_prep_cre_del_common zs tx m garbage op meta = Prep_rc 0 zs2 tx2 m \<and>
      tx_pm tx2 = Some pm \<and> tx_state tx2 = PM_TX \<and> tx_sync tx2 \<and>
      pmem_transaction_apply (zs_pmem zs) pm (zs_dram zs) = Some (ops, tx', dram') \<and>
      \<not> oe_valid (onode (zs2\<lparr> zs_dram := dram' \<rparr>) oid) \<and>
      \<not> oe_valid (oe_decode (mem_read (pm_run ops m) (35651584 + 64 * oid) 64)) \<and>
      \<not> bs_bit (sa_bs (zs_pm zs2)) idx \<and> zs_ssd zs2 = zs_ssd zs \<and>
      mem_read (pm_run ops m) (34603008 + 64 * (idx div 512)) 64 = mem_read m (34603008 + 64 * (idx div 512)) 64"
proof -
  have tot: "alloc_inv (zs_pm zs)" "sa_nr_total (zs_pm zs) \<le> 2 ^ 20" using assms(1) by (simp_all add: zs_wf_def)
  obtain pma where pma: "stupid_free_space (zs_pm zs) [\<lparr> ze_lba = idx, ze_len = 1 \<rparr>] = Some pma"
    "\<not> bs_bit (sa_bs pma) idx"
    using release_block [OF tot(1)] assms(7) by (auto simp: idx_def)
  let ?es = "[otable_log zs oid zero_entry]" and ?zs2 = "zs\<lparr> zs_pm := pma \<rparr>"
  obtain pm where prep: "tx_inv pm ?es"
    "tx_prep_cre_del_common zs tx m garbage op meta = Prep_rc 0 ?zs2
      (tx\<lparr> tx_type := TX_WRITE, tx_state := PM_TX, tx_sync := True, tx_pm := Some pm \<rparr>) m"
    using delete_prep [OF assms(1-6) pma(1) [unfolded idx_def]] by blast
  have "idx div 512 < 2048" using assms(7) tot(2) by (simp add: idx_def div_less_iff_less_mult)
  note er = zero_entry_read [OF assms(1) this]
  have "entries_size ?es \<le> 7936" using otable_log_ok [OF assms(1,2) zero_entry_ok] by simp
  from commit_reads [OF assms(1) prep(1) this er(3), of "zs_dram zs"] obtain ops tx' where
    ap: "pmem_transaction_apply (zs_pmem zs) pm (zs_dram zs) = Some (ops, tx', deferred ?es (zs_dram zs))"
    and run: "\<And>m x n. 1048576 \<le> x \<Longrightarrow> mem_read (pm_run ops m) x n = mem_read (entries_write ?es m) x n"
    by blast
  have nz: "\<not> oe_valid zero_entry" by (simp add: zero_entry_eq)
  have "\<not> oe_valid (onode (?zs2\<lparr> zs_dram := deferred ?es (zs_dram zs) \<rparr>) oid)"
    using deferred_otable(1) [OF assms(1,2) zero_entry_ok] nz by (simp add: onode_def onode_addr_def)
  moreover have "\<not> oe_valid (oe_decode (mem_read (pm_run ops m) (35651584 + 64 * oid) 64))"
    by (subst run, simp, subst er(1), subst oe_decode_encode [OF zero_entry_ok], rule nz)
  moreover have "mem_read (pm_run ops m) (34603008 + 64 * (idx div 512)) 64 = mem_read m (34603008 + 64 * (idx div 512)) 64"
    by (subst run, simp, rule er(2))
  ultimately show ?thesis using prep(2) ap pma(2) by auto
qed

definition demo_dram :: memory where
  "demo_dram = mem_write (\<lambda>_. 0) (65536 + 5 * 64) (oe_encode (new_entry 5 0))"

lemma delete_effect_witness:
  "\<exists>zs2 tx2 pm ops tx' dram'.
    tx_prep_cre_del_common (demo_store (demo_blank 2 0) demo_dram) demo_tx (\<lambda>_. 0) (replicate le_cap 0) msg_oss_op_delete (le_bytes 8 5)
      = Prep_rc 0 zs2 tx2 (\<lambda>_. 0) \<and>
    tx_pm tx2 = Some pm \<and> pmem_transaction_apply demo_pmem pm demo_dram = Some (ops, tx', dram') \<and>
    \<not> oe_valid (onode (zs2\<lparr> zs_dram := dram' \<rparr>) 5)"
proof -
  let ?zs = "demo_store (demo_blank 2 0) demo_dram"
  have wf: "zs_wf ?zs" by (rule demo_store_wf [OF demo_blank_inv]) (simp add: demo_blank_def)
  have z: "zs_pmem ?zs = demo_pmem" "zs_dram ?zs = demo_dram" "sa_nr_total (zs_pm ?zs) = 4" "zs_otable ?zs = 65536"
    by (simp_all add: demo_store_def demo_alloc_def)
  have ok: "oe_ok (new_entry 5 0)" by (rule new_entry_ok) simp_all
  have on: "onode ?zs 5 = new_entry 5 0"
    unfolding onode_def onode_addr_def z
    by (simp add: demo_dram_def mem_read_write_same length_oe_encode [OF ok] oe_decode_encode [OF ok])
  have o: "op_oid (le_bytes 8 5) = 5" by (simp add: op_oid_def field_def le_val_le_bytes del: le_bytes.simps)
  from delete_effect [OF wf _ _ o, of "replicate le_cap 0" msg_oss_op_delete demo_tx "\<lambda>_. 0"]
  show ?thesis by (auto simp: z on new_entry_def msg_op_defs)
qed

text \<open>
  Index blocks outside PM. The allocator of index blocks counts all pages of PM, but the
  blocks lie behind the other regions: the last 25088 block numbers it can hand out address
  memory behind the 4 GiB that are mapped.
\<close>

theorem index_block_outside_pm:
  assumes "zs_wf zs" and "2 ^ 20 - 25088 \<le> oe_data_idx_id oe"
  shows "snd (pmem_open cpu) \<le> object_data_index_block zs oe"
  using assms by (simp add: object_data_index_block_def zs_wf_sb pmem_open_def)

lemma index_block_outside_pm_witness:
  "4 * 2 ^ 30 \<le> object_data_index_block (demo_store (demo_blank 2 0) (\<lambda>_. 0)) (new_entry 5 (2 ^ 20 - 1))"
proof -
  have wf: "zs_wf (demo_store (demo_blank 2 0) (\<lambda>_. 0))"
    by (rule demo_store_wf [OF demo_blank_inv]) (simp add: demo_blank_def)
  from index_block_outside_pm [OF wf, of "new_entry 5 (2 ^ 20 - 1)" 0] show ?thesis
    by (simp add: new_entry_def pmem_open_def)
qed

end
