(* ===== verification/Zstore_Tx.thy ===== *)
theory Zstore_Tx
  imports Zstore_Create
begin

text \<open>
  The life of a transaction (\<^verbatim>\<open>zstore.c\<close>): it is queued, its device I/O is submitted,
  the completions are counted, and writes are committed from the head of their queue.  The
  device and the thread's message queue are outside: \<open>zy_ios\<close> are the requests the device
  holds, \<open>zy_msgs\<close> the messages not yet delivered, \<open>zy_cbs\<close> the callbacks made.  The
  history variable \<open>zy_commits\<close> records the committed writes.  A transaction is identified by
  its number; a failed assertion or a fault is \<^term>\<open>None\<close>.
\<close>

section \<open>State\<close>

record zsys =
  zy_zs :: zstore
  zy_mem :: memory
  zy_list :: "zstore_tx list"
  zy_rdlist :: "zstore_tx list"
  zy_out :: int
  zy_rdout :: int
  zy_ios :: "(nat \<times> bio) list"
  zy_msgs :: "(nat \<times> int) list"
  zy_cbs :: "(nat \<times> int) list"
  zy_commits :: "nat list"

definition tx_find :: "nat \<Rightarrow> zsys \<Rightarrow> zstore_tx option" where
  "tx_find tid s = find (\<lambda>t. tx_tid t = tid) (zy_list s @ zy_rdlist s)"

definition tx_remove :: "nat \<Rightarrow> zstore_tx list \<Rightarrow> zstore_tx list" where
  "tx_remove tid q = filter (\<lambda>t. tx_tid t \<noteq> tid) q"

definition tx_change :: "zstore_tx \<Rightarrow> zstore_tx list \<Rightarrow> zstore_tx list" where
  "tx_change tx q = map (\<lambda>t. if tx_tid t = tx_tid tx then tx else t) q"

definition tx_store :: "zstore_tx \<Rightarrow> zsys \<Rightarrow> zsys" where
  "tx_store tx s = s\<lparr> zy_list := tx_change tx (zy_list s), zy_rdlist := tx_change tx (zy_rdlist s) \<rparr>"

section \<open>The end of a transaction\<close>

definition zstore_user_cb :: "nat \<times> int \<Rightarrow> zsys \<Rightarrow> zsys" where
  "zstore_user_cb msg s = s\<lparr> zy_cbs := zy_cbs s @ [msg] \<rparr>"

definition zstore_tx_end :: "zstore_tx \<Rightarrow> zsys \<Rightarrow> zsys" where
  "zstore_tx_end tx s =
     (let s1 = (if tx_type tx = TX_RDONLY
                then s\<lparr> zy_rdout := zy_rdout s - 1, zy_rdlist := tx_remove (tx_tid tx) (zy_rdlist s) \<rparr>
                else s\<lparr> zy_out := zy_out s - 1, zy_list := tx_remove (tx_tid tx) (zy_list s) \<rparr>)
      in if tx_sync tx then s1\<lparr> zy_msgs := zy_msgs s1 @ [(tx_tid tx, tx_err tx)] \<rparr>
         else zstore_user_cb (tx_tid tx, tx_err tx) s1)"

text \<open>
  The commit loop: it looks at the head of the queue again and again, and every turn removes
  the head, so it walks along the queue (the first argument).
\<close>

fun tx_commit_loop :: "zstore_tx list \<Rightarrow> zsys \<Rightarrow> zsys option" where
  "tx_commit_loop [] s = Some s"
| "tx_commit_loop (tx # q) s =
     (if tx_state tx \<noteq> PM_TX then Some s
      else case tx_pm tx of
        None \<Rightarrow> None
      | Some pm \<Rightarrow>
          (case pmem_transaction_apply (zs_pmem (zy_zs s)) pm (zs_dram (zy_zs s)) of
             None \<Rightarrow> None
           | Some (ops, pm', dram') \<Rightarrow>
               tx_commit_loop q
                 (zstore_tx_end (tx\<lparr> tx_err := OSTORE_EXECUTE_OK \<rparr>)
                    (s\<lparr> zy_mem := pm_run ops (zy_mem s), zy_zs := (zy_zs s)\<lparr> zs_dram := dram' \<rparr>,
                        zy_commits := zy_commits s @ [tx_tid tx] \<rparr>))))"

definition zstore_tx_metadata :: "zstore_tx \<Rightarrow> zsys \<Rightarrow> zsys option" where
  "zstore_tx_metadata tx s =
     (if tx_bio_outstanding tx \<noteq> 0 then None
      else if tx_type tx = TX_RDONLY then Some (zstore_tx_end tx s)
      else if tx_type tx = TX_WRITE then
        (let s1 = tx_store (tx\<lparr> tx_state := PM_TX \<rparr>) s in
         if zy_list s1 \<noteq> [] \<and> tx_tid (hd (zy_list s1)) = tx_tid tx then tx_commit_loop (zy_list s1) s1
         else Some s1)
      else Some s)"

section \<open>Device I/O\<close>

text \<open>
  The device answers every submission with a code (\<open>rcs\<close>, zero if the list ends); the loop
  stops at the first failure and its result is ignored.
\<close>

fun zstore_tx_data_bio :: "nat \<Rightarrow> bio list \<Rightarrow> int list \<Rightarrow> (nat \<times> bio) list \<Rightarrow> int \<times> (nat \<times> bio) list" where
  "zstore_tx_data_bio tid [] rcs ios = (0, ios)"
| "zstore_tx_data_bio tid (b # bs) rcs ios =
     (case rcs of
        [] \<Rightarrow> zstore_tx_data_bio tid bs [] (ios @ [(tid, b)])
      | rc # rcs' \<Rightarrow>
          if rc \<noteq> 0 then (status_code OSTORE_IO_ERROR, ios)
          else zstore_tx_data_bio tid bs rcs' (ios @ [(tid, b)]))"

definition zstore_tx_execute :: "zstore_tx \<Rightarrow> int list \<Rightarrow> zsys \<Rightarrow> zsys option" where
  "zstore_tx_execute tx rcs s =
     (case tx_state tx of
        DATA_IO \<Rightarrow> Some (s\<lparr> zy_ios := snd (zstore_tx_data_bio (tx_tid tx) (tx_bios tx) rcs (zy_ios s)) \<rparr>)
      | PM_TX \<Rightarrow> zstore_tx_metadata tx s
      | _ \<Rightarrow> Some s)"

definition zstore_bio_cb :: "bool \<Rightarrow> nat \<Rightarrow> zsys \<Rightarrow> zsys option" where
  "zstore_bio_cb success tid s =
     (if \<not> success then None
      else case tx_find tid s of
        None \<Rightarrow> None
      | Some tx \<Rightarrow>
          (let tx1 = tx\<lparr> tx_bio_outstanding := tx_bio_outstanding tx - 1 \<rparr> in
           if tx_bio_outstanding tx1 = 0 then
             (let tx2 = tx1\<lparr> tx_state := PM_TX, tx_bios := [] \<rparr> in
              zstore_tx_execute tx2 [] (tx_store tx2 s))
           else Some (tx_store tx1 s)))"

section \<open>Submitting an operation\<close>

definition zstore_tx_enqueue :: "zstore_tx \<Rightarrow> zsys \<Rightarrow> zsys" where
  "zstore_tx_enqueue tx s =
     (if tx_type tx = TX_RDONLY then s\<lparr> zy_rdlist := zy_rdlist s @ [tx], zy_rdout := zy_rdout s + 1 \<rparr>
      else s\<lparr> zy_list := zy_list s @ [tx], zy_out := zy_out s + 1 \<rparr>)"

definition zstore_obj_async_op_call :: "u8 list \<Rightarrow> nat \<Rightarrow> u8 list \<Rightarrow> int list \<Rightarrow> zsys \<Rightarrow> (int \<times> zsys) option" where
  "zstore_obj_async_op_call garbage op meta rcs s =
     (case zstore_tx_prepare (zy_zs s) (zy_mem s) garbage op meta of
        Prep_fault \<Rightarrow> None
      | Prep_abort \<Rightarrow> None
      | Prep_rc rc zs tx m \<Rightarrow>
          (let s1 = s\<lparr> zy_zs := zs, zy_mem := m \<rparr> in
           if rc \<noteq> 0 then Some (rc, s1)
           else map_option (\<lambda>s2. (0, s2)) (zstore_tx_execute tx rcs (zstore_tx_enqueue tx s1))))"

section \<open>Steps\<close>

text \<open>
  What can happen: the client submits an operation, the device completes a request, the
  thread delivers a message.
\<close>

inductive zy_step :: "zsys \<Rightarrow> zsys \<Rightarrow> bool" where
  zy_call: "zstore_obj_async_op_call garbage op meta rcs s = Some (rc, s') \<Longrightarrow> zy_step s s'"
| zy_bio: "(tid, b) \<in> set (zy_ios s) \<Longrightarrow>
    zstore_bio_cb True tid (s\<lparr> zy_ios := remove1 (tid, b) (zy_ios s) \<rparr>) = Some s' \<Longrightarrow> zy_step s s'"
| zy_msg: "zy_msgs s = msg # msgs \<Longrightarrow> s' = zstore_user_cb msg (s\<lparr> zy_msgs := msgs \<rparr>) \<Longrightarrow> zy_step s s'"

definition zy_start :: "zstore \<Rightarrow> memory \<Rightarrow> zsys" where
  "zy_start zs m = \<lparr> zy_zs = zs, zy_mem = m, zy_list = [], zy_rdlist = [], zy_out = 0, zy_rdout = 0,
     zy_ios = [], zy_msgs = [], zy_cbs = [], zy_commits = [] \<rparr>"

inductive zy_reach :: "zsys \<Rightarrow> zsys \<Rightarrow> bool" for s0 where
  reach_start: "zy_reach s0 s0"
| reach_step: "zy_reach s0 s \<Longrightarrow> zy_step s s' \<Longrightarrow> zy_reach s0 s'"

end
