(* ===== verification/Zstore_Tx_Correct.thy ===== *)
theory Zstore_Tx_Correct
  imports Zstore_Tx
begin

text \<open>
  Invariants of the transaction queue: the counters, the order of commits, and that every
  transaction ends exactly once.
\<close>

section \<open>What preparing yields\<close>

definition w_ok :: "zstore_tx \<Rightarrow> bool" where
  "w_ok t \<longleftrightarrow> tx_type t = TX_WRITE \<and> tx_pm t \<noteq> None \<and>
     (tx_state t = DATA_IO \<and> 0 < tx_bio_outstanding t \<or> tx_state t = PM_TX \<and> tx_bio_outstanding t = 0)"

definition r_ok :: "zstore_tx \<Rightarrow> bool" where
  "r_ok t \<longleftrightarrow> tx_type t = TX_RDONLY \<and> tx_state t = DATA_IO \<and> 0 < tx_bio_outstanding t"

definition tx_ready :: "zstore_tx \<Rightarrow> bool" where
  "tx_ready t \<longleftrightarrow> (w_ok t \<or> r_ok t) \<and> tx_bio_outstanding t = length (tx_bios t)"

lemma prep_write_ready:
  assumes "tx_prep_write zs tx m g a oe e = Prep_rc 0 zs' tx' m'" and "0 < rw_len a div 2 ^ 12"
  shows "tx_ready tx' \<and> tx_tid tx' = tx_tid tx \<and> zs_tid_max zs' = zs_tid_max zs"
proof -
  obtain enew pm where e: "length (dib_update enew) = rw_len a div 2 ^ 12"
    and t: "tx' = tx\<lparr> tx_type := TX_WRITE, tx_state := DATA_IO, tx_bios := write_bios zs enew e,
      tx_bio_outstanding := length (write_bios zs enew e), tx_pm := Some pm \<rparr>"
    and z: "zs_tid_max zs' = zs_tid_max zs"
    using assms(1)
    by (auto simp: tx_prep_write_def Let_def split: if_splits option.splits prod.splits bool.splits)
  have "enew \<noteq> []" using e assms(2) by (auto simp: dib_update_def)
  then have "0 < length (write_bios zs enew e)" by (simp add: write_bios_def)
  with t z show ?thesis by (simp add: tx_ready_def w_ok_def)
qed

lemma prep_rw_ready:
  assumes "tx_prep_rw_common zs tx m g op meta = Prep_rc 0 zs' tx' m'" and "tx_pm tx = None"
  shows "tx_ready tx' \<and> tx_tid tx' = tx_tid tx \<and> zs_tid_max zs' = zs_tid_max zs"
proof -
  define a where "a = op_rw_decode meta"
  have len: "rw_len a \<noteq> 0" "rw_len a mod 4096 = 0"
    using assms(1) by (auto simp: tx_prep_rw_common_def Let_def a_def ZSTORE_PAGE_SIZE_def split: if_splits)
  have "rw_len a = rw_len a div 4096 * 4096 + rw_len a mod 4096" by simp
  with len have pos: "0 < rw_len a div 2 ^ 12" by (cases "rw_len a div 4096") simp_all
  consider oe e where "tx_prep_write zs tx m g a oe e = Prep_rc 0 zs' tx' m'"
    | e mb where "tx_prep_read zs tx m a e mb = Prep_rc 0 zs' tx' m'"
    using assms(1)
    by (auto simp: tx_prep_rw_common_def Let_def a_def split: if_splits option.splits prod.splits)
  then show ?thesis
  proof cases
    case 1
    from prep_write_ready [OF this pos] show ?thesis .
  next
    case 2
    then show ?thesis
      by (auto simp: tx_prep_read_def tx_ready_def r_ok_def read_bios_def split: if_splits)
  qed
qed

lemma prep_cre_del_ready:
  assumes "tx_prep_cre_del_common zs tx m g op meta = Prep_rc 0 zs' tx' m'"
    and "tx_bios tx = []" and "tx_bio_outstanding tx = 0"
  shows "tx_ready tx' \<and> tx_tid tx' = tx_tid tx \<and> zs_tid_max zs' = zs_tid_max zs"
  using assms
  by (auto simp: tx_prep_cre_del_common_def Let_def tx_ready_def w_ok_def split: if_splits option.splits prod.splits)

lemma prepare_ready:
  assumes "zstore_tx_prepare zs m g op meta = Prep_rc 0 zs' tx' m'"
  shows "tx_ready tx'" and "tx_tid tx' = zs_tid_max zs" and "zs_tid_max zs' = Suc (zs_tid_max zs)"
proof -
  let ?zs1 = "zs\<lparr> zs_tid_max := zs_tid_max zs + 1 \<rparr>" and ?tx = "tx_init (zs_tid_max zs)"
  have "tx_ready tx' \<and> tx_tid tx' = tx_tid ?tx \<and> zs_tid_max zs' = zs_tid_max ?zs1"
  proof (cases "op = msg_oss_op_create \<or> op = msg_oss_op_delete")
    case True
    then have "tx_prep_cre_del_common ?zs1 ?tx m g op meta = Prep_rc 0 zs' tx' m'"
      using assms by (simp add: zstore_tx_prepare_def Let_def)
    from prep_cre_del_ready [OF this] show ?thesis by (simp add: tx_init_def)
  next
    case False
    then have "tx_prep_rw_common ?zs1 ?tx m g op meta = Prep_rc 0 zs' tx' m'"
      using assms by (auto simp: zstore_tx_prepare_def Let_def split: if_splits)
    from prep_rw_ready [OF this] show ?thesis by (simp add: tx_init_def)
  qed
  then show "tx_ready tx'" "tx_tid tx' = zs_tid_max zs" "zs_tid_max zs' = Suc (zs_tid_max zs)"
    by (simp_all add: tx_init_def)
qed

lemma prepare_tid_max:
  assumes "zstore_tx_prepare zs m g op meta = Prep_rc rc zs' tx' m'"
  shows "zs_tid_max zs' = Suc (zs_tid_max zs)"
  using assms
  by (auto simp: zstore_tx_prepare_def Let_def tx_prep_cre_del_common_def tx_prep_rw_common_def tx_prep_read_def
      tx_prep_write_def split: if_splits option.splits prod.splits bool.splits)

section \<open>The invariant\<close>

definition ios_of :: "nat \<Rightarrow> (nat \<times> bio) list \<Rightarrow> nat" where
  "ios_of tid ios = length (filter (\<lambda>p. fst p = tid) ios)"

lemma ios_of_simps [simp]:
  "ios_of tid [] = 0" "ios_of tid ((t, b) # ios) = (if t = tid then 1 else 0) + ios_of tid ios"
  "ios_of tid (ios @ ios') = ios_of tid ios + ios_of tid ios'"
  by (simp_all add: ios_of_def)

lemma ios_of_pos: "(t, b) \<in> set ios \<Longrightarrow> 0 < ios_of t ios"
  by (induction ios) auto

lemma ios_of_remove1:
  "(t, b) \<in> set ios \<Longrightarrow> ios_of tid (remove1 (t, b) ios) = (if t = tid then ios_of tid ios - 1 else ios_of tid ios)"
proof (induction ios)
  case (Cons p ios)
  obtain u c where p: "p = (u, c)" by fastforce
  show ?case
  proof (cases "p = (t, b)")
    case False
    then have m: "(t, b) \<in> set ios" using Cons.prems by auto
    show ?thesis using Cons.IH [OF m] ios_of_pos [OF m] False by (auto simp: p)
  qed simp
qed simp

lemma ios_of_zero: "t \<notin> fst ` set ios \<Longrightarrow> ios_of t ios = 0"
  by (auto simp: ios_of_def filter_empty_conv)

definition zy_txs :: "zsys \<Rightarrow> zstore_tx list" where
  "zy_txs s = zy_list s @ zy_rdlist s"

definition zy_ended :: "zsys \<Rightarrow> nat list" where
  "zy_ended s = map fst (zy_msgs s @ zy_cbs s)"

text \<open>
  The part that holds inside the commit loop too: the counters are the lengths of the
  queues; the queue of writes is in the order of submission; every transaction is in
  one place; a write in state \<open>DATA_IO\<close> waits for device requests, one in \<open>PM_TX\<close> for
  none; the device holds no more requests of a transaction than it waits for; the commits
  are in order, before what is queued, and ended.
\<close>

definition zy_pre :: "zsys \<Rightarrow> bool" where
  "zy_pre s \<longleftrightarrow>
     zy_out s = int (length (zy_list s)) \<and> zy_rdout s = int (length (zy_rdlist s)) \<and>
     sorted_wrt (<) (map tx_tid (zy_list s)) \<and>
     distinct (map tx_tid (zy_txs s)) \<and> distinct (zy_ended s) \<and>
     tx_tid ` set (zy_txs s) \<inter> set (zy_ended s) = {} \<and>
     (\<forall>tid \<in> tx_tid ` set (zy_txs s) \<union> set (zy_ended s). tid < zs_tid_max (zy_zs s)) \<and>
     list_all w_ok (zy_list s) \<and> list_all r_ok (zy_rdlist s) \<and>
     (\<forall>t \<in> set (zy_txs s). ios_of (tx_tid t) (zy_ios s) \<le> tx_bio_outstanding t) \<and>
     fst ` set (zy_ios s) \<subseteq> tx_tid ` set (zy_txs s) \<and>
     sorted_wrt (<) (zy_commits s) \<and> set (zy_commits s) \<subseteq> set (zy_ended s) \<and>
     (\<forall>c \<in> set (zy_commits s). \<forall>t \<in> set (zy_list s). c < tx_tid t)"

definition head_waits :: "zsys \<Rightarrow> bool" where
  "head_waits s \<longleftrightarrow> (case zy_list s of [] \<Rightarrow> True | t # q \<Rightarrow> tx_state t \<noteq> PM_TX)"

definition zy_inv :: "zsys \<Rightarrow> bool" where
  "zy_inv s \<longleftrightarrow> zy_pre s \<and> head_waits s"

lemma zy_start_inv: "zy_inv (zy_start zs m)"
  by (simp add: zy_inv_def zy_pre_def head_waits_def zy_start_def zy_txs_def zy_ended_def)

section \<open>The commit loop\<close>

lemma tx_remove_head:
  "sorted_wrt (<) (map tx_tid (t # q)) \<Longrightarrow> tx_remove (tx_tid t) (t # q) = q"
  by (auto simp: tx_remove_def intro!: filter_True)

lemma zy_pre_parts:
  assumes "zy_pre s"
  shows "zy_out s = int (length (zy_list s))" "zy_rdout s = int (length (zy_rdlist s))"
    "sorted_wrt (<) (map tx_tid (zy_list s))" "distinct (map tx_tid (zy_txs s))" "distinct (zy_ended s)"
    "tx_tid ` set (zy_txs s) \<inter> set (zy_ended s) = {}"
    "\<forall>tid \<in> tx_tid ` set (zy_txs s) \<union> set (zy_ended s). tid < zs_tid_max (zy_zs s)"
    "list_all w_ok (zy_list s)" "list_all r_ok (zy_rdlist s)"
    "\<forall>t \<in> set (zy_txs s). ios_of (tx_tid t) (zy_ios s) \<le> tx_bio_outstanding t"
    "fst ` set (zy_ios s) \<subseteq> tx_tid ` set (zy_txs s)"
    "sorted_wrt (<) (zy_commits s)" "set (zy_commits s) \<subseteq> set (zy_ended s)"
    "\<forall>c \<in> set (zy_commits s). \<forall>t \<in> set (zy_list s). c < tx_tid t"
  using assms [unfolded zy_pre_def] by blast+

text \<open>One turn of the loop, as a change of the state.\<close>

definition commit_one :: "zstore_tx \<Rightarrow> zstore_tx list \<Rightarrow> memory \<Rightarrow> memory \<Rightarrow> zsys \<Rightarrow> zsys" where
  "commit_one t q mem dram s = zstore_tx_end (t\<lparr> tx_err := OSTORE_EXECUTE_OK \<rparr>)
     (s\<lparr> zy_mem := mem, zy_zs := (zy_zs s)\<lparr> zs_dram := dram \<rparr>, zy_commits := zy_commits s @ [tx_tid t] \<rparr>)"

lemma ended_snoc:
  "zs = xs @ x # ys \<or> zs = xs @ ys @ [x] \<Longrightarrow>
     set zs = insert x (set (xs @ ys)) \<and> (distinct zs \<longleftrightarrow> distinct (xs @ ys) \<and> x \<notin> set (xs @ ys))"
  by auto

lemma tx_end_ended:
  "set (zy_ended (zstore_tx_end t s)) = insert (tx_tid t) (set (zy_ended s)) \<and>
   (distinct (zy_ended (zstore_tx_end t s)) \<longleftrightarrow> distinct (zy_ended s) \<and> tx_tid t \<notin> set (zy_ended s))"
proof -
  have "zy_ended (zstore_tx_end t s) = map fst (zy_msgs s) @ tx_tid t # map fst (zy_cbs s) \<or>
      zy_ended (zstore_tx_end t s) = map fst (zy_msgs s) @ map fst (zy_cbs s) @ [tx_tid t]"
    by (simp add: zstore_tx_end_def Let_def zstore_user_cb_def zy_ended_def)
  from ended_snoc [OF this] show ?thesis by (simp add: zy_ended_def)
qed

lemma commit_one_fields:
  fixes mem dram
  assumes "zy_pre s" and "zy_list s = t # q"
  defines "s' \<equiv> commit_one t q mem dram s"
  shows "zy_list s' = q" "zy_rdlist s' = zy_rdlist s" "zy_out s' = zy_out s - 1" "zy_rdout s' = zy_rdout s"
    "zy_ios s' = zy_ios s" "zs_tid_max (zy_zs s') = zs_tid_max (zy_zs s)" "zy_commits s' = zy_commits s @ [tx_tid t]"
    "set (zy_ended s') = insert (tx_tid t) (set (zy_ended s))"
    "distinct (zy_ended s') \<longleftrightarrow> distinct (zy_ended s) \<and> tx_tid t \<notin> set (zy_ended s)"
proof -
  have w: "tx_type t = TX_WRITE" using zy_pre_parts(8) [OF assms(1)] by (simp add: assms(2) w_ok_def)
  have r: "tx_remove (tx_tid t) (t # q) = q"
    by (rule tx_remove_head) (use zy_pre_parts(3) [OF assms(1)] in \<open>simp add: assms(2)\<close>)
  show "zy_list s' = q" "zy_rdlist s' = zy_rdlist s" "zy_out s' = zy_out s - 1" "zy_rdout s' = zy_rdout s"
    "zy_ios s' = zy_ios s" "zs_tid_max (zy_zs s') = zs_tid_max (zy_zs s)" "zy_commits s' = zy_commits s @ [tx_tid t]"
    using w r assms(2)
    by (simp_all add: s'_def commit_one_def zstore_tx_end_def Let_def zstore_user_cb_def)
  show "set (zy_ended s') = insert (tx_tid t) (set (zy_ended s))"
    "distinct (zy_ended s') \<longleftrightarrow> distinct (zy_ended s) \<and> tx_tid t \<notin> set (zy_ended s)"
    unfolding s'_def commit_one_def by (simp_all add: tx_end_ended) (simp_all add: zy_ended_def)
qed

lemma commit_one_pre:
  assumes "zy_pre s" and "zy_list s = t # q" and "tx_state t = PM_TX"
  shows "zy_pre (commit_one t q mem dram s)"
proof -
  let ?s = "commit_one t q mem dram s"
  note p = zy_pre_parts [OF assms(1)] and f = commit_one_fields [OF assms(1,2), of mem dram]
  have ts: "zy_txs s = t # zy_txs ?s" by (simp add: zy_txs_def f assms(2))
  have nt: "tx_tid t \<notin> tx_tid ` set (zy_txs ?s)" using p(4) by (simp add: ts)
  have ne: "tx_tid t \<notin> set (zy_ended s)" using p(6) by (auto simp: ts)
  have "tx_bio_outstanding t = 0" using p(8) assms(3) by (simp add: assms(2) w_ok_def)
  then have "ios_of (tx_tid t) (zy_ios s) = 0" using p(10) by (simp add: ts)
  then have ni: "tx_tid t \<notin> fst ` set (zy_ios s)" using ios_of_pos by fastforce
  have lt: "\<forall>u \<in> set q. tx_tid t < tx_tid u" using p(3) by (simp add: assms(2))
  have 1: "zy_out ?s = int (length (zy_list ?s))" "zy_rdout ?s = int (length (zy_rdlist ?s))"
    using p(1,2) by (simp_all add: f assms(2))
  have 2: "sorted_wrt (<) (map tx_tid (zy_list ?s))" using p(3) by (simp add: f assms(2))
  have 3: "distinct (map tx_tid (zy_txs ?s))" using p(4) by (simp add: ts)
  have 4: "distinct (zy_ended ?s)" using p(5) ne by (simp add: f)
  have 5: "tx_tid ` set (zy_txs ?s) \<inter> set (zy_ended ?s) = {}" using p(6) nt by (auto simp: f ts)
  have 6: "\<forall>tid \<in> tx_tid ` set (zy_txs ?s) \<union> set (zy_ended ?s). tid < zs_tid_max (zy_zs ?s)"
    using p(7) by (simp add: f ts)
  have 7: "list_all w_ok (zy_list ?s)" "list_all r_ok (zy_rdlist ?s)"
    using p(8,9) by (simp_all add: f assms(2))
  have 8: "\<forall>u \<in> set (zy_txs ?s). ios_of (tx_tid u) (zy_ios ?s) \<le> tx_bio_outstanding u"
    using p(10) by (simp add: f ts)
  have 9: "fst ` set (zy_ios ?s) \<subseteq> tx_tid ` set (zy_txs ?s)" using p(11) ni by (simp add: f ts subset_insert)
  have c: "\<forall>c \<in> set (zy_commits s). c < tx_tid t" using p(14) by (simp add: assms(2))
  have 10: "sorted_wrt (<) (zy_commits ?s)" using p(12) c by (simp add: f sorted_wrt_append)
  have 11: "set (zy_commits ?s) \<subseteq> set (zy_ended ?s)" using p(13) by (auto simp: f)
  have 12: "\<forall>c \<in> set (zy_commits ?s). \<forall>u \<in> set (zy_list ?s). c < tx_tid u"
    using p(14) lt by (auto simp: f assms(2))
  show ?thesis unfolding zy_pre_def using 1 2 3 4 5 6 7 8 9 10 11 12 by blast
qed

lemma commit_loop_inv:
  "tx_commit_loop q s = Some s' \<Longrightarrow> zy_pre s \<Longrightarrow> zy_list s = q \<Longrightarrow> zy_inv s'"
proof (induction q arbitrary: s)
  case Nil
  then show ?case by (simp add: zy_inv_def head_waits_def)
next
  case (Cons t q)
  show ?case
  proof (cases "tx_state t = PM_TX")
    case False
    then show ?thesis using Cons.prems by (simp add: zy_inv_def head_waits_def)
  next
    case True
    obtain pm ops pm' dram' where l: "tx_commit_loop q (commit_one t q (pm_run ops (zy_mem s)) dram' s) = Some s'"
      using Cons.prems(1) True by (auto simp: commit_one_def split: option.splits prod.splits)
    show ?thesis
      by (rule Cons.IH [OF l commit_one_pre [OF Cons.prems(2,3) True]])
        (rule commit_one_fields(1) [OF Cons.prems(2,3)])
  qed
qed

section \<open>Changing one transaction\<close>

lemma tx_change_tids [simp]: "map tx_tid (tx_change t q) = map tx_tid q"
  by (auto simp: tx_change_def)

lemma tx_change_tid_set: "tx_tid ` set (tx_change t q) = tx_tid ` set q"
  using arg_cong [OF tx_change_tids [of t q], of set] by (simp only: set_map)

lemma tx_change_length [simp]: "length (tx_change t q) = length q"
  by (simp add: tx_change_def)

lemma tx_change_mem: "u \<in> set (tx_change t q) \<Longrightarrow> u = t \<and> (\<exists>v \<in> set q. tx_tid v = tx_tid t) \<or> u \<in> set q \<and> tx_tid u \<noteq> tx_tid t"
  by (auto simp: tx_change_def split: if_splits)

lemma tx_change_other: "tx_tid t \<notin> tx_tid ` set q \<Longrightarrow> tx_change t q = q"
  by (induction q) (auto simp: tx_change_def)

lemma tx_change_twice: "tx_tid t' = tx_tid t \<Longrightarrow> tx_change t' (tx_change t q) = tx_change t' q"
  by (auto simp: tx_change_def)

lemma tx_store_fields [simp]:
  "zy_list (tx_store t s) = tx_change t (zy_list s)" "zy_rdlist (tx_store t s) = tx_change t (zy_rdlist s)"
  "zy_out (tx_store t s) = zy_out s" "zy_rdout (tx_store t s) = zy_rdout s" "zy_ios (tx_store t s) = zy_ios s"
  "zy_zs (tx_store t s) = zy_zs s" "zy_commits (tx_store t s) = zy_commits s" "zy_ended (tx_store t s) = zy_ended s"
  "zy_txs (tx_store t s) = tx_change t (zy_txs s)"
  by (simp_all add: tx_store_def zy_ended_def zy_txs_def tx_change_def)

lemma list_all_change:
  "list_all P q \<Longrightarrow> (tx_tid t \<in> tx_tid ` set q \<Longrightarrow> P t) \<Longrightarrow> list_all P (tx_change t q)"
  unfolding list_all_iff using tx_change_mem [of _ t q] by (metis imageI)

lemma zy_ios_frame [simp]:
  "zy_ended (s\<lparr> zy_ios := ios \<rparr>) = zy_ended s" "zy_txs (s\<lparr> zy_ios := ios \<rparr>) = zy_txs s"
  by (simp_all add: zy_ended_def zy_txs_def)

text \<open>Storing a changed transaction while the requests at the device change.\<close>

lemma store_pre:
  assumes "zy_pre s" and "tx_tid t \<in> tx_tid ` set (zy_list s) \<Longrightarrow> w_ok t"
    and "tx_tid t \<in> tx_tid ` set (zy_rdlist s) \<Longrightarrow> r_ok t"
    and "fst ` set ios \<subseteq> fst ` set (zy_ios s)"
    and "\<And>u. u \<noteq> tx_tid t \<Longrightarrow> ios_of u ios \<le> ios_of u (zy_ios s)"
    and "ios_of (tx_tid t) ios \<le> tx_bio_outstanding t"
  shows "zy_pre (tx_store t (s\<lparr> zy_ios := ios \<rparr>))"
proof -
  let ?s = "tx_store t (s\<lparr> zy_ios := ios \<rparr>)"
  note p = zy_pre_parts [OF assms(1)]
  have tids: "tx_tid ` set (zy_txs ?s) = tx_tid ` set (zy_txs s)" by (simp add: tx_change_tid_set)
  have 1: "list_all w_ok (zy_list ?s)" "list_all r_ok (zy_rdlist ?s)"
    using p(8,9) assms(2,3) by (simp_all add: list_all_change)
  have 2: "\<forall>u \<in> set (zy_txs ?s). ios_of (tx_tid u) (zy_ios ?s) \<le> tx_bio_outstanding u"
  proof
    fix u assume "u \<in> set (zy_txs ?s)"
    then have "u = t \<or> u \<in> set (zy_txs s) \<and> tx_tid u \<noteq> tx_tid t"
      using tx_change_mem [of u t "zy_txs s"] by auto
    then show "ios_of (tx_tid u) (zy_ios ?s) \<le> tx_bio_outstanding u"
      using assms(5) [of "tx_tid u"] assms(6) p(10) by fastforce
  qed
  have 3: "\<forall>c \<in> set (zy_commits ?s). \<forall>u \<in> set (zy_list ?s). c < tx_tid u"
  proof (intro ballI)
    fix c u assume "c \<in> set (zy_commits ?s)" and "u \<in> set (zy_list ?s)"
    then have "c \<in> set (zy_commits s)" "tx_tid u \<in> tx_tid ` set (zy_list s)"
      using tx_change_tid_set [of t "zy_list s"] by auto
    with p(14) show "c < tx_tid u" by auto
  qed
  have 4: "fst ` set (zy_ios ?s) \<subseteq> tx_tid ` set (zy_txs s)" using assms(4) p(11) by simp
  have 5: "sorted_wrt (<) (map tx_tid (zy_list ?s))" using p(3) by simp
  have 6: "distinct (map tx_tid (zy_txs ?s))" using p(4) by simp
  have 7: "zy_ended ?s = zy_ended s" by simp
  have 8: "zy_out ?s = int (length (zy_list ?s))" "zy_rdout ?s = int (length (zy_rdlist ?s))"
    "zy_commits ?s = zy_commits s" "zy_zs ?s = zy_zs s"
    using p(1,2) by simp_all
  show ?thesis
    unfolding zy_pre_def tids 7 using p 1 2 3 4 5 6 8 by (simp only: simp_thms)
qed

lemma find_tx:
  assumes "tx_find tid s = Some t"
  shows "t \<in> set (zy_txs s)" and "tx_tid t = tid"
proof -
  obtain i where i: "i < length (zy_txs s)" "tx_tid (zy_txs s ! i) = tid" "t = zy_txs s ! i"
    using assms by (auto simp: tx_find_def find_Some_iff simp flip: zy_txs_def)
  then show "t \<in> set (zy_txs s)" "tx_tid t = tid" by simp_all
qed

lemma tx_unique:
  assumes "zy_pre s" and "t \<in> set (zy_txs s)" and "u \<in> set (zy_txs s)" and "tx_tid t = tx_tid u"
  shows "t = u"
  using zy_pre_parts(4) [OF assms(1)] assms(2-4) by (auto simp: distinct_map inj_on_def)

section \<open>Steps preserve the invariant\<close>

text \<open>Removing a read that is done: what the queues are afterwards, and that the invariant holds.\<close>

lemma remove_change: "tx_remove (tx_tid t) (tx_change t q) = tx_remove (tx_tid t) q"
  by (induction q) (auto simp: tx_remove_def tx_change_def)

lemma remove_absent: "tid \<notin> tx_tid ` set q \<Longrightarrow> tx_remove tid q = q"
  by (induction q) (auto simp: tx_remove_def)

lemma remove_length: "distinct (map tx_tid q) \<Longrightarrow> t \<in> set q \<Longrightarrow> length (tx_remove (tx_tid t) q) + 1 = length q"
proof (induction q)
  case (Cons u q)
  show ?case
  proof (cases "t = u")
    case True
    then show ?thesis using Cons.prems(1) remove_absent [of "tx_tid u" q] by (simp add: tx_remove_def)
  next
    case False
    then have "t \<in> set q" "tx_tid u \<noteq> tx_tid t" using Cons.prems by auto
    then show ?thesis using Cons.IH Cons.prems(1) by (simp add: tx_remove_def)
  qed
qed simp

lemma end_read_fields:
  fixes s :: zsys and ios :: "(nat \<times> bio) list"
  assumes "zy_pre s" and "t \<in> set (zy_rdlist s)" and "tx_tid t' = tx_tid t" and "tx_type t' = TX_RDONLY"
  defines "s' \<equiv> zstore_tx_end t' (tx_store t' (s\<lparr> zy_ios := ios \<rparr>))"
  shows "zy_list s' = zy_list s" and "zy_txs s' = tx_remove (tx_tid t) (zy_txs s)"
    and "zy_rdlist s' = tx_remove (tx_tid t) (zy_rdlist s)"
    and "zy_out s' = zy_out s" and "zy_rdout s' = zy_rdout s - 1" and "zy_ios s' = ios" and "zy_zs s' = zy_zs s"
    and "zy_commits s' = zy_commits s"
    and "set (zy_ended s') = insert (tx_tid t) (set (zy_ended s))"
    and "distinct (zy_ended s') \<longleftrightarrow> distinct (zy_ended s) \<and> tx_tid t \<notin> set (zy_ended s)"
proof -
  have nl: "tx_tid t' \<notin> tx_tid ` set (zy_list s)"
    using zy_pre_parts(4) [OF assms(1)] assms(2,3) by (auto simp: zy_txs_def)
  show l: "zy_list s' = zy_list s"
    using tx_change_other [OF nl] assms(4) by (simp add: s'_def zstore_tx_end_def Let_def zstore_user_cb_def)
  show r: "zy_rdlist s' = tx_remove (tx_tid t) (zy_rdlist s)"
    using assms(4) remove_change [of t'] by (simp add: s'_def zstore_tx_end_def Let_def zstore_user_cb_def flip: assms(3))
  show "zy_txs s' = tx_remove (tx_tid t) (zy_txs s)"
    using remove_absent [OF nl] by (simp add: zy_txs_def l r assms(3) tx_remove_def)
  show "zy_out s' = zy_out s" "zy_rdout s' = zy_rdout s - 1" "zy_ios s' = ios" "zy_zs s' = zy_zs s"
    "zy_commits s' = zy_commits s"
    using assms(4) by (simp_all add: s'_def zstore_tx_end_def Let_def zstore_user_cb_def)
  show "set (zy_ended s') = insert (tx_tid t) (set (zy_ended s))"
    "distinct (zy_ended s') \<longleftrightarrow> distinct (zy_ended s) \<and> tx_tid t \<notin> set (zy_ended s)"
    unfolding s'_def using tx_end_ended [of t' "tx_store t' (s\<lparr> zy_ios := ios \<rparr>)"]
    by (simp_all only: tx_store_fields zy_ios_frame assms(3))
qed

lemma end_read_inv:
  assumes "zy_inv s" and "t \<in> set (zy_rdlist s)" and "tx_tid t' = tx_tid t" and "tx_type t' = TX_RDONLY"
    and "fst ` set ios \<subseteq> fst ` set (zy_ios s) - {tx_tid t}" and "\<And>u. ios_of u ios \<le> ios_of u (zy_ios s)"
  shows "zy_inv (zstore_tx_end t' (tx_store t' (s\<lparr> zy_ios := ios \<rparr>)))"
proof -
  let ?s = "zstore_tx_end t' (tx_store t' (s\<lparr> zy_ios := ios \<rparr>))"
  have pre: "zy_pre s" and hw: "head_waits s" using assms(1) by (simp_all add: zy_inv_def)
  note p = zy_pre_parts [OF pre] and f = end_read_fields [OF pre assms(2-4), of ios]
  have tin: "t \<in> set (zy_txs s)" using assms(2) by (simp add: zy_txs_def)
  have dr: "distinct (map tx_tid (zy_rdlist s))" using p(4) by (simp add: zy_txs_def)
  have txs: "set (zy_txs ?s) = set (zy_txs s) - {u. tx_tid u = tx_tid t}"
    unfolding f(2) by (auto simp: tx_remove_def)
  have tids: "tx_tid ` set (zy_txs ?s) = tx_tid ` set (zy_txs s) - {tx_tid t}" by (auto simp: txs)
  have ne: "tx_tid t \<notin> set (zy_ended s)" using p(6) tin by auto
  have 1: "zy_out ?s = int (length (zy_list ?s))" "zy_rdout ?s = int (length (zy_rdlist ?s))"
    using p(1,2) remove_length [OF dr assms(2)] by (simp_all add: f)
  have 2: "distinct (map tx_tid (zy_txs ?s))"
    unfolding f(2) using p(4) by (simp add: tx_remove_def distinct_map_filter)
  have 3: "distinct (zy_ended ?s)" "tx_tid ` set (zy_txs ?s) \<inter> set (zy_ended ?s) = {}"
    using p(5,6) ne by (auto simp: tids f(9,10))
  have 4: "\<forall>tid \<in> tx_tid ` set (zy_txs ?s) \<union> set (zy_ended ?s). tid < zs_tid_max (zy_zs ?s)"
    unfolding tids f(7,9) using p(7) tin by auto
  have 5: "list_all w_ok (zy_list ?s)" "list_all r_ok (zy_rdlist ?s)"
    using p(8,9) by (auto simp: f list_all_iff tx_remove_def)
  have 6: "\<forall>u \<in> set (zy_txs ?s). ios_of (tx_tid u) (zy_ios ?s) \<le> tx_bio_outstanding u"
    unfolding txs f(6) using p(10) assms(6) le_trans by blast
  have 7: "fst ` set (zy_ios ?s) \<subseteq> tx_tid ` set (zy_txs ?s)"
    using assms(5) p(11) unfolding f(6) tids by blast
  have "zy_pre ?s"
    unfolding zy_pre_def using 1 2 3 4 5 6 7 p(3,12,13,14) unfolding f(1,8,9) by blast
  moreover have "head_waits ?s" using hw by (simp add: head_waits_def f)
  ultimately show ?thesis by (simp add: zy_inv_def)
qed

lemma metadata_write_inv:
  assumes "zy_pre s" and "t \<in> set (zy_list s)" and "tx_state t = PM_TX"
    and "head_waits s \<or> hd (zy_list s) = t"
    and "zstore_tx_metadata t s = Some s'"
  shows "zy_inv s'"
proof -
  note p = zy_pre_parts [OF assms(1)]
  have w: "w_ok t" using p(8) assms(2) by (simp add: list_all_iff)
  have tt: "tx_type t = TX_WRITE" "tx_bio_outstanding t = 0" using w assms(3) by (auto simp: w_ok_def)
  have st: "t\<lparr> tx_state := PM_TX \<rparr> = t" using assms(3) by simp
  have u: "u = t" if "u \<in> set (zy_txs s)" "tx_tid u = tx_tid t" for u
    by (rule tx_unique [OF assms(1) that(1) _ that(2)]) (use assms(2) in \<open>simp add: zy_txs_def\<close>)
  have id: "tx_change t (zy_list s) = zy_list s" "tx_change t (zy_rdlist s) = zy_rdlist s"
    using u [symmetric] by (auto simp: tx_change_def zy_txs_def intro!: map_idI)
  have ss: "tx_store t s = s" by (simp add: tx_store_def id)
  have ne: "zy_list s \<noteq> []" using assms(2) by auto
  show ?thesis
  proof (cases "tx_tid (hd (zy_list s)) = tx_tid t")
    case True
    then have "tx_commit_loop (zy_list s) s = Some s'"
      using assms(5) tt ne by (simp add: zstore_tx_metadata_def st ss Let_def)
    from commit_loop_inv [OF this assms(1) refl] show ?thesis .
  next
    case False
    then have "head_waits s" using assms(4) by auto
    moreover have "s' = s" using assms(5) tt False by (simp add: zstore_tx_metadata_def st ss Let_def)
    ultimately show ?thesis using assms(1) by (simp add: zy_inv_def)
  qed
qed

text \<open>Which queue a transaction is in.\<close>

lemma tx_place:
  assumes "zy_pre s" and "t \<in> set (zy_txs s)"
  shows "tx_type t = TX_RDONLY \<longleftrightarrow> t \<in> set (zy_rdlist s)" and "tx_type t = TX_WRITE \<longleftrightarrow> t \<in> set (zy_list s)"
    and "tx_tid t \<in> tx_tid ` set (zy_list s) \<longleftrightarrow> t \<in> set (zy_list s)"
    and "tx_tid t \<in> tx_tid ` set (zy_rdlist s) \<longleftrightarrow> t \<in> set (zy_rdlist s)"
proof -
  note p = zy_pre_parts [OF assms(1)]
  show "tx_type t = TX_RDONLY \<longleftrightarrow> t \<in> set (zy_rdlist s)" "tx_type t = TX_WRITE \<longleftrightarrow> t \<in> set (zy_list s)"
    using assms(2) p(8,9) by (auto simp: zy_txs_def list_all_iff w_ok_def r_ok_def)
  show "tx_tid t \<in> tx_tid ` set (zy_list s) \<longleftrightarrow> t \<in> set (zy_list s)"
    "tx_tid t \<in> tx_tid ` set (zy_rdlist s) \<longleftrightarrow> t \<in> set (zy_rdlist s)"
    using tx_unique [OF assms(1) _ assms(2)] by (auto simp: zy_txs_def) blast+
qed

text \<open>A completion that is not the last one of its transaction, and one that is.\<close>

lemma bio_partial_inv:
  assumes "zy_inv s" and "t \<in> set (zy_txs s)" and "1 < tx_bio_outstanding t"
    and "fst ` set ios \<subseteq> fst ` set (zy_ios s)" and "\<And>u. ios_of u ios \<le> ios_of u (zy_ios s)"
    and "ios_of (tx_tid t) ios \<le> tx_bio_outstanding t - 1"
  shows "zy_inv (tx_store (t\<lparr> tx_bio_outstanding := tx_bio_outstanding t - 1 \<rparr>) (s\<lparr> zy_ios := ios \<rparr>))"
proof -
  let ?t = "t\<lparr> tx_bio_outstanding := tx_bio_outstanding t - 1 \<rparr>"
  have pre: "zy_pre s" and hw: "head_waits s" using assms(1) by (simp_all add: zy_inv_def)
  note p = zy_pre_parts [OF pre] and pl = tx_place [OF pre assms(2)]
  have st: "tx_state t = DATA_IO"
    using assms(2,3) p(8,9) by (auto simp: zy_txs_def list_all_iff w_ok_def r_ok_def)
  have w1: "w_ok ?t" if "t \<in> set (zy_list s)"
    using that p(8) st assms(3) by (auto simp: list_all_iff w_ok_def)
  have r1: "r_ok ?t" if "t \<in> set (zy_rdlist s)"
    using that p(9) st assms(3) by (auto simp: list_all_iff r_ok_def)
  have "zy_pre (tx_store ?t (s\<lparr> zy_ios := ios \<rparr>))"
    by (rule store_pre [OF pre]) (use w1 r1 pl(3,4) assms(4-6) in simp_all)
  moreover have "head_waits (tx_store ?t (s\<lparr> zy_ios := ios \<rparr>))"
    using hw st by (auto simp: head_waits_def tx_change_def split: list.splits)
  ultimately show ?thesis by (simp add: zy_inv_def)
qed

lemma bio_last_pre:
  assumes "zy_pre s" and "t \<in> set (zy_list s)"
    and "fst ` set ios \<subseteq> fst ` set (zy_ios s)" and "\<And>u. ios_of u ios \<le> ios_of u (zy_ios s)" and "ios_of (tx_tid t) ios = 0"
    and "t2 = t\<lparr> tx_bio_outstanding := 0, tx_state := PM_TX, tx_bios := [] \<rparr>"
  shows "zy_pre (tx_store t2 (s\<lparr> zy_ios := ios \<rparr>))" and "t2 \<in> set (zy_list (tx_store t2 (s\<lparr> zy_ios := ios \<rparr>)))"
    and "zy_rdlist (tx_store t2 (s\<lparr> zy_ios := ios \<rparr>)) = zy_rdlist s"
proof -
  have tin: "t \<in> set (zy_txs s)" using assms(2) by (simp add: zy_txs_def)
  note p = zy_pre_parts [OF assms(1)] and pl = tx_place [OF assms(1) tin]
  have t2: "tx_tid t2 = tx_tid t" "tx_state t2 = PM_TX" "tx_type t2 = tx_type t" "tx_pm t2 = tx_pm t"
    "tx_bio_outstanding t2 = 0" by (simp_all add: assms(6))
  have w2: "w_ok t2" using p(8) assms(2) pl(2) by (auto simp: list_all_iff w_ok_def t2)
  have nr: "tx_tid t2 \<notin> tx_tid ` set (zy_rdlist s)"
    unfolding t2(1) using p(4) assms(2) by (auto simp: zy_txs_def)
  show "zy_pre (tx_store t2 (s\<lparr> zy_ios := ios \<rparr>))"
    by (rule store_pre [OF assms(1)]) (use w2 nr t2 assms(3-5) in simp_all)
  show "t2 \<in> set (zy_list (tx_store t2 (s\<lparr> zy_ios := ios \<rparr>)))" using assms(2) t2(1) by (force simp: tx_change_def)
  show "zy_rdlist (tx_store t2 (s\<lparr> zy_ios := ios \<rparr>)) = zy_rdlist s" using tx_change_other [OF nr] by simp
qed

lemma bio_last_inv:
  assumes "zy_inv s" and "t \<in> set (zy_txs s)"
    and "fst ` set ios \<subseteq> fst ` set (zy_ios s)" and "\<And>u. ios_of u ios \<le> ios_of u (zy_ios s)" and "ios_of (tx_tid t) ios = 0"
    and "t2 = t\<lparr> tx_bio_outstanding := 0, tx_state := PM_TX, tx_bios := [] \<rparr>"
    and "zstore_tx_metadata t2 (tx_store t2 (s\<lparr> zy_ios := ios \<rparr>)) = Some s'"
  shows "zy_inv s'"
proof -
  let ?s = "tx_store t2 (s\<lparr> zy_ios := ios \<rparr>)"
  have pre: "zy_pre s" and hw: "head_waits s" using assms(1) by (simp_all add: zy_inv_def)
  note pl = tx_place [OF pre assms(2)]
  have t2: "tx_tid t2 = tx_tid t" "tx_state t2 = PM_TX" "tx_type t2 = tx_type t" "tx_bio_outstanding t2 = 0"
    by (simp_all add: assms(6))
  show ?thesis
  proof (cases "tx_type t = TX_RDONLY")
    case True
    have "tx_tid t \<notin> fst ` set ios" using assms(5) ios_of_pos by fastforce
    then have "zy_inv (zstore_tx_end t2 ?s)"
      using end_read_inv [OF assms(1), of t t2 ios] True pl(1) t2 assms(3,4) by auto
    then show ?thesis using assms(7) True by (simp add: zstore_tx_metadata_def t2)
  next
    case False
    then have wl: "t \<in> set (zy_list s)" using assms(2) pl by (auto simp: zy_txs_def)
    note lp = bio_last_pre [OF pre wl assms(3-6)]
    have hd2: "head_waits ?s \<or> hd (zy_list ?s) = t2"
      using hw by (auto simp: head_waits_def tx_change_def split: list.splits)
    show ?thesis by (rule metadata_write_inv [OF lp(1,2) t2(2) hd2 assms(7)])
  qed
qed

lemma bio_cb_inv:
  assumes "zy_inv s" and "(tid, b) \<in> set (zy_ios s)"
    and "zstore_bio_cb True tid (s\<lparr> zy_ios := remove1 (tid, b) (zy_ios s) \<rparr>) = Some s'"
  shows "zy_inv s'"
proof -
  let ?ios = "remove1 (tid, b) (zy_ios s)"
  let ?s0 = "s\<lparr> zy_ios := ?ios \<rparr>"
  have pre: "zy_pre s" using assms(1) by (simp add: zy_inv_def)
  obtain t where f: "tx_find tid ?s0 = Some t"
    using assms(3) by (auto simp: zstore_bio_cb_def split: option.splits)
  have t: "t \<in> set (zy_txs s)" "tx_tid t = tid" using find_tx [OF f] by simp_all
  have npos: "0 < ios_of tid (zy_ios s)" by (rule ios_of_pos [OF assms(2)])
  have nle: "ios_of tid (zy_ios s) \<le> tx_bio_outstanding t" using zy_pre_parts(10) [OF pre] t by auto
  have io1: "ios_of tid ?ios = ios_of tid (zy_ios s) - 1" using ios_of_remove1 [OF assms(2)] by simp
  have io2: "ios_of u ?ios \<le> ios_of u (zy_ios s)" for u using ios_of_remove1 [OF assms(2), of u] by simp
  have io3: "fst ` set ?ios \<subseteq> fst ` set (zy_ios s)" using set_remove1_subset [of "(tid, b)" "zy_ios s"] by auto
  show ?thesis
  proof (cases "tx_bio_outstanding t - 1 = 0")
    case False
    have le: "ios_of (tx_tid t) ?ios \<le> tx_bio_outstanding t - 1" using io1 npos nle t(2) by simp
    have gt: "1 < tx_bio_outstanding t" using False npos nle by linarith
    have "s' = tx_store (t\<lparr> tx_bio_outstanding := tx_bio_outstanding t - 1 \<rparr>) ?s0"
      using assms(3) False f by (simp add: zstore_bio_cb_def Let_def)
    with bio_partial_inv [OF assms(1) t(1) gt io3 io2 le] show ?thesis by simp
  next
    case True
    have n1: "tx_bio_outstanding t = 1" using True npos nle by linarith
    have z: "ios_of (tx_tid t) ?ios = 0" using io1 nle n1 t(2) by simp
    let ?t2 = "t\<lparr> tx_bio_outstanding := 0, tx_state := PM_TX, tx_bios := [] \<rparr>"
    have "zstore_tx_metadata ?t2 (tx_store ?t2 ?s0) = Some s'"
      using assms(3) True f by (simp add: zstore_bio_cb_def Let_def zstore_tx_execute_def)
    from bio_last_inv [OF assms(1) t(1) io3 io2 z refl this] show ?thesis .
  qed
qed

lemma data_bio_ios:
  "\<exists>k \<le> length bs. snd (zstore_tx_data_bio tid bs rcs ios) = ios @ map (Pair tid) (take k bs)"
proof (induction tid bs rcs ios rule: zstore_tx_data_bio.induct)
  case (2 tid b bs rcs ios)
  show ?case
  proof (cases rcs)
    case Nil
    then obtain k where "k \<le> length bs"
      "snd (zstore_tx_data_bio tid bs [] (ios @ [(tid, b)])) = (ios @ [(tid, b)]) @ map (Pair tid) (take k bs)"
      using 2(1) by blast
    then show ?thesis by (intro exI [of _ "Suc k"]) (simp add: Nil)
  next
    case (Cons rc rcs')
    show ?thesis
    proof (cases "rc = 0")
      case True
      then obtain k where "k \<le> length bs"
        "snd (zstore_tx_data_bio tid bs rcs' (ios @ [(tid, b)])) = (ios @ [(tid, b)]) @ map (Pair tid) (take k bs)"
        using 2(2) [OF Cons] by auto
      then show ?thesis by (intro exI [of _ "Suc k"]) (simp add: Cons True)
    next
      case False
      then show ?thesis by (intro exI [of _ 0]) (simp add: Cons)
    qed
  qed
qed simp

lemma ios_of_pairs: "ios_of u (map (Pair tid) bs) = (if u = tid then length bs else 0)"
  by (induction bs) auto

lemma zy_pre_raise:
  assumes "zy_pre s" and "zs_tid_max (zy_zs s) \<le> zs_tid_max zs"
  shows "zy_pre (s\<lparr> zy_zs := zs, zy_mem := m \<rparr>)"
proof -
  have e: "zy_txs (s\<lparr> zy_zs := zs, zy_mem := m \<rparr>) = zy_txs s" "zy_ended (s\<lparr> zy_zs := zs, zy_mem := m \<rparr>) = zy_ended s"
    by (simp_all add: zy_txs_def zy_ended_def)
  note p = zy_pre_parts [OF assms(1)]
  have "\<forall>tid \<in> tx_tid ` set (zy_txs s) \<union> set (zy_ended s). tid < zs_tid_max zs"
    using p(7) assms(2) by (meson less_le_trans)
  with p show ?thesis unfolding zy_pre_def e by simp
qed

text \<open>The number of a new transaction is new.\<close>

lemma fresh_tx:
  assumes "zy_pre s" and "zstore_tx_prepare (zy_zs s) (zy_mem s) g op meta = Prep_rc 0 zs tx m"
  shows "\<forall>t \<in> tx_tid ` set (zy_txs s) \<union> set (zy_ended s). t < tx_tid tx"
    and "tx_tid tx \<notin> tx_tid ` set (zy_txs s)" and "tx_tid tx \<notin> set (zy_ended s)"
    and "tx_tid tx \<notin> fst ` set (zy_ios s)" and "ios_of (tx_tid tx) (zy_ios s) = 0"
proof -
  note p = zy_pre_parts [OF assms(1)]
  show lt: "\<forall>t \<in> tx_tid ` set (zy_txs s) \<union> set (zy_ended s). t < tx_tid tx"
    using p(7) prepare_ready(2) [OF assms(2)] by simp
  then show nt: "tx_tid tx \<notin> tx_tid ` set (zy_txs s)" and "tx_tid tx \<notin> set (zy_ended s)" by blast+
  show nio: "tx_tid tx \<notin> fst ` set (zy_ios s)" using p(11) nt by blast
  show "ios_of (tx_tid tx) (zy_ios s) = 0" by (rule ios_of_zero [OF nio])
qed

lemma enqueue_pre:
  assumes "zy_pre s" and "zstore_tx_prepare (zy_zs s) (zy_mem s) g op meta = Prep_rc 0 zs tx m"
  shows "zy_pre (zstore_tx_enqueue tx (s\<lparr> zy_zs := zs, zy_mem := m \<rparr>))"
proof -
  let ?s1 = "s\<lparr> zy_zs := zs, zy_mem := m \<rparr>"
  let ?s2 = "zstore_tx_enqueue tx ?s1"
  have tm: "zs_tid_max zs = Suc (zs_tid_max (zy_zs s))" by (rule prepare_tid_max [OF assms(2)])
  have pre1: "zy_pre ?s1" by (rule zy_pre_raise [OF assms(1)]) (simp add: tm)
  note rd = prepare_ready [OF assms(2)]
  note p = zy_pre_parts [OF assms(1)]
  note tid = fresh_tx(1) [OF assms] and fresh = fresh_tx(2,3) [OF assms] and io0 = fresh_tx(5) [OF assms]
  have txs2: "set (zy_txs ?s2) = insert tx (set (zy_txs s))"
    by (auto simp: zy_txs_def zstore_tx_enqueue_def)
  have en2: "zy_ended ?s2 = zy_ended s" by (simp add: zy_ended_def zstore_tx_enqueue_def)
  have l2: "zy_list ?s2 = (if tx_type tx = TX_RDONLY then zy_list s else zy_list s @ [tx])"
    "zy_rdlist ?s2 = (if tx_type tx = TX_RDONLY then zy_rdlist s @ [tx] else zy_rdlist s)"
    "zy_ios ?s2 = zy_ios s" "zy_commits ?s2 = zy_commits s" "zy_zs ?s2 = zs"
    by (simp_all add: zstore_tx_enqueue_def)
  have lst: "\<forall>t \<in> set (zy_list s). tx_tid t < tx_tid tx" using tid by (auto simp: zy_txs_def)
  have lastc: "\<forall>c \<in> set (zy_commits s). c < tx_tid tx" using p(13) tid by blast
  have q: "zy_out ?s2 = int (length (zy_list ?s2))" "zy_rdout ?s2 = int (length (zy_rdlist ?s2))"
    using p(1,2) by (simp_all add: zstore_tx_enqueue_def)
  have s2: "sorted_wrt (<) (map tx_tid (zy_list ?s2))"
    using p(3) lst by (simp add: l2 sorted_wrt_append)
  have d2: "distinct (map tx_tid (zy_txs ?s2))"
    using p(4) fresh(1) by (auto simp: zy_txs_def l2)
  have t2: "\<forall>t \<in> tx_tid ` set (zy_txs ?s2) \<union> set (zy_ended ?s2). t < zs_tid_max (zy_zs ?s2)"
    using p(7) rd(2) by (auto simp: txs2 en2 l2 tm less_Suc_eq)
  have ty: "tx_type tx = TX_RDONLY \<longleftrightarrow> r_ok tx" "tx_type tx \<noteq> TX_RDONLY \<longleftrightarrow> w_ok tx"
    using rd(1) by (auto simp: tx_ready_def w_ok_def r_ok_def)
  have ok2: "list_all w_ok (zy_list ?s2)" "list_all r_ok (zy_rdlist ?s2)"
    using p(8,9) ty by (auto simp: l2)
  have io2: "\<forall>t \<in> set (zy_txs ?s2). ios_of (tx_tid t) (zy_ios ?s2) \<le> tx_bio_outstanding t"
    using p(10) io0 by (simp add: txs2 l2)
  have f2: "fst ` set (zy_ios ?s2) \<subseteq> tx_tid ` set (zy_txs ?s2)" using p(11) by (auto simp: txs2 l2)
  have c2: "\<forall>c \<in> set (zy_commits ?s2). \<forall>t \<in> set (zy_list ?s2). c < tx_tid t"
    using p(14) lastc by (auto simp: l2)
  have dj: "tx_tid ` set (zy_txs ?s2) \<inter> set (zy_ended ?s2) = {}" using p(6) fresh(2) by (auto simp: txs2 en2)
  show ?thesis
    unfolding zy_pre_def using q s2 d2 dj t2 ok2 io2 f2 c2 p(5,12,13) by (simp add: en2 l2(4))
qed

text \<open>Handing requests of a queued transaction to the device.\<close>

lemma submit_pre:
  assumes "zy_pre s" and "tx \<in> set (zy_txs s)" and "tx_tid tx \<notin> fst ` set (zy_ios s)"
    and "length bs \<le> tx_bio_outstanding tx"
  shows "zy_pre (s\<lparr> zy_ios := zy_ios s @ map (Pair (tx_tid tx)) bs \<rparr>)"
proof -
  let ?s = "s\<lparr> zy_ios := zy_ios s @ map (Pair (tx_tid tx)) bs \<rparr>"
  note p = zy_pre_parts [OF assms(1)]
  have io: "ios_of u (zy_ios ?s) = (if u = tx_tid tx then length bs else ios_of u (zy_ios s))" for u
    using ios_of_zero [OF assms(3)] by (simp add: ios_of_pairs)
  have 1: "\<forall>t \<in> set (zy_txs s). ios_of (tx_tid t) (zy_ios ?s) \<le> tx_bio_outstanding t"
    using p(10) tx_unique [OF assms(1) _ assms(2)] assms(4) unfolding io by auto
  have 2: "fst ` set (zy_ios ?s) \<subseteq> tx_tid ` set (zy_txs s)" using p(11) assms(2) by auto
  have fr: "zy_list ?s = zy_list s" "zy_rdlist ?s = zy_rdlist s" "zy_out ?s = zy_out s"
    "zy_rdout ?s = zy_rdout s" "zy_commits ?s = zy_commits s" "zy_zs ?s = zy_zs s" by simp_all
  show ?thesis unfolding zy_pre_def fr zy_ios_frame using p 1 2 by blast
qed

lemma call_inv:
  assumes "zy_inv s" and "zstore_obj_async_op_call g op meta rcs s = Some (rc, s')"
  shows "zy_inv s'"
proof -
  have pre: "zy_pre s" and hw: "head_waits s" using assms(1) by (simp_all add: zy_inv_def)
  obtain rc' zs tx m where pr: "zstore_tx_prepare (zy_zs s) (zy_mem s) g op meta = Prep_rc rc' zs tx m"
    using assms(2) by (auto simp: zstore_obj_async_op_call_def split: prep_res.splits)
  let ?s1 = "s\<lparr> zy_zs := zs, zy_mem := m \<rparr>"
  show ?thesis
  proof (cases "rc' = 0")
    case False
    have "zy_pre ?s1" by (rule zy_pre_raise [OF pre]) (simp add: prepare_tid_max [OF pr])
    moreover have "head_waits ?s1" using hw by (simp add: head_waits_def)
    ultimately show ?thesis using assms(2) pr False by (simp add: zstore_obj_async_op_call_def zy_inv_def)
  next
    case True
    let ?s2 = "zstore_tx_enqueue tx ?s1"
    have ex: "zstore_tx_execute tx rcs ?s2 = Some s'"
      using assms(2) pr True by (auto simp: zstore_obj_async_op_call_def Let_def)
    note pr0 = pr [unfolded True] and rd = prepare_ready [OF pr [unfolded True]]
    have pre2: "zy_pre ?s2" by (rule enqueue_pre [OF pre pr [unfolded True]])
    have l2: "zy_list ?s2 = (if tx_type tx = TX_RDONLY then zy_list s else zy_list s @ [tx])" "zy_ios ?s2 = zy_ios s"
      and mem2: "tx \<in> set (zy_txs ?s2)"
      by (simp_all add: zstore_tx_enqueue_def zy_txs_def)
    show ?thesis
    proof (cases "tx_state tx = PM_TX")
      case True
      then have w: "tx_type tx \<noteq> TX_RDONLY" using rd(1) by (auto simp: tx_ready_def w_ok_def r_ok_def)
      have mem: "tx \<in> set (zy_list ?s2)" using w by (simp add: l2)
      have hd: "head_waits ?s2 \<or> hd (zy_list ?s2) = tx"
        using hw w by (cases "zy_list s") (simp_all add: head_waits_def l2)
      have "zstore_tx_metadata tx ?s2 = Some s'" using ex True by (simp add: zstore_tx_execute_def)
      from metadata_write_inv [OF pre2 mem True hd this] show ?thesis .
    next
      case False
      then have st: "tx_state tx = DATA_IO" using rd(1) by (auto simp: tx_ready_def w_ok_def r_ok_def)
      note nio = fresh_tx(4) [OF pre pr0, folded l2(2)]
      obtain k where k: "k \<le> length (tx_bios tx)"
        "snd (zstore_tx_data_bio (tx_tid tx) (tx_bios tx) rcs (zy_ios ?s2))
          = zy_ios ?s2 @ map (Pair (tx_tid tx)) (take k (tx_bios tx))"
        using data_bio_ios by blast
      have s': "s' = ?s2\<lparr> zy_ios := zy_ios ?s2 @ map (Pair (tx_tid tx)) (take k (tx_bios tx)) \<rparr>"
        using ex st k(2) by (simp add: zstore_tx_execute_def)
      have "zy_pre s'"
        unfolding s' by (rule submit_pre [OF pre2 mem2 nio]) (use rd(1) k(1) in \<open>simp add: tx_ready_def\<close>)
      moreover have "head_waits s'"
        using hw st by (cases "zy_list s") (simp_all add: head_waits_def s' l2)
      ultimately show ?thesis by (simp add: zy_inv_def)
    qed
  qed
qed

lemma msg_inv:
  assumes "zy_inv s" and "zy_msgs s = p # msgs"
  shows "zy_inv (zstore_user_cb p (s\<lparr> zy_msgs := msgs \<rparr>))"
proof -
  let ?s = "zstore_user_cb p (s\<lparr> zy_msgs := msgs \<rparr>)"
  have e: "set (zy_ended ?s) = set (zy_ended s)" "distinct (zy_ended ?s) \<longleftrightarrow> distinct (zy_ended s)"
    by (auto simp: zy_ended_def zstore_user_cb_def assms(2))
  have f: "zy_list ?s = zy_list s" "zy_rdlist ?s = zy_rdlist s" "zy_out ?s = zy_out s" "zy_rdout ?s = zy_rdout s"
    "zy_txs ?s = zy_txs s" "zy_ios ?s = zy_ios s" "zy_commits ?s = zy_commits s" "zy_zs ?s = zy_zs s"
    by (simp_all add: zstore_user_cb_def zy_txs_def)
  have "zy_pre s" "head_waits s" using assms(1) by (simp_all add: zy_inv_def)
  then show ?thesis unfolding zy_inv_def zy_pre_def head_waits_def e f by blast
qed

lemma step_inv: "zy_step s s' \<Longrightarrow> zy_inv s \<Longrightarrow> zy_inv s'"
  by (induction rule: zy_step.induct) (auto intro: call_inv bio_cb_inv msg_inv)

lemma reach_inv: "zy_reach s0 s \<Longrightarrow> zy_inv s0 \<Longrightarrow> zy_inv s"
  by (induction rule: zy_reach.induct) (auto intro: step_inv)

end
