(* ===== verification/Zstore_Queue.thy ===== *)
theory Zstore_Queue
  imports Zstore_Tx_Correct
begin

text \<open>
  Which transactions end: how one step changes the queues, what a device that accepts every
  request guarantees, and what an ignored submission error costs.
\<close>

section \<open>How a step changes the queues\<close>

lemma commit_loop_frame:
  "tx_commit_loop q s = Some s' \<Longrightarrow> zy_pre s \<Longrightarrow> zy_list s = q \<Longrightarrow>
     zy_ios s' = zy_ios s \<and> zy_rdlist s' = zy_rdlist s \<and> set (zy_list s') \<subseteq> set q \<and>
     (\<forall>t \<in> set q. tx_state t \<noteq> PM_TX \<longrightarrow> t \<in> set (zy_list s'))"
proof (induction q arbitrary: s)
  case (Cons t q)
  show ?case
  proof (cases "tx_state t = PM_TX")
    case False
    then show ?thesis using Cons.prems by simp
  next
    case True
    obtain pm ops pm' dram' where l: "tx_commit_loop q (commit_one t q (pm_run ops (zy_mem s)) dram' s) = Some s'"
      using Cons.prems(1) True by (auto simp: commit_one_def split: option.splits prod.splits)
    note f = commit_one_fields [OF Cons.prems(2,3), of "pm_run ops (zy_mem s)" dram']
    from Cons.IH [OF l commit_one_pre [OF Cons.prems(2,3) True] f(1)] True
    show ?thesis by (auto simp: f)
  qed
qed simp

lemma metadata_frame:
  assumes "zy_pre s" and "t \<in> set (zy_list s)" and "tx_state t = PM_TX"
    and "zstore_tx_metadata t s = Some s'"
  shows "zy_ios s' = zy_ios s" "zy_rdlist s' = zy_rdlist s" "set (zy_list s') \<subseteq> set (zy_list s)"
    "\<forall>u \<in> set (zy_list s). tx_state u \<noteq> PM_TX \<longrightarrow> u \<in> set (zy_list s')"
proof -
  note p = zy_pre_parts [OF assms(1)]
  have w: "w_ok t" using p(8) assms(2) by (simp add: list_all_iff)
  have tt: "tx_type t = TX_WRITE" "tx_bio_outstanding t = 0" using w assms(3) by (auto simp: w_ok_def)
  have st: "t\<lparr> tx_state := PM_TX \<rparr> = t" using assms(3) by simp
  have u: "u = t" if "u \<in> set (zy_txs s)" "tx_tid u = tx_tid t" for u
    by (rule tx_unique [OF assms(1) that(1) _ that(2)]) (use assms(2) in \<open>simp add: zy_txs_def\<close>)
  have id: "tx_change t (zy_list s) = zy_list s" "tx_change t (zy_rdlist s) = zy_rdlist s"
    using u [symmetric] by (auto simp: tx_change_def zy_txs_def intro!: map_idI)
  have ss: "tx_store t s = s" by (simp add: tx_store_def id)
  have "s' = s \<or> tx_commit_loop (zy_list s) s = Some s'"
    using assms(4) tt by (auto simp: zstore_tx_metadata_def st ss Let_def split: if_splits)
  with commit_loop_frame [OF _ assms(1) refl]
  have "zy_ios s' = zy_ios s \<and> zy_rdlist s' = zy_rdlist s \<and> set (zy_list s') \<subseteq> set (zy_list s) \<and>
     (\<forall>t \<in> set (zy_list s). tx_state t \<noteq> PM_TX \<longrightarrow> t \<in> set (zy_list s'))" by blast
  then show "zy_ios s' = zy_ios s" "zy_rdlist s' = zy_rdlist s" "set (zy_list s') \<subseteq> set (zy_list s)"
    "\<forall>u \<in> set (zy_list s). tx_state u \<noteq> PM_TX \<longrightarrow> u \<in> set (zy_list s')" by blast+
qed

text \<open>A transaction all of whose requests are done gets no new ones.\<close>

lemma change_txs:
  assumes "zy_pre s" and "t \<in> set (zy_txs s)" and "tx_tid t' = tx_tid t"
  shows "set (tx_change t' (zy_list s)) \<union> set (tx_change t' (zy_rdlist s)) =
    insert t' {u \<in> set (zy_txs s). tx_tid u \<noteq> tx_tid t}"
proof -
  have "set (map (\<lambda>u. if tx_tid u = tx_tid t then t' else u) (zy_txs s)) =
      insert t' {u \<in> set (zy_txs s). tx_tid u \<noteq> tx_tid t}"
    using assms(2) by auto
  then show ?thesis by (simp add: tx_change_def assms(3) zy_txs_def)
qed

lemma bio_last_evolves:
  assumes "zy_pre s" and "t \<in> set (zy_txs s)"
    and "fst ` set ios \<subseteq> fst ` set (zy_ios s)" and "\<And>u. ios_of u ios \<le> ios_of u (zy_ios s)" and "ios_of (tx_tid t) ios = 0"
    and "t2 = t\<lparr> tx_bio_outstanding := 0, tx_state := PM_TX, tx_bios := [] \<rparr>"
    and "zstore_tx_metadata t2 (tx_store t2 (s\<lparr> zy_ios := ios \<rparr>)) = Some s'"
  shows "zy_ios s' = ios" and "set (zy_txs s') \<subseteq> insert t2 {u \<in> set (zy_txs s). tx_tid u \<noteq> tx_tid t}"
    and "\<forall>u \<in> set (zy_txs s). tx_state u \<noteq> PM_TX \<and> tx_tid u \<noteq> tx_tid t \<longrightarrow> u \<in> set (zy_txs s')"
proof -
  let ?s = "tx_store t2 (s\<lparr> zy_ios := ios \<rparr>)"
  have t2: "tx_tid t2 = tx_tid t" "tx_state t2 = PM_TX" "tx_type t2 = tx_type t" "tx_bio_outstanding t2 = 0"
    by (simp_all add: assms(6))
  note pl = tx_place [OF assms(1,2)]
  have c: "set (zy_txs ?s) = insert t2 {u \<in> set (zy_txs s). tx_tid u \<noteq> tx_tid t}"
    using change_txs [OF assms(1,2), of t2] by (simp add: zy_txs_def t2)
  have "zy_ios s' = ios \<and> set (zy_txs s') \<subseteq> set (zy_txs ?s) \<and>
    (\<forall>u \<in> set (zy_txs ?s). tx_state u \<noteq> PM_TX \<longrightarrow> u \<in> set (zy_txs s'))"
  proof (cases "t \<in> set (zy_list s)")
    case True
    note lp = bio_last_pre [OF assms(1) True assms(3-6)]
    from metadata_frame [OF lp(1,2) t2(2) assms(7)] show ?thesis by (auto simp: zy_txs_def)
  next
    case False
    then have rd: "tx_type t = TX_RDONLY" using assms(2) pl(1) by (auto simp: zy_txs_def)
    then have s': "s' = zstore_tx_end t2 ?s" using assms(7) t2 by (simp add: zstore_tx_metadata_def)
    have "zy_list s' = zy_list ?s" "zy_ios s' = ios" "zy_rdlist s' = tx_remove (tx_tid t) (zy_rdlist ?s)"
      using rd t2 by (simp_all add: s' zstore_tx_end_def Let_def zstore_user_cb_def)
    then show ?thesis using c t2(2) by (auto simp: zy_txs_def tx_remove_def)
  qed
  with c show "zy_ios s' = ios" "set (zy_txs s') \<subseteq> insert t2 {u \<in> set (zy_txs s). tx_tid u \<noteq> tx_tid t}"
    "\<forall>u \<in> set (zy_txs s). tx_state u \<noteq> PM_TX \<and> tx_tid u \<noteq> tx_tid t \<longrightarrow> u \<in> set (zy_txs s')"
    by blast+
qed

lemma bio_evolves:
  assumes "zy_inv s" and "(tid, b) \<in> set (zy_ios s)"
    and "zstore_bio_cb True tid (s\<lparr> zy_ios := remove1 (tid, b) (zy_ios s) \<rparr>) = Some s'"
  obtains t where "t \<in> set (zy_txs s)" "tx_tid t = tid" "zy_ios s' = remove1 (tid, b) (zy_ios s)"
    "\<forall>u \<in> set (zy_txs s'). u \<in> set (zy_txs s) \<and> tx_tid u \<noteq> tid \<or>
       tx_tid u = tid \<and> tx_bio_outstanding u = tx_bio_outstanding t - 1"
    "\<forall>u \<in> set (zy_txs s). tx_state u \<noteq> PM_TX \<and> tx_tid u \<noteq> tid \<longrightarrow> u \<in> set (zy_txs s')"
    "1 < tx_bio_outstanding t \<longrightarrow> t\<lparr> tx_bio_outstanding := tx_bio_outstanding t - 1 \<rparr> \<in> set (zy_txs s')"
proof -
  let ?ios = "remove1 (tid, b) (zy_ios s)"
  let ?s0 = "s\<lparr> zy_ios := ?ios \<rparr>"
  have pre: "zy_pre s" using assms(1) by (simp add: zy_inv_def)
  obtain t where f: "tx_find tid ?s0 = Some t"
    using assms(3) by (auto simp: zstore_bio_cb_def split: option.splits)
  have t: "t \<in> set (zy_txs s)" "tx_tid t = tid" using find_tx [OF f] by simp_all
  let ?n = "tx_bio_outstanding t - 1"
  show ?thesis
  proof (cases "?n = 0")
    case False
    let ?t1 = "t\<lparr> tx_bio_outstanding := ?n \<rparr>"
    have s': "s' = tx_store ?t1 ?s0"
      using assms(3) False f by (simp add: zstore_bio_cb_def Let_def)
    have c: "set (zy_txs s') = insert ?t1 {u \<in> set (zy_txs s). tx_tid u \<noteq> tid}"
      using change_txs [OF pre t(1), of ?t1] t(2) by (simp add: s' zy_txs_def)
    show ?thesis by (rule that [OF t]) (use c t in \<open>auto simp: s'\<close>)
  next
    case True
    let ?t2 = "t\<lparr> tx_bio_outstanding := 0, tx_state := PM_TX, tx_bios := [] \<rparr>"
    have ex: "zstore_tx_metadata ?t2 (tx_store ?t2 ?s0) = Some s'"
      using assms(3) True f by (simp add: zstore_bio_cb_def Let_def zstore_tx_execute_def)
    have io: "fst ` set ?ios \<subseteq> fst ` set (zy_ios s)" "\<And>u. ios_of u ?ios \<le> ios_of u (zy_ios s)"
      using set_remove1_subset [of "(tid, b)" "zy_ios s"] ios_of_remove1 [OF assms(2)] by auto
    have z: "ios_of (tx_tid t) ?ios = 0"
      using ios_of_remove1 [OF assms(2), of tid] zy_pre_parts(10) [OF pre] t True by fastforce
    note e = bio_last_evolves [OF pre t(1) io z refl ex]
    have "\<forall>u \<in> set (zy_txs s'). u \<in> set (zy_txs s) \<and> tx_tid u \<noteq> tid \<or> tx_tid u = tid \<and> tx_bio_outstanding u = ?n"
      using e(2) True t(2) by auto
    then show ?thesis by (rule that [OF t e(1)]) (use e(3) t(2) True in auto)
  qed
qed

lemma data_bio_all:
  "set rcs \<subseteq> {0} \<Longrightarrow> snd (zstore_tx_data_bio tid bs rcs ios) = ios @ map (Pair tid) bs"
proof (induction tid bs rcs ios rule: zstore_tx_data_bio.induct)
  case (2 tid b bs rcs ios)
  then show ?case by (cases rcs) simp_all
qed simp

text \<open>What handing the requests of a new transaction to the device changes.\<close>

lemma submit_evolves:
  assumes "zstore_tx_execute tx rcs s = Some s'" and "tx_state tx = DATA_IO"
    and "tx_bio_outstanding tx = length (tx_bios tx)" and "ios_of (tx_tid tx) (zy_ios s) = 0"
  obtains new where "zy_ios s' = zy_ios s @ new" and "fst ` set new \<subseteq> {tx_tid tx}" and "zy_txs s' = zy_txs s"
    and "set rcs \<subseteq> {0} \<longrightarrow> tx_bio_outstanding tx = ios_of (tx_tid tx) (zy_ios s')"
proof -
  obtain k where k: "k \<le> length (tx_bios tx)"
    "snd (zstore_tx_data_bio (tx_tid tx) (tx_bios tx) rcs (zy_ios s)) = zy_ios s @ map (Pair (tx_tid tx)) (take k (tx_bios tx))"
    using data_bio_ios by blast
  let ?new = "map (Pair (tx_tid tx)) (take k (tx_bios tx))"
  have s': "s' = s\<lparr> zy_ios := zy_ios s @ ?new \<rparr>" using assms(1,2) k(2) by (simp add: zstore_tx_execute_def)
  have "tx_bio_outstanding tx = ios_of (tx_tid tx) (zy_ios s')" if "set rcs \<subseteq> {0}"
    using data_bio_all [OF that, of "tx_tid tx" "tx_bios tx" "zy_ios s"] k assms(3,4) by (simp add: s' ios_of_pairs)
  then show ?thesis by (intro that [of ?new]) (auto simp: s')
qed

text \<open>A transaction that is put into the queue and executed: its metadata are written, or its I/O is submitted.\<close>

lemma enqueued_metadata:
  assumes pre: "zy_pre s" and pr: "zstore_tx_prepare (zy_zs s) (zy_mem s) g op meta = Prep_rc 0 zs tx m" and st: "tx_state tx = PM_TX"
    and ex: "zstore_tx_execute tx rcs (zstore_tx_enqueue tx (s\<lparr> zy_zs := zs, zy_mem := m \<rparr>)) = Some s'"
  shows "zy_ios s' = zy_ios s" and "\<forall>u \<in> set (zy_txs s). tx_state u \<noteq> PM_TX \<longrightarrow> u \<in> set (zy_txs s')"
    and "\<forall>u \<in> set (zy_txs s'). u \<in> set (zy_txs s) \<or> tx_bio_outstanding u = ios_of (tx_tid u) (zy_ios s')"
proof -
  let ?s2 = "zstore_tx_enqueue tx (s\<lparr> zy_zs := zs, zy_mem := m \<rparr>)"
  note rd = prepare_ready [OF pr] and fresh = fresh_tx [OF pre pr]
  have txs2: "set (zy_txs ?s2) = insert tx (set (zy_txs s))" "zy_ios ?s2 = zy_ios s"
    by (auto simp: zy_txs_def zstore_tx_enqueue_def)
  have w: "tx_type tx \<noteq> TX_RDONLY" "tx_bio_outstanding tx = 0"
    using rd(1) st by (auto simp: tx_ready_def w_ok_def r_ok_def)
  have l2: "zy_list ?s2 = zy_list s @ [tx]" "zy_rdlist ?s2 = zy_rdlist s"
    using w(1) by (simp_all add: zstore_tx_enqueue_def)
  have meta: "zstore_tx_metadata tx ?s2 = Some s'" using ex st by (simp add: zstore_tx_execute_def)
  have mem: "tx \<in> set (zy_list ?s2)" by (simp add: l2)
  note fr = metadata_frame [OF enqueue_pre [OF pre pr] mem st meta, unfolded l2 txs2]
  show "zy_ios s' = zy_ios s" using fr by auto
  show "\<forall>u \<in> set (zy_txs s). tx_state u \<noteq> PM_TX \<longrightarrow> u \<in> set (zy_txs s')" using fr by (auto simp: zy_txs_def)
  show "\<forall>u \<in> set (zy_txs s'). u \<in> set (zy_txs s) \<or> tx_bio_outstanding u = ios_of (tx_tid u) (zy_ios s')"
    using fr w(2) fresh(5) by (auto simp: zy_txs_def)
qed

lemma enqueued_io:
  assumes pre: "zy_pre s" and pr: "zstore_tx_prepare (zy_zs s) (zy_mem s) g op meta = Prep_rc 0 zs tx m" and st0: "tx_state tx \<noteq> PM_TX"
    and ex: "zstore_tx_execute tx rcs (zstore_tx_enqueue tx (s\<lparr> zy_zs := zs, zy_mem := m \<rparr>)) = Some s'"
  obtains new where "zy_ios s' = zy_ios s @ new" "\<forall>u \<in> set (zy_txs s). tx_tid u \<notin> fst ` set new"
    "set (zy_txs s') = insert tx (set (zy_txs s))" "set rcs \<subseteq> {0} \<longrightarrow> tx_bio_outstanding tx = ios_of (tx_tid tx) (zy_ios s')"
proof -
  let ?s2 = "zstore_tx_enqueue tx (s\<lparr> zy_zs := zs, zy_mem := m \<rparr>)"
  note rd = prepare_ready [OF pr] and fresh = fresh_tx [OF pre pr]
  have txs2: "set (zy_txs ?s2) = insert tx (set (zy_txs s))" "zy_ios ?s2 = zy_ios s"
    by (auto simp: zy_txs_def zstore_tx_enqueue_def)
  have st: "tx_state tx = DATA_IO" and ob: "tx_bio_outstanding tx = length (tx_bios tx)"
    using rd(1) st0 by (auto simp: tx_ready_def w_ok_def r_ok_def)
  have io0: "ios_of (tx_tid tx) (zy_ios ?s2) = 0" by (simp only: txs2(2) fresh(5))
  obtain new where n: "zy_ios s' = zy_ios ?s2 @ new" "fst ` set new \<subseteq> {tx_tid tx}" "zy_txs s' = zy_txs ?s2"
    "set rcs \<subseteq> {0} \<longrightarrow> tx_bio_outstanding tx = ios_of (tx_tid tx) (zy_ios s')"
    by (rule submit_evolves [OF ex st ob io0])
  have "tx_tid u \<notin> fst ` set new" if "u \<in> set (zy_txs s)" for u
  proof
    assume "tx_tid u \<in> fst ` set new"
    then have "tx_tid u = tx_tid tx" using n(2) by (rule singletonD [OF rev_subsetD])
    then show False using fresh(2) imageI [OF that, of tx_tid] by simp
  qed
  moreover have "set (zy_txs s') = insert tx (set (zy_txs s))" by (simp only: n(3) txs2(1))
  ultimately show ?thesis using that [of new] n(1,4) txs2(2) by simp
qed

lemma call_evolves:
  assumes "zy_inv s" and "zstore_obj_async_op_call g op meta rcs s = Some (rc, s')"
  obtains new where "zy_ios s' = zy_ios s @ new"
    "\<forall>u \<in> set (zy_txs s). tx_tid u \<notin> fst ` set new \<and> (tx_state u \<noteq> PM_TX \<longrightarrow> u \<in> set (zy_txs s'))"
    "\<forall>u \<in> set (zy_txs s'). u \<in> set (zy_txs s) \<or>
       (set rcs \<subseteq> {0} \<longrightarrow> tx_bio_outstanding u = ios_of (tx_tid u) (zy_ios s'))"
proof -
  have pre: "zy_pre s" using assms(1) by (simp add: zy_inv_def)
  obtain rc' zs tx m where pr: "zstore_tx_prepare (zy_zs s) (zy_mem s) g op meta = Prep_rc rc' zs tx m"
    using assms(2) by (auto simp: zstore_obj_async_op_call_def split: prep_res.splits)
  show ?thesis
  proof (cases "rc' = 0")
    case False
    then have "s' = s\<lparr> zy_zs := zs, zy_mem := m \<rparr>" using assms(2) pr by (simp add: zstore_obj_async_op_call_def)
    then show ?thesis by (intro that [of "[]"]) (simp_all add: zy_txs_def)
  next
    case rc0: True
    then have pr0: "zstore_tx_prepare (zy_zs s) (zy_mem s) g op meta = Prep_rc 0 zs tx m" using pr by simp
    have ex: "zstore_tx_execute tx rcs (zstore_tx_enqueue tx (s\<lparr> zy_zs := zs, zy_mem := m \<rparr>)) = Some s'"
      using assms(2) pr rc0 by (auto simp: zstore_obj_async_op_call_def Let_def)
    show ?thesis
    proof (cases "tx_state tx = PM_TX")
      case True
      show ?thesis by (rule that [of "[]"]) (use enqueued_metadata [OF pre pr0 True ex] in simp_all)
    next
      case False
      obtain new where n: "zy_ios s' = zy_ios s @ new" "\<forall>u \<in> set (zy_txs s). tx_tid u \<notin> fst ` set new"
        "set (zy_txs s') = insert tx (set (zy_txs s))" "set rcs \<subseteq> {0} \<longrightarrow> tx_bio_outstanding tx = ios_of (tx_tid tx) (zy_ios s')"
        by (rule enqueued_io [OF pre pr0 False ex])
      show ?thesis by (rule that [OF n(1)]) (use n in auto)
    qed
  qed
qed


section \<open>What the queue guarantees\<close>

text \<open>An example: a read of one unwritten block, submitted to a device that answers \<open>rcs\<close>.\<close>

definition demo_sys :: zsys where
  "demo_sys = zy_start (demo_store (demo_blank 2 0) (\<lambda>_. 0)) (\<lambda>_. 0xff)"

definition demo_call :: "int list \<Rightarrow> zsys \<Rightarrow> (int \<times> zsys) option" where
  "demo_call rcs s = zstore_obj_async_op_call [] msg_oss_op_read (op_rw_encode (demo_rw 5 1)) rcs s"

definition demo_after :: "zstore \<Rightarrow> zstore_tx \<Rightarrow> (nat \<times> bio) list \<Rightarrow> zsys" where
  "demo_after zs t ios = \<lparr> zy_zs = zs, zy_mem = (\<lambda>_. 0xff), zy_list = [], zy_rdlist = [t], zy_out = 0,
     zy_rdout = 1, zy_ios = ios, zy_msgs = [], zy_cbs = [], zy_commits = [] \<rparr>"

lemma demo_read:
  "\<exists>zs t b. tx_tid t = 0 \<and> tx_type t = TX_RDONLY \<and> tx_state t = DATA_IO \<and> tx_bio_outstanding t = 1 \<and>
     tx_err t = 0 \<and> \<not> tx_sync t \<and> length (tx_bios t) = 1 \<and>
     zstore_tx_prepare (zy_zs demo_sys) (zy_mem demo_sys) [] msg_oss_op_read (op_rw_encode (demo_rw 5 1))
       = Prep_rc 0 zs t (\<lambda>_. 0xff) \<and>
     demo_call [] demo_sys = Some (0, demo_after zs t [(0, b)]) \<and>
     demo_call [- 1] demo_sys = Some (0, demo_after zs t [])"
proof -
  let ?zs = "(demo_store (demo_blank 2 0) (\<lambda>_. 0))\<lparr> zs_tid_max := 1 \<rparr>"
  have wf: "zs_wf ?zs"
    using demo_store_wf [OF demo_blank_inv [of 2 0]] by (simp add: demo_blank_def zs_wf_def)
  have d: "op_rw_decode (op_rw_encode (demo_rw 5 1)) = demo_rw 5 1"
    using op_rw_decode_encode [of "demo_rw 5 1" "[]"] by (simp add: demo_rw_def)
  have "index_mapped ?zs oe ofst len = index_mapped (demo_store (demo_blank 2 0) (\<lambda>_. 0)) oe ofst len"
    "onode ?zs 5 = onode (demo_store (demo_blank 2 0) (\<lambda>_. 0)) 5" for oe ofst len
    by (simp_all add: index_mapped_def object_data_index_block_def onode_def onode_addr_def)
  then have im: "index_mapped ?zs (onode ?zs 5) 0 4096" using demo_index_mapped by (simp only:)
  let ?dib = "map (\<lambda>v. if v = DIB_HOLE then 0 else v) (array_of 4 1 (pmem_read (\<lambda>_. 0xff)
     (object_data_index_block ?zs (onode ?zs 5)) 4))"
  have ld: "length ?dib = 1" by (simp add: array_of_def)
  obtain ex where ex: "ex \<noteq> []" "list_all ext_ok ex" "ex_blocks ex = ?dib"
    "tx_prep_rw_common ?zs (tx_init 0) (\<lambda>_. 0xff) [] msg_oss_op_read (op_rw_encode (demo_rw 5 1)) = Prep_rc 0 ?zs
      ((tx_init 0)\<lparr> tx_type := TX_RDONLY, tx_state := DATA_IO, tx_bios := read_bios ex, tx_bio_outstanding := length ex \<rparr>)
      (\<lambda>_. 0xff)"
    using prep_read_common [OF wf _ _ _ _ _ d, where blen = 1 and tx = "tx_init 0" and garbage = "[]"] im
    by (auto simp: demo_rw_def)
  obtain x where x: "ex = [x]"
    using ex(1) arg_cong [OF ex(3), of length] ex(2) unfolding ld
    by (cases ex; cases "tl ex") (auto simp: ex_blocks_def ext_ok_def)
  let ?t = "(tx_init 0)\<lparr> tx_type := TX_RDONLY, tx_state := DATA_IO, tx_bios := read_bios ex, tx_bio_outstanding := length ex \<rparr>"
  have pr: "zstore_tx_prepare (demo_store (demo_blank 2 0) (\<lambda>_. 0)) (\<lambda>_. 0xff) [] msg_oss_op_read
      (op_rw_encode (demo_rw 5 1)) = Prep_rc 0 ?zs ?t (\<lambda>_. 0xff)"
    using ex(4) by (simp add: zstore_tx_prepare_def Let_def demo_store_def msg_op_defs)
  have st: "demo_sys\<lparr> zy_zs := ?zs, zy_mem := (\<lambda>_. 0xff) \<rparr> = zy_start ?zs (\<lambda>_. 0xff)"
    by (simp add: demo_sys_def zy_start_def)
  have zm: "zy_zs demo_sys = demo_store (demo_blank 2 0) (\<lambda>_. 0)" "zy_mem demo_sys = (\<lambda>_. 0xff)"
    by (simp_all add: demo_sys_def zy_start_def)
  have c: "demo_call rcs demo_sys = map_option (Pair 0) (zstore_tx_execute ?t rcs (zstore_tx_enqueue ?t (zy_start ?zs (\<lambda>_. 0xff))))"
    for rcs unfolding demo_call_def zstore_obj_async_op_call_def zm pr prep_res.case Let_def st by simp
  have ex: "zstore_tx_execute ?t rcs (zstore_tx_enqueue ?t (zy_start ?zs (\<lambda>_. 0xff))) = Some (demo_after ?zs ?t
      (snd (zstore_tx_data_bio 0 (read_bios ex) rcs [])))" for rcs
    by (simp add: zstore_tx_execute_def zstore_tx_enqueue_def zy_start_def tx_init_def demo_after_def)
  show ?thesis
    by (rule exI [of _ ?zs], rule exI [of _ ?t], rule exI [of _ "hd (read_bios ex)"])
      (unfold c ex zm pr, simp add: tx_init_def x read_bios_def)
qed

text \<open>
  C8: Whatever sequence of submissions, device completions and message deliveries has led to a
  state: the two counters are the lengths of the two queues, the writes have been committed in
  the order in which they were submitted, no transaction has been ended twice, none that is
  still queued has been ended, and the write at the head of the queue is not one whose data is
  already written.
\<close>

lemma queue_order:
  assumes "zy_reach (zy_start zs m) s"
  shows "zy_out s = int (length (zy_list s)) \<and> zy_rdout s = int (length (zy_rdlist s)) \<and>
    sorted_wrt (<) (zy_commits s @ map tx_tid (zy_list s)) \<and>
    distinct (map tx_tid (zy_list s @ zy_rdlist s) @ map fst (zy_msgs s @ zy_cbs s)) \<and>
    set (zy_commits s) \<subseteq> set (map fst (zy_msgs s @ zy_cbs s)) \<and>
    (zy_list s \<noteq> [] \<longrightarrow> tx_state (hd (zy_list s)) \<noteq> PM_TX)"
proof -
  have inv: "zy_inv s" by (rule reach_inv [OF assms zy_start_inv])
  then have pre: "zy_pre s" by (simp add: zy_inv_def)
  note p = zy_pre_parts [OF pre, unfolded zy_txs_def zy_ended_def]
  have h: "zy_list s \<noteq> [] \<longrightarrow> tx_state (hd (zy_list s)) \<noteq> PM_TX"
    using inv by (cases "zy_list s") (simp_all add: zy_inv_def head_waits_def)
  have so: "sorted_wrt (<) (zy_commits s @ map tx_tid (zy_list s))"
    using p(3,12,14) by (simp add: sorted_wrt_append)
  have "distinct (map tx_tid (zy_list s @ zy_rdlist s) @ map fst (zy_msgs s @ zy_cbs s))"
    using p(4,5,6) by (simp only: distinct_append set_map)
  with p(1,2,13) so h show ?thesis by blast
qed

lemma queue_order_witness:
  "\<exists>s. demo_call [] demo_sys = Some (0, s) \<and> zy_out s = int (length (zy_list s)) \<and>
     zy_rdout s = int (length (zy_rdlist s)) \<and> zy_rdlist s \<noteq> []"
proof -
  obtain zs t b where d: "demo_call [] demo_sys = Some (0, demo_after zs t [(0, b)])"
    using demo_read by blast
  have "zy_step demo_sys (demo_after zs t [(0, b)])" by (rule zy_call [OF d [unfolded demo_call_def]])
  then have "zy_reach demo_sys (demo_after zs t [(0, b)])" by (rule reach_step [OF reach_start])
  from queue_order [OF this [unfolded demo_sys_def]] d show ?thesis by (simp add: demo_after_def)
qed

text \<open>A transaction that waits for more than the device will answer.\<close>

definition hangs :: "nat \<Rightarrow> tx_type \<Rightarrow> zsys \<Rightarrow> bool" where
  "hangs tid ty s \<longleftrightarrow> (\<exists>t \<in> set (zy_txs s). tx_tid t = tid \<and> tx_type t = ty \<and> tx_state t = DATA_IO \<and>
     ios_of tid (zy_ios s) < tx_bio_outstanding t)"

lemma step_hangs:
  assumes "zy_step s s'" and "zy_inv s" and "hangs tid ty s"
  shows "hangs tid ty s'"
proof -
  obtain t where t: "t \<in> set (zy_txs s)" "tx_tid t = tid" "tx_type t = ty" "tx_state t = DATA_IO"
    "ios_of tid (zy_ios s) < tx_bio_outstanding t"
    using assms(3) by (auto simp: hangs_def)
  from assms(1) show ?thesis
  proof cases
    case (zy_call g op meta rcs rc)
    obtain new where e: "zy_ios s' = zy_ios s @ new"
      "\<forall>u \<in> set (zy_txs s). tx_tid u \<notin> fst ` set new \<and> (tx_state u \<noteq> PM_TX \<longrightarrow> u \<in> set (zy_txs s'))"
      "\<forall>u \<in> set (zy_txs s'). u \<in> set (zy_txs s) \<or>
       (set rcs \<subseteq> {0} \<longrightarrow> tx_bio_outstanding u = ios_of (tx_tid u) (zy_ios s'))"
      by (rule call_evolves [OF assms(2) zy_call])
    have "t \<in> set (zy_txs s')" "ios_of tid new = 0" using e(2) t ios_of_zero [of tid new] by auto
    then show ?thesis using t by (auto simp: hangs_def e(1))
  next
    case (zy_bio tid' b)
    obtain t0 where e: "t0 \<in> set (zy_txs s)" "tx_tid t0 = tid'" "zy_ios s' = remove1 (tid', b) (zy_ios s)"
    "\<forall>u \<in> set (zy_txs s'). u \<in> set (zy_txs s) \<and> tx_tid u \<noteq> tid' \<or>
       tx_tid u = tid' \<and> tx_bio_outstanding u = tx_bio_outstanding t0 - 1"
      "\<forall>u \<in> set (zy_txs s). tx_state u \<noteq> PM_TX \<and> tx_tid u \<noteq> tid' \<longrightarrow> u \<in> set (zy_txs s')"
      "1 < tx_bio_outstanding t0 \<longrightarrow> t0\<lparr> tx_bio_outstanding := tx_bio_outstanding t0 - 1 \<rparr> \<in> set (zy_txs s')"
      by (rule bio_evolves [OF assms(2) zy_bio])
    have io: "ios_of tid (zy_ios s') = (if tid' = tid then ios_of tid (zy_ios s) - 1 else ios_of tid (zy_ios s))"
      using ios_of_remove1 [OF zy_bio(1), of tid] e(3) by simp
    show ?thesis
    proof (cases "tid' = tid")
      case False
      then have "t \<in> set (zy_txs s')" using e(5) t by auto
      then show ?thesis using t io False by (auto simp: hangs_def)
    next
      case True
      then have "t0 = t" using tx_unique [OF _ e(1) t(1)] assms(2) e(2) t(2) by (simp add: zy_inv_def)
      moreover have "0 < ios_of tid (zy_ios s)" using ios_of_pos [OF zy_bio(1)] True by simp
      ultimately have "t\<lparr> tx_bio_outstanding := tx_bio_outstanding t - 1 \<rparr> \<in> set (zy_txs s')"
        "ios_of tid (zy_ios s') < tx_bio_outstanding t - 1"
        using e(6) t(5) io True by auto
      then show ?thesis unfolding hangs_def using t by (intro bexI) auto
    qed
  next
    case (zy_msg msg msgs)
    then show ?thesis using t by (auto simp: hangs_def zy_txs_def zstore_user_cb_def)
  qed
qed

lemma reach_hangs: "zy_reach s0 s \<Longrightarrow> zy_inv s0 \<Longrightarrow> hangs tid ty s0 \<Longrightarrow> hangs tid ty s"
  by (induction rule: zy_reach.induct) (auto intro: step_hangs reach_inv)

text \<open>A refused request and those after it are not handed to the device.\<close>

lemma data_bio_refused:
  "k < length rcs \<Longrightarrow> k < length bs \<Longrightarrow> rcs ! k \<noteq> 0 \<Longrightarrow>
     \<exists>n < length bs. snd (zstore_tx_data_bio tid bs rcs ios) = ios @ map (Pair tid) (take n bs)"
proof (induction tid bs rcs ios arbitrary: k rule: zstore_tx_data_bio.induct)
  case (2 tid b bs rcs ios)
  obtain rc rcs' where rcs: "rcs = rc # rcs'" using 2(3) by (cases rcs) auto
  show ?case
  proof (cases "rc = 0")
    case True
    then obtain j where j: "k = Suc j" using 2(5) rcs by (cases k) auto
    then obtain n where "n < length bs"
      "snd (zstore_tx_data_bio tid bs rcs' (ios @ [(tid, b)])) = (ios @ [(tid, b)]) @ map (Pair tid) (take n bs)"
      using 2(2) [OF rcs, of j] 2(3-5) rcs True by auto
    then show ?thesis by (intro exI [of _ "Suc n"]) (simp add: rcs True)
  next
    case False
    then show ?thesis by (intro exI [of _ 0]) (simp add: rcs)
  qed
qed simp

lemma refused_hangs:
  assumes "zy_inv s" and pr: "zstore_tx_prepare (zy_zs s) (zy_mem s) g op meta = Prep_rc 0 zs tx m"
    and st: "tx_state tx = DATA_IO" and k: "k < length rcs" "k < length (tx_bios tx)" "rcs ! k \<noteq> 0"
    and call: "zstore_obj_async_op_call g op meta rcs s = Some (rc, s1)"
  shows "rc = 0 \<and> hangs (tx_tid tx) (tx_type tx) s1"
proof -
  have pre: "zy_pre s" using assms(1) by (simp add: zy_inv_def)
  let ?s2 = "zstore_tx_enqueue tx (s\<lparr> zy_zs := zs, zy_mem := m \<rparr>)"
  note rd = prepare_ready [OF pr] and fresh = fresh_tx [OF pre pr]
  have ex: "zstore_tx_execute tx rcs ?s2 = Some s1" and rc: "rc = 0"
    using call pr by (auto simp: zstore_obj_async_op_call_def Let_def)
  have s2: "tx \<in> set (zy_txs ?s2)" "zy_ios ?s2 = zy_ios s"
    by (auto simp: zy_txs_def zstore_tx_enqueue_def)
  obtain n where n: "n < length (tx_bios tx)"
    "snd (zstore_tx_data_bio (tx_tid tx) (tx_bios tx) rcs (zy_ios s)) = zy_ios s @ map (Pair (tx_tid tx)) (take n (tx_bios tx))"
    using data_bio_refused [OF k] by blast
  have s1: "s1 = ?s2\<lparr> zy_ios := zy_ios s @ map (Pair (tx_tid tx)) (take n (tx_bios tx)) \<rparr>"
    using ex st n(2) s2(2) by (simp add: zstore_tx_execute_def)
  have "tx_bio_outstanding tx = length (tx_bios tx)"
    using rd(1) st by (auto simp: tx_ready_def w_ok_def r_ok_def)
  then have "ios_of (tx_tid tx) (zy_ios s1) < tx_bio_outstanding tx"
    using n(1) fresh(5) by (simp add: s1 ios_of_pairs)
  moreover have "tx \<in> set (zy_txs s1)" using s2(1) by (simp add: s1 zy_txs_def)
  ultimately show ?thesis using rc st by (auto simp: hangs_def)
qed

text \<open>
  C40: A request the device refused hangs its operation, and a write hangs the store.  In any
  reachable state, let a client submit an operation that is accepted and needs device I/O, and
  let the device refuse one of its requests (a nonzero code for the \<open>k\<close>-th of them): the call
  reports success, and whatever steps follow, the transaction is still queued, still waits for
  its I/O and has not been answered; if it is a write, no write submitted after it (with a higher
  number) is ever committed.
\<close>

theorem refused_request_hangs:
  assumes "zy_reach (zy_start zs0 m0) s"
    and "zstore_tx_prepare (zy_zs s) (zy_mem s) garbage op meta = Prep_rc 0 zs tx m" and "tx_state tx = DATA_IO"
    and "k < length rcs" and "k < length (tx_bios tx)" and "rcs ! k \<noteq> 0"
    and "zstore_obj_async_op_call garbage op meta rcs s = Some (rc, s1)" and "zy_reach s1 s2"
  shows "rc = 0 \<and>
    (\<exists>t \<in> set (zy_list s2 @ zy_rdlist s2). tx_tid t = tx_tid tx \<and> tx_state t = DATA_IO \<and> 0 < tx_bio_outstanding t) \<and>
    tx_tid tx \<notin> set (map fst (zy_msgs s2 @ zy_cbs s2)) \<and>
    (tx_type tx = TX_WRITE \<longrightarrow> (\<forall>c \<in> set (zy_commits s2). c < tx_tid tx))"
proof -
  have inv: "zy_inv s" by (rule reach_inv [OF assms(1) zy_start_inv])
  note h = refused_hangs [OF inv assms(2-7)]
  have inv1: "zy_inv s1" by (rule call_inv [OF inv assms(7)])
  have "zy_pre s2" using reach_inv [OF assms(8) inv1] by (simp add: zy_inv_def)
  note p = zy_pre_parts [OF this]
  obtain t where t: "t \<in> set (zy_txs s2)" "tx_tid t = tx_tid tx" "tx_type t = tx_type tx" "tx_state t = DATA_IO"
    "0 < tx_bio_outstanding t"
    using reach_hangs [OF assms(8) inv1 conjunct2 [OF h]] by (auto simp: hangs_def)
  have "tx_tid tx \<notin> set (zy_ended s2)" using p(6) t(1,2) by (metis IntI empty_iff imageI)
  moreover have "\<forall>c \<in> set (zy_commits s2). c < tx_tid tx" if "tx_type tx = TX_WRITE"
  proof -
    have "t \<notin> set (zy_rdlist s2)" using p(9) t(3) that by (auto simp: list_all_iff r_ok_def)
    then have "t \<in> set (zy_list s2)" using t(1) by (simp add: zy_txs_def)
    then show ?thesis using p(14) t(2) by metis
  qed
  ultimately show ?thesis using h t by (auto simp: zy_txs_def zy_ended_def)
qed

lemma refused_request_hangs_witness:
  "\<exists>s t. demo_call [- 1] demo_sys = Some (0, s) \<and> zy_rdlist s = [t] \<and> zy_ios s = [] \<and>
     (\<forall>s'. zy_reach s s' \<longrightarrow> tx_tid t \<notin> set (map fst (zy_msgs s' @ zy_cbs s')))"
proof -
  obtain zs t where t: "tx_state t = DATA_IO" "length (tx_bios t) = 1"
    and pr: "zstore_tx_prepare (zy_zs demo_sys) (zy_mem demo_sys) [] msg_oss_op_read (op_rw_encode (demo_rw 5 1))
       = Prep_rc 0 zs t (\<lambda>_. 0xff)"
    and d: "demo_call [- 1] demo_sys = Some (0, demo_after zs t [])"
    using demo_read by blast
  let ?s = "demo_after zs t []"
  have r: "zy_reach (zy_start (demo_store (demo_blank 2 0) (\<lambda>_. 0)) (\<lambda>_. 0xff)) demo_sys"
    unfolding demo_sys_def by (rule reach_start)
  have "\<forall>s'. zy_reach ?s s' \<longrightarrow> tx_tid t \<notin> set (map fst (zy_msgs s' @ zy_cbs s'))"
    using refused_request_hangs [OF r pr t(1) _ _ _ d [unfolded demo_call_def], of 0] t(2) by simp
  with d show ?thesis by (simp add: demo_after_def)
qed

text \<open>Steps with a device that accepts every request.\<close>

inductive zy_accepts :: "zsys \<Rightarrow> zsys \<Rightarrow> bool" for s0 where
  acc_start: "zy_accepts s0 s0"
| acc_call: "zy_accepts s0 s \<Longrightarrow> set rcs \<subseteq> {0} \<Longrightarrow>
    zstore_obj_async_op_call garbage op meta rcs s = Some (rc, s') \<Longrightarrow> zy_accepts s0 s'"
| acc_bio: "zy_accepts s0 s \<Longrightarrow> (tid, b) \<in> set (zy_ios s) \<Longrightarrow>
    zstore_bio_cb True tid (s\<lparr> zy_ios := remove1 (tid, b) (zy_ios s) \<rparr>) = Some s' \<Longrightarrow> zy_accepts s0 s'"
| acc_msg: "zy_accepts s0 s \<Longrightarrow> zy_msgs s = msg # msgs \<Longrightarrow>
    zy_accepts s0 (zstore_user_cb msg (s\<lparr> zy_msgs := msgs \<rparr>))"

definition zy_full :: "zsys \<Rightarrow> bool" where
  "zy_full s \<longleftrightarrow> (\<forall>t \<in> set (zy_txs s). tx_bio_outstanding t = ios_of (tx_tid t) (zy_ios s))"

lemma full_call:
  assumes inv: "zy_inv s" and full: "zy_full s" and call: "zstore_obj_async_op_call g op meta rcs s = Some (rc, s')"
    and ok: "set rcs \<subseteq> {0}"
  shows "zy_full s'"
proof -
  obtain new where e: "zy_ios s' = zy_ios s @ new"
    "\<forall>u \<in> set (zy_txs s). tx_tid u \<notin> fst ` set new \<and> (tx_state u \<noteq> PM_TX \<longrightarrow> u \<in> set (zy_txs s'))"
    "\<forall>u \<in> set (zy_txs s'). u \<in> set (zy_txs s) \<or>
       (set rcs \<subseteq> {0} \<longrightarrow> tx_bio_outstanding u = ios_of (tx_tid u) (zy_ios s'))"
    by (rule call_evolves [OF inv call])
  have "tx_bio_outstanding u = ios_of (tx_tid u) (zy_ios s')" if "u \<in> set (zy_txs s')" for u
  proof (cases "u \<in> set (zy_txs s)")
    case True
    then have "ios_of (tx_tid u) new = 0" using e(2) ios_of_zero by blast
    then show ?thesis using full True by (simp add: zy_full_def e(1))
  next
    case False
    then show ?thesis using e(3) that ok by blast
  qed
  then show ?thesis by (simp add: zy_full_def)
qed

lemma full_bio:
  assumes inv: "zy_inv s" and full: "zy_full s" and io: "(tid, b) \<in> set (zy_ios s)"
    and cb: "zstore_bio_cb True tid (s\<lparr> zy_ios := remove1 (tid, b) (zy_ios s) \<rparr>) = Some s'"
  shows "zy_full s'"
proof -
  obtain t where e: "t \<in> set (zy_txs s)" "tx_tid t = tid"
    "zy_ios s' = remove1 (tid, b) (zy_ios s)"
    "\<forall>u \<in> set (zy_txs s'). u \<in> set (zy_txs s) \<and> tx_tid u \<noteq> tid \<or>
       tx_tid u = tid \<and> tx_bio_outstanding u = tx_bio_outstanding t - 1"
    "\<forall>u \<in> set (zy_txs s). tx_state u \<noteq> PM_TX \<and> tx_tid u \<noteq> tid \<longrightarrow> u \<in> set (zy_txs s')"
    "1 < tx_bio_outstanding t \<longrightarrow> t\<lparr> tx_bio_outstanding := tx_bio_outstanding t - 1 \<rparr> \<in> set (zy_txs s')"
    by (rule bio_evolves [OF inv io cb])
  have "tx_bio_outstanding u = ios_of (tx_tid u) (zy_ios s')" if "u \<in> set (zy_txs s')" for u
  proof (cases "tx_tid u = tid")
    case True
    then have "tx_bio_outstanding u = tx_bio_outstanding t - 1" using e(4) that by blast
    moreover have "tx_bio_outstanding t = ios_of tid (zy_ios s)" using full e(1,2) by (simp add: zy_full_def)
    ultimately show ?thesis using ios_of_remove1 [OF io, of tid] True by (simp add: e(3))
  next
    case False
    then have "u \<in> set (zy_txs s)" using e(4) that by blast
    then show ?thesis using full False ios_of_remove1 [OF io, of "tx_tid u"]
      by (simp add: zy_full_def e(3))
  qed
  then show ?thesis by (simp add: zy_full_def)
qed

lemma accepts_full:
  "zy_accepts s0 s \<Longrightarrow> zy_inv s0 \<Longrightarrow> zy_full s0 \<Longrightarrow> zy_inv s \<and> zy_full s"
proof (induction rule: zy_accepts.induct)
  case (acc_call s rcs g op meta rc s')
  then show ?case using call_inv [OF _ acc_call.hyps(3)] full_call [OF _ _ acc_call.hyps(3,2)] by simp
next
  case (acc_bio s tid b s')
  then show ?case using bio_cb_inv [OF _ acc_bio.hyps(2,3)] full_bio [OF _ _ acc_bio.hyps(2,3)] by simp
next
  case (acc_msg s msg msgs)
  then have "zy_inv s" "zy_full s" by simp_all
  moreover have "zy_txs (zstore_user_cb msg (s\<lparr> zy_msgs := msgs \<rparr>)) = zy_txs s"
    "zy_ios (zstore_user_cb msg (s\<lparr> zy_msgs := msgs \<rparr>)) = zy_ios s"
    by (simp_all add: zy_txs_def zstore_user_cb_def)
  ultimately show ?case using msg_inv [OF _ acc_msg.hyps(2)] by (simp add: zy_full_def)
qed simp

text \<open>
  C19: When the device accepts every request and has answered all of them, no transaction is
  left: both queues are empty.  Writes do not wait for each other in a circle, and the commit
  loop takes every write that became ready behind its predecessor.
\<close>

lemma accepts_drained:
  assumes "zy_accepts (zy_start zs m) s" and "zy_ios s = []"
  shows "zy_list s = [] \<and> zy_rdlist s = [] \<and> zy_out s = 0 \<and> zy_rdout s = 0"
proof -
  have inv: "zy_inv s" and full: "zy_full s"
    using accepts_full [OF assms(1) zy_start_inv] by (simp_all add: zy_full_def zy_start_def zy_txs_def)
  then have pre: "zy_pre s" by (simp add: zy_inv_def)
  note p = zy_pre_parts [OF pre]
  have none: "tx_bio_outstanding t = 0" if "t \<in> set (zy_txs s)" for t
    using full that by (simp add: zy_full_def assms(2))
  have "zy_list s = []"
  proof (cases "zy_list s")
    case (Cons t q)
    then have "tx_bio_outstanding t = 0" "w_ok t" using none p(8) by (simp_all add: zy_txs_def)
    then have "tx_state t = PM_TX" by (simp add: w_ok_def)
    then show ?thesis using inv by (simp add: zy_inv_def head_waits_def Cons)
  qed simp
  moreover have "zy_rdlist s = []"
  proof (cases "zy_rdlist s")
    case (Cons t q)
    then have "tx_bio_outstanding t = 0" "r_ok t" using none p(9) by (simp_all add: zy_txs_def)
    then show ?thesis by (simp add: r_ok_def)
  qed simp
  ultimately show ?thesis using p(1,2) by simp
qed

lemma accepts_drained_witness:
  "\<exists>s s'. demo_call [] demo_sys = Some (0, s) \<and> zy_rdlist s \<noteq> [] \<and>
     zstore_bio_cb True 0 (s\<lparr> zy_ios := [] \<rparr>) = Some s' \<and> zy_rdlist s' = [] \<and> zy_cbs s' = [(0, 0)]"
proof -
  obtain zs t b where t: "tx_tid t = 0" "tx_type t = TX_RDONLY" "tx_state t = DATA_IO" "tx_bio_outstanding t = 1"
    "tx_err t = 0" "\<not> tx_sync t"
    and d: "demo_call [] demo_sys = Some (0, demo_after zs t [(0, b)])"
    using demo_read by blast
  let ?s = "demo_after zs t [(0, b)]"
  have a: "zy_accepts demo_sys ?s"
    by (rule acc_call [OF acc_start _ d [unfolded demo_call_def]]) simp
  obtain s' where s': "zstore_bio_cb True 0 (?s\<lparr> zy_ios := remove1 (0, b) (zy_ios ?s) \<rparr>) = Some s'" "zy_ios s' = []"
    "zy_cbs s' = [(0, 0)]"
    using t by (simp add: zstore_bio_cb_def tx_find_def zstore_tx_execute_def zstore_tx_metadata_def
        tx_store_def tx_change_def zstore_tx_end_def Let_def zstore_user_cb_def demo_after_def)
  have "zy_accepts demo_sys s'" by (rule acc_bio [OF a _ s'(1)]) (simp add: demo_after_def)
  from accepts_drained [OF this [unfolded demo_sys_def] s'(2)] s' d show ?thesis by (simp add: demo_after_def)
qed

end
