(* ===== verification/Zstore_Shape.thy ===== *)
theory Zstore_Shape
  imports Zstore_Queue
begin

text \<open>
  The allocators of a mounted store (\<^verbatim>\<open>zstore.c\<close>, \<^verbatim>\<open>zstore_allocator.h\<close>): what holds of
  their bitmaps, counters and hints in every reachable state, whatever the clients ask for,
  whatever the persistent memory holds and however an operation fails.
\<close>

section \<open>Allocators\<close>

definition alloc_typed :: "stupid_allocator \<Rightarrow> bool" where
  "alloc_typed a \<longleftrightarrow> wf_bs (sa_bs a) \<and> sa_nr_total a \<le> 512 * length (sa_bs a) \<and> sa_hint a < sa_nr_total a \<and>
     card (free_set (sa_bs a) (sa_nr_total a)) \<le> sa_nr_free a"

definition alloc_dims :: "stupid_allocator \<Rightarrow> nat \<times> nat" where
  "alloc_dims a = (sa_nr_total a, length (sa_bs a))"

lemma alloc_space_typed:
  assumes "alloc_typed a" and "0 < sz" and "stupid_alloc_space a sz = Some (rc, a', ex)"
  shows "alloc_typed a' \<and> alloc_dims a' = alloc_dims a"
proof -
  have "res_inv (sa_bs a) (sa_nr_total a) sz (alloc_loop (sa_nr_total a) (sa_hint a) sz (alloc_start a))"
    using assms(1,2) by (intro alloc_loop_res_inv) (simp_all add: alloc_typed_def)
  with stupid_alloc_space_cases [OF assms(3)] assms(1) show ?thesis
    by (auto simp: alloc_typed_def alloc_dims_def free_set_def)
qed

lemma clear_one_count:
  assumes "wf_bs bs" and "in_bs bs i"
  shows "card (free_set (set_word bs i (word_at bs i AND NOT (ull_bit (i mod 64)))) t) \<le> card (free_set bs t) + 1"
proof -
  have "free_set (set_word bs i (word_at bs i AND NOT (ull_bit (i mod 64)))) t \<subseteq> insert i (free_set bs t)"
    by (auto simp: free_set_def bs_bit_clear [OF assms])
  then have "card (free_set (set_word bs i (word_at bs i AND NOT (ull_bit (i mod 64)))) t) \<le> card (insert i (free_set bs t))"
    by (intro card_mono) simp_all
  also have "\<dots> \<le> card (free_set bs t) + 1" by (simp add: card_insert_if)
  finally show ?thesis .
qed

lemma free_blocks_typed:
  "free_blocks bs lba n = Some bs' \<Longrightarrow> wf_bs bs \<Longrightarrow>
     wf_bs bs' \<and> length bs' = length bs \<and> card (free_set bs' t) \<le> card (free_set bs t) + n"
proof (induction bs lba n rule: free_blocks.induct)
  case (2 bs lba n)
  let ?bs = "set_word bs lba (word_at bs lba AND NOT (ull_bit (lba mod 64)))"
  have i: "in_bs bs lba" and f: "free_blocks ?bs (lba + 1) n = Some bs'"
    using 2(2) by (simp_all split: if_splits)
  show ?case using 2(1) [OF i f] clear_one_count [OF 2(3) i, of t] 2(3) by simp
qed simp

lemma free_extents_typed:
  "free_extents bs ex = Some bs' \<Longrightarrow> wf_bs bs \<Longrightarrow>
     wf_bs bs' \<and> length bs' = length bs \<and> card (free_set bs' t) \<le> card (free_set bs t) + sum_list (map ze_len ex)"
proof (induction ex arbitrary: bs)
  case (Cons e ex)
  obtain bs1 where b: "free_blocks bs (ze_lba e) (ze_len e) = Some bs1" "free_extents bs1 ex = Some bs'"
    using Cons.prems(1) by (auto split: option.splits)
  show ?case using free_blocks_typed [OF b(1) Cons.prems(2), of t] Cons.IH [OF b(2)] by simp
qed simp

lemma free_space_typed:
  assumes "alloc_typed a" and "stupid_free_space a ex = Some a'"
  shows "alloc_typed a' \<and> alloc_dims a' = alloc_dims a"
proof -
  obtain bs where b: "free_extents (sa_bs a) ex = Some bs"
    and a': "a' = a\<lparr>sa_bs := bs, sa_nr_free := sa_nr_free a + sum_list (map ze_len ex)\<rparr>"
    using assms(2) by (auto simp: stupid_free_space_def)
  show ?thesis
    using free_extents_typed [OF b, of "sa_nr_total a"] assms(1) by (simp add: a' alloc_typed_def alloc_dims_def)
qed

text \<open>On such an allocator no allocation leaves the bitmap.\<close>

lemma alloc_typed_no_fault:
  assumes "alloc_typed a" and "0 < sz"
  shows "stupid_alloc_space a sz \<noteq> None"
proof -
  have "res_inv (sa_bs a) (sa_nr_total a) sz (alloc_loop (sa_nr_total a) (sa_hint a) sz (alloc_start a))"
    using assms by (intro alloc_loop_res_inv) (simp_all add: alloc_typed_def)
  then show ?thesis by (auto simp: stupid_alloc_space_def alloc_start_def split: alloc_res.splits)
qed

section \<open>Stores\<close>

definition zs_typed :: "zstore \<Rightarrow> bool" where
  "zs_typed zs \<longleftrightarrow> alloc_typed (zs_ssd zs) \<and> alloc_typed (zs_pm zs)"

definition zs_fixed :: "zstore \<Rightarrow> (nat \<times> nat) \<times> (nat \<times> nat)" where
  "zs_fixed zs = (alloc_dims (zs_ssd zs), alloc_dims (zs_pm zs))"

lemma prep_write_typed:
  assumes "zs_typed zs" and "0 < rw_len a div 2 ^ 12" and "tx_prep_write zs tx m g a oe e = Prep_rc rc zs' tx' m'"
  shows "zs_typed zs' \<and> zs_fixed zs' = zs_fixed zs"
proof -
  have "zs' = zs \<or> (\<exists>ssd1 rc' ssd2 enew. (ssd1 = zs_ssd zs \<or> stupid_free_space (zs_ssd zs) e = Some ssd1) \<and>
      stupid_alloc_space ssd1 (rw_len a div 2 ^ 12) = Some (rc', ssd2, enew) \<and> zs' = zs\<lparr> zs_ssd := ssd2 \<rparr>)"
    using assms(3)
    by (auto simp: tx_prep_write_def Let_def split: if_splits option.splits prod.splits bool.splits)
  then show ?thesis
  proof (elim disjE exE conjE)
    fix ssd1 rc' ssd2 enew
    assume f: "stupid_free_space (zs_ssd zs) e = Some ssd1"
      and al: "stupid_alloc_space ssd1 (rw_len a div 2 ^ 12) = Some (rc', ssd2, enew)" and z: "zs' = zs\<lparr> zs_ssd := ssd2 \<rparr>"
    show ?thesis
      using free_space_typed [OF _ f] alloc_space_typed [OF _ assms(2) al] assms(1)
      by (simp add: z zs_typed_def zs_fixed_def)
  qed (use alloc_space_typed [OF _ assms(2)] assms(1) in \<open>auto simp: zs_typed_def zs_fixed_def\<close>)
qed

lemma prep_rw_typed:
  assumes "zs_typed zs" and "tx_prep_rw_common zs tx m g op meta = Prep_rc rc zs' tx' m'"
  shows "zs_typed zs' \<and> zs_fixed zs' = zs_fixed zs"
proof -
  let ?a = "op_rw_decode meta"
  have "zs' = zs \<or> (rw_len ?a \<noteq> 0 \<and> rw_len ?a mod 4096 = 0 \<and>
      (\<exists>oe e. tx_prep_write zs tx m g ?a oe e = Prep_rc rc zs' tx' m'))"
    using assms(2)
    by (auto simp: tx_prep_rw_common_def tx_prep_read_def Let_def ZSTORE_PAGE_SIZE_def
        split: if_splits option.splits prod.splits)
  moreover have "0 < rw_len ?a div 2 ^ 12" if "rw_len ?a \<noteq> 0" "rw_len ?a mod 4096 = 0"
    using that by (auto simp: div_greater_zero_iff)
  ultimately show ?thesis
    by (elim disjE exE conjE) (use assms(1) in simp, rule prep_write_typed [OF assms(1)])
qed

lemma prep_cre_del_typed:
  assumes "zs_typed zs" and "tx_prep_cre_del_common zs tx m g op meta = Prep_rc rc zs' tx' m'"
  shows "zs_typed zs' \<and> zs_fixed zs' = zs_fixed zs"
proof -
  have "zs' = zs \<or> (\<exists>pma. zs' = zs\<lparr> zs_pm := pma \<rparr> \<and>
      ((\<exists>rc' ze. stupid_alloc_space (zs_pm zs) 1 = Some (rc', pma, ze)) \<or>
       (\<exists>ex. stupid_free_space (zs_pm zs) ex = Some pma)))"
    using assms(2)
    by (auto simp: tx_prep_cre_del_common_def Let_def split: if_splits option.splits prod.splits)
  moreover have "zs_typed (zs\<lparr> zs_pm := pma \<rparr>) \<and> zs_fixed (zs\<lparr> zs_pm := pma \<rparr>) = zs_fixed zs"
    if "alloc_typed pma \<and> alloc_dims pma = alloc_dims (zs_pm zs)" for pma
    using that assms(1) by (simp add: zs_typed_def zs_fixed_def)
  moreover have "alloc_typed (zs_pm zs)" using assms(1) by (simp add: zs_typed_def)
  ultimately show ?thesis
    using alloc_space_typed [of "zs_pm zs" 1, OF _ zero_less_one] free_space_typed [of "zs_pm zs"] assms(1) by blast
qed

lemma prepare_typed:
  assumes "zs_typed zs" and "zstore_tx_prepare zs m g op meta = Prep_rc rc zs' tx' m'"
  shows "zs_typed zs' \<and> zs_fixed zs' = zs_fixed zs"
proof -
  let ?z = "zs\<lparr> zs_tid_max := zs_tid_max zs + 1 \<rparr>"
  have z: "zs_typed ?z" "zs_fixed ?z = zs_fixed zs" using assms(1) by (simp_all add: zs_typed_def zs_fixed_def alloc_dims_def)
  consider "zs' = ?z"
    | "tx_prep_cre_del_common ?z (tx_init (zs_tid_max zs)) m g op meta = Prep_rc rc zs' tx' m'"
    | "tx_prep_rw_common ?z (tx_init (zs_tid_max zs)) m g op meta = Prep_rc rc zs' tx' m'"
    using assms(2) by (simp add: zstore_tx_prepare_def Let_def split: if_splits)
  then show ?thesis
  proof cases
    case 1
    with z show ?thesis by simp
  next
    case 2
    from prep_cre_del_typed [OF z(1) 2] z(2) show ?thesis by simp
  next
    case 3
    from prep_rw_typed [OF z(1) 3] z(2) show ?thesis by simp
  qed
qed

section \<open>Executions\<close>

definition same_shape :: "zsys \<Rightarrow> zsys \<Rightarrow> bool" where
  "same_shape s s' \<longleftrightarrow> (zs_typed (zy_zs s) \<longrightarrow> zs_typed (zy_zs s')) \<and> zs_fixed (zy_zs s') = zs_fixed (zy_zs s)"

lemma same_shape_refl: "zy_zs s' = zy_zs s \<Longrightarrow> same_shape s s'"
  by (simp add: same_shape_def)

lemma same_shape_trans: "same_shape s s' \<Longrightarrow> same_shape s' s'' \<Longrightarrow> same_shape s s''"
  by (simp add: same_shape_def)

lemma end_zs [simp]: "zy_zs (zstore_tx_end tx s) = zy_zs s"
  by (simp add: zstore_tx_end_def zstore_user_cb_def Let_def)

lemma commit_loop_shape: "tx_commit_loop q s = Some s' \<Longrightarrow> same_shape s s'"
proof (induction q s rule: tx_commit_loop.induct)
  case (1 s)
  then show ?case by (simp add: same_shape_def)
next
  case (2 tx q s)
  show ?case
  proof (cases "tx_state tx = PM_TX")
    case False
    then show ?thesis using 2(2) by (simp add: same_shape_def)
  next
    case True
    obtain pm ops pm' dram where pm: "tx_pm tx = Some pm"
      "pmem_transaction_apply (zs_pmem (zy_zs s)) pm (zs_dram (zy_zs s)) = Some (ops, pm', dram)"
      using 2(2) True by (auto split: option.splits)
    let ?s = "s\<lparr> zy_mem := pm_run ops (zy_mem s), zy_zs := (zy_zs s)\<lparr> zs_dram := dram \<rparr>,
        zy_commits := zy_commits s @ [tx_tid tx] \<rparr>"
    let ?e = "zstore_tx_end (tx\<lparr> tx_err := OSTORE_EXECUTE_OK \<rparr>) ?s"
    have r: "tx_commit_loop q ?e = Some s'" using 2(2) True pm by simp
    have "same_shape s ?e" by (simp add: same_shape_def zs_typed_def zs_fixed_def)
    moreover have "same_shape ?e s'" using 2(1) [of pm "(ops, pm', dram)" ops "(pm', dram)" pm' dram] True pm r by simp
    ultimately show ?thesis by (rule same_shape_trans)
  qed
qed

lemma metadata_shape: "zstore_tx_metadata tx s = Some s' \<Longrightarrow> same_shape s s'"
  by (auto simp: zstore_tx_metadata_def tx_store_def Let_def same_shape_def
      dest!: commit_loop_shape split: if_splits)

lemma execute_shape: "zstore_tx_execute tx rcs s = Some s' \<Longrightarrow> same_shape s s'"
  by (auto simp: zstore_tx_execute_def same_shape_def dest: metadata_shape [unfolded same_shape_def] split: tx_state.splits)

lemma step_shape:
  assumes "zy_step s s'" and "zs_typed (zy_zs s)"
  shows "zs_typed (zy_zs s') \<and> zs_fixed (zy_zs s') = zs_fixed (zy_zs s)"
  using assms(1)
proof cases
  case (zy_call g op meta rcs rc)
  then obtain rc' zs tx m where p: "zstore_tx_prepare (zy_zs s) (zy_mem s) g op meta = Prep_rc rc' zs tx m"
    and r: "s' = s\<lparr> zy_zs := zs, zy_mem := m \<rparr> \<or>
      zstore_tx_execute tx rcs (zstore_tx_enqueue tx (s\<lparr> zy_zs := zs, zy_mem := m \<rparr>)) = Some s'"
    by (auto simp: zstore_obj_async_op_call_def Let_def split: prep_res.splits if_splits)
  have "zy_zs (zstore_tx_enqueue tx (s\<lparr> zy_zs := zs, zy_mem := m \<rparr>)) = zs"
    by (simp add: zstore_tx_enqueue_def)
  then show ?thesis
    using prepare_typed [OF assms(2) p] r execute_shape by (fastforce simp: same_shape_def)
next
  case (zy_bio tid b)
  then have "same_shape s s'"
    by (auto simp: zstore_bio_cb_def Let_def tx_store_def same_shape_def
        dest!: execute_shape split: if_splits option.splits)
  with assms(2) show ?thesis by (simp add: same_shape_def)
next
  case (zy_msg msg msgs)
  with assms(2) show ?thesis by (simp add: zstore_user_cb_def)
qed

text \<open>
  C20: The allocators stay sound. Start from a store both of whose allocators are sound: every
  bitmap entry has eight words, the bitmap covers all blocks, the hint names a block, and the
  free counter is at least the number of clear bits. Whatever the clients submit, whatever
  PM contains and however operations fail, this holds of both allocators in every reachable
  state, with as many blocks and bitmap entries as at the start; so no allocation of any
  size then leaves the bitmap, and one that is refused for the counter alone does lack the
  blocks.
\<close>

theorem store_keeps_shape:
  assumes "zy_reach (zy_start zs m) s"
    and "\<forall>a \<in> {zs_ssd zs, zs_pm zs}. wf_bs (sa_bs a) \<and> sa_nr_total a \<le> 512 * length (sa_bs a) \<and>
      sa_hint a < sa_nr_total a \<and> card (free_set (sa_bs a) (sa_nr_total a)) \<le> sa_nr_free a"
  shows "(\<forall>a \<in> {zs_ssd (zy_zs s), zs_pm (zy_zs s)}. wf_bs (sa_bs a) \<and> sa_nr_total a \<le> 512 * length (sa_bs a) \<and>
      sa_hint a < sa_nr_total a \<and> card (free_set (sa_bs a) (sa_nr_total a)) \<le> sa_nr_free a \<and>
      (\<forall>sz. 0 < sz \<longrightarrow> stupid_alloc_space a sz \<noteq> None)) \<and>
    sa_nr_total (zs_ssd (zy_zs s)) = sa_nr_total (zs_ssd zs) \<and>
    length (sa_bs (zs_ssd (zy_zs s))) = length (sa_bs (zs_ssd zs)) \<and>
    sa_nr_total (zs_pm (zy_zs s)) = sa_nr_total (zs_pm zs) \<and>
    length (sa_bs (zs_pm (zy_zs s))) = length (sa_bs (zs_pm zs))"
proof -
  have t0: "zs_typed zs" using assms(2) by (simp add: zs_typed_def alloc_typed_def)
  have "zs_typed (zy_zs s) \<and> zs_fixed (zy_zs s) = zs_fixed zs"
    using assms(1)
  proof (induction rule: zy_reach.induct)
    case reach_start
    then show ?case using t0 by (simp add: zy_start_def)
  next
    case (reach_step s s')
    then show ?case using step_shape by simp
  qed
  moreover then have "0 < sz \<Longrightarrow> stupid_alloc_space (zs_ssd (zy_zs s)) sz \<noteq> None"
    "0 < sz \<Longrightarrow> stupid_alloc_space (zs_pm (zy_zs s)) sz \<noteq> None" for sz
    using alloc_typed_no_fault by (auto simp only: zs_typed_def)
  ultimately show ?thesis by (clarsimp simp: zs_typed_def zs_fixed_def alloc_typed_def alloc_dims_def)
qed

lemma store_keeps_shape_witness:
  "\<exists>s. demo_call [] demo_sys = Some (0, s) \<and> stupid_alloc_space (zs_ssd (zy_zs s)) 5 \<noteq> None \<and>
     length (sa_bs (zs_ssd (zy_zs s))) = 2 \<and> zy_rdlist s \<noteq> []"
proof -
  obtain zs t b where d: "demo_call [] demo_sys = Some (0, demo_after zs t [(0, b)])"
    using demo_read by blast
  have "zy_step demo_sys (demo_after zs t [(0, b)])" by (rule zy_call [OF d [unfolded demo_call_def]])
  then have "zy_reach demo_sys (demo_after zs t [(0, b)])" by (rule reach_step [OF reach_start])
  note r = this [unfolded demo_sys_def]
  have "alloc_typed (demo_blank 2 0)" "alloc_typed (demo_alloc 4 (replicate 8 0) 4)"
    using demo_blank_inv [of 2 0] demo_empty_inv
    by (simp_all add: alloc_typed_def alloc_inv_def) (simp_all add: demo_blank_def demo_alloc_def)
  then have ty: "\<forall>a \<in> {zs_ssd (demo_store (demo_blank 2 0) (\<lambda>_. 0)), zs_pm (demo_store (demo_blank 2 0) (\<lambda>_. 0))}.
      wf_bs (sa_bs a) \<and> sa_nr_total a \<le> 512 * length (sa_bs a) \<and>
      sa_hint a < sa_nr_total a \<and> card (free_set (sa_bs a) (sa_nr_total a)) \<le> sa_nr_free a"
    by (simp add: demo_store_def alloc_typed_def)
  have "length (sa_bs (zs_ssd (demo_store (demo_blank 2 0) (\<lambda>_. 0)))) = 2" by (simp add: demo_store_def demo_blank_def)
  with store_keeps_shape [OF r ty] d show ?thesis by (simp add: demo_after_def)
qed

end
