(* ===== verification/Messager.thy ===== *)
theory Messager
  imports Message Errcode
begin

text \<open>
  The socket messager (\<^verbatim>\<open>messager.c\<close>, \<^verbatim>\<open>net.h\<close>, \<^verbatim>\<open>net_posix.c\<close>): sessions with a queue of messages
  being received and one of messages to send.  The kernel is outside: a socket carries the
  answers it gives to \<^verbatim>\<open>readv\<close> and \<^verbatim>\<open>writev\<close> as lists of events, and \<open>sk_wire\<close> are the
  bytes written to it.  \<open>errno\<close> is a part of the state, since the code leaves old values in
  it.
\<close>

section \<open>Sockets\<close>

datatype sock_status = SOCK_RWOK | SOCK_EAGAIN | SOCK_NEED_CLOSE

definition EAGAIN :: nat where "EAGAIN = 11"
definition EFAULT :: nat where "EFAULT = 14"

datatype rx_ev = Rx_bytes "u8 list" | Rx_eof | Rx_err nat
datatype tx_ev = Tx_bytes nat | Tx_err nat

record sock =
  sk_rx :: "rx_ev list"
  sk_tx :: "tx_ev list"
  sk_wire :: "u8 list"

text \<open>
  \<^verbatim>\<open>readv\<close> with one buffer of \<open>n\<close> bytes: the return value, the bytes read, the socket and
  \<open>errno\<close>.  A list of events that is used up is a socket without data; the end of the stream
  stays.
\<close>

fun posix_readv :: "nat \<Rightarrow> sock \<Rightarrow> nat \<Rightarrow> int \<times> u8 list \<times> sock \<times> nat" where
  "posix_readv n s errno =
     (case sk_rx s of
        [] \<Rightarrow> (- 1, [], s, EAGAIN)
      | Rx_bytes bs # r \<Rightarrow>
          if length bs \<le> n then (int (length bs), bs, s\<lparr> sk_rx := r \<rparr>, errno)
          else (int n, take n bs, s\<lparr> sk_rx := Rx_bytes (drop n bs) # r \<rparr>, errno)
      | Rx_eof # r \<Rightarrow> (0, [], s, errno)
      | Rx_err e # r \<Rightarrow> (- 1, [], s\<lparr> sk_rx := r \<rparr>, e))"

fun posix_writev :: "u8 list \<Rightarrow> sock \<Rightarrow> nat \<Rightarrow> int \<times> sock \<times> nat" where
  "posix_writev bs s errno =
     (case sk_tx s of
        [] \<Rightarrow> (- 1, s, EAGAIN)
      | Tx_bytes k # r \<Rightarrow>
          (int (min k (length bs)), s\<lparr> sk_tx := r, sk_wire := sk_wire s @ take k bs \<rparr>, errno)
      | Tx_err e # r \<Rightarrow> (- 1, s\<lparr> sk_tx := r \<rparr>, e))"

text \<open>The sockets with input, of those that reported an event.\<close>

definition posix_group_poll :: "(nat \<times> bool) list option \<Rightarrow> nat list option" where
  "posix_group_poll events = map_option (\<lambda>ev. map fst (filter snd ev)) events"

text \<open>The macro \<open>_sock_rc_handle\<close>: what a return value means for the bytes left.\<close>

definition sock_rc_handle :: "int \<Rightarrow> nat \<Rightarrow> nat \<Rightarrow> sock_status \<times> nat \<times> nat" where
  "sock_rc_handle rc errno rem =
     (if rc \<le> 0 then (if errno = EAGAIN then (SOCK_EAGAIN, 0, rem) else (SOCK_NEED_CLOSE, errno, rem))
      else let rem' = nat (int rem - rc) in (if rem' \<noteq> 0 then SOCK_EAGAIN else SOCK_RWOK, errno, rem'))"

section \<open>Messages in transfer\<close>

definition msg_construct :: "nat \<Rightarrow> message" where
  "msg_construct session = message_zero\<lparr> priv_ctx := session, hdr_rem_len := hdr_size \<rparr>"

definition msg_new :: "message \<Rightarrow> bool" where "msg_new m \<longleftrightarrow> hdr_rem_len m = hdr_size"

definition msg_rem_tlen :: "message \<Rightarrow> nat" where
  "msg_rem_tlen m = hdr_rem_len m + meta_rem_len m + data_rem_len m"

definition msg_rw_complete :: "message \<Rightarrow> bool" where "msg_rw_complete m \<longleftrightarrow> msg_rem_tlen m = 0"

text \<open>Overwriting a part of a buffer.\<close>

definition splice :: "nat \<Rightarrow> u8 list \<Rightarrow> u8 list \<Rightarrow> u8 list" where
  "splice off bs buf = take off buf @ bs @ drop (off + length bs) buf"

text \<open>
  The three parts of \<open>_do_recv_message\<close>.  \<open>alloc\<close> is what a buffer fresh from the allocator
  holds.
\<close>

definition recv_hdr ::
    "(nat \<Rightarrow> u8 list) \<Rightarrow> message \<Rightarrow> sock \<Rightarrow> nat \<Rightarrow> sock_status \<times> message \<times> sock \<times> nat" where
  "recv_hdr alloc m s errno =
     (if hdr_rem_len m = 0 then (SOCK_RWOK, m, s, errno)
      else let (rc, bs, s1, errno1) = posix_readv (hdr_rem_len m) s errno;
               (err, errno2, rem) = sock_rc_handle rc errno1 (hdr_rem_len m);
               h = hdr_decode (splice (hdr_size - hdr_rem_len m) bs (hdr_encode (m_header m)));
               m1 = m\<lparr> m_header := h, hdr_rem_len := rem \<rparr>
           in if err \<noteq> SOCK_RWOK then (err, m1, s1, errno2)
              else (SOCK_RWOK, m1\<lparr>
                  meta_rem_len := h_meta_length h,
                  meta_buffer := if 0 < h_meta_length h then Some (alloc (h_meta_length h)) else meta_buffer m,
                  data_rem_len := h_data_length h,
                  data_buffer := if 0 < h_data_length h then Some (alloc (h_data_length h)) else data_buffer m \<rparr>,
                s1, errno2))"

definition recv_meta :: "message \<Rightarrow> sock \<Rightarrow> nat \<Rightarrow> sock_status \<times> message \<times> sock \<times> nat" where
  "recv_meta m s errno =
     (if meta_rem_len m = 0 then (SOCK_RWOK, m, s, errno)
      else let (rc, bs, s1, errno1) = posix_readv (meta_rem_len m) s errno;
               (err, errno2, rem) = sock_rc_handle rc errno1 (meta_rem_len m);
               off = h_meta_length (m_header m) - meta_rem_len m
           in (err, m\<lparr> meta_buffer := map_option (splice off bs) (meta_buffer m), meta_rem_len := rem \<rparr>, s1, errno2))"

definition recv_data :: "message \<Rightarrow> sock \<Rightarrow> nat \<Rightarrow> sock_status \<times> message \<times> sock \<times> nat" where
  "recv_data m s errno =
     (if data_rem_len m = 0 then (SOCK_RWOK, m, s, errno)
      else let (rc, bs, s1, errno1) = posix_readv (data_rem_len m) s errno;
               (err, errno2, rem) = sock_rc_handle rc errno1 (data_rem_len m);
               off = h_data_length (m_header m) - data_rem_len m
           in (err, m\<lparr> data_buffer := map_option (splice off bs) (data_buffer m), data_rem_len := rem \<rparr>, s1, errno2))"

definition do_recv_message ::
    "(nat \<Rightarrow> u8 list) \<Rightarrow> message \<Rightarrow> sock \<Rightarrow> nat \<Rightarrow> sock_status \<times> message \<times> sock \<times> nat" where
  "do_recv_message alloc m s errno =
     (case recv_hdr alloc m s errno of
        (SOCK_RWOK, m1, s1, e1) \<Rightarrow>
          (case recv_meta m1 s1 e1 of
             (SOCK_RWOK, m2, s2, e2) \<Rightarrow> recv_data m2 s2 e2
           | r \<Rightarrow> r)
      | r \<Rightarrow> r)"

text \<open>
  One part of \<open>_do_send_message\<close>: the last \<open>rem\<close> bytes of a buffer.  A null pointer is an
  error of the system call.
\<close>

definition send_part :: "u8 list option \<Rightarrow> nat \<Rightarrow> nat \<Rightarrow> sock \<Rightarrow> nat \<Rightarrow> sock_status \<times> nat \<times> sock \<times> nat" where
  "send_part buf len rem s errno =
     (if rem = 0 then (SOCK_RWOK, 0, s, errno)
      else case buf of
        None \<Rightarrow> (SOCK_NEED_CLOSE, rem, s, EFAULT)
      | Some b \<Rightarrow>
          (let (rc, s1, errno1) = posix_writev (take rem (drop (len - rem) b)) s errno;
               (err, errno2, rem') = sock_rc_handle rc errno1 rem
           in (err, rem', s1, errno2)))"

definition do_send_message :: "message \<Rightarrow> sock \<Rightarrow> nat \<Rightarrow> sock_status \<times> message \<times> sock \<times> nat" where
  "do_send_message m s errno =
     (let h = m_header m; (err, rem, s1, e1) = send_part (Some (hdr_encode h)) hdr_size (hdr_rem_len m) s errno;
          m1 = m\<lparr> hdr_rem_len := rem \<rparr>
      in if err \<noteq> SOCK_RWOK then (err, m1, s1, e1)
         else let (err, rem, s2, e2) = send_part (meta_buffer m) (h_meta_length h) (meta_rem_len m) s1 e1;
                  m2 = m1\<lparr> meta_rem_len := rem \<rparr>
              in if err \<noteq> SOCK_RWOK then (err, m2, s2, e2)
                 else let (err, rem, s3, e3) = send_part (data_buffer m) (h_data_length h) (data_rem_len m) s2 e2
                      in (err, m2\<lparr> data_rem_len := rem \<rparr>, s3, e3))"

section \<open>Receiving on a session\<close>

definition tail_recv_msg :: "nat \<Rightarrow> message list \<Rightarrow> message list" where
  "tail_recv_msg ctx q =
     (if q = [] then [msg_construct ctx]
      else if msg_rw_complete (last q) then q @ [msg_construct ctx] else q)"

text \<open>What the events left can still deliver: the measure of the loop.\<close>

fun rx_ev_size :: "rx_ev \<Rightarrow> nat" where
  "rx_ev_size (Rx_bytes bs) = Suc (length bs)"
| "rx_ev_size Rx_eof = 1"
| "rx_ev_size (Rx_err e) = 1"

definition rx_size :: "sock \<Rightarrow> nat" where
  "rx_size s = sum_list (map rx_ev_size (sk_rx s))"

lemma readv_size:
  "posix_readv n s e = (rc, bs, s1, e1) \<Longrightarrow> 0 < n \<Longrightarrow> 0 < rc \<Longrightarrow> rx_size s1 < rx_size s"
  by (cases "sk_rx s") (auto simp: rx_size_def split: rx_ev.splits if_splits)

lemma readv_size_le: "posix_readv n s e = (rc, bs, s1, e1) \<Longrightarrow> rx_size s1 \<le> rx_size s"
  by (cases "sk_rx s") (auto simp: rx_size_def split: rx_ev.splits if_splits)

declare posix_readv.simps [simp del] posix_writev.simps [simp del]

lemma rc_handle_ok: "sock_rc_handle rc e rem = (SOCK_RWOK, e', rem') \<Longrightarrow> 0 < rc \<and> rem' = 0"
  by (auto simp: sock_rc_handle_def Let_def split: if_splits)

lemma recv_part_size:
  "recv_hdr alloc m s e = (err, m1, s1, e1) \<Longrightarrow>
     rx_size s1 \<le> rx_size s \<and> (err = SOCK_RWOK \<and> hdr_rem_len m \<noteq> 0 \<longrightarrow> rx_size s1 < rx_size s) \<and>
     (hdr_rem_len m = 0 \<longrightarrow> m1 = m)"
  "recv_meta m s e = (err, m1, s1, e1) \<Longrightarrow>
     rx_size s1 \<le> rx_size s \<and> (err = SOCK_RWOK \<and> meta_rem_len m \<noteq> 0 \<longrightarrow> rx_size s1 < rx_size s) \<and>
     (meta_rem_len m = 0 \<longrightarrow> m1 = m)"
  "recv_data m s e = (err, m1, s1, e1) \<Longrightarrow>
     rx_size s1 \<le> rx_size s \<and> (err = SOCK_RWOK \<and> data_rem_len m \<noteq> 0 \<longrightarrow> rx_size s1 < rx_size s)"
  by (auto simp: recv_hdr_def recv_meta_def recv_data_def Let_def
      split: if_splits prod.splits dest: readv_size readv_size_le rc_handle_ok)

lemma do_recv_size:
  assumes "do_recv_message alloc m s e = (SOCK_RWOK, m', s', e')" and "\<not> msg_rw_complete m"
  shows "rx_size s' < rx_size s"
proof -
  obtain m1 s1 e1 where 1: "recv_hdr alloc m s e = (SOCK_RWOK, m1, s1, e1)"
    using assms(1) by (auto simp: do_recv_message_def split: prod.splits sock_status.splits)
  obtain m2 s2 e2 where 2: "recv_meta m1 s1 e1 = (SOCK_RWOK, m2, s2, e2)"
    using assms(1) 1 by (auto simp: do_recv_message_def split: prod.splits sock_status.splits)
  have 3: "recv_data m2 s2 e2 = (SOCK_RWOK, m', s', e')"
    using assms(1) 1 2 by (simp add: do_recv_message_def)
  note z = recv_part_size(1) [OF 1] recv_part_size(2) [OF 2] recv_part_size(3) [OF 3]
  show ?thesis
  proof (cases "hdr_rem_len m = 0 \<and> meta_rem_len m = 0")
    case True
    then have "data_rem_len m2 \<noteq> 0" using assms(2) z by (simp add: msg_rw_complete_def msg_rem_tlen_def)
    then show ?thesis using z by simp
  next
    case False
    then show ?thesis using z by (cases "hdr_rem_len m = 0") auto
  qed
qed

text \<open>The loop that receives all there is.\<close>

function recv_all ::
    "(nat \<Rightarrow> u8 list) \<Rightarrow> nat \<Rightarrow> message list \<Rightarrow> sock \<Rightarrow> nat \<Rightarrow> sock_status \<times> message list \<times> sock \<times> nat" where
  "recv_all alloc ctx q s errno =
     (let q1 = tail_recv_msg ctx q;
          (err, m, s1, errno1) = do_recv_message alloc (last q1) s errno;
          q2 = butlast q1 @ [m]
      in if err = SOCK_RWOK then recv_all alloc ctx q2 s1 errno1 else (err, q2, s1, errno1))"
  by pat_completeness auto

lemma tail_recv_incomplete: "\<not> msg_rw_complete (last (tail_recv_msg ctx q))"
  by (simp add: tail_recv_msg_def msg_rw_complete_def msg_rem_tlen_def msg_construct_def hdr_size_def)

termination recv_all
  by (relation "measure (\<lambda>(alloc, ctx, q, s, errno). rx_size s)")
    (auto dest: do_recv_size [OF sym tail_recv_incomplete])

declare recv_all.simps [simp del]

section \<open>Sessions\<close>

record session =
  ss_id :: nat
  ss_ctx :: nat
  ss_port :: int
  ss_ip :: string
  ss_sock :: sock
  recv_q :: "message list"
  send_q :: "message list"

text \<open>
  The messager of a thread: \<open>mg_received\<close> and \<open>mg_sent\<close> are the messages its callbacks were
  called with; \<open>mg_listen\<close> tells whether the listening socket is allocated.
\<close>

record messager =
  mg_running :: bool
  mg_server :: bool
  mg_pollers :: "bool option"
  mg_listen :: bool
  mg_sessions :: "session list"
  mg_errno :: nat
  mg_received :: "message list"
  mg_sent :: "message list"

datatype 'a ub = Fine 'a | Use_after_free

definition find_session :: "nat \<Rightarrow> messager \<Rightarrow> session option" where
  "find_session sid g = find (\<lambda>ss. ss_id ss = sid) (mg_sessions g)"

definition put_session :: "session \<Rightarrow> messager \<Rightarrow> messager" where
  "put_session ss g = g\<lparr> mg_sessions := map (\<lambda>x. if ss_id x = ss_id ss then ss else x) (mg_sessions g) \<rparr>"

definition session_destruct :: "nat \<Rightarrow> messager \<Rightarrow> messager" where
  "session_destruct sid g = g\<lparr> mg_sessions := filter (\<lambda>x. ss_id x \<noteq> sid) (mg_sessions g) \<rparr>"

text \<open>
  A session lives as long as it is among the sessions of its messager: \<open>session_destruct\<close>
  takes it out, with its queues, and frees it, and whoever looks for it afterwards touches freed
  memory.
\<close>

definition pop_received :: "nat \<Rightarrow> messager \<Rightarrow> (nat \<times> messager) ub" where
  "pop_received sid g =
     (case find_session sid g of
        None \<Rightarrow> Use_after_free
      | Some ss \<Rightarrow>
          (let popped = takeWhile msg_rw_complete (recv_q ss)
           in Fine (length popped, put_session (ss\<lparr> recv_q := dropWhile msg_rw_complete (recv_q ss) \<rparr>)
                (g\<lparr> mg_received := mg_received g @ popped \<rparr>))))"

text \<open>All there is is received; a session that must be closed is destroyed; then the queue is popped.\<close>

definition read_event_callback :: "(nat \<Rightarrow> u8 list) \<Rightarrow> session \<Rightarrow> messager \<Rightarrow> (nat \<times> messager) ub" where
  "read_event_callback alloc ss g =
     (let (err, q, s, errno) = recv_all alloc (ss_id ss) (recv_q ss) (ss_sock ss) (mg_errno g);
          g1 = put_session (ss\<lparr> ss_sock := s, recv_q := q \<rparr>) (g\<lparr> mg_errno := errno \<rparr>);
          g2 = (if err = SOCK_NEED_CLOSE then session_destruct (ss_id ss) g1 else g1)
      in pop_received (ss_id ss) g2)"

fun read_results :: "(nat \<Rightarrow> u8 list) \<Rightarrow> nat list \<Rightarrow> messager \<Rightarrow> (nat \<times> messager) ub" where
  "read_results alloc [] g = Fine (0, g)"
| "read_results alloc (sid # sids) g =
     (case find_session sid g of
        None \<Rightarrow> Use_after_free
      | Some ss \<Rightarrow>
          (case read_event_callback alloc ss g of
             Use_after_free \<Rightarrow> Use_after_free
           | Fine (n, g1) \<Rightarrow>
               (case read_results alloc sids g1 of
                  Use_after_free \<Rightarrow> Use_after_free
                | Fine (k, g2) \<Rightarrow> Fine (n + k, g2))))"

definition poll_read_events :: "(nat \<Rightarrow> u8 list) \<Rightarrow> (nat \<times> bool) list option \<Rightarrow> messager \<Rightarrow> (int \<times> messager) ub" where
  "poll_read_events alloc events g =
     (case posix_group_poll events of
        None \<Rightarrow> Fine (- 1, g)
      | Some sids \<Rightarrow>
          (case read_results alloc sids g of
             Use_after_free \<Rightarrow> Use_after_free
           | Fine (n, g1) \<Rightarrow> Fine (int n, g1)))"

section \<open>Sending\<close>

text \<open>The queued message is a copy, its transfer state included.\<close>

definition push_msg :: "message \<Rightarrow> messager \<Rightarrow> (int \<times> messager) ub" where
  "push_msg m g =
     (case find_session (priv_ctx m) g of
        None \<Rightarrow> Use_after_free
      | Some ss \<Rightarrow> Fine (0, put_session (ss\<lparr> send_q := send_q ss @ [m] \<rparr>) g))"

text \<open>
  Sending the queue of one session: the messages sent, the queue left, the socket, \<open>errno\<close>
  and whether the session died.
\<close>

fun flush_q :: "message list \<Rightarrow> sock \<Rightarrow> nat \<Rightarrow> message list \<times> message list \<times> sock \<times> nat \<times> bool" where
  "flush_q [] s errno = ([], [], s, errno, False)"
| "flush_q (m # q) s errno =
     (case do_send_message m s errno of
        (SOCK_RWOK, m', s', errno') \<Rightarrow>
          (let (sent, rest, s'', errno'', died) = flush_q q s' errno' in (m' # sent, rest, s'', errno'', died))
      | (SOCK_EAGAIN, m', s', errno') \<Rightarrow> ([], m' # q, s', errno', False)
      | (SOCK_NEED_CLOSE, m', s', errno') \<Rightarrow> ([], m' # q, s', errno', True))"

definition flush_msg_of :: "session \<Rightarrow> messager \<Rightarrow> nat \<times> messager" where
  "flush_msg_of ss g =
     (let (sent, rest, s, errno, died) = flush_q (send_q ss) (ss_sock ss) (mg_errno g);
          g1 = g\<lparr> mg_errno := errno, mg_sent := mg_sent g @ sent \<rparr>;
          g2 = put_session (ss\<lparr> send_q := rest, ss_sock := s \<rparr>) g1
      in (length sent, if died then session_destruct (ss_id ss) g2 else g2))"

text \<open>All sessions in turn; those that died are destroyed after the loop.\<close>

fun flush_loop :: "session list \<Rightarrow> messager \<Rightarrow> nat \<times> nat list \<times> messager" where
  "flush_loop [] g = (0, [], g)"
| "flush_loop (ss # sss) g =
     (let (sent, rest, s, errno, died) = flush_q (send_q ss) (ss_sock ss) (mg_errno g);
          g1 = put_session (ss\<lparr> send_q := rest, ss_sock := s \<rparr>)
                 (g\<lparr> mg_errno := errno, mg_sent := mg_sent g @ sent \<rparr>);
          (n, dead, g2) = flush_loop sss g1
      in (length sent + n, (if died then [ss_id ss] else []) @ dead, g2))"

definition flush_all :: "messager \<Rightarrow> nat \<times> messager" where
  "flush_all g = (let (n, dead, g1) = flush_loop (mg_sessions g) g in (n, fold session_destruct dead g1))"

section \<open>Connections\<close>

definition session_construct :: "nat \<Rightarrow> string \<Rightarrow> int \<Rightarrow> sock \<Rightarrow> bool \<Rightarrow> session option" where
  "session_construct sid ip port sk group_add_failed =
     (if group_add_failed then None
      else Some \<lparr> ss_id = sid, ss_ctx = 0, ss_port = port, ss_ip = ip, ss_sock = sk, recv_q = [], send_q = [] \<rparr>)"

text \<open>
  The answers to \<^verbatim>\<open>accept\<close>: a socket with the addresses of its peer (\<^term>\<open>None\<close> when they
  cannot be had) and whether adding it to the group fails, or a failure with \<open>errno\<close>.
\<close>

datatype acc_ev = Acc_sock nat sock "(string \<times> int) option" bool | Acc_fail nat

fun sock_accept_poll :: "acc_ev list \<Rightarrow> messager \<Rightarrow> int \<times> messager" where
  "sock_accept_poll [] g = (0, g\<lparr> mg_errno := EAGAIN \<rparr>)"
| "sock_accept_poll (Acc_fail e # evs) g = (0, g\<lparr> mg_errno := e \<rparr>)"
| "sock_accept_poll (Acc_sock sid sk addr failed # evs) g =
     (case addr of
        None \<Rightarrow> (- 1, g)
      | Some (ip, port) \<Rightarrow>
          (case session_construct sid ip port sk failed of
             None \<Rightarrow> sock_accept_poll evs g
           | Some ss \<Rightarrow>
               (let (n, g1) = sock_accept_poll evs (g\<lparr> mg_sessions := mg_sessions g @ [ss] \<rparr>)
                in (if n < 0 then n else n + 1, g1))))"

text \<open>A client session: a socket that cannot be added to the group is a null pointer.\<close>

definition cli_connect :: "nat \<Rightarrow> string \<Rightarrow> int \<Rightarrow> nat \<Rightarrow> sock option \<Rightarrow> bool \<Rightarrow> messager \<Rightarrow> (nat option \<times> messager) option" where
  "cli_connect sid ip port ctx sk failed g =
     (case sk of
        None \<Rightarrow> Some (None, g)
      | Some k \<Rightarrow>
          (case session_construct sid ip port k failed of
             None \<Rightarrow> None
           | Some ss \<Rightarrow> Some (Some sid, g\<lparr> mg_sessions := mg_sessions g @ [ss\<lparr> ss_ctx := ctx \<rparr>] \<rparr>)))"

text \<open>Closing frees the session first and unlinks it then: \<open>TAILQ_REMOVE\<close> reads the links of the session.\<close>

definition tailq_remove :: "nat \<Rightarrow> messager \<Rightarrow> messager ub" where
  "tailq_remove sid g =
     (case find_session sid g of
        None \<Rightarrow> Use_after_free
      | Some ss \<Rightarrow> Fine (g\<lparr> mg_sessions := remove1 ss (mg_sessions g) \<rparr>))"

definition cli_close :: "nat option \<Rightarrow> messager \<Rightarrow> messager ub" where
  "cli_close sid g = (case sid of None \<Rightarrow> Fine g | Some i \<Rightarrow> tailq_remove i (session_destruct i g))"

lemma cli_close_freed: "cli_close (Some i) g = Use_after_free"
proof -
  have "find_session i (session_destruct i g) = None"
    by (auto simp: find_session_def session_destruct_def find_None_iff)
  then show ?thesis by (simp add: cli_close_def tailq_remove_def)
qed

definition cli_get_session_ctx :: "nat \<Rightarrow> messager \<Rightarrow> nat option" where
  "cli_get_session_ctx sid g = map_option ss_ctx (find_session sid g)"

section \<open>Starting and stopping\<close>

definition messager_off :: messager where
  "messager_off = \<lparr> mg_running = False, mg_server = False, mg_pollers = None, mg_listen = False, mg_sessions = [], mg_errno = 0,
     mg_received = [], mg_sent = [] \<rparr>"

text \<open>The result of \<^verbatim>\<open>listen\<close> and of creating the group are parameters.\<close>

definition messager_constructor :: "bool \<Rightarrow> bool \<Rightarrow> messager \<Rightarrow> int \<times> messager" where
  "messager_constructor is_server listen_ok g =
     (if mg_running g then (0, g)
      else if is_server \<and> \<not> listen_ok then (- 1, g)
      else (0, g\<lparr> mg_server := is_server, mg_pollers := if is_server then Some False else mg_pollers g,
                  mg_listen := is_server \<or> mg_listen g,
                  mg_sessions := [], mg_running := True \<rparr>))"

text \<open>
  The destructor of a server closes the listening socket, which frees it, and asks then to
  remove it from the group.
\<close>

definition close_listen :: "messager \<Rightarrow> messager" where
  "close_listen g = g\<lparr> mg_listen := False \<rparr>"

definition group_remove_listen :: "messager \<Rightarrow> messager ub" where
  "group_remove_listen g = (if mg_listen g then Fine g else Use_after_free)"

definition messager_destructor :: "bool \<Rightarrow> messager \<Rightarrow> messager ub" where
  "messager_destructor is_server g =
     (if \<not> mg_running g then Fine g
      else let g1 = g\<lparr> mg_running := False, mg_sessions := [] \<rparr> in
           if is_server then group_remove_listen (close_listen (g1\<lparr> mg_pollers := None \<rparr>))
           else Fine g1)"

definition srv_messager_start :: "messager \<Rightarrow> int \<times> messager" where
  "srv_messager_start g = (0, g\<lparr> mg_pollers := Some True \<rparr>)"

definition srv_messager_stop :: "messager \<Rightarrow> messager" where
  "srv_messager_stop g = g\<lparr> mg_pollers := Some False \<rparr>"

section \<open>The two interfaces\<close>

text \<open>What the pollers of a server call, and the functions of the tables \<open>msgr_server_impl\<close> and \<open>msgr_client_impl\<close>.\<close>

definition sock_group_poll :: "(nat \<Rightarrow> u8 list) \<Rightarrow> (nat \<times> bool) list option \<Rightarrow> messager \<Rightarrow> (int \<times> messager) ub" where
  "sock_group_poll alloc events g = poll_read_events alloc events g"

definition sock_reply_poll :: "messager \<Rightarrow> nat \<times> messager" where "sock_reply_poll g = flush_all g"

definition srv_messager_constructor :: "bool \<Rightarrow> messager \<Rightarrow> int \<times> messager" where
  "srv_messager_constructor listen_ok g = messager_constructor True listen_ok g"

definition srv_messager_destructor :: "messager \<Rightarrow> messager ub" where
  "srv_messager_destructor g = messager_destructor True g"

definition srv_messager_sendmsg :: "message \<Rightarrow> messager \<Rightarrow> (int \<times> messager) ub" where
  "srv_messager_sendmsg m g = push_msg m g"

definition cli_messager_constructor :: "messager \<Rightarrow> int \<times> messager" where
  "cli_messager_constructor g = messager_constructor False False g"

definition cli_messager_destructor :: "messager \<Rightarrow> messager ub" where
  "cli_messager_destructor g = messager_destructor False g"

definition cli_messager_sendmsg :: "message \<Rightarrow> messager \<Rightarrow> (int \<times> messager) ub" where
  "cli_messager_sendmsg m g = push_msg m g"

definition cli_messager_flush :: "messager \<Rightarrow> nat \<times> messager" where "cli_messager_flush g = flush_all g"

definition cli_messager_flush_msg_of :: "session \<Rightarrow> messager \<Rightarrow> nat \<times> messager" where
  "cli_messager_flush_msg_of ss g = flush_msg_of ss g"

definition cli_messager_wait_msg :: "(nat \<Rightarrow> u8 list) \<Rightarrow> (nat \<times> bool) list option \<Rightarrow> messager \<Rightarrow> (int \<times> messager) ub" where
  "cli_messager_wait_msg alloc events g = poll_read_events alloc events g"

definition cli_messager_wait_msg_of :: "(nat \<Rightarrow> u8 list) \<Rightarrow> session \<Rightarrow> messager \<Rightarrow> (nat \<times> messager) ub" where
  "cli_messager_wait_msg_of alloc ss g = read_event_callback alloc ss g"

end
