(* ===== verification/Messager_Correct.thy ===== *)
theory Messager_Correct
  imports Messager
begin

text \<open>
  The messager delivers messages whole, unchanged and in order, however the kernel cuts the
  stream of bytes; and what happens when a connection ends.
\<close>

section \<open>Messages as bytes\<close>

fun the_bytes :: "u8 list option \<Rightarrow> u8 list" where
  "the_bytes None = []"
| "the_bytes (Some bs) = bs"

definition wire :: "message \<Rightarrow> u8 list" where
  "wire m = hdr_encode (m_header m) @ the_bytes (meta_buffer m) @ the_bytes (data_buffer m)"

definition msg_whole :: "message \<Rightarrow> bool" where
  "msg_whole m \<longleftrightarrow> hdr_ok (m_header m) \<and> length (the_bytes (meta_buffer m)) = h_meta_length (m_header m) \<and>
     length (the_bytes (data_buffer m)) = h_data_length (m_header m)"

definition content :: "message \<Rightarrow> msg_hdr_t \<times> u8 list \<times> u8 list" where
  "content m = (m_header m, the_bytes (meta_buffer m), the_bytes (data_buffer m))"

text \<open>
  The reference: a stream of bytes is cut into messages by the lengths in their headers.
\<close>

definition msg_size :: "u8 list \<Rightarrow> nat" where
  "msg_size bs = hdr_size + h_meta_length (hdr_decode bs) + h_data_length (hdr_decode bs)"

definition short :: "u8 list \<Rightarrow> bool" where
  "short bs \<longleftrightarrow> length bs < hdr_size \<or> length bs < msg_size bs"

function parse :: "u8 list \<Rightarrow> u8 list list \<times> u8 list" where
  "parse bs =
     (if short bs then ([], bs)
      else let n = msg_size bs; (ws, rest) = parse (drop n bs) in (take n bs # ws, rest))"
  by pat_completeness auto

termination parse
  by (relation "measure length") (auto simp: short_def hdr_size_def msg_size_def)

declare parse.simps [simp del]

definition whole :: "u8 list \<Rightarrow> bool" where
  "whole w \<longleftrightarrow> hdr_size \<le> length w \<and> length w = msg_size w"

lemma le_bytes_field: "ofst + n \<le> length bs \<Longrightarrow> le_bytes n (field bs ofst n) = take n (drop ofst bs)"
  using le_bytes_le_val [of "take n (drop ofst bs)"] by (simp add: field_def)

lemma take_drop_step: "take n (drop k bs) @ drop (k + n) bs = drop k bs"
  by (metis add.commute append_take_drop_id drop_drop)

lemma hdr_encode_decode:
  assumes "length bs = hdr_size"
  shows "hdr_encode (hdr_decode bs) = bs"
proof -
  have l: "length bs = 26" using assms by (simp add: hdr_size_def)
  have t: "take 4 (drop 22 bs) = drop 22 bs" by (rule take_all) (simp add: l)
  have "hdr_encode (hdr_decode bs) = take 8 (drop 0 bs) @ take 1 (drop 8 bs) @ take 1 (drop 9 bs) @
      take 1 (drop 10 bs) @ take 1 (drop 11 bs) @ take 4 (drop 12 bs) @ take 2 (drop 16 bs) @
      take 4 (drop 18 bs) @ drop 22 bs"
    using le_bytes_field [of 0 8 bs] le_bytes_field [of 8 1 bs] le_bytes_field [of 9 1 bs] le_bytes_field [of 10 1 bs]
      le_bytes_field [of 11 1 bs] le_bytes_field [of 12 4 bs] le_bytes_field [of 16 2 bs] le_bytes_field [of 18 4 bs]
      le_bytes_field [of 22 4 bs] t
    by (simp add: hdr_encode_def hdr_decode_def l del: le_bytes.simps One_nat_def)
  also have "\<dots> = bs"
    using take_drop_step [of 4 18 bs] take_drop_step [of 2 16 bs] take_drop_step [of 4 12 bs]
      take_drop_step [of 1 11 bs] take_drop_step [of 1 10 bs] take_drop_step [of 1 9 bs]
      take_drop_step [of 1 8 bs] take_drop_step [of 8 0 bs]
    by (simp del: One_nat_def append_take_drop_id)
  finally show ?thesis .
qed

lemma hdr_decode_ok: "hdr_ok (hdr_decode bs)"
  using field_bound [of bs 0 8] field_bound [of bs 8 1] field_bound [of bs 9 1] field_bound [of bs 10 1]
    field_bound [of bs 11 1] field_bound [of bs 12 4] field_bound [of bs 16 2] field_bound [of bs 18 4]
    field_bound [of bs 22 4]
  by (simp add: hdr_ok_def hdr_decode_def)

lemma hdr_decode_take: "hdr_size \<le> n \<Longrightarrow> hdr_decode (take n bs) = hdr_decode bs"
proof -
  assume n: "hdr_size \<le> n"
  have "field (take n bs) k l = field bs k l" if "k + l \<le> n" for k l
    using that by (simp add: field_def drop_take min_def)
  then show ?thesis using n by (simp add: hdr_decode_def hdr_size_def)
qed

lemma hdr_decode_app: "hdr_size \<le> length w \<Longrightarrow> hdr_decode (w @ z) = hdr_decode w"
  using hdr_decode_take [of "length w" "w @ z"] by simp

lemma msg_size_app: "hdr_size \<le> length w \<Longrightarrow> msg_size (w @ z) = msg_size w"
  by (simp add: msg_size_def hdr_decode_app)

lemma parse_short: "short p \<Longrightarrow> parse p = ([], p)"
  by (simp add: parse.simps)

lemma parse_whole:
  assumes "whole w"
  shows "parse (w @ z) = (w # fst (parse z), snd (parse z))"
proof -
  have "\<not> short (w @ z)" and "msg_size (w @ z) = length w"
    using assms by (auto simp: whole_def short_def msg_size_app)
  then show ?thesis by (subst parse.simps) (simp add: Let_def split: prod.splits)
qed

lemma parse_wholes: "list_all whole ws \<Longrightarrow> short p \<Longrightarrow> parse (concat ws @ p) = (ws, p)"
  by (induction ws) (simp_all add: parse_short parse_whole)

lemma wire_decode: "msg_whole m \<Longrightarrow> hdr_decode (wire m @ z) = m_header m"
  unfolding wire_def append_assoc by (rule hdr_decode_encode) (simp add: msg_whole_def)

lemma length_wire: "msg_whole m \<Longrightarrow> length (wire m) = hdr_size + h_meta_length (m_header m) + h_data_length (m_header m)"
  by (simp add: wire_def msg_whole_def)

lemma whole_wire: "msg_whole m \<Longrightarrow> whole (wire m)"
  using wire_decode [of m "[]"] length_wire [of m] by (simp add: whole_def msg_size_def)

lemma short_prefix:
  assumes "whole w" and "k < length w"
  shows "short (take k w)"
proof (cases "k < hdr_size")
  case False
  then have "msg_size (take k w) = msg_size w" by (simp add: msg_size_def hdr_decode_take)
  then show ?thesis using assms by (simp add: short_def whole_def)
qed (use assms in \<open>simp add: short_def\<close>)

text \<open>The bytes determine the messages.\<close>

lemma wire_content:
  assumes "msg_whole m" and "msg_whole m'" and "wire m = wire m'"
  shows "content m = content m'"
proof -
  have h: "m_header m = m_header m'" using wire_decode [of m "[]"] wire_decode [of m' "[]"] assms by simp
  have "the_bytes (meta_buffer m) @ the_bytes (data_buffer m) = the_bytes (meta_buffer m') @ the_bytes (data_buffer m')"
    using assms(3) h by (simp add: wire_def)
  then show ?thesis using assms(1,2) h by (simp add: content_def msg_whole_def)
qed

lemma wires_content:
  "list_all msg_whole ms \<Longrightarrow> list_all msg_whole ms' \<Longrightarrow> map wire ms = map wire ms' \<Longrightarrow>
     map content ms = map content ms'"
proof (induction ms arbitrary: ms')
  case (Cons m ms)
  then show ?case by (cases ms') (auto dest: wire_content)
qed simp

section \<open>Reading\<close>

text \<open>
  A calm socket has no end of stream and no error but \<open>EAGAIN\<close>; \<open>rx_bytes\<close> are the bytes it
  still delivers.
\<close>

fun calm_ev :: "rx_ev \<Rightarrow> bool" where
  "calm_ev (Rx_bytes bs) = (bs \<noteq> [])"
| "calm_ev Rx_eof = False"
| "calm_ev (Rx_err e) = (e = EAGAIN)"

fun ev_bytes :: "rx_ev \<Rightarrow> u8 list" where
  "ev_bytes (Rx_bytes bs) = bs"
| "ev_bytes _ = []"

definition rx_bytes :: "sock \<Rightarrow> u8 list" where
  "rx_bytes s = concat (map ev_bytes (sk_rx s))"

lemma readv_calm:
  assumes "list_all calm_ev (sk_rx s)" and "0 < n" and "posix_readv n s e = (rc, bs, s1, e1)"
  shows "rx_bytes s = bs @ rx_bytes s1" and "list_all calm_ev (sk_rx s1)" and "length bs \<le> n"
    and "rc = - 1 \<and> bs = [] \<and> e1 = EAGAIN \<or> rc = int (length bs) \<and> bs \<noteq> []"
  using assms by (cases "sk_rx s"; auto simp: posix_readv.simps rx_bytes_def split: rx_ev.splits if_splits)+

lemma readv_handle:
  assumes "list_all calm_ev (sk_rx s)" and "0 < n" and "posix_readv n s e = (rc, bs, s1, e1)"
    and "sock_rc_handle rc e1 n = (err, e2, rem)"
  shows "err = (if length bs = n then SOCK_RWOK else SOCK_EAGAIN)" and "rem = n - length bs"
  using readv_calm [OF assms(1-3)] assms(2,4)
  by (auto simp: sock_rc_handle_def Let_def split: if_splits)

text \<open>What a message being received has to do with the bytes \<open>bs\<close> it has received.\<close>

definition in_hdr :: "u8 list \<Rightarrow> message \<Rightarrow> bool" where
  "in_hdr bs m \<longleftrightarrow> 0 < hdr_rem_len m \<and> hdr_rem_len m \<le> hdr_size \<and> meta_rem_len m = 0 \<and> data_rem_len m = 0 \<and>
     meta_buffer m = None \<and> data_buffer m = None \<and>
     length bs = hdr_size - hdr_rem_len m \<and> take (length bs) (hdr_encode (m_header m)) = bs"

definition in_body :: "u8 list \<Rightarrow> message \<Rightarrow> bool" where
  "in_body bs m \<longleftrightarrow> hdr_rem_len m = 0 \<and> msg_whole m \<and> meta_rem_len m \<le> h_meta_length (m_header m) \<and>
     data_rem_len m \<le> h_data_length (m_header m) \<and>
     (0 < meta_rem_len m \<longrightarrow> data_rem_len m = h_data_length (m_header m)) \<and>
     bs = hdr_encode (m_header m) @ take (h_meta_length (m_header m) - meta_rem_len m) (the_bytes (meta_buffer m)) @
       take (h_data_length (m_header m) - data_rem_len m) (the_bytes (data_buffer m))"

definition rx_ok :: "u8 list \<Rightarrow> message \<Rightarrow> bool" where
  "rx_ok bs m \<longleftrightarrow> in_hdr bs m \<or> in_body bs m"

lemma splice_take: "length a = off \<Longrightarrow> take off buf = a \<Longrightarrow> off + length bs \<le> length buf \<Longrightarrow>
    take (off + length bs) (splice off bs buf) = a @ bs"
  by (auto simp: splice_def)

lemma length_splice [simp]: "off + length bs \<le> length buf \<Longrightarrow> length (splice off bs buf) = length buf"
  by (simp add: splice_def)

lemma recv_hdr_ok:
  assumes "in_hdr bs m" and "list_all calm_ev (sk_rx s)" and "\<forall>n. length (alloc n) = n"
    and "recv_hdr alloc m s e = (err, m1, s1, e1)"
  shows "\<exists>new. rx_bytes s = new @ rx_bytes s1 \<and> list_all calm_ev (sk_rx s1) \<and>
    (err = SOCK_RWOK \<and> in_body (bs @ new) m1 \<or> err = SOCK_EAGAIN \<and> in_hdr (bs @ new) m1)"
proof -
  let ?n = "hdr_rem_len m"
  have n: "0 < ?n" "?n \<le> hdr_size" "length bs = hdr_size - ?n" "take (length bs) (hdr_encode (m_header m)) = bs"
    "meta_buffer m = None" "data_buffer m = None" "meta_rem_len m = 0" "data_rem_len m = 0"
    using assms(1) unfolding in_hdr_def by blast+
  obtain rc new s' e' where r: "posix_readv ?n s e = (rc, new, s', e')" by (metis surj_pair)
  obtain err' e'' rem where h: "sock_rc_handle rc e' ?n = (err', e'', rem)" by (metis surj_pair)
  note c = readv_calm [OF assms(2) n(1) r] and k = readv_handle [OF assms(2) n(1) r h]
  define hb where "hb = splice (length bs) new (hdr_encode (m_header m))"
  have lb: "length bs + length new \<le> hdr_size" using c(3) n by simp
  have lh: "length hb = hdr_size" using lb by (simp add: hb_def)
  have th: "take (length bs + length new) hb = bs @ new"
    unfolding hb_def by (rule splice_take) (use n lb in simp_all)
  have off: "hdr_size - ?n = length bs" using n by simp
  have dec: "hdr_encode (hdr_decode hb) = hb" by (rule hdr_encode_decode [OF lh])
  show ?thesis
  proof (cases "length new = ?n")
    case False
    then have err: "err' = SOCK_EAGAIN" and rem: "rem = ?n - length new" using k by simp_all
    then have m1: "err = SOCK_EAGAIN" "s1 = s'" "m1 = m\<lparr> m_header := hdr_decode hb, hdr_rem_len := rem \<rparr>"
      using assms(4) n(1) r h by (simp_all add: recv_hdr_def off hb_def)
    have "in_hdr (bs @ new) m1"
      using n c(3) False rem th by (simp add: in_hdr_def m1 dec)
    with m1 c show ?thesis by auto
  next
    case True
    then have err: "err' = SOCK_RWOK" and rem: "rem = 0" using k by simp_all
    let ?h = "hdr_decode hb"
    let ?M = "m\<lparr> m_header := ?h, hdr_rem_len := 0, meta_rem_len := h_meta_length ?h,
         meta_buffer := if 0 < h_meta_length ?h then Some (alloc (h_meta_length ?h)) else None,
         data_rem_len := h_data_length ?h,
         data_buffer := if 0 < h_data_length ?h then Some (alloc (h_data_length ?h)) else None \<rparr>"
    have "recv_hdr alloc m s e = (SOCK_RWOK, ?M, s', e'')"
      using n(1,5,6) by (simp add: recv_hdr_def off r h err rem Let_def flip: hb_def)
    then have m1: "err = SOCK_RWOK" "s1 = s'" "m1 = ?M" using assms(4) by simp_all
    have "hb = bs @ new" using th lh n True by simp
    then have "in_body (bs @ new) m1"
      using assms(3) dec hdr_decode_ok by (simp add: in_body_def m1 msg_whole_def)
    with m1 c show ?thesis by auto
  qed
qed


text \<open>The part of a buffer already filled, when more bytes come.\<close>

lemma take_splice:
  assumes "rem \<le> len" and "length buf = len" and "length new \<le> rem"
  shows "take (len - (rem - length new)) (splice (len - rem) new buf) = take (len - rem) buf @ new"
proof -
  have e: "len - (rem - length new) = len - rem + length new" using assms by simp
  show ?thesis unfolding e by (rule splice_take) (use assms in simp_all)
qed

lemma recv_meta_ok:
  assumes "in_body bs m" and "list_all calm_ev (sk_rx s)" and "recv_meta m s e = (err, m1, s1, e1)"
  shows "\<exists>new. rx_bytes s = new @ rx_bytes s1 \<and> list_all calm_ev (sk_rx s1) \<and> in_body (bs @ new) m1 \<and>
    (err = SOCK_RWOK \<and> meta_rem_len m1 = 0 \<or> err = SOCK_EAGAIN \<and> 0 < meta_rem_len m1)"
proof (cases "meta_rem_len m = 0")
  case True
  then show ?thesis using assms by (auto simp: recv_meta_def)
next
  case False
  let ?n = "meta_rem_len m" and ?l = "h_meta_length (m_header m)"
  have n: "0 < ?n" "?n \<le> ?l" "data_rem_len m = h_data_length (m_header m)" "hdr_rem_len m = 0" "msg_whole m"
    "bs = hdr_encode (m_header m) @ take (?l - ?n) (the_bytes (meta_buffer m))"
    using assms(1) False by (auto simp: in_body_def)
  have lm: "length (the_bytes (meta_buffer m)) = ?l" using n(5) by (simp add: msg_whole_def)
  then obtain buf where buf: "meta_buffer m = Some buf" using n(1,2) by (cases "meta_buffer m") auto
  obtain rc new s' e' where r: "posix_readv ?n s e = (rc, new, s', e')" by (metis surj_pair)
  obtain err' e'' rem where h: "sock_rc_handle rc e' ?n = (err', e'', rem)" by (metis surj_pair)
  note c = readv_calm [OF assms(2) n(1) r] and k = readv_handle [OF assms(2) n(1) r h]
  have m1: "err = err'" "s1 = s'" "m1 = m\<lparr> meta_buffer := Some (splice (?l - ?n) new buf), meta_rem_len := ?n - length new \<rparr>"
    using assms(3) False r h k(2) by (simp_all add: recv_meta_def buf)
  have lb: "length buf = ?l" using lm by (simp add: buf)
  have "in_body (bs @ new) m1"
    using n take_splice [OF n(2) lb c(3)] lb c(3) by (simp add: in_body_def m1 msg_whole_def buf)
  with c k show ?thesis by (auto simp: m1)
qed

lemma recv_data_ok:
  assumes "in_body bs m" and "meta_rem_len m = 0" and "list_all calm_ev (sk_rx s)"
    and "recv_data m s e = (err, m1, s1, e1)"
  shows "\<exists>new. rx_bytes s = new @ rx_bytes s1 \<and> list_all calm_ev (sk_rx s1) \<and> in_body (bs @ new) m1 \<and>
    (err = SOCK_RWOK \<and> msg_rw_complete m1 \<or> err = SOCK_EAGAIN \<and> \<not> msg_rw_complete m1)"
proof (cases "data_rem_len m = 0")
  case True
  then show ?thesis
    using assms by (auto simp: recv_data_def in_body_def msg_rw_complete_def msg_rem_tlen_def)
next
  case False
  let ?n = "data_rem_len m" and ?l = "h_data_length (m_header m)"
  have n: "0 < ?n" "?n \<le> ?l" "hdr_rem_len m = 0" "msg_whole m"
    "bs = hdr_encode (m_header m) @ the_bytes (meta_buffer m) @ take (?l - ?n) (the_bytes (data_buffer m))"
    using assms(1,2) False by (auto simp: in_body_def msg_whole_def)
  have lm: "length (the_bytes (data_buffer m)) = ?l" using n(4) by (simp add: msg_whole_def)
  then obtain buf where buf: "data_buffer m = Some buf" using n(1,2) by (cases "data_buffer m") auto
  obtain rc new s' e' where r: "posix_readv ?n s e = (rc, new, s', e')" by (metis surj_pair)
  obtain err' e'' rem where h: "sock_rc_handle rc e' ?n = (err', e'', rem)" by (metis surj_pair)
  note c = readv_calm [OF assms(3) n(1) r] and k = readv_handle [OF assms(3) n(1) r h]
  have m1: "err = err'" "s1 = s'" "m1 = m\<lparr> data_buffer := Some (splice (?l - ?n) new buf), data_rem_len := ?n - length new \<rparr>"
    using assms(4) False r h k(2) by (simp_all add: recv_data_def buf)
  have lb: "length buf = ?l" using lm by (simp add: buf)
  have "in_body (bs @ new) m1"
    using n assms(2) take_splice [OF n(2) lb c(3)] lb c(3) by (simp add: in_body_def m1 msg_whole_def buf)
  with c k n assms(2) show ?thesis by (auto simp: m1 msg_rw_complete_def msg_rem_tlen_def)
qed

lemma in_body_start: "in_body bs m \<Longrightarrow> hdr_rem_len m = 0"
  by (simp add: in_body_def)

lemma do_recv_ok:
  assumes "rx_ok bs m" and "list_all calm_ev (sk_rx s)" and "\<forall>n. length (alloc n) = n"
    and "do_recv_message alloc m s e = (err, m1, s1, e1)"
  shows "\<exists>new. rx_bytes s = new @ rx_bytes s1 \<and> list_all calm_ev (sk_rx s1) \<and> rx_ok (bs @ new) m1 \<and>
    (err = SOCK_RWOK \<and> msg_rw_complete m1 \<or> err = SOCK_EAGAIN \<and> \<not> msg_rw_complete m1)"
proof -
  obtain err' m' s' e' where h: "recv_hdr alloc m s e = (err', m', s', e')" by (metis surj_pair)
  have "\<exists>new. rx_bytes s = new @ rx_bytes s' \<and> list_all calm_ev (sk_rx s') \<and>
    (err' = SOCK_RWOK \<and> in_body (bs @ new) m' \<or> err' = SOCK_EAGAIN \<and> in_hdr (bs @ new) m')"
  proof (cases "in_hdr bs m")
    case True
    from recv_hdr_ok [OF True assms(2,3) h] show ?thesis .
  next
    case False
    then have b: "in_body bs m" using assms(1) by (simp add: rx_ok_def)
    then have "(err', m', s', e') = (SOCK_RWOK, m, s, e)" using h by (simp add: recv_hdr_def in_body_start)
    then show ?thesis using b assms(2) by auto
  qed
  then obtain new where 1: "rx_bytes s = new @ rx_bytes s'" "list_all calm_ev (sk_rx s')"
    "err' = SOCK_RWOK \<and> in_body (bs @ new) m' \<or> err' = SOCK_EAGAIN \<and> in_hdr (bs @ new) m'" by blast
  show ?thesis
  proof (cases "err' = SOCK_RWOK")
    case False
    then have "err' = SOCK_EAGAIN" "in_hdr (bs @ new) m'" using 1(3) by auto
    moreover from this have "(err, m1, s1, e1) = (SOCK_EAGAIN, m', s', e')"
      using assms(4) h by (simp add: do_recv_message_def)
    ultimately show ?thesis
      using 1 by (auto simp: rx_ok_def in_hdr_def msg_rw_complete_def msg_rem_tlen_def)
  next
    case True
    then have b: "in_body (bs @ new) m'" using 1(3) by auto
    obtain err2 m2 s2 e2 where m: "recv_meta m' s' e' = (err2, m2, s2, e2)" by (metis surj_pair)
    obtain new2 where 2: "rx_bytes s' = new2 @ rx_bytes s2" "list_all calm_ev (sk_rx s2)" "in_body ((bs @ new) @ new2) m2"
      "err2 = SOCK_RWOK \<and> meta_rem_len m2 = 0 \<or> err2 = SOCK_EAGAIN \<and> 0 < meta_rem_len m2"
      using recv_meta_ok [OF b 1(2) m] by blast
    show ?thesis
    proof (cases "err2 = SOCK_RWOK")
      case ok2: True
      then have z: "meta_rem_len m2 = 0" using 2(4) by auto
      have d: "recv_data m2 s2 e2 = (err, m1, s1, e1)" using assms(4) h True m ok2 by (simp add: do_recv_message_def)
      from recv_data_ok [OF 2(3) z 2(2) d] obtain new3 where
        "rx_bytes s2 = new3 @ rx_bytes s1" "list_all calm_ev (sk_rx s1)" "in_body (((bs @ new) @ new2) @ new3) m1"
        "err = SOCK_RWOK \<and> msg_rw_complete m1 \<or> err = SOCK_EAGAIN \<and> \<not> msg_rw_complete m1" by blast
      then show ?thesis using 1(1) 2(1) by (intro exI [of _ "new @ new2 @ new3"]) (simp add: rx_ok_def)
    next
      case False
      then have f: "err2 = SOCK_EAGAIN" "0 < meta_rem_len m2" using 2(4) by auto
      then have "(err, m1, s1, e1) = (SOCK_EAGAIN, m2, s2, e2)"
        using assms(4) h True m by (simp add: do_recv_message_def)
      then show ?thesis using 1(1) 2 f(2)
        by (intro exI [of _ "new @ new2"]) (simp add: rx_ok_def msg_rw_complete_def msg_rem_tlen_def)
    qed
  qed
qed


section \<open>A session that receives\<close>

lemma complete_wire: "rx_ok bs m \<Longrightarrow> msg_rw_complete m \<Longrightarrow> bs = wire m \<and> msg_whole m"
  by (auto simp: rx_ok_def in_hdr_def in_body_def msg_rw_complete_def msg_rem_tlen_def wire_def msg_whole_def)

lemma incomplete_short:
  assumes "rx_ok bs m" and "\<not> msg_rw_complete m"
  shows "short bs"
proof (cases "in_hdr bs m")
  case True
  then have "length bs < hdr_size" by (auto simp: in_hdr_def)
  then show ?thesis by (simp add: short_def)
next
  case False
  then have b: "in_body bs m" using assms(1) by (simp add: rx_ok_def)
  let ?h = "m_header m"
  let ?r = "take (h_meta_length ?h - meta_rem_len m) (the_bytes (meta_buffer m)) @
    take (h_data_length ?h - data_rem_len m) (the_bytes (data_buffer m))"
  have e: "bs = hdr_encode ?h @ ?r" "msg_whole m" using b by (simp_all add: in_body_def)
  have d: "hdr_decode (hdr_encode ?h @ ?r) = ?h" by (rule hdr_decode_encode) (use e in \<open>simp add: msg_whole_def\<close>)
  have sz: "msg_size bs = hdr_size + h_meta_length ?h + h_data_length ?h" unfolding msg_size_def e(1) d by simp
  have rem: "0 < meta_rem_len m + data_rem_len m" "meta_rem_len m \<le> h_meta_length ?h" "data_rem_len m \<le> h_data_length ?h"
    using b assms(2) by (auto simp: in_body_def msg_rw_complete_def msg_rem_tlen_def)
  have "length ?r < h_meta_length ?h + h_data_length ?h" using e(2) rem by (simp add: msg_whole_def) arith
  then show ?thesis using sz unfolding short_def e(1) by simp
qed

lemma rx_ok_new: "rx_ok [] (msg_construct ctx)"
  by (simp add: rx_ok_def in_hdr_def msg_construct_def message_zero_def hdr_size_def)

text \<open>A queue whose messages but the last have arrived, and the bytes received so far.\<close>

definition rxq :: "message list \<Rightarrow> message \<Rightarrow> u8 list \<Rightarrow> bool" where
  "rxq qs m bs \<longleftrightarrow> (\<exists>p. list_all (\<lambda>x. msg_whole x \<and> msg_rw_complete x) qs \<and> rx_ok p m \<and>
     bs = concat (map wire qs) @ p)"

lemma rxq_tail:
  assumes "rxq qs m bs" and "q = qs @ [m]"
  shows "\<exists>qs' m'. tail_recv_msg ctx q = qs' @ [m'] \<and> rxq qs' m' bs \<and> \<not> msg_rw_complete m'"
proof (cases "msg_rw_complete m")
  case True
  then have "tail_recv_msg ctx q = q @ [msg_construct ctx]" by (simp add: tail_recv_msg_def assms(2))
  moreover have "rxq q (msg_construct ctx) bs"
    using assms True rx_ok_new [of ctx] complete_wire [of _ m] by (fastforce simp: rxq_def)
  ultimately show ?thesis using rx_ok_new tail_recv_incomplete [of ctx q] by (metis last_snoc)
next
  case False
  then show ?thesis using assms by (simp add: tail_recv_msg_def)
qed

lemma recv_all_ok:
  assumes "\<exists>qs m. tail_recv_msg ctx q = qs @ [m] \<and> rxq qs m bs \<and> \<not> msg_rw_complete m"
    and "list_all calm_ev (sk_rx s)" and "\<forall>n. length (alloc n) = n"
    and "recv_all alloc ctx q s e = (err, q', s', e')"
  shows "err = SOCK_EAGAIN \<and> list_all calm_ev (sk_rx s') \<and> (\<exists>new qs m. rx_bytes s = new @ rx_bytes s' \<and>
    q' = qs @ [m] \<and> rxq qs m (bs @ new) \<and> \<not> msg_rw_complete m)"
  using assms
proof (induction alloc ctx q s e arbitrary: bs rule: recv_all.induct)
  case (1 alloc ctx q s e)
  obtain qs m where q1: "tail_recv_msg ctx q = qs @ [m]" "rxq qs m bs" "\<not> msg_rw_complete m"
    using 1(2) by blast
  obtain p where p: "list_all (\<lambda>x. msg_whole x \<and> msg_rw_complete x) qs" "rx_ok p m" "bs = concat (map wire qs) @ p"
    using q1(2) by (auto simp: rxq_def)
  obtain err1 m1 s1 e1 where d: "do_recv_message alloc m s e = (err1, m1, s1, e1)" by (metis surj_pair)
  obtain new where n: "rx_bytes s = new @ rx_bytes s1" "list_all calm_ev (sk_rx s1)" "rx_ok (p @ new) m1"
    "err1 = SOCK_RWOK \<and> msg_rw_complete m1 \<or> err1 = SOCK_EAGAIN \<and> \<not> msg_rw_complete m1"
    using do_recv_ok [OF p(2) 1(3,4) d] by blast
  have rq: "rxq qs m1 (bs @ new)" using p n(3) by (auto simp: rxq_def)
  have step: "recv_all alloc ctx q s e =
      (if err1 = SOCK_RWOK then recv_all alloc ctx (qs @ [m1]) s1 e1 else (err1, qs @ [m1], s1, e1))"
    by (subst recv_all.simps) (simp add: q1(1) d)
  show ?case
  proof (cases "err1 = SOCK_RWOK")
    case True
    have r: "recv_all alloc ctx (qs @ [m1]) s1 e1 = (err, q', s', e')" using 1(5) step True by simp
    have ih: "err = SOCK_EAGAIN \<and> list_all calm_ev (sk_rx s') \<and> (\<exists>new' qs m. rx_bytes s1 = new' @ rx_bytes s' \<and>
        q' = qs @ [m] \<and> rxq qs m ((bs @ new) @ new') \<and> \<not> msg_rw_complete m)"
      by (rule 1(1) [of "qs @ [m]" "(err1, m1, s1, e1)" err1 "(m1, s1, e1)" m1 "(s1, e1)" s1 e1 "qs @ [m1]" "bs @ new"])
        (use q1(1) d True rxq_tail [OF rq refl] n(2) 1(4) r in simp_all)
    then show ?thesis using n(1) by (metis append.assoc)
  next
    case False
    then have "(err, q', s', e') = (SOCK_EAGAIN, qs @ [m1], s1, e1)" "\<not> msg_rw_complete m1" using 1(5) step n(4) by auto
    then show ?thesis using n rq by auto
  qed
qed

text \<open>Every callback on a socket with events uses at least one up.\<close>

lemma readv_progress:
  assumes "list_all calm_ev (sk_rx s)" and "0 < n" and "sk_rx s \<noteq> []" and "posix_readv n s e = (rc, bs, s1, e1)"
  shows "rx_size s1 < rx_size s"
  using assms by (cases "sk_rx s") (auto simp: posix_readv.simps rx_size_def split: rx_ev.splits if_splits)

lemma part_progress:
  assumes "list_all calm_ev (sk_rx s)" and "sk_rx s \<noteq> []"
  shows "hdr_rem_len m \<noteq> 0 \<Longrightarrow> recv_hdr alloc m s e = (err, m1, s1, e1) \<Longrightarrow> rx_size s1 < rx_size s"
    and "meta_rem_len m \<noteq> 0 \<Longrightarrow> recv_meta m s e = (err, m1, s1, e1) \<Longrightarrow> rx_size s1 < rx_size s"
    and "data_rem_len m \<noteq> 0 \<Longrightarrow> recv_data m s e = (err, m1, s1, e1) \<Longrightarrow> rx_size s1 < rx_size s"
  using readv_progress [OF assms(1) _ assms(2)]
  by (auto simp: recv_hdr_def recv_meta_def recv_data_def Let_def split: prod.splits if_splits)

lemma do_recv_progress:
  assumes "list_all calm_ev (sk_rx s)" and "sk_rx s \<noteq> []" and "\<not> msg_rw_complete m"
    and "do_recv_message alloc m s e = (err, m', s', e')"
  shows "rx_size s' < rx_size s"
proof -
  obtain r1 m1 s1 e1 where h: "recv_hdr alloc m s e = (r1, m1, s1, e1)" by (metis surj_pair)
  obtain r2 m2 s2 e2 where t: "recv_meta m1 s1 e1 = (r2, m2, s2, e2)" by (metis surj_pair)
  obtain r3 m3 s3 e3 where d: "recv_data m2 s2 e2 = (r3, m3, s3, e3)" by (metis surj_pair)
  note le = recv_part_size(1) [OF h] recv_part_size(2) [OF t] recv_part_size(3) [OF d]
  have "s' = s1 \<and> r1 \<noteq> SOCK_RWOK \<or> s' = s2 \<and> r1 = SOCK_RWOK \<and> r2 \<noteq> SOCK_RWOK \<or> s' = s3 \<and> r1 = SOCK_RWOK \<and> r2 = SOCK_RWOK"
    using assms(4) by (auto simp: do_recv_message_def h t d split: sock_status.splits)
  moreover have "rx_size s1 < rx_size s" if "hdr_rem_len m \<noteq> 0"
    by (rule part_progress(1) [OF assms(1,2) that h])
  moreover have "s1 = s \<and> m1 = m \<and> r1 = SOCK_RWOK" if "hdr_rem_len m = 0" using h that by (simp add: recv_hdr_def)
  moreover have "rx_size s2 < rx_size s" if "hdr_rem_len m = 0" "meta_rem_len m \<noteq> 0"
    using part_progress(2) [OF assms(1,2) that(2), of e] t calculation(3) h that by (auto simp: recv_hdr_def)
  moreover have "rx_size s3 < rx_size s \<and> r2 = SOCK_RWOK" if "hdr_rem_len m = 0" "meta_rem_len m = 0"
  proof -
    have z: "data_rem_len m \<noteq> 0" using assms(3) that by (simp add: msg_rw_complete_def msg_rem_tlen_def)
    have "m2 = m" "s2 = s" "r2 = SOCK_RWOK" using h t that by (simp_all add: recv_hdr_def recv_meta_def)
    then show ?thesis using part_progress(3) [OF assms(1,2) z] d by simp
  qed
  ultimately show ?thesis using le by (cases "hdr_rem_len m = 0"; cases "meta_rem_len m = 0") auto
qed

lemma do_recv_le: "do_recv_message alloc m s e = (err, m', s', e') \<Longrightarrow> rx_size s' \<le> rx_size s"
proof -
  assume a: "do_recv_message alloc m s e = (err, m', s', e')"
  obtain r1 m1 s1 e1 where h: "recv_hdr alloc m s e = (r1, m1, s1, e1)" by (metis surj_pair)
  obtain r2 m2 s2 e2 where t: "recv_meta m1 s1 e1 = (r2, m2, s2, e2)" by (metis surj_pair)
  obtain r3 m3 s3 e3 where d: "recv_data m2 s2 e2 = (r3, m3, s3, e3)" by (metis surj_pair)
  have "s' = s1 \<or> s' = s2 \<or> s' = s3" using a by (auto simp: do_recv_message_def h t d split: sock_status.splits)
  then show ?thesis using recv_part_size(1) [OF h] recv_part_size(2) [OF t] recv_part_size(3) [OF d] by auto
qed

lemma recv_all_le: "recv_all alloc ctx q s e = (err, q', s', e') \<Longrightarrow> rx_size s' \<le> rx_size s"
proof (induction alloc ctx q s e rule: recv_all.induct)
  case (1 alloc ctx q s e)
  obtain err1 m1 s1 e1 where d: "do_recv_message alloc (last (tail_recv_msg ctx q)) s e = (err1, m1, s1, e1)"
    by (metis surj_pair)
  have "rx_size s1 \<le> rx_size s" by (rule do_recv_le [OF d])
  moreover have "rx_size s' \<le> rx_size s1"
  proof (cases "err1 = SOCK_RWOK")
    case True
    then have "recv_all alloc ctx (butlast (tail_recv_msg ctx q) @ [m1]) s1 e1 = (err, q', s', e')"
      using 1(2) d by (subst (asm) recv_all.simps) simp
    then show ?thesis by (rule 1(1) [OF refl d [symmetric] refl refl refl refl True])
  next
    case False
    then show ?thesis using 1(2) d by (subst (asm) recv_all.simps) simp
  qed
  ultimately show ?case by simp
qed

lemma recv_all_progress:
  assumes "list_all calm_ev (sk_rx s)" and "sk_rx s \<noteq> []" and "recv_all alloc ctx q s e = (err, q', s', e')"
  shows "rx_size s' < rx_size s"
proof -
  obtain err1 m1 s1 e1 where d: "do_recv_message alloc (last (tail_recv_msg ctx q)) s e = (err1, m1, s1, e1)"
    by (metis surj_pair)
  have "rx_size s1 < rx_size s" by (rule do_recv_progress [OF assms(1,2) tail_recv_incomplete d])
  moreover have "rx_size s' \<le> rx_size s1"
    using assms(3) d recv_all_le by (subst (asm) recv_all.simps) (auto simp: Let_def split: if_splits)
  ultimately show ?thesis by simp
qed

section \<open>Arrivals\<close>

text \<open>
  The life of a session: again and again events arrive at its socket and it is polled.
\<close>

definition rx_append :: "rx_ev list \<Rightarrow> session \<Rightarrow> session" where
  "rx_append evs ss = ss\<lparr> ss_sock := (ss_sock ss)\<lparr> sk_rx := sk_rx (ss_sock ss) @ evs \<rparr> \<rparr>"

fun arrivals :: "(nat \<Rightarrow> u8 list) \<Rightarrow> nat \<Rightarrow> rx_ev list list \<Rightarrow> messager \<Rightarrow> messager ub" where
  "arrivals alloc sid [] g = Fine g"
| "arrivals alloc sid (evs # es) g =
     (case find_session sid g of
        None \<Rightarrow> Use_after_free
      | Some ss \<Rightarrow>
          (case poll_read_events alloc (Some [(sid, True)]) (put_session (rx_append evs ss) g) of
             Use_after_free \<Rightarrow> Use_after_free
           | Fine (n, g1) \<Rightarrow> arrivals alloc sid es g1))"

text \<open>
  The session \<open>sid\<close> between two polls: \<open>bs\<close> are the bytes it has taken from its socket.
\<close>

definition rx_inv :: "nat \<Rightarrow> u8 list \<Rightarrow> session \<Rightarrow> messager \<Rightarrow> bool" where
  "rx_inv sid bs ss g \<longleftrightarrow> find_session sid g = Some ss \<and> ss_id ss = sid \<and> list_all calm_ev (sk_rx (ss_sock ss)) \<and>
     list_all msg_whole (mg_received g) \<and>
     (\<exists>p. bs = concat (map wire (mg_received g)) @ p \<and>
        (recv_q ss = [] \<and> p = [] \<or> (\<exists>m. recv_q ss = [m] \<and> rx_ok p m \<and> \<not> msg_rw_complete m)))"

lemma find_put:
  assumes "find_session sid g = Some ss" and "ss_id ss' = sid"
  shows "find_session sid (put_session ss' g) = Some ss'"
proof -
  have "find (\<lambda>x. ss_id x = sid) xs = Some ss \<Longrightarrow>
      find (\<lambda>x. ss_id x = sid) (map (\<lambda>x. if ss_id x = sid then ss' else x) xs) = Some ss'" for xs
    using assms(2) by (induction xs) (auto split: if_splits)
  then show ?thesis using assms by (simp add: find_session_def put_session_def)
qed

lemma find_frame [simp]:
  "find_session sid (g\<lparr> mg_errno := e, mg_received := r \<rparr>) = find_session sid g"
  "mg_received (put_session ss g) = mg_received g" "mg_errno (put_session ss g) = mg_errno g"
  by (simp_all add: find_session_def put_session_def)

lemma put_put: "ss_id ss' = ss_id ss \<Longrightarrow> put_session ss' (put_session ss g) = put_session ss' g"
  by (simp add: put_session_def)

lemma put_received: "(put_session ss g)\<lparr> mg_received := r \<rparr> = put_session ss (g\<lparr> mg_received := r \<rparr>)"
  by (simp add: put_session_def)

text \<open>The callback on a session that stays, and on one that is destroyed.\<close>

lemma callback_lives:
  assumes "find_session sid g = Some ss" and "ss_id ss = sid"
    and "recv_all alloc sid (recv_q ss) (ss_sock ss) (mg_errno g) = (err, q, s, e)" and "err \<noteq> SOCK_NEED_CLOSE"
  shows "read_event_callback alloc ss g = Fine (length (takeWhile msg_rw_complete q),
    put_session (ss\<lparr> ss_sock := s, recv_q := dropWhile msg_rw_complete q \<rparr>)
      (g\<lparr> mg_errno := e, mg_received := mg_received g @ takeWhile msg_rw_complete q \<rparr>))"
proof -
  let ?ss = "ss\<lparr> ss_sock := s, recv_q := q \<rparr>" and ?g = "g\<lparr> mg_errno := e \<rparr>"
  have "find_session sid ?g = Some ss" using assms(1) by (simp add: find_session_def)
  from find_put [OF this, of ?ss] assms(2) have "find_session sid (put_session ?ss ?g) = Some ?ss" by simp
  then show ?thesis
    using assms(2-4) by (simp add: read_event_callback_def pop_received_def Let_def put_received put_put)
qed

lemma callback_frees:
  assumes "ss_id ss = sid"
    and "recv_all alloc sid (recv_q ss) (ss_sock ss) (mg_errno g) = (SOCK_NEED_CLOSE, q, s, e)"
  shows "read_event_callback alloc ss g = Use_after_free"
proof -
  have "find_session sid (session_destruct sid g') = None" for g'
    by (auto simp: find_session_def session_destruct_def find_None_iff)
  then show ?thesis using assms by (simp add: read_event_callback_def pop_received_def Let_def)
qed

lemma poll_one:
  assumes "rx_inv sid bs ss g" and "\<forall>n. length (alloc n) = n"
  shows "\<exists>n g' ss' new. poll_read_events alloc (Some [(sid, True)]) g = Fine (n, g') \<and> rx_inv sid (bs @ new) ss' g' \<and>
    rx_bytes (ss_sock ss) = new @ rx_bytes (ss_sock ss') \<and> rx_size (ss_sock ss') \<le> rx_size (ss_sock ss) \<and>
    (sk_rx (ss_sock ss) \<noteq> [] \<longrightarrow> rx_size (ss_sock ss') < rx_size (ss_sock ss))"
proof -
  have f: "find_session sid g = Some ss" "ss_id ss = sid" "list_all calm_ev (sk_rx (ss_sock ss))"
    "list_all msg_whole (mg_received g)"
    using assms(1) by (simp_all add: rx_inv_def)
  obtain p where p: "bs = concat (map wire (mg_received g)) @ p"
    "recv_q ss = [] \<and> p = [] \<or> (\<exists>m. recv_q ss = [m] \<and> rx_ok p m \<and> \<not> msg_rw_complete m)"
    using assms(1) by (auto simp: rx_inv_def)
  have t: "\<exists>qs m. tail_recv_msg sid (recv_q ss) = qs @ [m] \<and> rxq qs m p \<and> \<not> msg_rw_complete m"
    using p(2)
  proof
    assume "recv_q ss = [] \<and> p = []"
    then show ?thesis
      using rx_ok_new [of sid] tail_recv_incomplete [of sid "[]"] by (auto simp: tail_recv_msg_def rxq_def)
  next
    assume "\<exists>m. recv_q ss = [m] \<and> rx_ok p m \<and> \<not> msg_rw_complete m"
    then show ?thesis by (auto simp: tail_recv_msg_def rxq_def)
  qed
  obtain err q s e where r: "recv_all alloc sid (recv_q ss) (ss_sock ss) (mg_errno g) = (err, q, s, e)"
    by (metis surj_pair)
  obtain new qs m where q: "err = SOCK_EAGAIN" "list_all calm_ev (sk_rx s)"
    "rx_bytes (ss_sock ss) = new @ rx_bytes s" "q = qs @ [m]" "rxq qs m (p @ new)" "\<not> msg_rw_complete m"
    using recv_all_ok [OF t f(3) assms(2) r] by blast
  obtain p' where p': "list_all (\<lambda>x. msg_whole x \<and> msg_rw_complete x) qs" "rx_ok p' m" "p @ new = concat (map wire qs) @ p'"
    using q(5) by (auto simp: rxq_def)
  have tw: "takeWhile msg_rw_complete q = qs" "dropWhile msg_rw_complete q = [m]"
    using p'(1) q(4,6) by (auto simp: list_all_iff takeWhile_append dropWhile_append)
  let ?ss = "ss\<lparr> ss_sock := s, recv_q := [m] \<rparr>"
  let ?g = "put_session ?ss (g\<lparr> mg_errno := e, mg_received := mg_received g @ qs \<rparr>)"
  have cb: "read_event_callback alloc ss g = Fine (length qs, ?g)"
    using r q(1) tw callback_lives [OF f(1,2), of alloc] by simp
  have pl: "poll_read_events alloc (Some [(sid, True)]) g = Fine (int (length qs), ?g)"
    using f(1) cb by (simp add: poll_read_events_def posix_group_poll_def)
  have fg: "find_session sid ?g = Some ?ss" by (rule find_put [where ss = ss]) (use f in simp_all)
  have "bs @ new = concat (map wire (mg_received g @ qs)) @ p'" using p(1) p'(3) by simp
  then have inv: "rx_inv sid (bs @ new) ?ss ?g"
    using fg f q(2,6) p'(1,2) by (auto simp: rx_inv_def list_all_iff)
  have "rx_size s \<le> rx_size (ss_sock ss)" by (rule recv_all_le [OF r])
  moreover have "sk_rx (ss_sock ss) \<noteq> [] \<longrightarrow> rx_size s < rx_size (ss_sock ss)"
    using recv_all_progress [OF f(3) _ r] by blast
  ultimately have "rx_inv sid (bs @ new) ?ss ?g \<and> rx_bytes (ss_sock ss) = new @ rx_bytes (ss_sock ?ss) \<and>
      rx_size (ss_sock ?ss) \<le> rx_size (ss_sock ss) \<and> (sk_rx (ss_sock ss) \<noteq> [] \<longrightarrow> rx_size (ss_sock ?ss) < rx_size (ss_sock ss))"
    using inv q(3) by simp
  with pl show ?thesis by blast
qed

lemma rx_inv_append:
  assumes "rx_inv sid bs ss g" and "list_all calm_ev evs"
  shows "rx_inv sid bs (rx_append evs ss) (put_session (rx_append evs ss) g)"
proof -
  have "find_session sid (put_session (rx_append evs ss) g) = Some (rx_append evs ss)"
    by (rule find_put [where ss = ss]) (use assms(1) in \<open>simp_all add: rx_inv_def rx_append_def\<close>)
  then show ?thesis using assms by (auto simp: rx_inv_def rx_append_def)
qed

lemma rx_append_socket:
  "rx_bytes (ss_sock (rx_append evs ss)) = rx_bytes (ss_sock ss) @ concat (map ev_bytes evs)"
  "rx_size (ss_sock (rx_append evs ss)) = rx_size (ss_sock ss) + sum_list (map rx_ev_size evs)"
  "sk_rx (ss_sock (rx_append evs ss)) = sk_rx (ss_sock ss) @ evs"
  by (simp_all add: rx_append_def rx_bytes_def rx_size_def)

lemma arrivals_inv:
  assumes "rx_inv sid bs ss g" and "\<forall>evs \<in> set es. list_all calm_ev evs" and "\<forall>n. length (alloc n) = n"
  shows "\<exists>g' ss' new. arrivals alloc sid es g = Fine g' \<and> rx_inv sid (bs @ new) ss' g' \<and>
    rx_bytes (ss_sock ss) @ concat (map ev_bytes (concat es)) = new @ rx_bytes (ss_sock ss') \<and>
    rx_size (ss_sock ss') \<le> rx_size (ss_sock ss) + sum_list (map rx_ev_size (concat es))"
  using assms
proof (induction es arbitrary: bs ss g)
  case Nil
  then show ?case by (intro exI [of _ g] exI [of _ ss] exI [of _ "[]"]) simp
next
  case (Cons evs es)
  let ?ss = "rx_append evs ss"
  have f: "find_session sid g = Some ss" using Cons.prems(1) by (simp add: rx_inv_def)
  have i1: "rx_inv sid bs ?ss (put_session ?ss g)" by (rule rx_inv_append) (use Cons.prems in simp_all)
  obtain n g1 ss1 new where p: "poll_read_events alloc (Some [(sid, True)]) (put_session ?ss g) = Fine (n, g1)"
    "rx_inv sid (bs @ new) ss1 g1" "rx_bytes (ss_sock ?ss) = new @ rx_bytes (ss_sock ss1)"
    "rx_size (ss_sock ss1) \<le> rx_size (ss_sock ?ss)"
    using poll_one [OF i1 Cons.prems(3)] by blast
  obtain g' ss' new' where q: "arrivals alloc sid es g1 = Fine g'" "rx_inv sid ((bs @ new) @ new') ss' g'"
    "rx_bytes (ss_sock ss1) @ concat (map ev_bytes (concat es)) = new' @ rx_bytes (ss_sock ss')"
    "rx_size (ss_sock ss') \<le> rx_size (ss_sock ss1) + sum_list (map rx_ev_size (concat es))"
    using Cons.IH [OF p(2)] Cons.prems by auto
  have "arrivals alloc sid (evs # es) g = Fine g'" using f p(1) q(1) by simp
  moreover have "rx_bytes (ss_sock ss) @ concat (map ev_bytes (concat (evs # es))) = (new @ new') @ rx_bytes (ss_sock ss')"
    using p(3) q(3) by (simp add: rx_append_socket) (metis append.assoc)
  moreover have "rx_size (ss_sock ss') \<le> rx_size (ss_sock ss) + sum_list (map rx_ev_size (concat (evs # es)))"
    using p(4) q(4) by (simp add: rx_append_socket)
  ultimately show ?case using q(2) by (metis append.assoc)
qed

text \<open>Polling often enough empties the socket.\<close>

lemma size_zero: "rx_size s = 0 \<longleftrightarrow> sk_rx s = []"
proof -
  have "0 < rx_ev_size ev" for ev by (cases ev) simp_all
  then show ?thesis by (cases "sk_rx s") (auto simp: rx_size_def)
qed

lemma drain:
  assumes "rx_inv sid bs ss g" and "rx_size (ss_sock ss) \<le> k" and "\<forall>n. length (alloc n) = n"
  shows "\<exists>g' ss' new. arrivals alloc sid (replicate k []) g = Fine g' \<and> rx_inv sid (bs @ new) ss' g' \<and>
    rx_bytes (ss_sock ss) = new \<and> sk_rx (ss_sock ss') = []"
  using assms
proof (induction k arbitrary: bs ss g)
  case 0
  then have "sk_rx (ss_sock ss) = []" by (simp add: size_zero)
  then show ?case using 0 by (auto simp: rx_bytes_def)
next
  case (Suc k)
  let ?ss = "rx_append [] ss"
  have f: "find_session sid g = Some ss" using Suc.prems(1) by (simp add: rx_inv_def)
  have i1: "rx_inv sid bs ?ss (put_session ?ss g)" by (rule rx_inv_append) (use Suc.prems in simp_all)
  obtain n g1 ss1 new where p: "poll_read_events alloc (Some [(sid, True)]) (put_session ?ss g) = Fine (n, g1)"
    "rx_inv sid (bs @ new) ss1 g1" "rx_bytes (ss_sock ?ss) = new @ rx_bytes (ss_sock ss1)"
    "rx_size (ss_sock ss1) \<le> rx_size (ss_sock ?ss)"
    "sk_rx (ss_sock ?ss) \<noteq> [] \<longrightarrow> rx_size (ss_sock ss1) < rx_size (ss_sock ?ss)"
    using poll_one [OF i1 Suc.prems(3)] by blast
  have "rx_size (ss_sock ss1) \<le> k"
  proof (cases "sk_rx (ss_sock ?ss) = []")
    case True
    then show ?thesis using p(4) by (simp add: size_zero [symmetric])
  next
    case False
    then show ?thesis using p(5) Suc.prems(2) by (simp add: rx_append_socket)
  qed
  from Suc.IH [OF p(2) this Suc.prems(3)] obtain g' ss' where q: "arrivals alloc sid (replicate k []) g1 = Fine g'"
    "rx_inv sid ((bs @ new) @ rx_bytes (ss_sock ss1)) ss' g'" "sk_rx (ss_sock ss') = []" by blast
  have "arrivals alloc sid (replicate (Suc k) []) g = Fine g'" using f p(1) q(1) by simp
  then show ?case using q(2,3) p(3) by (auto simp: rx_append_socket)
qed


lemma arrivals_append:
  "arrivals alloc sid (es @ fs) g =
     (case arrivals alloc sid es g of Fine g1 \<Rightarrow> arrivals alloc sid fs g1 | Use_after_free \<Rightarrow> Use_after_free)"
  by (induction es arbitrary: g) (auto split: option.splits ub.splits prod.splits)

lemma received_parse:
  assumes "find_session sid g = Some ss" and "ss_id ss = sid" and "recv_q ss = []" and "sk_rx (ss_sock ss) = []"
    and "mg_received g = []" and "\<forall>evs \<in> set es. list_all calm_ev evs" and "\<forall>n. length (alloc n) = n"
    and "sum_list (map rx_ev_size (concat es)) \<le> k"
  shows "\<exists>g'. arrivals alloc sid (es @ replicate k []) g = Fine g' \<and> list_all msg_whole (mg_received g') \<and>
    map wire (mg_received g') = fst (parse (concat (map ev_bytes (concat es))))"
proof -
  have i: "rx_inv sid [] ss g" using assms(1-5) by (simp add: rx_inv_def)
  have z: "rx_bytes (ss_sock ss) = []" "rx_size (ss_sock ss) = 0"
    using assms(4) by (simp_all add: rx_bytes_def rx_size_def)
  obtain g1 ss1 new where 1: "arrivals alloc sid es g = Fine g1" "rx_inv sid new ss1 g1"
    "concat (map ev_bytes (concat es)) = new @ rx_bytes (ss_sock ss1)"
    "rx_size (ss_sock ss1) \<le> sum_list (map rx_ev_size (concat es))"
    using arrivals_inv [OF i assms(6,7)] z by auto
  obtain g2 ss2 where 2: "arrivals alloc sid (replicate k []) g1 = Fine g2"
    "rx_inv sid (new @ rx_bytes (ss_sock ss1)) ss2 g2"
    using drain [OF 1(2) _ assms(7), of k] 1(4) assms(8) by auto
  obtain p where p: "concat (map ev_bytes (concat es)) = concat (map wire (mg_received g2)) @ p" "short p"
    "list_all msg_whole (mg_received g2)"
    using 2(2) incomplete_short by (auto simp: rx_inv_def 1(3) short_def hdr_size_def)
  have "list_all whole (map wire (mg_received g2))" using p(3) whole_wire by (auto simp: list_all_iff)
  then have "parse (concat (map ev_bytes (concat es))) = (map wire (mg_received g2), p)"
    unfolding p(1) by (rule parse_wholes [OF _ p(2)])
  then show ?thesis using 1(1) 2(1) p(3) by (simp add: arrivals_append)
qed

section \<open>Sending\<close>

text \<open>The bytes of a message not yet written.\<close>

definition unsent :: "message \<Rightarrow> u8 list" where
  "unsent m = drop (hdr_size - hdr_rem_len m) (hdr_encode (m_header m)) @
     drop (h_meta_length (m_header m) - meta_rem_len m) (the_bytes (meta_buffer m)) @
     drop (h_data_length (m_header m) - data_rem_len m) (the_bytes (data_buffer m))"

definition tx_wf :: "message \<Rightarrow> bool" where
  "tx_wf m \<longleftrightarrow> msg_whole m \<and> hdr_rem_len m \<le> hdr_size \<and> meta_rem_len m \<le> h_meta_length (m_header m) \<and>
     data_rem_len m \<le> h_data_length (m_header m)"

lemma length_unsent: "tx_wf m \<Longrightarrow> length (unsent m) = msg_rem_tlen m"
  by (simp add: unsent_def tx_wf_def msg_whole_def msg_rem_tlen_def)

lemma unsent_reset: "msg_whole m \<Longrightarrow> tx_wf (message_state_reset m) \<and> unsent (message_state_reset m) = wire m"
  by (simp add: tx_wf_def unsent_def message_state_reset_def msg_whole_def wire_def)

fun calm_tx :: "tx_ev \<Rightarrow> bool" where
  "calm_tx (Tx_bytes k) = (0 < k)"
| "calm_tx (Tx_err e) = (e = EAGAIN)"

lemma send_part_ok:
  assumes "rem \<le> len" and "length (the_bytes buf) = len" and "list_all calm_tx (sk_tx s)"
    and "send_part buf len rem s e = (err, rem', s', e')"
  shows "\<exists>new. sk_wire s' = sk_wire s @ new \<and> drop (len - rem) (the_bytes buf) = new @ drop (len - rem') (the_bytes buf) \<and>
    list_all calm_tx (sk_tx s') \<and> rem' \<le> rem \<and> (err = SOCK_RWOK \<and> rem' = 0 \<or> err = SOCK_EAGAIN \<and> 0 < rem')"
proof (cases "rem = 0")
  case True
  then show ?thesis using assms by (auto simp: send_part_def)
next
  case False
  then obtain b where b: "buf = Some b" using assms(1,2) by (cases buf) auto
  have lb: "length b = len" using assms(2) by (simp add: b)
  have tk: "take rem (drop (len - rem) b) = drop (len - rem) b" using lb assms(1) by simp
  show ?thesis
  proof (cases "sk_tx s")
    case Nil
    then have "(err, rem', s') = (SOCK_EAGAIN, rem, s)"
      using assms(4) False by (auto simp: send_part_def b posix_writev.simps sock_rc_handle_def)
    then show ?thesis using assms(3) False by auto
  next
    case (Cons ev r)
    show ?thesis
    proof (cases ev)
      case (Tx_err x)
      then have "(err, rem', s') = (SOCK_EAGAIN, rem, s\<lparr> sk_tx := r \<rparr>)"
        using assms(3,4) False Cons by (auto simp: send_part_def b posix_writev.simps sock_rc_handle_def)
      then show ?thesis using assms(3) False Cons by auto
    next
      case (Tx_bytes k)
      let ?j = "min k rem"
      have j: "0 < ?j" using assms(3) False by (simp add: Cons Tx_bytes)
      have l: "length (drop (len - rem) b) = rem" using lb assms(1) by simp
      have w: "posix_writev (take rem (drop (len - rem) b)) s e =
          (int ?j, s\<lparr> sk_tx := r, sk_wire := sk_wire s @ take k (drop (len - rem) b) \<rparr>, e)"
        unfolding tk by (simp add: posix_writev.simps Cons Tx_bytes l del: length_drop)
      have r': "(err, rem', s') = (if rem - ?j \<noteq> 0 then SOCK_EAGAIN else SOCK_RWOK, rem - ?j,
          s\<lparr> sk_tx := r, sk_wire := sk_wire s @ take k (drop (len - rem) b) \<rparr>)"
        using assms(4) False j by (auto simp: send_part_def b w sock_rc_handle_def Let_def split: if_splits)
      have "drop (len - rem) b = take k (drop (len - rem) b) @ drop (len - (rem - ?j)) b"
      proof -
        have "take k (drop (len - rem) b) = take ?j (drop (len - rem) b)" using l by (simp add: min_def)
        moreover have "drop (len - (rem - ?j)) b = drop ?j (drop (len - rem) b)" using assms(1) by (simp add: add.commute)
        ultimately show ?thesis by (simp only: append_take_drop_id)
      qed
      then show ?thesis using r' assms(3) by (auto simp: b Cons)
    qed
  qed
qed

text \<open>The counters of a message after its parts have been sent in part.\<close>

abbreviation with_rem :: "message \<Rightarrow> nat \<Rightarrow> nat \<Rightarrow> nat \<Rightarrow> message" where
  "with_rem m a b c \<equiv> m\<lparr> hdr_rem_len := a, meta_rem_len := b, data_rem_len := c \<rparr>"

lemma with_rem_part:
  "m\<lparr> hdr_rem_len := a \<rparr> = with_rem m a (meta_rem_len m) (data_rem_len m)"
  "m\<lparr> hdr_rem_len := a, meta_rem_len := b \<rparr> = with_rem m a b (data_rem_len m)"
  by (cases m, simp)+

lemma with_rem_ok:
  assumes "tx_wf m" and "a \<le> hdr_rem_len m" and "b \<le> meta_rem_len m" and "c \<le> data_rem_len m"
  shows "tx_wf (with_rem m a b c)" and "content (with_rem m a b c) = content m"
    and "length (unsent (with_rem m a b c)) = a + b + c"
proof -
  show wf: "tx_wf (with_rem m a b c)" and "content (with_rem m a b c) = content m"
    using assms by (auto simp: tx_wf_def msg_whole_def content_def)
  show "length (unsent (with_rem m a b c)) = a + b + c" using length_unsent [OF wf] by (simp add: msg_rem_tlen_def)
qed

text \<open>The three parts of a message, sent one after the other.\<close>

lemma send_parts:
  assumes "tx_wf m" and "list_all calm_tx (sk_tx s)"
    and p1: "send_part (Some (hdr_encode (m_header m))) hdr_size (hdr_rem_len m) s e = (r1, n1, s1, e1)"
    and p2: "send_part (meta_buffer m) (h_meta_length (m_header m)) (meta_rem_len m) s1 e1 = (r2, n2, s2, e2)"
    and p3: "send_part (data_buffer m) (h_data_length (m_header m)) (data_rem_len m) s2 e2 = (r3, n3, s3, e3)"
  obtains x1 x2 x3 where "sk_wire s1 = sk_wire s @ x1" "sk_wire s2 = sk_wire s1 @ x2" "sk_wire s3 = sk_wire s2 @ x3"
    "drop (hdr_size - hdr_rem_len m) (hdr_encode (m_header m)) = x1 @ drop (hdr_size - n1) (hdr_encode (m_header m))"
    "drop (h_meta_length (m_header m) - meta_rem_len m) (the_bytes (meta_buffer m)) =
      x2 @ drop (h_meta_length (m_header m) - n2) (the_bytes (meta_buffer m))"
    "drop (h_data_length (m_header m) - data_rem_len m) (the_bytes (data_buffer m)) =
      x3 @ drop (h_data_length (m_header m) - n3) (the_bytes (data_buffer m))"
    "list_all calm_tx (sk_tx s1)" "list_all calm_tx (sk_tx s2)" "list_all calm_tx (sk_tx s3)"
    "n1 \<le> hdr_rem_len m" "n2 \<le> meta_rem_len m" "n3 \<le> data_rem_len m"
    "r1 = SOCK_RWOK \<and> n1 = 0 \<or> r1 = SOCK_EAGAIN \<and> 0 < n1" "r2 = SOCK_RWOK \<and> n2 = 0 \<or> r2 = SOCK_EAGAIN \<and> 0 < n2"
    "r3 = SOCK_RWOK \<and> n3 = 0 \<or> r3 = SOCK_EAGAIN \<and> 0 < n3"
proof -
  let ?h = "m_header m"
  have w: "hdr_rem_len m \<le> hdr_size" "meta_rem_len m \<le> h_meta_length ?h" "data_rem_len m \<le> h_data_length ?h"
    "length (the_bytes (meta_buffer m)) = h_meta_length ?h" "length (the_bytes (data_buffer m)) = h_data_length ?h"
    using assms(1) by (simp_all add: tx_wf_def msg_whole_def)
  obtain x1 where 1: "sk_wire s1 = sk_wire s @ x1"
    "drop (hdr_size - hdr_rem_len m) (hdr_encode ?h) = x1 @ drop (hdr_size - n1) (hdr_encode ?h)"
    "list_all calm_tx (sk_tx s1)" "n1 \<le> hdr_rem_len m" "r1 = SOCK_RWOK \<and> n1 = 0 \<or> r1 = SOCK_EAGAIN \<and> 0 < n1"
    using send_part_ok [OF w(1) _ assms(2) p1] by auto
  obtain x2 where 2: "sk_wire s2 = sk_wire s1 @ x2"
    "drop (h_meta_length ?h - meta_rem_len m) (the_bytes (meta_buffer m)) = x2 @ drop (h_meta_length ?h - n2) (the_bytes (meta_buffer m))"
    "list_all calm_tx (sk_tx s2)" "n2 \<le> meta_rem_len m" "r2 = SOCK_RWOK \<and> n2 = 0 \<or> r2 = SOCK_EAGAIN \<and> 0 < n2"
    using send_part_ok [OF w(2,4) 1(3) p2] by blast
  obtain x3 where 3: "sk_wire s3 = sk_wire s2 @ x3"
    "drop (h_data_length ?h - data_rem_len m) (the_bytes (data_buffer m)) = x3 @ drop (h_data_length ?h - n3) (the_bytes (data_buffer m))"
    "list_all calm_tx (sk_tx s3)" "n3 \<le> data_rem_len m" "r3 = SOCK_RWOK \<and> n3 = 0 \<or> r3 = SOCK_EAGAIN \<and> 0 < n3"
    using send_part_ok [OF w(3,5) 2(3) p3] by blast
  show thesis by (rule that [OF 1(1) 2(1) 3(1) 1(2) 2(2) 3(2) 1(3) 2(3) 3(3) 1(4) 2(4) 3(4) 1(5) 2(5) 3(5)])
qed

lemma do_send_ok:
  assumes "tx_wf m" and "list_all calm_tx (sk_tx s)" and "do_send_message m s e = (err, m', s', e')"
  shows "\<exists>new. sk_wire s' = sk_wire s @ new \<and> unsent m = new @ unsent m' \<and> tx_wf m' \<and> content m' = content m \<and>
    list_all calm_tx (sk_tx s') \<and> (err = SOCK_RWOK \<and> unsent m' = [] \<or> err = SOCK_EAGAIN \<and> unsent m' \<noteq> [])"
proof -
  let ?h = "m_header m"
  have w: "length (the_bytes (meta_buffer m)) = h_meta_length ?h" using assms(1) by (simp add: tx_wf_def msg_whole_def)
  obtain r1 n1 s1 e1 where p1: "send_part (Some (hdr_encode ?h)) hdr_size (hdr_rem_len m) s e = (r1, n1, s1, e1)"
    by (metis surj_pair)
  obtain r2 n2 s2 e2 where p2: "send_part (meta_buffer m) (h_meta_length ?h) (meta_rem_len m) s1 e1 = (r2, n2, s2, e2)"
    by (metis surj_pair)
  obtain r3 n3 s3 e3 where p3: "send_part (data_buffer m) (h_data_length ?h) (data_rem_len m) s2 e2 = (r3, n3, s3, e3)"
    by (metis surj_pair)
  obtain x1 x2 x3 where x: "sk_wire s1 = sk_wire s @ x1" "sk_wire s2 = sk_wire s1 @ x2" "sk_wire s3 = sk_wire s2 @ x3"
    "drop (hdr_size - hdr_rem_len m) (hdr_encode ?h) = x1 @ drop (hdr_size - n1) (hdr_encode ?h)"
    "drop (h_meta_length ?h - meta_rem_len m) (the_bytes (meta_buffer m)) = x2 @ drop (h_meta_length ?h - n2) (the_bytes (meta_buffer m))"
    "drop (h_data_length ?h - data_rem_len m) (the_bytes (data_buffer m)) = x3 @ drop (h_data_length ?h - n3) (the_bytes (data_buffer m))"
    and c: "list_all calm_tx (sk_tx s1)" "list_all calm_tx (sk_tx s2)" "list_all calm_tx (sk_tx s3)"
    and le: "n1 \<le> hdr_rem_len m" "n2 \<le> meta_rem_len m" "n3 \<le> data_rem_len m"
    and 1: "r1 = SOCK_RWOK \<and> n1 = 0 \<or> r1 = SOCK_EAGAIN \<and> 0 < n1" and 2: "r2 = SOCK_RWOK \<and> n2 = 0 \<or> r2 = SOCK_EAGAIN \<and> 0 < n2"
    and 3: "r3 = SOCK_RWOK \<and> n3 = 0 \<or> r3 = SOCK_EAGAIN \<and> 0 < n3"
    by (rule send_parts [OF assms(1,2) p1 p2 p3])
  consider (hdr) "r1 \<noteq> SOCK_RWOK" | (meta) "r1 = SOCK_RWOK" "r2 \<noteq> SOCK_RWOK" | (dat) "r1 = SOCK_RWOK" "r2 = SOCK_RWOK"
    by blast
  then show ?thesis
  proof cases
    case hdr
    then have r: "err = SOCK_EAGAIN" "s' = s1" "m' = with_rem m n1 (meta_rem_len m) (data_rem_len m)"
      unfolding with_rem_part [symmetric] using assms(3) 1 by (auto simp: do_send_message_def Let_def p1)
    note k = with_rem_ok [OF assms(1) le(1) order_refl order_refl]
    have "unsent m = x1 @ unsent m'" by (simp add: unsent_def r x(4))
    moreover have "unsent m' \<noteq> []" using k(3) 1 hdr unfolding r(3) by auto
    ultimately show ?thesis using x(1) c(1) k(1,2) unfolding r by auto
  next
    case meta
    then have z: "n1 = 0" using 1 by auto
    have r: "err = SOCK_EAGAIN" "s' = s2" "m' = with_rem m 0 n2 (data_rem_len m)"
      unfolding with_rem_part [symmetric] using assms(3) 2 meta z by (auto simp: do_send_message_def Let_def p1 p2)
    note k = with_rem_ok [OF assms(1) le0 le(2) order_refl]
    have "unsent m = (x1 @ x2) @ unsent m'" by (simp add: unsent_def r x(4) x(5) z)
    moreover have "unsent m' \<noteq> []" using k(3) 2 meta(2) unfolding r(3) by auto
    ultimately show ?thesis using x(1) x(2) c(2) k(1,2) unfolding r by (metis append.assoc)
  next
    case dat
    then have z: "n1 = 0" "n2 = 0" using 1 2 by auto
    have r: "err = r3" "s' = s3" "m' = with_rem m 0 0 n3"
      using assms(3) dat z by (auto simp: do_send_message_def Let_def p1 p2 p3)
    note k = with_rem_ok [OF assms(1) le0 le0 le(3)]
    have "unsent m = (x1 @ x2 @ x3) @ unsent m'" using w by (simp add: unsent_def r x(4) x(5) x(6) z)
    moreover have "unsent m' = [] \<longleftrightarrow> n3 = 0" using k(3) unfolding r(3) by (metis add_0 length_0_conv)
    moreover have "sk_wire s' = sk_wire s @ x1 @ x2 @ x3" using x(1) x(2) x(3) r by simp
    ultimately show ?thesis using c(3) 3 k(1,2) unfolding r by auto
  qed
qed

text \<open>
  The queue of a session while it is sent: \<open>done\<close> are the messages sent, \<open>w\<close> the bytes
  written.
\<close>

definition txq :: "message list \<Rightarrow> message list \<Rightarrow> u8 list \<Rightarrow> bool" where
  "txq done rest w \<longleftrightarrow> list_all msg_whole done \<and>
     (case rest of [] \<Rightarrow> w = concat (map wire done)
      | m # q \<Rightarrow> (\<exists>p. w = concat (map wire done) @ p \<and> tx_wf m \<and> p @ unsent m = wire m \<and> unsent m \<noteq> []) \<and>
          list_all (\<lambda>x. tx_wf x \<and> unsent x = wire x) q)"

lemma wire_content_eq: "content m = content m' \<Longrightarrow> wire m = wire m' \<and> (msg_whole m \<longleftrightarrow> msg_whole m')"
  by (simp add: content_def wire_def msg_whole_def)

lemma wire_nonempty: "wire m \<noteq> []"
proof -
  have "hdr_encode (m_header m) \<noteq> []"
    by (metis hdr_size_def length_hdr_encode list.size(3) zero_neq_numeral)
  then show ?thesis by (simp add: wire_def)
qed

lemma flush_q_ok:
  assumes "txq done q (sk_wire s)" and "list_all calm_tx (sk_tx s)" and "flush_q q s e = (sent, rest, s', e', died)"
  shows "\<not> died \<and> txq (done @ sent) rest (sk_wire s') \<and> list_all calm_tx (sk_tx s') \<and>
    map content (sent @ rest) = map content q"
  using assms
proof (induction q arbitrary: "done" s e sent rest s' e' died)
  case Nil
  then show ?case by auto
next
  case (Cons m q)
  obtain p where p: "sk_wire s = concat (map wire done) @ p" "tx_wf m" "p @ unsent m = wire m" "unsent m \<noteq> []"
    "list_all (\<lambda>x. tx_wf x \<and> unsent x = wire x) q" "list_all msg_whole done"
    using Cons.prems(1) by (auto simp: txq_def)
  obtain err m1 s1 e1 where d: "do_send_message m s e = (err, m1, s1, e1)" by (metis surj_pair)
  obtain new where n: "sk_wire s1 = sk_wire s @ new" "unsent m = new @ unsent m1" "tx_wf m1" "content m1 = content m"
    "list_all calm_tx (sk_tx s1)" "err = SOCK_RWOK \<and> unsent m1 = [] \<or> err = SOCK_EAGAIN \<and> unsent m1 \<noteq> []"
    using do_send_ok [OF p(2) Cons.prems(2) d] by blast
  have wm: "wire m1 = wire m" using wire_content_eq [OF n(4)] by simp
  show ?case
  proof (cases "err = SOCK_RWOK")
    case True
    then have u: "new = unsent m" using n(2,6) by auto
    obtain sent' rest' s2 e2 died' where f: "flush_q q s1 e1 = (sent', rest', s2, e2, died')" by (metis surj_pair)
    have r: "sent = m1 # sent'" "rest = rest'" "s' = s2" "died = died'"
      using Cons.prems(3) by (simp_all add: d True f)
    have w1: "sk_wire s1 = concat (map wire (done @ [m1]))" using n(1) p(1,3) u wm by simp
    have whole: "list_all msg_whole (done @ [m1])" using p(6) n(3) by (simp add: tx_wf_def)
    have "txq (done @ [m1]) q (sk_wire s1)"
    proof (cases q)
      case (Cons x xs)
      then have "tx_wf x" "unsent x = wire x" "list_all (\<lambda>x. tx_wf x \<and> unsent x = wire x) xs" using p(5) by simp_all
      then show ?thesis using w1 whole wire_nonempty [of x] Cons by (simp add: txq_def)
    qed (use w1 whole in \<open>simp add: txq_def\<close>)
    from Cons.IH [OF this n(5) f] show ?thesis using n(4) by (simp add: r)
  next
    case False
    then have e: "err = SOCK_EAGAIN" "unsent m1 \<noteq> []" using n(6) by auto
    then have r: "sent = []" "rest = m1 # q" "s' = s1" "\<not> died" using Cons.prems(3) by (simp_all add: d)
    have "sk_wire s1 = concat (map wire done) @ (p @ new)" "(p @ new) @ unsent m1 = wire m1"
      using n(1,2) p(1,3) wm by simp_all
    then have "txq done (m1 # q) (sk_wire s1)"
      using p(5,6) n(3) e(2) unfolding txq_def by (simp only: list.case) blast
    then show ?thesis using n(4,5) by (simp add: r)
  qed
qed

text \<open>Flushing again and again, while the kernel makes room.\<close>

fun flush_turns :: "tx_ev list list \<Rightarrow> message list \<Rightarrow> sock \<Rightarrow> nat \<Rightarrow> message list \<times> message list \<times> sock \<times> bool" where
  "flush_turns [] q s errno = ([], q, s, False)"
| "flush_turns (evs # es) q s errno =
     (let (sent, rest, s1, errno1, died) = flush_q q (s\<lparr> sk_tx := sk_tx s @ evs \<rparr>) errno
      in if died then (sent, rest, s1, True)
         else let (sent2, rest2, s2, died2) = flush_turns es rest s1 errno1 in (sent @ sent2, rest2, s2, died2))"

lemma flush_turns_ok:
  assumes "txq done q (sk_wire s)" and "list_all calm_tx (sk_tx s)" and "\<forall>evs \<in> set es. list_all calm_tx evs"
    and "flush_turns es q s e = (sent, rest, s', died)"
  shows "\<not> died \<and> txq (done @ sent) rest (sk_wire s') \<and> map content (sent @ rest) = map content q"
  using assms
proof (induction es arbitrary: "done" q s e sent rest s' died)
  case (Cons evs es)
  let ?s = "s\<lparr> sk_tx := sk_tx s @ evs \<rparr>"
  obtain sent1 rest1 s1 e1 died1 where f: "flush_q q ?s e = (sent1, rest1, s1, e1, died1)" by (metis surj_pair)
  have o: "\<not> died1" "txq (done @ sent1) rest1 (sk_wire s1)" "list_all calm_tx (sk_tx s1)"
    "map content (sent1 @ rest1) = map content q"
    using flush_q_ok [of "done" q ?s e] Cons.prems(1-3) f by auto
  obtain sent2 rest2 s2 died2 where g: "flush_turns es rest1 s1 e1 = (sent2, rest2, s2, died2)" by (metis surj_pair)
  have r: "sent = sent1 @ sent2" "rest = rest2" "s' = s2" "died = died2"
    using Cons.prems(4) o(1) by (simp_all add: f g)
  from Cons.IH [OF o(2,3) _ g] Cons.prems(3) o(4) show ?case by (simp add: r)
qed simp

lemma txq_start:
  assumes "list_all msg_whole ms"
  shows "txq [] (map message_state_reset ms) []"
proof (cases ms)
  case (Cons m q)
  have c: "wire (message_state_reset x) = wire x" for x by (simp add: wire_def message_state_reset_def)
  have "tx_wf (message_state_reset x) \<and> unsent (message_state_reset x) = wire (message_state_reset x)" if "x \<in> set ms" for x
    using assms that unsent_reset [of x] by (simp add: c list_all_iff)
  then have "tx_wf (message_state_reset m)" "unsent (message_state_reset m) = wire (message_state_reset m)"
    "list_all (\<lambda>x. tx_wf x \<and> unsent x = wire x) (map message_state_reset q)"
    by (auto simp: Cons list_all_iff)
  then show ?thesis using wire_nonempty by (simp add: txq_def Cons)
qed (simp add: txq_def)


section \<open>Properties\<close>

text \<open>
  C4: Messages arrive whole, unchanged and in order.  A queue of messages ready to be sent is
  flushed in any number of turns, the kernel taking any number of bytes at a time; the bytes
  written arrive at a fresh session of the peer cut into pieces in any way, between any
  number of polls.  When the peer has been polled often enough, the messages it has handed to
  its callback are exactly those reported as sent, and a message that is only partly written
  is not delivered.
\<close>

theorem messages_arrive_in_order:
  assumes "list_all msg_whole ms" and "sk_wire s = []" and "list_all calm_tx (sk_tx s)"
    and "\<forall>evs \<in> set txs. list_all calm_tx evs"
    and "flush_turns txs (map message_state_reset ms) s errno = (sent, rest, s', died)"
    and "find_session sid g = Some ss" and "ss_id ss = sid" and "recv_q ss = []" and "sk_rx (ss_sock ss) = []"
    and "mg_received g = []" and "\<forall>evs \<in> set rxs. list_all calm_ev evs" and "\<forall>n. length (alloc n) = n"
    and "concat (map ev_bytes (concat rxs)) = sk_wire s'"
    and "sum_list (map rx_ev_size (concat rxs)) \<le> k"
  shows "\<not> died \<and> map content (sent @ rest) = map content ms \<and>
    (\<exists>g'. arrivals alloc sid (rxs @ replicate k []) g = Fine g' \<and> map content (mg_received g') = map content sent)"
proof -
  have "txq [] (map message_state_reset ms) (sk_wire s)" using txq_start [OF assms(1)] by (simp add: assms(2))
  from flush_turns_ok [OF this assms(3-5)]
  have f: "\<not> died" "txq sent rest (sk_wire s')" "map content (sent @ rest) = map content (map message_state_reset ms)"
    by simp_all
  have "map content (map message_state_reset ms) = map content ms"
    by (simp add: content_def message_state_reset_def)
  with f(3) have c: "map content (sent @ rest) = map content ms" by (rule trans)
  have sw: "list_all msg_whole sent" using f(2) by (simp add: txq_def)
  have "\<exists>p. sk_wire s' = concat (map wire sent) @ p \<and> short p"
  proof (cases rest)
    case Nil
    then show ?thesis using f(2) by (auto simp: txq_def short_def hdr_size_def)
  next
    case (Cons m q)
    then obtain p where p: "sk_wire s' = concat (map wire sent) @ p" "tx_wf m" "p @ unsent m = wire m" "unsent m \<noteq> []"
      using f(2) by (auto simp: txq_def)
    have "p = take (length p) (wire m)" "length p < length (wire m)"
      using p(4) by (auto simp flip: p(3))
    moreover have "whole (wire m)" using p(2) whole_wire by (simp add: tx_wf_def)
    ultimately have "short p" using short_prefix by metis
    then show ?thesis using p(1) by blast
  qed
  then obtain p where p: "sk_wire s' = concat (map wire sent) @ p" "short p" by blast
  have "list_all whole (map wire sent)" using sw whole_wire by (auto simp: list_all_iff)
  then have ps: "fst (parse (sk_wire s')) = map wire sent" by (simp add: p parse_wholes)
  obtain g' where g': "arrivals alloc sid (rxs @ replicate k []) g = Fine g'" "list_all msg_whole (mg_received g')"
    "map wire (mg_received g') = map wire sent"
    using received_parse [OF assms(6-12) assms(14)] by (auto simp: assms(13) ps)
  have "map content (mg_received g') = map content sent" by (rule wires_content [OF g'(2) sw g'(3)])
  with f(1) c g'(1) show ?thesis by blast
qed

text \<open>What a connection yields that holds the bytes \<open>z\<close> and then ends.\<close>

definition chunk :: "u8 list \<Rightarrow> rx_ev list \<Rightarrow> rx_ev list" where
  "chunk z r = (if z = [] then r else Rx_bytes z # r)"

lemma readv_chunk:
  assumes "sk_rx s = chunk (a @ z) r" and "length a = n" and "0 < n"
  shows "posix_readv n s e = (int n, a, s\<lparr> sk_rx := chunk z r \<rparr>, e)"
  using assms by (auto simp: chunk_def posix_readv.simps)

lemma handle_all: "0 < n \<Longrightarrow> sock_rc_handle (int n) e n = (SOCK_RWOK, e, 0)"
  by (simp add: sock_rc_handle_def)

lemma recv_whole:
  assumes m: "msg_whole m" and s: "sk_rx s = chunk (wire m @ z) r" and a: "\<forall>n. length (alloc n) = n"
  shows "\<exists>m'. do_recv_message alloc (msg_construct ctx) s e = (SOCK_RWOK, m', s\<lparr> sk_rx := chunk z r \<rparr>, e) \<and>
    content m' = content m \<and> msg_rw_complete m'"
proof -
  let ?h = "m_header m" and ?d1 = "the_bytes (meta_buffer m)" and ?d2 = "the_bytes (data_buffer m)"
  have l: "length ?d1 = h_meta_length ?h" "length ?d2 = h_data_length ?h" "hdr_ok ?h" using m by (simp_all add: msg_whole_def)
  have h: "hdr_decode (hdr_encode ?h) = ?h" using hdr_decode_encode [OF l(3), of "[]"] by simp
  have sp: "length b = length buf \<Longrightarrow> splice 0 b buf = b" for b buf :: "u8 list" by (simp add: splice_def)
  have hs: "0 < hdr_size" "length (hdr_encode ?h) = hdr_size" by (simp_all add: hdr_size_def)
  let ?s1 = "s\<lparr> sk_rx := chunk (?d1 @ ?d2 @ z) r \<rparr>"
  let ?m1 = "(msg_construct ctx)\<lparr> m_header := ?h, hdr_rem_len := 0, meta_rem_len := h_meta_length ?h,
      meta_buffer := if 0 < h_meta_length ?h then Some (alloc (h_meta_length ?h)) else None,
      data_rem_len := h_data_length ?h,
      data_buffer := if 0 < h_data_length ?h then Some (alloc (h_data_length ?h)) else None \<rparr>"
  have rd: "posix_readv hdr_size s e = (int hdr_size, hdr_encode ?h, ?s1, e)"
    by (rule readv_chunk) (use s hs in \<open>simp_all add: wire_def\<close>)
  have 1: "recv_hdr alloc (msg_construct ctx) s e = (SOCK_RWOK, ?m1, ?s1, e)"
    using hs by (simp add: recv_hdr_def msg_construct_def message_zero_def rd handle_all sp h Let_def)
  let ?s2 = "s\<lparr> sk_rx := chunk (?d2 @ z) r \<rparr>"
  let ?m2 = "?m1\<lparr> meta_buffer := if 0 < h_meta_length ?h then Some ?d1 else None, meta_rem_len := 0 \<rparr>"
  have 2: "recv_meta ?m1 ?s1 e = (SOCK_RWOK, ?m2, ?s2, e)"
  proof (cases "h_meta_length ?h = 0")
    case True
    then show ?thesis using l(1) by (simp add: recv_meta_def)
  next
    case False
    have "posix_readv (h_meta_length ?h) ?s1 e = (int (h_meta_length ?h), ?d1, ?s2, e)"
      using readv_chunk [of ?s1 ?d1 "?d2 @ z" r "h_meta_length ?h" e] False l(1) by simp
    then show ?thesis using False a l(1) by (simp add: recv_meta_def handle_all sp)
  qed
  let ?s3 = "s\<lparr> sk_rx := chunk z r \<rparr>"
  let ?m3 = "?m2\<lparr> data_buffer := if 0 < h_data_length ?h then Some ?d2 else None, data_rem_len := 0 \<rparr>"
  have 3: "recv_data ?m2 ?s2 e = (SOCK_RWOK, ?m3, ?s3, e)"
  proof (cases "h_data_length ?h = 0")
    case True
    then show ?thesis using l(2) by (simp add: recv_data_def)
  next
    case False
    have "posix_readv (h_data_length ?h) ?s2 e = (int (h_data_length ?h), ?d2, ?s3, e)"
      using readv_chunk [of ?s2 ?d2 z r "h_data_length ?h" e] False l(2) by simp
    then show ?thesis using False a l(2) by (simp add: recv_data_def handle_all sp)
  qed
  have "content ?m3 = content m" using l(1,2) by (auto simp: content_def)
  moreover have "msg_rw_complete ?m3" by (simp add: msg_rw_complete_def msg_rem_tlen_def)
  ultimately show ?thesis using 1 2 3 by (simp only: do_recv_message_def prod.case sock_status.case) blast
qed

text \<open>The end of a connection: the stream ends, or reading fails with an error that is not \<open>EAGAIN\<close>.\<close>

definition closing :: "rx_ev \<Rightarrow> nat \<Rightarrow> bool" where
  "closing ev errno \<longleftrightarrow> ev = Rx_eof \<and> errno \<noteq> EAGAIN \<or> (\<exists>e. ev = Rx_err e \<and> e \<noteq> EAGAIN)"

lemma recv_closing:
  assumes "closing ev e" and "sk_rx s = ev # r"
  shows "\<exists>m' s' e'. do_recv_message alloc (msg_construct ctx) s e = (SOCK_NEED_CLOSE, m', s', e') \<and>
    \<not> msg_rw_complete m'"
  using assms by (auto simp: closing_def do_recv_message_def recv_hdr_def posix_readv.simps sock_rc_handle_def
      msg_construct_def hdr_size_def Let_def msg_rw_complete_def msg_rem_tlen_def)

lemma recv_all_closing:
  assumes "\<forall>n. length (alloc n) = n" and "closing ev e" and "list_all msg_whole ms"
    and "sk_rx s = chunk (concat (map wire ms)) (ev # r)" and "list_all msg_rw_complete q"
  shows "\<exists>msgs m s' e'. recv_all alloc ctx q s e = (SOCK_NEED_CLOSE, q @ msgs @ [m], s', e') \<and>
    map content msgs = map content ms \<and> list_all msg_rw_complete msgs \<and> \<not> msg_rw_complete m"
  using assms(3-5)
proof (induction ms arbitrary: q s)
  case Nil
  have q1: "tail_recv_msg ctx q = q @ [msg_construct ctx]"
    using Nil.prems(3) by (cases q rule: rev_cases) (simp_all add: tail_recv_msg_def)
  obtain m' s' e' where "do_recv_message alloc (msg_construct ctx) s e = (SOCK_NEED_CLOSE, m', s', e')" "\<not> msg_rw_complete m'"
    using recv_closing [OF assms(2)] Nil.prems(2) by (fastforce simp: chunk_def)
  then show ?case by (intro exI [of _ "[]"]) (subst recv_all.simps, simp add: q1)
next
  case (Cons m ms)
  have q1: "tail_recv_msg ctx q = q @ [msg_construct ctx]"
    using Cons.prems(3) by (cases q rule: rev_cases) (simp_all add: tail_recv_msg_def)
  let ?s1 = "s\<lparr> sk_rx := chunk (concat (map wire ms)) (ev # r) \<rparr>"
  obtain m' where m': "do_recv_message alloc (msg_construct ctx) s e = (SOCK_RWOK, m', ?s1, e)"
    "content m' = content m" "msg_rw_complete m'"
    using recv_whole [of m s "concat (map wire ms)" "ev # r" alloc ctx e] Cons.prems(1,2) assms(1) by auto
  obtain msgs k s' e' where d: "recv_all alloc ctx (q @ [m']) ?s1 e = (SOCK_NEED_CLOSE, (q @ [m']) @ msgs @ [k], s', e')"
    "map content msgs = map content ms" "list_all msg_rw_complete msgs" "\<not> msg_rw_complete k"
    using Cons.IH [of ?s1 "q @ [m']"] Cons.prems(1,3) m'(3) by auto
  have "recv_all alloc ctx q s e = recv_all alloc ctx (q @ [m']) ?s1 e"
    by (subst recv_all.simps) (simp add: q1 m'(1))
  then show ?case using d m'(2,3) by (intro exI [of _ "m' # msgs"]) auto
qed

text \<open>
  C37: When the peer closes the connection (the stream ends, \<open>errno\<close> not being a stale \<open>EAGAIN\<close>) or
  reading from it fails, behind any number of whole messages in the socket and on a session
  without a message half received, the poll that notices receives all of these messages into
  the queue of the session, destroys the session, and then takes the messages out of the
  queue of the destroyed session: it reads freed memory, and not one of the messages has
  been handed over.
\<close>

theorem closing_uses_freed_session:
  assumes "find_session sid g = Some ss" and "recv_q ss = []" and "list_all msg_whole ms"
    and "sk_rx (ss_sock ss) = (if ms = [] then [] else [Rx_bytes (concat (map wire ms))]) @ ev # rest"
    and "ev = Rx_eof \<and> mg_errno g \<noteq> EAGAIN \<or> (\<exists>e. ev = Rx_err e \<and> e \<noteq> EAGAIN)"
    and "\<forall>n. length (alloc n) = n"
  shows "poll_read_events alloc (Some [(sid, True)]) g = Use_after_free \<and>
    (\<exists>q s e. recv_all alloc sid (recv_q ss) (ss_sock ss) (mg_errno g) = (SOCK_NEED_CLOSE, q, s, e) \<and>
      map content (takeWhile msg_rw_complete q) = map content ms)"
proof -
  have id: "ss_id ss = sid" using assms(1) by (auto simp: find_session_def find_Some_iff)
  have "concat (map wire ms) = [] \<longleftrightarrow> ms = []" using wire_nonempty by (cases ms) auto
  then have s: "sk_rx (ss_sock ss) = chunk (concat (map wire ms)) (ev # rest)" using assms(4) by (simp add: chunk_def)
  have "closing ev (mg_errno g)" using assms(5) by (simp add: closing_def)
  from recv_all_closing [OF assms(6) this assms(3) s, where q = "[]" and ctx = sid] obtain msgs m s' e' where
    r: "recv_all alloc sid [] (ss_sock ss) (mg_errno g) = (SOCK_NEED_CLOSE, msgs @ [m], s', e')"
    and d: "map content msgs = map content ms" "list_all msg_rw_complete msgs" "\<not> msg_rw_complete m"
    by auto
  have "takeWhile msg_rw_complete (msgs @ [m]) = msgs" using d(2,3) by (simp add: takeWhile_append list_all_iff)
  moreover have "read_event_callback alloc ss g = Use_after_free"
    by (rule callback_frees [OF id]) (use r assms(2) in simp)
  then have "poll_read_events alloc (Some [(sid, True)]) g = Use_after_free"
    using assms(1) by (simp add: poll_read_events_def posix_group_poll_def)
  ultimately show ?thesis using r d(1) assms(2) by auto
qed

text \<open>A message, a session and a messager for concrete runs.\<close>

definition demo_hdr :: msg_hdr_t where
  "demo_hdr = \<lparr> h_seq = 7, h_type = 12, h_status = 0, h_magic = 0, h_meta_length = 2, h_data_length = 0,
     h_slo = 0, h_rsv = (0, 0) \<rparr>"

definition demo_msg :: message where
  "demo_msg = message_zero\<lparr> m_header := demo_hdr, meta_buffer := Some [1, 2] \<rparr>"

definition demo_sess :: "rx_ev list \<Rightarrow> session" where
  "demo_sess evs = \<lparr> ss_id = 3, ss_ctx = 0, ss_port = 6666, ss_ip = ''127.0.0.1'',
     ss_sock = \<lparr> sk_rx = evs, sk_tx = [], sk_wire = [] \<rparr>, recv_q = [], send_q = [] \<rparr>"

definition demo_msgr :: "rx_ev list \<Rightarrow> messager" where
  "demo_msgr evs = messager_off\<lparr> mg_running := True, mg_sessions := [demo_sess evs] \<rparr>"

lemma demo_msg_whole: "msg_whole demo_msg"
  by (simp add: msg_whole_def demo_msg_def demo_hdr_def hdr_ok_def message_zero_def)

lemma demo_find: "find_session 3 (demo_msgr evs) = Some (demo_sess evs)"
  by (simp add: find_session_def demo_msgr_def demo_sess_def)

lemma length_demo_wire: "length (wire demo_msg) = 28"
  using length_wire [OF demo_msg_whole] by (simp add: demo_msg_def demo_hdr_def hdr_size_def)

lemma demo_flush:
  "\<exists>m'. flush_turns [[Tx_bytes 26], [Tx_bytes 2]] (map message_state_reset [demo_msg])
     \<lparr> sk_rx = [], sk_tx = [], sk_wire = [] \<rparr> 0 = ([m'], [], \<lparr> sk_rx = [], sk_tx = [], sk_wire = wire demo_msg \<rparr>, False)"
proof -
  let ?m = "message_state_reset demo_msg"
  have m: "hdr_rem_len ?m = 26" "meta_rem_len ?m = 2" "data_rem_len ?m = 0" "m_header ?m = demo_hdr"
    "meta_buffer ?m = Some [1, 2]" "data_buffer ?m = None"
    by (simp_all add: message_state_reset_def demo_msg_def demo_hdr_def hdr_size_def message_zero_def)
  have h: "length (hdr_encode demo_hdr) = 26" by (simp add: hdr_size_def)
  have w: "wire demo_msg = hdr_encode demo_hdr @ [1, 2]" by (simp add: wire_def demo_msg_def message_zero_def)
  have 1: "do_send_message ?m \<lparr> sk_rx = [], sk_tx = [Tx_bytes 26], sk_wire = [] \<rparr> 0 =
      (SOCK_EAGAIN, ?m\<lparr> hdr_rem_len := 0, meta_rem_len := 2 \<rparr>,
       \<lparr> sk_rx = [], sk_tx = [], sk_wire = hdr_encode demo_hdr \<rparr>, 0)"
    by (simp add: do_send_message_def send_part_def posix_writev.simps sock_rc_handle_def m h hdr_size_def
        demo_hdr_def Let_def)
  have 2: "do_send_message (?m\<lparr> hdr_rem_len := 0, meta_rem_len := 2 \<rparr>)
      \<lparr> sk_rx = [], sk_tx = [Tx_bytes 2], sk_wire = hdr_encode demo_hdr \<rparr> 0 =
      (SOCK_RWOK, ?m\<lparr> hdr_rem_len := 0, meta_rem_len := 0, data_rem_len := 0 \<rparr>,
       \<lparr> sk_rx = [], sk_tx = [], sk_wire = wire demo_msg \<rparr>, 0)"
    by (simp add: do_send_message_def send_part_def posix_writev.simps sock_rc_handle_def m w Let_def)
      (simp add: demo_hdr_def)
  show ?thesis by (simp add: 1 2)
qed

lemma messages_arrive_in_order_witness:
  "\<exists>g'. arrivals (\<lambda>n. replicate n 0) 3
      ([[Rx_bytes (take 10 (wire demo_msg))], [Rx_err EAGAIN, Rx_bytes (drop 10 (wire demo_msg))]] @ replicate 31 [])
      (demo_msgr []) = Fine g' \<and> map content (mg_received g') = [content demo_msg]"
proof -
  let ?s = "\<lparr> sk_rx = [], sk_tx = [], sk_wire = [] \<rparr>"
  let ?w = "wire demo_msg" and ?g = "demo_msgr []"
  obtain m' where f: "flush_turns [[Tx_bytes 26], [Tx_bytes 2]] (map message_state_reset [demo_msg])
     ?s 0 = ([m'], [], \<lparr> sk_rx = [], sk_tx = [], sk_wire = ?w \<rparr>, False)"
    using demo_flush by blast
  have l: "length ?w = 28" by (rule length_demo_wire)
  have ne: "take 10 ?w \<noteq> []" "drop 10 ?w \<noteq> []" using l by auto
  have "\<not> False \<and> map content ([m'] @ []) = map content [demo_msg] \<and>
    (\<exists>g'. arrivals (\<lambda>n. replicate n 0) 3 ([[Rx_bytes (take 10 ?w)], [Rx_err EAGAIN, Rx_bytes (drop 10 ?w)]] @ replicate 31 []) ?g
       = Fine g' \<and> map content (mg_received g') = map content [m'])"
    by (rule messages_arrive_in_order [OF _ _ _ _ f demo_find])
      (use demo_msg_whole ne l in \<open>simp_all add: demo_sess_def demo_msgr_def messager_off_def\<close>)
  then show ?thesis by auto
qed

lemma closing_uses_freed_session_witness:
  "poll_read_events (\<lambda>n. replicate n 0) (Some [(3, True)]) (demo_msgr [Rx_bytes (wire demo_msg), Rx_eof]) = Use_after_free"
proof -
  let ?g = "demo_msgr [Rx_bytes (wire demo_msg), Rx_eof]"
  have "mg_errno ?g \<noteq> EAGAIN" by (simp add: demo_msgr_def messager_off_def EAGAIN_def)
  then show ?thesis
    using closing_uses_freed_session [OF demo_find, of "[Rx_bytes (wire demo_msg), Rx_eof]" "[demo_msg]" Rx_eof "[]" "\<lambda>n. replicate n 0"]
      demo_msg_whole by (simp add: demo_sess_def)
qed

end
