(* ===== verification/Runs.thy ===== *)
theory Runs
  imports Main
begin

text \<open>
  Outcomes of code that may fail without an error code: it is done, an assertion fails or
  \<^verbatim>\<open>abort\<close> is called, memory outside of an object is touched, memory is freed twice, or it
  does not return.
\<close>

datatype 'a run = Done 'a | Assert_fails | Wild | Double_free | Hangs

fun run_bind :: "'a run \<Rightarrow> ('a \<Rightarrow> 'b run) \<Rightarrow> 'b run" where
  "run_bind (Done x) f = f x"
| "run_bind Assert_fails f = Assert_fails"
| "run_bind Wild f = Wild"
| "run_bind Double_free f = Double_free"
| "run_bind Hangs f = Hangs"

lemma run_bind_Done: "run_bind r f = Done y \<longleftrightarrow> (\<exists>x. r = Done x \<and> f x = Done y)"
  by (cases r) simp_all

lemma run_bind_assoc: "run_bind (run_bind r f) g = run_bind r (\<lambda>x. run_bind (f x) g)"
  by (cases r) simp_all

lemma run_bind_return [simp]: "run_bind r Done = r"
  by (cases r) simp_all

text \<open>A step for every element of a list, in order.\<close>

primrec run_fold :: "('a \<Rightarrow> 's \<Rightarrow> 's run) \<Rightarrow> 'a list \<Rightarrow> 's \<Rightarrow> 's run" where
  "run_fold f [] s = Done s"
| "run_fold f (x # xs) s = run_bind (f x s) (run_fold f xs)"

lemma run_fold_append: "run_fold f (xs @ ys) s = run_bind (run_fold f xs s) (run_fold f ys)"
proof (induction xs arbitrary: s)
  case (Cons x xs)
  then show ?case by (cases "f x s") simp_all
qed simp

lemma run_fold_inv:
  assumes "\<And>x s s'. x \<in> set xs \<Longrightarrow> keep s \<Longrightarrow> f x s = Done s' \<Longrightarrow> keep s'"
    and "keep s" and "run_fold f xs s = Done s'"
  shows "keep s'"
  using assms
proof (induction xs arbitrary: s)
  case (Cons x xs)
  then obtain t where "f x s = Done t" "run_fold f xs t = Done s'" by (auto simp: run_bind_Done)
  then show ?case using Cons by (metis list.set_intros)
qed simp

end
