(* ===== verification/Stores.thy ===== *)
theory Stores
  imports Message Errcode Runs
begin

text \<open>
  The table of object stores (\<^verbatim>\<open>objectstore.c\<close>, \<^verbatim>\<open>objectstore.h\<close>, \<^verbatim>\<open>store_common.h\<close>) and the two
  simple stores: \<^verbatim>\<open>nullstore.c\<close>, which answers and stores nothing, and \<^verbatim>\<open>chunkstore.c\<close>, which
  cuts a block device into objects of 4 MiB.  A request is named by a number, its message is
  passed with it.  The event queue of the reactor and the requests to the device are parts of
  the state; what the device answers is a parameter.
\<close>

section \<open>The interface\<close>

text \<open>What a device answers to requests, in order, and what the stack holds.\<close>

record dev_answers =
  dev_rcs :: "int list"
  dev_garbage :: "u8 list"

text \<open>
  Something completes: the next event of the reactor runs, or the device finishes its \<open>n\<close>-th
  request, with success or not and, for a read, with the bytes it has put into the buffer.
\<close>

datatype completion = Ev_run | Io_done nat bool "u8 list"

text \<open>The operations of a store; a call names the request and may write to its buffers.\<close>

record 's objstore_impl =
  os_mkfs :: "'s \<Rightarrow> (int \<times> 's) run"
  os_mount :: "'s \<Rightarrow> (int \<times> 's) run"
  os_unmount :: "'s \<Rightarrow> (int \<times> 's) run"
  os_ctx_size :: nat
  os_call :: "dev_answers \<Rightarrow> nat \<Rightarrow> message \<Rightarrow> 's \<Rightarrow> (int \<times> message \<times> 's) run"

datatype ostore = NULLSTORE | CHUNKSTORE | ZSTORE

definition support_ostore :: "int \<Rightarrow> bool" where
  "support_ostore store_type \<longleftrightarrow> store_type = 0 \<or> store_type = 1 \<or> store_type = 2"

definition ostore_get_impl :: "int \<Rightarrow> ostore option" where
  "ostore_get_impl store_type =
     (if support_ostore store_type then Some ([NULLSTORE, CHUNKSTORE, ZSTORE] ! nat store_type) else None)"

section \<open>The store that stores nothing\<close>

text \<open>The state are the requests whose completion event is queued.\<close>

type_synonym nullstore = "nat list"

definition fake_async_cb :: "nat \<Rightarrow> nat list \<Rightarrow> nat list" where
  "fake_async_cb rid evs = evs @ [rid]"

definition nullstore_mkfs :: "nullstore \<Rightarrow> (int \<times> nullstore) run" where
  "nullstore_mkfs s = Done (OSTORE_EXECUTE_OK, s)"

definition nullstore_mount :: "nullstore \<Rightarrow> (int \<times> nullstore) run" where
  "nullstore_mount s = Done (OSTORE_EXECUTE_OK, s)"

definition nullstore_unmount :: "nullstore \<Rightarrow> (int \<times> nullstore) run" where
  "nullstore_unmount s = Done (OSTORE_EXECUTE_OK, s)"

definition null_do_op :: "nat \<Rightarrow> message \<Rightarrow> nullstore \<Rightarrow> (int \<times> message \<times> nullstore) run" where
  "null_do_op rid m s = Done (OSTORE_SUBMIT_OK, m, fake_async_cb rid s)"

text \<open>
  The table of handlers is indexed by the operation of the message; the places without a
  handler are null pointers, and behind the last handler the table ends.
\<close>

definition nullstore_obj_async_op_call ::
    "dev_answers \<Rightarrow> nat \<Rightarrow> message \<Rightarrow> nullstore \<Rightarrow> (int \<times> message \<times> nullstore) run" where
  "nullstore_obj_async_op_call dev rid m s =
     (if message_get_op m \<in> {msg_oss_op_stat, msg_oss_op_create, msg_oss_op_delete, msg_oss_op_write, msg_oss_op_read}
      then null_do_op rid m s else Wild)"

definition nullstore_complete :: "completion \<Rightarrow> nullstore \<Rightarrow> ((nat \<times> int \<times> u8 list option) \<times> nullstore) option" where
  "nullstore_complete c s =
     (case (c, s) of (Ev_run, rid # r) \<Rightarrow> Some ((rid, OSTORE_EXECUTE_OK, None), r) | _ \<Rightarrow> None)"

definition nullstore_impl :: "nullstore objstore_impl" where
  "nullstore_impl = \<lparr> os_mkfs = nullstore_mkfs, os_mount = nullstore_mount, os_unmount = nullstore_unmount,
     os_ctx_size = 16, os_call = nullstore_obj_async_op_call \<rparr>"

section \<open>The store of chunks\<close>

record bdev_info =
  bd_open_rc :: int
  bd_has_ioch :: bool
  bd_block_size :: nat
  bd_num_blocks :: nat

text \<open>
  A request to the device: write or read, first block, number of blocks, whose it is, and the
  buffer handed over with it: what is to be written, or what is to be filled.
\<close>

record chunk_io =
  ci_write :: bool
  ci_ofst :: u64
  ci_len :: u64
  ci_rid :: nat
  ci_data :: "u8 list option"

record chunkstore =
  cs_data_gb :: nat
  cs_max_oid :: nat
  cs_max_obj_sz :: nat
  cs_events :: "nat list"
  cs_ios :: "chunk_io list"

definition hardcode_stat :: "bdev_info \<Rightarrow> chunkstore \<Rightarrow> chunkstore run" where
  "hardcode_stat bd cs =
     (if bd_block_size bd \<noteq> 4096 then Assert_fails
      else let cb = bd_num_blocks bd * bd_block_size bd mod 2 ^ 64
           in Done (cs\<lparr> cs_max_obj_sz := 4 * 2 ^ 20, cs_max_oid := cb div (4 * 2 ^ 20),
                cs_data_gb := cb div (1024 * 1024 * 1024) \<rparr>))"

definition chunkstore_mkfs :: "chunkstore \<Rightarrow> (int \<times> chunkstore) run" where
  "chunkstore_mkfs cs = Done (OSTORE_EXECUTE_OK, cs)"

text \<open>A device that cannot be opened leaves a null descriptor, which is used all the same.\<close>

definition chunkstore_mount :: "bdev_info \<Rightarrow> chunkstore \<Rightarrow> (int \<times> chunkstore) run" where
  "chunkstore_mount bd cs =
     (if bd_open_rc bd \<noteq> 0 then Wild
      else run_bind (hardcode_stat bd cs) (\<lambda>cs1. Done (OSTORE_EXECUTE_OK, cs1)))"

definition chunkstore_unmount :: "chunkstore \<Rightarrow> (int \<times> chunkstore) run" where
  "chunkstore_unmount cs = Done (OSTORE_EXECUTE_OK, cs)"

text \<open>The arithmetic is on 32 bits; bytes are cut to whole blocks.\<close>

definition obj2blk :: "u32 \<Rightarrow> u32 \<Rightarrow> u32 \<Rightarrow> u64 \<times> u64" where
  "obj2blk oid o_ofst o_len = (ucast (oid * 1024 + drop_bit 12 o_ofst), ucast (drop_bit 12 o_len))"

definition chunk_do_stat :: "nat \<Rightarrow> message \<Rightarrow> chunkstore \<Rightarrow> (int \<times> message \<times> chunkstore) run" where
  "chunk_do_stat rid m cs =
     (case data_buffer m of
        None \<Rightarrow> Wild
      | Some buf \<Rightarrow>
          if length buf < 20 then Wild
          else Done (OSTORE_SUBMIT_OK,
            m\<lparr> data_buffer := Some (op_stat_encode \<lparr> st_type = 1, st_capcity_gib = cs_data_gb cs mod 2 ^ 32,
                 st_obj_blk_sz_kib = 0x1000, st_max_oid = cs_max_oid cs mod 2 ^ 32, st_max_obj_size_kib = 0x1000 \<rparr>
               @ drop 20 buf) \<rparr>,
            cs\<lparr> cs_events := fake_async_cb rid (cs_events cs) \<rparr>))"

definition chunk_do_cre_del :: "nat \<Rightarrow> message \<Rightarrow> chunkstore \<Rightarrow> (int \<times> message \<times> chunkstore) run" where
  "chunk_do_cre_del rid m cs = Done (OSTORE_SUBMIT_OK, m, cs\<lparr> cs_events := fake_async_cb rid (cs_events cs) \<rparr>)"

text \<open>
  Reading and writing take the same steps; the device is asked with the range of the object
  and refuses with a result other than 0.
\<close>

definition chunk_do_rw :: "bool \<Rightarrow> dev_answers \<Rightarrow> nat \<Rightarrow> message \<Rightarrow> chunkstore \<Rightarrow> (int \<times> message \<times> chunkstore) run" where
  "chunk_do_rw wr dev rid m cs =
     (case meta_buffer m of
        None \<Rightarrow> Wild
      | Some meta \<Rightarrow>
          if length meta < 24 then Wild
          else let a = op_rw_decode meta;
                   (b_ofst, b_len) = obj2blk (word_of_nat (rw_oid a)) (word_of_nat (rw_ofst a)) (word_of_nat (rw_len a));
                   rc = (case dev_rcs dev of [] \<Rightarrow> 0 | rc # _ \<Rightarrow> rc)
               in if rc \<noteq> 0 then Done (status_code OSTORE_IO_ERROR, m, cs)
                  else Done (OSTORE_SUBMIT_OK, m,
                    cs\<lparr> cs_ios := cs_ios cs @
                      [\<lparr> ci_write = wr, ci_ofst = b_ofst, ci_len = b_len, ci_rid = rid, ci_data = data_buffer m \<rparr>] \<rparr>))"

definition chunkstore_obj_async_op_call ::
    "dev_answers \<Rightarrow> nat \<Rightarrow> message \<Rightarrow> chunkstore \<Rightarrow> (int \<times> message \<times> chunkstore) run" where
  "chunkstore_obj_async_op_call dev rid m cs =
     (let op = message_get_op m in
      if op = msg_oss_op_stat then chunk_do_stat rid m cs
      else if op = msg_oss_op_create \<or> op = msg_oss_op_delete then chunk_do_cre_del rid m cs
      else if op = msg_oss_op_write then chunk_do_rw True dev rid m cs
      else if op = msg_oss_op_read then chunk_do_rw False dev rid m cs
      else Wild)"

text \<open>The completion of a request to the device (\<open>rw_cb\<close>) or of an event.\<close>

definition rw_cb :: "bool \<Rightarrow> int" where
  "rw_cb success = (if success then OSTORE_EXECUTE_OK else status_code OSTORE_IO_ERROR)"

definition chunkstore_complete :: "completion \<Rightarrow> chunkstore \<Rightarrow> ((nat \<times> int \<times> u8 list option) \<times> chunkstore) option" where
  "chunkstore_complete c cs =
     (case c of
        Ev_run \<Rightarrow>
          (case cs_events cs of
             [] \<Rightarrow> None
           | rid # evs \<Rightarrow> Some ((rid, OSTORE_EXECUTE_OK, None), cs\<lparr> cs_events := evs \<rparr>))
      | Io_done i ok bytes \<Rightarrow>
          if i < length (cs_ios cs)
          then let io = cs_ios cs ! i
               in Some ((ci_rid io, rw_cb ok, if ci_write io then None else Some bytes),
                    cs\<lparr> cs_ios := take i (cs_ios cs) @ drop (Suc i) (cs_ios cs) \<rparr>)
          else None)"

definition chunkstore_impl :: "bdev_info \<Rightarrow> chunkstore objstore_impl" where
  "chunkstore_impl bd = \<lparr> os_mkfs = chunkstore_mkfs, os_mount = chunkstore_mount bd, os_unmount = chunkstore_unmount,
     os_ctx_size = 16, os_call = chunkstore_obj_async_op_call \<rparr>"

definition chunkstore_init :: chunkstore where
  "chunkstore_init = \<lparr> cs_data_gb = 0, cs_max_oid = 0, cs_max_obj_sz = 0, cs_events = [], cs_ios = [] \<rparr>"

end
