(* ===== verification/Ipc.thy ===== *)
theory Ipc
  imports Message Runs
begin

text \<open>
  The messager between processes (\<^verbatim>\<open>spdk_ipc_messager.c\<close>, \<^verbatim>\<open>spdk_ipc_config.h\<close>): every pair of a
  server core and a target core has two rings in shared memory, one for each direction.  The
  rings are SPDK's: their operations are a parameter, their contents whatever type the
  parameter works on.  Pointers to rings are the pairs of cores they are found under, pointers
  to sessions are numbers.
\<close>

section \<open>Configuration\<close>

definition NR_CORE_MAX :: nat where "NR_CORE_MAX = 64"

text \<open>The cores of a mask, in ascending order; \<open>cm\<close> is the number that \<^verbatim>\<open>sscanf\<close> reads.\<close>

definition core_mask_convert :: "64 word \<Rightarrow> nat list" where
  "core_mask_convert cm = filter (bit cm) [0..<64]"

record ipc_config =
  zcell_cores :: "nat list"
  tgt_cores :: "nat list"

text \<open>Creating a ring may fail; both directions of every pair are created in turn.\<close>

type_synonym 'r rings = "nat \<times> nat \<Rightarrow> 'r option"

definition create_pair :: "(nat \<times> nat \<Rightarrow> 'r option) \<Rightarrow> nat \<times> nat \<Rightarrow> 'r rings \<Rightarrow> 'r rings run" where
  "create_pair mk ft R =
     (let to_from = (snd ft, fst ft); R1 = R(ft := mk ft); R2 = R1(to_from := mk to_from)
      in if R2 ft = None \<or> R2 to_from = None then Assert_fails else Done R2)"

definition zcell_config_init :: "(nat \<times> nat \<Rightarrow> 'r option) \<Rightarrow> 64 word \<Rightarrow> 64 word \<Rightarrow> (ipc_config \<times> 'r rings) run" where
  "zcell_config_init mk zcell_mask tgt_mask =
     (let zic = \<lparr> zcell_cores = core_mask_convert zcell_mask, tgt_cores = core_mask_convert tgt_mask \<rparr>
      in run_bind (run_fold (create_pair mk) (List.product (tgt_cores zic) (zcell_cores zic)) (\<lambda>_. None))
           (\<lambda>R. Done (zic, R)))"

section \<open>State\<close>

record 'r ring_ops =
  ring_enqueue :: "'r \<Rightarrow> message list \<Rightarrow> nat \<times> 'r"
  ring_count :: "'r \<Rightarrow> nat"
  ring_dequeue :: "'r \<Rightarrow> nat \<Rightarrow> message list \<times> 'r"

text \<open>
  A session.  The C \<open>int\<close> that counts the messages to flush is kept at its 32 bits; it wraps
  (a signed overflow, which the compiler is free to treat otherwise, needs 2^31 messages
  without a flush).
\<close>

record ipc_session =
  is_id :: nat
  is_priv :: nat
  tgt_core :: nat
  nr_to_flush :: "32 word"
  out_q :: "nat \<times> nat"
  in_q :: "nat \<times> nat"

text \<open>
  The messager of a core.  \<open>im_next\<close> names the next session, \<open>im_received\<close> and \<open>im_sent\<close> are
  the messages given to the two callbacks.
\<close>

record ipc_messager =
  my_lcore :: nat
  im_running :: bool
  im_poller :: "bool option"
  im_next :: nat
  im_sessions :: "ipc_session list"
  im_received :: "message list"
  im_sent :: "message list"

definition REQ_BATCH_SIZE :: nat where "REQ_BATCH_SIZE = 1024"

definition find_ipc_session :: "nat \<Rightarrow> ipc_messager \<Rightarrow> ipc_session option" where
  "find_ipc_session sid g = find (\<lambda>s. is_id s = sid) (im_sessions g)"

definition put_ipc_session :: "ipc_session \<Rightarrow> ipc_messager \<Rightarrow> ipc_messager" where
  "put_ipc_session s g = g\<lparr> im_sessions := map (\<lambda>x. if is_id x = is_id s then s else x) (im_sessions g) \<rparr>"

section \<open>Messages\<close>

text \<open>
  Sending copies the message without its session and puts the copy into the ring.  What the
  ring answers is not looked at: the result is 0 also when the ring was full.
\<close>

definition message_send :: "'r ring_ops \<Rightarrow> message \<Rightarrow> 'r rings \<Rightarrow> ipc_messager \<Rightarrow> (int \<times> 'r rings \<times> ipc_messager) run" where
  "message_send ro m R g =
     (case find_ipc_session (priv_ctx m) g of
        None \<Rightarrow> Wild
      | Some s \<Rightarrow>
          (case R (out_q s) of
             None \<Rightarrow> Wild
           | Some r \<Rightarrow>
               let (n, r') = ring_enqueue ro r [m\<lparr> priv_ctx := 0 \<rparr>];
                   g1 = put_ipc_session (s\<lparr> nr_to_flush := nr_to_flush s + 1 \<rparr>) g
               in Done (0, R(out_q s \<mapsto> r'), g1\<lparr> im_sent := im_sent g1 @ [m] \<rparr>)))"

text \<open>
  All messages of the ring of a session; the array for them on the stack has
  \<open>REQ_BATCH_SIZE\<close> places.
\<close>

definition recv_ring :: "'r ring_ops \<Rightarrow> ipc_session \<Rightarrow> 'r rings \<Rightarrow> ipc_messager \<Rightarrow> (nat \<times> 'r rings \<times> ipc_messager) run" where
  "recv_ring ro s R g =
     (case R (in_q s) of
        None \<Rightarrow> Wild
      | Some r \<Rightarrow>
          let count = ring_count ro r in
          if count = 0 then Done (0, R, g)
          else if REQ_BATCH_SIZE < count then Wild
          else let (ms, r') = ring_dequeue ro r count
               in Done (count, R(in_q s \<mapsto> r'),
                    g\<lparr> im_received := im_received g @ map (\<lambda>m. m\<lparr> priv_ctx := is_id s \<rparr>) ms \<rparr>))"

text \<open>The loop over the sessions; \<open>count\<close> is overwritten by every session.\<close>

fun recv_sessions :: "'r ring_ops \<Rightarrow> ipc_session list \<Rightarrow> nat \<Rightarrow> 'r rings \<Rightarrow> ipc_messager \<Rightarrow> (nat \<times> 'r rings \<times> ipc_messager) run" where
  "recv_sessions ro [] count R g = Done (count, R, g)"
| "recv_sessions ro (s # ss) count R g =
     run_bind (recv_ring ro s R g) (\<lambda>(count', R', g'). recv_sessions ro ss count' R' g')"

definition message_recv_poll :: "'r ring_ops \<Rightarrow> 'r rings \<Rightarrow> ipc_messager \<Rightarrow> (nat \<times> 'r rings \<times> ipc_messager) run" where
  "message_recv_poll ro R g = recv_sessions ro (im_sessions g) 0 R g"

definition message_recv_poll_session :: "'r ring_ops \<Rightarrow> nat \<Rightarrow> 'r rings \<Rightarrow> ipc_messager \<Rightarrow> (nat \<times> 'r rings \<times> ipc_messager) run" where
  "message_recv_poll_session ro sid R g =
     (case find_ipc_session sid g of None \<Rightarrow> Wild | Some s \<Rightarrow> recv_ring ro s R g)"

section \<open>Starting, connecting, stopping\<close>

definition ipc_messager_off :: ipc_messager where
  "ipc_messager_off = \<lparr> my_lcore = 0, im_running = False, im_poller = None, im_next = 1, im_sessions = [],
     im_received = [], im_sent = [] \<rparr>"

text \<open>A session of core \<open>my_lcore\<close> with core \<open>tgt\<close>; the rings must exist.\<close>

definition add_session :: "'r rings \<Rightarrow> nat \<Rightarrow> nat \<Rightarrow> ipc_messager \<Rightarrow> ipc_messager run" where
  "add_session R priv tgt g =
     (let s = \<lparr> is_id = im_next g, is_priv = priv, tgt_core = tgt, nr_to_flush = 0,
                out_q = (my_lcore g, tgt), in_q = (tgt, my_lcore g) \<rparr>
      in if R (in_q s) = None \<or> R (out_q s) = None then Assert_fails
         else Done (g\<lparr> im_sessions := im_sessions g @ [s], im_next := im_next g + 1 \<rparr>))"

text \<open>\<open>cfg\<close> is what looking up the shared memory zone returns, \<open>core\<close> the core this runs on.\<close>

definition ipc_messager_constructor ::
    "bool \<Rightarrow> nat \<Rightarrow> ipc_config option \<Rightarrow> 'r rings \<Rightarrow> ipc_messager \<Rightarrow> (int \<times> ipc_messager) run" where
  "ipc_messager_constructor is_server core cfg R g =
     (case cfg of
        None \<Rightarrow> Done (- 1, g\<lparr> my_lcore := core \<rparr>)
      | Some zic \<Rightarrow>
          let g1 = g\<lparr> my_lcore := core, im_sessions := [] \<rparr> in
          if is_server
          then run_bind (run_fold (add_session R 0) (tgt_cores zic) g1) (\<lambda>g2.
                 Done (0, g2\<lparr> im_poller := Some False, im_running := True \<rparr>))
          else Done (0, g1\<lparr> im_running := True \<rparr>))"

definition ipc_messager_destructor :: "bool \<Rightarrow> ipc_messager \<Rightarrow> ipc_messager" where
  "ipc_messager_destructor is_server g =
     (if \<not> im_running g then g
      else (if is_server then g\<lparr> im_poller := None \<rparr> else g)\<lparr> im_sessions := [], im_running := False \<rparr>)"

definition srv_ipc_start :: "ipc_messager \<Rightarrow> int \<times> ipc_messager" where
  "srv_ipc_start g = (0, g\<lparr> im_poller := Some True \<rparr>)"

definition srv_ipc_stop :: "ipc_messager \<Rightarrow> ipc_messager" where
  "srv_ipc_stop g = g\<lparr> im_poller := Some False \<rparr>"

definition srv_ipc_constructor :: "nat \<Rightarrow> ipc_config option \<Rightarrow> 'r rings \<Rightarrow> ipc_messager \<Rightarrow> (int \<times> ipc_messager) run" where
  "srv_ipc_constructor core cfg R g = ipc_messager_constructor True core cfg R g"

definition srv_ipc_destructor :: "ipc_messager \<Rightarrow> ipc_messager" where
  "srv_ipc_destructor g = ipc_messager_destructor True g"

definition srv_ipc_sendmsg :: "'r ring_ops \<Rightarrow> message \<Rightarrow> 'r rings \<Rightarrow> ipc_messager \<Rightarrow> (int \<times> 'r rings \<times> ipc_messager) run" where
  "srv_ipc_sendmsg ro m R g = message_send ro m R g"

definition cli_ipc_constructor :: "nat \<Rightarrow> ipc_config option \<Rightarrow> 'r rings \<Rightarrow> ipc_messager \<Rightarrow> (int \<times> ipc_messager) run" where
  "cli_ipc_constructor core cfg R g = ipc_messager_constructor False core cfg R g"

definition cli_ipc_destructor :: "ipc_messager \<Rightarrow> ipc_messager" where
  "cli_ipc_destructor g = ipc_messager_destructor False g"

definition cli_ipc_connect :: "ipc_messager \<Rightarrow> (nat \<times> ipc_messager) run" where
  "cli_ipc_connect g = Assert_fails"

definition cli_ipc_connect2 :: "'r rings \<Rightarrow> nat \<Rightarrow> nat \<Rightarrow> ipc_messager \<Rightarrow> (nat \<times> ipc_messager) run" where
  "cli_ipc_connect2 R lcore priv g = run_bind (add_session R priv lcore g) (\<lambda>g1. Done (im_next g, g1))"

definition cli_ipc_close :: "nat \<Rightarrow> ipc_messager \<Rightarrow> ipc_messager run" where
  "cli_ipc_close sid g =
     (case find_ipc_session sid g of
        None \<Rightarrow> Wild
      | Some s \<Rightarrow> Done (g\<lparr> im_sessions := filter (\<lambda>x. is_id x \<noteq> sid) (im_sessions g) \<rparr>))"

definition cli_ipc_sendmsg :: "'r ring_ops \<Rightarrow> message \<Rightarrow> 'r rings \<Rightarrow> ipc_messager \<Rightarrow> (int \<times> 'r rings \<times> ipc_messager) run" where
  "cli_ipc_sendmsg ro m R g = message_send ro m R g"

definition cli_ipc_flush :: int where "cli_ipc_flush = 0"

definition cli_ipc_wait_msg :: "'r ring_ops \<Rightarrow> 'r rings \<Rightarrow> ipc_messager \<Rightarrow> (nat \<times> 'r rings \<times> ipc_messager) run" where
  "cli_ipc_wait_msg ro R g = message_recv_poll ro R g"

definition cli_ipc_wait_msg_of :: "'r ring_ops \<Rightarrow> nat \<Rightarrow> 'r rings \<Rightarrow> ipc_messager \<Rightarrow> (nat \<times> 'r rings \<times> ipc_messager) run" where
  "cli_ipc_wait_msg_of ro sid R g = message_recv_poll_session ro sid R g"

definition cli_ipc_flush_msg_of :: "nat \<Rightarrow> ipc_messager \<Rightarrow> (32 word \<times> ipc_messager) run" where
  "cli_ipc_flush_msg_of sid g =
     (case find_ipc_session sid g of
        None \<Rightarrow> Wild
      | Some s \<Rightarrow> Done (nr_to_flush s, put_ipc_session (s\<lparr> nr_to_flush := 0 \<rparr>) g))"

definition cli_ipc_get_session_ctx :: "nat \<Rightarrow> ipc_messager \<Rightarrow> nat run" where
  "cli_ipc_get_session_ctx sid g =
     (case find_ipc_session sid g of None \<Rightarrow> Wild | Some s \<Rightarrow> Done (is_priv s))"

end
