(* ===== verification/Server.thy ===== *)
theory Server
  imports Stores Ipc
begin

text \<open>
  The server (\<^verbatim>\<open>server_main.c\<close>): what happens to a message from its arrival to the response,
  and how the reactors are started and stopped.  The server is given the table of a store.  A
  request owns two buffers; since freeing one twice is an error that shows in this code, a
  request records which of them have been freed.
\<close>

section \<open>Buffers\<close>

text \<open>
  What fresh memory of a size holds, and what the memory of a client holds at an address,
  shared through huge pages.
\<close>

record sv_env =
  fresh_mem :: "nat \<Rightarrow> u8 list"
  client_mem :: "nat \<Rightarrow> nat \<Rightarrow> u8 list"

record request =
  rq_msg :: message
  meta_freed :: bool
  data_freed :: bool

definition new_request :: "message \<Rightarrow> request" where
  "new_request m = \<lparr> rq_msg = m, meta_freed = False, data_freed = False \<rparr>"

definition alloc_data_buffer :: "sv_env \<Rightarrow> nat \<Rightarrow> u8 list" where
  "alloc_data_buffer env sz = fresh_mem env (if sz \<le> 0x1000 then 0x1000 else sz)"

definition alloc_meta_buffer :: "sv_env \<Rightarrow> nat \<Rightarrow> u8 list" where
  "alloc_meta_buffer env sz = fresh_mem env sz"

definition free_data_buffer :: "request \<Rightarrow> request run" where
  "free_data_buffer rq = (if data_freed rq then Double_free else Done (rq\<lparr> data_freed := True \<rparr>))"

definition free_meta_buffer :: "request \<Rightarrow> request run" where
  "free_meta_buffer rq = (if meta_freed rq then Double_free else Done (rq\<lparr> meta_freed := True \<rparr>))"

definition set_msg :: "(message \<Rightarrow> message) \<Rightarrow> request \<Rightarrow> request" where
  "set_msg f rq = rq\<lparr> rq_msg := f (rq_msg rq) \<rparr>"

text \<open>
  \<open>msg_free_resource\<close>: buffers that will not be sent are freed; the data buffer of a local
  request belongs to the client.
\<close>

definition free_meta_resource :: "request \<Rightarrow> request run" where
  "free_meta_resource rq =
     (if h_meta_length (m_header (rq_msg rq)) = 0 \<and> meta_buffer (rq_msg rq) \<noteq> None
      then run_bind (free_meta_buffer rq) (\<lambda>rq1. Done (set_msg (\<lambda>m. m\<lparr> meta_buffer := None \<rparr>) rq1))
      else Done rq)"

definition free_data_resource :: "request \<Rightarrow> request run" where
  "free_data_resource rq =
     (if h_data_length (m_header (rq_msg rq)) = 0 \<and> data_buffer (rq_msg rq) \<noteq> None
      then run_bind (if h_magic (m_header (rq_msg rq)) = REMOTE then free_data_buffer rq else Done rq)
             (\<lambda>rq1. Done (set_msg (\<lambda>m. m\<lparr> data_buffer := None \<rparr>) rq1))
      else Done rq)"

definition msg_free_resource :: "request \<Rightarrow> request run" where
  "msg_free_resource rq = run_bind (free_meta_resource rq) free_data_resource"

section \<open>State\<close>

text \<open>
  The reactor's context: the state of its store, whether the two messagers are there, what was
  handed to them, and the requests allocated and not yet freed.
\<close>

record 's server =
  sv_store :: 's
  sv_ipc :: bool
  sv_net :: bool
  sv_ipc_out :: "message list"
  sv_net_out :: "message list"
  sv_reqs :: "(nat \<times> request) list"
  sv_next :: nat

section \<open>Responses\<close>

definition set_header :: "(msg_hdr_t \<Rightarrow> msg_hdr_t) \<Rightarrow> message \<Rightarrow> message" where
  "set_header f m = m\<lparr> m_header := f (m_header m) \<rparr>"

text \<open>The request becomes the response and goes to the messager it came from.\<close>

definition send_response :: "message \<Rightarrow> 's server \<Rightarrow> 's server run" where
  "send_response m sv =
     (if h_magic (m_header m) = LOCAL
      then (if sv_ipc sv then Done (sv\<lparr> sv_ipc_out := sv_ipc_out sv @ [m] \<rparr>) else Wild)
      else if h_magic (m_header m) = REMOTE
      then (if sv_net sv then Done (sv\<lparr> sv_net_out := sv_net_out sv @ [m] \<rparr>) else Wild)
      else Done sv)"

definition response_with_reusing_request :: "request \<Rightarrow> int \<Rightarrow> 's server \<Rightarrow> (request \<times> 's server) run" where
  "response_with_reusing_request rq status sv =
     run_bind (msg_free_resource (set_msg (\<lambda>m. message_state_reset (set_header (\<lambda>h. h\<lparr> h_status := nat (status mod 256) \<rparr>) m)) rq))
       (\<lambda>rq1. run_bind (send_response (rq_msg rq1) sv) (\<lambda>sv1. Done (rq1, sv1)))"

text \<open>The buffers of a broken request are freed, but the pointers stay.\<close>

definition response_broken_op :: "request \<Rightarrow> int \<Rightarrow> 's server \<Rightarrow> (request \<times> 's server) run" where
  "response_broken_op rq status sv =
     (let rq1 = set_msg (set_header (\<lambda>h. h\<lparr> h_data_length := 0, h_meta_length := 0 \<rparr>)) rq in
      run_bind (if meta_buffer (rq_msg rq1) \<noteq> None then free_meta_buffer rq1 else Done rq1) (\<lambda>rq2.
      run_bind (if data_buffer (rq_msg rq2) \<noteq> None then free_data_buffer rq2 else Done rq2) (\<lambda>rq3.
      response_with_reusing_request rq3 status sv)))"

definition do_op_unknown :: "message \<Rightarrow> 's server \<Rightarrow> 's server run" where
  "do_op_unknown m sv =
     run_bind (response_broken_op (new_request m) (status_code UNKNOWN_OP) sv) (\<lambda>(rq, sv1). Done sv1)"

definition do_op_ping :: "message \<Rightarrow> 's server \<Rightarrow> 's server run" where
  "do_op_ping m sv =
     run_bind (response_with_reusing_request (new_request m) (status_code SUCCESS) sv) (\<lambda>(rq, sv1). Done sv1)"

section \<open>Operations on the store\<close>

text \<open>
  The check of a request.  That the buffer with the arguments is long enough is not checked:
  reading them behind its end is \<^term>\<open>Wild\<close>.
\<close>

definition oss_op_valid :: "message \<Rightarrow> bool run" where
  "oss_op_valid m =
     (let op = h_type (m_header m); dl = h_data_length (m_header m); ml = h_meta_length (m_header m) in
      if op = msg_oss_op_stat then Done (dl = 0 \<and> ml = 0 \<and> data_buffer m = None \<and> meta_buffer m = None)
      else if op = msg_oss_op_create \<or> op = msg_oss_op_delete
      then Done (dl = 0 \<and> ml = 8 \<and> data_buffer m = None \<and> meta_buffer m \<noteq> None)
      else if op = msg_oss_op_write
      then (case (data_buffer m, meta_buffer m) of
              (Some d, Some meta) \<Rightarrow> if length meta < 24 then Wild else Done (dl = field meta 16 8 \<and> 0 < ml)
            | _ \<Rightarrow> Done False)
      else if op = msg_oss_op_read then Done (dl = 0 \<and> 0 < ml \<and> data_buffer m = None \<and> meta_buffer m \<noteq> None)
      else Done False)"

text \<open>
  The request is turned into the response.  A read without an address gets a fresh buffer, a
  read with one the memory at that address, whoever asks.
\<close>

definition oss_op_refill_request_with_reponse :: "sv_env \<Rightarrow> message \<Rightarrow> message run" where
  "oss_op_refill_request_with_reponse env m =
     (let op = message_get_op m in
      if op = msg_oss_op_stat
      then Done (set_header (\<lambda>h. h\<lparr> h_meta_length := 0, h_data_length := 20 \<rparr>) m\<lparr> data_buffer := Some (alloc_data_buffer env 20) \<rparr>)
      else if op = msg_oss_op_create \<or> op = msg_oss_op_delete then Done (set_header (\<lambda>h. h\<lparr> h_meta_length := 0 \<rparr>) m)
      else if op = msg_oss_op_write then Done (set_header (\<lambda>h. h\<lparr> h_meta_length := 0, h_data_length := 0 \<rparr>) m)
      else if op = msg_oss_op_read
      then (case meta_buffer m of
              None \<Rightarrow> Wild
            | Some meta \<Rightarrow>
                if length meta < 40 then Wild
                else let len = field meta 16 8 mod 2 ^ 32; addr = field meta 32 8;
                         buf = (if addr \<noteq> 0 then client_mem env addr len else alloc_data_buffer env len)
                     in Done (set_header (\<lambda>h. h\<lparr> h_meta_length := 0, h_data_length := len \<rparr>) m\<lparr> data_buffer := Some buf \<rparr>))
      else Done m)"

definition broken_op :: "request \<Rightarrow> int \<Rightarrow> 's server \<Rightarrow> 's server run" where
  "broken_op rq rc sv = run_bind (response_broken_op rq rc sv) (\<lambda>(rq1, sv1). Done sv1)"

definition do_op_oss :: "'s objstore_impl \<Rightarrow> sv_env \<Rightarrow> dev_answers \<Rightarrow> message \<Rightarrow> 's server \<Rightarrow> 's server run" where
  "do_op_oss impl env dev m sv =
     run_bind (oss_op_valid m) (\<lambda>ok.
       if \<not> ok then broken_op (new_request m) (status_code INVALID_OP) sv
       else run_bind (oss_op_refill_request_with_reponse env m) (\<lambda>m1.
         run_bind (os_call impl dev (sv_next sv) m1 (sv_store sv)) (\<lambda>(rc, m2, s').
           let sv1 = sv\<lparr> sv_store := s', sv_next := sv_next sv + 1 \<rparr> in
           if rc = OSTORE_SUBMIT_OK then Done (sv1\<lparr> sv_reqs := sv_reqs sv1 @ [(sv_next sv, new_request m2)] \<rparr>)
           else broken_op (new_request m2) rc sv1)))"

text \<open>
  The callback of the store (\<open>oss_op_cb\<close>): the request \<open>rid\<close> ends with a status; for a read the
  device has put bytes into the buffer.
\<close>

definition oss_op_cb :: "nat \<Rightarrow> int \<Rightarrow> u8 list option \<Rightarrow> 's server \<Rightarrow> 's server run" where
  "oss_op_cb rid status filled sv =
     (case map_of (sv_reqs sv) rid of
        None \<Rightarrow> Wild
      | Some rq \<Rightarrow>
          let rq1 = (case filled of None \<Rightarrow> rq | Some bytes \<Rightarrow> set_msg (\<lambda>m. m\<lparr> data_buffer := Some bytes \<rparr>) rq);
              sv1 = sv\<lparr> sv_reqs := filter (\<lambda>x. fst x \<noteq> rid) (sv_reqs sv) \<rparr>
          in if status \<noteq> OSTORE_EXECUTE_OK then broken_op rq1 status sv1
             else run_bind (response_with_reusing_request rq1 status sv1) (\<lambda>(rq2, sv2). Done sv2))"

definition op_execute :: "'s objstore_impl \<Rightarrow> sv_env \<Rightarrow> dev_answers \<Rightarrow> message \<Rightarrow> 's server \<Rightarrow> 's server run" where
  "op_execute impl env dev m sv =
     (let op_code = h_type (m_header m) in
      if op_code = msg_ping then do_op_ping m sv
      else if MSG_TYPE_OSS op_code then do_op_oss impl env dev m sv
      else do_op_unknown m sv)"

definition on_recv_message :: "'s objstore_impl \<Rightarrow> sv_env \<Rightarrow> dev_answers \<Rightarrow> message \<Rightarrow> 's server \<Rightarrow> 's server run" where
  "on_recv_message impl env dev m sv = (let (m1, src) = message_move m in op_execute impl env dev m1 sv)"

text \<open>The store completes something, and the callback runs.\<close>

definition store_completes ::
    "(completion \<Rightarrow> 's \<Rightarrow> ((nat \<times> int \<times> u8 list option) \<times> 's) option) \<Rightarrow> completion \<Rightarrow> 's server \<Rightarrow> 's server run option" where
  "store_completes complete c sv =
     map_option (\<lambda>((rid, status, filled), s'). oss_op_cb rid status filled (sv\<lparr> sv_store := s' \<rparr>)) (complete c (sv_store sv))"

end
