(* ===== verification/Reactor.thy ===== *)
theory Reactor
  imports Server
begin

text \<open>
  Starting and stopping the server (\<^verbatim>\<open>server_main.c\<close>): the options, one reactor for every core,
  booting its store and its messagers.  \<^verbatim>\<open>atoi\<close> is a parameter; \<^term>\<open>None\<close> of the option type is
  \<^verbatim>\<open>exit(1)\<close>.
\<close>

section \<open>Options\<close>

record options =
  g_ipc_msgr :: bool
  g_net_msgr :: bool
  g_base_ip :: string
  g_base_port :: int
  g_zcell_core_mask :: "string option"
  g_tgt_core_mask :: "string option"
  g_store_type :: int
  g_new :: bool

definition default_options :: options where
  "default_options = \<lparr> g_ipc_msgr = False, g_net_msgr = False, g_base_ip = ''0.0.0.0'', g_base_port = 18000,
     g_zcell_core_mask = None, g_tgt_core_mask = None, g_store_type = 0, g_new = False \<rparr>"

definition store_of_name :: "string \<Rightarrow> int option" where
  "store_of_name s =
     (if s = ''null'' then Some 0 else if s = ''chunk'' then Some 1 else if s = ''zeta'' then Some 2 else None)"

text \<open>One option as \<^verbatim>\<open>getopt\<close> returns it, with its argument.\<close>

definition parse_arg :: "(string \<Rightarrow> int) \<Rightarrow> char \<times> string \<Rightarrow> options \<Rightarrow> options option" where
  "parse_arg atoi opt opts =
     (let c = fst opt; optarg = snd opt in
      if c = CHR ''i'' then Some (opts\<lparr> g_base_ip := optarg \<rparr>)
      else if c = CHR ''I'' then Some (opts\<lparr> g_ipc_msgr := True \<rparr>)
      else if c = CHR ''N'' then Some (opts\<lparr> g_net_msgr := True \<rparr>)
      else if c = CHR ''p'' then Some (opts\<lparr> g_base_port := atoi optarg \<rparr>)
      else if c = CHR ''T'' then Some (opts\<lparr> g_tgt_core_mask := Some optarg \<rparr>)
      else if c = CHR ''M'' then Some (opts\<lparr> g_zcell_core_mask := Some optarg \<rparr>)
      else if c = CHR ''s'' then map_option (\<lambda>t. opts\<lparr> g_store_type := t \<rparr>) (store_of_name optarg)
      else if c = CHR ''n'' then Some (opts\<lparr> g_new := True \<rparr>)
      else None)"

fun parse_args :: "(string \<Rightarrow> int) \<Rightarrow> (char \<times> string) list \<Rightarrow> options \<Rightarrow> options option" where
  "parse_args atoi [] opts = Some opts"
| "parse_args atoi (a # as) opts = Option.bind (parse_arg atoi a opts) (parse_args atoi as)"

text \<open>Without both core masks the server does not start.\<close>

definition spdk_app_run :: "options \<Rightarrow> int option" where
  "spdk_app_run opts = (if g_zcell_core_mask opts = None \<or> g_tgt_core_mask opts = None then Some (- 1) else None)"

section \<open>Reactors\<close>

record reactor =
  reactor_id :: nat
  private_id :: nat
  rx_ip :: string
  rx_port :: int
  rx_store :: "ostore option"
  rx_net :: bool
  rx_ipc :: bool
  rx_running :: bool

text \<open>The contexts of the cores, numbered in the order of the cores.\<close>

definition reactor_contexts :: "options \<Rightarrow> nat list \<Rightarrow> reactor list" where
  "reactor_contexts opts cores =
     map (\<lambda>(j, i). \<lparr> reactor_id = i, private_id = j, rx_ip = g_base_ip opts, rx_port = g_base_port opts + int i, rx_store = None,
            rx_net = False, rx_ipc = False, rx_running = False \<rparr>) (zip [0..<length cores] cores)"

definition reactor_reduce_state :: "reactor list \<Rightarrow> nat" where
  "reactor_reduce_state rxs = length (filter rx_running rxs)"

text \<open>Decimal numbers, for the names of the devices.\<close>

fun dec :: "nat \<Rightarrow> string" where
  "dec n = (if n < 10 then [char_of (48 + n)] else dec (n div 10) @ [char_of (48 + n mod 10)])"

declare dec.simps [simp del]

definition dev_list :: "nat \<Rightarrow> string list" where
  "dev_list pid = [''Null'' @ dec pid, ''/run/pmem'' @ dec pid]"

text \<open>Booting a store: making a new one must succeed, what mounting returns is passed on.\<close>

definition ostore_boot :: "'s objstore_impl \<Rightarrow> bool \<Rightarrow> 's \<Rightarrow> (int \<times> 's) run" where
  "ostore_boot impl new s =
     run_bind (if new then run_bind (os_mkfs impl s) (\<lambda>(rc, s1). if rc = OSTORE_EXECUTE_OK then Done s1 else Assert_fails) else Done s)
       (os_mount impl)"

definition ostore_stop :: "'s objstore_impl \<Rightarrow> 's \<Rightarrow> (int \<times> 's) run" where
  "ostore_stop impl s = os_unmount impl s"

text \<open>
  Booting a reactor.  A new store is always made, whatever \<open>g_new\<close> says; the results of
  mounting and of the messagers are not looked at.
\<close>

definition per_reactor_boot :: "options \<Rightarrow> 's objstore_impl \<Rightarrow> 's \<Rightarrow> reactor \<Rightarrow> ('s \<times> reactor) run" where
  "per_reactor_boot opts impl s rx =
     run_bind (ostore_boot impl True s) (\<lambda>(rc, s1).
       Done (s1, rx\<lparr> rx_store := ostore_get_impl (g_store_type opts), rx_ipc := g_ipc_msgr opts, rx_net := g_net_msgr opts, rx_running := True \<rparr>))"

definition per_reactor_stop :: "'s objstore_impl \<Rightarrow> 's \<Rightarrow> reactor \<Rightarrow> ('s \<times> reactor) run" where
  "per_reactor_stop impl s rx =
     run_bind (ostore_stop impl s) (\<lambda>(rc, s1). Done (s1, rx\<lparr> rx_running := False \<rparr>))"

text \<open>The first server with the messagers of a reactor and a booted store.\<close>

definition server_of :: "reactor \<Rightarrow> 's \<Rightarrow> 's server" where
  "server_of rx s = \<lparr> sv_store = s, sv_ipc = rx_ipc rx, sv_net = rx_net rx, sv_ipc_out = [], sv_net_out = [], sv_reqs = [], sv_next = 0 \<rparr>"

text \<open>
  The boot of all cores, each on its own store, one after the other; the first core waits until
  all run.
\<close>

fun boot_all :: "options \<Rightarrow> 's objstore_impl \<Rightarrow> 's list \<Rightarrow> reactor list \<Rightarrow> ('s \<times> reactor) list run" where
  "boot_all opts impl (s # ss) (rx # rxs) =
     run_bind (per_reactor_boot opts impl s rx) (\<lambda>b. run_bind (boot_all opts impl ss rxs) (\<lambda>bs. Done (b # bs)))"
| "boot_all opts impl ss rxs = Done []"

definition sys_init :: "options \<Rightarrow> 's objstore_impl \<Rightarrow> 's list \<Rightarrow> nat list \<Rightarrow> ('s \<times> reactor) list run" where
  "sys_init opts impl ss cores =
     run_bind (boot_all opts impl ss (reactor_contexts opts cores)) (\<lambda>bs.
       if reactor_reduce_state (map snd bs) = length cores then Done bs else Hangs)"

fun stop_all :: "'s objstore_impl \<Rightarrow> ('s \<times> reactor) list \<Rightarrow> ('s \<times> reactor) list run" where
  "stop_all impl [] = Done []"
| "stop_all impl ((s, rx) # bs) =
     run_bind (per_reactor_stop impl s rx) (\<lambda>b. run_bind (stop_all impl bs) (\<lambda>bs'. Done (b # bs')))"

definition sys_fini :: "'s objstore_impl \<Rightarrow> ('s \<times> reactor) list \<Rightarrow> ('s \<times> reactor) list run" where
  "sys_fini impl bs =
     run_bind (stop_all impl bs) (\<lambda>bs'. if reactor_reduce_state (map snd bs') = 0 then Done bs' else Hangs)"

section \<open>Lemmas\<close>

lemma dec_small: "n < 10 \<Longrightarrow> dec n = [char_of (48 + n)]"
  by (subst dec.simps) simp

lemma dec_big: "\<not> n < 10 \<Longrightarrow> dec n = dec (n div 10) @ [char_of (48 + n mod 10)]"
  by (subst dec.simps) simp

lemma dec_length: "10 \<le> n \<Longrightarrow> 2 \<le> length (dec n)"
proof -
  assume n: "10 \<le> n"
  have "dec (n div 10) \<noteq> []" by (cases "n div 10 < 10") (simp_all add: dec_small dec_big)
  then have "1 \<le> length (dec (n div 10))" by (cases "dec (n div 10)") simp_all
  then show ?thesis using n dec_big [of n] by simp
qed

lemma dec_inj: "dec m = dec n \<Longrightarrow> m = n"
proof (induction m arbitrary: n rule: dec.induct)
  case (1 m)
  have d: "(char_of (48 + a :: nat) :: char) = char_of (48 + b) \<Longrightarrow> a < 10 \<Longrightarrow> b < 10 \<Longrightarrow> a = b" for a b
  proof -
    assume a: "(char_of (48 + a :: nat) :: char) = char_of (48 + b)" "a < 10" "b < 10"
    then have "(of_char (char_of (48 + a) :: char) :: nat) = of_char (char_of (48 + b) :: char)" by simp
    then show "a = b" using a(2,3) by (simp add: of_char_of)
  qed
  show ?case
  proof (cases "m < 10")
    case True
    then have "length (dec n) = 1" using 1(2) dec_small [of m] by (metis length_0_conv length_Suc_conv One_nat_def)
    then have n: "n < 10" using dec_length [of n] by (metis not_le numeral_le_one_iff semiring_norm(69))
    then show ?thesis using 1(2) d [of m n] True by (simp add: dec_small)
  next
    case False
    then have "2 \<le> length (dec n)" using 1(2) dec_length [of m] by simp
    then have n: "\<not> n < 10" by (auto simp: dec_small)
    have e: "dec (m div 10) = dec (n div 10)" "(char_of (48 + m mod 10) :: char) = char_of (48 + n mod 10)"
      using 1(2) False n by (simp_all add: dec_big)
    have "m mod 10 = n mod 10" using d [OF e(2)] by simp
    then show ?thesis using 1(1) [OF False e(1)] by (metis div_mult_mod_eq)
  qed
qed

lemma boot_all_ok:
  "boot_all opts impl ss rxs = Done bs \<Longrightarrow> length ss = length rxs \<Longrightarrow>
     length bs = length rxs \<and> list_all (\<lambda>b. rx_running (snd b)) bs \<and> map (private_id \<circ> snd) bs = map private_id rxs \<and>
     map (rx_port \<circ> snd) bs = map rx_port rxs \<and> map (reactor_id \<circ> snd) bs = map reactor_id rxs"
proof (induction opts impl ss rxs arbitrary: bs rule: boot_all.induct)
  case (1 opts impl s ss rx rxs)
  then show ?case by (auto simp: run_bind_Done per_reactor_boot_def)
qed simp_all

lemma reactor_contexts_ids:
  "map private_id (reactor_contexts opts cores) = [0..<length cores]"
  "map reactor_id (reactor_contexts opts cores) = cores"
  "map rx_port (reactor_contexts opts cores) = map (\<lambda>i. g_base_port opts + int i) cores"
  by (rule nth_equalityI; simp add: reactor_contexts_def)+

text \<open>
  A server that has started runs a reactor on every core, and no two of them share a port,
  a data device or a file of persistent memory.
\<close>

theorem reactors_separate:
  assumes "sys_init opts impl ss cores = Done bs" and "length ss = length cores" and "distinct cores"
  shows "reactor_reduce_state (map snd bs) = length cores \<and> map (reactor_id \<circ> snd) bs = cores \<and>
    distinct (map (rx_port \<circ> snd) bs) \<and> distinct (concat (map (dev_list \<circ> private_id \<circ> snd) bs))"
proof -
  have len: "length (reactor_contexts opts cores) = length cores" by (simp add: reactor_contexts_def)
  have b: "boot_all opts impl ss (reactor_contexts opts cores) = Done bs" and r: "reactor_reduce_state (map snd bs) = length cores"
    using assms(1) by (auto simp: sys_init_def run_bind_Done split: if_splits)
  note ok = boot_all_ok [OF b] len assms(2)
  have p: "map (rx_port \<circ> snd) bs = map (\<lambda>i. g_base_port opts + int i) cores"
    and i: "map (reactor_id \<circ> snd) bs = cores" and pid: "map (private_id \<circ> snd) bs = [0..<length cores]"
    using ok by (simp_all add: reactor_contexts_ids)
  have "distinct (map (rx_port \<circ> snd) bs)" unfolding p using assms(3) by (simp add: distinct_map inj_on_def)
  moreover have dn: "distinct (concat (map dev_list js))" if "distinct js" for js
    using that
  proof (induction js)
    case (Cons j js)
    have "set (dev_list j) \<inter> set (dev_list k) = {}" if "j \<noteq> k" for k
      using that dec_inj [of j k] by (auto simp: dev_list_def)
    then have "set (dev_list j) \<inter> set (concat (map dev_list js)) = {}" using Cons.prems by fastforce
    moreover have "distinct (dev_list j)" by (simp add: dev_list_def)
    ultimately show ?case using Cons by simp
  qed simp
  have "map (dev_list \<circ> private_id \<circ> snd) bs = map dev_list (map (private_id \<circ> snd) bs)" by simp
  then have "distinct (concat (map (dev_list \<circ> private_id \<circ> snd) bs))" unfolding pid using dn by simp
  ultimately show ?thesis using r i by simp
qed

lemma reactors_separate_witness:
  "\<exists>bs. sys_init default_options nullstore_impl [[], []] [3, 5] = Done bs \<and> map (reactor_id \<circ> snd) bs = [3, 5] \<and>
     distinct (map (rx_port \<circ> snd) bs) \<and> distinct (concat (map (dev_list \<circ> private_id \<circ> snd) bs))"
proof -
  obtain bs where s: "sys_init default_options nullstore_impl [[], []] [3, 5] = Done bs"
    by (simp add: sys_init_def reactor_contexts_def per_reactor_boot_def ostore_boot_def nullstore_impl_def nullstore_mkfs_def
        nullstore_mount_def reactor_reduce_state_def upt_conv_Cons)
  show ?thesis using reactors_separate [OF s] s by simp
qed

end
