(* ===== verification/Pm_Copy.thy ===== *)
theory Pm_Copy
  imports Memory
begin

text \<open>
  Copying to persistent memory and flushing the caches (\<^verbatim>\<open>pm_impl.h\<close>).  Addresses and lengths
  are natural numbers: the objects of a process lie far below \<open>2 ^ 64\<close>, and every subtraction of
  the code is guarded; where the code relies on wrapping (the choice of the direction in
  \<^verbatim>\<open>nvmem_memcpy\<close>) the words are written out.  Beside the bytes the state has, for every address,
  how far its last store has come on its way to the medium.  A 16-byte streaming store
  (\<^verbatim>\<open>_mm_stream_si128\<close>) to an address that is not a multiple of 16 is a general protection
  fault, which ends the process: a copy that faults is \<^term>\<open>None\<close>.
\<close>

section \<open>The state: bytes and caches\<close>

datatype persistence = Dirty | Draining | Durable

record copy_state =
  cs_mem :: memory
  cs_pst :: "nat \<Rightarrow> persistence"

definition mark :: "(nat \<Rightarrow> bool) \<Rightarrow> persistence \<Rightarrow> (nat \<Rightarrow> persistence) \<Rightarrow> nat \<Rightarrow> persistence" where
  "mark A p f = (\<lambda>x. if A x then p else f x)"

text \<open>An ordinary store goes to the cache; a streaming store goes past it, but drains only at a fence.\<close>

definition store :: "nat \<Rightarrow> u8 list \<Rightarrow> copy_state \<Rightarrow> copy_state" where
  "store a bs st = st\<lparr> cs_mem := mem_write (cs_mem st) a bs,
                       cs_pst := mark (\<lambda>x. in_block x a (length bs)) Dirty (cs_pst st) \<rparr>"

definition stream :: "nat \<Rightarrow> u8 list \<Rightarrow> copy_state \<Rightarrow> copy_state" where
  "stream a bs st = st\<lparr> cs_mem := mem_write (cs_mem st) a bs,
                        cs_pst := mark (\<lambda>x. in_block x a (length bs)) Draining (cs_pst st) \<rparr>"

text \<open>The streaming store of a register of 16 bytes faults when its address is not aligned.\<close>

definition stream_si128 :: "nat \<Rightarrow> u8 list \<Rightarrow> copy_state \<Rightarrow> copy_state option" where
  "stream_si128 a bs st = (if a mod 16 = 0 then Some (stream a bs st) else None)"

definition load :: "copy_state \<Rightarrow> nat \<Rightarrow> nat \<Rightarrow> u8 list" where
  "load st a n = mem_read (cs_mem st) a n"

definition FLUSH_ALIGN :: nat where
  "FLUSH_ALIGN = 64"

text \<open>
  \<^verbatim>\<open>clflush\<close>, \<^verbatim>\<open>clflushopt\<close> and \<^verbatim>\<open>clwb\<close> write back the line of an address; \<^verbatim>\<open>sfence\<close> waits for
  what is on its way.
\<close>

definition flush_line :: "nat \<Rightarrow> copy_state \<Rightarrow> copy_state" where
  "flush_line a st = st\<lparr> cs_pst :=
     mark (\<lambda>x. x div FLUSH_ALIGN = a div FLUSH_ALIGN \<and> cs_pst st x = Dirty) Draining (cs_pst st) \<rparr>"

definition asm_clflush :: "nat \<Rightarrow> copy_state \<Rightarrow> copy_state" where "asm_clflush = flush_line"
definition asm_clwb :: "nat \<Rightarrow> copy_state \<Rightarrow> copy_state" where "asm_clwb = flush_line"
definition asm_clflushopt :: "nat \<Rightarrow> copy_state \<Rightarrow> copy_state" where "asm_clflushopt = flush_line"

definition CLFLUSH_USED :: int where "CLFLUSH_USED = 1"
definition CLWB_USED :: int where "CLWB_USED = 2"

definition sfence :: "copy_state \<Rightarrow> copy_state" where
  "sfence st = st\<lparr> cs_pst := mark (\<lambda>x. cs_pst st x = Draining) Durable (cs_pst st) \<rparr>"

section \<open>Flushing a range\<close>

text \<open>The loop of all three functions, with the instruction \<open>fl\<close> that each of them uses.\<close>

function flush_from :: "(nat \<Rightarrow> copy_state \<Rightarrow> copy_state) \<Rightarrow> nat \<Rightarrow> nat \<Rightarrow> copy_state \<Rightarrow> copy_state" where
  "flush_from fl uptr e st = (if uptr < e then flush_from fl (uptr + FLUSH_ALIGN) e (fl uptr st) else st)"
  by pat_completeness auto

termination flush_from
  by (relation "measure (\<lambda>(fl, uptr, e, st). e - uptr)") (auto simp: FLUSH_ALIGN_def)

declare flush_from.simps [simp del]

definition flush :: "nat \<Rightarrow> nat \<Rightarrow> copy_state \<Rightarrow> copy_state" where
  "flush addr len st = flush_from asm_clflush (addr div FLUSH_ALIGN * FLUSH_ALIGN) (addr + len) st"

definition flushopt :: "nat \<Rightarrow> nat \<Rightarrow> copy_state \<Rightarrow> copy_state" where
  "flushopt addr len st = flush_from asm_clflushopt (addr div FLUSH_ALIGN * FLUSH_ALIGN) (addr + len) st"

definition persist_line :: "int \<Rightarrow> nat \<Rightarrow> copy_state \<Rightarrow> copy_state" where
  "persist_line type ptr st =
     (if type = CLFLUSH_USED then asm_clflush ptr st
      else if type = CLWB_USED then asm_clwb ptr st
      else asm_clflushopt ptr st)"

definition persist_data :: "bool \<Rightarrow> int \<Rightarrow> nat \<Rightarrow> nat \<Rightarrow> copy_state \<Rightarrow> copy_state" where
  "persist_data sync type data len st =
     (if sync then sfence (flush_from (persist_line type) (data div 64 * 64) (data + len) st) else st)"

section \<open>Small copies\<close>

text \<open>All loads come before the stores; the last store may overlap the ones before it.\<close>

definition memmove_small_sse2_noflush :: "nat \<Rightarrow> nat \<Rightarrow> nat \<Rightarrow> copy_state \<Rightarrow> copy_state" where
  "memmove_small_sse2_noflush dest src len st =
     (if len \<le> 8 then
        (if len \<le> 2 then
           (if len = 2 then store dest (load st src 2) st
            else store dest (load st src 1) st)
         else if len > 4 then
           (let d40 = load st src 4; d41 = load st (src + len - 4) 4 in
            store (dest + len - 4) d41 (store dest d40 st))
         else
           (let d20 = load st src 2; d21 = load st (src + len - 2) 2 in
            store (dest + len - 2) d21 (store dest d20 st)))
      else if len \<le> 32 then
        (if len > 16 then
           (let xmm0 = load st src 16; xmm1 = load st (src + len - 16) 16 in
            store (dest + len - 16) xmm1 (store dest xmm0 st))
         else
           (let d80 = load st src 8; d81 = load st (src + len - 8) 8 in
            store (dest + len - 8) d81 (store dest d80 st)))
      else if len > 48 then
        (let xmm0 = load st src 16; xmm1 = load st (src + 16) 16; xmm2 = load st (src + 32) 16;
             xmm3 = load st (src + len - 16) 16 in
         store (dest + len - 16) xmm3 (store (dest + 32) xmm2 (store (dest + 16) xmm1 (store dest xmm0 st))))
      else
        (let xmm0 = load st src 16; xmm1 = load st (src + 16) 16; xmm2 = load st (src + len - 16) 16 in
         store (dest + len - 16) xmm2 (store (dest + 16) xmm1 (store dest xmm0 st))))"

definition memmove_small_sse2 :: "nat \<Rightarrow> nat \<Rightarrow> nat \<Rightarrow> copy_state \<Rightarrow> copy_state" where
  "memmove_small_sse2 dest src len st = flushopt dest len (memmove_small_sse2_noflush dest src len st)"

section \<open>Streaming copies of whole blocks\<close>

text \<open>Loads of \<open>n\<close> registers of \<open>16\<close> bytes, then as many streaming stores.\<close>

definition load_regs :: "copy_state \<Rightarrow> nat \<Rightarrow> nat \<Rightarrow> u8 list list" where
  "load_regs st src n = map (\<lambda>i. load st (src + 16 * i) 16) [0..<n]"

fun stream_regs :: "nat \<Rightarrow> u8 list list \<Rightarrow> copy_state \<Rightarrow> copy_state option" where
  "stream_regs dest [] st = Some st"
| "stream_regs dest (r # rs) st = Option.bind (stream_si128 dest r st) (stream_regs (dest + 16) rs)"

definition memmove_movnt4x64b :: "nat \<Rightarrow> nat \<Rightarrow> copy_state \<Rightarrow> copy_state option" where
  "memmove_movnt4x64b dest src st = stream_regs dest (load_regs st src 16) st"

definition memmove_movnt2x64b :: "nat \<Rightarrow> nat \<Rightarrow> copy_state \<Rightarrow> copy_state option" where
  "memmove_movnt2x64b dest src st = stream_regs dest (load_regs st src 8) st"

definition memmove_movnt1x64b :: "nat \<Rightarrow> nat \<Rightarrow> copy_state \<Rightarrow> copy_state option" where
  "memmove_movnt1x64b dest src st = stream_regs dest (load_regs st src 4) st"

definition memmove_movnt1x32b :: "nat \<Rightarrow> nat \<Rightarrow> copy_state \<Rightarrow> copy_state option" where
  "memmove_movnt1x32b dest src st = stream_regs dest (load_regs st src 2) st"

definition memmove_movnt1x16b :: "nat \<Rightarrow> nat \<Rightarrow> copy_state \<Rightarrow> copy_state option" where
  "memmove_movnt1x16b dest src st = stream_si128 dest (load st src 16) st"

definition memmove_movnt1x8b :: "nat \<Rightarrow> nat \<Rightarrow> copy_state \<Rightarrow> copy_state option" where
  "memmove_movnt1x8b dest src st = Some (stream dest (load st src 8) st)"

definition memmove_movnt1x4b :: "nat \<Rightarrow> nat \<Rightarrow> copy_state \<Rightarrow> copy_state option" where
  "memmove_movnt1x4b dest src st = Some (stream dest (load st src 4) st)"

definition util_is_pow2 :: "u64 \<Rightarrow> bool" where
  "util_is_pow2 v \<longleftrightarrow> v \<noteq> 0 \<and> v AND (v - 1) = 0"

section \<open>Copying forwards\<close>

text \<open>The end of a copy: at most one streaming store, or an ordinary copy with a flush.\<close>

definition fw_tail :: "nat \<Rightarrow> nat \<Rightarrow> nat \<Rightarrow> copy_state \<Rightarrow> copy_state option" where
  "fw_tail dest src len st =
     (if len = 0 then Some st
      else if util_is_pow2 (of_nat len) \<and> len = 32 then memmove_movnt1x32b dest src st
      else if util_is_pow2 (of_nat len) \<and> len = 16 then memmove_movnt1x16b dest src st
      else if util_is_pow2 (of_nat len) \<and> len = 8 then memmove_movnt1x8b dest src st
      else if util_is_pow2 (of_nat len) \<and> len = 4 then memmove_movnt1x4b dest src st
      else Some (memmove_small_sse2 dest src len st))"

definition fw_64 :: "nat \<Rightarrow> nat \<Rightarrow> nat \<Rightarrow> copy_state \<Rightarrow> copy_state option" where
  "fw_64 dest src len st =
     (if len \<ge> 64 then Option.bind (memmove_movnt1x64b dest src st) (fw_tail (dest + 64) (src + 64) (len - 64))
      else fw_tail dest src len st)"

definition fw_128 :: "nat \<Rightarrow> nat \<Rightarrow> nat \<Rightarrow> copy_state \<Rightarrow> copy_state option" where
  "fw_128 dest src len st =
     (if len \<ge> 128 then Option.bind (memmove_movnt2x64b dest src st) (fw_64 (dest + 128) (src + 128) (len - 128))
      else fw_64 dest src len st)"

fun fw_loop :: "nat \<Rightarrow> nat \<Rightarrow> nat \<Rightarrow> copy_state \<Rightarrow> copy_state option" where
  "fw_loop dest src len st =
     (if len \<ge> 256
      then Option.bind (memmove_movnt4x64b dest src st) (\<lambda>st'. fw_loop (dest + 256) (src + 256) (len - 256) st')
      else fw_128 dest src len st)"

declare fw_loop.simps [simp del]

definition memmove_movnt_sse_fw :: "nat \<Rightarrow> nat \<Rightarrow> nat \<Rightarrow> copy_state \<Rightarrow> copy_state option" where
  "memmove_movnt_sse_fw dest src len st =
     (let cnt = dest mod 64 in
      if cnt > 0 then
        (let cnt = min (64 - cnt) len in
         fw_loop (dest + cnt) (src + cnt) (len - cnt) (memmove_small_sse2 dest src cnt st))
      else fw_loop dest src len st)"

section \<open>Copying backwards\<close>

text \<open>Here \<open>dest\<close> and \<open>src\<close> are the ends of the blocks still to copy.\<close>

definition bw_tail :: "nat \<Rightarrow> nat \<Rightarrow> nat \<Rightarrow> copy_state \<Rightarrow> copy_state option" where
  "bw_tail dest src len st =
     (if len = 0 then Some st
      else if util_is_pow2 (of_nat len) \<and> len = 32 then memmove_movnt1x32b (dest - 32) (src - 32) st
      else if util_is_pow2 (of_nat len) \<and> len = 16 then memmove_movnt1x16b (dest - 16) (src - 16) st
      else if util_is_pow2 (of_nat len) \<and> len = 8 then memmove_movnt1x8b (dest - 8) (src - 8) st
      else if util_is_pow2 (of_nat len) \<and> len = 4 then memmove_movnt1x4b (dest - 4) (src - 4) st
      else Some (memmove_small_sse2 (dest - len) (src - len) len st))"

definition bw_64 :: "nat \<Rightarrow> nat \<Rightarrow> nat \<Rightarrow> copy_state \<Rightarrow> copy_state option" where
  "bw_64 dest src len st =
     (if len \<ge> 64
      then Option.bind (memmove_movnt1x64b (dest - 64) (src - 64) st) (bw_tail (dest - 64) (src - 64) (len - 64))
      else bw_tail dest src len st)"

definition bw_128 :: "nat \<Rightarrow> nat \<Rightarrow> nat \<Rightarrow> copy_state \<Rightarrow> copy_state option" where
  "bw_128 dest src len st =
     (if len \<ge> 128
      then Option.bind (memmove_movnt2x64b (dest - 128) (src - 128) st) (bw_64 (dest - 128) (src - 128) (len - 128))
      else bw_64 dest src len st)"

fun bw_loop :: "nat \<Rightarrow> nat \<Rightarrow> nat \<Rightarrow> copy_state \<Rightarrow> copy_state option" where
  "bw_loop dest src len st =
     (if len \<ge> 256
      then Option.bind (memmove_movnt4x64b (dest - 256) (src - 256) st)
             (\<lambda>st'. bw_loop (dest - 256) (src - 256) (len - 256) st')
      else bw_128 dest src len st)"

declare bw_loop.simps [simp del]

text \<open>The unaligned part is copied before the ends are moved down: it lies behind the blocks.\<close>

definition memmove_movnt_sse_bw :: "nat \<Rightarrow> nat \<Rightarrow> nat \<Rightarrow> copy_state \<Rightarrow> copy_state option" where
  "memmove_movnt_sse_bw dest0 src0 len st =
     (let dest = dest0 + len; src = src0 + len; cnt = dest mod 64 in
      if cnt > 0 then
        (let cnt = min (64 - cnt) len in
         bw_loop (dest - cnt) (src - cnt) (len - cnt) (memmove_small_sse2 dest src cnt st))
      else bw_loop dest src len st)"

definition nvmem_memcpy :: "bool \<Rightarrow> nat \<Rightarrow> nat \<Rightarrow> nat \<Rightarrow> copy_state \<Rightarrow> copy_state option" where
  "nvmem_memcpy sync dest src len st =
     map_option (\<lambda>st'. if sync then sfence st' else st')
       (if unat (of_nat dest - of_nat src :: u64) \<ge> len then memmove_movnt_sse_fw dest src len st
        else memmove_movnt_sse_bw dest src len st)"

section \<open>Flushing covers every line of a range\<close>

lemma flush_line_simps [simp]:
  "cs_mem (flush_line a st) = cs_mem st"
  "cs_pst (flush_line a st) x = Dirty \<longleftrightarrow> cs_pst st x = Dirty \<and> x div FLUSH_ALIGN \<noteq> a div FLUSH_ALIGN"
  by (auto simp: flush_line_def mark_def)

lemma sfence_simps [simp]:
  "cs_mem (sfence st) = cs_mem st"
  "cs_pst (sfence st) x = Dirty \<longleftrightarrow> cs_pst st x = Dirty"
  "cs_pst (sfence st) x = Durable \<longleftrightarrow> cs_pst st x \<noteq> Dirty"
  by (cases "cs_pst st x"; simp add: sfence_def mark_def)+

lemmas asm_flush_defs = asm_clflush_def asm_clwb_def asm_clflushopt_def

lemma persist_line [simp]: "persist_line type = flush_line"
  by (rule ext)+ (simp add: persist_line_def asm_flush_defs)

lemma flush_from_mem [simp]: "cs_mem (flush_from flush_line a e st) = cs_mem st"
proof (induction "flush_line" a e st rule: flush_from.induct)
  case (1 a e st)
  then show ?case by (subst flush_from.simps) simp
qed

lemma line_of: "a mod FLUSH_ALIGN = 0 \<Longrightarrow> x div FLUSH_ALIGN = a div FLUSH_ALIGN \<longleftrightarrow> a \<le> x \<and> x < a + FLUSH_ALIGN"
  by (auto simp: FLUSH_ALIGN_def elim!: dvdE)

lemma flush_from_dirty:
  "a mod FLUSH_ALIGN = 0 \<Longrightarrow> cs_pst (flush_from flush_line a e st) x = Dirty \<Longrightarrow>
     cs_pst st x = Dirty \<and> \<not> (a \<le> x \<and> x < e)"
proof (induction "flush_line" a e st rule: flush_from.induct)
  case (1 a e st)
  show ?case
  proof (cases "a < e")
    case True
    then have "cs_pst (flush_from flush_line (a + FLUSH_ALIGN) e (flush_line a st)) x = Dirty"
      using 1(3) by (subst (asm) flush_from.simps) simp
    then have "cs_pst (flush_line a st) x = Dirty \<and> \<not> (a + FLUSH_ALIGN \<le> x \<and> x < e)"
      using 1(1) [OF True] 1(2) by simp
    then show ?thesis using 1(2) by (auto simp: line_of)
  next
    case False
    then show ?thesis using 1(3) by (subst (asm) flush_from.simps) simp
  qed
qed

lemma aligned_down: "a div FLUSH_ALIGN * FLUSH_ALIGN mod FLUSH_ALIGN = 0" "a div FLUSH_ALIGN * FLUSH_ALIGN \<le> a"
  by (simp_all add: FLUSH_ALIGN_def)

lemma flushopt_mem [simp]: "cs_mem (flushopt a n st) = cs_mem st"
  by (simp add: flushopt_def asm_flush_defs)

lemma flushopt_dirty: "cs_pst (flushopt a n st) x = Dirty \<Longrightarrow> cs_pst st x = Dirty \<and> \<not> in_block x a n"
  unfolding flushopt_def asm_flush_defs using flush_from_dirty [OF aligned_down(1), of a "a + n" st x] aligned_down(2) [of a]
  by (meson in_block_def le_trans)

section \<open>Every piece copies its bytes\<close>

text \<open>The bytes are copied, and none of them is left in the cache; nothing else becomes dirty.\<close>

definition copied :: "nat \<Rightarrow> nat \<Rightarrow> nat \<Rightarrow> copy_state \<Rightarrow> copy_state \<Rightarrow> bool" where
  "copied d s n st st' \<longleftrightarrow> cs_mem st' = mem_write (cs_mem st) d (mem_read (cs_mem st) s n) \<and>
     (\<forall>x. cs_pst st' x = Dirty \<longrightarrow> cs_pst st x = Dirty \<and> \<not> in_block x d n)"

lemma copiedI:
  "cs_mem st' = mem_write (cs_mem st) d (mem_read (cs_mem st) s n) \<Longrightarrow>
   (\<And>x. cs_pst st' x = Dirty \<Longrightarrow> cs_pst st x = Dirty \<and> \<not> in_block x d n) \<Longrightarrow> copied d s n st st'"
  by (simp add: copied_def)

lemma in_block_add: "in_block x d (k + r) \<longleftrightarrow> in_block x d k \<or> in_block x (d + k) r"
  by (auto simp: in_block_def)

lemma copied_0: "copied d s 0 st st"
  by (simp add: copied_def in_block_def mem_read_def)

lemma copied_forwards:
  assumes a: "copied d s k st st1" and b: "copied (d + k) (s + k) r st1 st2"
    and o: "d \<le> s \<or> s + k + r \<le> d"
  shows "copied d s (k + r) st st2"
proof (rule copiedI)
  have m1: "cs_mem st1 = mem_write (cs_mem st) d (mem_read (cs_mem st) s k)"
    using a by (simp add: copied_def)
  have "mem_read (cs_mem st1) (s + k) r = mem_read (cs_mem st) (s + k) r"
    unfolding m1 by (rule mem_read_write_disjoint) (use o in \<open>auto simp: disjoint_blocks_def\<close>)
  then show "cs_mem st2 = mem_write (cs_mem st) d (mem_read (cs_mem st) s (k + r))"
    using b by (simp add: copied_def m1 mem_read_split mem_write_append)
  show "cs_pst st x = Dirty \<and> \<not> in_block x d (k + r)" if "cs_pst st2 x = Dirty" for x
    using a b that unfolding copied_def in_block_add by blast
qed

lemma copied_backwards:
  assumes a: "copied (d + r) (s + r) k st st1" and b: "copied d s r st1 st2" and o: "s \<le> d"
  shows "copied d s (r + k) st st2"
proof (rule copiedI)
  have m1: "cs_mem st1 = mem_write (cs_mem st) (d + r) (mem_read (cs_mem st) (s + r) k)"
    using a by (simp add: copied_def)
  have "mem_read (cs_mem st1) s r = mem_read (cs_mem st) s r"
    unfolding m1 by (rule mem_read_write_disjoint) (use o in \<open>auto simp: disjoint_blocks_def\<close>)
  moreover have "mem_write (mem_write (cs_mem st) (d + r) (mem_read (cs_mem st) (s + r) k)) d (mem_read (cs_mem st) s r) =
      mem_write (mem_write (cs_mem st) d (mem_read (cs_mem st) s r)) (d + r) (mem_read (cs_mem st) (s + r) k)"
    by (rule mem_write_commute) (simp add: disjoint_blocks_def)
  ultimately show "cs_mem st2 = mem_write (cs_mem st) d (mem_read (cs_mem st) s (r + k))"
    using b by (simp add: copied_def m1 mem_read_split mem_write_append)
  show "cs_pst st x = Dirty \<and> \<not> in_block x d (r + k)" if "cs_pst st2 x = Dirty" for x
    using a b that unfolding copied_def in_block_add by blast
qed

lemma store_simps [simp]:
  "cs_mem (store a bs st) = mem_write (cs_mem st) a bs"
  "cs_pst (store a bs st) x = Dirty \<longleftrightarrow> cs_pst st x = Dirty \<or> in_block x a (length bs)"
  by (auto simp: store_def mark_def)

lemma stream_simps [simp]:
  "cs_mem (stream a bs st) = mem_write (cs_mem st) a bs"
  "cs_pst (stream a bs st) x = Dirty \<longleftrightarrow> cs_pst st x = Dirty \<and> \<not> in_block x a (length bs)"
  by (auto simp: stream_def mark_def)

text \<open>Two pieces that overlap or touch make up the whole.\<close>

lemma mem_write_pieces:
  assumes "b \<le> n" and "n \<le> a + b" and "a \<le> n"
  shows "mem_write (mem_write m' d (mem_read m s a)) (d + n - b) (mem_read m (s + n - b) b) =
         mem_write m' d (mem_read m s n)"
proof (rule ext)
  fix x
  have "s + n - b + (x - (d + n - b)) = s + (x - d)" if "d + n - b \<le> x" "d \<le> x"
    using assms that by arith
  then show "mem_write (mem_write m' d (mem_read m s a)) (d + n - b) (mem_read m (s + n - b) b) x =
      mem_write m' d (mem_read m s n) x"
    using assms by (auto simp: mem_write_def nth_mem_read)
qed

lemma mem_write_adjacent:
  "mem_write (mem_write m' d (mem_read m s a)) (d + a) (mem_read m (s + a) b) =
     mem_write m' d (mem_read m s (a + b))"
  by (simp add: mem_read_split mem_write_append)

lemma length_load [simp]: "length (load st a n) = n"
  by (simp add: load_def)

lemma small_noflush:
  assumes "0 < n" and "n \<le> 64"
  shows "cs_mem (memmove_small_sse2_noflush d s n st) = mem_write (cs_mem st) d (mem_read (cs_mem st) s n)"
    and "cs_pst (memmove_small_sse2_noflush d s n st) x = Dirty \<Longrightarrow> cs_pst st x = Dirty \<or> in_block x d n"
proof -
  show "cs_mem (memmove_small_sse2_noflush d s n st) = mem_write (cs_mem st) d (mem_read (cs_mem st) s n)"
    using assms mem_write_adjacent [of _ d _ s 16 16] mem_write_adjacent [of _ d _ s 32 16]
    by (cases "n = 1"; cases "n = 2") (simp_all add: memmove_small_sse2_noflush_def Let_def load_def mem_write_pieces)
  show "cs_pst (memmove_small_sse2_noflush d s n st) x = Dirty \<Longrightarrow> cs_pst st x = Dirty \<or> in_block x d n"
    using assms by (auto simp: memmove_small_sse2_noflush_def Let_def in_block_def split: if_splits)
qed

lemma small_copied: "0 < n \<Longrightarrow> n \<le> 64 \<Longrightarrow> copied d s n st (memmove_small_sse2 d s n st)"
  unfolding memmove_small_sse2_def
  by (rule copiedI) (auto simp: small_noflush(1) dest!: flushopt_dirty small_noflush(2))

lemma concat_load_regs: "concat (load_regs st s n) = mem_read (cs_mem st) s (16 * n)"
  by (induction n) (simp_all add: load_regs_def load_def mem_read_split [symmetric] add.commute mem_read_def [of _ _ 0])

text \<open>A piece that does not fault and copies.\<close>

definition copies :: "nat \<Rightarrow> nat \<Rightarrow> nat \<Rightarrow> copy_state \<Rightarrow> copy_state option \<Rightarrow> bool" where
  "copies d s n st r \<longleftrightarrow> (\<exists>st'. r = Some st' \<and> copied d s n st st')"

lemma copies_Some [simp]: "copies d s n st (Some st') \<longleftrightarrow> copied d s n st st'"
  by (simp add: copies_def)

lemma copies_forwards:
  assumes "copies d s k st r" and "\<And>st1. copies (d + k) (s + k) n st1 (f st1)" and "d \<le> s \<or> s + k + n \<le> d"
  shows "copies d s (k + n) st (Option.bind r f)"
proof -
  obtain st1 where st1: "r = Some st1" "copied d s k st st1" using assms(1) by (auto simp: copies_def)
  obtain st2 where "f st1 = Some st2" "copied (d + k) (s + k) n st1 st2"
    using assms(2) by (auto simp: copies_def)
  then show ?thesis using copied_forwards [OF st1(2) _ assms(3)] st1(1) by (simp add: copies_def)
qed

lemma copies_backwards:
  assumes "copies (d + n) (s + n) k st r" and "\<And>st1. copies d s n st1 (f st1)" and "s \<le> d"
  shows "copies d s (n + k) st (Option.bind r f)"
proof -
  obtain st1 where st1: "r = Some st1" "copied (d + n) (s + n) k st st1" using assms(1) by (auto simp: copies_def)
  obtain st2 where "f st1 = Some st2" "copied d s n st1 st2"
    using assms(2) by (auto simp: copies_def)
  then show ?thesis using copied_backwards [OF st1(2) _ assms(3)] st1(1) by (simp add: copies_def)
qed

lemma stream_regs_copied:
  "d mod 16 = 0 \<Longrightarrow> \<forall>r\<in>set rs. length r = 16 \<Longrightarrow> \<exists>st'. stream_regs d rs st = Some st' \<and>
     cs_mem st' = mem_write (cs_mem st) d (concat rs) \<and>
     (\<forall>x. cs_pst st' x = Dirty \<longrightarrow> cs_pst st x = Dirty \<and> \<not> in_block x d (16 * length rs))"
proof (induction rs arbitrary: d st)
  case (Cons r rs)
  have "in_block x d (16 * length (r # rs)) \<longleftrightarrow> in_block x d 16 \<or> in_block x (d + 16) (16 * length rs)" for x
    using in_block_add [of x d 16 "16 * length rs"] by simp
  moreover have "length r = 16" "\<forall>r\<in>set rs. length r = 16" "(d + 16) mod 16 = 0" using Cons.prems by simp_all
  ultimately show ?case
    using Cons.IH [of "d + 16" "stream d r st"] Cons.prems(1) by (auto simp: stream_si128_def mem_write_append)
qed (simp add: in_block_def)

lemma stream_regs_fault: "d mod 16 \<noteq> 0 \<Longrightarrow> rs \<noteq> [] \<Longrightarrow> stream_regs d rs st = None"
  by (cases rs) (simp_all add: stream_si128_def)

lemma regs_copied:
  assumes "d mod 16 = 0"
  shows "copies d s (16 * n) st (stream_regs d (load_regs st s n) st)"
proof -
  have "\<forall>r\<in>set (load_regs st s n). length r = 16" "length (load_regs st s n) = n"
    by (auto simp: load_regs_def)
  with stream_regs_copied [OF assms, of "load_regs st s n" st] show ?thesis
    by (auto simp: copies_def copied_def concat_load_regs)
qed

lemma stream_copied: "copied d s n st (stream d (load st s n) st)"
  by (auto simp: copied_def load_def)

lemmas movnt_defs = memmove_movnt4x64b_def memmove_movnt2x64b_def memmove_movnt1x64b_def memmove_movnt1x32b_def
  memmove_movnt1x16b_def memmove_movnt1x8b_def memmove_movnt1x4b_def

lemma blocks_copied:
  assumes "d mod 16 = 0"
  shows "copies d s 256 st (memmove_movnt4x64b d s st)" "copies d s 128 st (memmove_movnt2x64b d s st)"
    "copies d s 64 st (memmove_movnt1x64b d s st)" "copies d s 32 st (memmove_movnt1x32b d s st)"
    "copies d s 16 st (memmove_movnt1x16b d s st)"
  using regs_copied [OF assms, of s 16 st] regs_copied [OF assms, of s 8 st] regs_copied [OF assms, of s 4 st]
    regs_copied [OF assms, of s 2 st] assms
  by (simp_all add: movnt_defs stream_si128_def stream_copied)

lemma words_copied: "copies d s 8 st (memmove_movnt1x8b d s st)" "copies d s 4 st (memmove_movnt1x4b d s st)"
  by (simp_all add: movnt_defs stream_copied)

lemma blocks_fault:
  assumes "d mod 16 \<noteq> 0"
  shows "memmove_movnt4x64b d s st = None" "memmove_movnt2x64b d s st = None" "memmove_movnt1x64b d s st = None"
    "memmove_movnt1x32b d s st = None" "memmove_movnt1x16b d s st = None"
  using assms by (simp_all add: movnt_defs stream_si128_def stream_regs_fault load_regs_def)

section \<open>The whole copy\<close>

lemma fw_tail_copied: "n < 64 \<Longrightarrow> d mod 16 = 0 \<Longrightarrow> copies d s n st (fw_tail d s n st)"
  using blocks_copied(4,5) [of d s st] words_copied [of d s st] small_copied [of n d s st] copied_0 [of d s st]
  by (simp add: fw_tail_def)

lemma fw_64_copied: "n < 128 \<Longrightarrow> d mod 16 = 0 \<Longrightarrow> d \<le> s \<or> s + n \<le> d \<Longrightarrow> copies d s n st (fw_64 d s n st)"
  using copies_forwards [OF blocks_copied(3) fw_tail_copied, of d "n - 64" s st] fw_tail_copied [of n d s st]
  by (cases "64 \<le> n") (auto simp: fw_64_def mod_add_eq [of d 16 64, symmetric])

lemma fw_128_copied: "n < 256 \<Longrightarrow> d mod 16 = 0 \<Longrightarrow> d \<le> s \<or> s + n \<le> d \<Longrightarrow> copies d s n st (fw_128 d s n st)"
proof (cases "128 \<le> n")
  case True
  assume n: "n < 256" and d: "d mod 16 = 0" and o: "d \<le> s \<or> s + n \<le> d"
  have "copies (d + 128) (s + 128) (n - 128) st1 (fw_64 (d + 128) (s + 128) (n - 128) st1)" for st1
    by (rule fw_64_copied) (use n d o True in \<open>auto simp: mod_add_eq [of d 16 128, symmetric]\<close>)
  from copies_forwards [OF blocks_copied(2) [OF d] this] show ?thesis
    using o True by (auto simp: fw_128_def)
qed (simp add: fw_128_def fw_64_copied)

lemma fw_loop_copied: "d mod 16 = 0 \<Longrightarrow> d \<le> s \<or> s + n \<le> d \<Longrightarrow> copies d s n st (fw_loop d s n st)"
proof (induction n arbitrary: d s st rule: less_induct)
  case (less n)
  show ?case
  proof (cases "n \<ge> 256")
    case True
    have "copies (d + 256) (s + 256) (n - 256) st1 (fw_loop (d + 256) (s + 256) (n - 256) st1)" for st1
      by (rule less.IH) (use less.prems True in \<open>auto simp: mod_add_eq [of d 16 256, symmetric]\<close>)
    from copies_forwards [OF blocks_copied(1) [OF less.prems(1)] this] show ?thesis
      using less.prems True by (subst fw_loop.simps) auto
  next
    case False
    then show ?thesis using fw_128_copied [of n d s st] less.prems by (subst fw_loop.simps) auto
  qed
qed

lemma fw_loop_0: "fw_loop d s 0 st = Some st"
  by (subst fw_loop.simps) (simp add: fw_128_def fw_64_def fw_tail_def)

lemma fw_copied:
  assumes "0 < n" and "d \<le> s \<or> s + n \<le> d"
  shows "copies d s n st (memmove_movnt_sse_fw d s n st)"
proof (cases "d mod 64 = 0")
  case True
  then have "d mod 16 = 0" using mod_mod_cancel [of 16 64 d] by simp
  then show ?thesis using fw_loop_copied [OF _ assms(2)] True by (simp add: memmove_movnt_sse_fw_def)
next
  case False
  define c where "c = min (64 - d mod 64) n"
  have c: "0 < c" "c \<le> 64" "c \<le> n" using False assms(1) by (auto simp: c_def)
  have "copies (d + c) (s + c) (n - c) st' (fw_loop (d + c) (s + c) (n - c) st')" for st'
  proof (cases "c = n")
    case True
    then show ?thesis by (simp add: fw_loop_0 copied_0)
  next
    case False
    define q r where "q = d div 64" and "r = d mod 64"
    then have "d = 64 * q + r" "r < 64" by simp_all
    then have "d + c = 64 * (d div 64 + 1)"
      using False unfolding c_def q_def [symmetric] r_def [symmetric] by (simp add: min_def split: if_splits)
    then have "(d + c) mod 16 = 0" by (simp only:) (simp add: mod_mult_left_eq [of 64, symmetric] mult.assoc)
    then show ?thesis by (rule fw_loop_copied) (use assms(2) c(3) in auto)
  qed
  note whole = this
  have "copies d s c st (Some (memmove_small_sse2 d s c st))" using small_copied [OF c(1,2)] by simp
  from copies_forwards [OF this whole] show ?thesis using False assms(2) c by (auto simp: memmove_movnt_sse_fw_def Let_def c_def)
qed

lemma small_turn: "n < 64 \<Longrightarrow> bw_loop D S n st = bw_tail D S n st"
  by (subst bw_loop.simps) (simp add: bw_128_def bw_64_def)

lemma bw_tail_copied:
  assumes "n < 64" and "(d + n) mod 16 = 0 \<or> n \<noteq> 16 \<and> n \<noteq> 32"
  shows "copies d s n st (bw_tail (d + n) (s + n) n st)"
proof -
  have "d mod 16 = 0" if "n = 16 \<or> n = 32" using assms(2) that by presburger
  then show ?thesis
    using assms(1) blocks_copied(4,5) [of d s st] words_copied [of d s st] small_copied [of n d s st] copied_0 [of d s st]
    by (auto simp: bw_tail_def)
qed

lemma bw_64_copied:
  assumes "n < 128" and "s \<le> d" and "(d + n) mod 16 = 0"
  shows "copies d s n st (bw_64 (d + n) (s + n) n st)"
proof (cases "64 \<le> n")
  case True
  have a: "(d + (n - 64)) mod 16 = 0" using assms(3) True by presburger
  have "copies d s (n - 64) st1 (bw_tail (d + (n - 64)) (s + (n - 64)) (n - 64) st1)" for st1
    by (rule bw_tail_copied) (use a assms(1) in auto)
  from copies_backwards [OF blocks_copied(3) [OF a] this assms(2)] show ?thesis using True by (simp add: bw_64_def)
qed (use bw_tail_copied [of n d s st] assms in \<open>simp add: bw_64_def\<close>)

lemma bw_128_copied:
  assumes "n < 256" and "s \<le> d" and "(d + n) mod 16 = 0"
  shows "copies d s n st (bw_128 (d + n) (s + n) n st)"
proof (cases "128 \<le> n")
  case True
  have a: "(d + (n - 128)) mod 16 = 0" using assms(3) True by presburger
  have "copies d s (n - 128) st1 (bw_64 (d + (n - 128)) (s + (n - 128)) (n - 128) st1)" for st1
    by (rule bw_64_copied) (use a assms in auto)
  from copies_backwards [OF blocks_copied(2) [OF a] this assms(2)] show ?thesis using True by (simp add: bw_128_def)
qed (use bw_64_copied [of n s d st] assms in \<open>simp add: bw_128_def\<close>)

lemma bw_loop_copied: "s \<le> d \<Longrightarrow> (d + n) mod 16 = 0 \<Longrightarrow> copies d s n st (bw_loop (d + n) (s + n) n st)"
proof (induction n arbitrary: st rule: less_induct)
  case (less n)
  show ?case
  proof (cases "n \<ge> 256")
    case True
    have a: "(d + (n - 256)) mod 16 = 0" using less.prems(2) True by presburger
    have "copies d s (n - 256) st1 (bw_loop (d + (n - 256)) (s + (n - 256)) (n - 256) st1)" for st1
      by (rule less.IH) (use True less.prems a in auto)
    from copies_backwards [OF blocks_copied(1) [OF a] this less.prems(1)] show ?thesis
      using True by (subst bw_loop.simps) simp
  next
    case False
    then show ?thesis using bw_128_copied [of n s d st] less.prems by (subst bw_loop.simps) simp
  qed
qed

lemma bw_loop_fault:
  assumes "n \<le> D" and "D mod 16 \<noteq> 0" and "64 \<le> n \<or> n = 32 \<or> n = 16"
  shows "bw_loop D S n st = None"
proof -
  have a: "(D - k) mod 16 \<noteq> 0" if "k \<le> n" "k mod 16 = 0" for k
    using assms(1,2) that by presburger
  have p: "util_is_pow2 (of_nat 32)" "util_is_pow2 (of_nat 16)" by code_simp+
  show ?thesis
  proof (cases "64 \<le> n")
    case True
    then show ?thesis using a [of 256] a [of 128] a [of 64]
      by (subst bw_loop.simps) (simp add: bw_128_def bw_64_def blocks_fault)
  next
    case False
    then show ?thesis using assms(3) a [of 32] a [of 16] p by (auto simp: small_turn bw_tail_def blocks_fault)
  qed
qed

text \<open>
  Copying backwards, the part up to the next line is taken from behind the source and written
  behind the destination.
\<close>

definition bw_overrun :: "nat \<Rightarrow> nat \<Rightarrow> nat" where
  "bw_overrun e n = (if e mod 64 = 0 then 0 else min (64 - e mod 64) n)"

lemma bw_overrun_le: "bw_overrun e n \<le> n" "bw_overrun e n < 64"
  by (auto simp: bw_overrun_def)

text \<open>The end is moved away from the line, not to it: it is aligned only by chance.\<close>

lemma moved_end:
  assumes "n \<le> e" and "bw_overrun e n < n"
  shows "(e - bw_overrun e n) mod 16 = 0 \<longleftrightarrow> e mod 8 = 0"
proof (cases "e mod 64 = 0")
  case True
  then have "64 dvd e" by (rule mod_0_imp_dvd)
  then have "16 dvd e" "8 dvd e" by (auto elim: dvd_trans [rotated])
  then show ?thesis by (simp add: bw_overrun_def True)
next
  case False
  define q t D where "q = e div 64" and "t = e mod 64" and "D = e - bw_overrun e n"
  have e: "e = 64 * q + t" "t < 64" by (simp_all add: q_def t_def)
  have "bw_overrun e n = 64 - t" using False assms(2) by (simp add: bw_overrun_def t_def split: if_splits)
  then have "D + 64 = 64 * q + 2 * t" using e assms by (simp add: D_def)
  then have "D mod 16 = 0 \<longleftrightarrow> e mod 8 = 0" using e(1) by presburger
  then show ?thesis by (simp add: D_def)
qed

definition bw_faults :: "nat \<Rightarrow> nat \<Rightarrow> bool" where
  "bw_faults e n \<longleftrightarrow> e mod 8 \<noteq> 0 \<and>
     (let r = n - bw_overrun e n in 64 \<le> r \<or> r = 32 \<or> r = 16)"

lemma bw_rest:
  assumes n: "0 < n" and o: "s \<le> d"
  defines "c \<equiv> bw_overrun (d + n) n"
  shows "if bw_faults (d + n) n then bw_loop (d + (n - c)) (s + (n - c)) (n - c) st = None
    else copies d s (n - c) st (bw_loop (d + (n - c)) (s + (n - c)) (n - c) st)"
proof (cases "c < n")
  case False
  then have "n - c = 0" by simp
  then show ?thesis by (simp add: bw_faults_def c_def [symmetric] small_turn bw_tail_def copied_0)
next
  case True
  have al: "(d + (n - c)) mod 16 = 0 \<longleftrightarrow> (d + n) mod 8 = 0"
    using moved_end [of n "d + n"] True by (simp add: c_def)
  show ?thesis
  proof (cases "bw_faults (d + n) n")
    case True
    then show ?thesis using al by (auto simp: bw_faults_def c_def [symmetric] Let_def intro!: bw_loop_fault)
  next
    case nf: False
    show ?thesis
    proof (cases "(d + n) mod 8 = 0")
      case True
      then show ?thesis using nf bw_loop_copied [OF o] al by simp
    next
      case False
      then have "n - c < 64" "n - c \<noteq> 16 \<and> n - c \<noteq> 32" using nf by (auto simp: bw_faults_def c_def [symmetric] Let_def)
      then show ?thesis using nf bw_tail_copied [of "n - c" d s st] by (simp add: small_turn)
    qed
  qed
qed

lemma bw_mem:
  assumes n: "0 < n" and o: "s \<le> d"
  shows "if bw_faults (d + n) n then memmove_movnt_sse_bw d s n st = None
    else \<exists>st'. memmove_movnt_sse_bw d s n st = Some st' \<and> cs_mem st' =
      mem_write (mem_write (cs_mem st) (d + n) (mem_read (cs_mem st) (s + n) (bw_overrun (d + n) n))) d
        (mem_read (cs_mem st) s (n - bw_overrun (d + n) n))"
proof -
  define c where "c = bw_overrun (d + n) n"
  define st1 where "st1 = (if c = 0 then st else memmove_small_sse2 (d + n) (s + n) c st)"
  have c: "c \<le> 64" "c \<le> n" using bw_overrun_le [of "d + n" n] by (simp_all add: c_def)
  have m1: "cs_mem st1 = mem_write (cs_mem st) (d + n) (mem_read (cs_mem st) (s + n) c)"
    using small_copied [of c "d + n" "s + n" st] c(1) by (simp add: st1_def copied_def mem_read_def [of _ _ 0])
  have e: "memmove_movnt_sse_bw d s n st = bw_loop (d + (n - c)) (s + (n - c)) (n - c) st1"
    using c(2) n by (auto simp: memmove_movnt_sse_bw_def Let_def st1_def c_def bw_overrun_def)
  have "mem_read (cs_mem st1) s (n - c) = mem_read (cs_mem st) s (n - c)"
    unfolding m1 by (rule mem_read_write_disjoint) (use o in \<open>auto simp: disjoint_blocks_def\<close>)
  then show ?thesis
    using bw_rest [OF n o, of st1] unfolding e c_def [symmetric]
    by (auto simp: copies_def copied_def m1 split: if_splits)
qed

section \<open>Copying to persistent memory\<close>

lemma direction:
  assumes "d + n \<le> 2 ^ 64" and "s + n \<le> 2 ^ 64" and "0 < n"
  shows "n \<le> unat (of_nat d - of_nat s :: u64) \<longleftrightarrow> d < s \<or> s + n \<le> d"
proof -
  have u: "unat (of_nat d :: u64) = d" "unat (of_nat s :: u64) = s"
    using assms by (simp_all add: unat_of_nat)
  show ?thesis
    using assms unfolding unat_sub_if_size u by (auto simp: word_size)
qed


text \<open>
  C15: copying to persistent memory is a plain copy, although it is done in pieces of many sizes,
  when the blocks do not overlap or the destination lies below the source, and for every length
  but zero: every 16-byte streaming store is aligned, so the copy does not fault.  With a fence
  at the end every byte of the destination has then reached the medium: each is either streamed
  or flushed.
\<close>

lemma nvmem_memcpy_copies:
  assumes "0 < len" and "dest + len \<le> 2 ^ 64" and "src + len \<le> 2 ^ 64"
    and "dest < src \<or> src + len \<le> dest"
  shows "\<exists>st'. nvmem_memcpy sync dest src len st = Some st' \<and>
    cs_mem st' = mem_write (cs_mem st) dest (mem_read (cs_mem st) src len) \<and>
    (sync \<longrightarrow> (\<forall>x. in_block x dest len \<longrightarrow> cs_pst st' x = Durable))"
proof -
  have "nvmem_memcpy sync dest src len st =
      map_option (\<lambda>st'. if sync then sfence st' else st') (memmove_movnt_sse_fw dest src len st)"
    using direction [OF assms(2,3,1)] assms(4) by (simp add: nvmem_memcpy_def)
  moreover obtain st' where "memmove_movnt_sse_fw dest src len st = Some st'" "copied dest src len st st'"
    using fw_copied [OF assms(1), of dest src st] assms(4) by (auto simp: copies_def)
  ultimately show ?thesis by (simp add: copied_def) blast
qed

text \<open>
  C29: copying upwards onto an overlapping block is wrong unless the destination ends at a cache
  line: the code moves its end away from the next line instead of to it. With \<open>c\<close> the number of
  bytes from that end to the next line (at most the length), the copy faults exactly when the
  end is not a multiple of 8 and what is left after \<open>c\<close> bytes is at least 64, or 32, or 16 bytes:
  then a streaming store of 16 bytes is unaligned. In all other cases the \<open>c\<close> bytes behind the
  destination are overwritten with what follows the source, and the last \<open>c\<close> bytes of the
  destination keep their old values.
\<close>

lemma nvmem_memcpy_overruns:
  fixes sync :: bool and st :: copy_state
  assumes "0 < len" and "dest + len \<le> 2 ^ 64" and "src \<le> dest" and "dest < src + len"
    and "c = (if (dest + len) mod 64 = 0 then 0 else min (64 - (dest + len) mod 64) len)"
  shows "if (dest + len) mod 8 \<noteq> 0 \<and> (64 \<le> len - c \<or> len - c = 32 \<or> len - c = 16)
    then nvmem_memcpy sync dest src len st = None
    else \<exists>st'. nvmem_memcpy sync dest src len st = Some st' \<and>
      cs_mem st' = mem_write (mem_write (cs_mem st) (dest + len) (mem_read (cs_mem st) (src + len) c)) dest
        (mem_read (cs_mem st) src (len - c)) \<and>
      mem_read (cs_mem st') (dest + (len - c)) c = mem_read (cs_mem st) (dest + (len - c)) c"
proof -
  have c: "c = bw_overrun (dest + len) len" by (simp add: assms(5) bw_overrun_def)
  have cl: "c \<le> len" unfolding c by (rule bw_overrun_le)
  have f: "bw_faults (dest + len) len \<longleftrightarrow> (dest + len) mod 8 \<noteq> 0 \<and> (64 \<le> len - c \<or> len - c = 32 \<or> len - c = 16)"
    by (simp add: bw_faults_def Let_def c)
  have "\<not> len \<le> unat (of_nat dest - of_nat src :: u64)"
    using direction [of dest len src] assms(1-4) by auto
  then have n: "nvmem_memcpy sync dest src len st =
      map_option (\<lambda>st'. if sync then sfence st' else st') (memmove_movnt_sse_bw dest src len st)"
    by (simp add: nvmem_memcpy_def)
  let ?m = "mem_write (mem_write (cs_mem st) (dest + len) (mem_read (cs_mem st) (src + len) c)) dest
      (mem_read (cs_mem st) src (len - c))"
  have tail: "mem_read ?m (dest + (len - c)) c = mem_read (cs_mem st) (dest + (len - c)) c"
    by (rule mem_read_cong) (use cl in \<open>auto simp: mem_write_def\<close>)
  show ?thesis
  proof (cases "bw_faults (dest + len) len")
    case True
    then show ?thesis using bw_mem [OF assms(1,3), of st] unfolding f [symmetric] by (simp add: n)
  next
    case False
    then obtain st' where "memmove_movnt_sse_bw dest src len st = Some st'" "cs_mem st' = ?m"
      using bw_mem [OF assms(1,3), of st] by (auto simp: c)
    then show ?thesis using False tail unfolding f [symmetric] by (auto simp: n)
  qed
qed

text \<open>
  C38: flushing a range ends, changes no byte, and with the fence everything in the range has
  reached the medium, whatever the alignment of its first byte and whichever of the three
  flush instructions is chosen.
\<close>

lemma persist_data_durable:
  "cs_mem (persist_data True type data len st) = cs_mem st \<and>
   (\<forall>x. in_block x data len \<longrightarrow> cs_pst (persist_data True type data len st) x = Durable)"
proof -
  have "cs_pst (flushopt data len st) x \<noteq> Dirty" if "in_block x data len" for x
    using flushopt_dirty that by blast
  then show ?thesis by (simp add: persist_data_def flushopt_def FLUSH_ALIGN_def asm_flush_defs)
qed

text \<open>A copy of no bytes to an unaligned destination copies one byte.\<close>

lemma zero_length_copies_a_byte:
  assumes "dest mod 64 \<noteq> 0"
  shows "map_option cs_mem (nvmem_memcpy sync dest src 0 st) = Some (mem_write (cs_mem st) dest (mem_read (cs_mem st) src 1))"
  using assms
  by (simp add: nvmem_memcpy_def memmove_movnt_sse_fw_def Let_def memmove_small_sse2_def
      memmove_small_sse2_noflush_def load_def fw_loop_0)

section \<open>Witnesses\<close>

definition byte_state :: copy_state where
  "byte_state = \<lparr> cs_mem = (\<lambda>x. of_nat x), cs_pst = (\<lambda>_. Dirty) \<rparr>"

lemma nvmem_memcpy_copies_witness:
  "\<exists>st'. nvmem_memcpy True 100 5000 700 byte_state = Some st' \<and> cs_mem st' 150 = of_nat 5050 \<and>
     cs_pst st' 799 = Durable"
  using nvmem_memcpy_copies [of 700 100 5000 True byte_state]
  by (auto simp: mem_write_def nth_mem_read byte_state_def in_block_def)

lemma nvmem_memcpy_overruns_witness:
  "nvmem_memcpy True 20 10 200 byte_state = None \<and>
   (\<exists>st'. nvmem_memcpy True 20 10 40 byte_state = Some st' \<and> mem_read (cs_mem st') 56 4 = [56, 57, 58, 59])"
proof
  show "nvmem_memcpy True 20 10 200 byte_state = None"
    using nvmem_memcpy_overruns [of 200 20 10 36 True byte_state] by simp
  obtain st' where st': "nvmem_memcpy True 20 10 40 byte_state = Some st'"
    "mem_read (cs_mem st') 56 4 = mem_read (cs_mem byte_state) 56 4"
    using nvmem_memcpy_overruns [of 40 20 10 4 True byte_state] by auto
  moreover have "mem_read (cs_mem byte_state) 56 4 = [56, 57, 58, 59]"
    by (simp add: mem_read_def byte_state_def upt_rec)
  ultimately show "\<exists>st'. nvmem_memcpy True 20 10 40 byte_state = Some st' \<and> mem_read (cs_mem st') 56 4 = [56, 57, 58, 59]"
    by auto
qed

lemma persist_data_durable_witness: "cs_pst (persist_data True 1 100 200 byte_state) 130 = Durable"
  using persist_data_durable [of 1 100 200 byte_state] by (simp add: in_block_def)

end
