(* ===== verification/Net_Sock.thy ===== *)
theory Net_Sock
  imports Runs
begin

text \<open>
  Making sockets (\<^verbatim>\<open>net_posix.c\<close>, \<^verbatim>\<open>net.c\<close>).  The kernel is outside: the results of its calls are
  arguments, one record for every time a socket is tried.  What the model keeps of the process
  are the descriptors it has open.
\<close>

section \<open>The kernel\<close>

datatype sock_create_type = SOCK_CREATE_LISTEN | SOCK_CREATE_CONNECT

text \<open>
  The results of the calls for one try: \<open>socket\<close>, the three \<open>setsockopt\<close>, \<open>bind\<close> (with whether it
  was interrupted), \<open>listen\<close>, \<open>connect\<close> and the \<open>fcntl\<close> that sets the descriptor non-blocking.
\<close>

record sock_try =
  k_socket :: int
  k_reuseaddr :: int
  k_nodelay :: int
  k_v6only :: int
  k_bind :: int
  k_eintr :: bool
  k_listen :: int
  k_connect :: int
  k_nonblock :: int

text \<open>The open descriptors; closing one that is not open fails and changes nothing.\<close>

type_synonym fds = "int list"

definition close_fd :: "int \<Rightarrow> fds \<Rightarrow> fds" where
  "close_fd fd fds = remove1 fd fds"

section \<open>Listening and connecting\<close>

text \<open>Non-blocking mode: the last step, after which the loop over the addresses ends.\<close>

definition set_nonblock :: "sock_try \<Rightarrow> int \<Rightarrow> fds \<Rightarrow> int \<times> fds" where
  "set_nonblock k fd fds = (if k_nonblock k < 0 then (- 1, close_fd fd fds) else (fd, fds))"

text \<open>
  The loop over the addresses (whether each is of version 6) with the current value of the
  variable \<open>fd\<close>.  When an option cannot be set the descriptor is closed but \<open>fd\<close> keeps it.  An
  interrupted \<open>bind\<close> tries the same address again.
\<close>

fun try_addrs :: "sock_create_type \<Rightarrow> bool list \<Rightarrow> sock_try list \<Rightarrow> int \<Rightarrow> fds \<Rightarrow> (int \<times> fds) run" where
  "try_addrs type [] ks fd fds = Done (fd, fds)"
| "try_addrs type (v6 # rest) [] fd fds = Hangs"
| "try_addrs type (v6 # rest) (k # ks) _ fds =
     (let fd = k_socket k in
      if fd < 0 then try_addrs type rest ks fd fds
      else let fds1 = fd # fds in
        if k_reuseaddr k \<noteq> 0 \<or> k_nodelay k \<noteq> 0 \<or> v6 \<and> k_v6only k \<noteq> 0
        then try_addrs type rest ks fd (close_fd fd fds1)
        else case type of
          SOCK_CREATE_LISTEN \<Rightarrow>
            if k_bind k \<noteq> 0 then
              (if k_eintr k then try_addrs type (v6 # rest) ks fd (close_fd fd fds1)
               else try_addrs type rest ks (- 1) (close_fd fd fds1))
            else if k_listen k \<noteq> 0 then Done (- 1, close_fd fd fds1)
            else Done (set_nonblock k fd fds1)
        | SOCK_CREATE_CONNECT \<Rightarrow>
            if k_connect k \<noteq> 0 then try_addrs type rest ks (- 1) (close_fd fd fds1)
            else Done (set_nonblock k fd fds1))"

text \<open>An address in brackets, cut to the buffer of 1024 bytes.\<close>

definition strip_brackets :: "string \<Rightarrow> string" where
  "strip_brackets ip = (case ip of CHR ''['' # r \<Rightarrow> takeWhile (\<lambda>c. c \<noteq> CHR '']'') (take 1023 r) | _ \<Rightarrow> ip)"

definition SO_RCVBUF_SIZE :: int where "SO_RCVBUF_SIZE = 1 * 1024 * 1024"
definition SO_SNDBUF_SIZE :: int where "SO_SNDBUF_SIZE = 1 * 1024 * 1024"

text \<open>Setting a buffer size: what the kernel is asked for, and the result.\<close>

definition posix_sock_set_recvbuf :: "int \<Rightarrow> int \<Rightarrow> int \<times> int" where
  "posix_sock_set_recvbuf sz rc = (if sz < SO_RCVBUF_SIZE then SO_RCVBUF_SIZE else sz, if rc < 0 then rc else 0)"

definition posix_sock_set_sendbuf :: "int \<Rightarrow> int \<Rightarrow> int \<times> int" where
  "posix_sock_set_sendbuf sz rc = (if sz < SO_SNDBUF_SIZE then SO_SNDBUF_SIZE else sz, if rc < 0 then rc else 0)"

text \<open>A socket is its descriptor; the results of setting the buffer sizes do not matter.\<close>

definition posix_sock_alloc :: "bool \<Rightarrow> int \<Rightarrow> int option" where
  "posix_sock_alloc calloc_ok fd = (if calloc_ok then Some fd else None)"

text \<open>\<open>getaddrinfo\<close> is a parameter: the addresses of a host, or an error.\<close>

definition posix_sock_create ::
    "(string \<Rightarrow> int \<Rightarrow> bool list option) \<Rightarrow> bool \<Rightarrow> string option \<Rightarrow> int \<Rightarrow> sock_create_type \<Rightarrow> sock_try list \<Rightarrow> fds \<Rightarrow>
      (int option \<times> fds) run" where
  "posix_sock_create getaddrinfo calloc_ok ip port type ks fds =
     (case ip of
        None \<Rightarrow> Done (None, fds)
      | Some host \<Rightarrow>
          (case getaddrinfo (strip_brackets host) port of
             None \<Rightarrow> Done (None, fds)
           | Some res0 \<Rightarrow>
               run_bind (try_addrs type res0 ks (- 1) fds) (\<lambda>(fd, fds1).
                 if fd < 0 then Done (None, fds1)
                 else case posix_sock_alloc calloc_ok fd of
                   None \<Rightarrow> Done (None, close_fd fd fds1)
                 | Some sock \<Rightarrow> Done (Some sock, fds1))))"

definition posix_connect ::
    "(string \<Rightarrow> int \<Rightarrow> bool list option) \<Rightarrow> bool \<Rightarrow> string option \<Rightarrow> int \<Rightarrow> sock_try list \<Rightarrow> fds \<Rightarrow> (int option \<times> fds) run" where
  "posix_connect getaddrinfo calloc_ok ip port ks fds =
     posix_sock_create getaddrinfo calloc_ok ip port SOCK_CREATE_CONNECT ks fds"

definition posix_listen ::
    "(string \<Rightarrow> int \<Rightarrow> bool list option) \<Rightarrow> bool \<Rightarrow> string option \<Rightarrow> int \<Rightarrow> sock_try list \<Rightarrow> fds \<Rightarrow> (int option \<times> fds) run" where
  "posix_listen getaddrinfo calloc_ok ip port ks fds =
     posix_sock_create getaddrinfo calloc_ok ip port SOCK_CREATE_LISTEN ks fds"

section \<open>Accepting and closing\<close>

text \<open>\<open>rc\<close> is the result of \<open>accept\<close>, \<open>nonblocking\<close> whether the descriptor is so already.\<close>

definition posix_accept :: "int \<Rightarrow> bool \<Rightarrow> int \<Rightarrow> bool \<Rightarrow> fds \<Rightarrow> int option \<times> fds" where
  "posix_accept rc nonblocking fcntl_rc calloc_ok fds =
     (if rc = - 1 then (None, fds)
      else let fd = rc; fds1 = fd # fds in
        if \<not> nonblocking \<and> fcntl_rc < 0 then (None, close_fd fd fds1)
        else case posix_sock_alloc calloc_ok fd of
          None \<Rightarrow> (None, close_fd fd fds1)
        | Some sock \<Rightarrow> (Some sock, fds1))"

definition posix_close :: "int \<Rightarrow> fds \<Rightarrow> int \<times> fds" where
  "posix_close sock fds = (0, close_fd sock fds)"

section \<open>Addresses\<close>

datatype sa_family = AF_UNIX | AF_INET | AF_INET6 | AF_OTHER

text \<open>
  One end of a connection as the kernel names it: the result of the call, the family, the text
  of the address if it fits, and the port.  \<open>posix_getaddr\<close> gives the address and port of both
  ends as far as it gets: what is not set keeps what the caller had.
\<close>

record sock_name =
  n_rc :: int
  n_family :: sa_family
  n_text :: "string option"
  n_port :: nat

definition get_addr_str :: "sock_name \<Rightarrow> string option" where
  "get_addr_str sa = (if n_family sa = AF_INET \<or> n_family sa = AF_INET6 then n_text sa else None)"

definition posix_getaddr :: "sock_name \<Rightarrow> sock_name \<Rightarrow> int \<times> (string \<times> nat) option \<times> (string \<times> nat) option" where
  "posix_getaddr self peer =
     (if n_rc self \<noteq> 0 then (- 1, None, None)
      else case n_family self of
        AF_UNIX \<Rightarrow> (0, None, None)
      | AF_OTHER \<Rightarrow> (- 1, None, None)
      | _ \<Rightarrow>
        (case get_addr_str self of
           None \<Rightarrow> (- 1, None, None)
         | Some s \<Rightarrow>
             if n_rc peer \<noteq> 0 then (- 1, Some (s, n_port self), None)
             else case get_addr_str peer of
               None \<Rightarrow> (- 1, Some (s, n_port self), None)
             | Some c \<Rightarrow> (0, Some (s, n_port self), Some (c, n_port peer))))"

section \<open>Groups\<close>

text \<open>A group is the descriptor of the kernel's event queue and the sockets registered in it.\<close>

record sock_group =
  g_fd :: int
  g_socks :: "int list"

definition posix_group_create :: "int \<Rightarrow> bool \<Rightarrow> fds \<Rightarrow> sock_group option \<times> fds" where
  "posix_group_create fd calloc_ok fds =
     (if fd = - 1 then (None, fds)
      else if \<not> calloc_ok then (None, close_fd fd (fd # fds))
      else (Some \<lparr> g_fd = fd, g_socks = [] \<rparr>, fd # fds))"

text \<open>Adding a socket twice and removing one that is not there are refused by the kernel.\<close>

definition posix_group_add_sock :: "sock_group \<Rightarrow> int \<Rightarrow> int \<times> sock_group" where
  "posix_group_add_sock g sock =
     (if sock \<in> set (g_socks g) then (- 1, g) else (0, g\<lparr> g_socks := g_socks g @ [sock] \<rparr>))"

definition posix_group_remove_sock :: "sock_group \<Rightarrow> int \<Rightarrow> int \<times> sock_group" where
  "posix_group_remove_sock g sock =
     (if sock \<in> set (g_socks g) then (0, g\<lparr> g_socks := remove1 sock (g_socks g) \<rparr>) else (- 1, g))"

definition posix_group_close :: "int \<Rightarrow> sock_group \<Rightarrow> fds \<Rightarrow> int \<times> fds" where
  "posix_group_close rc g fds = (rc, close_fd (g_fd g) fds)"

text \<open>The table of the implementations.\<close>

datatype net_impl = Posix_net_impl

definition net_get_impl :: "int \<Rightarrow> net_impl option" where
  "net_get_impl type = (if type = 0 then Some Posix_net_impl else None)"

section \<open>Descriptors are neither lost nor dangling\<close>

text \<open>The kernel hands out descriptors that are not open.\<close>

definition fresh_tries :: "sock_try list \<Rightarrow> fds \<Rightarrow> bool" where
  "fresh_tries ks fds \<longleftrightarrow> (\<forall>k \<in> set ks. k_socket k \<notin> set fds)"

definition options_set :: "sock_try \<Rightarrow> bool" where
  "options_set k \<longleftrightarrow> k_reuseaddr k = 0 \<and> k_nodelay k = 0 \<and> k_v6only k = 0"

lemma close_fd_new [simp]: "close_fd fd (fd # fds) = fds"
  by (simp add: close_fd_def)

lemma try_addrs_fds:
  "try_addrs type res ks fd0 fds = Done (fd, fds') \<Longrightarrow>
     fds' = fds \<or> 0 \<le> fd \<and> fds' = fd # fds"
proof (induction type res ks fd0 fds rule: try_addrs.induct)
  case (3 type v6 rest k ks fd0 fds)
  then show ?case
    by (auto simp: Let_def set_nonblock_def split: if_splits sock_create_type.splits)
qed simp_all

lemma try_addrs_open:
  "try_addrs type res ks fd0 fds = Done (fd, fds') \<Longrightarrow> list_all options_set ks \<Longrightarrow> res = [] \<longrightarrow> fd0 < 0 \<Longrightarrow>
     0 \<le> fd \<Longrightarrow> fds' = fd # fds"
proof (induction type res ks fd0 fds rule: try_addrs.induct)
  case (3 type v6 rest k ks fd0 fds)
  have "options_set k" and all: "list_all options_set ks" using "3.prems"(2) by simp_all
  then have opt: "k_reuseaddr k = 0" "k_nodelay k = 0" "k_v6only k = 0" "list_all options_set ks"
    by (simp_all only: options_set_def)
  show ?case
  proof (cases "k_socket k < 0")
    case True
    then show ?thesis using "3.IH"(1) [OF refl] "3.prems"(1,4) opt(4) by simp
  next
    case False
    then show ?thesis using "3.IH"(3-5) "3.prems"(1,4) opt by (cases type) (auto simp: Let_def set_nonblock_def split: if_splits)
  qed
qed simp_all

lemma try_addrs_from:
  "try_addrs type res ks fd0 fds = Done (fd, fds') \<Longrightarrow> 0 \<le> fd \<Longrightarrow> fd = fd0 \<or> fd \<in> k_socket ` set ks"
proof (induction type res ks fd0 fds rule: try_addrs.induct)
  case (3 type v6 rest k ks fd0 fds)
  then show ?case
    by (auto simp: Let_def set_nonblock_def split: if_splits sock_create_type.splits)
qed simp_all

text \<open>With as many tries that are not interrupted as there are addresses the loop ends.\<close>

lemma try_addrs_ends:
  "length res \<le> length (filter (\<lambda>k. \<not> k_eintr k) ks) \<Longrightarrow> \<exists>fd fds'. try_addrs type res ks fd0 fds = Done (fd, fds')"
proof (induction type res ks fd0 fds rule: try_addrs.induct)
  case (3 type v6 rest k ks fd0 fds)
  then show ?case
    by (auto simp: Let_def set_nonblock_def split: if_splits sock_create_type.splits)
qed simp_all

text \<open>
  C33: making a socket, for listening or connecting, comes to an end once the kernel has let one
  try for every address through, and it loses no descriptor: without a result exactly those are
  open that were before.  With a result it is the only new one and it is open, provided the
  socket options could be set on every try.
\<close>

theorem sock_create_descriptors:
  assumes "\<And>host res0. getaddrinfo host port = Some res0 \<Longrightarrow> length res0 \<le> length (filter (\<lambda>k. \<not> k_eintr k) ks)"
    and "fresh_tries ks fds"
  shows "\<exists>r fds'. posix_sock_create getaddrinfo calloc_ok ip port type ks fds = Done (r, fds') \<and>
    (r = None \<longrightarrow> fds' = fds) \<and>
    (\<forall>sock. r = Some sock \<longrightarrow> 0 \<le> sock \<and> (fds' = fds \<or> fds' = sock # fds)) \<and>
    ((\<forall>k \<in> set ks. options_set k) \<longrightarrow> (\<forall>sock. r = Some sock \<longrightarrow> fds' = sock # fds))"
proof (cases "Option.bind ip (\<lambda>host. getaddrinfo (strip_brackets host) port)")
  case None
  then show ?thesis by (cases ip) (auto simp: posix_sock_create_def)
next
  case (Some res0)
  then obtain host where h: "ip = Some host" "getaddrinfo (strip_brackets host) port = Some res0"
    by (cases ip) auto
  obtain fd fds1 where t: "try_addrs type res0 ks (- 1) fds = Done (fd, fds1)"
    using try_addrs_ends [OF assms(1) [OF h(2)]] by blast
  have fresh: "fd \<notin> set fds" if "0 \<le> fd"
    using try_addrs_from [OF t that] that assms(2) by (auto simp: fresh_tries_def)
  then show ?thesis
    using try_addrs_fds [OF t] try_addrs_open [OF t] fresh unfolding list_all_iff
    by (auto simp: posix_sock_create_def h posix_sock_alloc_def close_fd_def remove1_idem t)
qed

text \<open>
  When an option cannot be set on the last address, the result is a socket whose descriptor has
  been closed.
\<close>

lemma sock_create_dangling:
  assumes "getaddrinfo (strip_brackets ip) port = Some [v6]" and "0 \<le> k_socket k" and "k_reuseaddr k \<noteq> 0 \<or> k_nodelay k \<noteq> 0"
  shows "posix_sock_create getaddrinfo True (Some ip) port type [k] fds = Done (Some (k_socket k), fds)"
  using assms by (auto simp: posix_sock_create_def posix_sock_alloc_def Let_def)

section \<open>Instances\<close>

definition good_try :: "int \<Rightarrow> sock_try" where
  "good_try fd = \<lparr> k_socket = fd, k_reuseaddr = 0, k_nodelay = 0, k_v6only = 0, k_bind = 0, k_eintr = False,
     k_listen = 0, k_connect = 0, k_nonblock = 0 \<rparr>"

text \<open>The first address refuses the connection, the second accepts it.\<close>

lemma sock_create_descriptors_witness:
  "\<exists>r fds'. posix_connect (\<lambda>host port. Some [True, False]) True (Some ''localhost'') 18000
      [(good_try 5)\<lparr> k_connect := - 1 \<rparr>, good_try 6] [0, 1] = Done (r, fds') \<and>
    (r = None \<longrightarrow> fds' = [0, 1]) \<and> (\<forall>sock. r = Some sock \<longrightarrow> fds' = sock # [0, 1])"
proof -
  let ?ks = "[(good_try 5)\<lparr> k_connect := - 1 \<rparr>, good_try 6]"
  have "fresh_tries ?ks [0, 1]" "\<forall>k \<in> set ?ks. options_set k"
    by (simp_all add: fresh_tries_def options_set_def good_try_def)
  moreover have "length res0 \<le> length (filter (\<lambda>k. \<not> k_eintr k) ?ks)"
    if "(\<lambda>host port. Some [True, False]) (host :: string) (18000 :: int) = Some res0" for host and res0 :: "bool list"
    using that by (auto simp: good_try_def)
  ultimately show ?thesis
    using sock_create_descriptors [of "\<lambda>host port. Some [True, False]" 18000 ?ks "[0, 1]" True "Some ''localhost''" SOCK_CREATE_CONNECT]
    unfolding posix_connect_def by fast
qed

end
