(* ===== verification/Liboss.thy ===== *)
theory Liboss
  imports Message Bitmap Runs
begin

text \<open>
  The client library (\<^verbatim>\<open>liboss.c\<close>): an I/O channel with a table of operations, a bitmap of free
  descriptors and a list of completions.  The messager behind the channel is outside: what
  it is asked to send is a result, what it delivers an argument.  Pointers to operations are
  descriptors.
\<close>

section \<open>State\<close>

datatype op_state = OP_NEW | OP_WAITING_SUBMIT | OP_IN_PROGRESS | OP_COMPLETED | OP_END

text \<open>The states are numbered in the order of an operation's life.\<close>

fun op_rank :: "op_state \<Rightarrow> nat" where
  "op_rank OP_NEW = 0"
| "op_rank OP_WAITING_SUBMIT = 1"
| "op_rank OP_IN_PROGRESS = 2"
| "op_rank OP_COMPLETED = 3"
| "op_rank OP_END = 4"

lemma op_rank_inj: "op_rank a = op_rank b \<Longrightarrow> a = b"
  by (cases a; cases b) simp_all

instantiation op_state :: linorder
begin

definition less_eq_op_state :: "op_state \<Rightarrow> op_state \<Rightarrow> bool" where
  "less_eq_op_state a b \<longleftrightarrow> op_rank a \<le> op_rank b"

definition less_op_state :: "op_state \<Rightarrow> op_state \<Rightarrow> bool" where
  "less_op_state a b \<longleftrightarrow> op_rank a < op_rank b"

instance
  by standard (auto simp: less_eq_op_state_def less_op_state_def intro: op_rank_inj)

end

record op_ctx =
  op_msg :: message
  op_st :: op_state
  user_data :: nat

definition RING_MAX :: nat where "RING_MAX = 1024"

record io_channel =
  ch_session :: nat
  session_type :: nat
  queue_depth :: nat
  reap_depth :: nat
  ch_seq :: nat
  bitmap_hint :: nat
  op_bitmap :: bitmap_t
  op_ctxs :: "op_ctx list"
  cpl_nr :: nat
  cpl_ops :: "nat list"

definition op_zero :: op_ctx where
  "op_zero = \<lparr> op_msg = message_zero, op_st = OP_NEW, user_data = 0 \<rparr>"

definition io_channel_new :: "nat \<Rightarrow> nat \<Rightarrow> io_channel" where
  "io_channel_new qd rd =
     (let q = (if qd \<noteq> 0 then qd else RING_MAX); r = (if rd \<noteq> 0 then rd else RING_MAX)
      in \<lparr> ch_session = 0, session_type = 0, queue_depth = q, reap_depth = r, ch_seq = 0, bitmap_hint = 0,
           op_bitmap = bitmap_constructor q True, op_ctxs = replicate q op_zero, cpl_nr = 0,
           cpl_ops = replicate r 0 \<rparr>)"

text \<open>A channel to a server: the session is what connecting returned.\<close>

definition get_io_channel :: "nat \<Rightarrow> nat \<Rightarrow> nat option \<Rightarrow> io_channel option" where
  "get_io_channel stype max_qd session =
     map_option (\<lambda>s. (io_channel_new max_qd max_qd)\<lparr> session_type := stype, ch_session := s \<rparr>) session"

definition get_op :: "io_channel \<Rightarrow> nat \<Rightarrow> op_ctx run" where
  "get_op ch i = (if i < length (op_ctxs ch) then Done (op_ctxs ch ! i) else Wild)"

definition set_op :: "nat \<Rightarrow> op_ctx \<Rightarrow> io_channel \<Rightarrow> io_channel" where
  "set_op i op ch = ch\<lparr> op_ctxs := (op_ctxs ch)[i := op] \<rparr>"

definition op_id_of :: "op_ctx \<Rightarrow> nat" where
  "op_id_of op = fst (h_rsv (m_header (op_msg op)))"

section \<open>Descriptors\<close>

definition alloc_op :: "io_channel \<Rightarrow> nat option \<times> io_channel" where
  "alloc_op ch =
     (case bitmap_find_next_set_and_clr (op_bitmap ch) (bitmap_hint ch) of
        (None, b) \<Rightarrow> (None, ch\<lparr> op_bitmap := b \<rparr>)
      | (Some i, b) \<Rightarrow> (Some i, ch\<lparr> op_bitmap := b, bitmap_hint := i + 1 \<rparr>))"

definition release_id :: "nat \<Rightarrow> io_channel \<Rightarrow> io_channel" where
  "release_id i ch = ch\<lparr> op_bitmap := bitmap_set_bit (op_bitmap ch) i,
     bitmap_hint := if i < bitmap_hint ch then i else bitmap_hint ch \<rparr>"

definition free_op :: "nat \<Rightarrow> io_channel \<Rightarrow> io_channel run" where
  "free_op i ch =
     run_bind (get_op ch i) (\<lambda>op.
       if op_st op \<noteq> OP_END then Assert_fails
       else if bitmap_get_bit (op_bitmap ch) (op_id_of op) then Assert_fails
       else Done (set_op i (op\<lparr> op_st := OP_NEW \<rparr>) (release_id (op_id_of op) ch)))"

section \<open>Preparing operations\<close>

definition io_prepare_op_common ::
    "io_channel \<Rightarrow> nat \<Rightarrow> nat \<Rightarrow> u8 list option \<Rightarrow> nat \<Rightarrow> u8 list option \<Rightarrow> (int \<times> io_channel) run" where
  "io_prepare_op_common ch op_type meta_size meta data_len data =
     (case alloc_op ch of
        (None, ch1) \<Rightarrow> Done (- ENOMEM, ch1)
      | (Some i, ch1) \<Rightarrow>
          if 255 < meta_size then run_bind (free_op i ch1) (\<lambda>ch2. Done (- EINVAL, ch2))
          else if session_type ch1 \<noteq> LOCAL \<and> session_type ch1 \<noteq> REMOTE then Done (- EINVAL, ch1)
          else run_bind (get_op ch1 i) (\<lambda>op.
            let h = \<lparr> h_seq = ch_seq ch1, h_type = op_type mod 256, h_status = 0, h_magic = session_type ch1,
                      h_meta_length = meta_size, h_data_length = data_len, h_slo = 0, h_rsv = (i, 0) \<rparr>;
                m = message_state_reset ((op_msg op)\<lparr> m_header := h, data_buffer := data, meta_buffer := meta,
                      priv_ctx := ch_session ch1 \<rparr>)
            in Done (int i, set_op i (op\<lparr> op_msg := m, op_st := OP_WAITING_SUBMIT \<rparr>)
                 (ch1\<lparr> ch_seq := (ch_seq ch1 + 1) mod 2 ^ 64 \<rparr>))))"

definition io_stat :: "io_channel \<Rightarrow> (int \<times> io_channel) run" where
  "io_stat ch = io_prepare_op_common ch msg_oss_op_stat 0 None 0 None"

definition io_create :: "io_channel \<Rightarrow> nat \<Rightarrow> (int \<times> io_channel) run" where
  "io_create ch oid = io_prepare_op_common ch msg_oss_op_create 8 (Some (le_bytes 8 oid)) 0 None"

definition io_delete :: "io_channel \<Rightarrow> nat \<Rightarrow> (int \<times> io_channel) run" where
  "io_delete ch oid = io_prepare_op_common ch msg_oss_op_delete 8 (Some (le_bytes 8 oid)) 0 None"

text \<open>
  The offset of \<open>io_read\<close> and \<open>io_write\<close> is cut to 32 bits; the zero-copy address of \<open>io_read\<close>
  is whatever the fresh buffer held (\<open>garbage\<close>).
\<close>

definition io_read :: "u8 list \<Rightarrow> io_channel \<Rightarrow> nat \<Rightarrow> nat \<Rightarrow> nat \<Rightarrow> (int \<times> io_channel) run" where
  "io_read garbage ch oid ofst len =
     io_prepare_op_common ch msg_oss_op_read 40
       (Some (op_rw_encode \<lparr> rw_oid = oid, rw_ofst = ofst mod 2 ^ 32, rw_len = len, rw_flags = 0 \<rparr> @ take 8 garbage))
       0 None"

definition io_read2 :: "io_channel \<Rightarrow> nat \<Rightarrow> nat \<Rightarrow> nat \<Rightarrow> nat \<Rightarrow> (int \<times> io_channel) run" where
  "io_read2 ch buf oid ofst len =
     io_prepare_op_common ch msg_oss_op_read 40
       (Some (op_rw_encode \<lparr> rw_oid = oid, rw_ofst = ofst, rw_len = len, rw_flags = 0 \<rparr> @ le_bytes 8 buf)) 0 None"

definition io_write :: "io_channel \<Rightarrow> nat \<Rightarrow> u8 list \<Rightarrow> nat \<Rightarrow> nat \<Rightarrow> (int \<times> io_channel) run" where
  "io_write ch oid buffer ofst len =
     io_prepare_op_common ch msg_oss_op_write 32
       (Some (op_rw_encode \<lparr> rw_oid = oid, rw_ofst = ofst mod 2 ^ 32, rw_len = len, rw_flags = 0 \<rparr>)) len (Some buffer)"

section \<open>Submitting\<close>

text \<open>
  The check of one descriptor.  The comparison is with \<open>\<le>\<close>, so the descriptor \<open>queue_depth\<close> is
  looked up, one behind the table.
\<close>

definition check_opd :: "io_channel \<Rightarrow> int \<Rightarrow> bool run" where
  "check_opd ch opd =
     (if 0 \<le> opd \<and> opd \<le> int (queue_depth ch)
      then run_bind (get_op ch (nat opd)) (\<lambda>op. Done (op_st op = OP_WAITING_SUBMIT))
      else Done False)"

fun check_ops :: "io_channel \<Rightarrow> int list \<Rightarrow> bool run" where
  "check_ops ch [] = Done True"
| "check_ops ch (opd # ops) =
     run_bind (check_opd ch opd) (\<lambda>ok. if ok then check_ops ch ops else Done False)"

text \<open>Flushing until all are sent: \<open>rcs\<close> are the results of the messager's flush.\<close>

fun flush_wait :: "nat \<Rightarrow> int \<Rightarrow> int list \<Rightarrow> unit run" where
  "flush_wait op_nr nr_m [] = Hangs"
| "flush_wait op_nr nr_m (rc # rcs) =
     (if rc < 0 then Assert_fails
      else if nr_m + rc < int op_nr then flush_wait op_nr (nr_m + rc) rcs
      else Done ())"

definition mark_in_progress :: "io_channel \<Rightarrow> int \<Rightarrow> io_channel" where
  "mark_in_progress ch opd = ch\<lparr> op_ctxs := (op_ctxs ch)[nat opd := (op_ctxs ch ! nat opd)\<lparr> op_st := OP_IN_PROGRESS \<rparr>] \<rparr>"

definition io_submit_to_channel :: "io_channel \<Rightarrow> int list \<Rightarrow> int list \<Rightarrow> (int \<times> io_channel \<times> message list) run" where
  "io_submit_to_channel ch ops rcs =
     run_bind (check_ops ch ops) (\<lambda>ok.
       if \<not> ok then Done (- EINVAL, ch, [])
       else let sent = map (\<lambda>opd. op_msg (op_ctxs ch ! nat opd)) ops;
                ch1 = foldl mark_in_progress ch ops
            in if session_type ch = REMOTE
               then run_bind (flush_wait (length ops) 0 rcs) (\<lambda>_. Done (0, ch1, sent))
               else Done (0, ch1, sent))"

section \<open>Completions\<close>

text \<open>The callback of the messager for a response.\<close>

definition on_recv_msg :: "message \<Rightarrow> io_channel \<Rightarrow> io_channel run" where
  "on_recv_msg m ch =
     (if meta_buffer m \<noteq> None then Assert_fails
      else let i = fst (h_rsv (m_header m)) in
        run_bind (get_op ch i) (\<lambda>op.
          if h_seq (m_header (op_msg op)) \<noteq> h_seq (m_header m) then Assert_fails
          else if h_type (m_header (op_msg op)) \<noteq> h_type (m_header m) then Assert_fails
          else if length (cpl_ops ch) \<le> cpl_nr ch then Wild
          else Done ((set_op i (op\<lparr> op_st := OP_COMPLETED, op_msg := m \<rparr>) ch)\<lparr>
                 cpl_ops := (cpl_ops ch)[cpl_nr ch := i], cpl_nr := cpl_nr ch + 1 \<rparr>)))"

fun on_recv_msgs :: "message list \<Rightarrow> io_channel \<Rightarrow> io_channel run" where
  "on_recv_msgs [] ch = Done ch"
| "on_recv_msgs (m # ms) ch = run_bind (on_recv_msg m ch) (on_recv_msgs ms)"

text \<open>
  Waiting for responses: \<open>waits\<close> are the messages each call of the messager delivers, \<open>rc\<close> the
  result of the last call, \<open>n\<close> the sum.
\<close>

fun poll_wait :: "int \<Rightarrow> int \<Rightarrow> int \<Rightarrow> bool \<Rightarrow> message list list \<Rightarrow> io_channel \<Rightarrow> io_channel run" where
  "poll_wait mn n rc retry waits ch =
     (if mn \<noteq> 0 \<and> n < mn \<or> rc = 0 \<and> retry then
        (case waits of
           [] \<Rightarrow> Hangs
         | ms # rest \<Rightarrow>
             run_bind (on_recv_msgs ms ch) (\<lambda>ch1.
               poll_wait mn (n + int (length ms)) (int (length ms)) (if mn \<noteq> 0 \<and> n < mn then retry else False) rest ch1))
      else Done ch)"

declare poll_wait.simps [simp del]

text \<open>
  The completions reported are the first ones of the list, whose length is then reduced; the
  rest is not moved to the front.  \<open>max\<close> is compared as an unsigned number.
\<close>

definition io_poll_channel :: "io_channel \<Rightarrow> int \<Rightarrow> int \<Rightarrow> message list list \<Rightarrow> (int \<times> nat list \<times> io_channel) run" where
  "io_poll_channel ch mn mx waits =
     (if mx < mn then Done (- EINVAL, [], ch)
      else run_bind (if cpl_nr ch = 0 then poll_wait mn 0 0 True waits ch else Done ch) (\<lambda>ch1.
        let nr_reap = (if mx mod 2 ^ 32 < int (reap_depth ch) then nat mx else reap_depth ch);
            k = min (cpl_nr ch1) nr_reap
        in Done (int k, map (\<lambda>i. op_id_of (op_ctxs ch1 ! (cpl_ops ch1 ! i))) [0..<k], ch1\<lparr> cpl_nr := cpl_nr ch1 - k \<rparr>)))"

section \<open>Results\<close>

definition op_set_userdata :: "io_channel \<Rightarrow> nat \<Rightarrow> nat \<Rightarrow> io_channel run" where
  "op_set_userdata ch i d = run_bind (get_op ch i) (\<lambda>op. Done (set_op i (op\<lparr> user_data := d \<rparr>) ch))"

definition op_get_userdata :: "io_channel \<Rightarrow> nat \<Rightarrow> nat run" where
  "op_get_userdata ch i = run_bind (get_op ch i) (\<lambda>op. Done (user_data op))"

text \<open>The result: status, operation, data and its length.\<close>

definition op_claim_result :: "io_channel \<Rightarrow> int \<Rightarrow> (nat \<times> nat \<times> u8 list option \<times> nat) option \<times> io_channel" where
  "op_claim_result ch op_id =
     (if 0 \<le> op_id \<and> op_id < int (queue_depth ch) \<and> op_st (op_ctxs ch ! nat op_id) = OP_COMPLETED
      then let op = op_ctxs ch ! nat op_id; m = op_msg op
           in (Some (message_get_status m, message_get_op m, data_buffer m, message_get_data_len m),
               set_op (nat op_id) (op\<lparr> op_st := OP_END \<rparr>) ch)
      else (None, ch))"

definition op_destory :: "io_channel \<Rightarrow> int \<Rightarrow> (int \<times> io_channel) run" where
  "op_destory ch op_id =
     (if 0 \<le> op_id \<and> op_id < int (queue_depth ch) then
        run_bind (get_op ch (nat op_id)) (\<lambda>op.
          case op_st op of
            OP_END \<Rightarrow> run_bind (free_op (nat op_id) ch) (\<lambda>ch1. Done (0, ch1))
          | OP_IN_PROGRESS \<Rightarrow> Done (- EINPROGRESS, ch)
          | OP_WAITING_SUBMIT \<Rightarrow> run_bind (free_op (nat op_id) ch) (\<lambda>ch1. Done (0, ch1))
          | OP_COMPLETED \<Rightarrow>
              if meta_buffer (op_msg op) \<noteq> None then Assert_fails
              else run_bind (free_op (nat op_id) ch) (\<lambda>ch1. Done (0, ch1))
          | OP_NEW \<Rightarrow> Assert_fails)
      else Done (- EINVAL, ch))"

end
