(* ===== verification/Bdev_Zcell.thy ===== *)
theory Bdev_Zcell
  imports Liboss
begin

text \<open>
  The block device on top of the client library (\<^verbatim>\<open>spdk_bdev/bdev_zcell.c\<close>): virtual disks, a
  group of channels for every thread, requests and their completion.  SPDK is outside: what it
  passes in are arguments, the requests it is told are finished are results.  The members of
  \<open>spdk_bdev\<close> and \<open>spdk_bdev_io\<close> are those the code uses; a request is named by a number, its
  address.
\<close>

section \<open>State\<close>

datatype bdev_io_type = SPDK_READ | SPDK_WRITE | SPDK_FLUSH | SPDK_RESET | SPDK_OTHER

datatype bdev_io_status = SPDK_SUCCESS | SPDK_FAILED

definition STRIPE_UNIT :: u64 where "STRIPE_UNIT = 4 * 2 ^ 20"
definition STRIPE_UNIT_SHIFT :: nat where "STRIPE_UNIT_SHIFT = 22"
definition MAX_EVENTS_PER_POLL :: int where "MAX_EVENTS_PER_POLL = 1024"

record zcell_disk =
  disk_name :: string
  stripe_oid_start :: u64
  blocklen :: u32
  blockcnt :: u64
  split_on_optimal_io_boundary :: bool
  optimal_io_boundary :: u32

record bdev_module =
  oid_max :: u64
  g_zcell_disk_head :: "zcell_disk list"

text \<open>A buffer: its address (0 is \<^verbatim>\<open>NULL\<close>) and what it holds.\<close>

record iovec =
  iov_base :: nat
  iov_bytes :: "u8 list"

record bdev_io =
  bio_id :: nat
  bio_type :: bdev_io_type
  bio_disk :: zcell_disk
  num_blocks :: u64
  offset_blocks :: u64
  iovs :: "iovec list"

record zcell_channel_group =
  refcount :: nat
  completion_poller :: bool
  zcell_nr :: nat
  zioch_list :: "io_channel list"

section \<open>Disks\<close>

text \<open>Every disk gets a range of objects of its own.\<close>

definition GetOidStart :: "u64 \<Rightarrow> u64 \<Rightarrow> bdev_module \<Rightarrow> u64 \<times> bdev_module" where
  "GetOidStart GiB stripes st =
     (let objs = push_bit (30 - STRIPE_UNIT_SHIFT) GiB div stripes
      in (oid_max st, st\<lparr> oid_max := oid_max st + objs \<rparr>))"

text \<open>The result of registering the disk is not looked at.\<close>

definition create_zcell_disk :: "bool \<Rightarrow> string \<Rightarrow> u32 \<Rightarrow> bdev_module \<Rightarrow> int \<times> bdev_module" where
  "create_zcell_disk calloc_ok name size_GiB st =
     (if \<not> calloc_ok then (- ENOMEM, st)
      else let (oid, st1) = GetOidStart (ucast size_GiB) 1 st;
               zdisk = \<lparr> disk_name = name, stripe_oid_start = oid, blocklen = 0x1000,
                 blockcnt = push_bit 18 (ucast size_GiB), split_on_optimal_io_boundary = True,
                 optimal_io_boundary = ucast (drop_bit 12 STRIPE_UNIT) \<rparr>
           in (0, st1\<lparr> g_zcell_disk_head := g_zcell_disk_head st1 @ [zdisk] \<rparr>))"

definition bdev_zcell_destruct :: "zcell_disk \<Rightarrow> bdev_module \<Rightarrow> bdev_module" where
  "bdev_zcell_destruct disk st = st\<lparr> g_zcell_disk_head := remove1 disk (g_zcell_disk_head st) \<rparr>"

text \<open>
  Deleting: what the callback is told.  \<open>bdev\<close> is the disk, \<open>mine\<close> whether it belongs to this
  module; unregistering answers with a code and, when that is 0, has destructed the disk.
\<close>

definition delete_zcell_disk ::
    "zcell_disk option \<Rightarrow> bool \<Rightarrow> bool \<Rightarrow> int \<Rightarrow> bdev_module \<Rightarrow> int list \<times> bdev_module" where
  "delete_zcell_disk bdev mine calloc_ok bdeverrno st =
     (case bdev of
        None \<Rightarrow> ([- ENODEV], st)
      | Some disk \<Rightarrow>
          if \<not> mine then ([- ENODEV], st)
          else if \<not> calloc_ok then ([- ENOMEM], st)
          else ([bdeverrno], if bdeverrno = 0 then bdev_zcell_destruct disk st else st))"

definition bdev_zcell_io_type_supported :: "bdev_io_type \<Rightarrow> bool" where
  "bdev_zcell_io_type_supported t = (case t of SPDK_OTHER \<Rightarrow> False | _ \<Rightarrow> True)"

definition bdev_zcell_initialize :: bdev_module where
  "bdev_zcell_initialize = \<lparr> oid_max = 0, g_zcell_disk_head = [] \<rparr>"

section \<open>Submitting requests\<close>

text \<open>Where in the store a request goes: stripe, object, offset in the object, length.\<close>

definition zcell_place :: "bdev_io \<Rightarrow> u64 \<times> u64 \<times> u64 \<times> u64" where
  "zcell_place bio =
     (let len = ucast (num_blocks bio * ucast (blocklen (bio_disk bio))) :: u32;
          offset = offset_blocks bio * ucast (blocklen (bio_disk bio))
      in (drop_bit STRIPE_UNIT_SHIFT offset mod 1, offset div STRIPE_UNIT, offset mod STRIPE_UNIT, ucast len))"

text \<open>
  The results are the group, the messages sent, and the requests completed at once.  A request
  without a buffer is dropped; a table without free descriptors fails the assertion.
\<close>

definition bdev_zcell_get_buf_cb ::
    "zcell_channel_group \<Rightarrow> bdev_io \<Rightarrow> bool \<Rightarrow> (zcell_channel_group \<times> message list \<times> (nat \<times> bdev_io_status) list) run" where
  "bdev_zcell_get_buf_cb zgrp bio success =
     (if \<not> success then Done (zgrp, [], [(bio_id bio, SPDK_FAILED)])
      else let (stripe_id, obj_id, obj_offset, obj_len) = zcell_place bio; k = unat stripe_id
        in if 1 < length (iovs bio) then Assert_fails
           else case iovs bio of
             [] \<Rightarrow> Wild
           | iov # _ \<Rightarrow>
               if iov_base iov = 0 then Done (zgrp, [], [])
               else if length (zioch_list zgrp) \<le> k then Wild
               else run_bind
                 (if bio_type bio = SPDK_READ
                  then io_read2 (zioch_list zgrp ! k) (iov_base iov) (unat obj_id) (unat obj_offset) (unat obj_len)
                  else io_write (zioch_list zgrp ! k) (unat obj_id) (iov_bytes iov) (unat obj_offset) (unat obj_len))
                 (\<lambda>(zcell_op_id, ch1).
                   if zcell_op_id < 0 then Assert_fails
                   else run_bind (op_set_userdata ch1 (nat zcell_op_id) (bio_id bio)) (\<lambda>ch2.
                     run_bind (io_submit_to_channel ch2 [zcell_op_id] []) (\<lambda>(rc, ch3, sent).
                       if rc \<noteq> 0 then Assert_fails
                       else Done (zgrp\<lparr> zioch_list := (zioch_list zgrp)[k := ch3] \<rparr>, sent, [])))))"

text \<open>
  \<open>spdk_bdev_io_get_buf\<close> is a parameter: the buffers the request has then, in any number, and
  whether that succeeded; or nothing when the callback is called later.
\<close>

definition bdev_zcell_submit_request ::
    "(bdev_io \<Rightarrow> (iovec list \<times> bool) option) \<Rightarrow> zcell_channel_group \<Rightarrow> bdev_io \<Rightarrow>
      (zcell_channel_group \<times> message list \<times> (nat \<times> bdev_io_status) list) run" where
  "bdev_zcell_submit_request get_buf zgrp bio =
     (case bio_type bio of
        SPDK_READ \<Rightarrow> (case get_buf bio of None \<Rightarrow> Done (zgrp, [], []) | Some (v, ok) \<Rightarrow> bdev_zcell_get_buf_cb zgrp (bio\<lparr> iovs := v \<rparr>) ok)
      | SPDK_WRITE \<Rightarrow> (case get_buf bio of None \<Rightarrow> Done (zgrp, [], []) | Some (v, ok) \<Rightarrow> bdev_zcell_get_buf_cb zgrp (bio\<lparr> iovs := v \<rparr>) ok)
      | SPDK_FLUSH \<Rightarrow> Done (zgrp, [], [(bio_id bio, SPDK_SUCCESS)])
      | SPDK_RESET \<Rightarrow> Done (zgrp, [], [(bio_id bio, SPDK_SUCCESS)])
      | SPDK_OTHER \<Rightarrow> Done (zgrp, [], [(bio_id bio, SPDK_FAILED)]))"

section \<open>Completing requests\<close>

fun complete_ops :: "nat list \<Rightarrow> io_channel \<Rightarrow> ((nat \<times> bdev_io_status) list \<times> io_channel) run" where
  "complete_ops [] ch = Done ([], ch)"
| "complete_ops (cpl # cpls) ch =
     run_bind (op_get_userdata ch cpl) (\<lambda>bio.
       case op_claim_result ch (int cpl) of
         (None, ch1) \<Rightarrow> Assert_fails
       | (Some (errcode, _), ch1) \<Rightarrow>
           run_bind (op_destory ch1 (int cpl)) (\<lambda>(_, ch2).
             run_bind (complete_ops cpls ch2) (\<lambda>(out, ch3).
               Done ((bio, if errcode \<noteq> 0 then SPDK_FAILED else SPDK_SUCCESS) # out, ch3))))"

definition poll_one_channel :: "message list list \<Rightarrow> io_channel \<Rightarrow> ((nat \<times> bdev_io_status) list \<times> io_channel) run" where
  "poll_one_channel waits ch =
     run_bind (io_poll_channel ch 0 MAX_EVENTS_PER_POLL waits) (\<lambda>(n, cpls, ch1).
       if n < 0 then Assert_fails else complete_ops cpls ch1)"

text \<open>The messages each channel receives are arguments; the results are the completions, in order.\<close>

fun poll_channels :: "message list list list \<Rightarrow> io_channel list \<Rightarrow> ((nat \<times> bdev_io_status) list \<times> io_channel list) run" where
  "poll_channels wss [] = Done ([], [])"
| "poll_channels wss (ch # chs) =
     run_bind (poll_one_channel (case wss of [] \<Rightarrow> [] | ws # _ \<Rightarrow> ws) ch) (\<lambda>(out, ch1).
       run_bind (poll_channels (tl wss) chs) (\<lambda>(out', chs'). Done (out @ out', ch1 # chs')))"

definition bdev_zcell_group_poll ::
    "message list list list \<Rightarrow> zcell_channel_group \<Rightarrow> (int \<times> (nat \<times> bdev_io_status) list \<times> zcell_channel_group) run" where
  "bdev_zcell_group_poll wss grp =
     run_bind (poll_channels wss (take (zcell_nr grp) (zioch_list grp))) (\<lambda>(out, chs).
       Done (int (length out), out, grp\<lparr> zioch_list := chs @ drop (zcell_nr grp) (zioch_list grp) \<rparr>))"

section \<open>The group of a thread\<close>

text \<open>
  The first user of a thread connects: the result of initialising the library, the session
  and whether a poller could be registered are arguments.  What was set up stays when a later
  step fails.
\<close>

definition bdev_zcell_group_create_cb ::
    "int \<Rightarrow> nat option \<Rightarrow> bool \<Rightarrow> zcell_channel_group \<Rightarrow> int \<times> zcell_channel_group" where
  "bdev_zcell_group_create_cb tls_rc session poller_ok grp =
     (if refcount grp = 0 then
        if tls_rc \<noteq> 0 then (tls_rc, grp)
        else case get_io_channel LOCAL 512 session of
          None \<Rightarrow> (- 1, grp\<lparr> zcell_nr := 1, zioch_list := [] \<rparr>)
        | Some ch \<Rightarrow>
            let grp1 = grp\<lparr> zcell_nr := 1, zioch_list := [ch] \<rparr>
            in if \<not> poller_ok then (- 1, grp1)
               else (0, grp1\<lparr> completion_poller := True, refcount := refcount grp + 1 \<rparr>)
      else (0, grp\<lparr> refcount := refcount grp + 1 \<rparr>))"

text \<open>The last user closes the channels: the sessions closed, and whether the library is shut down.\<close>

definition bdev_zcell_group_destroy_cb :: "zcell_channel_group \<Rightarrow> nat list \<times> bool \<times> zcell_channel_group" where
  "bdev_zcell_group_destroy_cb grp =
     (if refcount grp = 0 then ([], False, grp)
      else let grp1 = grp\<lparr> refcount := refcount grp - 1 \<rparr>
        in if refcount grp1 = 0
           then (map ch_session (take (zcell_nr grp) (zioch_list grp)), True, grp1\<lparr> completion_poller := False \<rparr>)
           else ([], False, grp1))"

end
