(* ===== verification/Stores_Correct.thy ===== *)
theory Stores_Correct
  imports Stores "HOL-Library.Multiset"
begin

text \<open>
  The contract between the server and a store, and that the two simple stores keep it; where
  the objects of the chunk store lie on the device.
\<close>

section \<open>The contract of a store\<close>

text \<open>What the server makes sure of before it calls a store.\<close>

definition req_ok :: "message \<Rightarrow> bool" where
  "req_ok m \<longleftrightarrow>
     (message_get_op m = msg_oss_op_stat \<and> (\<exists>buf. data_buffer m = Some buf \<and> 20 \<le> length buf)) \<or>
     message_get_op m = msg_oss_op_create \<or> message_get_op m = msg_oss_op_delete \<or>
     ((message_get_op m = msg_oss_op_write \<or> message_get_op m = msg_oss_op_read) \<and>
        (\<exists>meta. meta_buffer m = Some meta \<and> 24 \<le> length meta) \<and> data_buffer m \<noteq> None)"

text \<open>What happens at the interface of a store.\<close>

datatype os_event = Os_call dev_answers nat message | Os_complete completion

text \<open>
  A call answers 0 and the request is outstanding, or an error and it is not; each request
  outstanding completes at most once, and nothing else does.
\<close>

locale object_store =
  fixes os_inv :: "'s \<Rightarrow> bool"
    and os_pending :: "'s \<Rightarrow> nat multiset"
    and os_op :: "dev_answers \<Rightarrow> nat \<Rightarrow> message \<Rightarrow> 's \<Rightarrow> (int \<times> message \<times> 's) run"
    and os_complete :: "completion \<Rightarrow> 's \<Rightarrow> ((nat \<times> int \<times> u8 list option) \<times> 's) option"
  assumes call_law: "os_inv s \<Longrightarrow> req_ok m \<Longrightarrow>
      \<exists>rc m' s'. os_op dev rid m s = Done (rc, m', s') \<and> os_inv s' \<and>
        os_pending s' = (if rc = OSTORE_SUBMIT_OK then add_mset rid (os_pending s) else os_pending s) \<and>
        m_header m' = m_header m \<and> meta_buffer m' = meta_buffer m \<and>
        (data_buffer m' = None \<longleftrightarrow> data_buffer m = None) \<and> 0 \<le> rc \<and> rc < 256"
    and complete_law: "os_inv s \<Longrightarrow> os_complete c s = Some ((rid, st, filled), s') \<Longrightarrow>
      os_inv s' \<and> os_pending s = add_mset rid (os_pending s') \<and> 0 \<le> st \<and> st < 256"
begin

text \<open>Calls and completions in any order: what completes was called before.\<close>

fun os_run where
  "os_run [] s = ({#}, {#}, s)"
| "os_run (Os_call dev rid m # es) s =
     (case os_op dev rid m s of
        Done (rc, m', s') \<Rightarrow>
          (let (acc, cpl, s'') = os_run es s'
           in (if rc = OSTORE_SUBMIT_OK then add_mset rid acc else acc, cpl, s''))
      | _ \<Rightarrow> ({#}, {#}, s))"
| "os_run (Os_complete c # es) s =
     (case os_complete c s of
        None \<Rightarrow> os_run es s
      | Some ((rid, st, filled), s') \<Rightarrow> (let (acc, cpl, s'') = os_run es s' in (acc, add_mset rid cpl, s'')))"

lemma os_run_balance:
  assumes "os_inv s" and "\<forall>e \<in> set es. case e of Os_call dev rid m \<Rightarrow> req_ok m | _ \<Rightarrow> True"
    and "os_run es s = (acc, cpl, s')"
  shows "os_inv s' \<and> os_pending s + acc = os_pending s' + cpl"
  using assms
proof (induction es arbitrary: s acc cpl)
  case (Cons e es)
  show ?case
  proof (cases e)
    case (Os_call dev rid m)
    obtain rc m' s1 where c: "os_op dev rid m s = Done (rc, m', s1)" "os_inv s1"
      "os_pending s1 = (if rc = OSTORE_SUBMIT_OK then add_mset rid (os_pending s) else os_pending s)"
      using call_law [OF Cons.prems(1), of m dev rid] Cons.prems(2) Os_call by auto
    obtain a where r: "os_run es s1 = (a, cpl, s')" "acc = (if rc = OSTORE_SUBMIT_OK then add_mset rid a else a)"
      using Cons.prems(3) Os_call c(1) by (auto split: prod.splits)
    show ?thesis using Cons.IH [OF c(2) _ r(1)] Cons.prems(2) c(3) r(2) by auto
  next
    case (Os_complete c)
    show ?thesis
    proof (cases "os_complete c s")
      case None
      then show ?thesis using Cons Os_complete by simp
    next
      case (Some x)
      obtain rid st filled s1 where x: "os_complete c s = Some ((rid, st, filled), s1)" using Some by (cases x) auto
      obtain k where r: "os_run es s1 = (acc, k, s')" "cpl = add_mset rid k"
        using Cons.prems(3) Os_complete x by (auto split: prod.splits)
      show ?thesis using Cons.IH [OF _ _ r(1)] complete_law [OF Cons.prems(1) x] Cons.prems(2) r(2) by auto
    qed
  qed
qed simp

end

interpretation nulls: object_store "\<lambda>s. True" mset nullstore_obj_async_op_call nullstore_complete
proof unfold_locales
  show "\<exists>rc m' s'. nullstore_obj_async_op_call dev rid m s = Done (rc, m', s') \<and> True \<and>
      mset s' = (if rc = OSTORE_SUBMIT_OK then add_mset rid (mset s) else mset s) \<and> m_header m' = m_header m \<and>
      meta_buffer m' = meta_buffer m \<and> (data_buffer m' = None \<longleftrightarrow> data_buffer m = None) \<and> 0 \<le> rc \<and> rc < 256"
    if "req_ok m" for s m dev rid
    using that by (auto simp: nullstore_obj_async_op_call_def req_ok_def null_do_op_def fake_async_cb_def OSTORE_SUBMIT_OK_def)
  show "True \<and> mset s = add_mset rid (mset s') \<and> 0 \<le> st \<and> st < 256"
    if "nullstore_complete c s = Some ((rid, st, filled), s')" for s c rid st filled s'
    using that by (auto simp: nullstore_complete_def OSTORE_EXECUTE_OK_def split: completion.splits list.splits)
qed

definition chunk_pending :: "chunkstore \<Rightarrow> nat multiset" where
  "chunk_pending cs = mset (cs_events cs) + mset (map ci_rid (cs_ios cs))"

lemma chunk_call_ok:
  assumes "req_ok m"
  shows "\<exists>rc m' s'. chunkstore_obj_async_op_call dev rid m cs = Done (rc, m', s') \<and> True \<and>
      chunk_pending s' = (if rc = OSTORE_SUBMIT_OK then add_mset rid (chunk_pending cs) else chunk_pending cs) \<and>
      m_header m' = m_header m \<and> meta_buffer m' = meta_buffer m \<and> (data_buffer m' = None \<longleftrightarrow> data_buffer m = None) \<and>
      0 \<le> rc \<and> rc < 256"
  using assms unfolding req_ok_def
proof (elim disjE conjE exE)
  fix buf assume "message_get_op m = msg_oss_op_stat" "data_buffer m = Some buf" "20 \<le> length buf"
  then show ?thesis
    by (simp add: chunkstore_obj_async_op_call_def chunk_do_stat_def chunk_pending_def fake_async_cb_def OSTORE_SUBMIT_OK_def)
qed (auto simp: chunkstore_obj_async_op_call_def chunk_do_cre_del_def chunk_do_rw_def msg_op_defs chunk_pending_def
    fake_async_cb_def OSTORE_SUBMIT_OK_def Let_def obj2blk_def split: list.splits)

lemma mset_drop_nth:
  assumes "i < length xs"
  shows "mset xs = add_mset (xs ! i) (mset (take i xs @ drop (Suc i) xs))"
proof -
  have "mset xs = mset (take i xs @ xs ! i # drop (Suc i) xs)" using id_take_nth_drop [OF assms] by simp
  then show ?thesis by simp
qed

lemma chunk_complete_ok:
  assumes "chunkstore_complete c cs = Some ((rid, st, filled), cs')"
  shows "True \<and> chunk_pending cs = add_mset rid (chunk_pending cs') \<and> 0 \<le> st \<and> st < 256"
proof (cases c)
  case Ev_run
  then show ?thesis using assms by (auto simp: chunkstore_complete_def chunk_pending_def OSTORE_EXECUTE_OK_def split: list.splits)
next
  case (Io_done i ok bytes)
  then have i: "i < length (cs_ios cs)" "rid = ci_rid (cs_ios cs ! i)" "st = rw_cb ok"
    "cs' = cs\<lparr> cs_ios := take i (cs_ios cs) @ drop (Suc i) (cs_ios cs) \<rparr>"
    using assms by (auto simp: chunkstore_complete_def Let_def split: if_splits)
  have "mset (map ci_rid (cs_ios cs)) = add_mset rid (mset (map ci_rid (take i (cs_ios cs) @ drop (Suc i) (cs_ios cs))))"
    using mset_drop_nth [OF i(1)] by (metis i(2) image_mset_add_mset mset_map)
  then show ?thesis using i(3) by (auto simp: chunk_pending_def i(4) rw_cb_def OSTORE_EXECUTE_OK_def)
qed

interpretation chunks: object_store "\<lambda>s. True" chunk_pending chunkstore_obj_async_op_call chunkstore_complete
  using chunk_call_ok chunk_complete_ok by unfold_locales blast+

section \<open>Where objects lie\<close>

definition chunk_blocks :: "nat \<Rightarrow> nat \<Rightarrow> nat \<Rightarrow> nat set" where
  "chunk_blocks oid ofst len =
     (let (b, n) = obj2blk (word_of_nat oid) (word_of_nat ofst) (word_of_nat len) in {unat b..<unat b + unat n})"

lemma unat_drop_12: "unat (drop_bit 12 (w :: u32)) = unat w div 4096"
  unfolding unat_drop_bit_eq by (simp add: drop_bit_eq_div)

lemma unat_ucast_64: "unat (ucast (w :: u32) :: u64) = unat w"
proof -
  have "unat w < 2 ^ 64" using unsigned_less [of w, where 'a = nat] by simp
  then show ?thesis by (simp add: unsigned_ucast_eq take_bit_nat_eq_self)
qed

lemma obj2blk_nat:
  assumes "oid < 2 ^ 22" and "ofst < 2 ^ 22" and "len < 2 ^ 32"
  shows "unat (fst (obj2blk (word_of_nat oid) (word_of_nat ofst) (word_of_nat len))) = oid * 1024 + ofst div 4096"
    and "unat (snd (obj2blk (word_of_nat oid) (word_of_nat ofst) (word_of_nat len))) = len div 4096"
proof -
  have o: "unat (word_of_nat oid * 1024 :: u32) = oid * 1024"
    using assms(1) by (simp add: unat_word_ariths unat_of_nat)
  have f: "unat (drop_bit 12 (word_of_nat ofst :: u32)) = ofst div 4096"
    using assms(2) unfolding unat_drop_12 by (simp add: unat_of_nat)
  have b: "oid * 1024 + ofst div 4096 < 2 ^ 32" using assms(1,2) by simp
  have s: "unat (word_of_nat oid * 1024 + drop_bit 12 (word_of_nat ofst) :: u32) = oid * 1024 + ofst div 4096"
    using b by (simp add: unat_word_ariths(1) o f del: unat_add_lem)
  then show "unat (fst (obj2blk (word_of_nat oid) (word_of_nat ofst) (word_of_nat len))) = oid * 1024 + ofst div 4096"
    unfolding obj2blk_def by (simp add: unat_ucast_64)
  show "unat (snd (obj2blk (word_of_nat oid) (word_of_nat ofst) (word_of_nat len))) = len div 4096"
  proof -
    have "unat (drop_bit 12 (word_of_nat len :: u32)) = len div 4096"
      unfolding unat_drop_12 using assms(3) by (simp add: unat_of_nat)
    then show ?thesis unfolding obj2blk_def by (simp add: unat_ucast_64)
  qed
qed

text \<open>
  Within their bounds the objects of the chunk store do not touch: for object numbers below
  2 ^ 22 a range inside an object of 4 MiB is mapped to blocks of that object's 1024 blocks,
  all of them if it is whole, and ranges of different objects share no block.
\<close>

theorem chunk_objects_disjoint:
  assumes "o1 < 2 ^ 22" and "o2 < 2 ^ 22" and "f1 + n1 \<le> 2 ^ 22" and "f2 + n2 \<le> 2 ^ 22" and "0 < n1" and "0 < n2"
    and "o1 \<noteq> o2"
  shows "chunk_blocks o1 f1 n1 \<subseteq> {o1 * 1024..<(o1 + 1) * 1024} \<and> chunk_blocks o1 0 (2 ^ 22) = {o1 * 1024..<(o1 + 1) * 1024} \<and>
    chunk_blocks o1 f1 n1 \<inter> chunk_blocks o2 f2 n2 = {}"
proof -
  have sub: "chunk_blocks oid f n \<subseteq> {oid * 1024..<(oid + 1) * 1024}" if "oid < 2 ^ 22" "f + n \<le> 2 ^ 22" "0 < n" for oid f n
  proof -
    have fn: "f < 2 ^ 22" "n < 2 ^ 32" using that(2,3) by simp_all
    have "f div 4096 + n div 4096 \<le> (f + n) div 4096" by (metis div_add1_eq le_add1)
    also have "\<dots> \<le> 1024" using div_le_mono [OF that(2), of 4096] by simp
    finally show ?thesis using obj2blk_nat [OF that(1) fn] by (auto simp: chunk_blocks_def split: prod.splits)
  qed
  have "chunk_blocks o1 0 (2 ^ 22) = {o1 * 1024..<(o1 + 1) * 1024}"
    using obj2blk_nat [OF assms(1), of 0 "2 ^ 22"] by (auto simp: chunk_blocks_def split: prod.splits)
  moreover have "{o1 * 1024..<(o1 + 1) * 1024} \<inter> {o2 * 1024..<(o2 + 1) * 1024} = {}"
    using assms(7) by (cases o1 o2 rule: linorder_cases) auto
  ultimately show ?thesis using sub [OF assms(1,3,5)] sub [OF assms(2,4,6)] by blast
qed

lemma chunk_objects_disjoint_witness:
  "chunk_blocks 3 8192 4096 \<subseteq> {3 * 1024..<(3 + 1) * 1024} \<and> chunk_blocks 3 0 (2 ^ 22) = {3 * 1024..<(3 + 1) * 1024} \<and>
    chunk_blocks 3 8192 4096 \<inter> chunk_blocks 4 0 (2 ^ 22) = {}"
  using chunk_objects_disjoint [of 3 4 8192 4096 0 "2 ^ 22"] by simp

text \<open>
  Beyond their bounds they do: the object number is cut to 22 bits, so that objects share
  their blocks with others, and an offset of 4 MiB or more reaches into the following object.
\<close>

theorem chunk_objects_alias:
  assumes "ofst + 2 ^ 22 < 2 ^ 32"
  shows "chunk_blocks (oid + 2 ^ 22 * j) f n = chunk_blocks oid f n \<and>
    chunk_blocks oid (ofst + 2 ^ 22) n = chunk_blocks (oid + 1) ofst n"
proof -
  have w: "(word_of_nat (oid + 2 ^ 22 * j) * 1024 :: u32) = word_of_nat oid * 1024"
  proof -
    have "(2 ^ 22 * 1024 :: u32) = 0" by simp
    then have "(2 ^ 22 * word_of_nat j * 1024 :: u32) = 0" by (metis mult.assoc mult.commute mult_zero_left)
    then show ?thesis by (simp add: distrib_right)
  qed
  have "chunk_blocks oid (ofst + 2 ^ 22) n = chunk_blocks (oid + 1) ofst n"
  proof -
    have "unat (drop_bit 12 (word_of_nat (ofst + 2 ^ 22) :: u32)) = unat (drop_bit 12 (word_of_nat ofst :: u32)) + 1024"
      unfolding unat_drop_12 using assms by (simp add: unat_of_nat del: of_nat_add)
    moreover have "unat (drop_bit 12 (word_of_nat ofst :: u32) + 1024) = unat (drop_bit 12 (word_of_nat ofst :: u32)) + 1024"
      unfolding unat_word_ariths(1) unat_drop_12 using assms by (simp add: unat_of_nat)
    ultimately have "drop_bit 12 (word_of_nat (ofst + 2 ^ 22) :: u32) = drop_bit 12 (word_of_nat ofst) + 1024"
      by (metis word_unat_eq_iff)
    then show ?thesis by (simp add: chunk_blocks_def obj2blk_def algebra_simps)
  qed
  moreover have "chunk_blocks (oid + 2 ^ 22 * j) f n = chunk_blocks oid f n"
    unfolding chunk_blocks_def obj2blk_def w ..
  ultimately show ?thesis by simp
qed

lemma chunk_objects_alias_witness:
  "chunk_blocks (7 + 2 ^ 22 * 1) 0 4096 = chunk_blocks 7 0 4096 \<and> chunk_blocks 7 (0 + 2 ^ 22) 4096 = chunk_blocks (7 + 1) 0 4096"
  using chunk_objects_alias [of 0 7 1 0 4096] by simp

end
