(* ===== verification/Server_Correct.thy ===== *)
theory Server_Correct
  imports Server Stores_Correct
begin

text \<open>
  The server with any store that keeps the contract: every message is answered exactly once,
  buffers are freed once when all goes well and twice when a request is refused.
\<close>

section \<open>Single steps\<close>

text \<open>What identifies a message and its response.\<close>

definition msg_key :: "message \<Rightarrow> nat \<times> nat \<times> nat \<times> nat \<times> nat" where
  "msg_key m = (let h = m_header m in (h_magic h, h_seq h, h_type h, h_rsv h))"

definition env_ok :: "sv_env \<Rightarrow> bool" where
  "env_ok env \<longleftrightarrow> (\<forall>n. length (fresh_mem env n) = n)"

lemma set_header_simps [simp]:
  "m_header (set_header f m) = f (m_header m)" "meta_buffer (set_header f m) = meta_buffer m"
  "data_buffer (set_header f m) = data_buffer m" "priv_ctx (set_header f m) = priv_ctx m"
  by (simp_all add: set_header_def)

lemma state_reset_simps [simp]:
  "m_header (message_state_reset m) = m_header m" "meta_buffer (message_state_reset m) = meta_buffer m"
  "data_buffer (message_state_reset m) = data_buffer m" "priv_ctx (message_state_reset m) = priv_ctx m"
  by (simp_all add: message_state_reset_def)

lemma set_msg_simps [simp]:
  "rq_msg (set_msg f rq) = f (rq_msg rq)" "meta_freed (set_msg f rq) = meta_freed rq" "data_freed (set_msg f rq) = data_freed rq"
  by (simp_all add: set_msg_def)

lemma new_request_simps [simp]:
  "rq_msg (new_request m) = m" "\<not> meta_freed (new_request m)" "\<not> data_freed (new_request m)"
  by (simp_all add: new_request_def)

text \<open>A request that passed the check and was refilled is one that stores accept.\<close>

lemma valid_refill:
  assumes "oss_op_valid m = Done True" and "oss_op_refill_request_with_reponse env m = Done m1" and "env_ok env"
  shows "req_ok m1 \<and> msg_key m1 = msg_key m \<and> h_meta_length (m_header m1) = 0 \<and> meta_buffer m1 = meta_buffer m"
  using assms
  by (auto simp: oss_op_valid_def oss_op_refill_request_with_reponse_def req_ok_def msg_key_def message_get_op_def Let_def
      msg_op_defs alloc_data_buffer_def env_ok_def split: if_splits option.splits)

text \<open>The outputs of the server; every response has the key of its request.\<close>

definition outputs :: "'s server \<Rightarrow> message multiset" where
  "outputs sv = mset (sv_ipc_out sv) + mset (sv_net_out sv)"

definition routed :: "message \<Rightarrow> bool" where
  "routed m \<longleftrightarrow> h_magic (m_header m) = LOCAL \<or> h_magic (m_header m) = REMOTE"

lemma send_response_out:
  assumes "send_response m sv = Done sv'"
  shows "sv_store sv' = sv_store sv \<and> sv_reqs sv' = sv_reqs sv \<and> sv_next sv' = sv_next sv \<and> sv_ipc sv' = sv_ipc sv \<and> sv_net sv' = sv_net sv \<and>
    outputs sv' = outputs sv + (if routed m then {#m#} else {#})"
  using assms by (auto simp: send_response_def outputs_def routed_def LOCAL_def REMOTE_def split: if_splits)

lemma free_resource_key:
  assumes "msg_free_resource rq = Done rq'"
  shows "m_header (rq_msg rq') = m_header (rq_msg rq)"
  using assms
  by (auto simp: msg_free_resource_def free_meta_resource_def free_data_resource_def free_meta_buffer_def free_data_buffer_def
      run_bind_Done set_msg_def split: if_splits)

lemma routed_key: "msg_key m = msg_key m' \<Longrightarrow> routed m = routed m'"
  by (simp add: msg_key_def routed_def Let_def)

lemma response_out:
  assumes "response_with_reusing_request rq st sv = Done (rq', sv')"
  shows "sv_store sv' = sv_store sv \<and> sv_reqs sv' = sv_reqs sv \<and> sv_next sv' = sv_next sv \<and>
    image_mset msg_key (outputs sv') = image_mset msg_key (outputs sv) + (if routed (rq_msg rq) then {#msg_key (rq_msg rq)#} else {#})"
proof -
  let ?rq = "set_msg (\<lambda>m. message_state_reset (set_header (\<lambda>h. h\<lparr> h_status := nat (st mod 256) \<rparr>) m)) rq"
  obtain rq1 where f: "msg_free_resource ?rq = Done rq1" and s: "send_response (rq_msg rq1) sv = Done sv'"
    using assms by (auto simp: response_with_reusing_request_def run_bind_Done)
  have k: "msg_key (rq_msg rq1) = msg_key (rq_msg rq)"
    using free_resource_key [OF f] by (simp add: msg_key_def Let_def)
  show ?thesis using send_response_out [OF s] k routed_key [OF k] by auto
qed

lemma broken_out:
  assumes "broken_op rq st sv = Done sv'"
  shows "sv_store sv' = sv_store sv \<and> sv_reqs sv' = sv_reqs sv \<and> sv_next sv' = sv_next sv \<and>
    image_mset msg_key (outputs sv') = image_mset msg_key (outputs sv) + (if routed (rq_msg rq) then {#msg_key (rq_msg rq)#} else {#})"
proof -
  obtain rq3 rq4 where r: "response_with_reusing_request rq3 st sv = Done (rq4, sv')"
    and m: "rq_msg rq3 = set_header (\<lambda>h. h\<lparr> h_data_length := 0, h_meta_length := 0 \<rparr>) (rq_msg rq)"
    using assms
    by (auto simp: broken_op_def response_broken_op_def run_bind_Done Let_def free_meta_buffer_def free_data_buffer_def split: if_splits)
  have k: "msg_key (rq_msg rq3) = msg_key (rq_msg rq)" by (simp add: m msg_key_def Let_def)
  show ?thesis using response_out [OF r] k routed_key [OF k] by simp
qed

text \<open>A buffer with the arguments is freed twice whenever a request is broken.\<close>

lemma broken_double_free:
  assumes "meta_buffer (rq_msg rq) \<noteq> None" and "\<not> data_freed rq"
  shows "broken_op rq st sv = Double_free"
proof (cases "meta_freed rq")
  case True
  then show ?thesis using assms by (simp add: broken_op_def response_broken_op_def free_meta_buffer_def Let_def)
next
  case False
  then show ?thesis using assms
    by (simp add: broken_op_def response_broken_op_def free_meta_buffer_def free_data_buffer_def Let_def
        response_with_reusing_request_def msg_free_resource_def free_meta_resource_def)
qed

section \<open>Reachable states\<close>

text \<open>Messages arrive and the store completes operations; the second component are the messages received.\<close>

inductive sv_step ::
    "'s objstore_impl \<Rightarrow> (completion \<Rightarrow> 's \<Rightarrow> ((nat \<times> int \<times> u8 list option) \<times> 's) option) \<Rightarrow> sv_env \<Rightarrow>
     's server \<times> message list \<Rightarrow> 's server \<times> message list \<Rightarrow> bool"
  for impl complete env where
  sv_recv: "on_recv_message impl env dev m sv = Done sv' \<Longrightarrow> sv_step impl complete env (sv, ms) (sv', ms @ [m])"
| sv_complete: "store_completes complete c sv = Some (Done sv') \<Longrightarrow> sv_step impl complete env (sv, ms) (sv', ms)"

inductive sv_reach ::
    "'s objstore_impl \<Rightarrow> (completion \<Rightarrow> 's \<Rightarrow> ((nat \<times> int \<times> u8 list option) \<times> 's) option) \<Rightarrow> sv_env \<Rightarrow> 's \<Rightarrow>
     's server \<times> message list \<Rightarrow> bool"
  for impl complete env s0 where
  sv_start: "sv_reach impl complete env s0
     (\<lparr> sv_store = s0, sv_ipc = ipc, sv_net = net, sv_ipc_out = [], sv_net_out = [], sv_reqs = [], sv_next = 0 \<rparr>, [])"
| sv_next_step: "sv_reach impl complete env s0 st \<Longrightarrow> sv_step impl complete env st st' \<Longrightarrow> sv_reach impl complete env s0 st'"

text \<open>The account of the messages: answered, outstanding, received.\<close>

definition req_keys :: "'s server \<Rightarrow> (nat \<times> nat \<times> nat \<times> nat \<times> nat) multiset" where
  "req_keys sv = mset (map (\<lambda>x. msg_key (rq_msg (snd x))) (filter (\<lambda>x. routed (rq_msg (snd x))) (sv_reqs sv)))"

definition keys_of :: "message list \<Rightarrow> (nat \<times> nat \<times> nat \<times> nat \<times> nat) multiset" where
  "keys_of ms = image_mset msg_key (mset (filter routed ms))"

definition balanced :: "'s server \<Rightarrow> message list \<Rightarrow> bool" where
  "balanced sv ms \<longleftrightarrow> image_mset msg_key (outputs sv) + req_keys sv = keys_of ms"

definition reqs_ok :: "'s server \<Rightarrow> bool" where
  "reqs_ok sv \<longleftrightarrow> distinct (map fst (sv_reqs sv)) \<and> (\<forall>x \<in> set (sv_reqs sv). fst x < sv_next sv)"

lemma keys_snoc [simp]: "keys_of (ms @ [m]) = keys_of ms + (if routed m then {#msg_key m#} else {#})"
  by (simp add: keys_of_def)

lemma req_keys_cong: "sv_reqs sv' = sv_reqs sv \<Longrightarrow> req_keys sv' = req_keys sv"
  by (simp add: req_keys_def)

lemma req_keys_remove:
  assumes "distinct (map fst (sv_reqs sv))" and "map_of (sv_reqs sv) rid = Some rq"
  shows "req_keys sv = req_keys (sv\<lparr> sv_reqs := filter (\<lambda>x. fst x \<noteq> rid) (sv_reqs sv) \<rparr>) +
      (if routed (rq_msg rq) then {#msg_key (rq_msg rq)#} else {#})"
    and "mset (map fst (sv_reqs sv)) = add_mset rid (mset (map fst (filter (\<lambda>x. fst x \<noteq> rid) (sv_reqs sv))))"
proof -
  have "mset xs = add_mset (rid, rq) (mset (filter (\<lambda>x. fst x \<noteq> rid) xs))"
    if "distinct (map fst xs)" "map_of xs rid = Some rq" for xs :: "(nat \<times> request) list"
    using that
  proof (induction xs)
    case (Cons x xs)
    show ?case
    proof (cases "fst x = rid")
      case True
      then have "rid \<notin> fst ` set xs" using Cons.prems(1) by simp
      then have "\<forall>y \<in> set xs. fst y \<noteq> rid" by (metis imageI)
      then have "filter (\<lambda>x. fst x \<noteq> rid) xs = xs" by simp
      then show ?thesis using True Cons.prems(2) by (cases x) auto
    next
      case False
      then show ?thesis using Cons by (cases x) auto
    qed
  qed simp
  from this [OF assms]
  have e: "mset (sv_reqs sv) = add_mset (rid, rq) (mset (filter (\<lambda>x. fst x \<noteq> rid) (sv_reqs sv)))" .
  have gen: "mset (map fst xs) = add_mset rid (mset (map fst ys)) \<and>
      mset (map (\<lambda>x. msg_key (rq_msg (snd x))) (filter (\<lambda>x. routed (rq_msg (snd x))) xs)) =
      mset (map (\<lambda>x. msg_key (rq_msg (snd x))) (filter (\<lambda>x. routed (rq_msg (snd x))) ys)) +
      (if routed (rq_msg rq) then {#msg_key (rq_msg rq)#} else {#})"
    if m: "mset xs = add_mset (rid, rq) (mset ys)" for xs ys :: "(nat \<times> request) list"
    unfolding mset_map mset_filter m by simp
  note g = gen [OF e]
  show "mset (map fst (sv_reqs sv)) = add_mset rid (mset (map fst (filter (\<lambda>x. fst x \<noteq> rid) (sv_reqs sv))))"
    using g by (rule conjunct1)
  show "req_keys sv = req_keys (sv\<lparr> sv_reqs := filter (\<lambda>x. fst x \<noteq> rid) (sv_reqs sv) \<rparr>) +
      (if routed (rq_msg rq) then {#msg_key (rq_msg rq)#} else {#})"
    unfolding req_keys_def using conjunct2 [OF g] by simp
qed

context object_store
begin

text \<open>What holds in every state of a server with a store that keeps the contract.\<close>

definition server_inv where
  "server_inv sv ms \<longleftrightarrow> os_inv (sv_store sv) \<and> os_pending (sv_store sv) = mset (map fst (sv_reqs sv)) \<and>
     reqs_ok sv \<and> balanced sv ms"

text \<open>A request answered with an error status.\<close>

lemma server_inv_broken:
  assumes "reqs_ok sv" and "balanced sv ms" and "broken_op rq st sv1 = Done sv2" and "msg_key (rq_msg rq) = msg_key m"
    and "os_inv (sv_store sv1)" and "os_pending (sv_store sv1) = mset (map fst (sv_reqs sv))"
    and "sv_reqs sv1 = sv_reqs sv" and "outputs sv1 = outputs sv" and "sv_next sv \<le> sv_next sv1"
  shows "server_inv sv2 (ms @ [m])"
  using broken_out [OF assms(3)] assms(4-9,1,2) routed_key [OF assms(4)] req_keys_cong [of sv2 sv]
  by (auto simp: server_inv_def reqs_ok_def balanced_def)

text \<open>A request for the store: refused, accepted, or failed at once.\<close>

lemma server_inv_oss:
  assumes "server_inv sv ms" and "env_ok env" and "os_call impl = os_op" and "do_op_oss impl env dev m sv = Done sv'"
  shows "server_inv sv' (ms @ [m])"
proof -
  have inv: "os_inv (sv_store sv)" "os_pending (sv_store sv) = mset (map fst (sv_reqs sv))" "reqs_ok sv" "balanced sv ms"
    using assms(1) by (simp_all add: server_inv_def)
  note broken = server_inv_broken [OF inv(3,4)] and oss = assms(4)
  obtain ok where v: "oss_op_valid m = Done ok" using oss by (auto simp: do_op_oss_def run_bind_Done)
  show ?thesis
  proof (cases ok)
    case False
    then have "broken_op (new_request m) (status_code INVALID_OP) sv = Done sv'" using oss v by (simp add: do_op_oss_def)
    then show ?thesis by (rule broken) (use inv in simp_all)
  next
    case True
    obtain m1 where r: "oss_op_refill_request_with_reponse env m = Done m1"
      using oss v True by (auto simp: do_op_oss_def run_bind_Done)
    have "oss_op_valid m = Done True" using v True by simp
    note vr = valid_refill [OF this r assms(2)]
    obtain rc m2 s' where c: "os_op dev (sv_next sv) m1 (sv_store sv) = Done (rc, m2, s')" "os_inv s'"
      "os_pending s' = (if rc = OSTORE_SUBMIT_OK then add_mset (sv_next sv) (os_pending (sv_store sv)) else os_pending (sv_store sv))"
      "m_header m2 = m_header m1"
      using call_law [OF inv(1), of m1 dev "sv_next sv"] vr by auto
    have k: "msg_key m2 = msg_key m" using c(4) vr by (simp add: msg_key_def Let_def)
    let ?sv1 = "sv\<lparr> sv_store := s', sv_next := sv_next sv + 1 \<rparr>"
    have o: "outputs ?sv1 = outputs sv" by (simp add: outputs_def)
    show ?thesis
    proof (cases "rc = OSTORE_SUBMIT_OK")
      case rc0: True
      have sv': "sv' = ?sv1\<lparr> sv_reqs := sv_reqs sv @ [(sv_next sv, new_request m2)] \<rparr>"
        using oss v True r c(1) rc0 by (simp add: do_op_oss_def assms(3) Let_def)
      have "reqs_ok sv'" using inv(3) by (auto simp: reqs_ok_def sv')
      moreover have "outputs sv' = outputs sv" by (simp add: outputs_def sv')
      moreover have "req_keys sv' = req_keys sv + (if routed m then {#msg_key m#} else {#})"
        using k routed_key [OF k] by (simp add: req_keys_def sv')
      ultimately show ?thesis using inv c(2,3) rc0 by (auto simp: server_inv_def balanced_def sv')
    next
      case False
      then have "broken_op (new_request m2) rc ?sv1 = Done sv'"
        using oss v True r c(1) by (simp add: do_op_oss_def assms(3) Let_def)
      then show ?thesis by (rule broken) (use k c(2,3) False inv o in simp_all)
    qed
  qed
qed

lemma server_inv_recv:
  assumes "server_inv sv ms" and "env_ok env" and "os_call impl = os_op" and "on_recv_message impl env dev m sv = Done sv'"
  shows "server_inv sv' (ms @ [m])"
proof -
  have inv: "os_inv (sv_store sv)" "os_pending (sv_store sv) = mset (map fst (sv_reqs sv))" "reqs_ok sv" "balanced sv ms"
    using assms(1) by (simp_all add: server_inv_def)
  have op: "op_execute impl env dev m sv = Done sv'"
    using assms(4) by (simp add: on_recv_message_def message_move_def)
  consider (ping) "do_op_ping m sv = Done sv'" | (oss) "do_op_oss impl env dev m sv = Done sv'" | (unknown) "do_op_unknown m sv = Done sv'"
    using op by (auto simp: op_execute_def Let_def split: if_splits)
  then show ?thesis
  proof cases
    case ping
    then obtain rq where "response_with_reusing_request (new_request m) (status_code SUCCESS) sv = Done (rq, sv')"
      by (auto simp: do_op_ping_def run_bind_Done)
    from response_out [OF this] show ?thesis
      using inv req_keys_cong [of sv' sv] by (auto simp: server_inv_def reqs_ok_def balanced_def)
  next
    case unknown
    then have "broken_op (new_request m) (status_code UNKNOWN_OP) sv = Done sv'"
      by (simp add: do_op_unknown_def broken_op_def)
    then show ?thesis by (rule server_inv_broken [OF inv(3,4)]) (use inv in simp_all)
  next
    case oss
    from server_inv_oss [OF assms(1-3) oss] show ?thesis .
  qed
qed

lemma server_inv_complete:
  assumes "server_inv sv ms" and "store_completes os_complete c sv = Some (Done sv')"
  shows "server_inv sv' ms"
proof -
  have inv: "os_inv (sv_store sv)" "os_pending (sv_store sv) = mset (map fst (sv_reqs sv))" "reqs_ok sv" "balanced sv ms"
    using assms(1) by (simp_all add: server_inv_def)
  obtain rid st filled s' where c: "os_complete c (sv_store sv) = Some ((rid, st, filled), s')"
    and cb: "oss_op_cb rid st filled (sv\<lparr> sv_store := s' \<rparr>) = Done sv'"
    using assms(2) by (auto simp: store_completes_def)
  note law = complete_law [OF inv(1) c]
  let ?sv = "sv\<lparr> sv_store := s' \<rparr>"
  obtain rq where rq: "map_of (sv_reqs sv) rid = Some rq" using cb by (auto simp: oss_op_cb_def split: option.splits)
  let ?sv1 = "?sv\<lparr> sv_reqs := filter (\<lambda>x. fst x \<noteq> rid) (sv_reqs sv) \<rparr>"
  define rq1 where "rq1 = (case filled of None \<Rightarrow> rq | Some bytes \<Rightarrow> set_msg (\<lambda>m. m\<lparr> data_buffer := Some bytes \<rparr>) rq)"
  have k: "msg_key (rq_msg rq1) = msg_key (rq_msg rq)" by (simp add: rq1_def msg_key_def split: option.splits)
  have d: "distinct (map fst (sv_reqs sv))" using inv(3) by (simp add: reqs_ok_def)
  note rem = req_keys_remove [OF d rq]
  have out: "outputs ?sv1 = outputs sv" by (simp add: outputs_def)
  have split: "oss_op_cb rid st filled ?sv =
      (if st \<noteq> OSTORE_EXECUTE_OK then broken_op rq1 st ?sv1
       else run_bind (response_with_reusing_request rq1 st ?sv1) (\<lambda>(rq2, sv2). Done sv2))"
    by (simp add: oss_op_cb_def rq rq1_def Let_def)
  have "(\<exists>rq2. response_with_reusing_request rq1 st ?sv1 = Done (rq2, sv')) \<or> broken_op rq1 st ?sv1 = Done sv'"
    using cb unfolding split by (cases "st = OSTORE_EXECUTE_OK") (auto simp: run_bind_Done)
  then have f: "sv_store sv' = sv_store ?sv1 \<and> sv_reqs sv' = sv_reqs ?sv1 \<and> sv_next sv' = sv_next ?sv1 \<and>
      image_mset msg_key (outputs sv') = image_mset msg_key (outputs ?sv1) + (if routed (rq_msg rq1) then {#msg_key (rq_msg rq1)#} else {#})"
  proof (elim disjE exE)
    fix rq2 assume "response_with_reusing_request rq1 st ?sv1 = Done (rq2, sv')"
    then show ?thesis by (rule response_out)
  next
    assume "broken_op rq1 st ?sv1 = Done sv'"
    then show ?thesis by (rule broken_out)
  qed
  have sv': "sv_store sv' = s'" "sv_reqs sv' = sv_reqs ?sv1" "sv_next sv' = sv_next sv"
    "image_mset msg_key (outputs sv') = image_mset msg_key (outputs sv) + (if routed (rq_msg rq) then {#msg_key (rq_msg rq)#} else {#})"
    using f unfolding k routed_key [OF k] out by simp_all
  have "os_pending s' = mset (map fst (sv_reqs sv'))" using law inv(2) rem(2) sv'(2) by simp
  moreover have "reqs_ok sv'" using inv(3) by (auto simp: reqs_ok_def sv' distinct_map_filter)
  moreover have "req_keys sv' = req_keys (sv\<lparr> sv_reqs := filter (\<lambda>x. fst x \<noteq> rid) (sv_reqs sv) \<rparr>)"
    by (rule req_keys_cong) (simp add: sv')
  then have "balanced sv' ms" using inv(4) rem(1) sv'(4) by (simp add: balanced_def ac_simps)
  ultimately show ?thesis using law by (simp add: server_inv_def sv'(1))
qed

lemma server_reach_inv:
  assumes "sv_reach impl os_complete env s0 st" and "env_ok env" and "os_call impl = os_op" and "os_inv s0" and "os_pending s0 = {#}"
  shows "server_inv (fst st) (snd st)"
  using assms(1)
proof (induction rule: sv_reach.induct)
  case (sv_start ipc net)
  then show ?case using assms(4,5) by (simp add: server_inv_def reqs_ok_def balanced_def outputs_def req_keys_def keys_of_def)
next
  case (sv_next_step st st')
  from sv_next_step(2) sv_next_step(3) show ?case
  proof cases
    case (sv_recv dev m sv sv' ms)
    then show ?thesis using server_inv_recv [OF _ assms(2,3) sv_recv(3)] sv_next_step(3) by simp
  next
    case (sv_complete c sv sv' ms)
    then show ?thesis using server_inv_complete [OF _ sv_complete(3)] sv_next_step(3) by simp
  qed
qed

text \<open>Every routed message is answered or outstanding, and none when the store has nothing to do.\<close>

lemma server_answers:
  assumes "sv_reach impl os_complete env s0 (sv, ms)" and "env_ok env" and "os_call impl = os_op" and "os_inv s0" and "os_pending s0 = {#}"
  shows "image_mset msg_key (outputs sv) + req_keys sv = keys_of ms \<and> size (os_pending (sv_store sv)) = length (sv_reqs sv) \<and>
    (os_pending (sv_store sv) = {#} \<longrightarrow> image_mset msg_key (outputs sv) = keys_of ms)"
  using server_reach_inv [OF assms] by (auto simp: server_inv_def balanced_def req_keys_def)

end

section \<open>Properties\<close>

text \<open>
  C7: A server with the chunk store answers every message exactly once: in every reachable
  state the responses and the outstanding requests are together the messages received from a
  local or remote client, told apart by origin, sequence number, operation and descriptor; the
  store is busy with exactly the outstanding requests, and when it is idle everything has been
  answered.
\<close>

theorem server_answers_once:
  assumes "sv_reach (chunkstore_impl bd) chunkstore_complete env chunkstore_init (sv, ms)" and "env_ok env"
  shows "image_mset msg_key (outputs sv) + req_keys sv = keys_of ms \<and>
    size (chunk_pending (sv_store sv)) = length (sv_reqs sv) \<and>
    (chunk_pending (sv_store sv) = {#} \<longrightarrow> image_mset msg_key (outputs sv) = keys_of ms)"
  by (rule chunks.server_answers [OF assms(1,2)]) (simp_all add: chunkstore_impl_def chunkstore_init_def chunk_pending_def)

text \<open>
  C31: Refusing is not survived: when a request that has an argument buffer does not pass the
  check, is refused by the store or fails there, the server frees the buffer twice.
\<close>

theorem refused_request_double_free:
  assumes "meta_buffer m \<noteq> None"
  shows "(MSG_TYPE_OSS (h_type (m_header m)) \<and> h_type (m_header m) \<noteq> msg_ping \<and> oss_op_valid m = Done False \<longrightarrow>
      on_recv_message impl env dev m sv = Double_free) \<and>
    (rc \<noteq> OSTORE_SUBMIT_OK \<and> MSG_TYPE_OSS (h_type (m_header m)) \<and> h_type (m_header m) \<noteq> msg_ping \<and> oss_op_valid m = Done True \<and>
      oss_op_refill_request_with_reponse env m = Done m1 \<and> meta_buffer m2 = meta_buffer m \<and>
      os_call impl dev (sv_next sv) m1 (sv_store sv) = Done (rc, m2, s') \<longrightarrow>
      on_recv_message impl env dev m sv = Double_free) \<and>
    (map_of (sv_reqs sv) rid = Some (new_request m) \<and> st \<noteq> OSTORE_EXECUTE_OK \<longrightarrow>
      oss_op_cb rid st filled sv = Double_free)"
proof (intro conjI impI; (elim conjE)?)
  assume "MSG_TYPE_OSS (h_type (m_header m))" "h_type (m_header m) \<noteq> msg_ping" "oss_op_valid m = Done False"
  then show "on_recv_message impl env dev m sv = Double_free"
    using broken_double_free [of "new_request m"] assms
    by (simp add: on_recv_message_def message_move_def op_execute_def do_op_oss_def)
next
  assume a: "rc \<noteq> OSTORE_SUBMIT_OK" "MSG_TYPE_OSS (h_type (m_header m))" "h_type (m_header m) \<noteq> msg_ping" "oss_op_valid m = Done True"
    "oss_op_refill_request_with_reponse env m = Done m1" "meta_buffer m2 = meta_buffer m"
    "os_call impl dev (sv_next sv) m1 (sv_store sv) = Done (rc, m2, s')"
  show "on_recv_message impl env dev m sv = Double_free"
    using broken_double_free [of "new_request m2"] assms a
    by (simp add: on_recv_message_def message_move_def op_execute_def do_op_oss_def Let_def)
next
  assume a: "map_of (sv_reqs sv) rid = Some (new_request m)" "st \<noteq> OSTORE_EXECUTE_OK"
  show "oss_op_cb rid st filled sv = Double_free"
    using assms a by (cases filled) (simp_all add: oss_op_cb_def broken_double_free Let_def)
qed

section \<open>A write from its arrival to its response\<close>

definition chunk_request :: "bool \<Rightarrow> u8 list \<Rightarrow> u8 list option \<Rightarrow> nat \<Rightarrow> chunk_io" where
  "chunk_request wr meta data rid =
     (let a = op_rw_decode meta; bl = obj2blk (word_of_nat (rw_oid a)) (word_of_nat (rw_ofst a)) (word_of_nat (rw_len a))
      in \<lparr> ci_write = wr, ci_ofst = fst bl, ci_len = snd bl, ci_rid = rid, ci_data = data \<rparr>)"

lemma write_served:
  assumes "h_type (m_header m) = msg_oss_op_write" and "h_magic (m_header m) = LOCAL" and "sv_ipc sv"
    and "data_buffer m = Some d" and "meta_buffer m = Some meta" and "24 \<le> length meta"
    and "h_data_length (m_header m) = field meta 16 8" and "0 < h_meta_length (m_header m)" and "reqs_ok sv"
    and "dev_rcs dev = []"
  shows "\<exists>sv1 sv2 rsp. on_recv_message (chunkstore_impl bd) env dev m sv = Done sv1 \<and>
    cs_ios (sv_store sv1) = cs_ios (sv_store sv) @ [chunk_request True meta (Some d) (sv_next sv)] \<and>
    store_completes chunkstore_complete (Io_done (length (cs_ios (sv_store sv))) True []) sv1 = Some (Done sv2) \<and>
    sv_ipc_out sv2 = sv_ipc_out sv @ [rsp] \<and> sv_reqs sv2 = sv_reqs sv \<and> cs_ios (sv_store sv2) = cs_ios (sv_store sv) \<and>
    m_header rsp = (m_header m)\<lparr> h_meta_length := 0, h_data_length := 0, h_status := 0 \<rparr> \<and>
    meta_buffer rsp = None \<and> data_buffer rsp = None \<and> priv_ctx rsp = priv_ctx m"
proof -
  let ?h = "(m_header m)\<lparr> h_meta_length := 0, h_data_length := 0 \<rparr>"
  let ?m1 = "m\<lparr> m_header := ?h \<rparr>"
  let ?io = "chunk_request True meta (Some d) (sv_next sv)"
  let ?cs = "(sv_store sv)\<lparr> cs_ios := cs_ios (sv_store sv) @ [?io] \<rparr>"
  let ?sv1 = "sv\<lparr> sv_store := ?cs, sv_next := sv_next sv + 1, sv_reqs := sv_reqs sv @ [(sv_next sv, new_request ?m1)] \<rparr>"
  have v: "oss_op_valid m = Done True"
    using assms(1,4-8) by (simp add: oss_op_valid_def msg_op_defs)
  have r: "oss_op_refill_request_with_reponse env m = Done ?m1"
    using assms(1) by (simp add: oss_op_refill_request_with_reponse_def message_get_op_def msg_op_defs set_header_def)
  have c: "chunkstore_obj_async_op_call dev (sv_next sv) ?m1 (sv_store sv) = Done (OSTORE_SUBMIT_OK, ?m1, ?cs)"
    using assms(1,4-6,10)
    by (simp add: chunkstore_obj_async_op_call_def chunk_do_rw_def message_get_op_def msg_op_defs chunk_request_def Let_def split: prod.splits)
  have op: "MSG_TYPE_OSS (h_type (m_header m))" "h_type (m_header m) \<noteq> msg_ping"
    unfolding assms(1) by (simp_all add: MSG_TYPE_OSS_def msg_op_defs)
  have recv: "on_recv_message (chunkstore_impl bd) env dev m sv = Done ?sv1"
    using op v r c by (simp add: on_recv_message_def message_move_def op_execute_def do_op_oss_def chunkstore_impl_def)
  have ci: "ci_rid ?io = sv_next sv" "ci_write ?io" by (simp_all add: chunk_request_def Let_def)
  have cpl: "chunkstore_complete (Io_done (length (cs_ios (sv_store sv))) True []) ?cs =
      Some ((sv_next sv, OSTORE_EXECUTE_OK, None), sv_store sv)"
    by (simp add: chunkstore_complete_def ci rw_cb_def)
  have new: "map_of (sv_reqs sv) (sv_next sv) = None" "filter (\<lambda>x. fst x \<noteq> sv_next sv) (sv_reqs sv) = sv_reqs sv"
    using assms(9) by (auto simp: reqs_ok_def map_of_eq_None_iff filter_id_conv)
  let ?rsp = "(message_state_reset (?m1\<lparr> m_header := ?h\<lparr> h_status := 0 \<rparr> \<rparr>))\<lparr> meta_buffer := None, data_buffer := None \<rparr>"
  let ?sv2 = "sv\<lparr> sv_next := sv_next sv + 1, sv_ipc_out := sv_ipc_out sv @ [?rsp] \<rparr>"
  have rsp: "msg_free_resource (set_msg (\<lambda>m. message_state_reset (set_header (\<lambda>h. h\<lparr> h_status := nat (OSTORE_EXECUTE_OK mod 256) \<rparr>) m)) (new_request ?m1)) =
      Done \<lparr> rq_msg = ?rsp, meta_freed = True, data_freed = False \<rparr>"
    using assms(2,4,5)
    by (simp add: msg_free_resource_def free_meta_resource_def free_data_resource_def free_meta_buffer_def set_msg_def new_request_def
        LOCAL_def REMOTE_def set_header_def OSTORE_EXECUTE_OK_def message_state_reset_def)
  have "oss_op_cb (sv_next sv) OSTORE_EXECUTE_OK None (?sv1\<lparr> sv_store := sv_store sv \<rparr>) = Done ?sv2"
    using assms(2,3) new
    by (simp add: oss_op_cb_def response_with_reusing_request_def rsp send_response_def Let_def map_add_def)
  then have fin: "store_completes chunkstore_complete (Io_done (length (cs_ios (sv_store sv))) True []) ?sv1 = Some (Done ?sv2)"
    by (simp add: store_completes_def cpl)
  show ?thesis using recv fin by (intro exI [of _ ?sv1] exI [of _ ?sv2] exI [of _ ?rsp]) (simp add: message_state_reset_def)
qed

section \<open>Instances\<close>

definition demo_env :: sv_env where
  "demo_env = \<lparr> fresh_mem = (\<lambda>n. replicate n 0), client_mem = (\<lambda>a n. replicate n 0) \<rparr>"

definition demo_request :: "nat \<Rightarrow> nat \<Rightarrow> u8 list option \<Rightarrow> message" where
  "demo_request ty dl meta = message_zero\<lparr> m_header := \<lparr> h_seq = 5, h_type = ty, h_status = 0, h_magic = LOCAL,
     h_meta_length = (case meta of None \<Rightarrow> 0 | Some bs \<Rightarrow> length bs), h_data_length = dl, h_slo = 0, h_rsv = (3, 0) \<rparr>, meta_buffer := meta \<rparr>"

definition demo_server :: "chunkstore server" where
  "demo_server = \<lparr> sv_store = chunkstore_init, sv_ipc = True, sv_net = False, sv_ipc_out = [], sv_net_out = [], sv_reqs = [], sv_next = 0 \<rparr>"

definition demo_bd :: bdev_info where
  "demo_bd = \<lparr> bd_open_rc = 0, bd_has_ioch = True, bd_block_size = 4096, bd_num_blocks = 2 ^ 20 \<rparr>"

definition demo_dev :: dev_answers where "demo_dev = \<lparr> dev_rcs = [], dev_garbage = [] \<rparr>"

text \<open>A request to create an object arrives, and the store completes it.\<close>

lemma demo_create:
  defines "m \<equiv> demo_request msg_oss_op_create 0 (Some (replicate 8 0))"
  shows "\<exists>sv1 sv2. on_recv_message (chunkstore_impl bd) demo_env demo_dev m demo_server = Done sv1 \<and>
    store_completes chunkstore_complete Ev_run sv1 = Some (Done sv2) \<and> length (sv_ipc_out sv2) = 1"
  by (simp add: m_def demo_request_def demo_server_def on_recv_message_def message_move_def op_execute_def msg_op_defs MSG_TYPE_OSS_def
      do_op_oss_def oss_op_valid_def oss_op_refill_request_with_reponse_def message_get_op_def message_zero_def chunkstore_impl_def
      chunkstore_obj_async_op_call_def chunk_do_cre_del_def chunkstore_init_def fake_async_cb_def OSTORE_SUBMIT_OK_def Let_def
      store_completes_def chunkstore_complete_def oss_op_cb_def OSTORE_EXECUTE_OK_def response_with_reusing_request_def
      msg_free_resource_def free_meta_resource_def free_data_resource_def free_meta_buffer_def send_response_def LOCAL_def)

lemma server_answers_once_witness:
  "\<exists>sv. sv_reach (chunkstore_impl demo_bd) chunkstore_complete demo_env chunkstore_init
      (sv, [demo_request msg_oss_op_create 0 (Some (replicate 8 0))]) \<and> length (sv_ipc_out sv) = 1 \<and>
    image_mset msg_key (outputs sv) + req_keys sv = {#(LOCAL, 5, msg_oss_op_create, (3, 0))#}"
proof -
  let ?m = "demo_request msg_oss_op_create 0 (Some (replicate 8 0))"
  let ?R = "sv_reach (chunkstore_impl demo_bd) chunkstore_complete demo_env chunkstore_init"
  obtain sv1 sv2 where c: "on_recv_message (chunkstore_impl demo_bd) demo_env demo_dev ?m demo_server = Done sv1"
    "store_completes chunkstore_complete Ev_run sv1 = Some (Done sv2)" "length (sv_ipc_out sv2) = 1"
    using demo_create by blast
  have "?R (demo_server, [])" unfolding demo_server_def by (rule sv_start)
  from sv_next_step [OF this sv_recv [OF c(1)]] have "?R (sv1, [] @ [?m])" .
  from sv_next_step [OF this sv_complete [OF c(2)]] have r: "?R (sv2, [?m])" by simp
  have k: "keys_of [?m] = {#(LOCAL, 5, msg_oss_op_create, (3, 0))#}"
    by (simp add: keys_of_def routed_def msg_key_def demo_request_def Let_def)
  have "env_ok demo_env" by (simp add: env_ok_def demo_env_def)
  from server_answers_once [OF r this] show ?thesis using r c(3) unfolding k by blast
qed

lemma refused_request_double_free_witness:
  "on_recv_message (chunkstore_impl demo_bd) demo_env demo_dev (demo_request msg_oss_op_create 1 (Some (replicate 8 0))) demo_server = Double_free \<and>
   oss_op_cb 0 (status_code OSTORE_IO_ERROR) None
     (demo_server\<lparr> sv_reqs := [(0, new_request (demo_request msg_oss_op_create 1 (Some (replicate 8 0))))] \<rparr>) = Double_free"
proof -
  let ?m = "demo_request msg_oss_op_create 1 (Some (replicate 8 0))"
  have m: "meta_buffer ?m \<noteq> None" "h_type (m_header ?m) = msg_oss_op_create" by (simp_all add: demo_request_def)
  have v: "oss_op_valid ?m = Done False" by (simp add: oss_op_valid_def demo_request_def msg_op_defs)
  have t: "MSG_TYPE_OSS msg_oss_op_create" "msg_oss_op_create \<noteq> msg_ping" by (simp_all add: MSG_TYPE_OSS_def msg_op_defs)
  show ?thesis
    using refused_request_double_free [OF m(1), of "chunkstore_impl demo_bd" demo_env demo_dev demo_server] v t
      refused_request_double_free [OF m(1), where sv = "demo_server\<lparr> sv_reqs := [(0, new_request ?m)] \<rparr>" and rid = 0
        and st = "status_code OSTORE_IO_ERROR" and filled = None]
    unfolding m(2) by (simp add: OSTORE_EXECUTE_OK_def)
qed

end
