(* ===== verification/Liboss_Correct.thy ===== *)
theory Liboss_Correct
  imports Liboss
begin

text \<open>
  The life of operations on a channel: descriptors are unique, states only advance, a
  response reaches the operation it answers; and the limits of the table.
\<close>

section \<open>Descriptors as a pool\<close>

definition ids_inv :: "io_channel \<Rightarrow> bool" where
  "ids_inv ch \<longleftrightarrow> bitmap_wf (op_bitmap ch) \<and> bitmap_hint ch \<le> bitmap_cap (op_bitmap ch)"

definition ids_free :: "io_channel \<Rightarrow> nat set" where
  "ids_free ch = {i. i < bitmap_cap (op_bitmap ch) \<and> bitmap_get_bit (op_bitmap ch) i}"

definition ids_all :: "io_channel \<Rightarrow> nat set" where
  "ids_all ch = {..<bitmap_cap (op_bitmap ch)}"

lemma find_and_clr:
  assumes "bitmap_wf b" and "h \<le> bitmap_cap b" and "bitmap_find_next_set_and_clr b h = (r, b')"
  shows "case r of
      None \<Rightarrow> b' = b \<and> (\<forall>i < bitmap_cap b. \<not> bitmap_get_bit b i)
    | Some i \<Rightarrow> i < bitmap_cap b \<and> bitmap_get_bit b i \<and> b' = bitmap_clr_bit b i"
  using assms bitmap_next_set_Some [of b h] bitmap_next_set_None [of b h]
  by (auto simp: bitmap_find_next_set_and_clr_def split: option.splits)

lemma alloc_op_None: "ids_inv ch \<Longrightarrow> alloc_op ch = (None, ch') \<Longrightarrow> ids_free ch = {} \<and> ch' = ch"
  using find_and_clr [of "op_bitmap ch" "bitmap_hint ch"]
  by (fastforce simp: alloc_op_def ids_inv_def ids_free_def split: prod.splits option.splits)

lemma alloc_op_Some:
  assumes "ids_inv ch" and "alloc_op ch = (Some i, ch')"
  shows "i < bitmap_cap (op_bitmap ch)" and "bitmap_get_bit (op_bitmap ch) i"
    and "ch' = ch\<lparr> op_bitmap := bitmap_clr_bit (op_bitmap ch) i, bitmap_hint := i + 1 \<rparr>"
  using find_and_clr [of "op_bitmap ch" "bitmap_hint ch"] assms
  by (fastforce simp: alloc_op_def ids_inv_def split: prod.splits option.splits)+

lemma alloc_op_pool:
  assumes "ids_inv ch" and "alloc_op ch = (Some i, ch')"
  shows "i \<in> ids_free ch \<and> ids_free ch' = ids_free ch - {i} \<and> ids_all ch' = ids_all ch \<and> ids_inv ch'"
  using alloc_op_Some [OF assms] bitmap_get_clr_bit [of "op_bitmap ch" i] assms(1)
  by (auto simp: ids_free_def ids_all_def ids_inv_def)

lemma release_id_pool:
  assumes "ids_inv ch" and "i \<in> ids_all ch - ids_free ch"
  shows "ids_free (release_id i ch) = insert i (ids_free ch) \<and> ids_all (release_id i ch) = ids_all ch \<and>
    ids_inv (release_id i ch)"
  using assms bitmap_get_set_bit [of "op_bitmap ch" i]
  by (auto simp: ids_free_def ids_all_def ids_inv_def release_id_def)

lemma alloc_op_fail:
  "ids_inv ch \<Longrightarrow> alloc_op ch = (None, ch') \<Longrightarrow> ids_free ch' \<subseteq> ids_free ch \<and> ids_all ch' = ids_all ch \<and> ids_inv ch'"
  using alloc_op_None [of ch ch'] by simp

interpretation opp: id_pool ids_inv ids_free ids_all alloc_op release_id
proof unfold_locales
  show "ids_free s \<subseteq> ids_all s" for s by (auto simp: ids_free_def ids_all_def)
qed (use alloc_op_None alloc_op_fail alloc_op_pool release_id_pool in blast)+

section \<open>The invariant\<close>

definition ch_inv :: "io_channel \<Rightarrow> bool" where
  "ch_inv ch \<longleftrightarrow> ids_inv ch \<and> bitmap_cap (op_bitmap ch) = queue_depth ch \<and> length (op_ctxs ch) = queue_depth ch \<and>
     (session_type ch = LOCAL \<or> session_type ch = REMOTE) \<and>
     (\<forall>i < queue_depth ch. bitmap_get_bit (op_bitmap ch) i \<longleftrightarrow> op_st (op_ctxs ch ! i) = OP_NEW) \<and>
     (\<forall>i < queue_depth ch. op_st (op_ctxs ch ! i) \<noteq> OP_NEW \<longrightarrow> op_id_of (op_ctxs ch ! i) = i)"

lemma ch_invD:
  assumes "ch_inv ch"
  shows "ids_inv ch" "bitmap_cap (op_bitmap ch) = queue_depth ch" "length (op_ctxs ch) = queue_depth ch"
    "session_type ch = LOCAL \<or> session_type ch = REMOTE"
    "\<And>i. i < queue_depth ch \<Longrightarrow> bitmap_get_bit (op_bitmap ch) i \<longleftrightarrow> op_st (op_ctxs ch ! i) = OP_NEW"
    "\<And>i. i < queue_depth ch \<Longrightarrow> op_st (op_ctxs ch ! i) \<noteq> OP_NEW \<Longrightarrow> op_id_of (op_ctxs ch ! i) = i"
  using assms by (simp_all add: ch_inv_def)

text \<open>A table whose size is a multiple of 64, at most 2 ^ 31: the bitmap has no bits to spare.\<close>

lemma new_inv:
  assumes "qd \<noteq> 0" and "qd mod 64 = 0" and "qd < 2 ^ 31" and "st = LOCAL \<or> st = REMOTE"
    and "get_io_channel st qd (Some s) = Some ch"
  shows "ch_inv ch"
proof -
  have ch: "ch = (io_channel_new qd qd)\<lparr> session_type := st, ch_session := s \<rparr>"
    using assms(5) by (simp add: get_io_channel_def)
  have c: "bitmap_cap (bitmap_constructor qd True) = qd"
    using assms(2,3) by (simp add: bitmap_constructor_cap) presburger
  show ?thesis
    using assms(1,4) c by (auto simp: ch_inv_def ch io_channel_new_def ids_inv_def op_zero_def bitmap_constructor_get)
qed

text \<open>Changing one operation without freeing or taking its descriptor.\<close>

lemma set_op_inv:
  assumes "ch_inv ch" and "i < queue_depth ch" and "op_st (op_ctxs ch ! i) \<noteq> OP_NEW" and "op_st op \<noteq> OP_NEW"
    and "op_id_of op = i"
  shows "ch_inv (set_op i op ch)"
  using assms by (auto simp: ch_inv_def set_op_def ids_inv_def nth_list_update)

lemma set_op_frame [simp]:
  "queue_depth (set_op i op ch) = queue_depth ch" "op_bitmap (set_op i op ch) = op_bitmap ch"
  "session_type (set_op i op ch) = session_type ch" "cpl_nr (set_op i op ch) = cpl_nr ch"
  "cpl_ops (set_op i op ch) = cpl_ops ch" "reap_depth (set_op i op ch) = reap_depth ch"
  "op_ctxs (set_op i op ch) = (op_ctxs ch)[i := op]" "ch_seq (set_op i op ch) = ch_seq ch"
  "bitmap_hint (set_op i op ch) = bitmap_hint ch" "ch_session (set_op i op ch) = ch_session ch"
  by (simp_all add: set_op_def)

lemma cpl_inv: "ch_inv (ch\<lparr> cpl_ops := c \<rparr>) \<longleftrightarrow> ch_inv ch" "ch_inv (ch\<lparr> cpl_nr := n \<rparr>) \<longleftrightarrow> ch_inv ch"
  by (simp_all add: ch_inv_def ids_inv_def)

text \<open>How the state of an operation may change in one step.\<close>

definition st_advances :: "op_state \<Rightarrow> op_state \<Rightarrow> bool" where
  "st_advances a b \<longleftrightarrow> a \<le> b \<or> a = OP_END \<and> b = OP_NEW"

definition ops_advance :: "io_channel \<Rightarrow> io_channel \<Rightarrow> bool" where
  "ops_advance ch ch' \<longleftrightarrow> queue_depth ch' = queue_depth ch \<and>
     (\<forall>i < queue_depth ch. st_advances (op_st (op_ctxs ch ! i)) (op_st (op_ctxs ch' ! i)))"

lemma st_refl [simp]: "st_advances a a" by (simp add: st_advances_def)

lemma advance_one:
  assumes "length (op_ctxs ch) = queue_depth ch" and "queue_depth ch' = queue_depth ch"
    and "op_ctxs ch' = (op_ctxs ch)[i := op]" and "i < queue_depth ch \<Longrightarrow> st_advances (op_st (op_ctxs ch ! i)) (op_st op)"
  shows "ops_advance ch ch'"
proof -
  have "st_advances (op_st (op_ctxs ch ! j)) (op_st (op_ctxs ch' ! j))" if "j < queue_depth ch" for j
    using assms that by (cases "j = i") simp_all
  then show ?thesis using assms(2) by (simp add: ops_advance_def)
qed

section \<open>Operations\<close>

lemma prepare_shape:
  assumes "ch_inv ch" and "ms \<le> 255" and "io_prepare_op_common ch ty ms meta dl data = Done (r, ch')"
  shows "(r = - ENOMEM \<and> ch' = ch \<and> ids_free ch = {}) \<or>
    (\<exists>i h. r = int i \<and> i < queue_depth ch \<and> op_st (op_ctxs ch ! i) = OP_NEW \<and> ch_inv ch' \<and> ops_advance ch ch' \<and>
      h = \<lparr> h_seq = ch_seq ch, h_type = ty mod 256, h_status = 0, h_magic = session_type ch, h_meta_length = ms,
            h_data_length = dl, h_slo = 0, h_rsv = (i, 0) \<rparr> \<and>
      op_ctxs ch' = (op_ctxs ch)[i := (op_ctxs ch ! i)\<lparr> op_msg := message_state_reset ((op_msg (op_ctxs ch ! i))\<lparr>
        m_header := h, data_buffer := data, meta_buffer := meta, priv_ctx := ch_session ch \<rparr>), op_st := OP_WAITING_SUBMIT \<rparr>] \<and>
      session_type ch' = session_type ch \<and> cpl_nr ch' = cpl_nr ch \<and> cpl_ops ch' = cpl_ops ch \<and>
      reap_depth ch' = reap_depth ch \<and> queue_depth ch' = queue_depth ch)"
proof -
  note inv = ch_invD [OF assms(1)]
  obtain r0 ch1 where a: "alloc_op ch = (r0, ch1)" by fastforce
  show ?thesis
  proof (cases r0)
    case None
    then show ?thesis using alloc_op_None [OF inv(1)] a assms(3) by (simp add: io_prepare_op_common_def)
  next
    case (Some i)
    note al = alloc_op_Some [OF inv(1) a [unfolded Some]]
    have i: "i < queue_depth ch" using al(1) inv(2) by simp
    have ch1: "length (op_ctxs ch1) = queue_depth ch" "session_type ch1 = session_type ch" "op_ctxs ch1 = op_ctxs ch"
      "ch_seq ch1 = ch_seq ch" "ch_session ch1 = ch_session ch"
      using inv(3) by (simp_all add: al(3))
    let ?h = "\<lparr> h_seq = ch_seq ch, h_type = ty mod 256, h_status = 0, h_magic = session_type ch, h_meta_length = ms,
            h_data_length = dl, h_slo = 0, h_rsv = (i, 0) \<rparr>"
    let ?op = "(op_ctxs ch ! i)\<lparr> op_msg := message_state_reset ((op_msg (op_ctxs ch ! i))\<lparr>
        m_header := ?h, data_buffer := data, meta_buffer := meta, priv_ctx := ch_session ch \<rparr>), op_st := OP_WAITING_SUBMIT \<rparr>"
    have g: "get_op ch1 i = Done (op_ctxs ch ! i)" using i ch1 by (simp add: get_op_def)
    have ty: "\<not> (session_type ch1 \<noteq> LOCAL \<and> session_type ch1 \<noteq> REMOTE)" using inv(4) ch1 by auto
    have e: "r = int i" "ch' = set_op i ?op (ch1\<lparr> ch_seq := (ch_seq ch + 1) mod 2 ^ 64 \<rparr>)"
      using assms(2,3) a Some ty by (auto simp: io_prepare_op_common_def g ch1 Let_def)
    have f: "op_ctxs ch' = (op_ctxs ch)[i := ?op]" "queue_depth ch' = queue_depth ch" "session_type ch' = session_type ch"
      "cpl_nr ch' = cpl_nr ch" "cpl_ops ch' = cpl_ops ch" "reap_depth ch' = reap_depth ch"
      "op_bitmap ch' = bitmap_clr_bit (op_bitmap ch) i" "bitmap_hint ch' = i + 1"
      by (simp_all add: e al(3))
    have new: "op_st (op_ctxs ch ! i) = OP_NEW" using inv(5) [OF i] al(2) by simp
    have bits: "bitmap_get_bit (op_bitmap ch') j \<longleftrightarrow> j \<noteq> i \<and> bitmap_get_bit (op_bitmap ch) j" for j
      using bitmap_get_clr_bit [of "op_bitmap ch" i j] inv(1) al(1) by (simp add: f ids_inv_def)
    have "op_id_of ?op = i" by (simp add: op_id_of_def message_state_reset_def)
    then have "ch_inv ch'"
      using assms(1) bits i al(1) by (auto simp: ch_inv_def ids_inv_def f nth_list_update)
    moreover have "ops_advance ch ch'"
      by (rule advance_one [OF inv(3) f(2,1)]) (simp add: new st_advances_def less_eq_op_state_def)
    ultimately show ?thesis using e(1) i new f by auto
  qed
qed

lemma prepare_done:
  assumes "ch_inv ch" and "ms \<le> 255"
  shows "\<exists>r ch'. io_prepare_op_common ch ty ms meta dl data = Done (r, ch')"
proof -
  note inv = ch_invD [OF assms(1)]
  obtain r0 ch1 where a: "alloc_op ch = (r0, ch1)" by fastforce
  show ?thesis
  proof (cases r0)
    case None
    then show ?thesis by (simp add: io_prepare_op_common_def a)
  next
    case (Some i)
    note al = alloc_op_Some [OF inv(1) a [unfolded Some]]
    have "get_op ch1 i = Done (op_ctxs ch ! i)" using al(1) inv(2,3) by (simp add: get_op_def al(3))
    then show ?thesis using assms(2) by (simp add: io_prepare_op_common_def a Some Let_def)
  qed
qed

lemma free_op_inv:
  assumes "ch_inv ch" and "i < queue_depth ch" and "free_op i ch = Done ch'"
  shows "ch_inv ch' \<and> ops_advance ch ch' \<and> op_st (op_ctxs ch ! i) = OP_END \<and> op_st (op_ctxs ch' ! i) = OP_NEW"
proof -
  note inv = ch_invD [OF assms(1)]
  let ?op = "op_ctxs ch ! i"
  have st: "op_st ?op = OP_END" and ch': "ch' = set_op i (?op\<lparr> op_st := OP_NEW \<rparr>) (release_id (op_id_of ?op) ch)"
    using assms(2,3) inv(3) by (auto simp: free_op_def get_op_def split: if_splits)
  have id: "op_id_of ?op = i" using inv(6) [OF assms(2)] st by simp
  have f: "op_ctxs ch' = (op_ctxs ch)[i := ?op\<lparr> op_st := OP_NEW \<rparr>]" "queue_depth ch' = queue_depth ch"
    "session_type ch' = session_type ch" "op_bitmap ch' = bitmap_set_bit (op_bitmap ch) i" "bitmap_hint ch' \<le> bitmap_hint ch"
    by (simp_all add: ch' id release_id_def)
  have bits: "bitmap_get_bit (op_bitmap ch') j \<longleftrightarrow> j = i \<or> bitmap_get_bit (op_bitmap ch) j" for j
    using bitmap_get_set_bit [of "op_bitmap ch" i j] inv(1,2) assms(2) by (simp add: f ids_inv_def)
  have "ch_inv ch'"
    using assms(1,2) bits order_trans [OF f(5)] by (auto simp: ch_inv_def ids_inv_def f(1-4) nth_list_update op_id_of_def)
  moreover have "ops_advance ch ch'"
    by (rule advance_one [OF inv(3) f(2,1)]) (simp add: st st_advances_def)
  ultimately show ?thesis using st assms(2) inv(3) by (simp add: f)
qed

lemma destory_inv:
  assumes "ch_inv ch" and "op_destory ch j = Done (r, ch')"
  shows "ch_inv ch' \<and> ops_advance ch ch'"
proof (cases "0 \<le> j \<and> j < int (queue_depth ch)")
  case True
  then have i: "nat j < queue_depth ch" by auto
  have "ch' = ch \<or> free_op (nat j) ch = Done ch'"
    using assms(2) True i ch_invD(3) [OF assms(1)]
    by (auto simp: op_destory_def get_op_def run_bind_Done split: op_state.splits if_splits)
  then show ?thesis using assms(1) free_op_inv [OF assms(1) i] by (auto simp: ops_advance_def)
next
  case False
  then show ?thesis using assms by (auto simp: op_destory_def ops_advance_def)
qed

lemma claim_inv:
  assumes "ch_inv ch" and "op_claim_result ch j = (r, ch')"
  shows "ch_inv ch' \<and> ops_advance ch ch'"
proof (cases "0 \<le> j \<and> j < int (queue_depth ch) \<and> op_st (op_ctxs ch ! nat j) = OP_COMPLETED")
  case True
  then have i: "nat j < queue_depth ch" "op_st (op_ctxs ch ! nat j) = OP_COMPLETED" by auto
  let ?op = "(op_ctxs ch ! nat j)\<lparr> op_st := OP_END \<rparr>"
  have ch': "ch' = set_op (nat j) ?op ch" using assms(2) True by (simp add: op_claim_result_def Let_def)
  have "op_id_of ?op = nat j" using ch_invD(6) [OF assms(1) i(1)] i(2) by (simp add: op_id_of_def)
  then have "ch_inv ch'" using set_op_inv [OF assms(1) i(1)] i(2) by (simp add: ch')
  moreover have "ops_advance ch ch'"
    by (rule advance_one [OF ch_invD(3) [OF assms(1)], where i = "nat j" and op = ?op])
      (simp_all add: ch' i st_advances_def less_eq_op_state_def)
  ultimately show ?thesis ..
next
  case False
  then have "ch' = ch" using assms(2) unfolding op_claim_result_def by (metis prod.inject)
  then show ?thesis using assms(1) by (simp add: ops_advance_def)
qed


text \<open>Submitting.\<close>

lemma check_ops_ok:
  assumes "check_ops ch ops = Done True" and "length (op_ctxs ch) = queue_depth ch" and "opd \<in> set ops"
  shows "0 \<le> opd \<and> nat opd < queue_depth ch \<and> op_st (op_ctxs ch ! nat opd) = OP_WAITING_SUBMIT"
  using assms
proof (induction ops)
  case (Cons o' ops)
  obtain ok where c: "check_opd ch o' = Done ok" "(if ok then check_ops ch ops else Done False) = Done True"
    using Cons.prems(1) by (auto simp: run_bind_Done)
  then have "ok" "check_ops ch ops = Done True" by (auto split: if_splits)
  moreover from this c(1) Cons.prems(2)
  have "0 \<le> o' \<and> nat o' < queue_depth ch \<and> op_st (op_ctxs ch ! nat o') = OP_WAITING_SUBMIT"
    by (auto simp: check_opd_def get_op_def run_bind_Done split: if_splits)
  ultimately show ?case using Cons by auto
qed simp

lemma mark_fold:
  assumes "length (op_ctxs ch) = queue_depth ch" and "\<forall>opd \<in> set ops. nat opd < queue_depth ch"
  shows "\<exists>xs. foldl mark_in_progress ch ops = ch\<lparr> op_ctxs := xs \<rparr> \<and> length xs = queue_depth ch \<and>
    (\<forall>i < queue_depth ch. xs ! i = (if i \<in> nat ` set ops then (op_ctxs ch ! i)\<lparr> op_st := OP_IN_PROGRESS \<rparr> else op_ctxs ch ! i))"
  using assms
proof (induction ops arbitrary: ch)
  case Nil
  then show ?case by (intro exI [of _ "op_ctxs ch"]) simp
next
  case (Cons opd ops)
  let ?ch = "mark_in_progress ch opd"
  have l: "length (op_ctxs ?ch) = queue_depth ?ch" "queue_depth ?ch = queue_depth ch" using Cons.prems(1) by (simp_all add: mark_in_progress_def)
  obtain xs where x: "foldl mark_in_progress ?ch ops = ?ch\<lparr> op_ctxs := xs \<rparr>" "length xs = queue_depth ch"
    "\<forall>i < queue_depth ch. xs ! i = (if i \<in> nat ` set ops then (op_ctxs ?ch ! i)\<lparr> op_st := OP_IN_PROGRESS \<rparr> else op_ctxs ?ch ! i)"
    using Cons.IH [OF l(1)] Cons.prems(2) l(2) by auto
  have "foldl mark_in_progress ch (opd # ops) = ch\<lparr> op_ctxs := xs \<rparr>" using x(1) by (simp add: mark_in_progress_def)
  moreover have "xs ! i = (if i \<in> nat ` set (opd # ops) then (op_ctxs ch ! i)\<lparr> op_st := OP_IN_PROGRESS \<rparr> else op_ctxs ch ! i)"
    if "i < queue_depth ch" for i
    using x(3) that Cons.prems by (auto simp: mark_in_progress_def nth_list_update)
  ultimately show ?case using x(2) by blast
qed

lemma submit_shape:
  assumes "ch_inv ch" and "io_submit_to_channel ch ops rcs = Done (r, ch', sent)"
  shows "(ch' = ch \<and> sent = [] \<and> r = - EINVAL) \<or>
    (r = 0 \<and> (\<exists>xs. ch' = ch\<lparr> op_ctxs := xs \<rparr> \<and> length xs = queue_depth ch \<and>
      (\<forall>i < queue_depth ch. xs ! i = (if i \<in> nat ` set ops then (op_ctxs ch ! i)\<lparr> op_st := OP_IN_PROGRESS \<rparr> else op_ctxs ch ! i))) \<and>
      (\<forall>opd \<in> set ops. 0 \<le> opd \<and> nat opd < queue_depth ch \<and> op_st (op_ctxs ch ! nat opd) = OP_WAITING_SUBMIT) \<and>
      sent = map (\<lambda>opd. op_msg (op_ctxs ch ! nat opd)) ops)"
proof -
  obtain ok where c: "check_ops ch ops = Done ok" using assms(2) by (auto simp: io_submit_to_channel_def run_bind_Done)
  show ?thesis
  proof (cases ok)
    case False
    then show ?thesis using assms(2) c by (simp add: io_submit_to_channel_def)
  next
    case True
    then have "check_ops ch ops = Done True" using c by simp
    note ok = check_ops_ok [OF this ch_invD(3) [OF assms(1)]]
    have r: "r = 0" "ch' = foldl mark_in_progress ch ops" "sent = map (\<lambda>opd. op_msg (op_ctxs ch ! nat opd)) ops"
      using assms(2) c True by (auto simp: io_submit_to_channel_def Let_def run_bind_Done split: if_splits)
    show ?thesis using mark_fold [OF ch_invD(3) [OF assms(1)], of ops] ok r by auto
  qed
qed

lemma submit_inv:
  assumes "ch_inv ch" and "io_submit_to_channel ch ops rcs = Done (r, ch', sent)"
  shows "ch_inv ch' \<and> ops_advance ch ch'"
proof (cases "r = 0")
  case False
  then show ?thesis using submit_shape [OF assms] assms(1) by (auto simp: ops_advance_def)
next
  case True
  then obtain xs where x: "ch' = ch\<lparr> op_ctxs := xs \<rparr>" "length xs = queue_depth ch"
    "\<And>i. i < queue_depth ch \<Longrightarrow> xs ! i = (if i \<in> nat ` set ops then (op_ctxs ch ! i)\<lparr> op_st := OP_IN_PROGRESS \<rparr> else op_ctxs ch ! i)"
    and w: "\<And>opd. opd \<in> set ops \<Longrightarrow> op_st (op_ctxs ch ! nat opd) = OP_WAITING_SUBMIT"
    using submit_shape [OF assms] by (auto simp: EINVAL_def)
  have st: "op_st (xs ! i) = (if i \<in> nat ` set ops then OP_IN_PROGRESS else op_st (op_ctxs ch ! i))"
    "op_id_of (xs ! i) = op_id_of (op_ctxs ch ! i)"
    "i \<in> nat ` set ops \<Longrightarrow> op_st (op_ctxs ch ! i) = OP_WAITING_SUBMIT" if "i < queue_depth ch" for i
    using x(3) [OF that] w by (auto simp: op_id_of_def)
  have "ch_inv ch'" using assms(1) st x(2) by (auto simp: ch_inv_def ids_inv_def x(1))
  moreover have "ops_advance ch ch'"
    using st by (auto simp: ops_advance_def x(1) st_advances_def less_eq_op_state_def)
  ultimately show ?thesis ..
qed

text \<open>
  Responses.  A server answers each operation in progress once.
\<close>

definition resp_id :: "message \<Rightarrow> nat" where "resp_id m = fst (h_rsv (m_header m))"

definition answers :: "io_channel \<Rightarrow> message list \<Rightarrow> bool" where
  "answers ch ms \<longleftrightarrow> distinct (map resp_id ms) \<and>
     (\<forall>m \<in> set ms. resp_id m < queue_depth ch \<and> op_st (op_ctxs ch ! resp_id m) = OP_IN_PROGRESS)"

lemma recv_shape:
  assumes "ch_inv ch" and "resp_id m < queue_depth ch" and "op_st (op_ctxs ch ! resp_id m) = OP_IN_PROGRESS"
    and "on_recv_msg m ch = Done ch'"
  shows "ch_inv ch'" "queue_depth ch' = queue_depth ch" "cpl_nr ch' = cpl_nr ch + 1" "reap_depth ch' = reap_depth ch"
    "op_ctxs ch' = (op_ctxs ch)[resp_id m := (op_ctxs ch ! resp_id m)\<lparr> op_st := OP_COMPLETED, op_msg := m \<rparr>]"
    "cpl_ops ch' = (cpl_ops ch)[cpl_nr ch := resp_id m]" "session_type ch' = session_type ch" "cpl_nr ch < length (cpl_ops ch)"
proof -
  let ?op = "(op_ctxs ch ! resp_id m)\<lparr> op_st := OP_COMPLETED, op_msg := m \<rparr>"
  have ch': "ch' = (set_op (resp_id m) ?op ch)\<lparr> cpl_ops := (cpl_ops ch)[cpl_nr ch := resp_id m], cpl_nr := cpl_nr ch + 1 \<rparr>"
    and len: "cpl_nr ch < length (cpl_ops ch)"
    using assms(2,4) ch_invD(3) [OF assms(1)]
    by (auto simp: on_recv_msg_def Let_def get_op_def run_bind_Done simp flip: resp_id_def split: if_splits)
  have "op_id_of ?op = resp_id m" by (simp add: op_id_of_def resp_id_def)
  then have "ch_inv (set_op (resp_id m) ?op ch)" using set_op_inv [OF assms(1,2)] assms(3) by simp
  then show "ch_inv ch'" by (simp add: ch' cpl_inv)
  show "queue_depth ch' = queue_depth ch" "cpl_nr ch' = cpl_nr ch + 1" "reap_depth ch' = reap_depth ch"
    "op_ctxs ch' = (op_ctxs ch)[resp_id m := ?op]" "cpl_ops ch' = (cpl_ops ch)[cpl_nr ch := resp_id m]"
    "session_type ch' = session_type ch" "cpl_nr ch < length (cpl_ops ch)"
    using len by (simp_all add: ch')
qed


lemma recvs_shape:
  assumes "ch_inv ch" and "answers ch ms" and "on_recv_msgs ms ch = Done ch'"
  shows "ch_inv ch' \<and> ops_advance ch ch' \<and> queue_depth ch' = queue_depth ch \<and> cpl_nr ch' = cpl_nr ch + length ms"
  using assms
proof (induction ms arbitrary: ch)
  case Nil
  then show ?case by (simp add: ops_advance_def)
next
  case (Cons m ms)
  have a: "resp_id m < queue_depth ch" "op_st (op_ctxs ch ! resp_id m) = OP_IN_PROGRESS" "resp_id m \<notin> resp_id ` set ms"
    using Cons.prems(2) by (simp_all add: answers_def)
  obtain ch1 where c: "on_recv_msg m ch = Done ch1" "on_recv_msgs ms ch1 = Done ch'"
    using Cons.prems(3) by (auto simp: run_bind_Done)
  note r = recv_shape [OF Cons.prems(1) a(1,2) c(1)]
  have ne: "resp_id x \<noteq> resp_id m" if "x \<in> set ms" for x using a(3) that by (metis imageI)
  have "resp_id x < queue_depth ch \<and> op_st (op_ctxs ch1 ! resp_id x) = OP_IN_PROGRESS" if "x \<in> set ms" for x
    using Cons.prems(2) ne [OF that] that by (simp add: answers_def r)
  then have "answers ch1 ms" using Cons.prems(2) by (simp add: answers_def r)
  note ih = Cons.IH [OF r(1) this c(2)]
  have "st_advances (op_st (op_ctxs ch ! i)) (op_st (op_ctxs ch' ! i))" if "i < queue_depth ch" for i
  proof (cases "i = resp_id m")
    case True
    then have "op_st (op_ctxs ch1 ! i) = OP_COMPLETED"
      using a(1) ch_invD(3) [OF Cons.prems(1)] by (simp add: r)
    then have "OP_COMPLETED \<le> op_st (op_ctxs ch' ! i)"
      using ih that r(2) by (auto simp: ops_advance_def st_advances_def)
    then show ?thesis using a(2) True by (auto simp: st_advances_def less_eq_op_state_def)
  next
    case False
    then have "op_ctxs ch1 ! i = op_ctxs ch ! i" by (simp add: r)
    then show ?thesis using ih that r(2) by (metis ops_advance_def)
  qed
  then show ?case using ih r by (simp add: ops_advance_def)
qed

lemma on_recv_append:
  "on_recv_msgs (ms @ ms') ch = run_bind (on_recv_msgs ms ch) (on_recv_msgs ms')"
proof (induction ms arbitrary: ch)
  case (Cons m ms)
  then show ?case by (cases "on_recv_msg m ch") simp_all
qed simp

lemma poll_wait_recv:
  "poll_wait mn n rc retry waits ch = Done ch' \<Longrightarrow> \<exists>k. on_recv_msgs (concat (take k waits)) ch = Done ch'"
proof (induction mn n rc retry waits ch rule: poll_wait.induct)
  case (1 mn n rc retry waits ch)
  show ?case
  proof (cases "mn \<noteq> 0 \<and> n < mn \<or> rc = 0 \<and> retry")
    case False
    then show ?thesis using 1(2) by (subst (asm) poll_wait.simps) (auto intro: exI [of _ 0])
  next
    case True
    then obtain ms rest ch1 where w: "waits = ms # rest" "on_recv_msgs ms ch = Done ch1"
      "poll_wait mn (n + int (length ms)) (int (length ms)) (if mn \<noteq> 0 \<and> n < mn then retry else False) rest ch1 = Done ch'"
      using 1(2) by (subst (asm) poll_wait.simps) (auto simp: run_bind_Done split: list.splits)
    obtain k where "on_recv_msgs (concat (take k rest)) ch1 = Done ch'"
      using 1(1) [OF True w(1,3)] by blast
    then have "on_recv_msgs (concat (take (Suc k) waits)) ch = Done ch'"
      by (simp add: w(1,2) on_recv_append)
    then show ?thesis by blast
  qed
qed

lemma answers_take: "answers ch (concat ws) \<Longrightarrow> answers ch (concat (take k ws))"
proof -
  assume a: "answers ch (concat ws)"
  have "concat ws = concat (take k ws) @ concat (drop k ws)" by (simp flip: concat_append)
  then show ?thesis using a unfolding answers_def by (metis UnI1 distinct_append map_append set_append)
qed

lemma poll_inv:
  assumes "ch_inv ch" and "answers ch (concat waits)" and "io_poll_channel ch mn mx waits = Done (r, ids, ch')"
  shows "ch_inv ch' \<and> ops_advance ch ch'"
proof (cases "mx < mn")
  case True
  then show ?thesis using assms(1,3) by (simp add: io_poll_channel_def ops_advance_def)
next
  case False
  then obtain ch1 n where c: "(if cpl_nr ch = 0 then poll_wait mn 0 0 True waits ch else Done ch) = Done ch1"
    "ch' = ch1\<lparr> cpl_nr := n \<rparr>"
    using assms(3) by (auto simp: io_poll_channel_def Let_def run_bind_Done)
  have "ch_inv ch1 \<and> ops_advance ch ch1"
  proof (cases "cpl_nr ch = 0")
    case True
    then obtain k where "on_recv_msgs (concat (take k waits)) ch = Done ch1" using c(1) poll_wait_recv by fastforce
    then show ?thesis using recvs_shape [OF assms(1) answers_take [OF assms(2)]] by blast
  next
    case False
    then show ?thesis using c(1) assms(1) by (simp add: ops_advance_def)
  qed
  then show ?thesis by (simp add: c(2) cpl_inv ops_advance_def)
qed

section \<open>Steps\<close>

inductive ch_step :: "io_channel \<Rightarrow> io_channel \<Rightarrow> bool" where
  ch_prepare: "ms \<le> 255 \<Longrightarrow> io_prepare_op_common ch ty ms meta dl data = Done (r, ch') \<Longrightarrow> ch_step ch ch'"
| ch_submit: "io_submit_to_channel ch ops rcs = Done (r, ch', sent) \<Longrightarrow> ch_step ch ch'"
| ch_poll: "answers ch (concat waits) \<Longrightarrow> io_poll_channel ch mn mx waits = Done (r, ids, ch') \<Longrightarrow> ch_step ch ch'"
| ch_claim: "op_claim_result ch j = (res, ch') \<Longrightarrow> ch_step ch ch'"
| ch_destory: "op_destory ch j = Done (r, ch') \<Longrightarrow> ch_step ch ch'"

lemma ch_step_inv: "ch_step ch ch' \<Longrightarrow> ch_inv ch \<Longrightarrow> ch_inv ch' \<and> ops_advance ch ch'"
proof (induction rule: ch_step.induct)
  case (ch_prepare ms ch ty meta dl data r ch')
  then show ?case using prepare_shape [OF ch_prepare(3,1,2)] by (auto simp: ops_advance_def)
next
  case (ch_submit ch ops rcs r ch' sent)
  then show ?case using submit_inv by blast
next
  case (ch_poll ch waits mn mx r ids ch')
  show ?case by (rule poll_inv [OF ch_poll(3,1,2)])
next
  case (ch_claim ch j res ch')
  show ?case by (rule claim_inv [OF ch_claim(2,1)])
next
  case (ch_destory ch j r ch')
  show ?case by (rule destory_inv [OF ch_destory(2,1)])
qed

inductive ch_reach :: "io_channel \<Rightarrow> io_channel \<Rightarrow> bool" for ch0 where
  ch_start: "ch_reach ch0 ch0"
| ch_next: "ch_reach ch0 ch \<Longrightarrow> ch_step ch ch' \<Longrightarrow> ch_reach ch0 ch'"

lemma ch_reach_inv: "ch_reach ch0 ch \<Longrightarrow> ch_inv ch0 \<Longrightarrow> ch_inv ch \<and> queue_depth ch = queue_depth ch0"
proof (induction rule: ch_reach.induct)
  case (ch_next ch ch')
  then show ?case using ch_step_inv [of ch ch'] by (auto simp: ops_advance_def)
qed simp

section \<open>Properties\<close>

text \<open>
  C16: The life of operations.  Start from a channel whose depth is a multiple of 64 and take
  any sequence of preparations, submissions, polls (of a server that answers what is in
  progress once), claims and destructions: a descriptor is free in the bitmap exactly when
  its operation is \<open>OP_NEW\<close>, an operation in use carries its own descriptor, and one more step
  never moves an operation backwards, except that a claimed one becomes free.
\<close>

theorem channel_lifecycle:
  assumes "get_io_channel st (64 * k) (Some s) = Some ch0" and "st = LOCAL \<or> st = REMOTE" and "0 < k" and "k < 2 ^ 25"
    and "ch_reach ch0 ch" and "i < 64 * k"
  shows "(bitmap_get_bit (op_bitmap ch) i \<longleftrightarrow> op_st (op_ctxs ch ! i) = OP_NEW) \<and>
    (op_st (op_ctxs ch ! i) \<noteq> OP_NEW \<longrightarrow> op_id_of (op_ctxs ch ! i) = i) \<and>
    (\<forall>ch'. ch_step ch ch' \<longrightarrow> op_st (op_ctxs ch ! i) \<le> op_st (op_ctxs ch' ! i) \<or>
       op_st (op_ctxs ch ! i) = OP_END \<and> op_st (op_ctxs ch' ! i) = OP_NEW)"
proof -
  have q: "queue_depth ch0 = 64 * k" using assms(1,3) by (auto simp: get_io_channel_def io_channel_new_def Let_def)
  have "ch_inv ch0" by (rule new_inv [OF _ _ _ assms(2,1)]) (use assms(3,4) in simp_all)
  from ch_reach_inv [OF assms(5) this] have inv: "ch_inv ch" and qd: "queue_depth ch = 64 * k" using q by simp_all
  have "ops_advance ch ch'" if "ch_step ch ch'" for ch' using ch_step_inv [OF that inv] by simp
  then show ?thesis using ch_invD(5,6) [OF inv, of i] assms(6) by (auto simp: ops_advance_def qd st_advances_def)
qed

text \<open>
  Descriptors are never shared and never lost: whatever sequence of allocations and
  releases, those held are distinct, none is free, and held and free together are the whole
  table.
\<close>

theorem descriptors_partition:
  assumes "get_io_channel st (64 * k) (Some s) = Some ch0" and "st = LOCAL \<or> st = REMOTE" and "0 < k" and "k < 2 ^ 25"
    and "opp.pool_run ch0 [] es = (ch, held)"
  shows "distinct held \<and> set held \<inter> ids_free ch = {} \<and> set held \<union> ids_free ch = {..<64 * k}"
proof -
  have "ch_inv ch0" by (rule new_inv [OF _ _ _ assms(2,1)]) (use assms(3,4) in simp_all)
  note inv = ch_invD [OF this]
  have q: "queue_depth ch0 = 64 * k" "op_ctxs ch0 = replicate (64 * k) op_zero"
    using assms(1,3) by (auto simp: get_io_channel_def io_channel_new_def Let_def)
  have f: "ids_free ch0 = {..<64 * k}" "ids_all ch0 = {..<64 * k}"
    using inv(2,5) q by (auto simp: ids_free_def ids_all_def op_zero_def)
  have "opp.pool_exact ch0 []" using inv(1) f by (simp add: opp.pool_exact_def opp.pool_held_def)
  from opp.pool_run_partition [OF this assms(5)] f show ?thesis by simp
qed


text \<open>A completed operation is claimed and destroyed.\<close>

lemma claim_destroy:
  assumes "ch_inv ch" and "i < queue_depth ch" and "op_st (op_ctxs ch ! i) = OP_COMPLETED" and "resp_id m = i"
    and "op_msg (op_ctxs ch ! i) = m"
  shows "\<exists>ch4 ch5. op_claim_result ch (int i) =
      (Some (message_get_status m, message_get_op m, data_buffer m, message_get_data_len m), ch4) \<and>
    op_destory ch4 (int i) = Done (0, ch5) \<and> ch_inv ch5 \<and> op_st (op_ctxs ch5 ! i) = OP_NEW"
proof -
  let ?op = "op_ctxs ch ! i"
  let ?ch4 = "set_op i (?op\<lparr> op_st := OP_END \<rparr>) ch"
  have l: "length (op_ctxs ch) = queue_depth ch" by (rule ch_invD(3) [OF assms(1)])
  have cl: "op_claim_result ch (int i) = (Some (message_get_status m, message_get_op m, data_buffer m, message_get_data_len m), ?ch4)"
    using assms(2,3,5) by (simp add: op_claim_result_def Let_def)
  have inv4: "ch_inv ?ch4" using claim_inv [OF assms(1) cl] by simp
  have o4: "op_ctxs ?ch4 ! i = ?op\<lparr> op_st := OP_END \<rparr>" "queue_depth ?ch4 = queue_depth ch" "length (op_ctxs ?ch4) = queue_depth ch"
    using assms(2) l by simp_all
  have b4: "\<not> bitmap_get_bit (op_bitmap ?ch4) i" using ch_invD(5) [OF inv4, of i] assms(2) o4 by simp
  have id4: "op_id_of (op_ctxs ?ch4 ! i) = i"
    unfolding o4(1) using assms(4,5) by (simp add: op_id_of_def resp_id_def)
  obtain ch5 where f: "free_op i ?ch4 = Done ch5"
    using assms(2) o4 b4 id4 by (simp add: free_op_def get_op_def)
  have de: "op_destory ?ch4 (int i) = Done (0, ch5)"
    using assms(2) o4 f by (simp add: op_destory_def get_op_def)
  have "i < queue_depth ?ch4" using assms(2) o4(2) by simp
  from free_op_inv [OF inv4 this f] show ?thesis using cl de by blast
qed

lemma op_roundtrip_msg:
  assumes "ch_inv ch" and "session_type ch = LOCAL" and "cpl_nr ch = 0" and "0 < reap_depth ch"
    and "reap_depth ch < 2 ^ 31" and "length (cpl_ops ch) = reap_depth ch" and "ms \<le> 255"
    and "io_prepare_op_common ch ty ms meta dl data = Done (int i, ch1)"
    and "meta_buffer m = None" and "resp_id m = i" and "message_get_seq m = ch_seq ch" and "message_get_op m = ty mod 256"
  shows "\<exists>msg ch2 ch3 ch4 ch5. io_submit_to_channel ch1 [int i] [] = Done (0, ch2, [msg]) \<and>
    m_header msg = \<lparr> h_seq = ch_seq ch, h_type = ty mod 256, h_status = 0, h_magic = LOCAL, h_meta_length = ms,
      h_data_length = dl, h_slo = 0, h_rsv = (i, 0) \<rparr> \<and> meta_buffer msg = meta \<and> data_buffer msg = data \<and> priv_ctx msg = ch_session ch \<and>
    io_poll_channel ch2 1 1 [[m]] = Done (1, [i], ch3) \<and>
    op_claim_result ch3 (int i) = (Some (message_get_status m, message_get_op m, data_buffer m, message_get_data_len m), ch4) \<and>
    op_destory ch4 (int i) = Done (0, ch5) \<and> ch_inv ch5 \<and> op_st (op_ctxs ch5 ! i) = OP_NEW"
proof -
  let ?h = "\<lparr> h_seq = ch_seq ch, h_type = ty mod 256, h_status = 0, h_magic = session_type ch, h_meta_length = ms,
            h_data_length = dl, h_slo = 0, h_rsv = (i, 0) \<rparr>"
  let ?m0 = "message_state_reset ((op_msg (op_ctxs ch ! i))\<lparr> m_header := ?h, data_buffer := data, meta_buffer := meta,
     priv_ctx := ch_session ch \<rparr>)"
  have p: "i < queue_depth ch" "ch_inv ch1" "op_ctxs ch1 = (op_ctxs ch)[i := (op_ctxs ch ! i)\<lparr> op_msg := ?m0, op_st := OP_WAITING_SUBMIT \<rparr>]"
    "session_type ch1 = LOCAL" "cpl_nr ch1 = 0" "cpl_ops ch1 = cpl_ops ch" "reap_depth ch1 = reap_depth ch"
    "queue_depth ch1 = queue_depth ch"
    using prepare_shape [OF assms(1,7,8)] assms(2,3) by (auto simp: ENOMEM_def)
  have l: "length (op_ctxs ch) = queue_depth ch" by (rule ch_invD(3) [OF assms(1)])
  let ?ch2 = "mark_in_progress ch1 (int i)"
  have o1: "op_ctxs ch1 ! i = (op_ctxs ch ! i)\<lparr> op_msg := ?m0, op_st := OP_WAITING_SUBMIT \<rparr>" using p(1,3) l by simp
  have s: "io_submit_to_channel ch1 [int i] [] = Done (0, ?ch2, [?m0])"
    using p(1,8) l by (simp add: io_submit_to_channel_def check_opd_def get_op_def p(3,4) LOCAL_def REMOTE_def)
  have inv2: "ch_inv ?ch2" using submit_inv [OF p(2) s] by simp
  have c2: "op_ctxs ?ch2 ! i = (op_ctxs ch ! i)\<lparr> op_msg := ?m0, op_st := OP_IN_PROGRESS \<rparr>" "queue_depth ?ch2 = queue_depth ch"
    "cpl_nr ?ch2 = 0" "cpl_ops ?ch2 = cpl_ops ch" "reap_depth ?ch2 = reap_depth ch" "length (op_ctxs ?ch2) = queue_depth ch"
    using p l o1 by (simp_all add: mark_in_progress_def)
  let ?op3 = "(op_ctxs ch ! i)\<lparr> op_msg := m, op_st := OP_COMPLETED \<rparr>"
  obtain ch3' where r: "on_recv_msg m ?ch2 = Done ch3'"
    using p(1) assms(4,6,9-12) c2 by (simp add: on_recv_msg_def Let_def get_op_def resp_id_def message_state_reset_def
        message_get_seq_def message_get_op_def)
  have rs: "resp_id m < queue_depth ?ch2" "op_st (op_ctxs ?ch2 ! resp_id m) = OP_IN_PROGRESS"
    using p(1) c2 by (simp_all add: assms(10))
  note r3 = recv_shape [OF inv2 rs r, unfolded assms(10)]
  let ?ch3 = "ch3'\<lparr> cpl_nr := 0 \<rparr>"
  have o3: "op_ctxs ch3' ! i = ?op3" using p(1) c2 by (simp add: r3)
  have w: "poll_wait 1 0 0 True [[m]] ?ch2 = Done ch3'"
    by (subst poll_wait.simps) (simp add: r, subst poll_wait.simps, simp)
  have po: "io_poll_channel ?ch2 1 1 [[m]] = Done (1, [i], ?ch3)"
    using w assms(4,6,10) o3 c2 by (simp add: io_poll_channel_def r3 Let_def op_id_of_def resp_id_def min_def)
  have inv3: "ch_inv ?ch3" using r3(1) by (simp add: cpl_inv)
  have "i < queue_depth ?ch3" "op_st (op_ctxs ?ch3 ! i) = OP_COMPLETED" "op_msg (op_ctxs ?ch3 ! i) = m"
    using p(1) c2(2) o3 by (simp_all add: r3(2))
  then obtain ch4 ch5 where "op_claim_result ?ch3 (int i) =
      (Some (message_get_status m, message_get_op m, data_buffer m, message_get_data_len m), ch4) \<and>
    op_destory ch4 (int i) = Done (0, ch5) \<and> ch_inv ch5 \<and> op_st (op_ctxs ch5 ! i) = OP_NEW"
    using claim_destroy [OF inv3 _ _ assms(10)] by blast
  moreover have "m_header ?m0 = ?h \<and> meta_buffer ?m0 = meta \<and> data_buffer ?m0 = data \<and> priv_ctx ?m0 = ch_session ch"
    by (simp add: message_state_reset_def)
  ultimately show ?thesis using s po unfolding assms(2) by blast
qed

text \<open>
  C10: One operation from end to end.  On a local channel without pending completions, an
  operation that was prepared is submitted, its message carrying the channel's sequence
  number and the descriptor; when the response comes the poll reports the descriptor, the
  claim yields the response's status, operation and data, and destroying the operation
  frees the descriptor.
\<close>

theorem op_roundtrip:
  assumes "ch_inv ch" and "session_type ch = LOCAL" and "cpl_nr ch = 0" and "0 < reap_depth ch"
    and "reap_depth ch < 2 ^ 31" and "length (cpl_ops ch) = reap_depth ch" and "ms \<le> 255"
    and "io_prepare_op_common ch ty ms meta dl data = Done (int i, ch1)"
    and "meta_buffer m = None" and "resp_id m = i" and "message_get_seq m = ch_seq ch" and "message_get_op m = ty mod 256"
  shows "\<exists>msg ch2 ch3 ch4 ch5. io_submit_to_channel ch1 [int i] [] = Done (0, ch2, [msg]) \<and>
    message_get_seq msg = ch_seq ch \<and> resp_id msg = i \<and> meta_buffer msg = meta \<and> data_buffer msg = data \<and>
    io_poll_channel ch2 1 1 [[m]] = Done (1, [i], ch3) \<and>
    op_claim_result ch3 (int i) = (Some (message_get_status m, message_get_op m, data_buffer m, message_get_data_len m), ch4) \<and>
    op_destory ch4 (int i) = Done (0, ch5) \<and> ch_inv ch5 \<and> op_st (op_ctxs ch5 ! i) = OP_NEW"
proof -
  have seq: "message_get_seq msg = ch_seq ch \<and> resp_id msg = i"
    if "m_header msg = \<lparr> h_seq = ch_seq ch, h_type = ty mod 256, h_status = 0, h_magic = LOCAL, h_meta_length = ms,
      h_data_length = dl, h_slo = 0, h_rsv = (i, 0) \<rparr>" for msg
    using that by (simp add: message_get_seq_def resp_id_def)
  show ?thesis using op_roundtrip_msg [OF assms] seq by metis
qed

text \<open>
  Polling for fewer completions than there are goes wrong: the rest stays where it was
  while the count is reduced, so the next poll reports the same operations again and the last
  ones are never reported.
\<close>

theorem partial_poll_repeats:
  assumes "0 < k" and "k < cpl_nr ch" and "cpl_nr ch \<le> reap_depth ch" and "reap_depth ch < 2 ^ 31"
  shows "\<exists>ch1 ch2. io_poll_channel ch 0 (int k) w = Done (int k, map (\<lambda>j. op_id_of (op_ctxs ch ! (cpl_ops ch ! j))) [0..<k], ch1) \<and>
    io_poll_channel ch1 0 (int (cpl_nr ch - k)) w' = Done (int (cpl_nr ch - k),
      map (\<lambda>j. op_id_of (op_ctxs ch ! (cpl_ops ch ! j))) [0..<cpl_nr ch - k], ch2) \<and> cpl_nr ch2 = 0"
proof -
  let ?id = "\<lambda>j. op_id_of (op_ctxs ch ! (cpl_ops ch ! j))"
  have sh: "io_poll_channel c 0 (int n) w = Done (int n, map (\<lambda>j. op_id_of (op_ctxs c ! (cpl_ops c ! j))) [0..<n], c\<lparr> cpl_nr := cpl_nr c - n \<rparr>)"
    if "0 < n" "n \<le> cpl_nr c" "cpl_nr c \<le> reap_depth c" "reap_depth c < 2 ^ 31" for c n w
  proof -
    have m: "int n mod 2 ^ 32 = int n" using that by (intro mod_pos_pos_trivial) auto
    have k: "(if int n mod 2 ^ 32 < int (reap_depth c) then nat (int n) else reap_depth c) = n"
      unfolding m using that by auto
    have mn: "min (cpl_nr c) n = n" using that by simp
    show ?thesis unfolding io_poll_channel_def Let_def k mn using that(1,2) by simp
  qed
  let ?c = "ch\<lparr> cpl_nr := cpl_nr ch - k \<rparr>"
  have "io_poll_channel ch 0 (int k) w = Done (int k, map ?id [0..<k], ?c)"
    using sh [of k ch] assms by simp
  moreover have "io_poll_channel ?c 0 (int (cpl_nr ch - k)) w' = Done (int (cpl_nr ch - k), map ?id [0..<cpl_nr ch - k], ?c\<lparr> cpl_nr := 0 \<rparr>)"
    using sh [of "cpl_nr ch - k" ?c w'] assms by simp
  moreover have "cpl_nr (?c\<lparr> cpl_nr := 0 \<rparr>) = 0" by simp
  ultimately show ?thesis by blast
qed


section \<open>A table that is not a multiple of 64\<close>

fun io_creates :: "nat list \<Rightarrow> io_channel \<Rightarrow> io_channel run" where
  "io_creates [] ch = Done ch"
| "io_creates (oid # oids) ch = run_bind (io_create ch oid) (\<lambda>(r, ch'). io_creates oids ch')"

definition ids_used :: "io_channel \<Rightarrow> nat set" where
  "ids_used ch = ids_all ch - ids_free ch"

definition short_inv :: "nat \<Rightarrow> io_channel \<Rightarrow> bool" where
  "short_inv qd ch \<longleftrightarrow> ids_inv ch \<and> qd < bitmap_cap (op_bitmap ch) \<and> length (op_ctxs ch) = qd \<and>
     (session_type ch = LOCAL \<or> session_type ch = REMOTE) \<and> ids_used ch \<subseteq> {..<qd}"

lemma short_create:
  assumes "short_inv qd ch"
  shows "io_create ch oid = Wild \<or>
    (\<exists>r ch'. io_create ch oid = Done (r, ch') \<and> short_inv qd ch' \<and> card (ids_used ch') = Suc (card (ids_used ch)))"
proof -
  have inv: "ids_inv ch" "ids_used ch \<subseteq> {..<qd}" using assms by (simp_all add: short_inv_def)
  obtain r0 ch1 where a: "alloc_op ch = (r0, ch1)" by fastforce
  have "qd \<in> ids_free ch" using assms by (auto simp: short_inv_def ids_used_def ids_all_def)
  then obtain i where i: "r0 = Some i" using alloc_op_None [OF inv(1)] a by (cases r0) auto
  note al = alloc_op_Some [OF inv(1) a [unfolded i]]
  note pool = alloc_op_pool [OF inv(1) a [unfolded i]]
  show ?thesis
  proof (cases "i < qd")
    case False
    then have "get_op ch1 i = Wild" using assms by (simp add: get_op_def al(3) short_inv_def)
    then show ?thesis using assms by (simp add: io_create_def io_prepare_op_common_def a i al(3) short_inv_def Let_def)
  next
    case True
    then have g: "get_op ch1 i = Done (op_ctxs ch ! i)" using assms by (simp add: get_op_def al(3) short_inv_def)
    have "\<exists>op n. io_create ch oid = Done (int i, set_op i op (ch1\<lparr> ch_seq := n \<rparr>))"
      using assms g by (auto simp: io_create_def io_prepare_op_common_def a i al(3) short_inv_def Let_def)
    then obtain op n where c: "io_create ch oid = Done (int i, set_op i op (ch1\<lparr> ch_seq := n \<rparr>))" by blast
    let ?ch = "set_op i op (ch1\<lparr> ch_seq := n \<rparr>)"
    have f: "ids_free ?ch = ids_free ch1" "ids_all ?ch = ids_all ch1" "ids_inv ?ch = ids_inv ch1"
      by (simp_all add: ids_free_def ids_all_def ids_inv_def)
    have u: "ids_used ?ch = insert i (ids_used ch)" "i \<notin> ids_used ch"
      using pool opp.free_subset [OF inv(1)] by (auto simp: ids_used_def f)
    have "finite (ids_used ch)" by (simp add: ids_used_def ids_all_def)
    then have "card (ids_used ?ch) = Suc (card (ids_used ch))" using u by simp
    moreover have "short_inv qd ?ch"
    proof -
      have "ids_inv ?ch" using f(3) pool by simp
      moreover have "qd < bitmap_cap (op_bitmap ?ch)" "length (op_ctxs ?ch) = qd"
        "session_type ?ch = LOCAL \<or> session_type ?ch = REMOTE"
        using assms by (simp_all add: short_inv_def al(3))
      moreover have "ids_used ?ch \<subseteq> {..<qd}" using u(1) inv(2) True by simp
      ultimately show ?thesis by (simp add: short_inv_def)
    qed
    ultimately show ?thesis using c by blast
  qed
qed

lemma short_creates:
  "short_inv qd ch \<Longrightarrow> qd < card (ids_used ch) + length oids \<Longrightarrow> io_creates oids ch = Wild"
proof (induction oids arbitrary: ch)
  case Nil
  have "card (ids_used ch) \<le> card {..<qd}"
    using Nil(1) by (intro card_mono) (simp_all add: short_inv_def)
  then show ?case using Nil(2) by simp
next
  case (Cons oid oids)
  then show ?case using short_create [OF Cons.prems(1), of oid] by auto
qed

text \<open>
  The bitmap of descriptors is rounded up to a multiple of 64 but the table of
  operations is not: on a channel whose depth is not a multiple of 64, preparing more
  operations than the depth writes behind the table instead of reporting that there is none.
\<close>

theorem short_table_overruns:
  assumes "get_io_channel st qd (Some s) = Some ch0" and "st = LOCAL \<or> st = REMOTE"
    and "qd mod 64 \<noteq> 0" and "qd < 2 ^ 30" and "qd < length oids"
  shows "io_creates oids ch0 = Wild"
proof -
  have ch: "ch0 = (io_channel_new qd qd)\<lparr> session_type := st, ch_session := s \<rparr>" and q: "qd \<noteq> 0"
    using assms(1,3) by (auto simp: get_io_channel_def)
  have c: "qd < bitmap_cap (bitmap_constructor qd True)"
  proof -
    have "qd < (qd + 63) div 64 * 64" using assms(3) by presburger
    then show ?thesis using assms(4) by (simp add: bitmap_constructor_cap)
  qed
  have b: "op_bitmap ch0 = bitmap_constructor qd True" "bitmap_hint ch0 = 0" "length (op_ctxs ch0) = qd" "session_type ch0 = st"
    using q by (simp_all add: ch io_channel_new_def)
  have "ids_used ch0 = {}"
    by (auto simp: ids_used_def ids_all_def ids_free_def b bitmap_constructor_get)
  then have "short_inv qd ch0" "card (ids_used ch0) = 0"
    using assms(2) c by (simp_all add: short_inv_def ids_inv_def b)
  then show ?thesis using short_creates [of qd ch0 oids] assms(5) by simp
qed

lemma short_table_overruns_witness:
  "\<exists>ch0. get_io_channel LOCAL 4 (Some 7) = Some ch0 \<and> io_creates [1, 2, 3, 4, 5] ch0 = Wild"
proof -
  obtain ch0 where "get_io_channel LOCAL 4 (Some 7) = Some ch0" by (simp add: get_io_channel_def)
  then show ?thesis using short_table_overruns [of LOCAL 4 7 ch0 "[1, 2, 3, 4, 5]"] by simp
qed

section \<open>Instances\<close>

lemma local_channel:
  obtains ch0 where "get_io_channel LOCAL (64 * 1) (Some 7) = Some ch0" "ch_inv ch0" "session_type ch0 = LOCAL" "cpl_nr ch0 = 0"
    "reap_depth ch0 = 64" "length (cpl_ops ch0) = 64" "queue_depth ch0 = 64" "ch_seq ch0 = 0" "ids_free ch0 \<noteq> {}"
proof -
  let ?ch = "(io_channel_new 64 64)\<lparr> session_type := LOCAL, ch_session := 7 \<rparr>"
  have g: "get_io_channel LOCAL 64 (Some 7) = Some ?ch" by (simp add: get_io_channel_def)
  have inv: "ch_inv ?ch" by (rule new_inv [OF _ _ _ _ g]) simp_all
  have "0 \<in> ids_free ?ch"
    using ch_invD(2,5) [OF inv] by (simp add: ids_free_def io_channel_new_def op_zero_def)
  then show thesis using that [of ?ch] g inv by (auto simp: io_channel_new_def Let_def)
qed

lemma local_create:
  obtains ch0 i ch1 where "get_io_channel LOCAL (64 * 1) (Some 7) = Some ch0" "ch_inv ch0" "session_type ch0 = LOCAL" "cpl_nr ch0 = 0"
    "reap_depth ch0 = 64" "length (cpl_ops ch0) = 64" "ch_seq ch0 = 0"
    "io_prepare_op_common ch0 msg_oss_op_create 8 (Some (le_bytes 8 5)) 0 None = Done (int i, ch1)" "i < 64"
    "op_st (op_ctxs ch1 ! i) = OP_WAITING_SUBMIT"
proof -
  obtain ch0 where c: "get_io_channel LOCAL (64 * 1) (Some 7) = Some ch0" "ch_inv ch0" "session_type ch0 = LOCAL" "cpl_nr ch0 = 0"
    "reap_depth ch0 = 64" "length (cpl_ops ch0) = 64" "queue_depth ch0 = 64" "ch_seq ch0 = 0" "ids_free ch0 \<noteq> {}"
    by (rule local_channel)
  obtain r ch1 where p: "io_prepare_op_common ch0 msg_oss_op_create 8 (Some (le_bytes 8 5)) 0 None = Done (r, ch1)"
    using prepare_done [OF c(2), of 8] by fastforce
  obtain i where "r = int i" "i < 64" "op_st (op_ctxs ch1 ! i) = OP_WAITING_SUBMIT"
    using prepare_shape [OF c(2) _ p] c(7,9) ch_invD(3) [OF c(2)] by auto
  then show thesis using that c p by blast
qed

lemma channel_lifecycle_witness:
  "\<exists>ch0 ch i. get_io_channel LOCAL (64 * 1) (Some 7) = Some ch0 \<and> ch_reach ch0 ch \<and> i < 64 * 1 \<and>
     op_st (op_ctxs ch ! i) = OP_WAITING_SUBMIT \<and> op_id_of (op_ctxs ch ! i) = i \<and> \<not> bitmap_get_bit (op_bitmap ch) i"
proof -
  obtain ch0 i ch1 where c: "get_io_channel LOCAL (64 * 1) (Some 7) = Some ch0"
    "io_prepare_op_common ch0 msg_oss_op_create 8 (Some (le_bytes 8 5)) 0 None = Done (int i, ch1)" "i < 64"
    "op_st (op_ctxs ch1 ! i) = OP_WAITING_SUBMIT" by (rule local_create)
  have r: "ch_reach ch0 ch1" by (rule ch_next [OF ch_start ch_prepare [OF _ c(2)]]) simp
  have i: "i < 64 * 1" using c(3) by simp
  show ?thesis using channel_lifecycle [OF c(1) _ _ _ r i] c(1,4) r i by auto
qed

lemma descriptors_partition_witness:
  "\<exists>ch0 ch held. get_io_channel LOCAL (64 * 1) (Some 7) = Some ch0 \<and> opp.pool_run ch0 [] [PoolGet, PoolGet, PoolPut 0] = (ch, held) \<and>
     distinct held \<and> set held \<inter> ids_free ch = {} \<and> set held \<union> ids_free ch = {..<64 * 1}"
proof -
  obtain ch0 where c: "get_io_channel LOCAL (64 * 1) (Some 7) = Some ch0" by (rule local_channel)
  obtain ch held where r: "opp.pool_run ch0 [] [PoolGet, PoolGet, PoolPut 0] = (ch, held)" by fastforce
  show ?thesis using descriptors_partition [OF c _ _ _ r] c r by simp
qed

lemma op_roundtrip_witness:
  "\<exists>ch0 ch1 ch2 ch3 ch4 ch5 i m msg. get_io_channel LOCAL (64 * 1) (Some 7) = Some ch0 \<and>
     io_create ch0 5 = Done (int i, ch1) \<and> io_submit_to_channel ch1 [int i] [] = Done (0, ch2, [msg]) \<and>
     meta_buffer msg = Some (le_bytes 8 5) \<and> io_poll_channel ch2 1 1 [[m]] = Done (1, [i], ch3) \<and>
     op_claim_result ch3 (int i) = (Some (0, msg_oss_op_create, None, 0), ch4) \<and>
     op_destory ch4 (int i) = Done (0, ch5) \<and> op_st (op_ctxs ch5 ! i) = OP_NEW"
proof -
  obtain ch0 i ch1 where c: "get_io_channel LOCAL (64 * 1) (Some 7) = Some ch0" "ch_inv ch0" "session_type ch0 = LOCAL" "cpl_nr ch0 = 0"
    "reap_depth ch0 = 64" "length (cpl_ops ch0) = 64" "ch_seq ch0 = 0"
    "io_prepare_op_common ch0 msg_oss_op_create 8 (Some (le_bytes 8 5)) 0 None = Done (int i, ch1)" by (rule local_create)
  define m where "m = message_zero\<lparr> m_header := \<lparr> h_seq = 0, h_type = msg_oss_op_create, h_status = 0, h_magic = LOCAL, h_meta_length = 0,
    h_data_length = 0, h_slo = 0, h_rsv = (i, 0) \<rparr> \<rparr>"
  have m: "meta_buffer m = None" "resp_id m = i" "message_get_seq m = ch_seq ch0" "message_get_op m = msg_oss_op_create mod 256"
    "message_get_status m = 0" "data_buffer m = None" "message_get_data_len m = 0"
    by (simp_all add: m_def message_zero_def resp_id_def message_get_seq_def message_get_op_def message_get_status_def
        message_get_data_len_def c(7) msg_oss_op_create_def)
  have o: "message_get_op m = msg_oss_op_create" by (simp add: m(4)) (simp add: msg_oss_op_create_def)
  have "io_create ch0 5 = Done (int i, ch1)" by (simp only: io_create_def c(8))
  with op_roundtrip [OF c(2-4) _ _ _ _ c(8) m(1-4)] c(1,5,6) show ?thesis unfolding m(5-7) o by fastforce
qed

lemma partial_poll_repeats_witness:
  "\<exists>ch1 ch2. io_poll_channel ((io_channel_new 64 64)\<lparr> cpl_nr := 2, cpl_ops := [0, 1] \<rparr>) 0 1 [] = Done (1, [0], ch1) \<and>
     io_poll_channel ch1 0 1 [] = Done (1, [0], ch2) \<and> cpl_nr ch2 = 0"
proof -
  let ?ch = "(io_channel_new 64 64)\<lparr> cpl_nr := 2, cpl_ops := [0, 1] \<rparr>"
  have i: "op_id_of (op_ctxs ?ch ! (cpl_ops ?ch ! 0)) = 0"
    by (simp add: io_channel_new_def op_zero_def op_id_of_def message_zero_def hdr_zero_def hdr_decode_def field_def numeral_eq_Suc)
  have l: "[0..<1::nat] = [0]" by (simp add: upt_rec)
  show ?thesis using partial_poll_repeats [of 1 ?ch "[]" "[]"] i by (simp add: io_channel_new_def l)
qed

end
