(* ===== verification/Ipc_Correct.thy ===== *)
theory Ipc_Correct
  imports Ipc "HOL-Library.Sublist"
begin

text \<open>
  Two cores and their two rings: what is sent arrives in order, and is lost only when a ring
  is full; and both ends agree which ring is which.
\<close>

section \<open>An interface: a channel that keeps the order\<close>

datatype 'm fifo_event = Fifo_put 'm | Fifo_take

fun fifo_puts :: "'m fifo_event list \<Rightarrow> 'm list" where
  "fifo_puts [] = []"
| "fifo_puts (Fifo_put m # es) = m # fifo_puts es"
| "fifo_puts (Fifo_take # es) = fifo_puts es"

text \<open>
  What is put is appended, as the other side will see it, to what is pending, or refused;
  and refused only when the channel holds \<open>fc_cap\<close> messages.  Taking yields all that is pending.
\<close>

locale fifo_channel =
  fixes fc_inv :: "'s \<Rightarrow> bool"
    and fc_pending :: "'s \<Rightarrow> 'd list"
    and fc_cap :: "'s \<Rightarrow> nat"
    and fc_seen :: "'m \<Rightarrow> 'd"
    and fc_put :: "'m \<Rightarrow> 's \<Rightarrow> 's"
    and fc_take :: "'s \<Rightarrow> 'd list \<times> 's"
  assumes put_law: "fc_inv s \<Longrightarrow> fc_inv (fc_put m s) \<and> fc_cap (fc_put m s) = fc_cap s \<and>
      fc_pending (fc_put m s) = (if length (fc_pending s) < fc_cap s then fc_pending s @ [fc_seen m] else fc_pending s)"
    and take_law: "fc_inv s \<Longrightarrow> fc_take s = (ms, s') \<Longrightarrow>
      ms = fc_pending s \<and> fc_pending s' = [] \<and> fc_inv s' \<and> fc_cap s' = fc_cap s"
begin

fun fifo_run :: "'m fifo_event list \<Rightarrow> 's \<Rightarrow> 'd list \<times> 's" where
  "fifo_run [] s = ([], s)"
| "fifo_run (Fifo_put m # es) s = fifo_run es (fc_put m s)"
| "fifo_run (Fifo_take # es) s =
     (let (ms, s1) = fc_take s; (ms', s2) = fifo_run es s1 in (ms @ ms', s2))"

text \<open>Nothing is reordered or delivered twice.\<close>

lemma fifo_order:
  "fc_inv s \<Longrightarrow> fifo_run es s = (ms, s') \<Longrightarrow>
     fc_inv s' \<and> (\<exists>acc. subseq acc (fifo_puts es) \<and> ms @ fc_pending s' = fc_pending s @ map fc_seen acc)"
proof (induction es arbitrary: s ms rule: fifo_puts.induct)
  case (2 m es)
  note p = put_law [OF 2(2), of m]
  obtain acc where a: "fc_inv s'" "subseq acc (fifo_puts es)" "ms @ fc_pending s' = fc_pending (fc_put m s) @ map fc_seen acc"
    using 2(1) [of "fc_put m s" ms] 2(3) p by auto
  show ?case
  proof (cases "length (fc_pending s) < fc_cap s")
    case True
    then show ?thesis using a p by (intro conjI exI [of _ "m # acc"]) simp_all
  next
    case False
    then show ?thesis using a p by (intro conjI exI [of _ acc]) auto
  qed
next
  case (3 es)
  obtain m1 s1 where t: "fc_take s = (m1, s1)" by fastforce
  obtain m2 where r: "fifo_run es s1 = (m2, s')" "ms = m1 @ m2" using 3(3) t by (auto split: prod.splits)
  note l = take_law [OF 3(2) t]
  show ?case using 3(1) [OF _ r(1)] r(2) l by auto
qed simp

text \<open>Nothing is lost while there is room for everything.\<close>

lemma fifo_complete:
  "fc_inv s \<Longrightarrow> fifo_run es s = (ms, s') \<Longrightarrow> length (fc_pending s) + length (fifo_puts es) \<le> fc_cap s \<Longrightarrow>
     ms @ fc_pending s' = fc_pending s @ map fc_seen (fifo_puts es)"
proof (induction es arbitrary: s ms rule: fifo_puts.induct)
  case (2 m es)
  note p = put_law [OF 2(2), of m]
  have l: "length (fc_pending s) < fc_cap s" using 2(4) by simp
  show ?case using 2(1) [of "fc_put m s" ms] 2(3,4) p l by simp
next
  case (3 es)
  obtain m1 s1 where t: "fc_take s = (m1, s1)" by fastforce
  obtain m2 where r: "fifo_run es s1 = (m2, s')" "ms = m1 @ m2" using 3(3) t by (auto split: prod.splits)
  show ?case using 3(1) [OF _ r(1)] 3(4) r(2) take_law [OF 3(2) t] by auto
qed simp

end

section \<open>The rings\<close>

text \<open>
  What the documentation of the rings promises: a ring holds at most \<open>cap\<close> messages, one more
  is refused, the oldest are taken first.  \<open>c\<close> is what a ring contains.
\<close>

definition ring_laws :: "'r ring_ops \<Rightarrow> ('r \<Rightarrow> message list) \<Rightarrow> nat \<Rightarrow> bool" where
  "ring_laws ro c cap \<longleftrightarrow>
     (\<forall>r m. c (snd (ring_enqueue ro r [m])) = (if length (c r) < cap then c r @ [m] else c r)) \<and>
     (\<forall>r. ring_count ro r = length (c r)) \<and>
     (\<forall>r n. n \<le> length (c r) \<longrightarrow> fst (ring_dequeue ro r n) = take n (c r) \<and> c (snd (ring_dequeue ro r n)) = drop n (c r))"

lemma ring_lawsD:
  assumes "ring_laws ro c cap"
  shows "c (snd (ring_enqueue ro r [m])) = (if length (c r) < cap then c r @ [m] else c r)"
    and "ring_count ro r = length (c r)"
    and "n \<le> length (c r) \<Longrightarrow> fst (ring_dequeue ro r n) = take n (c r)"
    and "n \<le> length (c r) \<Longrightarrow> c (snd (ring_dequeue ro r n)) = drop n (c r)"
  using assms by (simp_all add: ring_laws_def)

section \<open>One direction of a connection\<close>

text \<open>
  A sender and a receiver, each with its session; the session of the sender sends into the
  ring that the session of the receiver reads.
\<close>

record 'r link =
  lk_ops :: "'r ring_ops"
  lk_contents :: "'r \<Rightarrow> message list"
  lk_cap :: nat
  lk_rings :: "'r rings"
  lk_from :: ipc_messager
  lk_from_sid :: nat
  lk_to :: ipc_messager
  lk_to_sid :: nat

definition link_ring :: "'r link \<Rightarrow> nat \<times> nat \<Rightarrow> bool" where
  "link_ring l q \<longleftrightarrow> map_option out_q (find_ipc_session (lk_from_sid l) (lk_from l)) = Some q \<and>
     map_option in_q (find_ipc_session (lk_to_sid l) (lk_to l)) = Some q"

definition link_inv :: "'r link \<Rightarrow> bool" where
  "link_inv l \<longleftrightarrow> ring_laws (lk_ops l) (lk_contents l) (lk_cap l) \<and> lk_cap l \<le> REQ_BATCH_SIZE \<and>
     (\<exists>q r. link_ring l q \<and> lk_rings l q = Some r \<and> length (lk_contents l r) \<le> lk_cap l)"

lemma link_invI:
  "ring_laws (lk_ops l) (lk_contents l) (lk_cap l) \<Longrightarrow> lk_cap l \<le> REQ_BATCH_SIZE \<Longrightarrow> link_ring l q \<Longrightarrow>
     lk_rings l q = Some r \<Longrightarrow> length (lk_contents l r) \<le> lk_cap l \<Longrightarrow> link_inv l"
  unfolding link_inv_def by blast

text \<open>What is under way, as the receiver will get it.\<close>

definition stamp :: "nat \<Rightarrow> message \<Rightarrow> message" where "stamp sid m = m\<lparr> priv_ctx := sid \<rparr>"

definition link_pending :: "'r link \<Rightarrow> message list" where
  "link_pending l =
     (case find_ipc_session (lk_to_sid l) (lk_to l) of
        None \<Rightarrow> []
      | Some s \<Rightarrow> (case lk_rings l (in_q s) of None \<Rightarrow> [] | Some r \<Rightarrow> map (stamp (lk_to_sid l)) (lk_contents l r)))"

text \<open>The sender sends through its session; the receiver polls its session.\<close>

definition link_send :: "message \<Rightarrow> 'r link \<Rightarrow> 'r link run" where
  "link_send m l =
     run_bind (message_send (lk_ops l) (m\<lparr> priv_ctx := lk_from_sid l \<rparr>) (lk_rings l) (lk_from l))
       (\<lambda>(rc, R, g). Done (l\<lparr> lk_rings := R, lk_from := g \<rparr>))"

definition link_poll :: "'r link \<Rightarrow> (nat \<times> 'r link) run" where
  "link_poll l =
     run_bind (message_recv_poll_session (lk_ops l) (lk_to_sid l) (lk_rings l) (lk_to l))
       (\<lambda>(n, R, g). Done (n, l\<lparr> lk_rings := R, lk_to := g \<rparr>))"

lemma find_session_id: "find_ipc_session sid g = Some s \<Longrightarrow> is_id s = sid"
  by (auto simp: find_ipc_session_def find_Some_iff)

lemma find_put_session:
  "find_ipc_session sid g = Some s \<Longrightarrow> is_id s' = sid \<Longrightarrow> find_ipc_session sid (put_ipc_session s' g) = Some s'"
proof -
  have "find (\<lambda>s. is_id s = sid) ss = Some s \<Longrightarrow> is_id s' = sid \<Longrightarrow>
      find (\<lambda>s. is_id s = sid) (map (\<lambda>x. if is_id x = is_id s' then s' else x) ss) = Some s'" for ss
    by (induction ss) (auto split: if_splits)
  then show "find_ipc_session sid g = Some s \<Longrightarrow> is_id s' = sid \<Longrightarrow> ?thesis"
    by (simp add: find_ipc_session_def put_ipc_session_def)
qed

lemma find_session_frame [simp]:
  "find_ipc_session sid (g\<lparr> im_sent := x \<rparr>) = find_ipc_session sid g"
  "find_ipc_session sid (g\<lparr> im_received := x \<rparr>) = find_ipc_session sid g"
  by (simp_all add: find_ipc_session_def)

lemma link_send_ok:
  assumes "link_inv l"
  shows "\<exists>R g. link_send m l = Done (l\<lparr> lk_rings := R, lk_from := g \<rparr>) \<and> link_inv (l\<lparr> lk_rings := R, lk_from := g \<rparr>) \<and>
    link_pending (l\<lparr> lk_rings := R, lk_from := g \<rparr>) =
      (if length (link_pending l) < lk_cap l then link_pending l @ [stamp (lk_to_sid l) m] else link_pending l)"
proof -
  obtain q r s t where i: "ring_laws (lk_ops l) (lk_contents l) (lk_cap l)" "lk_cap l \<le> REQ_BATCH_SIZE"
    "lk_rings l q = Some r" "length (lk_contents l r) \<le> lk_cap l"
    and s: "find_ipc_session (lk_from_sid l) (lk_from l) = Some s" "out_q s = q"
    and t: "find_ipc_session (lk_to_sid l) (lk_to l) = Some t" "in_q t = q"
    using assms by (auto simp: link_inv_def link_ring_def)
  let ?m = "m\<lparr> priv_ctx := 0 \<rparr>"
  define r' where "r' = snd (ring_enqueue (lk_ops l) r [?m])"
  let ?s = "s\<lparr> nr_to_flush := nr_to_flush s + 1 \<rparr>"
  let ?g1 = "put_ipc_session ?s (lk_from l)"
  define g where "g = ?g1\<lparr> im_sent := im_sent ?g1 @ [m\<lparr> priv_ctx := lk_from_sid l \<rparr>] \<rparr>"
  let ?l = "l\<lparr> lk_rings := (lk_rings l)(q \<mapsto> r'), lk_from := g \<rparr>"
  have c: "lk_contents l r' = (if length (lk_contents l r) < lk_cap l then lk_contents l r @ [?m] else lk_contents l r)"
    unfolding r'_def by (rule ring_lawsD(1) [OF i(1)])
  have "link_send m l = Done ?l"
    using s i(3) by (simp add: link_send_def message_send_def r'_def g_def Let_def split: prod.splits)
  moreover have f: "find_ipc_session (lk_from_sid l) g = Some ?s"
    using find_put_session [OF s(1), of ?s] find_session_id [OF s(1)] by (simp add: g_def)
  have "link_ring ?l q" using f s(2) t by (simp add: link_ring_def)
  then have "link_inv ?l" using i c by (intro link_invI [of ?l q r']) (auto split: if_splits)
  moreover have "link_pending ?l = (if length (link_pending l) < lk_cap l then link_pending l @ [stamp (lk_to_sid l) m] else link_pending l)"
    using t i(3) by (simp add: link_pending_def c stamp_def)
  ultimately show ?thesis by blast
qed

lemma link_poll_ok:
  assumes "link_inv l"
  shows "\<exists>R g. link_poll l = Done (length (link_pending l), l\<lparr> lk_rings := R, lk_to := g \<rparr>) \<and>
    link_inv (l\<lparr> lk_rings := R, lk_to := g \<rparr>) \<and> link_pending (l\<lparr> lk_rings := R, lk_to := g \<rparr>) = [] \<and>
    im_received g = im_received (lk_to l) @ link_pending l"
proof -
  obtain q r s t where i: "ring_laws (lk_ops l) (lk_contents l) (lk_cap l)" "lk_cap l \<le> REQ_BATCH_SIZE"
    "lk_rings l q = Some r" "length (lk_contents l r) \<le> lk_cap l"
    and s: "find_ipc_session (lk_from_sid l) (lk_from l) = Some s" "out_q s = q"
    and t: "find_ipc_session (lk_to_sid l) (lk_to l) = Some t" "in_q t = q"
    using assms by (auto simp: link_inv_def link_ring_def)
  note law = ring_lawsD [OF i(1)]
  have p: "link_pending l = map (stamp (lk_to_sid l)) (lk_contents l r)" using t i(3) by (simp add: link_pending_def)
  have tid: "is_id t = lk_to_sid l" by (rule find_session_id [OF t(1)])
  show ?thesis
  proof (cases "lk_contents l r = []")
    case True
    then have "link_poll l = Done (0, l)"
      using t i(3) by (simp add: link_poll_def message_recv_poll_session_def recv_ring_def law(2))
    then show ?thesis
      using assms p True by (intro exI [of _ "lk_rings l"] exI [of _ "lk_to l"]) simp
  next
    case False
    define r' where "r' = snd (ring_dequeue (lk_ops l) r (length (lk_contents l r)))"
    have c: "fst (ring_dequeue (lk_ops l) r (length (lk_contents l r))) = lk_contents l r" "lk_contents l r' = []"
      by (simp_all add: law r'_def)
    define g where "g = (lk_to l)\<lparr> im_received := im_received (lk_to l) @ link_pending l \<rparr>"
    let ?l = "l\<lparr> lk_rings := (lk_rings l)(q \<mapsto> r'), lk_to := g \<rparr>"
    have d: "ring_dequeue (lk_ops l) r (length (lk_contents l r)) = (lk_contents l r, r')"
      using c(1) by (simp add: r'_def prod_eq_iff)
    have "link_poll l = Done (length (link_pending l), ?l)"
      using t i False by (simp add: link_poll_def message_recv_poll_session_def recv_ring_def law(2) d tid p g_def stamp_def Let_def)
    moreover have "link_ring ?l q" using s t by (simp add: link_ring_def g_def)
    then have "link_inv ?l" using i c(2) by (intro link_invI [of ?l q r']) auto
    moreover have "link_pending ?l = []" using t c(2) by (simp add: link_pending_def g_def)
    moreover have "im_received g = im_received (lk_to l) @ link_pending l" by (simp add: g_def)
    ultimately show ?thesis by blast
  qed
qed

section \<open>Both directions of a connection\<close>

text \<open>The same two sessions seen from the other side: what the receiver sends the sender reads.\<close>

definition link_back :: "'r link \<Rightarrow> 'r link" where
  "link_back l = l\<lparr> lk_from := lk_to l, lk_from_sid := lk_to_sid l, lk_to := lk_from l, lk_to_sid := lk_from_sid l \<rparr>"

definition from_rings :: "'r link \<Rightarrow> ((nat \<times> nat) \<times> (nat \<times> nat)) option" where
  "from_rings l = map_option (\<lambda>s. (out_q s, in_q s)) (find_ipc_session (lk_from_sid l) (lk_from l))"

definition duplex :: "'r link \<Rightarrow> bool" where
  "duplex l \<longleftrightarrow> link_inv l \<and> link_inv (link_back l) \<and> (\<exists>q p. from_rings l = Some (q, p) \<and> q \<noteq> p)"

lemma link_back_sel [simp]:
  "lk_ops (link_back l) = lk_ops l" "lk_contents (link_back l) = lk_contents l" "lk_cap (link_back l) = lk_cap l"
  "lk_rings (link_back l) = lk_rings l" "lk_from (link_back l) = lk_to l" "lk_to (link_back l) = lk_from l"
  "lk_from_sid (link_back l) = lk_to_sid l" "lk_to_sid (link_back l) = lk_from_sid l" "link_back (link_back l) = l"
  by (simp_all add: link_back_def)

text \<open>The rings of both sides: each reads what the other one writes.\<close>

lemma duplex_rings:
  assumes "duplex l"
  obtains q p where "q \<noteq> p" "from_rings l = Some (q, p)" "from_rings (link_back l) = Some (p, q)"
  using assms by (fastforce simp: duplex_def link_inv_def link_ring_def from_rings_def)

lemma duplex_back:
  assumes "duplex l"
  shows "duplex (link_back l)"
proof -
  obtain q p where "q \<noteq> p" "from_rings (link_back l) = Some (p, q)" using assms by (rule duplex_rings)
  then show ?thesis using assms by (auto simp: duplex_def)
qed

text \<open>A step of one direction that leaves the ring of the other one alone.\<close>

lemma duplex_step:
  assumes "duplex l" and "link_inv l1" and "lk_ops l1 = lk_ops l" "lk_contents l1 = lk_contents l" "lk_cap l1 = lk_cap l"
    and "from_rings l1 = from_rings l" and "from_rings (link_back l1) = from_rings (link_back l)"
    and "lk_from_sid l1 = lk_from_sid l" and "\<And>q p. from_rings l = Some (q, p) \<Longrightarrow> q \<noteq> p \<Longrightarrow> lk_rings l1 p = lk_rings l p"
  shows "duplex l1 \<and> link_pending (link_back l1) = link_pending (link_back l)"
proof -
  obtain q p where qp: "q \<noteq> p" "from_rings l = Some (q, p)" "from_rings (link_back l) = Some (p, q)"
    using assms(1) by (rule duplex_rings)
  have R: "lk_rings l1 p = lk_rings l p" by (rule assms(9) [OF qp(2,1)])
  have b: "from_rings l1 = Some (q, p)" "from_rings (link_back l1) = Some (p, q)" using assms(6,7) qp by simp_all
  have "link_inv (link_back l)" using assms(1) by (simp add: duplex_def)
  then obtain r where r: "lk_rings l p = Some r" "length (lk_contents l r) \<le> lk_cap l" "ring_laws (lk_ops l) (lk_contents l) (lk_cap l)"
    "lk_cap l \<le> REQ_BATCH_SIZE"
    using qp(3) by (auto simp: link_inv_def link_ring_def from_rings_def)
  have "link_ring (link_back l1) p" using b by (auto simp: link_ring_def from_rings_def)
  then have "link_inv (link_back l1)" using r assms(3-5) R by (intro link_invI [where q = p and r = r]) simp_all
  moreover have "link_pending (link_back l1) = link_pending (link_back l)"
    using b(1) qp(2) R assms(4,8) by (auto simp: link_pending_def from_rings_def split: option.splits)
  ultimately show ?thesis using assms(2) b(1) qp(1) by (simp add: duplex_def)
qed

lemma send_frame:
  assumes "link_send m l = Done l1"
  shows "lk_ops l1 = lk_ops l" "lk_contents l1 = lk_contents l" "lk_cap l1 = lk_cap l" "lk_from_sid l1 = lk_from_sid l"
    and "lk_to l1 = lk_to l" "lk_to_sid l1 = lk_to_sid l" and "from_rings l1 = from_rings l"
    and "im_received (lk_from l1) = im_received (lk_from l)"
    and "from_rings l = Some (q, p) \<Longrightarrow> q \<noteq> p \<Longrightarrow> lk_rings l1 p = lk_rings l p"
proof -
  obtain s r where s: "find_ipc_session (lk_from_sid l) (lk_from l) = Some s" "lk_rings l (out_q s) = Some r"
    using assms by (auto simp: link_send_def message_send_def run_bind_Done split: option.splits)
  let ?s = "s\<lparr> nr_to_flush := nr_to_flush s + 1 \<rparr>"
  let ?g = "put_ipc_session ?s (lk_from l)"
  obtain n r' where e: "ring_enqueue (lk_ops l) r [m\<lparr> priv_ctx := 0 \<rparr>] = (n, r')" by fastforce
  have l1: "l1 = l\<lparr> lk_rings := (lk_rings l)(out_q s \<mapsto> r'), lk_from := ?g\<lparr> im_sent := im_sent ?g @ [m\<lparr> priv_ctx := lk_from_sid l \<rparr>] \<rparr> \<rparr>"
    using assms s e by (simp add: link_send_def message_send_def Let_def)
  have f: "find_ipc_session (lk_from_sid l) ?g = Some ?s"
    using find_put_session [OF s(1), of ?s] find_session_id [OF s(1)] by simp
  show "lk_ops l1 = lk_ops l" "lk_contents l1 = lk_contents l" "lk_cap l1 = lk_cap l" "lk_from_sid l1 = lk_from_sid l"
    "lk_to l1 = lk_to l" "lk_to_sid l1 = lk_to_sid l"
    "im_received (lk_from l1) = im_received (lk_from l)"
    by (simp_all add: l1 put_ipc_session_def)
  show "from_rings l1 = from_rings l" by (simp add: l1 from_rings_def f s(1))
  show "from_rings l = Some (q, p) \<Longrightarrow> q \<noteq> p \<Longrightarrow> lk_rings l1 p = lk_rings l p" by (auto simp: l1 from_rings_def s(1))
qed

text \<open>Sending keeps the connection and what is under way in the other direction.\<close>

lemma duplex_send:
  assumes "duplex l" and "length (link_pending l) < lk_cap l"
  obtains l1 where "link_send m l = Done l1" "duplex l1" "link_pending l1 = link_pending l @ [stamp (lk_to_sid l) m]"
    "link_pending (link_back l1) = link_pending (link_back l)" "lk_to l1 = lk_to l" "lk_to_sid l1 = lk_to_sid l"
    "lk_from_sid l1 = lk_from_sid l" "lk_cap l1 = lk_cap l" "im_received (lk_from l1) = im_received (lk_from l)"
proof -
  obtain R g where s: "link_send m l = Done (l\<lparr> lk_rings := R, lk_from := g \<rparr>)" "link_inv (l\<lparr> lk_rings := R, lk_from := g \<rparr>)"
    "link_pending (l\<lparr> lk_rings := R, lk_from := g \<rparr>) = link_pending l @ [stamp (lk_to_sid l) m]"
    using link_send_ok [of l m] assms by (auto simp: duplex_def)
  let ?l = "l\<lparr> lk_rings := R, lk_from := g \<rparr>"
  note f = send_frame [OF s(1)]
  have "from_rings (link_back ?l) = from_rings (link_back l)" by (simp add: from_rings_def)
  from duplex_step [OF assms(1) s(2) f(1-3,7) this f(4)] f(9)
  have d: "duplex ?l" "link_pending (link_back ?l) = link_pending (link_back l)" by blast+
  with f(8) s show thesis by (intro that [of ?l]) simp_all
qed

lemma poll_frame:
  assumes "link_poll l = Done (n, l1)"
  shows "\<exists>t. find_ipc_session (lk_to_sid l) (lk_to l) = Some t \<and> find_ipc_session (lk_to_sid l) (lk_to l1) = Some t \<and>
    (\<forall>p. p \<noteq> in_q t \<longrightarrow> lk_rings l1 p = lk_rings l p)"
  using assms by (auto simp: link_poll_def message_recv_poll_session_def recv_ring_def run_bind_Done Let_def
      split: option.splits if_splits prod.splits)

text \<open>Polling takes all that is under way and keeps the connection.\<close>

lemma duplex_poll:
  assumes "duplex l"
  obtains l1 where "link_poll l = Done (length (link_pending l), l1)" "duplex l1" "link_pending l1 = []"
    "im_received (lk_to l1) = im_received (lk_to l) @ link_pending l"
    "link_pending (link_back l1) = link_pending (link_back l)" "lk_from l1 = lk_from l" "lk_from_sid l1 = lk_from_sid l"
    "lk_to_sid l1 = lk_to_sid l" "lk_cap l1 = lk_cap l"
proof -
  obtain R g where s: "link_poll l = Done (length (link_pending l), l\<lparr> lk_rings := R, lk_to := g \<rparr>)"
    "link_inv (l\<lparr> lk_rings := R, lk_to := g \<rparr>)" "link_pending (l\<lparr> lk_rings := R, lk_to := g \<rparr>) = []"
    "im_received g = im_received (lk_to l) @ link_pending l"
    using link_poll_ok [of l] assms by (auto simp: duplex_def)
  let ?l = "l\<lparr> lk_rings := R, lk_to := g \<rparr>"
  obtain t where t: "find_ipc_session (lk_to_sid l) (lk_to l) = Some t"
    and g: "find_ipc_session (lk_to_sid l) g = Some t" "\<And>p. p \<noteq> in_q t \<Longrightarrow> R p = lk_rings l p"
    using poll_frame [OF s(1)] by auto
  obtain q p where qp: "q \<noteq> p" "from_rings l = Some (q, p)" "from_rings (link_back l) = Some (p, q)"
    using assms by (rule duplex_rings)
  have "in_q t = q" using qp(3) t by (simp add: from_rings_def)
  then have R: "R p = lk_rings l p" using g(2) qp(1) by simp
  have "from_rings ?l = from_rings l" "from_rings (link_back ?l) = from_rings (link_back l)"
    using g(1) t by (simp_all add: from_rings_def)
  from duplex_step [OF assms s(2) _ _ _ this] R qp
  have d: "duplex ?l" "link_pending (link_back ?l) = link_pending (link_back l)" by auto
  with s show thesis by (intro that [of ?l]) simp_all
qed

section \<open>Sequences of events\<close>

text \<open>Sending and polling as total functions, for the interface.\<close>

definition link_put :: "message \<Rightarrow> 'r link \<Rightarrow> 'r link" where
  "link_put m l = (case link_send m l of Done l' \<Rightarrow> l' | _ \<Rightarrow> l)"

definition link_take :: "'r link \<Rightarrow> message list \<times> 'r link" where
  "link_take l =
     (case link_poll l of
        Done (n, l') \<Rightarrow> (drop (length (im_received (lk_to l))) (im_received (lk_to l')), l')
      | _ \<Rightarrow> ([], l))"

lemma link_put_ok:
  assumes "link_inv l"
  shows "link_send m l = Done (link_put m l) \<and> link_inv (link_put m l) \<and> lk_cap (link_put m l) = lk_cap l \<and>
    lk_to_sid (link_put m l) = lk_to_sid l \<and> lk_to (link_put m l) = lk_to l \<and>
    link_pending (link_put m l) = (if length (link_pending l) < lk_cap l then link_pending l @ [stamp (lk_to_sid l) m] else link_pending l)"
proof -
  obtain R g where "link_send m l = Done (l\<lparr> lk_rings := R, lk_from := g \<rparr>)" "link_inv (l\<lparr> lk_rings := R, lk_from := g \<rparr>)"
    "link_pending (l\<lparr> lk_rings := R, lk_from := g \<rparr>) =
      (if length (link_pending l) < lk_cap l then link_pending l @ [stamp (lk_to_sid l) m] else link_pending l)"
    using link_send_ok [OF assms, of m] by blast
  then show ?thesis by (simp add: link_put_def)
qed

lemma link_take_ok:
  assumes "link_inv l" and "link_take l = (ms, l')"
  shows "link_poll l = Done (length ms, l') \<and> ms = link_pending l \<and> link_pending l' = [] \<and> link_inv l' \<and>
    lk_cap l' = lk_cap l \<and> lk_to_sid l' = lk_to_sid l \<and> im_received (lk_to l') = im_received (lk_to l) @ ms"
proof -
  obtain R g where "link_poll l = Done (length (link_pending l), l\<lparr> lk_rings := R, lk_to := g \<rparr>)"
    "link_inv (l\<lparr> lk_rings := R, lk_to := g \<rparr>)" "link_pending (l\<lparr> lk_rings := R, lk_to := g \<rparr>) = []"
    "im_received g = im_received (lk_to l) @ link_pending l"
    using link_poll_ok [OF assms(1)] by blast
  then show ?thesis using assms(2) by (auto simp: link_take_def)
qed

interpretation lkf: fifo_channel "\<lambda>l. link_inv l \<and> lk_to_sid l = sid" link_pending lk_cap "stamp sid" link_put link_take
  for sid :: nat
proof unfold_locales
  show "(link_inv (link_put m l) \<and> lk_to_sid (link_put m l) = sid) \<and> lk_cap (link_put m l) = lk_cap l \<and>
      link_pending (link_put m l) = (if length (link_pending l) < lk_cap l then link_pending l @ [stamp sid m] else link_pending l)"
    if "link_inv l \<and> lk_to_sid l = sid" for l :: "'r link" and m
    using link_put_ok [of l m] that by auto
  show "ms = link_pending l \<and> link_pending l' = [] \<and> (link_inv l' \<and> lk_to_sid l' = sid) \<and> lk_cap l' = lk_cap l"
    if "link_inv l \<and> lk_to_sid l = sid" and "link_take l = (ms, l')" for l l' :: "'r link" and ms
    using link_take_ok [OF _ that(2)] that(1) by auto
qed

fun link_run :: "message fifo_event list \<Rightarrow> 'r link \<Rightarrow> 'r link run" where
  "link_run [] l = Done l"
| "link_run (Fifo_put m # es) l = run_bind (link_send m l) (link_run es)"
| "link_run (Fifo_take # es) l = run_bind (link_poll l) (\<lambda>(n, l'). link_run es l')"

lemma link_run_fifo:
  assumes "link_inv l" and "lkf.fifo_run es l = (ms, l')"
  shows "link_run es l = Done l' \<and> im_received (lk_to l') = im_received (lk_to l) @ ms"
  using assms
proof (induction es arbitrary: l ms rule: fifo_puts.induct)
  case (2 m es)
  then show ?case using link_put_ok [OF 2(2), of m] by auto
next
  case (3 es)
  obtain m1 l1 where t: "link_take l = (m1, l1)" by fastforce
  obtain m2 where r: "lkf.fifo_run es l1 = (m2, l')" "ms = m1 @ m2" using 3(3) t by (auto split: prod.splits)
  show ?case using 3(1) [OF _ r(1)] r(2) link_take_ok [OF 3(2) t] by auto
qed simp

section \<open>Properties\<close>

text \<open>
  C11: Between two connected cores, whatever the interleaving of sends and polls, nothing
  fails, the receiver's callback gets what the sender sent in the order of sending, each
  message once and marked with the receiver's session; a message is missing only if a ring
  was full, and with room for all of them none is.
\<close>

theorem ipc_fifo:
  assumes "link_inv l"
  shows "\<exists>l' acc. link_run es l = Done l' \<and> subseq acc (fifo_puts es) \<and>
    im_received (lk_to l') @ link_pending l' = im_received (lk_to l) @ link_pending l @ map (stamp (lk_to_sid l)) acc \<and>
    (length (link_pending l) + length (fifo_puts es) \<le> lk_cap l \<longrightarrow> acc = fifo_puts es)"
proof -
  obtain ms l' where r: "lkf.fifo_run es l = (ms, l')" by fastforce
  have inv: "link_inv l \<and> lk_to_sid l = lk_to_sid l" using assms by simp
  note run = link_run_fifo [OF assms r]
  show ?thesis
  proof (cases "length (link_pending l) + length (fifo_puts es) \<le> lk_cap l")
    case True
    then show ?thesis using lkf.fifo_complete [OF inv r True] run by (intro exI [of _ l'] exI [of _ "fifo_puts es"]) simp
  next
    case False
    then show ?thesis using lkf.fifo_order [OF inv r] run by auto
  qed
qed

text \<open>
  C39: A full ring loses messages silently: sending returns 0, the sender's callback is told
  that the message was sent, the count of messages to flush grows, and nothing is under way
  that was not before.
\<close>

theorem full_ring_loses:
  assumes "link_inv l" and "length (link_pending l) = lk_cap l"
    and "find_ipc_session (lk_from_sid l) (lk_from l) = Some s" and "priv_ctx m = lk_from_sid l"
  shows "\<exists>R g. message_send (lk_ops l) m (lk_rings l) (lk_from l) = Done (0, R, g) \<and>
    link_pending (l\<lparr> lk_rings := R, lk_from := g \<rparr>) = link_pending l \<and> im_sent g = im_sent (lk_from l) @ [m] \<and>
    cli_ipc_flush_msg_of (lk_from_sid l) g = Done (nr_to_flush s + 1, put_ipc_session (s\<lparr> nr_to_flush := 0 \<rparr>) g)"
proof -
  obtain R g where send: "link_send m l = Done (l\<lparr> lk_rings := R, lk_from := g \<rparr>)"
    and pend: "link_pending (l\<lparr> lk_rings := R, lk_from := g \<rparr>) = link_pending l"
    using link_send_ok [OF assms(1), of m] assms(2) by auto
  have m: "m\<lparr> priv_ctx := lk_from_sid l \<rparr> = m" using assms(4) by simp
  obtain r where r: "lk_rings l (out_q s) = Some r" using assms(1,3) by (auto simp: link_inv_def link_ring_def)
  obtain n r' where e: "ring_enqueue (lk_ops l) r [m\<lparr> priv_ctx := 0 \<rparr>] = (n, r')" by fastforce
  let ?s = "s\<lparr> nr_to_flush := nr_to_flush s + 1 \<rparr>"
  let ?g = "(put_ipc_session ?s (lk_from l))\<lparr> im_sent := im_sent (lk_from l) @ [m] \<rparr>"
  have sm: "message_send (lk_ops l) m (lk_rings l) (lk_from l) = Done (0, (lk_rings l)(out_q s \<mapsto> r'), ?g)"
    using assms(3,4) r e by (simp add: message_send_def put_ipc_session_def)
  then have "l\<lparr> lk_rings := R, lk_from := g \<rparr> = l\<lparr> lk_rings := (lk_rings l)(out_q s \<mapsto> r'), lk_from := ?g \<rparr>"
    using send by (simp add: link_send_def m)
  moreover have "find_ipc_session (lk_from_sid l) ?g = Some ?s"
    using find_put_session [OF assms(3), of ?s] find_session_id [OF assms(3)] by simp
  ultimately show ?thesis using sm pend by (simp add: cli_ipc_flush_msg_of_def)
qed

section \<open>Connecting\<close>

lemma create_pairs:
  assumes "run_fold (create_pair mk) fts R0 = Done R"
  shows "(\<forall>q. R0 q \<noteq> None \<longrightarrow> R q \<noteq> None) \<and> (\<forall>ft \<in> set fts. R ft \<noteq> None \<and> R (snd ft, fst ft) \<noteq> None)"
  using assms
proof (induction fts arbitrary: R0)
  case (Cons ft fts)
  obtain R1 where c: "create_pair mk ft R0 = Done R1" "run_fold (create_pair mk) fts R1 = Done R"
    using Cons.prems by (auto simp: run_bind_Done)
  have "R1 = R0(ft := mk ft, (snd ft, fst ft) := mk (snd ft, fst ft))" "R1 ft \<noteq> None" "R1 (snd ft, fst ft) \<noteq> None"
    using c(1) by (auto simp: create_pair_def Let_def split: if_splits)
  then have "R1 q \<noteq> None" if "R0 q \<noteq> None" for q using that by (metis fun_upd_apply)
  moreover have "R q \<noteq> None" if "R1 q \<noteq> None" for q using Cons.IH [OF c(2)] that by blast
  moreover have "R ft' \<noteq> None \<and> R (snd ft', fst ft') \<noteq> None" if "ft' \<in> set fts" for ft' using Cons.IH [OF c(2)] that by blast
  ultimately show ?case using \<open>R1 ft \<noteq> None\<close> \<open>R1 (snd ft, fst ft) \<noteq> None\<close> by (metis set_ConsD)
qed simp

lemma add_sessions:
  assumes "\<forall>t \<in> set ts. R (t, my_lcore g) \<noteq> None \<and> R (my_lcore g, t) \<noteq> None"
  shows "\<exists>ss. run_fold (add_session R priv) ts g = Done (g\<lparr> im_sessions := im_sessions g @ ss, im_next := im_next g + length ts \<rparr>) \<and>
    map in_q ss = map (\<lambda>t. (t, my_lcore g)) ts \<and> map out_q ss = map (\<lambda>t. (my_lcore g, t)) ts \<and>
    map is_id ss = [im_next g..<im_next g + length ts]"
  using assms
proof (induction ts arbitrary: g)
  case (Cons t ts)
  let ?s = "\<lparr> is_id = im_next g, is_priv = priv, tgt_core = t, nr_to_flush = 0, out_q = (my_lcore g, t), in_q = (t, my_lcore g) \<rparr>"
  let ?g = "g\<lparr> im_sessions := im_sessions g @ [?s], im_next := im_next g + 1 \<rparr>"
  have a: "add_session R priv t g = Done ?g" using Cons.prems by (simp add: add_session_def)
  obtain ss where s: "run_fold (add_session R priv) ts ?g = Done (?g\<lparr> im_sessions := im_sessions ?g @ ss, im_next := im_next ?g + length ts \<rparr>)"
    "map in_q ss = map (\<lambda>t. (t, my_lcore g)) ts" "map out_q ss = map (\<lambda>t. (my_lcore g, t)) ts"
    "map is_id ss = [im_next g + 1..<im_next g + 1 + length ts]"
    using Cons.IH [of ?g] Cons.prems by auto
  have u: "[im_next g..<im_next g + length (t # ts)] = im_next g # [im_next g + 1..<im_next g + 1 + length ts]"
    by (simp add: upt_conv_Cons del: upt_Suc)
  show ?case
    unfolding u using a s by (intro exI [of _ "?s # ss"]) (simp del: upt_Suc)
qed simp

lemma find_nth_session:
  assumes "map is_id (im_sessions g) = [k..<k + n]" and "i < n"
  shows "find_ipc_session (k + i) g = Some (im_sessions g ! i)"
proof -
  have l: "length (im_sessions g) = n" using assms(1) by (metis add_diff_cancel_left' length_map length_upt)
  have id: "is_id (im_sessions g ! j) = k + j" if "j < n" for j
    using that l assms(1) by (metis add.commute nth_map nth_upt add_less_cancel_left)
  show ?thesis unfolding find_ipc_session_def find_Some_iff
    using id assms(2) l by (intro exI [of _ i]) auto
qed

text \<open>
  Both ends agree on the rings.  After the server made the rings for the cores of the two
  masks, every server core that starts and every target core that connects to it succeed, and
  each sends into the ring that the other one reads.
\<close>

theorem ipc_pairing:
  assumes "zcell_config_init mk zm tm = Done (zic, R)" and "z \<in> set (zcell_cores zic)" and "t \<in> set (tgt_cores zic)"
  shows "\<exists>gs gc gc' sid s c. srv_ipc_constructor z (Some zic) R g = Done (0, gs) \<and>
    cli_ipc_constructor t (Some zic) R g' = Done (0, gc) \<and> cli_ipc_connect2 R z priv gc = Done (sid, gc') \<and>
    find_ipc_session (is_id s) gs = Some s \<and> find_ipc_session sid gc' = Some c \<and>
    out_q c = in_q s \<and> out_q s = in_q c \<and> R (in_q s) \<noteq> None \<and> R (in_q c) \<noteq> None \<and>
    cli_ipc_get_session_ctx sid gc' = Done priv"
proof -
  have f: "run_fold (create_pair mk) (List.product (tgt_cores zic) (zcell_cores zic)) (\<lambda>_. None) = Done R"
    using assms(1) by (auto simp: zcell_config_init_def run_bind_Done Let_def)
  have rings: "R (t', z) \<noteq> None \<and> R (z, t') \<noteq> None" if "t' \<in> set (tgt_cores zic)" for t'
    using create_pairs [OF f] that assms(2) by force
  let ?g1 = "g\<lparr> my_lcore := z, im_sessions := [] \<rparr>"
  let ?n = "length (tgt_cores zic)"
  obtain ss where ss: "run_fold (add_session R 0) (tgt_cores zic) ?g1 = Done (?g1\<lparr> im_sessions := ss, im_next := im_next g + ?n \<rparr>)"
    "map in_q ss = map (\<lambda>t. (t, z)) (tgt_cores zic)" "map out_q ss = map (\<lambda>t. (z, t)) (tgt_cores zic)"
    "map is_id ss = [im_next g..<im_next g + ?n]"
    using add_sessions [of "tgt_cores zic" R ?g1 0] rings by auto
  let ?gs = "?g1\<lparr> im_sessions := ss, im_next := im_next g + ?n, im_poller := Some False, im_running := True \<rparr>"
  have srv: "srv_ipc_constructor z (Some zic) R g = Done (0, ?gs)"
    using ss(1) by (simp add: srv_ipc_constructor_def ipc_messager_constructor_def)
  obtain i where i: "i < ?n" "tgt_cores zic ! i = t" using assms(3) by (auto simp: in_set_conv_nth)
  let ?s = "ss ! i"
  have len: "length ss = ?n" using arg_cong [OF ss(2), of length] by simp
  have s: "in_q ?s = (t, z)" "out_q ?s = (z, t)" "is_id ?s = im_next g + i"
    using i len arg_cong [OF ss(2), of "\<lambda>xs. xs ! i"] arg_cong [OF ss(3), of "\<lambda>xs. xs ! i"]
      arg_cong [OF ss(4), of "\<lambda>xs. xs ! i"] by simp_all
  have fs: "find_ipc_session (is_id ?s) ?gs = Some ?s"
    unfolding s(3) using find_nth_session [of ?gs "im_next g" ?n i] ss(4) i(1) by simp
  let ?gc = "g'\<lparr> my_lcore := t, im_sessions := [], im_running := True \<rparr>"
  let ?c = "\<lparr> is_id = im_next g', is_priv = priv, tgt_core = z, nr_to_flush = 0, out_q = (t, z), in_q = (z, t) \<rparr>"
  have cli: "cli_ipc_constructor t (Some zic) R g' = Done (0, ?gc)"
    by (simp add: cli_ipc_constructor_def ipc_messager_constructor_def)
  let ?gc' = "?gc\<lparr> im_sessions := [?c], im_next := im_next g' + 1 \<rparr>"
  have con: "cli_ipc_connect2 R z priv ?gc = Done (im_next g', ?gc')"
    using rings [OF assms(3)] by (simp add: cli_ipc_connect2_def add_session_def)
  have fc: "find_ipc_session (im_next g') ?gc' = Some ?c" by (simp add: find_ipc_session_def)
  have cr: "out_q ?c = in_q ?s" "out_q ?s = in_q ?c" "R (in_q ?s) \<noteq> None" "R (in_q ?c) \<noteq> None"
    using s rings [OF assms(3)] by simp_all
  have ctx: "cli_ipc_get_session_ctx (im_next g') ?gc' = Done priv"
    unfolding cli_ipc_get_session_ctx_def fc by simp
  show ?thesis using srv cli con fs fc cr ctx by blast
qed

section \<open>Instances\<close>

text \<open>A ring as a list.\<close>

definition list_ring :: "nat \<Rightarrow> message list ring_ops" where
  "list_ring cap = \<lparr> ring_enqueue = (\<lambda>r ms. if length r + length ms \<le> cap then (length ms, r @ ms) else (0, r)),
     ring_count = length, ring_dequeue = (\<lambda>r n. (take n r, drop n r)) \<rparr>"

lemma list_ring_laws: "ring_laws (list_ring cap) (\<lambda>r. r) cap"
  by (simp add: ring_laws_def list_ring_def)

definition demo_session :: "nat \<Rightarrow> nat \<Rightarrow> ipc_session" where
  "demo_session my other = \<lparr> is_id = 1, is_priv = 0, tgt_core = other, nr_to_flush = 0, out_q = (my, other), in_q = (other, my) \<rparr>"

definition demo_link :: "message list \<Rightarrow> message list link" where
  "demo_link ms = \<lparr> lk_ops = list_ring 2, lk_contents = (\<lambda>r. r), lk_cap = 2, lk_rings = (\<lambda>_. None)((0, 1) \<mapsto> ms, (1, 0) \<mapsto> []),
     lk_from = ipc_messager_off\<lparr> im_sessions := [demo_session 0 1] \<rparr>, lk_from_sid = 1,
     lk_to = ipc_messager_off\<lparr> my_lcore := 1, im_sessions := [demo_session 1 0] \<rparr>, lk_to_sid = 1 \<rparr>"

lemma demo_link_inv: "length ms \<le> 2 \<Longrightarrow> link_inv (demo_link ms)"
  by (rule link_invI [where q = "(0, 1)" and r = ms])
    (simp_all add: demo_link_def list_ring_laws REQ_BATCH_SIZE_def link_ring_def find_ipc_session_def demo_session_def)

lemma demo_link_pending: "link_pending (demo_link ms) = map (stamp 1) ms"
  by (simp add: demo_link_def link_pending_def find_ipc_session_def demo_session_def)

lemma ipc_fifo_witness:
  "\<exists>l'. link_run [Fifo_put message_zero, Fifo_put (stamp 7 message_zero), Fifo_take] (demo_link []) = Done l' \<and>
     im_received (lk_to l') @ link_pending l' = [stamp 1 message_zero, stamp 1 message_zero]"
proof -
  let ?es = "[Fifo_put message_zero, Fifo_put (stamp 7 message_zero), Fifo_take]"
  have inv: "link_inv (demo_link [])" by (rule demo_link_inv) simp
  have e: "im_received (lk_to (demo_link [])) = []" "lk_to_sid (demo_link []) = 1" "lk_cap (demo_link []) = 2"
    by (simp_all add: demo_link_def ipc_messager_off_def)
  have room: "length (link_pending (demo_link [])) + length (fifo_puts ?es) \<le> lk_cap (demo_link [])"
    by (simp add: e demo_link_pending)
  obtain l' acc where l': "link_run ?es (demo_link []) = Done l'" "acc = fifo_puts ?es"
    "im_received (lk_to l') @ link_pending l' = im_received (lk_to (demo_link [])) @ link_pending (demo_link []) @
       map (stamp (lk_to_sid (demo_link []))) acc"
    using ipc_fifo [OF inv, of ?es] room by blast
  have "im_received (lk_to l') @ link_pending l' = [stamp 1 message_zero, stamp 1 message_zero]"
    unfolding l'(2,3) e demo_link_pending by (simp add: stamp_def)
  then show ?thesis using l'(1) by blast
qed

lemma full_ring_loses_witness:
  "\<exists>R g. message_send (list_ring 2) (stamp 1 message_zero) ((\<lambda>_. None)((0, 1) \<mapsto> [message_zero, message_zero], (1, 0) \<mapsto> []))
     (ipc_messager_off\<lparr> im_sessions := [demo_session 0 1] \<rparr>) = Done (0, R, g) \<and>
     link_pending ((demo_link [message_zero, message_zero])\<lparr> lk_rings := R, lk_from := g \<rparr>) = [stamp 1 message_zero, stamp 1 message_zero] \<and>
     im_sent g = [stamp 1 message_zero]"
proof -
  let ?l = "demo_link [message_zero, message_zero]"
  have inv: "link_inv ?l" by (rule demo_link_inv) simp
  have p: "length (link_pending ?l) = lk_cap ?l" by (simp add: demo_link_pending) (simp add: demo_link_def)
  have f: "find_ipc_session (lk_from_sid ?l) (lk_from ?l) = Some (demo_session 0 1)"
    by (simp add: demo_link_def find_ipc_session_def demo_session_def)
  have m: "priv_ctx (stamp 1 message_zero) = lk_from_sid ?l" by (simp add: stamp_def demo_link_def)
  have l: "lk_ops ?l = list_ring 2" "lk_rings ?l = (\<lambda>_. None)((0, 1) \<mapsto> [message_zero, message_zero], (1, 0) \<mapsto> [])"
    "lk_from ?l = ipc_messager_off\<lparr> im_sessions := [demo_session 0 1] \<rparr>"
    by (simp_all add: demo_link_def)
  show ?thesis using full_ring_loses [OF inv p f m] unfolding l demo_link_pending by (auto simp: ipc_messager_off_def)
qed

lemma ipc_pairing_witness:
  "\<exists>zic R gs gc gc' sid s c. zcell_config_init (\<lambda>_. Some ([] :: message list)) 1 2 = Done (zic, R) \<and>
     srv_ipc_constructor 0 (Some zic) R ipc_messager_off = Done (0, gs) \<and>
     cli_ipc_constructor 1 (Some zic) R ipc_messager_off = Done (0, gc) \<and> cli_ipc_connect2 R 0 7 gc = Done (sid, gc') \<and>
     find_ipc_session (is_id s) gs = Some s \<and> find_ipc_session sid gc' = Some c \<and> out_q c = in_q s \<and> out_q s = in_q c"
proof -
  have c1: "core_mask_convert 1 = [0]" and c2: "core_mask_convert 2 = [1]"
    by (simp_all add: core_mask_convert_def upt_conv_Cons bit_1_iff bit_2_iff)
  let ?zic = "\<lparr> zcell_cores = [0], tgt_cores = [1] \<rparr>"
  obtain R where z: "zcell_config_init (\<lambda>_. Some ([] :: message list)) 1 2 = Done (?zic, R)"
    by (simp add: zcell_config_init_def c1 c2 create_pair_def Let_def)
  have m: "0 \<in> set (zcell_cores ?zic)" "1 \<in> set (tgt_cores ?zic)" by simp_all
  show ?thesis using ipc_pairing [OF z m, of ipc_messager_off ipc_messager_off 7] z by metis
qed

end
