(* ===== verification/End_To_End.thy ===== *)
theory End_To_End
  imports Server_Correct Liboss_Correct Ipc_Correct
begin

text \<open>
  The parts together: a client on one core writes through the library, the rings and the
  server to the device, and gets the result back.
\<close>

lemma stamp_simps [simp]:
  "m_header (stamp s m) = m_header m" "meta_buffer (stamp s m) = meta_buffer m" "data_buffer (stamp s m) = data_buffer m"
  by (simp_all add: stamp_def)

lemma stamp_priv: "priv_ctx (stamp s m) = s"
  by (simp add: stamp_def)

lemma stamp_getters [simp]:
  "message_get_status (stamp s m) = message_get_status m" "message_get_op (stamp s m) = message_get_op m"
  "message_get_data_len (stamp s m) = message_get_data_len m" "message_get_seq (stamp s m) = message_get_seq m"
  "resp_id (stamp s m) = resp_id m"
  by (simp_all add: message_get_status_def message_get_op_def message_get_data_len_def message_get_seq_def resp_id_def)

text \<open>The arguments of a write as the server reads them.\<close>

lemma write_meta:
  fixes ofst :: nat
  assumes "oid < 2 ^ 64" and "len < 2 ^ 64"
  defines "meta \<equiv> op_rw_encode \<lparr> rw_oid = oid, rw_ofst = ofst mod 2 ^ 32, rw_len = len, rw_flags = 0 \<rparr>"
  shows "length meta = 32" and "op_rw_decode meta = \<lparr> rw_oid = oid, rw_ofst = ofst mod 2 ^ 32, rw_len = len, rw_flags = 0 \<rparr>"
    and "field meta 16 8 = len"
proof -
  have o: "ofst mod 2 ^ 32 < 2 ^ 64" by (rule less_le_trans [OF mod_less_divisor]) simp_all
  show "length meta = 32" by (simp add: meta_def op_rw_encode_def)
  show d: "op_rw_decode meta = \<lparr> rw_oid = oid, rw_ofst = ofst mod 2 ^ 32, rw_len = len, rw_flags = 0 \<rparr>"
    unfolding meta_def using op_rw_decode_encode [of "\<lparr> rw_oid = oid, rw_ofst = ofst mod 2 ^ 32, rw_len = len, rw_flags = 0 \<rparr>" "[]"]
      assms(1,2) o by simp
  have "field meta 16 8 = rw_len (op_rw_decode meta)" by (simp add: op_rw_decode_def)
  then show "field meta 16 8 = len" by (simp add: d)
qed

text \<open>The same without the rings: a message and its answer are handed over.\<close>

lemma write_served_and_claimed:
  assumes "ch_inv ch" and "session_type ch = LOCAL" and "cpl_nr ch = 0" and "0 < reap_depth ch"
    and "reap_depth ch < 2 ^ 31" and "length (cpl_ops ch) = reap_depth ch"
    and "io_write ch oid buf ofst len = Done (int i, ch1)" and "oid < 2 ^ 64" and "len < 2 ^ 32"
    and "sv_ipc sv" and "reqs_ok sv" and "dev_rcs dev = []"
  shows "\<exists>msg sv1 sv2 rsp ch2 ch3 ch4 ch5.
    io_submit_to_channel ch1 [int i] [] = Done (0, ch2, [msg]) \<and> priv_ctx msg = ch_session ch \<and>
    on_recv_message (chunkstore_impl bd) env dev (stamp ssid msg) sv = Done sv1 \<and>
    cs_ios (sv_store sv1) = cs_ios (sv_store sv) @
      [let bl = obj2blk (word_of_nat oid) (word_of_nat ofst) (word_of_nat len)
       in \<lparr> ci_write = True, ci_ofst = fst bl, ci_len = snd bl, ci_rid = sv_next sv, ci_data = Some buf \<rparr>] \<and>
    store_completes chunkstore_complete (Io_done (length (cs_ios (sv_store sv))) True []) sv1 = Some (Done sv2) \<and>
    sv_ipc_out sv2 = sv_ipc_out sv @ [rsp] \<and> sv_reqs sv2 = sv_reqs sv \<and> cs_ios (sv_store sv2) = cs_ios (sv_store sv) \<and>
    priv_ctx rsp = ssid \<and> io_poll_channel ch2 1 1 [[stamp csid rsp]] = Done (1, [i], ch3) \<and>
    op_claim_result ch3 (int i) = (Some (0, msg_oss_op_write, None, 0), ch4) \<and>
    op_destory ch4 (int i) = Done (0, ch5) \<and> op_st (op_ctxs ch5 ! i) = OP_NEW"
proof -
  let ?meta = "op_rw_encode \<lparr> rw_oid = oid, rw_ofst = ofst mod 2 ^ 32, rw_len = len, rw_flags = 0 \<rparr>"
  have len64: "len < 2 ^ 64" using assms(9) by simp
  note meta = write_meta [OF assms(8) len64, of ofst]
  have w: "io_prepare_op_common ch msg_oss_op_write 32 (Some ?meta) len (Some buf) = Done (int i, ch1)"
    using assms(7) by (simp only: io_write_def)
  have ty: "msg_oss_op_write mod 256 = msg_oss_op_write" by (simp add: msg_oss_op_write_def)
  let ?h = "\<lparr> h_seq = ch_seq ch, h_type = msg_oss_op_write, h_status = 0, h_magic = LOCAL, h_meta_length = 32,
      h_data_length = len, h_slo = 0, h_rsv = (i, 0) \<rparr>"
  have client: "\<exists>msg ch2 ch3 ch4 ch5. io_submit_to_channel ch1 [int i] [] = Done (0, ch2, [msg]) \<and>
      m_header msg = ?h \<and> meta_buffer msg = Some ?meta \<and> data_buffer msg = Some buf \<and> priv_ctx msg = ch_session ch \<and>
      io_poll_channel ch2 1 1 [[m]] = Done (1, [i], ch3) \<and>
      op_claim_result ch3 (int i) = (Some (message_get_status m, message_get_op m, data_buffer m, message_get_data_len m), ch4) \<and>
      op_destory ch4 (int i) = Done (0, ch5) \<and> ch_inv ch5 \<and> op_st (op_ctxs ch5 ! i) = OP_NEW"
    if "meta_buffer m = None" "resp_id m = i" "message_get_seq m = ch_seq ch" "message_get_op m = msg_oss_op_write" for m
    using op_roundtrip_msg [OF assms(1-6) _ w that(1-3)] that(4) unfolding ty by simp
  let ?m0 = "message_zero\<lparr> m_header := ?h \<rparr>"
  obtain msg ch2 where s: "io_submit_to_channel ch1 [int i] [] = Done (0, ch2, [msg])"
    and msg: "m_header msg = ?h" "meta_buffer msg = Some ?meta" "data_buffer msg = Some buf" "priv_ctx msg = ch_session ch"
    using client [of ?m0] by (auto simp: message_zero_def resp_id_def message_get_seq_def message_get_op_def)
  have h: "m_header (stamp ssid msg) = ?h" "data_buffer (stamp ssid msg) = Some buf" "meta_buffer (stamp ssid msg) = Some ?meta"
    by (simp_all only: stamp_simps msg(1-3))
  have hf: "h_type (m_header (stamp ssid msg)) = msg_oss_op_write" "h_magic (m_header (stamp ssid msg)) = LOCAL"
    "24 \<le> length ?meta" "h_data_length (m_header (stamp ssid msg)) = field ?meta 16 8" "0 < h_meta_length (m_header (stamp ssid msg))"
    unfolding h(1) meta(1,3) by simp_all
  note served = write_served [OF hf(1,2) assms(10) h(2,3) hf(3-5) assms(11,12), of bd env, unfolded h(1)]
  obtain sv1 sv2 rsp where sv: "on_recv_message (chunkstore_impl bd) env dev (stamp ssid msg) sv = Done sv1"
    "cs_ios (sv_store sv1) = cs_ios (sv_store sv) @ [chunk_request True ?meta (Some buf) (sv_next sv)]"
    "store_completes chunkstore_complete (Io_done (length (cs_ios (sv_store sv))) True []) sv1 = Some (Done sv2)"
    "sv_ipc_out sv2 = sv_ipc_out sv @ [rsp]" "sv_reqs sv2 = sv_reqs sv" "cs_ios (sv_store sv2) = cs_ios (sv_store sv)"
    and rsp: "m_header rsp = ?h\<lparr> h_meta_length := 0, h_data_length := 0, h_status := 0 \<rparr>" "meta_buffer rsp = None" "data_buffer rsp = None" "priv_ctx rsp = ssid"
    using served unfolding stamp_priv by (elim exE conjE) (rule that)
  have o: "word_of_nat (ofst mod 2 ^ 32) = (word_of_nat ofst :: u32)"
    unfolding word_unat_eq_iff by (simp add: unat_of_nat)
  have io: "chunk_request True ?meta (Some buf) (sv_next sv) =
      (let bl = obj2blk (word_of_nat oid) (word_of_nat ofst) (word_of_nat len)
       in \<lparr> ci_write = True, ci_ofst = fst bl, ci_len = snd bl, ci_rid = sv_next sv, ci_data = Some buf \<rparr>)"
    unfolding chunk_request_def meta(2) op_rw.select_convs o Let_def ..
  have r: "meta_buffer (stamp csid rsp) = None" "resp_id (stamp csid rsp) = i" "message_get_seq (stamp csid rsp) = ch_seq ch"
    "message_get_op (stamp csid rsp) = msg_oss_op_write" "message_get_status (stamp csid rsp) = 0"
    "data_buffer (stamp csid rsp) = None" "message_get_data_len (stamp csid rsp) = 0"
    by (simp_all add: rsp resp_id_def message_get_seq_def message_get_op_def message_get_status_def message_get_data_len_def)
  obtain ch3 ch4 ch5 where c: "io_poll_channel ch2 1 1 [[stamp csid rsp]] = Done (1, [i], ch3)"
    "op_claim_result ch3 (int i) = (Some (0, msg_oss_op_write, None, 0), ch4)"
    "op_destory ch4 (int i) = Done (0, ch5)" "op_st (op_ctxs ch5 ! i) = OP_NEW"
    using client [OF r(1-4)] s unfolding r(4-7) by auto
  show ?thesis using s msg(4) rsp(4) sv(1,3-6) sv(2) [unfolded io] c by blast
qed

text \<open>
  C6: A write from end to end.  A client on one core has a local channel and a session with a
  server on another, over a pair of rings that are empty.  It prepares a write inside an object
  of 4 MiB and submits it; the message goes through the one ring to the server, which asks the
  device to write the client's bytes to block \<open>oid * 1024 + ofst / 4096\<close> and those behind it, all
  in the 1024 blocks of that object and of no other; when the device is done the server answers
  through the session it was asked by, the answer goes through the other ring to the client,
  the client's poll reports the descriptor, the claim yields status 0, and the descriptor is
  free again.  On both sides and in both rings nothing is left behind.
\<close>

theorem write_end_to_end:
  assumes "ch_inv ch" and "session_type ch = LOCAL" and "cpl_nr ch = 0" and "0 < reap_depth ch"
    and "reap_depth ch < 2 ^ 31" and "length (cpl_ops ch) = reap_depth ch" and "ch_session ch = lk_from_sid l"
    and "io_write ch oid buf ofst len = Done (int i, ch1)"
    and "oid < 2 ^ 22" and "ofst < 2 ^ 22" and "ofst + len \<le> 2 ^ 22"
    and "duplex l" and "link_pending l = []" and "link_pending (link_back l) = []" and "0 < lk_cap l"
    and "sv_ipc sv" and "reqs_ok sv" and "dev_rcs dev = []"
  shows "\<exists>msg l1 l2 req sv1 io sv2 rsp l3 l4 ans ch2 ch3 ch4 ch5.
    io_submit_to_channel ch1 [int i] [] = Done (0, ch2, [msg]) \<and> priv_ctx msg = lk_from_sid l \<and>
    link_send msg l = Done l1 \<and> link_poll l1 = Done (1, l2) \<and> im_received (lk_to l2) = im_received (lk_to l) @ [req] \<and>
    on_recv_message (chunkstore_impl bd) env dev req sv = Done sv1 \<and>
    cs_ios (sv_store sv1) = cs_ios (sv_store sv) @ [io] \<and> ci_write io \<and> ci_data io = Some buf \<and>
    unat (ci_ofst io) = oid * 1024 + ofst div 4096 \<and> unat (ci_len io) = len div 4096 \<and>
    unat (ci_ofst io) + unat (ci_len io) \<le> (oid + 1) * 1024 \<and>
    store_completes chunkstore_complete (Io_done (length (cs_ios (sv_store sv))) True []) sv1 = Some (Done sv2) \<and>
    sv_ipc_out sv2 = sv_ipc_out sv @ [rsp] \<and> sv_reqs sv2 = sv_reqs sv \<and> cs_ios (sv_store sv2) = cs_ios (sv_store sv) \<and>
    priv_ctx rsp = lk_to_sid l \<and> link_send rsp (link_back l2) = Done l3 \<and> link_poll l3 = Done (1, l4) \<and>
    im_received (lk_to l4) = im_received (lk_from l) @ [ans] \<and> link_pending l4 = [] \<and> link_pending (link_back l4) = [] \<and>
    io_poll_channel ch2 1 1 [[ans]] = Done (1, [i], ch3) \<and>
    op_claim_result ch3 (int i) = (Some (0, msg_oss_op_write, None, 0), ch4) \<and>
    op_destory ch4 (int i) = Done (0, ch5) \<and> op_st (op_ctxs ch5 ! i) = OP_NEW"
proof -
  have b: "oid < 2 ^ 64" "len < 2 ^ 32" using assms(9-11) by simp_all
  obtain msg sv1 sv2 rsp ch2 ch3 ch4 ch5 where
    s: "io_submit_to_channel ch1 [int i] [] = Done (0, ch2, [msg])" "priv_ctx msg = ch_session ch"
    and sv: "on_recv_message (chunkstore_impl bd) env dev (stamp (lk_to_sid l) msg) sv = Done sv1"
      "cs_ios (sv_store sv1) = cs_ios (sv_store sv) @
        [let bl = obj2blk (word_of_nat oid) (word_of_nat ofst) (word_of_nat len)
         in \<lparr> ci_write = True, ci_ofst = fst bl, ci_len = snd bl, ci_rid = sv_next sv, ci_data = Some buf \<rparr>]"
      "store_completes chunkstore_complete (Io_done (length (cs_ios (sv_store sv))) True []) sv1 = Some (Done sv2)"
      "sv_ipc_out sv2 = sv_ipc_out sv @ [rsp]" "sv_reqs sv2 = sv_reqs sv" "cs_ios (sv_store sv2) = cs_ios (sv_store sv)"
      "priv_ctx rsp = lk_to_sid l"
    and c: "io_poll_channel ch2 1 1 [[stamp (lk_from_sid l) rsp]] = Done (1, [i], ch3)"
      "op_claim_result ch3 (int i) = (Some (0, msg_oss_op_write, None, 0), ch4)"
      "op_destory ch4 (int i) = Done (0, ch5)" "op_st (op_ctxs ch5 ! i) = OP_NEW"
    using write_served_and_claimed [OF assms(1-6,8) b assms(16-18), where ssid = "lk_to_sid l" and csid = "lk_from_sid l"
      and bd = bd and env = env] by (elim exE conjE) (rule that)
  have p0: "length (link_pending l) < lk_cap l" using assms(13,15) by simp
  obtain l1 where l1: "link_send msg l = Done l1" "duplex l1" "link_pending l1 = link_pending l @ [stamp (lk_to_sid l) msg]"
    "link_pending (link_back l1) = link_pending (link_back l)" "lk_to l1 = lk_to l" "lk_to_sid l1 = lk_to_sid l"
    "lk_from_sid l1 = lk_from_sid l" "lk_cap l1 = lk_cap l" "im_received (lk_from l1) = im_received (lk_from l)"
    by (rule duplex_send [OF assms(12) p0])
  obtain l2 where l2: "link_poll l1 = Done (length (link_pending l1), l2)" "duplex l2" "link_pending l2 = []"
    "im_received (lk_to l2) = im_received (lk_to l1) @ link_pending l1" "link_pending (link_back l2) = link_pending (link_back l1)"
    "lk_from l2 = lk_from l1" "lk_from_sid l2 = lk_from_sid l1" "lk_to_sid l2 = lk_to_sid l1" "lk_cap l2 = lk_cap l1"
    by (rule duplex_poll [OF l1(2)])
  have there: "link_poll l1 = Done (1, l2)" "im_received (lk_to l2) = im_received (lk_to l) @ [stamp (lk_to_sid l) msg]"
    using l2(1,4) by (simp_all add: l1(3,5) assms(13))
  have p2: "length (link_pending (link_back l2)) < lk_cap (link_back l2)" by (simp add: l2(5,9) l1(4,8) assms(14,15))
  obtain l3 where l3: "link_send rsp (link_back l2) = Done l3" "duplex l3"
    "link_pending l3 = link_pending (link_back l2) @ [stamp (lk_to_sid (link_back l2)) rsp]"
    "link_pending (link_back l3) = link_pending (link_back (link_back l2))" "lk_to l3 = lk_to (link_back l2)"
    by (rule duplex_send [OF duplex_back [OF l2(2)] p2])
  obtain l4 where l4: "link_poll l3 = Done (length (link_pending l3), l4)" "link_pending l4 = []"
    "im_received (lk_to l4) = im_received (lk_to l3) @ link_pending l3" "link_pending (link_back l4) = link_pending (link_back l3)"
    by (rule duplex_poll [OF l3(2)])
  have home: "link_poll l3 = Done (1, l4)" "im_received (lk_to l4) = im_received (lk_from l) @ [stamp (lk_from_sid l) rsp]"
    "link_pending (link_back l4) = []"
    using l4(1,3,4) by (simp_all add: l3(3-5) l2(3,5-7) l1(4,7,9) assms(14))
  define bl where "bl = obj2blk (word_of_nat oid) (word_of_nat ofst) (word_of_nat len)"
  define io where "io = \<lparr> ci_write = True, ci_ofst = fst bl, ci_len = snd bl, ci_rid = sv_next sv, ci_data = Some buf \<rparr>"
  have io: "cs_ios (sv_store sv1) = cs_ios (sv_store sv) @ [io]" "ci_write io" "ci_data io = Some buf"
    using sv(2) by (simp_all add: io_def bl_def Let_def)
  have place: "unat (ci_ofst io) = oid * 1024 + ofst div 4096" "unat (ci_len io) = len div 4096"
    using obj2blk_nat [OF assms(9,10) b(2)] by (simp_all add: io_def bl_def)
  have "ofst + len \<le> 4194304" using assms(11) by simp
  then have "ofst div 4096 + len div 4096 \<le> 1024" by linarith
  then have fits: "unat (ci_ofst io) + unat (ci_len io) \<le> (oid + 1) * 1024" unfolding place by simp
  have sess: "priv_ctx msg = lk_from_sid l" using s(2) assms(7) by simp
  show ?thesis
    by (intro exI conjI, rule s(1), rule sess, rule l1(1), rule there(1), rule there(2), rule sv(1), rule io(1), rule io(2), rule io(3),
      rule place(1), rule place(2), rule fits, rule sv(3), rule sv(4), rule sv(5), rule sv(6), rule sv(7), rule l3(1), rule home(1),
      rule home(2), rule l4(2), rule home(3), rule c(1), rule c(2), rule c(3), rule c(4))
qed

section \<open>An instance\<close>

definition demo_duplex :: "message list link" where
  "demo_duplex = (demo_link [])\<lparr> lk_from := ipc_messager_off\<lparr> im_sessions := [(demo_session 0 1)\<lparr> is_id := 7 \<rparr>] \<rparr>, lk_from_sid := 7 \<rparr>"

lemma demo_duplex_ok: "duplex demo_duplex" "link_pending demo_duplex = []" "link_pending (link_back demo_duplex) = []"
  "lk_cap demo_duplex = 2" "lk_from_sid demo_duplex = 7"
proof -
  have "link_inv demo_duplex"
    by (rule link_invI [where q = "(0, 1)" and r = "[]"])
      (simp_all add: demo_duplex_def demo_link_def list_ring_laws REQ_BATCH_SIZE_def link_ring_def find_ipc_session_def demo_session_def)
  moreover have "link_inv (link_back demo_duplex)"
    by (rule link_invI [where q = "(1, 0)" and r = "[]"])
      (simp_all add: demo_duplex_def demo_link_def list_ring_laws REQ_BATCH_SIZE_def link_ring_def find_ipc_session_def demo_session_def)
  moreover have "from_rings demo_duplex = Some ((0, 1), (1, 0))"
    by (simp add: from_rings_def demo_duplex_def demo_link_def find_ipc_session_def demo_session_def)
  ultimately show "duplex demo_duplex" by (simp add: duplex_def)
  show "link_pending demo_duplex = []" "link_pending (link_back demo_duplex) = []" "lk_cap demo_duplex = 2" "lk_from_sid demo_duplex = 7"
    by (simp_all add: demo_duplex_def demo_link_def link_pending_def find_ipc_session_def demo_session_def)
qed

lemma write_end_to_end_witness:
  "\<exists>ch0 ch1 i msg l1 l2 req sv1 sv2 rsp l3 l4 ans ch2 ch3 ch4 ch5. get_io_channel LOCAL (64 * 1) (Some 7) = Some ch0 \<and>
    io_write ch0 3 (replicate 4096 7) 8192 4096 = Done (int i, ch1) \<and>
    io_submit_to_channel ch1 [int i] [] = Done (0, ch2, [msg]) \<and>
    link_send msg demo_duplex = Done l1 \<and> link_poll l1 = Done (1, l2) \<and> im_received (lk_to l2) = [req] \<and>
    on_recv_message (chunkstore_impl demo_bd) demo_env demo_dev req demo_server = Done sv1 \<and>
    map (\<lambda>io. (unat (ci_ofst io), unat (ci_len io), ci_data io)) (cs_ios (sv_store sv1)) = [(3074, 1, Some (replicate 4096 7))] \<and>
    store_completes chunkstore_complete (Io_done 0 True []) sv1 = Some (Done sv2) \<and> sv_ipc_out sv2 = [rsp] \<and>
    link_send rsp (link_back l2) = Done l3 \<and> link_poll l3 = Done (1, l4) \<and> im_received (lk_to l4) = [ans] \<and>
    io_poll_channel ch2 1 1 [[ans]] = Done (1, [i], ch3) \<and>
    op_claim_result ch3 (int i) = (Some (0, msg_oss_op_write, None, 0), ch4) \<and> op_destory ch4 (int i) = Done (0, ch5)"
proof -
  obtain ch0 where c: "get_io_channel LOCAL (64 * 1) (Some 7) = Some ch0" "ch_inv ch0" "session_type ch0 = LOCAL" "cpl_nr ch0 = 0"
    "reap_depth ch0 = 64" "length (cpl_ops ch0) = 64" "queue_depth ch0 = 64" "ch_seq ch0 = 0" "ids_free ch0 \<noteq> {}"
    by (rule local_channel)
  have sess: "ch_session ch0 = lk_from_sid demo_duplex" using c(1) by (auto simp: get_io_channel_def demo_duplex_ok)
  obtain r ch1 where p: "io_write ch0 3 (replicate 4096 7) 8192 4096 = Done (r, ch1)"
    using prepare_done [OF c(2), of 32] by (fastforce simp only: io_write_def)
  obtain i where i: "r = int i"
    using prepare_shape [OF c(2) _ p [unfolded io_write_def]] c(9) by auto
  have rd: "0 < reap_depth ch0" "reap_depth ch0 < 2 ^ 31" "length (cpl_ops ch0) = reap_depth ch0" using c(5,6) by simp_all
  have sv: "sv_ipc demo_server" "reqs_ok demo_server" "dev_rcs demo_dev = []" "cs_ios (sv_store demo_server) = []" "sv_ipc_out demo_server = []"
    by (simp_all add: demo_server_def reqs_ok_def demo_dev_def chunkstore_init_def)
  have n: "(3 :: nat) < 2 ^ 22" "(8192 :: nat) < 2 ^ 22" "8192 + 4096 \<le> (2 :: nat) ^ 22" "0 < lk_cap demo_duplex"
    by (simp_all add: demo_duplex_ok)
  have rec: "im_received (lk_to demo_duplex) = []" "im_received (lk_from demo_duplex) = []"
    by (simp_all add: demo_duplex_def demo_link_def ipc_messager_off_def)
  show ?thesis
    using write_end_to_end [OF c(2-4) rd sess p [unfolded i] n(1-3) demo_duplex_ok(1-3) n(4) sv(1-3), where bd = demo_bd and env = demo_env]
      c(1) p i
    unfolding sv(4,5) rec by (elim exE conjE) (intro exI conjI, assumption+, simp_all)
qed

end
