(* ===== verification/Bdev_Zcell_Correct.thy ===== *)
theory Bdev_Zcell_Correct
  imports Bdev_Zcell End_To_End "HOL-Library.Multiset"
begin

text \<open>
  How far the block device keeps the promise of its interface: as long as the process lives
  every request given to it is completed exactly once, with the status the server sent, or is
  still in progress, without a buffer, or dropped; a write reaches the blocks of the device with
  the same numbers.  And where it does not: all disks are the same blocks, and a buffer in
  several pieces or a full table of operations ends the process.
\<close>

section \<open>A request and its operation\<close>

text \<open>The operations in progress carry the requests that are not completed yet.\<close>

definition outstanding :: "io_channel \<Rightarrow> nat list" where
  "outstanding ch = map (\<lambda>i. user_data (op_ctxs ch ! i))
     (filter (\<lambda>i. op_st (op_ctxs ch ! i) = OP_IN_PROGRESS) [0..<queue_depth ch])"

lemma mset_outstanding:
  "mset (outstanding ch) = image_mset (\<lambda>i. user_data (op_ctxs ch ! i))
     (mset_set {i. i < queue_depth ch \<and> op_st (op_ctxs ch ! i) = OP_IN_PROGRESS})"
proof -
  have "mset (filter P [0..<n]) = mset_set {i. i < n \<and> P i}" for P and n :: nat
    by (subst mset_set_set [symmetric]) (auto intro: arg_cong [where f = mset_set])
  then show ?thesis by (simp add: outstanding_def)
qed

lemma op_ctx_all: "(op :: op_ctx)\<lparr> op_msg := m, user_data := u, op_st := s \<rparr> = \<lparr> op_msg = m, op_st = s, user_data = u \<rparr>"
  by (cases op) simp

lemma submit_core:
  assumes "ch_inv ch" and "session_type ch = LOCAL" and "ms \<le> 255"
    and "io_prepare_op_common ch ty ms meta dl data = Done (int i, ch1)"
  shows "\<exists>ch3 msg. run_bind (op_set_userdata ch1 i b) (\<lambda>ch2. run_bind (io_submit_to_channel ch2 [int i] [])
        (\<lambda>(rc, ch3, sent). if rc \<noteq> 0 then Assert_fails else Done (f ch3, sent, x))) = Done (f ch3, [msg], x) \<and>
    ch_inv ch3 \<and> i < queue_depth ch \<and> op_st (op_ctxs ch ! i) = OP_NEW \<and>
    op_ctxs ch3 = (op_ctxs ch)[i := \<lparr> op_msg = msg, op_st = OP_IN_PROGRESS, user_data = b \<rparr>] \<and>
    m_header msg = \<lparr> h_seq = ch_seq ch, h_type = ty mod 256, h_status = 0, h_magic = LOCAL, h_meta_length = ms,
      h_data_length = dl, h_slo = 0, h_rsv = (i, 0) \<rparr> \<and> meta_buffer msg = meta \<and> data_buffer msg = data \<and>
    session_type ch3 = LOCAL \<and> cpl_nr ch3 = cpl_nr ch \<and> cpl_ops ch3 = cpl_ops ch \<and> reap_depth ch3 = reap_depth ch \<and>
    queue_depth ch3 = queue_depth ch"
proof -
  let ?h = "\<lparr> h_seq = ch_seq ch, h_type = ty mod 256, h_status = 0, h_magic = LOCAL, h_meta_length = ms,
      h_data_length = dl, h_slo = 0, h_rsv = (i, 0) \<rparr>"
  let ?msg = "message_state_reset ((op_msg (op_ctxs ch ! i))\<lparr> m_header := ?h, data_buffer := data, meta_buffer := meta,
     priv_ctx := ch_session ch \<rparr>)"
  have p: "i < queue_depth ch" "op_st (op_ctxs ch ! i) = OP_NEW" "ch_inv ch1"
    "op_ctxs ch1 = (op_ctxs ch)[i := (op_ctxs ch ! i)\<lparr> op_msg := ?msg, op_st := OP_WAITING_SUBMIT \<rparr>]"
    "session_type ch1 = LOCAL" "cpl_nr ch1 = cpl_nr ch" "cpl_ops ch1 = cpl_ops ch" "reap_depth ch1 = reap_depth ch"
    "queue_depth ch1 = queue_depth ch"
    using prepare_shape [OF assms(1,3,4)] assms(2) by (auto simp: ENOMEM_def)
  have l: "length (op_ctxs ch) = queue_depth ch" by (rule ch_invD(3) [OF assms(1)])
  let ?op = "(op_ctxs ch ! i)\<lparr> op_msg := ?msg, op_st := OP_WAITING_SUBMIT, user_data := b \<rparr>"
  let ?ch2 = "set_op i ?op ch1"
  have o1: "op_ctxs ch1 ! i = (op_ctxs ch ! i)\<lparr> op_msg := ?msg, op_st := OP_WAITING_SUBMIT \<rparr>" using p(1,4) l by simp
  have u: "op_set_userdata ch1 i b = Done ?ch2"
    using p(1,4) l o1 by (simp add: op_set_userdata_def get_op_def)
  have "op_id_of ?op = i" by (simp add: op_id_of_def message_state_reset_def)
  then have inv2: "ch_inv ?ch2" using set_op_inv [OF p(3), of i ?op] p(1,9) o1 by simp
  have c2: "op_ctxs ?ch2 = (op_ctxs ch)[i := ?op]" using p(4) by simp
  let ?ch3 = "mark_in_progress ?ch2 (int i)"
  have s: "io_submit_to_channel ?ch2 [int i] [] = Done (0, ?ch3, [?msg])"
    using p(1,5,9) l c2 by (simp add: io_submit_to_channel_def check_opd_def get_op_def LOCAL_def REMOTE_def)
  have "ch_inv ?ch3" using submit_inv [OF inv2 s] by simp
  moreover have "op_ctxs ?ch3 = (op_ctxs ch)[i := \<lparr> op_msg = ?msg, op_st = OP_IN_PROGRESS, user_data = b \<rparr>]"
    using p(1) l c2 by (simp add: mark_in_progress_def op_ctx_all)
  moreover have "m_header ?msg = ?h \<and> meta_buffer ?msg = meta \<and> data_buffer ?msg = data"
    by (simp add: message_state_reset_def)
  moreover have "session_type ?ch3 = LOCAL" "cpl_nr ?ch3 = cpl_nr ch" "cpl_ops ?ch3 = cpl_ops ch" "reap_depth ?ch3 = reap_depth ch"
    "queue_depth ?ch3 = queue_depth ch"
    using p(5-9) by (simp_all add: mark_in_progress_def)
  ultimately show ?thesis
    using u s p(1,2) by (intro exI [of _ ?ch3] exI [of _ ?msg]) simp
qed

section \<open>Receiving and completing\<close>

text \<open>
  The responses of a server to operations in progress: one for each at most, without
  arguments, with the number and the type of the operation.
\<close>

definition proper_answers :: "io_channel \<Rightarrow> message list \<Rightarrow> bool" where
  "proper_answers ch ms \<longleftrightarrow> answers ch ms \<and> (\<forall>m \<in> set ms. meta_buffer m = None \<and>
     h_seq (m_header m) = h_seq (m_header (op_msg (op_ctxs ch ! resp_id m))) \<and>
     h_type (m_header m) = h_type (m_header (op_msg (op_ctxs ch ! resp_id m))))"

lemma recv_all:
  assumes "ch_inv ch" and "proper_answers ch ms" and "cpl_nr ch + length ms \<le> length (cpl_ops ch)"
  shows "\<exists>ch'. on_recv_msgs ms ch = Done ch' \<and> ch_inv ch' \<and> queue_depth ch' = queue_depth ch \<and>
    reap_depth ch' = reap_depth ch \<and> session_type ch' = session_type ch \<and> length (cpl_ops ch') = length (cpl_ops ch) \<and>
    cpl_nr ch' = cpl_nr ch + length ms \<and> take (cpl_nr ch') (cpl_ops ch') = take (cpl_nr ch) (cpl_ops ch) @ map resp_id ms \<and>
    (\<forall>i. i \<notin> resp_id ` set ms \<longrightarrow> op_ctxs ch' ! i = op_ctxs ch ! i) \<and>
    (\<forall>m \<in> set ms. op_ctxs ch' ! resp_id m = (op_ctxs ch ! resp_id m)\<lparr> op_st := OP_COMPLETED, op_msg := m \<rparr>)"
  using assms
proof (induction ms arbitrary: ch)
  case (Cons m ms)
  have a: "resp_id m < queue_depth ch" "op_st (op_ctxs ch ! resp_id m) = OP_IN_PROGRESS" "resp_id m \<notin> resp_id ` set ms"
    using Cons.prems(2) by (simp_all add: proper_answers_def answers_def)
  obtain ch1 where c: "on_recv_msg m ch = Done ch1"
    using Cons.prems a(1) ch_invD(3) [OF Cons.prems(1)]
    by (simp add: on_recv_msg_def Let_def get_op_def proper_answers_def flip: resp_id_def)
  note r = recv_shape [OF Cons.prems(1) a(1,2) c]
  have ne: "resp_id x \<noteq> resp_id m" if "x \<in> set ms" for x using a(3) that by (metis imageI)
  have "op_ctxs ch1 ! resp_id x = op_ctxs ch ! resp_id x" if "x \<in> set ms" for x
    using ne [OF that] by (simp add: r)
  then have "proper_answers ch1 ms"
    using Cons.prems(2) by (simp add: proper_answers_def answers_def r(2))
  then obtain ch' where ih: "on_recv_msgs ms ch1 = Done ch'" "ch_inv ch'" "queue_depth ch' = queue_depth ch"
    "reap_depth ch' = reap_depth ch" "session_type ch' = session_type ch" "length (cpl_ops ch') = length (cpl_ops ch)"
    "cpl_nr ch' = cpl_nr ch + 1 + length ms"
    "take (cpl_nr ch') (cpl_ops ch') = take (cpl_nr ch1) (cpl_ops ch1) @ map resp_id ms"
    "\<And>i. i \<notin> resp_id ` set ms \<Longrightarrow> op_ctxs ch' ! i = op_ctxs ch1 ! i"
    "\<And>x. x \<in> set ms \<Longrightarrow> op_ctxs ch' ! resp_id x = (op_ctxs ch1 ! resp_id x)\<lparr> op_st := OP_COMPLETED, op_msg := x \<rparr>"
    using Cons.IH [OF r(1)] Cons.prems(3) by (auto simp: r)
  have t: "take (cpl_nr ch1) (cpl_ops ch1) = take (cpl_nr ch) (cpl_ops ch) @ [resp_id m]"
    using r(8) by (simp add: r(3,6) take_Suc_conv_app_nth)
  have l: "length (op_ctxs ch) = queue_depth ch" by (rule ch_invD(3) [OF Cons.prems(1)])
  have "op_ctxs ch' ! resp_id m = (op_ctxs ch ! resp_id m)\<lparr> op_st := OP_COMPLETED, op_msg := m \<rparr>"
    using ih(9) [OF a(3)] a(1) l by (simp add: r(5))
  moreover have "op_ctxs ch' ! resp_id x = (op_ctxs ch ! resp_id x)\<lparr> op_st := OP_COMPLETED, op_msg := x \<rparr>" if "x \<in> set ms" for x
    using ih(10) [OF that] ne [OF that] by (simp add: r(5))
  moreover have "op_ctxs ch' ! i = op_ctxs ch ! i" if "i \<notin> resp_id ` set (m # ms)" for i
    using ih(9) [of i] that by (auto simp: r(5))
  ultimately show ?case using c ih(1-8) t by (intro exI [of _ ch']) simp
qed simp

text \<open>Completing descriptors: claimed, reported with their status, destroyed.\<close>

definition completion_of :: "op_ctx \<Rightarrow> nat \<times> bdev_io_status" where
  "completion_of op = (user_data op, if message_get_status (op_msg op) \<noteq> 0 then SPDK_FAILED else SPDK_SUCCESS)"

lemma free_op_done:
  assumes "ch_inv ch" and "i < queue_depth ch" and "op_st (op_ctxs ch ! i) = OP_END"
  shows "\<exists>ch'. free_op i ch = Done ch' \<and> ch_inv ch' \<and> op_ctxs ch' = (op_ctxs ch)[i := (op_ctxs ch ! i)\<lparr> op_st := OP_NEW \<rparr>] \<and>
    queue_depth ch' = queue_depth ch \<and> cpl_nr ch' = cpl_nr ch \<and> cpl_ops ch' = cpl_ops ch \<and> reap_depth ch' = reap_depth ch \<and>
    session_type ch' = session_type ch"
proof -
  note inv = ch_invD [OF assms(1)]
  have "op_id_of (op_ctxs ch ! i) = i" "\<not> bitmap_get_bit (op_bitmap ch) i"
    using inv(5,6) [OF assms(2)] assms(3) by simp_all
  then have "free_op i ch = Done (set_op i ((op_ctxs ch ! i)\<lparr> op_st := OP_NEW \<rparr>) (release_id i ch))"
    using assms(2,3) inv(3) by (simp add: free_op_def get_op_def)
  then show ?thesis using free_op_inv [OF assms(1,2)] by (simp add: release_id_def)
qed

lemma complete_one:
  assumes "ch_inv ch" and "i < queue_depth ch" and "op_st (op_ctxs ch ! i) = OP_COMPLETED"
  shows "\<exists>ch1 ch2 r. op_get_userdata ch i = Done (user_data (op_ctxs ch ! i)) \<and>
    op_claim_result ch (int i) = (Some (message_get_status (op_msg (op_ctxs ch ! i)), r), ch1) \<and>
    op_destory ch1 (int i) = Done (0, ch2) \<and> ch_inv ch2 \<and>
    op_ctxs ch2 = (op_ctxs ch)[i := (op_ctxs ch ! i)\<lparr> op_st := OP_NEW \<rparr>] \<and> queue_depth ch2 = queue_depth ch \<and>
    cpl_nr ch2 = cpl_nr ch \<and> cpl_ops ch2 = cpl_ops ch \<and> reap_depth ch2 = reap_depth ch \<and> session_type ch2 = session_type ch"
proof -
  let ?op = "op_ctxs ch ! i"
  let ?ch1 = "set_op i (?op\<lparr> op_st := OP_END \<rparr>) ch"
  have l: "length (op_ctxs ch) = queue_depth ch" by (rule ch_invD(3) [OF assms(1)])
  have c: "op_claim_result ch (int i) = (Some (message_get_status (op_msg ?op), message_get_op (op_msg ?op),
      data_buffer (op_msg ?op), message_get_data_len (op_msg ?op)), ?ch1)"
    using assms(2,3) by (simp add: op_claim_result_def Let_def)
  have "ch_inv ?ch1" using claim_inv [OF assms(1) c] by simp
  moreover have o1: "op_ctxs ?ch1 ! i = ?op\<lparr> op_st := OP_END \<rparr>" using assms(2) l by simp
  ultimately obtain ch2 where f: "free_op i ?ch1 = Done ch2" "ch_inv ch2"
    "op_ctxs ch2 = (op_ctxs ch)[i := ?op\<lparr> op_st := OP_NEW \<rparr>]" "queue_depth ch2 = queue_depth ch"
    "cpl_nr ch2 = cpl_nr ch" "cpl_ops ch2 = cpl_ops ch" "reap_depth ch2 = reap_depth ch" "session_type ch2 = session_type ch"
    using free_op_done [of ?ch1 i] assms(2) by auto
  have "op_destory ?ch1 (int i) = Done (0, ch2)"
    using assms(2) l o1 f(1) by (simp add: op_destory_def get_op_def)
  moreover have "op_get_userdata ch i = Done (user_data ?op)"
    using assms(2) l by (simp add: op_get_userdata_def get_op_def)
  ultimately show ?thesis using c f(2-) by blast
qed

lemma complete_all:
  assumes "ch_inv ch" and "distinct ids" and "\<forall>i \<in> set ids. i < queue_depth ch \<and> op_st (op_ctxs ch ! i) = OP_COMPLETED"
  shows "\<exists>ch'. complete_ops ids ch = Done (map (\<lambda>i. completion_of (op_ctxs ch ! i)) ids, ch') \<and> ch_inv ch' \<and>
    queue_depth ch' = queue_depth ch \<and> cpl_nr ch' = cpl_nr ch \<and> cpl_ops ch' = cpl_ops ch \<and> reap_depth ch' = reap_depth ch \<and>
    session_type ch' = session_type ch \<and> (\<forall>i. i \<notin> set ids \<longrightarrow> op_ctxs ch' ! i = op_ctxs ch ! i) \<and>
    (\<forall>i \<in> set ids. op_st (op_ctxs ch' ! i) = OP_NEW)"
  using assms
proof (induction ids arbitrary: ch)
  case (Cons i ids)
  have i: "i < queue_depth ch" "op_st (op_ctxs ch ! i) = OP_COMPLETED" "i \<notin> set ids" using Cons.prems by simp_all
  obtain ch1 ch2 r where c: "op_get_userdata ch i = Done (user_data (op_ctxs ch ! i))"
    "op_claim_result ch (int i) = (Some (message_get_status (op_msg (op_ctxs ch ! i)), r), ch1)"
    "op_destory ch1 (int i) = Done (0, ch2)" "ch_inv ch2"
    "op_ctxs ch2 = (op_ctxs ch)[i := (op_ctxs ch ! i)\<lparr> op_st := OP_NEW \<rparr>]" "queue_depth ch2 = queue_depth ch"
    "cpl_nr ch2 = cpl_nr ch" "cpl_ops ch2 = cpl_ops ch" "reap_depth ch2 = reap_depth ch" "session_type ch2 = session_type ch"
    using complete_one [OF Cons.prems(1) i(1,2)] by (elim exE conjE) (rule that)
  have same: "op_ctxs ch2 ! j = op_ctxs ch ! j" if "j \<in> set ids" for j
    using i(3) that by (cases "j = i") (simp_all add: c(5))
  have "\<forall>j \<in> set ids. j < queue_depth ch2 \<and> op_st (op_ctxs ch2 ! j) = OP_COMPLETED"
    using Cons.prems(3) same by (simp add: c(6))
  from Cons.IH [OF c(4) _ this] obtain ch' where
    ih: "complete_ops ids ch2 = Done (map (\<lambda>i. completion_of (op_ctxs ch2 ! i)) ids, ch')" "ch_inv ch'"
    "queue_depth ch' = queue_depth ch" "cpl_nr ch' = cpl_nr ch" "cpl_ops ch' = cpl_ops ch" "reap_depth ch' = reap_depth ch"
    "session_type ch' = session_type ch" "\<And>j. j \<notin> set ids \<Longrightarrow> op_ctxs ch' ! j = op_ctxs ch2 ! j"
    "\<And>j. j \<in> set ids \<Longrightarrow> op_st (op_ctxs ch' ! j) = OP_NEW"
    using Cons.prems(2) by (auto simp: c)
  have "map (\<lambda>i. completion_of (op_ctxs ch2 ! i)) ids = map (\<lambda>i. completion_of (op_ctxs ch ! i)) ids"
    using same by simp
  then have "complete_ops (i # ids) ch = Done (map (\<lambda>i. completion_of (op_ctxs ch ! i)) (i # ids), ch')"
    by (simp add: c(1-3) ih(1) completion_of_def)
  moreover have "op_st (op_ctxs ch' ! i) = OP_NEW"
    using ih(8) [OF i(3)] i(1) ch_invD(3) [OF Cons.prems(1)] by (simp add: c(5))
  moreover have "op_ctxs ch' ! j = op_ctxs ch ! j" if "j \<notin> set (i # ids)" for j
    using ih(8) [of j] that by (auto simp: c(5))
  ultimately show ?case using ih(2-7,9) by (intro exI [of _ ch']) simp
qed simp

section \<open>Polling\<close>

text \<open>A channel between two polls: no completion is pending.\<close>

definition chan_ready :: "io_channel \<Rightarrow> bool" where
  "chan_ready ch \<longleftrightarrow> ch_inv ch \<and> session_type ch = LOCAL \<and> cpl_nr ch = 0 \<and> queue_depth ch \<le> 1024 \<and>
     reap_depth ch = queue_depth ch \<and> length (cpl_ops ch) = queue_depth ch \<and>
     (\<forall>i < queue_depth ch. op_st (op_ctxs ch ! i) = OP_NEW \<or> op_st (op_ctxs ch ! i) = OP_IN_PROGRESS)"

lemma answers_length: "answers ch ms \<Longrightarrow> length ms \<le> queue_depth ch"
proof -
  assume a: "answers ch ms"
  then have "length ms = card (resp_id ` set ms)"
    using distinct_card [of "map resp_id ms"] by (simp add: answers_def)
  also have "\<dots> \<le> card {..<queue_depth ch}"
    using a by (intro card_mono) (auto simp: answers_def)
  finally show ?thesis by simp
qed

lemma poll_reports:
  assumes "chan_ready ch" and "proper_answers ch ms"
  shows "\<exists>ch'. io_poll_channel ch 0 MAX_EVENTS_PER_POLL [ms] = Done (int (length ms), map resp_id ms, ch') \<and> ch_inv ch' \<and>
    queue_depth ch' = queue_depth ch \<and> reap_depth ch' = reap_depth ch \<and> session_type ch' = session_type ch \<and>
    length (cpl_ops ch') = length (cpl_ops ch) \<and> cpl_nr ch' = 0 \<and>
    (\<forall>i. i \<notin> resp_id ` set ms \<longrightarrow> op_ctxs ch' ! i = op_ctxs ch ! i) \<and>
    (\<forall>m \<in> set ms. op_ctxs ch' ! resp_id m = (op_ctxs ch ! resp_id m)\<lparr> op_st := OP_COMPLETED, op_msg := m \<rparr>)"
proof -
  have r: "ch_inv ch" "cpl_nr ch = 0" "queue_depth ch \<le> 1024" "reap_depth ch = queue_depth ch" "length (cpl_ops ch) = queue_depth ch"
    using assms(1) by (simp_all add: chan_ready_def)
  have a: "answers ch ms" using assms(2) by (simp add: proper_answers_def)
  have len: "cpl_nr ch + length ms \<le> length (cpl_ops ch)" using answers_length [OF a] r by simp
  obtain ch1 where c: "on_recv_msgs ms ch = Done ch1" "ch_inv ch1" "queue_depth ch1 = queue_depth ch"
    "reap_depth ch1 = reap_depth ch" "session_type ch1 = session_type ch" "length (cpl_ops ch1) = length (cpl_ops ch)"
    "cpl_nr ch1 = length ms" "take (length ms) (cpl_ops ch1) = map resp_id ms"
    "\<forall>i. i \<notin> resp_id ` set ms \<longrightarrow> op_ctxs ch1 ! i = op_ctxs ch ! i"
    "\<forall>m \<in> set ms. op_ctxs ch1 ! resp_id m = (op_ctxs ch ! resp_id m)\<lparr> op_st := OP_COMPLETED, op_msg := m \<rparr>"
    using recv_all [OF r(1) assms(2) len] r(2) by auto
  have w: "poll_wait 0 0 0 True [ms] ch = Done ch1"
    by (subst poll_wait.simps) (simp add: c(1), subst poll_wait.simps, simp)
  have ids: "op_id_of (op_ctxs ch1 ! (cpl_ops ch1 ! j)) = resp_id (ms ! j)" if "j < length ms" for j
  proof -
    have "cpl_ops ch1 ! j = take (length ms) (cpl_ops ch1) ! j" using that by simp
    then have "cpl_ops ch1 ! j = resp_id (ms ! j)" using that by (simp only: c(8) nth_map)
    moreover have "op_ctxs ch1 ! resp_id (ms ! j) = (op_ctxs ch ! resp_id (ms ! j))\<lparr> op_st := OP_COMPLETED, op_msg := ms ! j \<rparr>"
      using c(10) that by simp
    ultimately show ?thesis by (simp add: op_id_of_def resp_id_def)
  qed
  have k: "min (length ms) (if (1024 :: int) mod 2 ^ 32 < int (reap_depth ch) then nat 1024 else reap_depth ch) = length ms"
    using len r by simp
  have "map (\<lambda>i. op_id_of (op_ctxs ch1 ! (cpl_ops ch1 ! i))) [0..<length ms] = map resp_id ms"
    using ids by (intro nth_equalityI) simp_all
  then have "io_poll_channel ch 0 MAX_EVENTS_PER_POLL [ms] = Done (int (length ms), map resp_id ms, ch1\<lparr> cpl_nr := 0 \<rparr>)"
    using r(2) k by (simp add: io_poll_channel_def MAX_EVENTS_PER_POLL_def w c(4,7) Let_def)
  then show ?thesis using c(2-6,9,10) by (intro exI [of _ "ch1\<lparr> cpl_nr := 0 \<rparr>"]) (simp add: cpl_inv)
qed

text \<open>What a poll reports for the responses received.\<close>

definition completions :: "io_channel \<Rightarrow> message list \<Rightarrow> (nat \<times> bdev_io_status) list" where
  "completions ch ms = map (\<lambda>m. (user_data (op_ctxs ch ! resp_id m),
     if message_get_status m \<noteq> 0 then SPDK_FAILED else SPDK_SUCCESS)) ms"

lemma outstanding_split:
  assumes "answers ch ms" and "queue_depth ch' = queue_depth ch"
    and "\<And>i. i < queue_depth ch \<Longrightarrow> i \<notin> resp_id ` set ms \<Longrightarrow> op_ctxs ch' ! i = op_ctxs ch ! i"
    and "\<And>m. m \<in> set ms \<Longrightarrow> op_st (op_ctxs ch' ! resp_id m) \<noteq> OP_IN_PROGRESS"
  shows "mset (outstanding ch) = mset (map fst (completions ch ms)) + mset (outstanding ch')"
proof -
  let ?P = "\<lambda>c. {i. i < queue_depth ch \<and> op_st (op_ctxs c ! i) = OP_IN_PROGRESS}"
  let ?I = "resp_id ` set ms" and ?u = "\<lambda>i. user_data (op_ctxs ch ! i)"
  have sub: "?I \<subseteq> ?P ch" using assms(1) by (auto simp: answers_def)
  have P': "?P ch' = ?P ch - ?I" using assms(3,4) by fastforce
  have "mset_set (?P ch) = mset_set ?I + mset_set (?P ch')"
    using sub unfolding P' by (subst mset_set_Union [symmetric]) (auto intro: arg_cong [where f = mset_set])
  moreover have "mset_set ?I = mset (map resp_id ms)"
    using assms(1) mset_set_set [of "map resp_id ms"] by (simp add: answers_def)
  moreover have "image_mset ?u (mset_set (?P ch')) = mset (outstanding ch')"
    unfolding mset_outstanding assms(2) P' by (intro image_mset_cong) (use assms(3) in auto)
  ultimately show ?thesis
    unfolding mset_outstanding [of ch] by (simp add: completions_def comp_def multiset.map_comp)
qed

lemma poll_completes:
  assumes "chan_ready ch" and "proper_answers ch ms"
  shows "\<exists>ch'. poll_one_channel [ms] ch = Done (completions ch ms, ch') \<and> chan_ready ch' \<and>
    queue_depth ch' = queue_depth ch \<and> mset (outstanding ch) = mset (map fst (completions ch ms)) + mset (outstanding ch')"
proof -
  have a: "answers ch ms" using assms(2) by (simp add: proper_answers_def)
  have r: "session_type ch = LOCAL" "queue_depth ch \<le> 1024" "reap_depth ch = queue_depth ch" "length (cpl_ops ch) = queue_depth ch"
    "\<And>i. i < queue_depth ch \<Longrightarrow> op_st (op_ctxs ch ! i) = OP_NEW \<or> op_st (op_ctxs ch ! i) = OP_IN_PROGRESS"
    using assms(1) by (simp_all add: chan_ready_def)
  obtain ch1 where p: "io_poll_channel ch 0 MAX_EVENTS_PER_POLL [ms] = Done (int (length ms), map resp_id ms, ch1)" "ch_inv ch1"
    "queue_depth ch1 = queue_depth ch" "reap_depth ch1 = reap_depth ch" "session_type ch1 = session_type ch"
    "length (cpl_ops ch1) = length (cpl_ops ch)" "cpl_nr ch1 = 0"
    "\<And>i. i \<notin> resp_id ` set ms \<Longrightarrow> op_ctxs ch1 ! i = op_ctxs ch ! i"
    "\<And>m. m \<in> set ms \<Longrightarrow> op_ctxs ch1 ! resp_id m = (op_ctxs ch ! resp_id m)\<lparr> op_st := OP_COMPLETED, op_msg := m \<rparr>"
    using poll_reports [OF assms] by auto
  have "distinct (map resp_id ms)"
    "\<forall>i \<in> set (map resp_id ms). i < queue_depth ch1 \<and> op_st (op_ctxs ch1 ! i) = OP_COMPLETED"
    using a p(9) by (auto simp: answers_def p(3))
  from complete_all [OF p(2) this] obtain ch' where
    c: "complete_ops (map resp_id ms) ch1 = Done (map (\<lambda>i. completion_of (op_ctxs ch1 ! i)) (map resp_id ms), ch')" "ch_inv ch'"
    "queue_depth ch' = queue_depth ch" "cpl_nr ch' = 0" "cpl_ops ch' = cpl_ops ch1" "reap_depth ch' = reap_depth ch"
    "session_type ch' = session_type ch" "\<And>i. i \<notin> resp_id ` set ms \<Longrightarrow> op_ctxs ch' ! i = op_ctxs ch ! i"
    "\<And>m. m \<in> set ms \<Longrightarrow> op_st (op_ctxs ch' ! resp_id m) = OP_NEW"
    using p by auto
  have out: "map (\<lambda>i. completion_of (op_ctxs ch1 ! i)) (map resp_id ms) = completions ch ms"
    by (simp add: completions_def completion_of_def p(9))
  have "op_st (op_ctxs ch' ! i) = OP_NEW \<or> op_st (op_ctxs ch' ! i) = OP_IN_PROGRESS" if "i < queue_depth ch" for i
    using r(5) [OF that] c(8) [of i] c(9) by (cases "i \<in> resp_id ` set ms") auto
  then have "chan_ready ch'" using c(2-7) r(1-4) p(6) by (simp add: chan_ready_def)
  moreover have "poll_one_channel [ms] ch = Done (completions ch ms, ch')"
    using p(1) c(1) unfolding out by (simp add: poll_one_channel_def)
  moreover have "mset (outstanding ch) = mset (map fst (completions ch ms)) + mset (outstanding ch')"
    by (rule outstanding_split [OF a c(3) c(8)]) (simp_all add: c(9))
  ultimately show ?thesis using c(3) by blast
qed

section \<open>Submitting\<close>

lemma place_stripe: "zcell_place bio = (stripe, rest) \<Longrightarrow> stripe = 0"
  by (simp add: zcell_place_def Let_def word_eq_iff_unsigned unat_mod)

lemma ready_submit:
  assumes "chan_ready ch" and "ch_inv ch'" and "i < queue_depth ch" and "op_st (op_ctxs ch ! i) = OP_NEW"
    and "op_ctxs ch' = (op_ctxs ch)[i := \<lparr> op_msg = msg, op_st = OP_IN_PROGRESS, user_data = b \<rparr>]"
    and "session_type ch' = LOCAL" and "cpl_nr ch' = cpl_nr ch" and "cpl_ops ch' = cpl_ops ch"
    and "reap_depth ch' = reap_depth ch" and "queue_depth ch' = queue_depth ch"
  shows "chan_ready ch' \<and> mset (outstanding ch') = add_mset b (mset (outstanding ch))"
proof -
  have l: "length (op_ctxs ch) = queue_depth ch" using assms(1) ch_invD(3) by (simp add: chan_ready_def)
  have at: "op_ctxs ch' ! j = (if j = i then \<lparr> op_msg = msg, op_st = OP_IN_PROGRESS, user_data = b \<rparr> else op_ctxs ch ! j)" for j
    using assms(3) l by (simp add: assms(5))
  have "op_st (op_ctxs ch' ! j) = OP_NEW \<or> op_st (op_ctxs ch' ! j) = OP_IN_PROGRESS" if "j < queue_depth ch" for j
    using assms(1) that by (simp add: at chan_ready_def)
  then have "chan_ready ch'" using assms(1,2,6-10) by (simp add: chan_ready_def)
  moreover have "mset (outstanding ch') = add_mset b (mset (outstanding ch))"
  proof -
    let ?P = "\<lambda>c. {j. j < queue_depth ch \<and> op_st (op_ctxs c ! j) = OP_IN_PROGRESS}"
    have P': "?P ch' = insert i (?P ch)" "i \<notin> ?P ch" "finite (?P ch)"
      using assms(3,4) by (auto simp: at)
    have "image_mset (\<lambda>j. user_data (op_ctxs ch' ! j)) (mset_set (?P ch)) =
        image_mset (\<lambda>j. user_data (op_ctxs ch ! j)) (mset_set (?P ch))"
      by (intro image_mset_cong) (use P'(2) in \<open>auto simp: at\<close>)
    then show ?thesis
      unfolding mset_outstanding assms(10) P'(1) mset_set.insert [OF P'(3,2)] by (simp add: at)
  qed
  ultimately show ?thesis ..
qed

lemma submit_prepared:
  assumes "chan_ready ch" and "zioch_list grp = [ch]" and "iovs bio = [iov]" and "iov_base iov \<noteq> 0"
    and "zcell_place bio = (stripe, oid, ofst, len)"
    and "(if bio_type bio = SPDK_READ then io_read2 ch (iov_base iov) (unat oid) (unat ofst) (unat len)
          else io_write ch (unat oid) (iov_bytes iov) (unat ofst) (unat len)) = io_prepare_op_common ch ty ms meta dl data"
    and "ms \<le> 255"
  shows "ids_free ch = {} \<and> bdev_zcell_get_buf_cb grp bio True = Assert_fails \<or>
    (\<exists>ch' msg i. bdev_zcell_get_buf_cb grp bio True = Done (grp\<lparr> zioch_list := [ch'] \<rparr>, [msg], []) \<and> chan_ready ch' \<and>
      queue_depth ch' = queue_depth ch \<and> mset (outstanding ch') = add_mset (bio_id bio) (mset (outstanding ch)) \<and>
      i < queue_depth ch \<and> op_ctxs ch' ! i = \<lparr> op_msg = msg, op_st = OP_IN_PROGRESS, user_data = bio_id bio \<rparr> \<and>
      m_header msg = \<lparr> h_seq = ch_seq ch, h_type = ty mod 256, h_status = 0, h_magic = LOCAL, h_meta_length = ms,
        h_data_length = dl, h_slo = 0, h_rsv = (i, 0) \<rparr> \<and> meta_buffer msg = meta \<and> data_buffer msg = data)"
proof -
  have ready: "ch_inv ch" "session_type ch = LOCAL" using assms(1) by (simp_all add: chan_ready_def)
  have st: "stripe = 0" by (rule place_stripe [OF assms(5)])
  obtain r ch1 where prep: "io_prepare_op_common ch ty ms meta dl data = Done (r, ch1)"
    using prepare_done [OF ready(1) assms(7)] by blast
  let ?k = "\<lambda>ch3. grp\<lparr> zioch_list := [ch3] \<rparr>"
  have cb: "bdev_zcell_get_buf_cb grp bio True =
      (if r < 0 then Assert_fails
       else run_bind (op_set_userdata ch1 (nat r) (bio_id bio)) (\<lambda>ch2. run_bind (io_submit_to_channel ch2 [r] [])
         (\<lambda>(rc, ch3, sent). if rc \<noteq> 0 then Assert_fails else Done (?k ch3, sent, []))))"
    using assms(2-4,6) prep by (simp add: bdev_zcell_get_buf_cb_def assms(5) st split del: if_split cong: if_cong)
  consider "r = - ENOMEM" "ids_free ch = {}" | i where "r = int i"
    using prepare_shape [OF ready(1) assms(7) prep] by blast
  then show ?thesis
  proof cases
    case 1
    then show ?thesis by (simp add: cb ENOMEM_def)
  next
    case 2
    obtain ch3 msg where c: "bdev_zcell_get_buf_cb grp bio True = Done (?k ch3, [msg], [])" "ch_inv ch3"
      "i < queue_depth ch" "op_st (op_ctxs ch ! i) = OP_NEW"
      "op_ctxs ch3 = (op_ctxs ch)[i := \<lparr> op_msg = msg, op_st = OP_IN_PROGRESS, user_data = bio_id bio \<rparr>]"
      "m_header msg = \<lparr> h_seq = ch_seq ch, h_type = ty mod 256, h_status = 0, h_magic = LOCAL, h_meta_length = ms,
        h_data_length = dl, h_slo = 0, h_rsv = (i, 0) \<rparr>" "meta_buffer msg = meta" "data_buffer msg = data"
      "session_type ch3 = LOCAL" "cpl_nr ch3 = cpl_nr ch" "cpl_ops ch3 = cpl_ops ch" "reap_depth ch3 = reap_depth ch"
      "queue_depth ch3 = queue_depth ch"
      using submit_core [OF ready assms(7) prep [unfolded 2], where b = "bio_id bio" and f = ?k and x = "[]"] 2
      unfolding cb by auto
    have "op_ctxs ch3 ! i = \<lparr> op_msg = msg, op_st = OP_IN_PROGRESS, user_data = bio_id bio \<rparr>"
      using c(3,5) ch_invD(3) [OF ready(1)] by simp
    then show ?thesis
      using ready_submit [OF assms(1) c(2-5) c(9-13)] c(1,3,6-8,13) by blast
  qed
qed

text \<open>A read or a write, in terms of the message it sends.\<close>

definition rw_message :: "bdev_io \<Rightarrow> iovec \<Rightarrow> nat \<times> nat \<times> u8 list option \<times> nat \<times> u8 list option" where
  "rw_message bio iov =
     (case zcell_place bio of (_, oid, ofst, len) \<Rightarrow>
        if bio_type bio = SPDK_READ
        then (msg_oss_op_read, 40, Some (op_rw_encode \<lparr> rw_oid = unat oid, rw_ofst = unat ofst, rw_len = unat len, rw_flags = 0 \<rparr>
          @ le_bytes 8 (iov_base iov)), 0, None)
        else (msg_oss_op_write, 32, Some (op_rw_encode \<lparr> rw_oid = unat oid, rw_ofst = unat ofst mod 2 ^ 32, rw_len = unat len, rw_flags = 0 \<rparr>),
          unat len, Some (iov_bytes iov)))"

lemma submit_rw:
  assumes "chan_ready ch" and "zioch_list grp = [ch]" and "iovs bio = [iov]" and "iov_base iov \<noteq> 0"
    and "rw_message bio iov = (ty, ms, meta, dl, data)"
  shows "ids_free ch = {} \<and> bdev_zcell_get_buf_cb grp bio True = Assert_fails \<or>
    (\<exists>ch' msg i. bdev_zcell_get_buf_cb grp bio True = Done (grp\<lparr> zioch_list := [ch'] \<rparr>, [msg], []) \<and> chan_ready ch' \<and>
      queue_depth ch' = queue_depth ch \<and> mset (outstanding ch') = add_mset (bio_id bio) (mset (outstanding ch)) \<and>
      i < queue_depth ch \<and> op_ctxs ch' ! i = \<lparr> op_msg = msg, op_st = OP_IN_PROGRESS, user_data = bio_id bio \<rparr> \<and>
      m_header msg = \<lparr> h_seq = ch_seq ch, h_type = ty mod 256, h_status = 0, h_magic = LOCAL, h_meta_length = ms,
        h_data_length = dl, h_slo = 0, h_rsv = (i, 0) \<rparr> \<and> meta_buffer msg = meta \<and> data_buffer msg = data)"
proof -
  obtain stripe oid ofst len where z: "zcell_place bio = (stripe, oid, ofst, len)" by (cases "zcell_place bio")
  have "(if bio_type bio = SPDK_READ then io_read2 ch (iov_base iov) (unat oid) (unat ofst) (unat len)
      else io_write ch (unat oid) (iov_bytes iov) (unat ofst) (unat len)) = io_prepare_op_common ch ty ms meta dl data" "ms \<le> 255"
    using assms(5) by (auto simp: rw_message_def z io_read2_def io_write_def split: if_splits)
  from submit_prepared [OF assms(1-4) z this] show ?thesis .
qed

section \<open>The life of a group\<close>

text \<open>The callback with a buffer, on every branch: when it ends the process and when not.\<close>

lemma get_buf_cb_fails: "bdev_zcell_get_buf_cb grp b False = Done (grp, [], [(bio_id b, SPDK_FAILED)])"
  by (simp add: bdev_zcell_get_buf_cb_def)

lemma get_buf_cb_pieces:
  "iovs b = [] \<Longrightarrow> bdev_zcell_get_buf_cb grp b True = Wild"
  "1 < length (iovs b) \<Longrightarrow> bdev_zcell_get_buf_cb grp b True = Assert_fails"
  "iovs b = [iov] \<Longrightarrow> iov_base iov = 0 \<Longrightarrow> bdev_zcell_get_buf_cb grp b True = Done (grp, [], [])"
  by (simp_all add: bdev_zcell_get_buf_cb_def split: prod.splits)

text \<open>The request of a callback that is dropped: there is a buffer, at address 0.\<close>

definition dropped :: "bdev_io \<Rightarrow> bool \<Rightarrow> nat list" where
  "dropped b ok = (if ok \<and> iov_base (hd (iovs b)) = 0 then [bio_id b] else [])"

definition moves_data :: "bdev_io \<Rightarrow> bool" where
  "moves_data bio \<longleftrightarrow> bio_type bio = SPDK_READ \<or> bio_type bio = SPDK_WRITE"

text \<open>
  The groups that can be reached, with the requests that wait for a buffer, those dropped,
  those submitted and those completed so far.  A read or a write gets its buffers at once or
  later, in any order and in any number of pieces; a step whose handler ends the process is no
  step.
\<close>

inductive bdev_run :: "zcell_channel_group \<Rightarrow> bdev_io list \<Rightarrow> nat list \<Rightarrow> nat list \<Rightarrow> (nat \<times> bdev_io_status) list \<Rightarrow> bool" where
  bdev_start: "refcount grp0 = 0 \<Longrightarrow> bdev_zcell_group_create_cb 0 (Some s) True grp0 = (0, grp) \<Longrightarrow> bdev_run grp [] [] [] []"
| bdev_submit: "bdev_run grp wt lost sub fin \<Longrightarrow> \<not> moves_data bio \<or> get_buf bio = Some (v, ok) \<Longrightarrow>
    bdev_zcell_submit_request get_buf grp bio = Done (grp', sent, now) \<Longrightarrow>
    bdev_run grp' wt (lost @ (if moves_data bio then dropped (bio\<lparr> iovs := v \<rparr>) ok else [])) (sub @ [bio_id bio]) (fin @ now)"
| bdev_defer: "bdev_run grp wt lost sub fin \<Longrightarrow> moves_data bio \<Longrightarrow> get_buf bio = None \<Longrightarrow>
    bdev_zcell_submit_request get_buf grp bio = Done (grp', sent, now) \<Longrightarrow>
    bdev_run grp' (wt @ [bio]) lost (sub @ [bio_id bio]) (fin @ now)"
| bdev_buf: "bdev_run grp wt lost sub fin \<Longrightarrow> bio \<in> set wt \<Longrightarrow>
    bdev_zcell_get_buf_cb grp (bio\<lparr> iovs := v \<rparr>) ok = Done (grp', sent, now) \<Longrightarrow>
    bdev_run grp' (remove1 bio wt) (lost @ dropped (bio\<lparr> iovs := v \<rparr>) ok) sub (fin @ now)"
| bdev_poll: "bdev_run grp wt lost sub fin \<Longrightarrow> zioch_list grp = [ch] \<Longrightarrow> proper_answers ch ms \<Longrightarrow>
    bdev_zcell_group_poll [[ms]] grp = Done (n, out, grp') \<Longrightarrow> bdev_run grp' wt lost sub (fin @ out)"

lemma start_ready:
  assumes "refcount grp0 = 0" and "bdev_zcell_group_create_cb 0 (Some s) True grp0 = (0, grp)"
  shows "\<exists>ch. zioch_list grp = [ch] \<and> zcell_nr grp = 1 \<and> chan_ready ch \<and> queue_depth ch = 512 \<and> outstanding ch = []"
proof -
  obtain ch where ch: "get_io_channel LOCAL 512 (Some s) = Some ch" by (simp add: get_io_channel_def)
  have inv: "ch_inv ch" by (rule new_inv [OF _ _ _ _ ch]) simp_all
  have f: "queue_depth ch = 512" "reap_depth ch = 512" "session_type ch = LOCAL" "cpl_nr ch = 0" "length (cpl_ops ch) = 512"
    "op_ctxs ch = replicate 512 op_zero"
    using ch by (auto simp: get_io_channel_def io_channel_new_def Let_def)
  have st: "op_st (op_ctxs ch ! i) = OP_NEW" if "i < 512" for i
    using that by (simp add: f(6) op_zero_def)
  have "chan_ready ch" using inv f(1-5) st by (simp add: chan_ready_def)
  moreover have "outstanding ch = []" using st by (simp add: outstanding_def f(1) filter_empty_conv)
  ultimately show ?thesis using assms ch f(1) by (auto simp: bdev_zcell_group_create_cb_def)
qed

lemma group_poll_one:
  assumes "zioch_list grp = [ch]" and "zcell_nr grp = 1" and "chan_ready ch" and "proper_answers ch ms"
  shows "\<exists>ch'. bdev_zcell_group_poll [[ms]] grp = Done (int (length ms), completions ch ms, grp\<lparr> zioch_list := [ch'] \<rparr>) \<and>
    chan_ready ch' \<and> queue_depth ch' = queue_depth ch \<and>
    mset (outstanding ch) = mset (map fst (completions ch ms)) + mset (outstanding ch')"
proof -
  obtain ch' where c: "poll_one_channel [ms] ch = Done (completions ch ms, ch')" "chan_ready ch'" "queue_depth ch' = queue_depth ch"
    "mset (outstanding ch) = mset (map fst (completions ch ms)) + mset (outstanding ch')"
    using poll_completes [OF assms(3,4)] by blast
  have "length (completions ch ms) = length ms" by (simp add: completions_def)
  then have "bdev_zcell_group_poll [[ms]] grp = Done (int (length ms), completions ch ms, grp\<lparr> zioch_list := [ch'] \<rparr>)"
    using assms(1,2) c(1) by (simp add: bdev_zcell_group_poll_def)
  then show ?thesis using c(2-4) by blast
qed

lemma buf_counts:
  assumes "zioch_list grp = [ch]" and "chan_ready ch" and "bdev_zcell_get_buf_cb grp b ok = Done (grp', sent, now)"
  shows "\<exists>ch'. zioch_list grp' = [ch'] \<and> zcell_nr grp' = zcell_nr grp \<and> chan_ready ch' \<and> queue_depth ch' = queue_depth ch \<and>
    add_mset (bio_id b) (mset (outstanding ch)) = mset (map fst now) + mset (outstanding ch') + mset (dropped b ok)"
proof (cases ok)
  case False
  then show ?thesis using assms by (auto simp: get_buf_cb_fails dropped_def)
next
  case ok: True
  have "iovs b \<noteq> []" "\<not> 1 < length (iovs b)" using assms(3) ok get_buf_cb_pieces(1,2) [of b grp] by auto
  then obtain iov where i: "iovs b = [iov]" by (cases "iovs b") auto
  show ?thesis
  proof (cases "iov_base iov = 0")
    case True
    then show ?thesis using assms ok get_buf_cb_pieces(3) [OF i, of grp] by (auto simp: dropped_def i)
  next
    case False
    obtain ty ms meta dl data where rw: "rw_message b iov = (ty, ms, meta, dl, data)" by (cases "rw_message b iov")
    show ?thesis using submit_rw [OF assms(2,1) i False rw] assms(3) ok False by (auto simp: dropped_def i)
  qed
qed

lemma submit_counts:
  assumes "zioch_list grp = [ch]" and "chan_ready ch" and "\<not> moves_data bio \<or> get_buf bio = Some (v, ok)"
    and "bdev_zcell_submit_request get_buf grp bio = Done (grp', sent, now)"
  shows "\<exists>ch'. zioch_list grp' = [ch'] \<and> zcell_nr grp' = zcell_nr grp \<and> chan_ready ch' \<and> queue_depth ch' = queue_depth ch \<and>
    add_mset (bio_id bio) (mset (outstanding ch)) = mset (map fst now) + mset (outstanding ch') +
      mset (if moves_data bio then dropped (bio\<lparr> iovs := v \<rparr>) ok else [])"
proof (cases "moves_data bio")
  case False
  then show ?thesis using assms(1,2,4) by (cases "bio_type bio") (auto simp: bdev_zcell_submit_request_def moves_data_def)
next
  case True
  then have "bdev_zcell_get_buf_cb grp (bio\<lparr> iovs := v \<rparr>) ok = Done (grp', sent, now)"
    using assms(3,4) by (auto simp: bdev_zcell_submit_request_def moves_data_def)
  from buf_counts [OF assms(1,2) this] True show ?thesis by simp
qed

lemma bdev_run_inv:
  "bdev_run grp wt lost sub fin \<Longrightarrow> \<exists>ch. zioch_list grp = [ch] \<and> zcell_nr grp = 1 \<and> chan_ready ch \<and> queue_depth ch = 512 \<and>
    mset sub = mset (map fst fin) + mset (outstanding ch) + mset (map bio_id wt) + mset lost"
proof (induction rule: bdev_run.induct)
  case (bdev_start grp0 s grp)
  then show ?case using start_ready by fastforce
next
  case (bdev_submit grp wt lost sub fin bio get_buf v ok grp' sent now)
  then obtain ch where ch: "zioch_list grp = [ch]" "zcell_nr grp = 1" "chan_ready ch" "queue_depth ch = 512"
    "mset sub = mset (map fst fin) + mset (outstanding ch) + mset (map bio_id wt) + mset lost"
    by blast
  let ?d = "if moves_data bio then dropped (bio\<lparr> iovs := v \<rparr>) ok else []"
  from submit_counts [OF ch(1,3) bdev_submit(2,3)] obtain ch' where c: "zioch_list grp' = [ch']" "zcell_nr grp' = 1"
    "chan_ready ch'" "queue_depth ch' = 512"
    "add_mset (bio_id bio) (mset (outstanding ch)) = mset (map fst now) + mset (outstanding ch') + mset ?d"
    using ch(2,4) by auto
  have "mset (sub @ [bio_id bio]) = mset (map fst fin) + mset (map bio_id wt) + mset lost + add_mset (bio_id bio) (mset (outstanding ch))"
    using ch(5) by (simp add: ac_simps)
  also have "\<dots> = mset (map fst (fin @ now)) + mset (outstanding ch') + mset (map bio_id wt) + mset (lost @ ?d)"
    unfolding c(5) by (simp add: ac_simps del: mset_map)
  finally show ?case using c(1-4) by blast
next
  case (bdev_defer grp wt lost sub fin bio get_buf grp' sent now)
  then have "grp' = grp" "now = []" by (auto simp: bdev_zcell_submit_request_def moves_data_def)
  then show ?case using bdev_defer by auto
next
  case (bdev_buf grp wt lost sub fin bio v ok grp' sent now)
  then obtain ch where ch: "zioch_list grp = [ch]" "zcell_nr grp = 1" "chan_ready ch" "queue_depth ch = 512"
    "mset sub = mset (map fst fin) + mset (outstanding ch) + mset (map bio_id wt) + mset lost"
    by blast
  let ?d = "dropped (bio\<lparr> iovs := v \<rparr>) ok"
  from buf_counts [OF ch(1,3) bdev_buf(3)] obtain ch' where c: "zioch_list grp' = [ch']" "zcell_nr grp' = 1"
    "chan_ready ch'" "queue_depth ch' = 512"
    "add_mset (bio_id bio) (mset (outstanding ch)) = mset (map fst now) + mset (outstanding ch') + mset ?d"
    using ch(2,4) by auto
  have "mset wt = add_mset bio (mset (remove1 bio wt))" using bdev_buf(2) by simp
  then have w: "mset (map bio_id wt) = add_mset (bio_id bio) (mset (map bio_id (remove1 bio wt)))"
    by (metis image_mset_add_mset mset_map)
  have "mset sub = mset (map fst fin) + mset (map bio_id (remove1 bio wt)) + mset lost + add_mset (bio_id bio) (mset (outstanding ch))"
    unfolding ch(5) w by (simp add: ac_simps del: mset_map)
  also have "\<dots> = mset (map fst (fin @ now)) + mset (outstanding ch') + mset (map bio_id (remove1 bio wt)) + mset (lost @ ?d)"
    unfolding c(5) by (simp add: ac_simps del: mset_map)
  finally show ?case using c(1-4) by blast
next
  case (bdev_poll grp wt lost sub fin ch ms n out grp')
  then have ch: "zcell_nr grp = 1" "chan_ready ch" "queue_depth ch = 512"
    "mset sub = mset (map fst fin) + mset (outstanding ch) + mset (map bio_id wt) + mset lost"
    by auto
  obtain ch' where c: "bdev_zcell_group_poll [[ms]] grp = Done (int (length ms), completions ch ms, grp\<lparr> zioch_list := [ch'] \<rparr>)"
    "chan_ready ch'" "queue_depth ch' = queue_depth ch"
    "mset (outstanding ch) = mset (map fst (completions ch ms)) + mset (outstanding ch')"
    using group_poll_one [OF bdev_poll(2) ch(1,2) bdev_poll(3)] by blast
  have o: "out = completions ch ms" "grp' = grp\<lparr> zioch_list := [ch'] \<rparr>" using bdev_poll(4) c(1) by simp_all
  have "mset sub = mset (map fst (fin @ out)) + mset (outstanding ch') + mset (map bio_id wt) + mset lost"
    unfolding ch(4) c(4) o(1) map_append mset_append by (simp only: ac_simps)
  then show ?case using ch(1,3) c(2,3) o(2) by simp
qed

lemma all_filtered: "length (filter P xs) = length xs \<longleftrightarrow> (\<forall>x \<in> set xs. P x)"
  by (metis filter_True length_filter_less nat_neq_iff)

lemma free_iff_outstanding:
  assumes "chan_ready ch"
  shows "ids_free ch = {} \<longleftrightarrow> length (outstanding ch) = queue_depth ch"
proof -
  note inv = ch_invD [of ch]
  have r: "ch_inv ch" "\<And>i. i < queue_depth ch \<Longrightarrow> op_st (op_ctxs ch ! i) = OP_NEW \<or> op_st (op_ctxs ch ! i) = OP_IN_PROGRESS"
    using assms by (simp_all add: chan_ready_def)
  have "ids_free ch = {} \<longleftrightarrow> (\<forall>i < queue_depth ch. op_st (op_ctxs ch ! i) = OP_IN_PROGRESS)"
    using inv(2,5) [OF r(1)] r(2) by (auto simp: ids_free_def)
  also have "\<dots> \<longleftrightarrow> length (outstanding ch) = queue_depth ch"
    unfolding outstanding_def length_map
    using all_filtered [of "\<lambda>i. op_st (op_ctxs ch ! i) = OP_IN_PROGRESS" "[0..<queue_depth ch]"] by auto
  finally show ?thesis .
qed

text \<open>
  a full table ends the process.  A read or a write is accepted as long as fewer than 512
  requests are in progress; with 512 the assertion on the descriptor fails, where the interface
  of a block device would have the request retried.
\<close>

theorem full_table_aborts:
  assumes "bdev_run grp wt lost sub fin" and "zioch_list grp = [ch]" and "iovs bio = [iov]" and "iov_base iov \<noteq> 0"
  shows "length (outstanding ch) \<le> 512 \<and>
    (bdev_zcell_get_buf_cb grp bio True = Assert_fails \<longleftrightarrow> length (outstanding ch) = 512)"
proof -
  have ch: "chan_ready ch" "queue_depth ch = 512" using bdev_run_inv [OF assms(1)] assms(2) by auto
  have le: "length (outstanding c) \<le> queue_depth c" for c
    unfolding outstanding_def length_map by (rule order_trans [OF length_filter_le]) simp
  obtain ty ms meta dl data where rw: "rw_message bio iov = (ty, ms, meta, dl, data)" by (cases "rw_message bio iov")
  from submit_rw [OF ch(1) assms(2-4) rw] show ?thesis
  proof (elim disjE exE conjE)
    assume "ids_free ch = {}" "bdev_zcell_get_buf_cb grp bio True = Assert_fails"
    then show ?thesis using free_iff_outstanding [OF ch(1)] ch(2) by simp
  next
    fix ch' msg i
    assume c: "bdev_zcell_get_buf_cb grp bio True = Done (grp\<lparr> zioch_list := [ch'] \<rparr>, [msg], [])"
      "queue_depth ch' = queue_depth ch" "mset (outstanding ch') = add_mset (bio_id bio) (mset (outstanding ch))"
    then have "length (outstanding ch') = length (outstanding ch) + 1" by (metis size_add_mset size_mset Suc_eq_plus1)
    then show ?thesis using le [of ch'] c(1,2) ch(2) by simp
  qed
qed

text \<open>What becomes of a request when its buffers are there.\<close>

lemma get_buf_outcome:
  assumes "bdev_run grp wt lost sub fin" and "zioch_list grp = [ch]"
  shows "(bdev_zcell_get_buf_cb grp (bio\<lparr> iovs := v \<rparr>) ok = Assert_fails \<longleftrightarrow>
      ok \<and> (1 < length v \<or> (\<exists>iov. v = [iov] \<and> iov_base iov \<noteq> 0 \<and> length (outstanding ch) = 512))) \<and>
    (bdev_zcell_get_buf_cb grp (bio\<lparr> iovs := v \<rparr>) ok = Wild \<longleftrightarrow> ok \<and> v = [])"
proof (cases ok)
  case False
  then show ?thesis by (simp add: get_buf_cb_fails)
next
  case ok: True
  let ?b = "bio\<lparr> iovs := v \<rparr>"
  consider "v = []" | iov where "v = [iov]" | "1 < length v" by (cases v; cases "tl v") auto
  then show ?thesis
  proof cases
    case 1
    then show ?thesis using get_buf_cb_pieces(1) [of ?b grp] ok by simp
  next
    case (2 iov)
    show ?thesis
    proof (cases "iov_base iov = 0")
      case True
      then show ?thesis using get_buf_cb_pieces(3) [of ?b iov grp] ok 2 by simp
    next
      case False
      have i: "iovs ?b = [iov]" using 2 by simp
      obtain ty ms meta dl data where rw: "rw_message ?b iov = (ty, ms, meta, dl, data)" by (cases "rw_message ?b iov")
      have ch: "chan_ready ch" using bdev_run_inv [OF assms(1)] assms(2) by auto
      have "bdev_zcell_get_buf_cb grp ?b True \<noteq> Wild" using submit_rw [OF ch assms(2) i False rw] by auto
      then show ?thesis using full_table_aborts [OF assms i False] ok 2 False by simp
    qed
  next
    case 3
    then show ?thesis using get_buf_cb_pieces(2) [of ?b grp] ok by auto
  qed
qed

text \<open>
  C5: every request given to the block device is accounted for.  Whatever requests come, whether
  their buffers are there at once or later, in one piece or not, and in whatever order the
  server answers: as long as the process lives, the requests submitted are those completed,
  those in progress, those waiting for a buffer and those dropped because their buffer has
  address 0, each as often as it was submitted.  Polling with the answers of the server always
  returns, completing exactly the requests answered, as failed when the status of the answer
  is not 0.  The process ends exactly when a request gets its buffer in several pieces or while
  512 are in progress; it reads past the pieces when there are none.
\<close>

theorem bdev_completes_once:
  assumes "bdev_run grp wt lost sub fin"
  shows "\<exists>ch. zioch_list grp = [ch] \<and>
    mset sub = mset (map fst fin) + mset (outstanding ch) + mset (map bio_id wt) + mset lost \<and>
    (\<forall>ms. proper_answers ch ms \<longrightarrow>
      (\<exists>grp'. bdev_zcell_group_poll [[ms]] grp = Done (int (length ms), completions ch ms, grp') \<and>
        bdev_run grp' wt lost sub (fin @ completions ch ms))) \<and>
    (\<forall>bio v ok. (bdev_zcell_get_buf_cb grp (bio\<lparr> iovs := v \<rparr>) ok = Assert_fails \<longleftrightarrow>
        ok \<and> (1 < length v \<or> (\<exists>iov. v = [iov] \<and> iov_base iov \<noteq> 0 \<and> length (outstanding ch) = 512))) \<and>
      (bdev_zcell_get_buf_cb grp (bio\<lparr> iovs := v \<rparr>) ok = Wild \<longleftrightarrow> ok \<and> v = []))"
proof -
  obtain ch where ch: "zioch_list grp = [ch]" "zcell_nr grp = 1" "chan_ready ch"
    "mset sub = mset (map fst fin) + mset (outstanding ch) + mset (map bio_id wt) + mset lost"
    using bdev_run_inv [OF assms] by blast
  have "\<exists>grp'. bdev_zcell_group_poll [[ms]] grp = Done (int (length ms), completions ch ms, grp') \<and>
      bdev_run grp' wt lost sub (fin @ completions ch ms)" if "proper_answers ch ms" for ms
    using group_poll_one [OF ch(1-3) that] bdev_poll [OF assms ch(1) that] by blast
  then show ?thesis using get_buf_outcome [OF assms ch(1)] ch(1,4) by blast
qed

section \<open>From the disk to the device\<close>

lemma place_nat:
  assumes "blocklen (bio_disk bio) = 0x1000" and "unat (offset_blocks bio) < 2 ^ 32" and "unat (num_blocks bio) \<le> 1024"
  shows "\<exists>stripe oid ofst len. zcell_place bio = (stripe, oid, ofst, len) \<and> unat oid = unat (offset_blocks bio) div 1024 \<and>
    unat ofst = unat (offset_blocks bio) mod 1024 * 4096 \<and> unat len = unat (num_blocks bio) * 4096"
proof -
  let ?b = "unat (offset_blocks bio)" and ?n = "unat (num_blocks bio)"
  have o: "unat (offset_blocks bio * 0x1000) = ?b * 4096"
    using assms(2) by (simp add: unat_word_ariths)
  have u: "unat STRIPE_UNIT = 4194304" by (simp add: STRIPE_UNIT_def)
  have c: "?b * 4096 div 4194304 = ?b div 1024" "?b * 4096 mod 4194304 = ?b mod 1024 * 4096"
    using div_mult_mult1 [of 4096 ?b 1024] mod_mult_mult1 [of 4096 ?b 1024] by (simp_all add: mult.commute)
  have d: "unat (offset_blocks bio * 0x1000 div STRIPE_UNIT) = ?b div 1024"
    unfolding unat_div o u by (rule c)
  have m: "unat (offset_blocks bio * 0x1000 mod STRIPE_UNIT) = ?b mod 1024 * 4096"
    unfolding unat_mod o u by (rule c)
  have n64: "unat (num_blocks bio * 0x1000) = ?n * 4096"
    using assms(3) by (simp add: unat_word_ariths)
  have "unat (ucast (num_blocks bio * 0x1000) :: u32) = ?n * 4096 mod 2 ^ 32"
    unfolding unsigned_ucast_eq n64 by (simp add: take_bit_eq_mod)
  then have "unat (ucast (ucast (num_blocks bio * 0x1000) :: u32) :: u64) = ?n * 4096"
    unfolding unat_ucast_64 using assms(3) by simp
  then show ?thesis using assms(1) d m by (simp add: zcell_place_def Let_def)
qed

lemma obj2blk_place:
  assumes "unat (offset_blocks bio) < 2 ^ 32" and "unat (num_blocks bio) \<le> 1024"
  shows "obj2blk (word_of_nat (unat (offset_blocks bio) div 1024)) (word_of_nat (unat (offset_blocks bio) mod 1024 * 4096))
      (word_of_nat (unat (num_blocks bio) * 4096)) = (offset_blocks bio, num_blocks bio)"
proof -
  let ?b = "unat (offset_blocks bio)" and ?n = "unat (num_blocks bio)"
  let ?r = "obj2blk (word_of_nat (?b div 1024)) (word_of_nat (?b mod 1024 * 4096)) (word_of_nat (?n * 4096))"
  have b: "?b div 1024 < 2 ^ 22" "?b mod 1024 * 4096 < 2 ^ 22" "?n * 4096 < 2 ^ 32"
    using assms by (simp_all add: less_mult_imp_div_less)
  have "unat (fst ?r) = ?b" "unat (snd ?r) = ?n"
    using obj2blk_nat [OF b] by simp_all
  then show ?thesis by (simp add: prod_eq_iff word_unat_eq_iff)
qed

text \<open>
  C3: a write to a disk from end to end.  A write of \<open>n\<close> blocks at block \<open>b\<close> that stays in one
  stripe unit, on a group whose table is not full, sends one message; a server with the chunk
  store asks its device to write the buffer of the request to the \<open>n\<close> blocks from \<open>b\<close> on; when
  the device is done it answers, and the next poll of the group completes the request with
  success.
\<close>

theorem bdev_write_end_to_end:
  assumes "bdev_run grp wt lost sub fin" and "zioch_list grp = [ch]" and "length (outstanding ch) < 512"
    and "bio_type bio = SPDK_WRITE" and "iovs bio = [iov]" and "iov_base iov \<noteq> 0" and "blocklen (bio_disk bio) = 0x1000"
    and "unat (offset_blocks bio) < 2 ^ 32" and "unat (num_blocks bio) \<le> 1024"
    and "sv_ipc sv" and "reqs_ok sv" and "dev_rcs dev = []"
  shows "\<exists>grp1 msg sv1 sv2 rsp grp2. bdev_zcell_get_buf_cb grp bio True = Done (grp1, [msg], []) \<and>
    on_recv_message (chunkstore_impl bd) env dev (stamp ssid msg) sv = Done sv1 \<and>
    cs_ios (sv_store sv1) = cs_ios (sv_store sv) @
      [\<lparr> ci_write = True, ci_ofst = offset_blocks bio, ci_len = num_blocks bio, ci_rid = sv_next sv, ci_data = Some (iov_bytes iov) \<rparr>] \<and>
    store_completes chunkstore_complete (Io_done (length (cs_ios (sv_store sv))) True []) sv1 = Some (Done sv2) \<and>
    sv_ipc_out sv2 = sv_ipc_out sv @ [rsp] \<and>
    bdev_zcell_group_poll [[[stamp csid rsp]]] grp1 = Done (1, [(bio_id bio, SPDK_SUCCESS)], grp2)"
proof -
  have ch: "chan_ready ch" "queue_depth ch = 512" "zcell_nr grp = 1" using bdev_run_inv [OF assms(1)] assms(2) by auto
  obtain stripe oid ofst len where z: "zcell_place bio = (stripe, oid, ofst, len)" "unat oid = unat (offset_blocks bio) div 1024"
    "unat ofst = unat (offset_blocks bio) mod 1024 * 4096" "unat len = unat (num_blocks bio) * 4096"
    using place_nat [OF assms(7-9)] by blast
  let ?meta = "op_rw_encode \<lparr> rw_oid = unat oid, rw_ofst = unat ofst mod 2 ^ 32, rw_len = unat len, rw_flags = 0 \<rparr>"
  have rw: "rw_message bio iov = (msg_oss_op_write, 32, Some ?meta, unat len, Some (iov_bytes iov))"
    using assms(4) by (simp add: rw_message_def z(1))
  have "ids_free ch \<noteq> {}" using free_iff_outstanding [OF ch(1)] ch(2) assms(3) by simp
  with submit_rw [OF ch(1) assms(2,5,6) rw] obtain ch1 msg i where
    s: "bdev_zcell_get_buf_cb grp bio True = Done (grp\<lparr> zioch_list := [ch1] \<rparr>, [msg], [])" "chan_ready ch1"
    "queue_depth ch1 = queue_depth ch" "i < queue_depth ch"
    "op_ctxs ch1 ! i = \<lparr> op_msg = msg, op_st = OP_IN_PROGRESS, user_data = bio_id bio \<rparr>"
    and h: "m_header msg = \<lparr> h_seq = ch_seq ch, h_type = msg_oss_op_write mod 256, h_status = 0, h_magic = LOCAL, h_meta_length = 32,
        h_data_length = unat len, h_slo = 0, h_rsv = (i, 0) \<rparr>" "meta_buffer msg = Some ?meta" "data_buffer msg = Some (iov_bytes iov)"
    by auto
  have w64: "unat oid < 2 ^ 64" "unat len < 2 ^ 64" using unsigned_less [of oid] unsigned_less [of len] by simp_all
  note meta = write_meta [OF w64, of "unat ofst"]
  have hf: "h_type (m_header (stamp ssid msg)) = msg_oss_op_write" "h_magic (m_header (stamp ssid msg)) = LOCAL"
    "data_buffer (stamp ssid msg) = Some (iov_bytes iov)" "meta_buffer (stamp ssid msg) = Some ?meta"
    "24 \<le> length ?meta" "h_data_length (m_header (stamp ssid msg)) = field ?meta 16 8"
    "0 < h_meta_length (m_header (stamp ssid msg))"
    unfolding stamp_simps h meta(1,3) by (simp_all add: msg_oss_op_write_def)
  obtain sv1 sv2 rsp where sv: "on_recv_message (chunkstore_impl bd) env dev (stamp ssid msg) sv = Done sv1"
    "cs_ios (sv_store sv1) = cs_ios (sv_store sv) @ [chunk_request True ?meta (Some (iov_bytes iov)) (sv_next sv)]"
    "store_completes chunkstore_complete (Io_done (length (cs_ios (sv_store sv))) True []) sv1 = Some (Done sv2)"
    "sv_ipc_out sv2 = sv_ipc_out sv @ [rsp]"
    and rsp: "m_header rsp = (m_header (stamp ssid msg))\<lparr> h_meta_length := 0, h_data_length := 0, h_status := 0 \<rparr>"
    "meta_buffer rsp = None" "data_buffer rsp = None"
    using write_served [OF hf(1,2) assms(10) hf(3-7) assms(11,12), of bd env] by (elim exE conjE) (rule that)
  have "unat ofst < 2 ^ 32" unfolding z(3) by simp
  then have io: "chunk_request True ?meta (Some (iov_bytes iov)) (sv_next sv) =
      \<lparr> ci_write = True, ci_ofst = offset_blocks bio, ci_len = num_blocks bio, ci_rid = sv_next sv, ci_data = Some (iov_bytes iov) \<rparr>"
    using obj2blk_place [OF assms(8,9)] unfolding chunk_request_def meta(2) unfolding z(2-4) by (simp add: Let_def)
  have r: "resp_id (stamp csid rsp) = i" "meta_buffer (stamp csid rsp) = None" "message_get_status (stamp csid rsp) = 0"
    by (simp_all add: rsp h(1) resp_id_def message_get_status_def)
  have "m_header (stamp csid rsp) = m_header msg\<lparr> h_meta_length := 0, h_data_length := 0, h_status := 0 \<rparr>" by (simp add: rsp)
  then have "proper_answers ch1 [stamp csid rsp]"
    using s(3-5) by (simp add: proper_answers_def answers_def r(1,2) del: stamp_simps stamp_getters)
  then obtain grp2 where "bdev_zcell_group_poll [[[stamp csid rsp]]] (grp\<lparr> zioch_list := [ch1] \<rparr>) =
      Done (1, completions ch1 [stamp csid rsp], grp2)"
    using group_poll_one [of "grp\<lparr> zioch_list := [ch1] \<rparr>" ch1] s(2) ch(3) by fastforce
  moreover have "completions ch1 [stamp csid rsp] = [(bio_id bio, SPDK_SUCCESS)]"
    by (simp add: completions_def r(1,3) s(5) del: stamp_getters)
  ultimately show ?thesis using s(1) sv(1,3,4) sv(2) [unfolded io] by auto
qed

text \<open>
  C24: all disks are the same blocks.  Of two disks created one after the other the second gets
  the objects behind those of the first, but no request ever looks at that: a request does the
  same on both, so what is written to one is read from the other.
\<close>

theorem disks_share_blocks:
  assumes "create_zcell_disk True n1 s1 st = (0, st1)" and "create_zcell_disk True n2 s2 st1 = (0, st2)"
    and "unat (oid_max st) + 256 * unat s1 < 2 ^ 64"
  shows "\<exists>d1 d2. g_zcell_disk_head st2 = g_zcell_disk_head st @ [d1, d2] \<and>
    unat (stripe_oid_start d2) = unat (stripe_oid_start d1) + 256 * unat s1 \<and>
    (\<forall>grp bio. bdev_zcell_get_buf_cb grp (bio\<lparr> bio_disk := d1 \<rparr>) True = bdev_zcell_get_buf_cb grp (bio\<lparr> bio_disk := d2 \<rparr>) True)"
proof -
  define d1 where "d1 = last (g_zcell_disk_head st1)"
  define d2 where "d2 = last (g_zcell_disk_head st2)"
  have st1: "g_zcell_disk_head st1 = g_zcell_disk_head st @ [d1]" "stripe_oid_start d1 = oid_max st" "blocklen d1 = 0x1000"
    "oid_max st1 = oid_max st + push_bit 8 (ucast s1)"
    using assms(1) by (auto simp: d1_def create_zcell_disk_def GetOidStart_def STRIPE_UNIT_SHIFT_def)
  have st2: "g_zcell_disk_head st2 = g_zcell_disk_head st1 @ [d2]" "stripe_oid_start d2 = oid_max st1" "blocklen d2 = 0x1000"
    using assms(2) by (auto simp: d2_def create_zcell_disk_def GetOidStart_def)
  have "unat (push_bit 8 (ucast s1 :: u64)) = 256 * unat s1"
  proof -
    have "256 * unat s1 < 2 ^ 64" using assms(3) by linarith
    then show ?thesis
      unfolding unsigned_push_bit_eq unat_ucast_64 by (simp add: push_bit_eq_mult take_bit_eq_mod)
  qed
  then have "unat (stripe_oid_start d2) = unat (stripe_oid_start d1) + 256 * unat s1"
    using assms(3) unfolding st2(2) st1(2,4) by (simp add: unat_word_ariths(1) del: unat_add_lem)
  moreover have "zcell_place (bio\<lparr> bio_disk := d1 \<rparr>) = zcell_place (bio\<lparr> bio_disk := d2 \<rparr>)" for bio :: bdev_io
    by (simp add: zcell_place_def st1(3) st2(3))
  then have "bdev_zcell_get_buf_cb grp (bio\<lparr> bio_disk := d1 \<rparr>) True = bdev_zcell_get_buf_cb grp (bio\<lparr> bio_disk := d2 \<rparr>) True" for grp bio
    by (cases "zcell_place (bio\<lparr> bio_disk := d2 \<rparr>)") (simp add: bdev_zcell_get_buf_cb_def Let_def cong: list.case_cong if_cong)
  ultimately show ?thesis using st1(1) st2(1) by auto
qed

section \<open>Instances\<close>

definition demo_group :: zcell_channel_group where
  "demo_group = snd (bdev_zcell_group_create_cb 0 (Some 7) True
     \<lparr> refcount = 0, completion_poller = False, zcell_nr = 0, zioch_list = [] \<rparr>)"

definition demo_disk :: zcell_disk where
  "demo_disk = hd (g_zcell_disk_head (snd (create_zcell_disk True ''d0'' 4 bdev_zcell_initialize)))"

definition demo_bio :: bdev_io where
  "demo_bio = \<lparr> bio_id = 42, bio_type = SPDK_WRITE, bio_disk = demo_disk, num_blocks = 8, offset_blocks = 2000,
     iovs = [\<lparr> iov_base = 4096, iov_bytes = replicate 32768 7 \<rparr>] \<rparr>"

lemma demo_run:
  obtains ch where "bdev_run demo_group [] [] [] []" "zioch_list demo_group = [ch]" "outstanding ch = []"
proof -
  let ?g = "\<lparr> refcount = 0, completion_poller = False, zcell_nr = 0, zioch_list = [] \<rparr> :: zcell_channel_group"
  have "bdev_zcell_group_create_cb 0 (Some 7) True ?g = (0, demo_group)"
    by (simp add: demo_group_def bdev_zcell_group_create_cb_def get_io_channel_def)
  with bdev_start [of ?g] start_ready [of ?g] that show thesis by fastforce
qed

lemma demo_blocklen: "blocklen (bio_disk demo_bio) = 0x1000"
  by (simp add: demo_bio_def demo_disk_def create_zcell_disk_def GetOidStart_def bdev_zcell_initialize_def)

text \<open>A write that has to wait for its buffer, gets it in one piece and is sent; two pieces end the process.\<close>

lemma bdev_completes_once_witness:
  "\<exists>grp sent ch. bdev_zcell_submit_request (\<lambda>b. None) demo_group demo_bio = Done (demo_group, [], []) \<and>
    bdev_zcell_get_buf_cb demo_group (demo_bio\<lparr> iovs := iovs demo_bio \<rparr>) True = Done (grp, sent, []) \<and>
    zioch_list grp = [ch] \<and> outstanding ch = [42] \<and>
    bdev_zcell_get_buf_cb grp (demo_bio\<lparr> iovs := iovs demo_bio @ iovs demo_bio \<rparr>) True = Assert_fails"
proof -
  obtain ch where d: "bdev_run demo_group [] [] [] []" "zioch_list demo_group = [ch]" "outstanding ch = []" by (rule demo_run)
  have r: "chan_ready ch" "queue_depth ch = 512" using bdev_run_inv [OF d(1)] d(2) by auto
  have iov: "iovs demo_bio = [\<lparr> iov_base = 4096, iov_bytes = replicate 32768 7 \<rparr>]" "bio_type demo_bio = SPDK_WRITE" "bio_id demo_bio = 42"
    by (simp_all add: demo_bio_def)
  have same: "demo_bio\<lparr> iovs := iovs demo_bio \<rparr> = demo_bio" by simp
  have "ids_free ch \<noteq> {}" using free_iff_outstanding [OF r(1)] r(2) d(3) by simp
  then obtain grp sent where cb: "bdev_zcell_get_buf_cb demo_group demo_bio True = Done (grp, sent, [])"
    using submit_rw [OF r(1) d(2) iov(1)] by (cases "rw_message demo_bio (hd (iovs demo_bio))") (fastforce simp: iov(1))
  have s: "bdev_zcell_submit_request (\<lambda>b. None) demo_group demo_bio = Done (demo_group, [], [])"
    by (simp add: bdev_zcell_submit_request_def iov(2))
  have "bdev_run demo_group [demo_bio] [] [42] []"
    using bdev_defer [OF d(1) _ _ s] by (simp add: moves_data_def iov(2,3))
  from bdev_buf [OF this, of demo_bio "iovs demo_bio" True grp sent "[]"] have "bdev_run grp [] [] [42] []"
    using cb unfolding same by (simp add: dropped_def iov(1))
  from bdev_completes_once [OF this] obtain ch' where c: "zioch_list grp = [ch']" "mset [42] = mset (outstanding ch')"
    "bdev_zcell_get_buf_cb grp (demo_bio\<lparr> iovs := iovs demo_bio @ iovs demo_bio \<rparr>) True = Assert_fails"
    by (auto simp: iov(1))
  then have "outstanding ch' = [42]" by (metis mset_single_iff_right mset.simps)
  then show ?thesis using s cb c(1,3) unfolding same by blast
qed

lemma full_table_aborts_witness: "bdev_zcell_get_buf_cb demo_group demo_bio True \<noteq> Assert_fails"
proof -
  obtain ch where d: "bdev_run demo_group [] [] [] []" "zioch_list demo_group = [ch]" "outstanding ch = []" by (rule demo_run)
  have iov: "iovs demo_bio = [\<lparr> iov_base = 4096, iov_bytes = replicate 32768 7 \<rparr>]" by (simp add: demo_bio_def)
  show ?thesis using full_table_aborts [OF d(1,2) iov] d(3) by simp
qed

lemma bdev_write_end_to_end_witness:
  "\<exists>grp1 msg sv1 sv2 rsp grp2. bdev_zcell_get_buf_cb demo_group demo_bio True = Done (grp1, [msg], []) \<and>
    on_recv_message (chunkstore_impl demo_bd) demo_env demo_dev (stamp 1 msg) demo_server = Done sv1 \<and>
    cs_ios (sv_store sv1) = [\<lparr> ci_write = True, ci_ofst = 2000, ci_len = 8, ci_rid = 0, ci_data = Some (replicate 32768 7) \<rparr>] \<and>
    store_completes chunkstore_complete (Io_done 0 True []) sv1 = Some (Done sv2) \<and> sv_ipc_out sv2 = [rsp] \<and>
    bdev_zcell_group_poll [[[stamp 1 rsp]]] grp1 = Done (1, [(42, SPDK_SUCCESS)], grp2)"
proof -
  obtain ch where d: "bdev_run demo_group [] [] [] []" "zioch_list demo_group = [ch]" "outstanding ch = []" by (rule demo_run)
  have bio: "bio_type demo_bio = SPDK_WRITE" "iovs demo_bio = [\<lparr> iov_base = 4096, iov_bytes = replicate 32768 7 \<rparr>]"
    "offset_blocks demo_bio = 2000" "num_blocks demo_bio = 8" "bio_id demo_bio = 42"
    by (simp_all add: demo_bio_def)
  have sv: "sv_ipc demo_server" "reqs_ok demo_server" "dev_rcs demo_dev = []" "cs_ios (sv_store demo_server) = []"
    "sv_ipc_out demo_server = []" "sv_next demo_server = 0"
    by (simp_all add: demo_server_def reqs_ok_def demo_dev_def chunkstore_init_def)
  have p: "length (outstanding ch) < 512" "iov_base \<lparr> iov_base = 4096, iov_bytes = replicate 32768 (7 :: u8) \<rparr> \<noteq> 0"
    "unat (offset_blocks demo_bio) < 2 ^ 32" "unat (num_blocks demo_bio) \<le> 1024"
    by (simp_all add: d(3) bio)
  show ?thesis
    using bdev_write_end_to_end [OF d(1,2) p(1) bio(1,2) p(2) demo_blocklen p(3,4) sv(1-3), where bd = demo_bd and env = demo_env and ssid = 1 and csid = 1]
    unfolding sv(4-6) bio(3-5) by simp
qed

lemma disks_share_blocks_witness:
  "\<exists>d1 d2. g_zcell_disk_head (snd (create_zcell_disk True ''d1'' 6 (snd (create_zcell_disk True ''d0'' 4 bdev_zcell_initialize)))) = [d1, d2] \<and>
    unat (stripe_oid_start d2) = unat (stripe_oid_start d1) + 1024 \<and>
    bdev_zcell_get_buf_cb demo_group (demo_bio\<lparr> bio_disk := d1 \<rparr>) True = bdev_zcell_get_buf_cb demo_group (demo_bio\<lparr> bio_disk := d2 \<rparr>) True"
proof -
  let ?c1 = "create_zcell_disk True ''d0'' 4 bdev_zcell_initialize"
  let ?c2 = "create_zcell_disk True ''d1'' 6 (snd ?c1)"
  have c: "?c1 = (0, snd ?c1)" "?c2 = (0, snd ?c2)" by (simp_all add: create_zcell_disk_def Let_def split: prod.splits)
  have b: "unat (oid_max bdev_zcell_initialize) + 256 * unat (4 :: u32) < 2 ^ 64" "g_zcell_disk_head bdev_zcell_initialize = []"
    by (simp_all add: bdev_zcell_initialize_def)
  show ?thesis using disks_share_blocks [OF c b(1)] unfolding b(2) by auto
qed

end
