(* ===== verification/Bdev_Rpc.thy ===== *)
theory Bdev_Rpc
  imports Bdev_Zcell
begin

text \<open>
  The remote procedures that create and delete disks (\<^verbatim>\<open>spdk_bdev/bdev_zcell_rpc.c\<close>).  What the
  JSON library decoded and what SPDK knows under a name are arguments; the effects are the
  answer sent to the client and the name given back to the allocator.
\<close>

record rpc_construct_zcell_bdev =
  construct_name :: "string option"
  size_GiB :: u32

type_synonym rpc_delete_zcell_bdev = "string option"

datatype rpc_effect =
    Rpc_decode_error
  | Rpc_error int
  | Rpc_string string
  | Rpc_bool bool
  | Rpc_free "string option"

definition free_rpc_construct_zcell_bdev :: "rpc_construct_zcell_bdev \<Rightarrow> rpc_effect list" where
  "free_rpc_construct_zcell_bdev r = [Rpc_free (construct_name r)]"

definition free_rpc_delete_zcell_bdev :: "rpc_delete_zcell_bdev \<Rightarrow> rpc_effect list" where
  "free_rpc_delete_zcell_bdev r = [Rpc_free r]"

text \<open>
  The decoder says whether it succeeded and what it has filled in; when it succeeds the name
  is there.  The copy of a name that is \<^verbatim>\<open>NULL\<close> would be a fault.
\<close>

definition spdk_rpc_construct_zcell_bdev ::
    "bool \<times> rpc_construct_zcell_bdev \<Rightarrow> bool \<Rightarrow> bdev_module \<Rightarrow> (rpc_effect list \<times> bdev_module) run" where
  "spdk_rpc_construct_zcell_bdev decoded calloc_ok st =
     (let (ok, req) = decoded in
      if \<not> ok then Done (Rpc_decode_error # free_rpc_construct_zcell_bdev req, st)
      else case construct_name req of
        None \<Rightarrow> Wild
      | Some name \<Rightarrow>
          (let (rc, st') = create_zcell_disk calloc_ok name (size_GiB req) st in
           if rc \<noteq> 0 then Done (Rpc_error rc # free_rpc_construct_zcell_bdev req, st')
           else Done (Rpc_string name # free_rpc_construct_zcell_bdev req, st')))"

definition spdk_rpc_delete_zcell_bdev_cb :: "int \<Rightarrow> rpc_effect list" where
  "spdk_rpc_delete_zcell_bdev_cb bdeverrno = [Rpc_bool (bdeverrno = 0)]"

text \<open>
  Unregistering may answer at once or later; the answers are listed in the order of the calls.
\<close>

definition spdk_rpc_delete_zcell_bdev ::
    "bool \<times> rpc_delete_zcell_bdev \<Rightarrow> (string \<Rightarrow> (zcell_disk \<times> bool) option) \<Rightarrow> bool \<Rightarrow> int \<Rightarrow> bdev_module
       \<Rightarrow> (rpc_effect list \<times> bdev_module) run" where
  "spdk_rpc_delete_zcell_bdev decoded get_by_name calloc_ok bdeverrno st =
     (let (ok, req) = decoded in
      if \<not> ok then Done (Rpc_decode_error # free_rpc_delete_zcell_bdev req, st)
      else case req of
        None \<Rightarrow> Wild
      | Some name \<Rightarrow>
          (case get_by_name name of
             None \<Rightarrow> Done (Rpc_error (- ENODEV) # free_rpc_delete_zcell_bdev req, st)
           | Some (disk, mine) \<Rightarrow>
               (let (codes, st') = delete_zcell_disk (Some disk) mine calloc_ok bdeverrno st in
                Done (concat (map spdk_rpc_delete_zcell_bdev_cb codes) @ free_rpc_delete_zcell_bdev req, st'))))"

section \<open>Answers\<close>

definition rpc_answers :: "rpc_effect list \<Rightarrow> rpc_effect list" where
  "rpc_answers = filter (\<lambda>e. case e of Rpc_free _ \<Rightarrow> False | _ \<Rightarrow> True)"

definition rpc_frees :: "rpc_effect list \<Rightarrow> string option list" where
  "rpc_frees es = concat (map (\<lambda>e. case e of Rpc_free n \<Rightarrow> [n] | _ \<Rightarrow> []) es)"

lemmas rpc_defs = spdk_rpc_construct_zcell_bdev_def spdk_rpc_delete_zcell_bdev_def spdk_rpc_delete_zcell_bdev_cb_def
  free_rpc_construct_zcell_bdev_def free_rpc_delete_zcell_bdev_def rpc_answers_def rpc_frees_def Let_def

text \<open>
  Every call is answered exactly once and gives its name back exactly once, on every path; a
  disk is added when and only when the answer is its name.
\<close>

theorem construct_answered_once:
  assumes "fst decoded \<Longrightarrow> construct_name (snd decoded) \<noteq> None"
  shows "\<exists>es st'. spdk_rpc_construct_zcell_bdev decoded calloc_ok st = Done (es, st') \<and>
    length (rpc_answers es) = 1 \<and> rpc_frees es = [construct_name (snd decoded)] \<and>
    (if fst decoded \<and> calloc_ok
     then rpc_answers es = [Rpc_string (the (construct_name (snd decoded)))] \<and>
       length (g_zcell_disk_head st') = length (g_zcell_disk_head st) + 1
     else st' = st)"
  using assms
  by (cases decoded; cases "construct_name (snd decoded)"; cases calloc_ok)
    (auto simp: rpc_defs create_zcell_disk_def ENOMEM_def GetOidStart_def split: if_splits)

theorem delete_answered_once:
  assumes "fst decoded \<Longrightarrow> snd decoded \<noteq> None"
  shows "\<exists>es st'. spdk_rpc_delete_zcell_bdev decoded get_by_name calloc_ok bdeverrno st = Done (es, st') \<and>
    length (rpc_answers es) = 1 \<and> rpc_frees es = [snd decoded]"
  using assms
  by (cases decoded; cases "snd decoded"; cases "get_by_name (the (snd decoded))")
    (auto simp: rpc_defs delete_zcell_disk_def split: option.splits)

text \<open>
  The result of registering a disk is ignored: creating a second disk of the same name is
  answered with success, and the module lists both.
\<close>

theorem duplicate_name_succeeds:
  assumes "construct_name r = Some name"
  shows "\<exists>es1 st1 es2 st2. spdk_rpc_construct_zcell_bdev (True, r) True st = Done (es1, st1) \<and>
    spdk_rpc_construct_zcell_bdev (True, r) True st1 = Done (es2, st2) \<and> rpc_answers es2 = [Rpc_string name] \<and>
    map disk_name (g_zcell_disk_head st2) = map disk_name (g_zcell_disk_head st) @ [name, name]"
  using assms by (simp add: rpc_defs create_zcell_disk_def GetOidStart_def split: prod.splits)

end
