(* ===== verification/Admin_Client.thy ===== *)
theory Admin_Client
  imports Liboss
begin

text \<open>
  The administration client (\<^verbatim>\<open>client_main.c\<close>): one operation at a time on a channel, the script
  it runs, and its commands.  \<open>rcs\<close> and \<open>waits\<close> are what the messager of the channel answers to
  flushes and delivers; what a variable held before it is set is an argument too.
\<close>

section \<open>One operation\<close>

text \<open>The client: its error code and its channel.\<close>

record admin_context =
  errcode :: int
  ioch :: io_channel

text \<open>Submit and wait: the result, the channel, and what was sent.\<close>

definition sync_with_op ::
    "int list \<Rightarrow> message list list \<Rightarrow> int \<Rightarrow> io_channel \<Rightarrow> (int \<times> io_channel \<times> message list) run" where
  "sync_with_op rcs waits opd ch =
     run_bind (io_submit_to_channel ch [opd] rcs) (\<lambda>(rc, ch1, sent).
       if rc < 0 then Done (- 1, ch1, sent)
       else run_bind (io_poll_channel ch1 1 1 waits) (\<lambda>(rc, cpls, ch2).
         if rc < 0 then Done (- 1, ch2, sent) else Done (0, ch2, sent)))"

text \<open>
  The common end of the operations: the result of \<open>sync_with_op\<close> is ignored, the result of the
  operation is claimed, and its descriptor given back.  Without a result the variables keep
  what they had: \<open>old\<close>.
\<close>

definition finish_op ::
    "int \<Rightarrow> int \<times> u8 list option \<Rightarrow> int \<times> io_channel \<times> message list \<Rightarrow>
      ((int \<times> u8 list option) \<times> io_channel \<times> message list) run" where
  "finish_op opd old synced =
     (let (_, ch, sent) = synced;
          (res, ch1) = op_claim_result ch opd;
          out = (case res of None \<Rightarrow> old | Some (status, _, data, _) \<Rightarrow> (int status, data))
      in run_bind (op_destory ch1 opd) (\<lambda>(_, ch2). Done (out, ch2, sent)))"

definition do_create :: "int list \<Rightarrow> message list list \<Rightarrow> nat \<Rightarrow> admin_context \<Rightarrow> (int \<times> admin_context \<times> message list) run" where
  "do_create rcs waits oid ac =
     run_bind (io_create (ioch ac) oid) (\<lambda>(opd, ch1).
       run_bind (sync_with_op rcs waits opd ch1) (\<lambda>synced.
         run_bind (finish_op opd (errcode ac, None) synced) (\<lambda>((status, _), ch2, sent).
           Done (status, \<lparr> errcode = status, ioch = ch2 \<rparr>, sent))))"

definition do_delete :: "int list \<Rightarrow> message list list \<Rightarrow> nat \<Rightarrow> admin_context \<Rightarrow> (int \<times> admin_context \<times> message list) run" where
  "do_delete rcs waits oid ac =
     run_bind (io_delete (ioch ac) oid) (\<lambda>(opd, ch1).
       run_bind (sync_with_op rcs waits opd ch1) (\<lambda>synced.
         run_bind (finish_op opd (errcode ac, None) synced) (\<lambda>((status, _), ch2, sent).
           Done (status, \<lparr> errcode = status, ioch = ch2 \<rparr>, sent))))"

text \<open>
  A string is written as one block of 4096 bytes: the string, a zero and what the buffer held.
  \<open>junk\<close> is what the variable of the status held.
\<close>

definition string_block :: "u8 list \<Rightarrow> u8 list \<Rightarrow> u8 list" where
  "string_block garbage str = take 4096 (str @ 0 # drop (length str + 1) garbage)"

definition do_write ::
    "int list \<Rightarrow> message list list \<Rightarrow> u8 list \<Rightarrow> int \<Rightarrow> nat \<Rightarrow> u8 list \<Rightarrow> admin_context \<Rightarrow> (int \<times> admin_context \<times> message list) run" where
  "do_write rcs waits garbage junk oid str ac =
     (if 4096 \<le> length str then Done (- 1, ac, [])
      else run_bind (io_write (ioch ac) oid (string_block garbage str) 0 0x1000) (\<lambda>(opd, ch1).
        run_bind (sync_with_op rcs waits opd ch1) (\<lambda>synced.
          run_bind (finish_op opd (junk, None) synced) (\<lambda>((status, _), ch2, sent).
            Done (status, ac\<lparr> ioch := ch2 \<rparr>, sent)))))"

text \<open>
  Reading prints the block as a string: its byte 4095 is set to zero first.  A response without
  data is only warned of; the store through the null pointer follows.
\<close>

definition print_block :: "u8 list option \<Rightarrow> u8 list run" where
  "print_block data =
     (case data of
        None \<Rightarrow> Wild
      | Some b \<Rightarrow> if length b < 4096 then Wild else Done (takeWhile (\<lambda>c. c \<noteq> 0) (b[4095 := 0])))"

definition do_get ::
    "int list \<Rightarrow> message list list \<Rightarrow> u8 list \<Rightarrow> int \<Rightarrow> nat \<Rightarrow> admin_context \<Rightarrow>
      (int \<times> u8 list \<times> admin_context \<times> message list) run" where
  "do_get rcs waits garbage junk oid ac =
     run_bind (io_read garbage (ioch ac) oid 0 0x1000) (\<lambda>(opd, ch1).
       run_bind (sync_with_op rcs waits opd ch1) (\<lambda>synced.
         run_bind (finish_op opd (junk, None) synced) (\<lambda>((status, data), ch2, sent).
           run_bind (print_block data) (\<lambda>out. Done (status, out, ac\<lparr> ioch := ch2 \<rparr>, sent)))))"

text \<open>
  Reading into the client's own buffer, at the address \<open>rbuf\<close>; \<open>same\<close> is whether the data of the
  response are at that address.
\<close>

definition do_get2 ::
    "int list \<Rightarrow> message list list \<Rightarrow> nat \<Rightarrow> bool \<Rightarrow> int \<Rightarrow> nat \<Rightarrow> admin_context \<Rightarrow>
      (int \<times> u8 list \<times> admin_context \<times> message list) run" where
  "do_get2 rcs waits rbuf same junk oid ac =
     run_bind (io_read2 (ioch ac) rbuf oid 0 0x1000) (\<lambda>(opd, ch1).
       run_bind (sync_with_op rcs waits opd ch1) (\<lambda>synced.
         run_bind (finish_op opd (junk, None) synced) (\<lambda>((status, data), ch2, sent).
           run_bind (print_block data) (\<lambda>out.
             if \<not> same then Assert_fails else Done (status, out, ac\<lparr> ioch := ch2 \<rparr>, sent)))))"

text \<open>The statistics are not parsed: always 0.\<close>

definition do_stat :: "int list \<Rightarrow> message list list \<Rightarrow> admin_context \<Rightarrow> (int \<times> admin_context \<times> message list) run" where
  "do_stat rcs waits ac =
     run_bind (io_stat (ioch ac)) (\<lambda>(opd, ch1).
       run_bind (sync_with_op rcs waits opd ch1) (\<lambda>synced.
         run_bind (finish_op opd (0, None) synced) (\<lambda>(_, ch2, sent). Done (0, ac\<lparr> ioch := ch2 \<rparr>, sent))))"

section \<open>The script\<close>

text \<open>
  Create, write and read back the object 2333.  The messages delivered for the three operations
  are arguments; the results are what was read and what was sent.
\<close>

definition sys_init_script ::
    "message list list \<Rightarrow> message list list \<Rightarrow> message list list \<Rightarrow> u8 list \<Rightarrow> int \<Rightarrow> nat \<Rightarrow> bool \<Rightarrow> admin_context \<Rightarrow>
      (u8 list \<times> admin_context \<times> message list) run" where
  "sys_init_script w1 w2 w3 garbage junk rbuf same ac =
     run_bind (do_create [] w1 2333 ac) (\<lambda>(rc, ac1, sent1).
       if rc \<noteq> 0 then Assert_fails
       else run_bind (do_write [] w2 garbage junk 2333 [50, 51, 51, 51] ac1) (\<lambda>(rc, ac2, sent2).
         if rc \<noteq> 0 then Assert_fails
         else run_bind (do_get2 [] w3 rbuf same junk 2333 ac2) (\<lambda>(rc, out, ac3, sent3).
           if rc \<noteq> 0 then Assert_fails else Done (out, ac3, sent1 @ sent2 @ sent3))))"

section \<open>Measuring\<close>

text \<open>
  The measurement works in batches: prepare, submit, wait for all, claim and destroy all; any
  error is \<open>exit\<close>.  An environment gives for every batch what the messager answers.  Times and
  what is printed are left out.
\<close>

type_synonym 'a exits = "'a option run"

definition exits_bind :: "'a exits \<Rightarrow> ('a \<Rightarrow> 'b exits) \<Rightarrow> 'b exits" where
  "exits_bind r f = run_bind r (\<lambda>x. case x of None \<Rightarrow> Done None | Some y \<Rightarrow> f y)"

fun prepare_ops :: "(io_channel \<Rightarrow> (int \<times> io_channel) run) list \<Rightarrow> io_channel \<Rightarrow> (int list \<times> io_channel) exits" where
  "prepare_ops [] ch = Done (Some ([], ch))"
| "prepare_ops (p # ps) ch =
     run_bind (p ch) (\<lambda>(opd, ch1).
       if opd < 0 then Done None
       else exits_bind (prepare_ops ps ch1) (\<lambda>(opds, ch2). Done (Some (opd # opds, ch2))))"

text \<open>The status of an operation that cannot be claimed is what the variable held.\<close>

fun claim_ops :: "int \<Rightarrow> nat list \<Rightarrow> io_channel \<Rightarrow> io_channel exits" where
  "claim_ops junk [] ch = Done (Some ch)"
| "claim_ops junk (cpl # cpls) ch =
     (let (res, ch1) = op_claim_result ch (int cpl);
          status = (case res of None \<Rightarrow> junk | Some (status, _) \<Rightarrow> int status)
      in if status \<noteq> 0 then Done None
         else run_bind (op_destory ch1 (int cpl)) (\<lambda>(_, ch2). claim_ops junk cpls ch2))"

definition run_batch ::
    "int \<Rightarrow> (io_channel \<Rightarrow> (int \<times> io_channel) run) list \<Rightarrow> int list \<times> message list list \<Rightarrow> io_channel \<Rightarrow>
      (message list \<times> io_channel) exits" where
  "run_batch junk ps env ch =
     exits_bind (prepare_ops ps ch) (\<lambda>(opds, ch1).
       run_bind (io_submit_to_channel ch1 opds (fst env)) (\<lambda>(rc, ch2, sent).
         if rc < 0 then Done None
         else run_bind (io_poll_channel ch2 (int (length ps)) (int (length ps)) (snd env)) (\<lambda>(rc, cpls, ch3).
           if rc < 0 then Done None
           else if length cpls < length ps then Wild
           else exits_bind (claim_ops junk cpls ch3) (\<lambda>ch4. Done (Some (sent, ch4))))))"

fun run_batches ::
    "int \<Rightarrow> (io_channel \<Rightarrow> (int \<times> io_channel) run) list list \<Rightarrow> (int list \<times> message list list) list \<Rightarrow> io_channel \<Rightarrow>
      (message list \<times> io_channel) exits" where
  "run_batches junk [] envs ch = Done (Some ([], ch))"
| "run_batches junk (b # bs) [] ch = Hangs"
| "run_batches junk (b # bs) (env # envs) ch =
     exits_bind (run_batch junk b env ch) (\<lambda>(sent, ch1).
       exits_bind (run_batches junk bs envs ch1) (\<lambda>(sent', ch2). Done (Some (sent @ sent', ch2))))"

text \<open>In every batch all operations are on the object with the number of the batch.\<close>

definition create_or_delete_test_objects ::
    "bool \<Rightarrow> nat \<Rightarrow> nat \<Rightarrow> int \<Rightarrow> (int list \<times> message list list) list \<Rightarrow> io_channel \<Rightarrow> (message list \<times> io_channel) exits" where
  "create_or_delete_test_objects create n_objs cqd junk envs ch =
     run_batches junk
       (map (\<lambda>i. replicate cqd (\<lambda>ch. if create then io_create ch i else io_delete ch i)) [0..<n_objs div cqd]) envs ch"

text \<open>First all writes, then reads of the same objects; \<open>rand\<close> are the random numbers.\<close>

definition write_and_read_test_objects ::
    "(nat \<Rightarrow> nat) \<Rightarrow> u8 list \<Rightarrow> u8 list \<Rightarrow> nat \<Rightarrow> nat \<Rightarrow> int \<Rightarrow> (int list \<times> message list list) list \<Rightarrow>
      (int list \<times> message list list) list \<Rightarrow> io_channel \<Rightarrow> (message list \<times> io_channel) exits" where
  "write_and_read_test_objects rand wbuff garbage loop qd junk wenvs renvs ch =
     (let oid = (\<lambda>i j. rand (i * qd + j) mod 10000) in
      exits_bind (run_batches junk (map (\<lambda>i. map (\<lambda>j ch. io_write ch (oid i j) wbuff 0 0x1000) [0..<qd]) [0..<loop]) wenvs ch)
        (\<lambda>(sent, ch1).
          exits_bind (run_batches junk (map (\<lambda>i. map (\<lambda>j ch. io_read garbage ch (oid i j) 0 0x1000) [0..<qd]) [0..<loop]) renvs ch1)
            (\<lambda>(sent', ch2). Done (Some (sent @ sent', ch2)))))"

record perf_env =
  pe_create :: "(int list \<times> message list list) list"
  pe_write :: "(int list \<times> message list list) list"
  pe_read :: "(int list \<times> message list list) list"
  pe_delete :: "(int list \<times> message list list) list"
  pe_rand :: "nat \<Rightarrow> nat"
  pe_wbuff :: "u8 list"
  pe_garbage :: "u8 list"
  pe_junk :: int

definition do_perf :: "perf_env \<Rightarrow> nat \<Rightarrow> nat \<Rightarrow> io_channel \<Rightarrow> (message list \<times> io_channel) exits" where
  "do_perf e rw_loop qd ch =
     exits_bind (create_or_delete_test_objects True 10000 100 (pe_junk e) (pe_create e) ch) (\<lambda>(s1, ch1).
       exits_bind (write_and_read_test_objects (pe_rand e) (pe_wbuff e) (pe_garbage e) rw_loop qd (pe_junk e) (pe_write e) (pe_read e) ch1)
         (\<lambda>(s2, ch2).
           exits_bind (create_or_delete_test_objects False 10000 100 (pe_junk e) (pe_delete e) ch2) (\<lambda>(s3, ch3).
             Done (Some (s1 @ s2 @ s3, ch3)))))"

section \<open>Commands\<close>

text \<open>
  The arguments of the command line without the program.  There must be two, but the command is
  the third, and its own arguments are looked up without a check.  \<open>exit\<close> is \<open>None\<close>.
\<close>

definition arg :: "string list \<Rightarrow> nat \<Rightarrow> string run" where
  "arg argv i = (if i < length argv then Done (argv ! i) else Wild)"

definition bytes_of :: "string \<Rightarrow> u8 list" where
  "bytes_of s = map (\<lambda>c. of_nat (of_char c)) s"

definition run_old ::
    "(string \<Rightarrow> nat) \<Rightarrow> perf_env \<Rightarrow> int list \<Rightarrow> message list list \<Rightarrow> message list list \<Rightarrow> u8 list \<Rightarrow> int \<Rightarrow> string list \<Rightarrow>
      io_channel option \<Rightarrow> int \<Rightarrow> int exits" where
  "run_old atoi pe rcs w1 w2 garbage junk argv channel errcode0 =
     (if length argv < 2 then Done None
      else case channel of
        None \<Rightarrow> Done (Some (- 1))
      | Some ch \<Rightarrow>
          let ac = \<lparr> errcode = errcode0, ioch = ch \<rparr> in
          run_bind (arg argv 2) (\<lambda>cmd.
            if cmd = ''stat'' then run_bind (do_stat rcs w1 ac) (\<lambda>_. Done (Some 0))
            else if cmd = ''cre'' then
              run_bind (arg argv 3) (\<lambda>a.
                run_bind (do_create rcs w1 (atoi a) ac) (\<lambda>(rc, _). Done (Some (if rc \<noteq> 0 then - 1 else 0))))
            else if cmd = ''put'' then
              run_bind (arg argv 3) (\<lambda>a. run_bind (arg argv 4) (\<lambda>str.
                run_bind (do_create rcs w1 (atoi a) ac) (\<lambda>(rc, ac1, _).
                  if rc \<noteq> 0 then Done (Some (- 1))
                  else run_bind (do_write rcs w2 garbage junk (atoi a) (bytes_of str) ac1) (\<lambda>(rc, _).
                    Done (Some (if rc \<noteq> 0 then - 1 else 0))))))
            else if cmd = ''get'' then
              run_bind (arg argv 3) (\<lambda>a.
                run_bind (do_get rcs w1 garbage junk (atoi a) ac) (\<lambda>(rc, _). Done (Some (if rc \<noteq> 0 then - 1 else 0))))
            else if cmd = ''delete'' then
              run_bind (arg argv 3) (\<lambda>a.
                run_bind (do_delete rcs w1 (atoi a) ac) (\<lambda>(rc, _). Done (Some (if rc \<noteq> 0 then - 1 else 0))))
            else if cmd = ''perf'' then
              run_bind (arg argv 3) (\<lambda>a. run_bind (arg argv 4) (\<lambda>b.
                exits_bind (do_perf pe (atoi b) (atoi a) ch) (\<lambda>_. Done (Some 0))))
            else Done (Some (- 1))))"

end
