(* ===== verification/Admin_Client_Correct.thy ===== *)
theory Admin_Client_Correct
  imports Admin_Client Liboss_Correct
begin

text \<open>
  The operations of the administration client on an idle channel: the status they return is the
  server's, a string that is put comes back from get, and what happens when an operation could
  not be submitted.
\<close>

definition idle_channel :: "io_channel \<Rightarrow> bool" where
  "idle_channel ch \<longleftrightarrow> ch_inv ch \<and> session_type ch = LOCAL \<and> cpl_nr ch = 0 \<and> 0 < reap_depth ch \<and> reap_depth ch < 2 ^ 31 \<and>
     length (cpl_ops ch) = reap_depth ch \<and> ids_free ch \<noteq> {}"

text \<open>The message answers the next operation of a type on the channel, with descriptor \<open>i\<close>.\<close>

definition answer_to :: "io_channel \<Rightarrow> nat \<Rightarrow> nat \<Rightarrow> message \<Rightarrow> bool" where
  "answer_to ch i ty m \<longleftrightarrow> meta_buffer m = None \<and> resp_id m = i \<and> message_get_seq m = ch_seq ch \<and> message_get_op m = ty mod 256"

lemma one_operation:
  assumes "idle_channel ch" and "ms \<le> 255"
  shows "\<exists>i ch1. io_prepare_op_common ch ty ms meta dl data = Done (int i, ch1) \<and> (\<forall>m. answer_to ch i ty m \<longrightarrow>
    (\<exists>msg ch'. (\<forall>(k :: _ \<Rightarrow> 'b run) old. run_bind (sync_with_op [] [[m]] (int i) ch1) (\<lambda>synced. run_bind (finish_op (int i) old synced) k) =
        k ((int (message_get_status m), data_buffer m), ch', [msg])) \<and>
      meta_buffer msg = meta \<and> data_buffer msg = data \<and> message_get_op msg = ty mod 256 \<and> ch_inv ch' \<and>
      op_st (op_ctxs ch' ! i) = OP_NEW))"
proof -
  note idle = assms(1) [unfolded idle_channel_def]
  obtain r ch1 where p: "io_prepare_op_common ch ty ms meta dl data = Done (r, ch1)"
    using prepare_done [of ch ms] idle assms(2) by blast
  obtain i where r: "r = int i"
    using prepare_shape [OF _ assms(2) p] idle by blast
  have "\<exists>msg ch'. (\<forall>(k :: _ \<Rightarrow> 'b run) old. run_bind (sync_with_op [] [[m]] (int i) ch1) (\<lambda>synced. run_bind (finish_op (int i) old synced) k) =
        k ((int (message_get_status m), data_buffer m), ch', [msg])) \<and>
      meta_buffer msg = meta \<and> data_buffer msg = data \<and> message_get_op msg = ty mod 256 \<and> ch_inv ch' \<and>
      op_st (op_ctxs ch' ! i) = OP_NEW" if a: "answer_to ch i ty m" for m
  proof -
    obtain msg ch2 ch3 ch4 ch5 where c: "io_submit_to_channel ch1 [int i] [] = Done (0, ch2, [msg])"
      "m_header msg = \<lparr> h_seq = ch_seq ch, h_type = ty mod 256, h_status = 0, h_magic = LOCAL, h_meta_length = ms,
        h_data_length = dl, h_slo = 0, h_rsv = (i, 0) \<rparr>" "meta_buffer msg = meta" "data_buffer msg = data"
      "io_poll_channel ch2 1 1 [[m]] = Done (1, [i], ch3)"
      "op_claim_result ch3 (int i) = (Some (message_get_status m, message_get_op m, data_buffer m, message_get_data_len m), ch4)"
      "op_destory ch4 (int i) = Done (0, ch5)" "ch_inv ch5" "op_st (op_ctxs ch5 ! i) = OP_NEW"
      using op_roundtrip_msg [OF _ _ _ _ _ _ assms(2) p [unfolded r], of m] idle a unfolding answer_to_def by metis
    have "run_bind (sync_with_op [] [[m]] (int i) ch1) (\<lambda>synced. run_bind (finish_op (int i) old synced) k) =
        k ((int (message_get_status m), data_buffer m), ch5, [msg])" for k :: "_ \<Rightarrow> 'b run" and old
      using c(1,5-7) by (simp add: sync_with_op_def finish_op_def)
    moreover have "message_get_op msg = ty mod 256" by (simp add: message_get_op_def c(2))
    ultimately show ?thesis using c(3,4,8,9) by blast
  qed
  then show ?thesis using p r by blast
qed

text \<open>A string is the beginning of its block, up to the first zero.\<close>

lemma takeWhile_str: "0 \<notin> set str \<Longrightarrow> takeWhile (\<lambda>c. c \<noteq> 0) (str @ 0 # r) = str"
  by (induction str) auto

lemma print_string_block:
  assumes "length str < 4096" and "0 \<notin> set str" and "length garbage = 4096"
  shows "print_block (Some (string_block garbage str)) = Done str"
proof -
  let ?b = "string_block garbage str"
  have l: "length ?b = 4096" using assms(1,3) by (simp add: string_block_def)
  have b: "?b = str @ 0 # drop (length str + 1) garbage" using assms(1,3) by (simp add: string_block_def)
  obtain r where "?b[4095 := 0] = str @ 0 # r"
  proof (cases "length str = 4095")
    case True
    then show thesis using that [of "[]"] assms(3) unfolding b by (simp add: list_update_append)
  next
    case False
    then have "length str < 4095" using assms(1) by simp
    then show thesis using that unfolding b by (simp add: list_update_append nat.split Suc_diff_Suc [symmetric])
  qed
  then have "takeWhile (\<lambda>c. c \<noteq> 0) (?b[4095 := 0]) = str"
    using takeWhile_str [OF assms(2)] by simp
  then show ?thesis using l by (simp add: print_block_def)
qed

text \<open>
  what is put comes back.  On an idle channel a put of a string shorter than 4096 bytes and
  without zeros sends one write with a block that begins with it, and returns the status of the
  server's answer; a get answered with that block sends one read, prints exactly the string, and
  returns the status.  Afterwards the descriptors are free again.
\<close>

theorem put_then_get:
  assumes "idle_channel (ioch ac)" and "length str < 4096" and "0 \<notin> set str" and "length garbage = 4096"
  shows "(\<exists>i. \<forall>m. answer_to (ioch ac) i msg_oss_op_write m \<longrightarrow>
      (\<exists>msg ch'. do_write [] [[m]] garbage junk oid str ac = Done (int (message_get_status m), ac\<lparr> ioch := ch' \<rparr>, [msg]) \<and>
        message_get_op msg = msg_oss_op_write mod 256 \<and> data_buffer msg = Some (string_block garbage str) \<and>
        ch_inv ch' \<and> op_st (op_ctxs ch' ! i) = OP_NEW)) \<and>
    (\<exists>i. \<forall>m. answer_to (ioch ac) i msg_oss_op_read m \<and> data_buffer m = Some (string_block garbage str) \<longrightarrow>
      (\<exists>msg ch'. do_get [] [[m]] garbage' junk oid ac = Done (int (message_get_status m), str, ac\<lparr> ioch := ch' \<rparr>, [msg]) \<and>
        message_get_op msg = msg_oss_op_read mod 256 \<and> ch_inv ch' \<and> op_st (op_ctxs ch' ! i) = OP_NEW))"
proof (rule conjI)
  let ?wmeta = "Some (op_rw_encode \<lparr> rw_oid = oid, rw_ofst = 0, rw_len = 4096, rw_flags = 0 \<rparr>)"
  obtain i ch1 where w: "io_prepare_op_common (ioch ac) msg_oss_op_write 32 ?wmeta 0x1000 (Some (string_block garbage str)) = Done (int i, ch1)"
    "\<And>m. answer_to (ioch ac) i msg_oss_op_write m \<Longrightarrow>
      \<exists>msg ch'. (\<forall>(k :: _ \<Rightarrow> (int \<times> admin_context \<times> message list) run) old.
          run_bind (sync_with_op [] [[m]] (int i) ch1) (\<lambda>synced. run_bind (finish_op (int i) old synced) k) =
          k ((int (message_get_status m), data_buffer m), ch', [msg])) \<and> meta_buffer msg = ?wmeta \<and>
        data_buffer msg = Some (string_block garbage str) \<and> message_get_op msg = msg_oss_op_write mod 256 \<and> ch_inv ch' \<and>
        op_st (op_ctxs ch' ! i) = OP_NEW"
    using one_operation [OF assms(1), of 32 msg_oss_op_write ?wmeta 4096 "Some (string_block garbage str)"] by auto
  have "\<exists>msg ch'. do_write [] [[m]] garbage junk oid str ac = Done (int (message_get_status m), ac\<lparr> ioch := ch' \<rparr>, [msg]) \<and>
      message_get_op msg = msg_oss_op_write mod 256 \<and> data_buffer msg = Some (string_block garbage str) \<and>
      ch_inv ch' \<and> op_st (op_ctxs ch' ! i) = OP_NEW" if "answer_to (ioch ac) i msg_oss_op_write m" for m
    using w(2) [OF that] assms(2) by (auto simp: do_write_def io_write_def w(1) simp del: message_get_op_def)
  then show "\<exists>i. \<forall>m. answer_to (ioch ac) i msg_oss_op_write m \<longrightarrow>
      (\<exists>msg ch'. do_write [] [[m]] garbage junk oid str ac = Done (int (message_get_status m), ac\<lparr> ioch := ch' \<rparr>, [msg]) \<and>
        message_get_op msg = msg_oss_op_write mod 256 \<and> data_buffer msg = Some (string_block garbage str) \<and>
        ch_inv ch' \<and> op_st (op_ctxs ch' ! i) = OP_NEW)"
    by blast
next
  let ?rmeta = "Some (op_rw_encode \<lparr> rw_oid = oid, rw_ofst = 0, rw_len = 4096, rw_flags = 0 \<rparr> @ take 8 garbage')"
  obtain i ch1 where r: "io_prepare_op_common (ioch ac) msg_oss_op_read 40 ?rmeta 0 None = Done (int i, ch1)"
    "\<And>m. answer_to (ioch ac) i msg_oss_op_read m \<Longrightarrow>
      \<exists>msg ch'. (\<forall>(k :: _ \<Rightarrow> (int \<times> u8 list \<times> admin_context \<times> message list) run) old.
          run_bind (sync_with_op [] [[m]] (int i) ch1) (\<lambda>synced. run_bind (finish_op (int i) old synced) k) =
          k ((int (message_get_status m), data_buffer m), ch', [msg])) \<and> meta_buffer msg = ?rmeta \<and>
        data_buffer msg = None \<and> message_get_op msg = msg_oss_op_read mod 256 \<and> ch_inv ch' \<and> op_st (op_ctxs ch' ! i) = OP_NEW"
    using one_operation [OF assms(1), of 40 msg_oss_op_read ?rmeta 0 None] by auto
  have "\<exists>msg ch'. do_get [] [[m]] garbage' junk oid ac = Done (int (message_get_status m), str, ac\<lparr> ioch := ch' \<rparr>, [msg]) \<and>
      message_get_op msg = msg_oss_op_read mod 256 \<and> ch_inv ch' \<and> op_st (op_ctxs ch' ! i) = OP_NEW"
    if "answer_to (ioch ac) i msg_oss_op_read m" "data_buffer m = Some (string_block garbage str)" for m
    using r(2) [OF that(1)] by (auto simp: do_get_def io_read_def r(1) that(2) print_string_block [OF assms(2-4)])
  then show "\<exists>i. \<forall>m. answer_to (ioch ac) i msg_oss_op_read m \<and> data_buffer m = Some (string_block garbage str) \<longrightarrow>
      (\<exists>msg ch'. do_get [] [[m]] garbage' junk oid ac = Done (int (message_get_status m), str, ac\<lparr> ioch := ch' \<rparr>, [msg]) \<and>
        message_get_op msg = msg_oss_op_read mod 256 \<and> ch_inv ch' \<and> op_st (op_ctxs ch' ! i) = OP_NEW)"
    by blast
qed

text \<open>
  An operation that finds no free descriptor sends nothing and returns the old error code, which
  is 0 at the start: success.
\<close>

lemma create_unsent_succeeds:
  assumes "ch_inv (ioch ac)" and "ids_free (ioch ac) = {}"
  shows "do_create rcs waits oid ac = Done (errcode ac, ac, [])"
proof -
  let ?ch = "ioch ac"
  obtain r ch1 where p: "io_prepare_op_common ?ch msg_oss_op_create 8 (Some (le_bytes 8 oid)) 0 None = Done (r, ch1)"
    using prepare_done [OF assms(1), of 8] by fastforce
  have "r = - ENOMEM \<and> ch1 = ?ch"
    using prepare_shape [OF assms(1) _ p] ch_invD(2,5) [OF assms(1)] assms(2) by (auto simp: ids_free_def)
  then have "io_create ?ch oid = Done (- ENOMEM, ?ch)" using p by (simp add: io_create_def)
  moreover have "sync_with_op rcs waits (- ENOMEM) ?ch = Done (- 1, ?ch, [])"
    by (simp add: sync_with_op_def io_submit_to_channel_def check_opd_def ENOMEM_def EINVAL_def)
  moreover have "finish_op (- ENOMEM) (errcode ac, None) (- 1, ?ch, []) = Done ((errcode ac, None), ?ch, [])"
    by (simp add: finish_op_def op_claim_result_def op_destory_def ENOMEM_def)
  ultimately show ?thesis by (simp add: do_create_def)
qed

section \<open>Instances\<close>

definition demo_answer :: "nat \<Rightarrow> nat \<Rightarrow> u8 list option \<Rightarrow> message" where
  "demo_answer i ty data = message_zero\<lparr> m_header := \<lparr> h_seq = 0, h_type = ty mod 256, h_status = 0, h_magic = LOCAL,
     h_meta_length = 0, h_data_length = 0, h_slo = 0, h_rsv = (i, 0) \<rparr>, data_buffer := data \<rparr>"

lemma demo_answer_to: "ch_seq ch = 0 \<Longrightarrow> answer_to ch i ty (demo_answer i ty data)"
  by (simp add: answer_to_def demo_answer_def message_zero_def resp_id_def message_get_seq_def message_get_op_def)

lemma put_then_get_witness:
  "\<exists>ch0 i j ac1 msg1 ac2 msg2. get_io_channel LOCAL (64 * 1) (Some 7) = Some ch0 \<and>
    do_write [] [[demo_answer i msg_oss_op_write None]] (replicate 4096 9) 0 5 [65, 66] \<lparr> errcode = 0, ioch = ch0 \<rparr> = Done (0, ac1, [msg1]) \<and>
    do_get [] [[demo_answer j msg_oss_op_read (Some (string_block (replicate 4096 9) [65, 66]))]] [] 0 5 \<lparr> errcode = 0, ioch = ch0 \<rparr> =
      Done (0, [65, 66], ac2, [msg2])"
proof -
  obtain ch0 where c: "get_io_channel LOCAL (64 * 1) (Some 7) = Some ch0" "ch_inv ch0" "session_type ch0 = LOCAL" "cpl_nr ch0 = 0"
    "reap_depth ch0 = 64" "length (cpl_ops ch0) = 64" "queue_depth ch0 = 64" "ch_seq ch0 = 0" "ids_free ch0 \<noteq> {}"
    by (rule local_channel)
  let ?ac = "\<lparr> errcode = 0, ioch = ch0 \<rparr>"
  let ?g = "replicate 4096 9 :: u8 list"
  have idle: "idle_channel (ioch ?ac)" using c by (simp add: idle_channel_def)
  have s: "length [65, 66 :: u8] < 4096" "0 \<notin> set [65, 66 :: u8]" "length ?g = 4096" by simp_all
  have st: "int (message_get_status (demo_answer i ty d)) = 0" "data_buffer (demo_answer i ty d) = d" for i ty d
    by (simp_all add: demo_answer_def message_get_status_def)
  have seq: "ch_seq (ioch ?ac) = 0" using c(8) by simp
  note both = put_then_get [OF idle s, of 0 5 "[]"]
  from both [THEN conjunct1] obtain i where i: "\<And>m. answer_to (ioch ?ac) i msg_oss_op_write m \<Longrightarrow>
      \<exists>msg ch'. do_write [] [[m]] ?g 0 5 [65, 66] ?ac = Done (int (message_get_status m), ?ac\<lparr> ioch := ch' \<rparr>, [msg])"
    by blast
  from both [THEN conjunct2] obtain j where j: "\<And>m. answer_to (ioch ?ac) j msg_oss_op_read m \<Longrightarrow>
      data_buffer m = Some (string_block ?g [65, 66]) \<Longrightarrow>
      \<exists>msg ch'. do_get [] [[m]] [] 0 5 ?ac = Done (int (message_get_status m), [65, 66], ?ac\<lparr> ioch := ch' \<rparr>, [msg])"
    by blast
  have "\<exists>ac1 msg1. do_write [] [[demo_answer i msg_oss_op_write None]] ?g 0 5 [65, 66] ?ac = Done (0, ac1, [msg1])"
    using i [OF demo_answer_to [OF seq]] unfolding st(1) by blast
  moreover have "\<exists>ac2 msg2. do_get [] [[demo_answer j msg_oss_op_read (Some (string_block ?g [65, 66]))]] [] 0 5 ?ac =
      Done (0, [65, 66], ac2, [msg2])"
    using j [OF demo_answer_to [OF seq] st(2)] unfolding st(1) by blast
  ultimately show ?thesis using c(1) by blast
qed

end
