(* ===== verification/Draft_Store.thy ===== *)
theory Draft_Store
  imports Prelude Runs
begin

text \<open>
  The draft of an object store (\<^verbatim>\<open>draft/objectstore.c\<close>): data appended to one device, a journal
  to another, the map of every object in memory.  The results of the allocator and of SPDK are
  arguments; a submitted request waits in \<open>dr_bios\<close> until the device completes it; \<open>dr_cbs\<close>
  are the callbacks made.  A pointer to an object is its index in the table.  What is written to
  the journal is a constant page and left out.
\<close>

section \<open>State\<close>

record draft_onode =
  on_oid :: u32
  blkmap :: "u32 list"

definition ONODES :: nat where "ONODES = 1024"
definition BLKMAP_LEN :: nat where "BLKMAP_LEN = 800"

record obj_write_ctx =
  wr_onode :: nat
  wr_off :: u64
  wr_len :: u64
  wr_cb :: nat
  wr_buf :: "u8 list"
  wr_iov_len :: u64

record obj_read_ctx =
  inflight_rd :: int
  rd_cb :: nat
  rd_freed :: bool

datatype draft_bio =
    Data_write obj_write_ctx u64
  | Journal_write nat u64
  | Data_read nat u64 u64

record objectstore_ctx =
  onode_table :: "draft_onode list"
  data_tail :: u64
  mj_tail :: u64
  dr_bios :: "draft_bio list"
  dr_reads :: "obj_read_ctx list"
  dr_cbs :: "nat list"

text \<open>The table is an array, so the reference is never \<^verbatim>\<open>NULL\<close>; behind the array it is wild.\<close>

definition get_onode_ref :: "objectstore_ctx \<Rightarrow> u32 \<Rightarrow> nat" where
  "get_onode_ref st oid = unat oid"

section \<open>Mounting\<close>

text \<open>
  Opening the three devices: the results of the single devices; the store is written to when
  one is opened, which needs the store to be there.
\<close>

definition bdev_open_all :: "bool \<Rightarrow> bool list \<Rightarrow> int run" where
  "bdev_open_all there opens =
     (if \<not> there \<and> True \<in> set opens then Wild
      else if False \<in> set opens then Done (- 1) else Done 0)"

definition zero_store :: objectstore_ctx where
  "zero_store = \<lparr> onode_table = replicate ONODES \<lparr> on_oid = 0, blkmap = replicate BLKMAP_LEN 0 \<rparr>,
     data_tail = 0, mj_tail = 0, dr_bios = [], dr_reads = [], dr_cbs = [] \<rparr>"

definition async_mount :: "bool \<Rightarrow> bool \<Rightarrow> bool list \<Rightarrow> bool list \<Rightarrow> nat option \<Rightarrow> (int \<times> objectstore_ctx option) run" where
  "async_mount calloc_ok pool_ok opens pages_ok cb =
     (if \<not> calloc_ok then Done (- 1, None)
      else if \<not> pool_ok then Done (- 1, Some zero_store)
      else run_bind (bdev_open_all True opens) (\<lambda>rc.
        if rc \<noteq> 0 then Done (- 1, Some zero_store)
        else if False \<in> set pages_ok then Assert_fails
        else Done (0, Some (zero_store\<lparr> dr_cbs := (case cb of None \<Rightarrow> [] | Some c \<Rightarrow> [c]) \<rparr>))))"

definition async_unmount :: "nat option \<Rightarrow> objectstore_ctx option \<Rightarrow> (int \<times> nat list) run" where
  "async_unmount cb st =
     (case st of None \<Rightarrow> Wild | Some s \<Rightarrow> Done (0, dr_cbs s @ (case cb of None \<Rightarrow> [] | Some c \<Rightarrow> [c])))"

section \<open>The journal\<close>

definition write_journal :: "int \<Rightarrow> nat \<Rightarrow> objectstore_ctx \<Rightarrow> objectstore_ctx run" where
  "write_journal rc cb st =
     (if rc \<noteq> 0 then Assert_fails
      else Done (st\<lparr> dr_bios := dr_bios st @ [Journal_write cb (mj_tail st)], mj_tail := mj_tail st + 4096 \<rparr>))"

definition obj_write_mj_complete :: "bool \<Rightarrow> nat \<Rightarrow> objectstore_ctx \<Rightarrow> objectstore_ctx run" where
  "obj_write_mj_complete success cb st =
     (if \<not> success then Assert_fails else Done (st\<lparr> dr_cbs := dr_cbs st @ [cb] \<rparr>))"

section \<open>Writing\<close>

text \<open>The loop over the map, with 32-bit bounds.\<close>

definition blocks_of :: "u64 \<Rightarrow> u64 \<Rightarrow> nat list" where
  "blocks_of off len =
     (let alig_off = ucast (drop_bit 12 off) :: u32; alig_len = ucast (drop_bit 12 len) :: u32
      in [unat alig_off..<unat (alig_off + alig_len)])"

definition set_blkmap :: "u32 \<Rightarrow> nat list \<Rightarrow> u32 list \<Rightarrow> u32 list" where
  "set_blkmap data_alig_off is bm = fold (\<lambda>i m. m[i := data_alig_off + of_nat i]) is bm"

definition obj_write_data_complete :: "bool \<Rightarrow> int \<Rightarrow> obj_write_ctx \<Rightarrow> objectstore_ctx \<Rightarrow> objectstore_ctx run" where
  "obj_write_data_complete success rc w st =
     (if \<not> success then Assert_fails
      else let is = blocks_of (wr_off w) (wr_len w); n = wr_onode w;
               data_alig_off = ucast (drop_bit 12 (wr_iov_len w)) :: u32
      in if is \<noteq> [] \<and> ONODES \<le> n \<or> list_ex (\<lambda>i. BLKMAP_LEN \<le> i) is then Wild
         else let o' = (onode_table st ! n)\<lparr> blkmap := set_blkmap data_alig_off is (blkmap (onode_table st ! n)) \<rparr>
              in write_journal rc (wr_cb w)
                   (if is = [] then st else st\<lparr> onode_table := (onode_table st)[n := o'] \<rparr>))"

definition async_obj_write ::
    "bool \<Rightarrow> int \<Rightarrow> u32 \<Rightarrow> u64 \<Rightarrow> u32 \<Rightarrow> u8 list \<Rightarrow> nat \<Rightarrow> objectstore_ctx \<Rightarrow> int \<times> objectstore_ctx" where
  "async_obj_write calloc_ok rc oid off len wbuf cb st =
     (if \<not> calloc_ok then (- 1, st)
      else let w = \<lparr> wr_onode = get_onode_ref st oid, wr_off = off, wr_len = ucast len, wr_cb = cb,
                     wr_buf = wbuf, wr_iov_len = ucast len \<rparr>
           in (rc, st\<lparr> dr_bios := (if rc = 0 then dr_bios st @ [Data_write w (data_tail st)] else dr_bios st),
                       data_tail := data_tail st + wr_len w \<rparr>))"

section \<open>Reading\<close>

text \<open>One request for every block; \<open>rcs\<close> are the codes of the submissions, which are ignored.\<close>

definition async_obj_read ::
    "bool \<Rightarrow> (nat \<Rightarrow> int) \<Rightarrow> u32 \<Rightarrow> u64 \<Rightarrow> u32 \<Rightarrow> nat \<Rightarrow> objectstore_ctx \<Rightarrow> (int \<times> objectstore_ctx) run" where
  "async_obj_read malloc_ok rcs oid off len cb st =
     (let n = get_onode_ref st oid; is = blocks_of off (ucast len); r = length (dr_reads st) in
      if \<not> malloc_ok then Wild
      else if is \<noteq> [] \<and> ONODES \<le> n \<or> list_ex (\<lambda>i. BLKMAP_LEN \<le> i) is then Wild
      else Done (0, st\<lparr>
        dr_reads := dr_reads st @ [\<lparr> inflight_rd = int (unat (ucast (drop_bit 12 len) :: u32)), rd_cb = cb, rd_freed = False \<rparr>],
        dr_bios := dr_bios st @ map (\<lambda>i. Data_read r (push_bit 12 (ucast (blkmap (onode_table st ! n) ! i))) (4096 * of_nat i))
          (filter (\<lambda>i. rcs i = 0) is) \<rparr>))"

definition obj_read_data_complete :: "bool \<Rightarrow> nat \<Rightarrow> objectstore_ctx \<Rightarrow> objectstore_ctx run" where
  "obj_read_data_complete success r st =
     (if \<not> success then Assert_fails
      else let c = dr_reads st ! r in
        if rd_freed c then Wild
        else let n = inflight_rd c - 1 in
          Done (st\<lparr> dr_reads := (dr_reads st)[r := c\<lparr> inflight_rd := n, rd_freed := True \<rparr>],
            dr_cbs := (if n = 0 then dr_cbs st @ [rd_cb c] else dr_cbs st) \<rparr>))"

section \<open>Creating and deleting\<close>

definition set_oid :: "u32 \<Rightarrow> u32 \<Rightarrow> objectstore_ctx \<Rightarrow> objectstore_ctx run" where
  "set_oid oid v st =
     (if ONODES \<le> unat oid then Wild
      else Done (st\<lparr> onode_table := (onode_table st)[unat oid := (onode_table st ! unat oid)\<lparr> on_oid := v \<rparr>] \<rparr>))"

definition async_obj_create :: "bool \<Rightarrow> int \<Rightarrow> u32 \<Rightarrow> nat \<Rightarrow> objectstore_ctx \<Rightarrow> (int \<times> objectstore_ctx) run" where
  "async_obj_create malloc_ok rc oid cb st =
     run_bind (set_oid oid oid st) (\<lambda>st1.
       if \<not> malloc_ok then Wild else run_bind (write_journal rc cb st1) (\<lambda>st2. Done (0, st2)))"

definition async_obj_delete :: "bool \<Rightarrow> int \<Rightarrow> u32 \<Rightarrow> nat \<Rightarrow> objectstore_ctx \<Rightarrow> (int \<times> objectstore_ctx) run" where
  "async_obj_delete malloc_ok rc oid cb st =
     run_bind (set_oid oid (- 1) st) (\<lambda>st1.
       if \<not> malloc_ok then Wild else run_bind (write_journal rc cb st1) (\<lambda>st2. Done (0, st2)))"

text \<open>The device completes the request at a position of the list.\<close>

definition bio_done :: "bool \<Rightarrow> int \<Rightarrow> nat \<Rightarrow> objectstore_ctx \<Rightarrow> objectstore_ctx run" where
  "bio_done success rc k st =
     (let st1 = st\<lparr> dr_bios := take k (dr_bios st) @ drop (Suc k) (dr_bios st) \<rparr> in
      case dr_bios st ! k of
        Data_write w ofst \<Rightarrow> obj_write_data_complete success rc w st1
      | Journal_write cb ofst \<Rightarrow> obj_write_mj_complete success cb st1
      | Data_read r ofst buf \<Rightarrow> obj_read_data_complete success r st1)"

section \<open>The state machine of mkfs\<close>

datatype mkfs_state = MKFS_START | MKFS_WRITE_SB | MKFS_END | MKFS_ERR

record mkfs_state_machine =
  mk_state :: mkfs_state
  mk_errno :: int
  mk_cbs :: nat
  mk_pending :: bool

record mkfs_env =
  store_there :: bool
  dev_opens :: "bool list"
  zmalloc_ok :: bool
  writev_rc :: int
  has_cb :: bool

definition mkfs_write_sb :: "mkfs_env \<Rightarrow> mkfs_state_machine \<Rightarrow> mkfs_state_machine run" where
  "mkfs_write_sb env m =
     (if \<not> store_there env then Wild
      else if \<not> zmalloc_ok env then Done (m\<lparr> mk_errno := - 1, mk_state := MKFS_ERR \<rparr>)
      else if writev_rc env \<noteq> 0 then Done (m\<lparr> mk_errno := - 1, mk_state := MKFS_ERR \<rparr>)
      else Done (m\<lparr> mk_pending := True \<rparr>))"

definition mkfs_turn :: "mkfs_env \<Rightarrow> mkfs_state_machine \<Rightarrow> mkfs_state_machine run" where
  "mkfs_turn env m =
     (case mk_state m of
        MKFS_START \<Rightarrow> run_bind (bdev_open_all (store_there env) (dev_opens env)) (\<lambda>rc.
          Done (m\<lparr> mk_errno := rc, mk_state := (if rc \<noteq> 0 then MKFS_ERR else MKFS_WRITE_SB) \<rparr>))
      | MKFS_WRITE_SB \<Rightarrow> mkfs_write_sb env m
      | MKFS_END \<Rightarrow> Done (m\<lparr> mk_cbs := (if has_cb env then mk_cbs m + 1 else mk_cbs m) \<rparr>)
      | MKFS_ERR \<Rightarrow> Done m)"

fun mkfs_rank :: "mkfs_state \<Rightarrow> nat" where
  "mkfs_rank MKFS_START = 2"
| "mkfs_rank MKFS_WRITE_SB = 1"
| "mkfs_rank MKFS_END = 0"
| "mkfs_rank MKFS_ERR = 0"

lemma mkfs_turn_rank:
  assumes "mkfs_turn env m = Done m'" and "mk_state m' \<noteq> mk_state m"
  shows "mkfs_rank (mk_state m') < mkfs_rank (mk_state m)"
  using assms
  by (auto simp: mkfs_turn_def mkfs_write_sb_def run_bind_Done split: mkfs_state.splits if_splits)

function run_mkfs_state_machine :: "mkfs_env \<Rightarrow> mkfs_state_machine \<Rightarrow> mkfs_state_machine run" where
  "run_mkfs_state_machine env m =
     (case mkfs_turn env m of
        Done m' \<Rightarrow> if mk_state m' = mk_state m then Done m' else run_mkfs_state_machine env m'
      | r \<Rightarrow> r)"
  by pat_completeness auto
termination
  by (relation "measure (\<lambda>(env, m). mkfs_rank (mk_state m))") (auto intro: mkfs_turn_rank)

declare run_mkfs_state_machine.simps [simp del]

definition mkfs_write_sb_complete :: "mkfs_env \<Rightarrow> bool \<Rightarrow> mkfs_state_machine \<Rightarrow> mkfs_state_machine run" where
  "mkfs_write_sb_complete env success m =
     run_mkfs_state_machine env (m\<lparr> mk_pending := False, mk_state := (if success then MKFS_END else MKFS_ERR) \<rparr>)"

definition async_mkfs :: "bool \<Rightarrow> mkfs_env \<Rightarrow> (int \<times> mkfs_state_machine option) run" where
  "async_mkfs malloc_ok env =
     (if \<not> malloc_ok then Done (- 1, None)
      else run_bind (run_mkfs_state_machine env \<lparr> mk_state = MKFS_START, mk_errno = 0, mk_cbs = 0, mk_pending = False \<rparr>)
        (\<lambda>m. Done (0, Some m)))"

section \<open>What the map says after a write\<close>

lemma unat_shift12: "unat (drop_bit 12 (w :: u64)) = unat w div 4096"
proof -
  have "unat (drop_bit 12 w) = drop_bit 12 (take_bit LENGTH(64) (unat w))" by (rule unsigned_drop_bit_eq)
  then show ?thesis by (simp only: take_bit_of_unat drop_bit_eq_div) simp
qed

lemma shift12: "unat (ucast (drop_bit 12 (w :: u64)) :: u32) = unat w div 4096" if "unat w < 2 ^ 44"
proof -
  have "unat w div 4096 < 2 ^ 32" using that by (simp add: div_less_iff_less_mult)
  then show ?thesis by (simp only: unsigned_ucast_eq unat_shift12) (simp add: take_bit_nat_eq_self)
qed

lemma blocks_of_range:
  assumes "unat off = 4096 * a" and "unat len = 4096 * n" and "a + n \<le> BLKMAP_LEN"
  shows "blocks_of off len = [a..<a + n]"
proof -
  have s: "unat (ucast (drop_bit 12 off) :: u32) = a" "unat (ucast (drop_bit 12 len) :: u32) = n"
    using assms by (simp_all add: shift12 BLKMAP_LEN_def)
  have "unat ((ucast (drop_bit 12 off) :: u32) + ucast (drop_bit 12 len)) = a + n"
    using assms(3) by (subst unat_plus_if') (simp add: s BLKMAP_LEN_def)
  then show ?thesis by (simp add: blocks_of_def Let_def s)
qed

lemma set_blkmap_nth:
  "k < length bm \<Longrightarrow> set_blkmap d is bm ! k = (if k \<in> set is then d + of_nat k else bm ! k)"
proof (induction "is" arbitrary: bm)
  case (Cons i "is")
  then show ?case by (simp add: set_blkmap_def nth_list_update)
qed (simp add: set_blkmap_def)

text \<open>
  After a write has been completed the map names, for block \<open>a + j\<close> of the object, block
  \<open>n + a + j\<close> of the device, \<open>n\<close> being the number of blocks written; the data went to
  block \<open>t + j\<close>, \<open>t\<close> being the tail.  So the map is right when the tail happened to be
  \<open>n + a\<close>, and in a new store, whose tail is 0, it never is.
\<close>

definition store_ok :: "objectstore_ctx \<Rightarrow> bool" where
  "store_ok st \<longleftrightarrow> length (onode_table st) = ONODES \<and> list_all (\<lambda>o'. length (blkmap o') = BLKMAP_LEN) (onode_table st)"

definition written_at :: "u64 \<Rightarrow> nat \<Rightarrow> nat" where
  "written_at tail j = unat tail div 4096 + j"

theorem draft_map_right_iff:
  assumes "store_ok st" and "unat oid < ONODES" and "unat off = 4096 * a" and "unat len = 4096 * n" and "a + n \<le> BLKMAP_LEN"
    and "dr_bios st = []" and "j < n"
  shows "\<exists>st1 st2. async_obj_write True 0 oid off len buf cb st = (0, st1) \<and>
    (\<exists>w. dr_bios st1 = [Data_write w (data_tail st)]) \<and> bio_done True 0 0 st1 = Done st2 \<and>
    (let b = unat (blkmap (onode_table st2 ! unat oid) ! (a + j)) in
       b = n + a + j \<and> (b = written_at (data_tail st) j \<longleftrightarrow> unat (data_tail st) div 4096 = n + a))"
proof -
  have l: "unat (ucast len :: u64) = 4096 * n" using assms(4) by (simp add: unsigned_ucast_eq)
       (use assms(5) in \<open>simp add: take_bit_nat_eq_self BLKMAP_LEN_def\<close>)
  have bo: "blocks_of off (ucast len) = [a..<a + n]" by (rule blocks_of_range [OF assms(3) l assms(5)])
  have d: "unat (ucast (drop_bit 12 (ucast len :: u64)) :: u32) = n"
    using l assms(5) by (simp add: shift12 BLKMAP_LEN_def)
  let ?d = "ucast (drop_bit 12 (ucast len :: u64)) :: u32"
  have bl: "length (blkmap (onode_table st ! unat oid)) = BLKMAP_LEN"
    using assms(1,2) by (simp add: store_ok_def list_all_length)
  have lt: "length (onode_table st) = ONODES" using assms(1) by (simp add: store_ok_def)
  have "unat (of_nat (a + j) :: u32) = a + j"
    using assms(5,7) by (simp only: unat_of_nat) (simp add: BLKMAP_LEN_def)
  then have "unat (?d + of_nat (a + j)) = n + a + j"
    using assms(5,7) unfolding unat_plus_if' [of ?d] d by (simp add: BLKMAP_LEN_def)
  then have m: "unat (set_blkmap ?d [a..<a + n] (blkmap (onode_table st ! unat oid)) ! (a + j)) = n + a + j"
    using assms(5,7) by (simp add: set_blkmap_nth bl)
  have "\<not> (n \<noteq> 0 \<and> ONODES \<le> unat oid)" "\<not> list_ex (\<lambda>i. BLKMAP_LEN \<le> i) [a..<a + n]"
    using assms(2,5) by (auto simp: list_ex_iff)
  then have "\<exists>st2. bio_done True 0 0 (snd (async_obj_write True 0 oid off len buf cb st)) = Done st2 \<and>
      blkmap (onode_table st2 ! unat oid) = set_blkmap ?d [a..<a + n] (blkmap (onode_table st ! unat oid))"
    using assms(2,6,7) lt
    by (simp add: async_obj_write_def bio_done_def obj_write_data_complete_def write_journal_def Let_def bo get_onode_ref_def)
  with m assms(6) show ?thesis by (auto simp: async_obj_write_def Let_def written_at_def)
qed

section \<open>Reading\<close>

text \<open>
  The context of a read is freed by its first completion: a read of one block is answered, a
  read of several touches freed memory at the second completion, before it is answered.
\<close>

theorem read_of_several_uses_freed:
  assumes "r < length (dr_reads st)" and "dr_reads st ! r = \<lparr> inflight_rd = int n, rd_cb = cb, rd_freed = False \<rparr>"
  shows "\<exists>st1. obj_read_data_complete True r st = Done st1 \<and> obj_read_data_complete True r st1 = Wild \<and>
    dr_cbs st1 = (if n = 1 then dr_cbs st @ [cb] else dr_cbs st)"
  using assms by (auto simp: obj_read_data_complete_def Let_def)

text \<open>A read submitted with no block, or refused by the device, waits forever.\<close>

theorem read_of_nothing_hangs:
  assumes "unat off = 0" and "unat len < 4096" and "unat oid < ONODES"
  shows "\<exists>st'. async_obj_read True rcs oid off len cb st = Done (0, st') \<and> dr_bios st' = dr_bios st \<and> dr_cbs st' = dr_cbs st"
proof -
  have "unat (drop_bit 12 (ucast len :: u64)) = 0"
    using assms(2) by (simp only: unat_shift12) (simp add: unsigned_ucast_eq take_bit_nat_eq_self)
  then have "drop_bit 12 (ucast len :: u64) = 0" by (simp add: unat_eq_0)
  then have "blocks_of off (ucast len) = []" by (simp add: blocks_of_def)
  then show ?thesis by (simp add: async_obj_read_def Let_def)
qed

section \<open>The state machine of mkfs\<close>

lemma mkfs_start:
  assumes "store_there env"
  shows "\<exists>m. async_mkfs True env = Done (0, Some m) \<and> mk_cbs m = 0 \<and>
    (if False \<notin> set (dev_opens env) \<and> zmalloc_ok env \<and> writev_rc env = 0
     then mk_state m = MKFS_WRITE_SB \<and> mk_pending m
     else mk_state m = MKFS_ERR \<and> \<not> mk_pending m \<and> mk_errno m = - 1)"
  using assms
  by (simp add: async_mkfs_def run_mkfs_state_machine.simps mkfs_turn_def mkfs_write_sb_def bdev_open_all_def
      split del: if_split cong: if_cong) (auto simp: run_mkfs_state_machine.simps mkfs_turn_def mkfs_write_sb_def)

text \<open>
  Making a store ends on every path.  Its callback, if there is one, is made once, when the superblock has been
  written, and never when something fails, though the call has returned 0.  Without a mounted
  store it writes through a null pointer as soon as one device opens.
\<close>

theorem mkfs_callback_once:
  assumes "store_there env"
  shows "\<exists>m. async_mkfs True env = Done (0, Some m) \<and> mk_cbs m = 0 \<and>
    (mk_pending m \<longleftrightarrow> False \<notin> set (dev_opens env) \<and> zmalloc_ok env \<and> writev_rc env = 0) \<and>
    (mk_pending m \<longrightarrow> (\<forall>success. \<exists>m'. mkfs_write_sb_complete env success m = Done m' \<and> \<not> mk_pending m' \<and>
       mk_cbs m' = (if success \<and> has_cb env then 1 else 0) \<and> mk_state m' = (if success then MKFS_END else MKFS_ERR)))"
proof -
  obtain m where m: "async_mkfs True env = Done (0, Some m)" "mk_cbs m = 0"
    "if False \<notin> set (dev_opens env) \<and> zmalloc_ok env \<and> writev_rc env = 0
     then mk_state m = MKFS_WRITE_SB \<and> mk_pending m
     else mk_state m = MKFS_ERR \<and> \<not> mk_pending m \<and> mk_errno m = - 1"
    using mkfs_start [OF assms] by blast
  have "\<exists>m'. mkfs_write_sb_complete env success m = Done m' \<and> \<not> mk_pending m' \<and>
       mk_cbs m' = (if success \<and> has_cb env then 1 else 0) \<and> mk_state m' = (if success then MKFS_END else MKFS_ERR)" for success
    by (simp add: mkfs_write_sb_complete_def run_mkfs_state_machine.simps mkfs_turn_def m(2))
  with m show ?thesis by (auto split: if_splits)
qed

theorem mkfs_needs_mount:
  assumes "\<not> store_there env" and "True \<in> set (dev_opens env)"
  shows "async_mkfs True env = Wild"
  using assms by (simp add: async_mkfs_def run_mkfs_state_machine.simps mkfs_turn_def bdev_open_all_def)

end
