(* ===== verification/Zstore_Open.thy ===== *)
theory Zstore_Open
  imports Zstore_Layout Runs
begin

text \<open>
  What a store acquires and gives back (\<^verbatim>\<open>zstore.c\<close>): its context, the descriptor of the device
  and a channel to it, the handle of the persistent memory, the bitmaps of the two allocators.
  The answers of the allocator and of SPDK are the fields of \<open>open_env\<close>.
\<close>

datatype zres = Ctx | Bdev_desc | Io_channel | Pmem_handle | Ssd_bitmap | Pm_bitmap

record open_env =
  ctx_ok :: bool
  ctx_parts_ok :: bool
  bdev_found :: bool
  unmap_supported :: bool
  bdev_open_rc :: int
  channel_ok :: bool
  pm_ok :: bool

definition ZSTORE_ENBALE_TRIM :: nat where "ZSTORE_ENBALE_TRIM = push_bit 1 1"

section \<open>Acquiring and releasing\<close>

text \<open>The parts of the context are allocated without a check.\<close>

definition zstore_ctx_init :: "open_env \<Rightarrow> zres list \<Rightarrow> int \<times> zres list" where
  "zstore_ctx_init e held = (if \<not> ctx_ok e then (- 1, held) else (0, held @ [Ctx]))"

definition zstore_bdev_open :: "open_env \<Rightarrow> nat \<Rightarrow> zres list \<Rightarrow> int \<times> zres list" where
  "zstore_bdev_open e mnt_flag held =
     (if \<not> bdev_found e then (- 1, held)
      else if mnt_flag AND ZSTORE_ENBALE_TRIM \<noteq> 0 \<and> \<not> unmap_supported e then (- 1, held)
      else if bdev_open_rc e \<noteq> 0 then (bdev_open_rc e, held)
      else if \<not> channel_ok e then (- 1, held @ [Bdev_desc])
      else (0, held @ [Bdev_desc, Io_channel]))"

definition zstore_pm_file_open :: "open_env \<Rightarrow> zres list \<Rightarrow> int \<times> zres list" where
  "zstore_pm_file_open e held = (if \<not> pm_ok e then (- 1, held) else (0, held @ [Pmem_handle]))"

text \<open>Giving back something that is not held.\<close>

definition give_back :: "zres \<Rightarrow> zres list \<Rightarrow> zres list run" where
  "give_back r held = (if r \<in> set held then Done (remove1 r held) else Double_free)"

definition zstore_bdev_close :: "zres list \<Rightarrow> zres list run" where
  "zstore_bdev_close held = run_bind (give_back Io_channel held) (give_back Bdev_desc)"

definition zstore_pm_file_close :: "zres list \<Rightarrow> zres list run" where
  "zstore_pm_file_close = give_back Pmem_handle"

definition zstore_ctx_fini :: "zres list \<Rightarrow> zres list run" where
  "zstore_ctx_fini = give_back Ctx"

definition zstore_unmount :: "zres list \<Rightarrow> (int \<times> zres list) run" where
  "zstore_unmount held =
     run_bind (run_fold give_back [Pm_bitmap, Ssd_bitmap] held) (\<lambda>h1.
     run_bind (zstore_bdev_close h1) (\<lambda>h2.
     run_bind (zstore_pm_file_close h2) (\<lambda>h3.
     run_bind (zstore_ctx_fini h3) (\<lambda>h4. Done (0, h4)))))"

section \<open>Mounting and making a store\<close>

text \<open>
  Around \<^const>\<open>zstore_mount\<close> and \<^const>\<open>zstore_mkfs\<close>: mounting ignores that the persistent memory
  could not be opened and reads it.
\<close>

definition mount_store ::
    "open_env \<Rightarrow> nat \<Rightarrow> u8 list \<Rightarrow> nat \<Rightarrow> nat \<Rightarrow> memory \<Rightarrow> (int \<times> zres list \<times> (zstore \<times> memory) option) run" where
  "mount_store e cpu stack otable flags m =
     (let (rc, h1) = zstore_ctx_init e [] in
      if rc \<noteq> 0 then Done (rc, h1, None)
      else let h2 = snd (zstore_pm_file_open e h1) in
        if \<not> pm_ok e \<or> \<not> ctx_parts_ok e then Wild
        else if sb_magic (sb_decode (pmem_read m 0 4096)) \<noteq> ZSTORE_MAGIC then Assert_fails
        else let (rc, h3) = zstore_bdev_open e flags h2 in
          if rc \<noteq> 0 then Assert_fails
          else case zstore_mount cpu stack otable flags m of
            Rec_abort \<Rightarrow> Assert_fails
          | Rec_fault \<Rightarrow> Wild
          | Rec_ok r \<Rightarrow> Done (0, h3 @ [Ssd_bitmap, Pm_bitmap], Some r))"

definition mkfs_store ::
    "open_env \<Rightarrow> nat \<Rightarrow> nat \<Rightarrow> nat \<Rightarrow> nat \<Rightarrow> nat \<Rightarrow> u8 list \<Rightarrow> otable_entry \<Rightarrow> (int \<times> zres list \<times> pm_op list) run" where
  "mkfs_store e cpu blk_sz nblks flags features rest e0 =
     (let (rc, h1) = zstore_ctx_init e [] in
      if rc \<noteq> 0 then Assert_fails
      else let (rc, h2) = zstore_bdev_open e 0 h1 in
        if rc \<noteq> 0 then Assert_fails
        else if blk_sz \<noteq> 4096 then Assert_fails
        else let (rc, h3) = zstore_pm_file_open e h2 in
          if rc \<noteq> 0 then Assert_fails
          else case zstore_mkfs cpu blk_sz (min (2 ^ 28) nblks) flags features rest e0 of
            None \<Rightarrow> Assert_fails
          | Some ops \<Rightarrow>
              run_bind (zstore_bdev_close h3) (\<lambda>h4.
              run_bind (zstore_pm_file_close h4) (\<lambda>h5.
              run_bind (zstore_ctx_fini h5) (\<lambda>h6. Done (0, h6, ops)))))"

section \<open>Nothing is left behind\<close>

lemmas open_defs = zstore_ctx_init_def zstore_bdev_open_def zstore_pm_file_open_def zstore_bdev_close_def
  zstore_pm_file_close_def zstore_ctx_fini_def give_back_def

text \<open>
  A store that was mounted holds six things; unmounting gives each of them back, and none
  that is not held.  Making a store leaves nothing behind.
\<close>

theorem mount_unmount_balanced:
  assumes "mount_store e cpu stack otable flags m = Done (0, held, r)"
  shows "r \<noteq> None \<and> distinct held \<and> length held = 6 \<and> zstore_unmount held = Done (0, [])"
proof -
  have "r \<noteq> None \<and> held = [Ctx, Pmem_handle, Bdev_desc, Io_channel, Ssd_bitmap, Pm_bitmap]"
    using assms by (auto simp: mount_store_def open_defs Let_def split: if_splits rec_res.splits)
  then show ?thesis by (simp add: zstore_unmount_def open_defs)
qed

theorem mkfs_leaves_nothing:
  assumes "mkfs_store e cpu blk_sz nblks flags features rest e0 = Done (rc, held, ops)"
  shows "rc = 0 \<and> held = [] \<and> zstore_mkfs cpu blk_sz (min (2 ^ 28) nblks) flags features rest e0 = Some ops"
  using assms by (auto simp: mkfs_store_def open_defs Let_def split: if_splits option.splits)

text \<open>Mounting a store whose persistent memory cannot be opened is a fault, not an error.\<close>

theorem mount_without_pm_faults:
  assumes "ctx_ok e" and "\<not> pm_ok e"
  shows "mount_store e cpu stack otable flags m = Wild"
  using assms by (simp add: mount_store_def open_defs)

text \<open>When there is no channel the descriptor stays open, although opening has failed.\<close>

theorem failed_open_keeps_descriptor:
  assumes "bdev_found e" and "flags AND ZSTORE_ENBALE_TRIM = 0" and "bdev_open_rc e = 0" and "\<not> channel_ok e"
  shows "zstore_bdev_open e flags held = (- 1, held @ [Bdev_desc])"
  using assms by (simp add: zstore_bdev_open_def)

end
