(* ===== verification/Perf_Data.thy ===== *)
theory Perf_Data
  imports Prelude Runs
begin

text \<open>
  The data routines of the benchmark (\<^verbatim>\<open>bdev_perf.c\<close>): filling a buffer, copying it, and
  comparing what was read with what was written.  A buffer is the list of its bytes; metadata
  are in a buffer of their own or, when there is none, behind the data of every block.  Sizes
  are natural numbers; touching bytes outside a buffer is \<^term>\<open>Wild\<close>.
\<close>

section \<open>Bytes\<close>

definition memset_at :: "nat \<Rightarrow> u8 \<Rightarrow> nat \<Rightarrow> u8 list \<Rightarrow> u8 list run" where
  "memset_at p v n b = (if length b < p + n then Wild else Done (take p b @ replicate n v @ drop (p + n) b))"

definition memcmp_at :: "nat \<Rightarrow> nat \<Rightarrow> u8 list \<Rightarrow> u8 list \<Rightarrow> bool run" where
  "memcmp_at p n a b =
     (if length a < p + n \<or> length b < p + n then Wild else Done (take n (drop p a) = take n (drop p b)))"

definition memcpy_all :: "nat \<Rightarrow> u8 list \<Rightarrow> u8 list \<Rightarrow> u8 list run" where
  "memcpy_all n dst src = (if length dst < n \<or> length src < n then Wild else Done (take n src @ drop n dst))"

section \<open>The routines\<close>

text \<open>The loops: \<open>i\<close> blocks are done, \<open>k\<close> are left.\<close>

fun generate_inline :: "nat \<Rightarrow> nat \<Rightarrow> u8 \<Rightarrow> nat \<Rightarrow> nat \<Rightarrow> u8 list \<Rightarrow> u8 list run" where
  "generate_inline bs md v i 0 buf = Done buf"
| "generate_inline bs md v i (Suc k) buf =
     run_bind (memset_at (i * bs) v (bs - md) buf) (\<lambda>b1.
     run_bind (memset_at (i * bs + (bs - md)) v md b1) (\<lambda>b2. generate_inline bs md v (Suc i) k b2))"

fun generate_separate :: "nat \<Rightarrow> nat \<Rightarrow> u8 \<Rightarrow> nat \<Rightarrow> nat \<Rightarrow> u8 list \<Rightarrow> u8 list \<Rightarrow> (u8 list \<times> u8 list) run" where
  "generate_separate bs md v i 0 buf mbuf = Done (buf, mbuf)"
| "generate_separate bs md v i (Suc k) buf mbuf =
     run_bind (memset_at (i * bs) v bs buf) (\<lambda>b1.
     run_bind (memset_at (i * md) v md mbuf) (\<lambda>m1. generate_separate bs md v (Suc i) k b1 m1))"

definition generate_data ::
    "u8 list \<Rightarrow> nat \<Rightarrow> nat \<Rightarrow> u8 list option \<Rightarrow> nat \<Rightarrow> nat \<Rightarrow> u8 \<Rightarrow> (u8 list \<times> u8 list option) run" where
  "generate_data buf buf_len block_size md_buf md_size num_blocks seed =
     (if buf_len < num_blocks * block_size then Done (buf, md_buf)
      else case md_buf of
        None \<Rightarrow> run_bind (generate_inline block_size md_size seed 0 num_blocks buf) (\<lambda>b. Done (b, None))
      | Some m \<Rightarrow> run_bind (generate_separate block_size md_size seed 0 num_blocks buf m) (\<lambda>(b, m'). Done (b, Some m')))"

definition copy_data ::
    "u8 list \<Rightarrow> nat \<Rightarrow> u8 list \<Rightarrow> nat \<Rightarrow> nat \<Rightarrow> u8 list option \<Rightarrow> u8 list option \<Rightarrow> nat \<Rightarrow> nat
       \<Rightarrow> (bool \<times> u8 list \<times> u8 list option) run" where
  "copy_data wr wr_len rd rd_len block_size wr_md rd_md md_size num_blocks =
     (if wr_len < num_blocks * block_size \<or> rd_len < num_blocks * block_size then Done (False, wr, wr_md)
      else if (wr_md = None) \<noteq> (rd_md = None) then Assert_fails
      else run_bind (memcpy_all (block_size * num_blocks) wr rd) (\<lambda>w.
        case (wr_md, rd_md) of
          (Some wm, Some rm) \<Rightarrow> run_bind (memcpy_all (md_size * num_blocks) wm rm) (\<lambda>m. Done (True, w, Some m))
        | _ \<Rightarrow> Done (True, w, None)))"

text \<open>
  The comparison stops at the first difference.  \<open>dsz\<close> is the size of the data of a block;
  \<open>md\<close> are the two buffers with the metadata, where the first ones are and how far apart.
\<close>

fun verify_loop ::
    "nat \<Rightarrow> nat \<Rightarrow> nat \<Rightarrow> bool \<Rightarrow> u8 list \<times> u8 list \<times> nat \<times> nat \<Rightarrow> u8 list \<Rightarrow> u8 list \<Rightarrow> nat \<Rightarrow> nat \<Rightarrow> bool run" where
  "verify_loop bs dsz md_size md_check md wr rd i 0 = Done True"
| "verify_loop bs dsz md_size md_check md wr rd i (Suc k) =
     run_bind (memcmp_at (i * bs) dsz wr rd) (\<lambda>same.
       if \<not> same then Done False
       else if \<not> md_check then verify_loop bs dsz md_size md_check md wr rd (Suc i) k
       else (case md of (wm, rm, first, dist) \<Rightarrow>
         run_bind (memcmp_at (first + i * dist) md_size wm rm) (\<lambda>msame.
           if \<not> msame then Done False else verify_loop bs dsz md_size md_check md wr rd (Suc i) k)))"

definition verify_data ::
    "u8 list \<Rightarrow> nat \<Rightarrow> u8 list \<Rightarrow> nat \<Rightarrow> nat \<Rightarrow> u8 list option \<Rightarrow> u8 list option \<Rightarrow> nat \<Rightarrow> nat \<Rightarrow> bool \<Rightarrow> bool run" where
  "verify_data wr wr_len rd rd_len block_size wr_md rd_md md_size num_blocks md_check =
     (if wr_len < num_blocks * block_size \<or> rd_len < num_blocks * block_size then Done False
      else case (wr_md, rd_md) of
        (None, None) \<Rightarrow> verify_loop block_size (block_size - md_size) md_size md_check
          (wr, rd, block_size - md_size, block_size) wr rd 0 num_blocks
      | (Some wm, Some rm) \<Rightarrow> verify_loop block_size block_size md_size md_check (wm, rm, 0, md_size) wr rd 0 num_blocks
      | _ \<Rightarrow> Assert_fails)"

section \<open>What the comparison decides\<close>

definition block_at :: "nat \<Rightarrow> nat \<Rightarrow> nat \<Rightarrow> u8 list \<Rightarrow> u8 list" where
  "block_at p n i b = take n (drop (p + i) b)"

lemma range_Suc:
  "(\<forall>j. i \<le> j \<and> j < i + Suc k \<longrightarrow> P j) \<longleftrightarrow> P i \<and> (\<forall>j. Suc i \<le> j \<and> j < Suc i + k \<longrightarrow> P j)"
proof -
  have "i \<le> j \<and> j < i + Suc k \<longleftrightarrow> j = i \<or> Suc i \<le> j \<and> j < Suc i + k" for j by auto
  then show ?thesis by (simp only:) blast
qed

lemma verify_loop_iff:
  assumes "\<forall>j < i + k. j * bs + dsz \<le> length wr \<and> j * bs + dsz \<le> length rd"
    and "md_check \<Longrightarrow> \<forall>j < i + k. first + j * dist + mds \<le> length wm \<and> first + j * dist + mds \<le> length rm"
  shows "verify_loop bs dsz mds md_check (wm, rm, first, dist) wr rd i k = Done
    (\<forall>j. i \<le> j \<and> j < i + k \<longrightarrow> take dsz (drop (j * bs) wr) = take dsz (drop (j * bs) rd) \<and>
      (md_check \<longrightarrow> take mds (drop (first + j * dist) wm) = take mds (drop (first + j * dist) rm)))"
  using assms
proof (induction k arbitrary: i)
  case 0
  then show ?case by auto
next
  case (Suc k)
  let ?P = "\<lambda>j. take dsz (drop (j * bs) wr) = take dsz (drop (j * bs) rd) \<and>
      (md_check \<longrightarrow> take mds (drop (first + j * dist) wm) = take mds (drop (first + j * dist) rm))"
  have IH: "verify_loop bs dsz mds md_check (wm, rm, first, dist) wr rd (Suc i) k = Done (\<forall>j. Suc i \<le> j \<and> j < Suc i + k \<longrightarrow> ?P j)"
    by (rule Suc.IH) (use Suc.prems in simp_all)
  have r: "memcmp_at (i * bs) dsz wr rd = Done (take dsz (drop (i * bs) wr) = take dsz (drop (i * bs) rd))"
    using Suc.prems(1) by (auto simp: memcmp_at_def not_less)
  have m: "memcmp_at (first + i * dist) mds wm rm = Done (take mds (drop (first + i * dist) wm) = take mds (drop (first + i * dist) rm))"
    if md_check
    using Suc.prems(2) [OF that] by (auto simp: memcmp_at_def not_less)
  note split = range_Suc [of i k ?P]
  show ?case
    unfolding split verify_loop.simps r run_bind.simps IH
    by (cases md_check) (simp_all add: m IH)
qed

text \<open>When all bytes of a block are compared, block after block, the prefix is compared.\<close>

lemma blocks_equal_iff:
  assumes "n * bs \<le> length a" and "n * bs \<le> length b"
  shows "(\<forall>j < n. take bs (drop (j * bs) a) = take bs (drop (j * bs) b)) \<longleftrightarrow> take (n * bs) a = take (n * bs) b"
  using assms
proof (induction n arbitrary: a b)
  case (Suc n)
  have "(\<forall>j < Suc n. take bs (drop (j * bs) a) = take bs (drop (j * bs) b)) \<longleftrightarrow>
      take bs a = take bs b \<and> (\<forall>j < n. take bs (drop (j * bs) (drop bs a)) = take bs (drop (j * bs) (drop bs b)))"
    by (simp add: All_less_Suc2 add.commute)
  also have "\<dots> \<longleftrightarrow> take bs a = take bs b \<and> take (n * bs) (drop bs a) = take (n * bs) (drop bs b)"
    using Suc.prems by (subst Suc.IH) auto
  also have "\<dots> \<longleftrightarrow> take (Suc n * bs) a = take (Suc n * bs) b"
    using Suc.prems by (simp add: take_add append_eq_append_conv)
  finally show ?case .
qed simp

lemma inline_block_iff:
  assumes "md \<le> bs"
  shows "take (bs - md) (drop p a) = take (bs - md) (drop p b) \<and>
      take md (drop (bs - md + p) a) = take md (drop (bs - md + p) b) \<longleftrightarrow>
    take bs (drop p a) = take bs (drop p b)" (is "?l \<longleftrightarrow> ?r")
proof -
  have t: "take bs (drop p c) = take (bs - md) (drop p c) @ take md (drop (bs - md + p) c)" for c :: "'a list"
  proof -
    have "take bs (drop p c) = take ((bs - md) + md) (drop p c)" using assms by simp
    also have "\<dots> = take (bs - md) (drop p c) @ take md (drop (bs - md + p) c)" by (simp only: take_add drop_drop)
    finally show ?thesis .
  qed
  show ?thesis
  proof
    assume ?l then show ?r by (simp only: t)
  next
    assume r: ?r
    have "take (bs - md) (take bs (drop p a)) = take (bs - md) (take bs (drop p b))"
      "drop (bs - md) (take bs (drop p a)) = drop (bs - md) (take bs (drop p b))" by (simp_all only: r)
    then show ?l using assms by (simp add: take_take drop_take min_def add.commute)
  qed
qed

text \<open>
  The comparison answers the question it is meant to answer: with metadata in a buffer of their
  own, or checked behind the data, whether all bytes of the blocks are the same; with
  metadata behind the data that are not checked, whether the data of every block are.
\<close>

theorem verify_data_separate:
  assumes "n * bs \<le> wr_len" and "n * bs \<le> rd_len" and "wr_len \<le> length wr" and "rd_len \<le> length rd"
    and "n * md \<le> length wm" and "n * md \<le> length rm"
  shows "verify_data wr wr_len rd rd_len bs (Some wm) (Some rm) md n md_check =
    Done (take (n * bs) wr = take (n * bs) rd \<and> (md_check \<longrightarrow> take (n * md) wm = take (n * md) rm))"
proof -
  have le: "j * c + c \<le> n * c" if "j < n" for j c :: nat
    using mult_le_mono1 [of "Suc j" n c] that by simp
  have b: "n * bs \<le> length wr" "n * bs \<le> length rd" using assms by linarith+
  have 1: "\<forall>j < 0 + n. j * bs + bs \<le> length wr \<and> j * bs + bs \<le> length rd"
    using le [of _ bs] b le_trans by (metis add_0)
  have 2: "\<forall>j < 0 + n. 0 + j * md + md \<le> length wm \<and> 0 + j * md + md \<le> length rm"
    using le [of _ md] assms(5,6) le_trans by (metis add_0)
  show ?thesis
    using assms(1,2) blocks_equal_iff [OF b] blocks_equal_iff [OF assms(5,6)]
    by (simp add: verify_data_def verify_loop_iff [OF 1 2]) blast
qed

theorem verify_data_inline:
  assumes "n * bs \<le> wr_len" and "n * bs \<le> rd_len" and "wr_len \<le> length wr" and "rd_len \<le> length rd" and "md \<le> bs"
  shows "verify_data wr wr_len rd rd_len bs None None md n md_check =
    Done (if md_check then take (n * bs) wr = take (n * bs) rd
      else \<forall>j < n. take (bs - md) (drop (j * bs) wr) = take (bs - md) (drop (j * bs) rd))"
proof -
  have le: "j * bs + bs \<le> n * bs" if "j < n" for j
    using mult_le_mono1 [of "Suc j" n bs] that by simp
  have b: "n * bs \<le> length wr" "n * bs \<le> length rd" using assms by linarith+
  have e: "j * bs + bs \<le> length wr \<and> j * bs + bs \<le> length rd" if "j < n" for j
    using le [OF that] b by linarith
  have 1: "\<forall>j < 0 + n. j * bs + (bs - md) \<le> length wr \<and> j * bs + (bs - md) \<le> length rd" using e by fastforce
  have 2: "\<forall>j < 0 + n. bs - md + j * bs + md \<le> length wr \<and> bs - md + j * bs + md \<le> length rd" using e assms(5) by fastforce
  show ?thesis
    using assms(1,2)
    by (simp add: verify_data_def verify_loop_iff [OF 1 2] inline_block_iff [OF assms(5)] blocks_equal_iff [OF b])
qed

section \<open>What is generated\<close>

lemma memset_at_ok:
  "p + n \<le> length b \<Longrightarrow> memset_at p v n b = Done (take p b @ replicate n v @ drop (p + n) b)"
  by (simp add: memset_at_def)

definition filled :: "nat \<Rightarrow> u8 \<Rightarrow> u8 list \<Rightarrow> u8 list \<Rightarrow> bool" where
  "filled n v b b' \<longleftrightarrow> b' = replicate n v @ drop n b"

lemma filled_next:
  assumes "filled p v b0 b" and "p + n \<le> length b0"
  shows "memset_at p v n b = Done (replicate (p + n) v @ drop (p + n) b0)"
  using assms by (simp add: filled_def memset_at_def replicate_add add.commute [of n p])

lemma generate_inline_ok:
  assumes "filled (i * bs) v b0 b" and "(i + k) * bs \<le> length b0" and "md \<le> bs"
  shows "\<exists>b'. generate_inline bs md v i k b = Done b' \<and> filled ((i + k) * bs) v b0 b'"
  using assms
proof (induction k arbitrary: i b)
  case (Suc k)
  have len: "i * bs + bs \<le> length b0" using Suc.prems(2) by (simp add: distrib_right)
  have s: "i * bs + (bs - md) + md = Suc i * bs" using Suc.prems(3) by simp
  have m1: "memset_at (i * bs) v (bs - md) b = Done (replicate (i * bs + (bs - md)) v @ drop (i * bs + (bs - md)) b0)"
    by (rule filled_next [OF Suc.prems(1)]) (use len in simp)
  have m2: "memset_at (i * bs + (bs - md)) v md (replicate (i * bs + (bs - md)) v @ drop (i * bs + (bs - md)) b0)
      = Done (replicate (Suc i * bs) v @ drop (Suc i * bs) b0)"
    unfolding s [symmetric] by (rule filled_next) (use len Suc.prems(3) in \<open>simp_all add: filled_def\<close>)
  have f: "filled (Suc i * bs) v b0 (replicate (Suc i * bs) v @ drop (Suc i * bs) b0)" by (simp only: filled_def)
  have l: "(Suc i + k) * bs \<le> length b0" using Suc.prems(2) by simp
  from Suc.IH [OF f l Suc.prems(3)] show ?case
    unfolding generate_inline.simps m1 run_bind.simps m2 by simp
qed simp

lemma generate_separate_ok:
  assumes "filled (i * bs) v b0 b" and "(i + k) * bs \<le> length b0" and "filled (i * md) v m0 m" and "(i + k) * md \<le> length m0"
  shows "\<exists>b' m'. generate_separate bs md v i k b m = Done (b', m') \<and> filled ((i + k) * bs) v b0 b' \<and>
    filled ((i + k) * md) v m0 m'"
  using assms
proof (induction k arbitrary: i b m)
  case (Suc k)
  have m1: "memset_at (i * bs) v bs b = Done (replicate (Suc i * bs) v @ drop (Suc i * bs) b0)"
    using filled_next [OF Suc.prems(1), of bs] Suc.prems(2) by (simp add: distrib_right add.commute)
  have m2: "memset_at (i * md) v md m = Done (replicate (Suc i * md) v @ drop (Suc i * md) m0)"
    using filled_next [OF Suc.prems(3), of md] Suc.prems(4) by (simp add: distrib_right add.commute)
  have f: "filled (Suc i * bs) v b0 (replicate (Suc i * bs) v @ drop (Suc i * bs) b0)"
    "filled (Suc i * md) v m0 (replicate (Suc i * md) v @ drop (Suc i * md) m0)" by (simp_all only: filled_def)
  have l: "(Suc i + k) * bs \<le> length b0" "(Suc i + k) * md \<le> length m0" using Suc.prems(2,4) by simp_all
  from Suc.IH [OF f(1) l(1) f(2) l(2)] show ?case
    unfolding generate_separate.simps m1 run_bind.simps m2 by simp
qed simp

lemma generate_data_ok:
  assumes "n * bs \<le> buf_len" and "n * bs \<le> length buf" and "md \<le> bs"
    and "\<And>m. md_buf = Some m \<Longrightarrow> n * md \<le> length m"
  shows "\<exists>b m'. generate_data buf buf_len bs md_buf md n v = Done (b, m') \<and> filled (n * bs) v buf b \<and>
    (case md_buf of None \<Rightarrow> m' = None | Some m \<Rightarrow> \<exists>x. m' = Some x \<and> filled (n * md) v m x)"
proof (cases md_buf)
  case None
  then show ?thesis
    using assms(1) generate_inline_ok [of 0 bs v buf buf n md] assms(2,3) by (auto simp: generate_data_def filled_def)
next
  case (Some m)
  then show ?thesis
    using assms(1) generate_separate_ok [of 0 bs v buf buf n md m m] assms(2,4) by (auto simp: generate_data_def filled_def)
qed

text \<open>
  C36: What is generated and copied to a device verifies when the device gives it back, and when
  the device changes a byte of the data, it does not.
\<close>

theorem generated_data_verifies:
  assumes "n * bs \<le> buf_len" and "buf_len = length buf" and "md \<le> bs" and "n * bs \<le> length dev"
    and "generate_data buf buf_len bs None md n v = Done (b, None)"
  shows "\<exists>w. copy_data dev (length dev) b buf_len bs None None md n = Done (True, w, None) \<and>
    verify_data b buf_len w (length w) bs None None md n md_check = Done True \<and>
    (\<forall>p x. p < n * bs \<and> w ! p \<noteq> x \<longrightarrow>
       verify_data b buf_len (w[p := x]) (length w) bs None None md n True = Done False)"
proof -
  have lb: "n * bs \<le> length buf" using assms(1,2) by simp
  obtain b' where "generate_data buf buf_len bs None md n v = Done (b', None)" "filled (n * bs) v buf b'"
    using generate_data_ok [OF assms(1) lb assms(3), of None] by auto
  then have f: "b = replicate (n * bs) v @ drop (n * bs) buf" using assms(5) by (simp add: filled_def)
  then have l: "length b = buf_len" using lb assms(2) by simp
  define w where "w = take (n * bs) b @ drop (n * bs) dev"
  have c: "copy_data dev (length dev) b buf_len bs None None md n = Done (True, w, None)"
    using assms(1,4) l by (simp add: copy_data_def memcpy_all_def w_def mult.commute [of bs])
  have tk: "take (n * bs) w = take (n * bs) b" using l assms(1) by (simp add: w_def)
  have lw: "length w = length dev" using assms(1,4) l by (simp add: w_def)
  have "verify_data b buf_len w (length w) bs None None md n md_check = Done True"
  proof -
    have "take k (drop (j * bs) b) = take k (drop (j * bs) w)" if "j < n" "k \<le> bs" for j k
    proof -
      have "j * bs + k \<le> n * bs" using mult_le_mono1 [of "Suc j" n bs] that by simp
      then have "take k (drop (j * bs) x) = take k (drop (j * bs) (take (n * bs) x))" for x :: "u8 list"
        by (simp add: drop_take min_def)
      then show ?thesis using tk by metis
    qed
    then show ?thesis
      using verify_data_inline [of n bs buf_len "length w" b w md md_check] assms(1,3,4) l lw tk by auto
  qed
  moreover have "verify_data b buf_len (w[p := x]) (length w) bs None None md n True = Done False"
    if "p < n * bs" "w ! p \<noteq> x" for p x
  proof -
    have "take (n * bs) (w[p := x]) ! p = x" using that(1) lw assms(4) by simp
    moreover have "take (n * bs) b ! p = w ! p" using that(1) tk by (metis nth_take)
    ultimately have "take (n * bs) b \<noteq> take (n * bs) (w[p := x])" using that(2) by metis
    then show ?thesis
      using verify_data_inline [of n bs buf_len "length w" b "w[p := x]" md True] assms(1,3,4) l lw by auto
  qed
  ultimately show ?thesis using c by blast
qed

theorem generated_data_verifies_witness:
  "generate_data [0, 0] 2 2 None 0 1 7 = Done ([7, 7], None) \<and>
   (\<exists>w. copy_data [1, 2] (length [1, 2 :: u8]) [7, 7] 2 2 None None 0 1 = Done (True, w, None) \<and>
     verify_data [7, 7] 2 w (length w) 2 None None 0 1 True = Done True)"
proof -
  have "generate_data [0, 0] 2 2 None 0 1 7 = Done ([7, 7], None)" by (simp add: generate_data_def memset_at_def numeral_eq_Suc)
  from generated_data_verifies [OF _ _ _ _ this, of "[1, 2]" True] this show ?thesis by fastforce
qed

end
