(* ===== verification/Bdev_Perf.thy ===== *)
theory Bdev_Perf
  imports Perf_Data
begin

text \<open>
  The benchmark of block devices (\<^verbatim>\<open>bdev_perf.c\<close>): what one target does with its tasks.  A task
  is in the list of free tasks, at the device together with the callback that the device will
  make (\<open>sy_flights\<close>), waiting for memory with what will be tried again (\<open>sy_waits\<close>), or
  forgotten by the code.  The last is a history variable (\<open>sy_lost\<close>), with whether the
  forgotten task is still counted in the queue depth.  \<open>sy_ends\<close> is the number of end events
  sent, \<open>sy_channel\<close> whether the channel to the device is held.  What the device and the random
  generator answer are arguments.
\<close>

section \<open>State\<close>

datatype io_kind = K_INVALID | K_READ | K_WRITE | K_FLUSH | K_UNMAP | K_WRITE_ZEROES

record perf_task =
  tk_id :: nat
  offset_blocks :: nat
  tk_kind :: io_kind
  tk_buf :: "u8 list"
  tk_md :: "u8 list option"

datatype perf_cb = Cb_complete | Cb_verify_write | Cb_populate | Cb_get_buf | Cb_reset

datatype perf_retry = Retry_submit | Retry_read | Retry_prep

text \<open>The settings of a run, as \<^verbatim>\<open>verify_test_params\<close> leaves them.\<close>

record perf_cfg =
  g_rw_percentage :: int
  g_is_random :: bool
  g_verify :: bool
  g_reset :: bool
  g_continue_on_failure :: bool
  g_unmap :: bool
  g_write_zeroes :: bool
  g_flush :: bool
  g_zcopy :: bool
  g_buf_size :: nat

record io_target =
  io_completed :: nat
  current_queue_depth :: int
  size_in_ios :: nat
  offset_in_ios :: nat
  io_size_blocks :: nat
  dif_check :: bool
  is_draining :: bool
  run_timer :: bool
  reset_timer :: bool
  task_list :: "perf_task list"
  tg_block_size :: nat
  tg_md_size :: nat
  tg_dif_disabled :: bool

record perf_sys =
  sy_target :: io_target
  sy_run_rc :: int
  sy_flights :: "(perf_task \<times> perf_cb) list"
  sy_waits :: "(perf_task \<times> perf_retry) list"
  sy_lost :: "(perf_task \<times> bool) list"
  sy_ends :: nat
  sy_channel :: bool

text \<open>What the random generator and the device answer to the next calls.\<close>

record perf_rnd =
  r_offset :: nat
  r_seed :: nat
  r_mix :: nat

record perf_env =
  e_dif :: int
  e_submit :: int
  e_zcopy_end :: int

section \<open>Ending\<close>

definition end_target :: "perf_cfg \<Rightarrow> perf_sys \<Rightarrow> perf_sys" where
  "end_target c s = s\<lparr> sy_target := (sy_target s)\<lparr> run_timer := False,
     reset_timer := (if g_reset c then False else reset_timer (sy_target s)), is_draining := True \<rparr> \<rparr>"

definition fail_run :: "perf_cfg \<Rightarrow> int \<Rightarrow> perf_sys \<Rightarrow> perf_sys" where
  "fail_run c rc s = (end_target c s)\<lparr> sy_run_rc := rc \<rparr>"

definition lose :: "perf_task \<Rightarrow> bool \<Rightarrow> perf_sys \<Rightarrow> perf_sys" where
  "lose tk counted s = s\<lparr> sy_lost := sy_lost s @ [(tk, counted)] \<rparr>"

definition fly :: "perf_task \<Rightarrow> perf_cb \<Rightarrow> perf_sys \<Rightarrow> perf_sys" where
  "fly tk cb s = s\<lparr> sy_flights := sy_flights s @ [(tk, cb)] \<rparr>"

definition queue_io_wait :: "perf_task \<Rightarrow> perf_retry \<Rightarrow> perf_sys \<Rightarrow> perf_sys" where
  "queue_io_wait tk r s = s\<lparr> sy_waits := sy_waits s @ [(tk, r)] \<rparr>"

definition add_depth :: "int \<Rightarrow> perf_sys \<Rightarrow> perf_sys" where
  "add_depth d s = s\<lparr> sy_target := (sy_target s)\<lparr> current_queue_depth := current_queue_depth (sy_target s) + d \<rparr> \<rparr>"

section \<open>Submitting\<close>

text \<open>A write with zero copy has been counted when its buffer was asked for.\<close>

definition counted_write :: "perf_cfg \<Rightarrow> perf_task \<Rightarrow> bool" where
  "counted_write c tk \<longleftrightarrow> g_zcopy c \<and> tk_kind tk = K_WRITE"

text \<open>The end of \<^verbatim>\<open>bdevperf_submit_task\<close>, after the device answered \<open>rc\<close>.\<close>

definition submitted :: "perf_cfg \<Rightarrow> int \<Rightarrow> perf_task \<Rightarrow> perf_cb \<Rightarrow> perf_sys \<Rightarrow> perf_sys run" where
  "submitted c rc tk cb s =
     (if rc = - ENOMEM then Done (queue_io_wait tk Retry_submit s)
      else if rc \<noteq> 0 then Done (lose tk (counted_write c tk) (fail_run c rc s))
      else Done (add_depth 1 (fly tk cb s)))"

definition on_channel :: "perf_sys \<Rightarrow> perf_sys run \<Rightarrow> perf_sys run" where
  "on_channel s r = (if sy_channel s then r else Wild)"

definition submit_task :: "perf_cfg \<Rightarrow> perf_env \<Rightarrow> perf_task \<Rightarrow> perf_sys \<Rightarrow> perf_sys run" where
  "submit_task c e tk s =
     (case tk_kind tk of
        K_WRITE \<Rightarrow>
          (let t = sy_target s;
               rc = (if tg_md_size t \<noteq> 0 \<and> dif_check t then e_dif e else 0);
               cb = (if g_verify c \<or> g_reset c then Cb_verify_write else Cb_complete)
           in if rc \<noteq> 0 then submitted c rc tk cb s
              else if g_zcopy c then Done (if e_zcopy_end e = 0 then fly tk cb s else lose tk True s)
              else on_channel s (submitted c (e_submit e) tk cb s))
      | K_FLUSH \<Rightarrow> on_channel s (submitted c (e_submit e) tk Cb_complete s)
      | K_UNMAP \<Rightarrow> on_channel s (submitted c (e_submit e) tk Cb_complete s)
      | K_WRITE_ZEROES \<Rightarrow> on_channel s (submitted c (e_submit e) tk Cb_complete s)
      | K_READ \<Rightarrow> on_channel s (submitted c (e_submit e) tk (if g_zcopy c then Cb_populate else Cb_complete) s)
      | K_INVALID \<Rightarrow> Assert_fails)"

definition prep_zcopy_write_task :: "perf_env \<Rightarrow> perf_task \<Rightarrow> perf_sys \<Rightarrow> perf_sys run" where
  "prep_zcopy_write_task e tk s =
     on_channel s (if e_submit e \<noteq> 0
       then (if e_submit e = - ENOMEM then Done (queue_io_wait tk Retry_prep s) else Assert_fails)
       else Done (add_depth 1 (fly tk Cb_get_buf s)))"

definition verify_submit_read :: "perf_cfg \<Rightarrow> perf_env \<Rightarrow> perf_task \<Rightarrow> perf_sys \<Rightarrow> perf_sys run" where
  "verify_submit_read c e tk s =
     on_channel s (if e_submit e = - ENOMEM then Done (queue_io_wait tk Retry_read s)
       else if e_submit e \<noteq> 0 then Done (lose tk True (fail_run c (e_submit e) s))
       else Done (fly tk Cb_complete s))"

text \<open>The next offset: at random, where a target without room divides by zero, or in turn.\<close>

definition next_offset :: "perf_cfg \<Rightarrow> perf_rnd \<Rightarrow> io_target \<Rightarrow> (nat \<times> io_target) run" where
  "next_offset c r t =
     (if g_is_random c then (if size_in_ios t = 0 then Wild else Done (r_offset r mod size_in_ios t, t))
      else Done (offset_in_ios t, t\<lparr> offset_in_ios :=
        (if offset_in_ios t + 1 = size_in_ios t then 0 else offset_in_ios t + 1) \<rparr>))"

definition submit_write :: "perf_cfg \<Rightarrow> perf_env \<Rightarrow> perf_task \<Rightarrow> perf_sys \<Rightarrow> perf_sys run" where
  "submit_write c e tk s =
     (if g_zcopy c then prep_zcopy_write_task e tk s else submit_task c e (tk\<lparr> tk_kind := K_WRITE \<rparr>) s)"

definition submit_single :: "perf_cfg \<Rightarrow> perf_rnd \<Rightarrow> perf_env \<Rightarrow> perf_task \<Rightarrow> perf_sys \<Rightarrow> perf_sys run" where
  "submit_single c r e tk s =
     run_bind (next_offset c r (sy_target s)) (\<lambda>(ofs, t).
       let s1 = s\<lparr> sy_target := t \<rparr>; tk1 = tk\<lparr> offset_blocks := ofs * io_size_blocks t \<rparr> in
       if g_verify c \<or> g_reset c then
         run_bind (generate_data (tk_buf tk1) (g_buf_size c) (tg_block_size t) (tk_md tk1) (tg_md_size t)
             (io_size_blocks t) (word_of_nat (r_seed r mod 256)))
           (\<lambda>(b, m). submit_write c e (tk1\<lparr> tk_buf := b, tk_md := m \<rparr>) s1)
       else if g_flush c then submit_task c e (tk1\<lparr> tk_kind := K_FLUSH \<rparr>) s1
       else if g_unmap c then submit_task c e (tk1\<lparr> tk_kind := K_UNMAP \<rparr>) s1
       else if g_write_zeroes c then submit_task c e (tk1\<lparr> tk_kind := K_WRITE_ZEROES \<rparr>) s1
       else if g_rw_percentage c = 100 \<or> g_rw_percentage c \<noteq> 0 \<and> int (r_mix r mod 100) < g_rw_percentage c
       then submit_task c e (tk1\<lparr> tk_kind := K_READ \<rparr>) s1
       else submit_write c e tk1 s1)"

text \<open>Taking a free task; without one the program aborts.\<close>

definition get_task :: "perf_sys \<Rightarrow> (perf_task \<times> perf_sys) run" where
  "get_task s =
     (case task_list (sy_target s) of
        [] \<Rightarrow> Assert_fails
      | tk # tks \<Rightarrow> Done (tk, s\<lparr> sy_target := (sy_target s)\<lparr> task_list := tks \<rparr> \<rparr>))"

definition put_task :: "perf_task \<Rightarrow> perf_sys \<Rightarrow> perf_sys" where
  "put_task tk s = s\<lparr> sy_target := (sy_target s)\<lparr> task_list := task_list (sy_target s) @ [tk] \<rparr> \<rparr>"

text \<open>Filling the queue: what is answered to every one of the submissions.\<close>

definition submit_io :: "perf_cfg \<Rightarrow> (perf_rnd \<times> perf_env) list \<Rightarrow> perf_sys \<Rightarrow> perf_sys run" where
  "submit_io c = run_fold (\<lambda>(r, e) s. run_bind (get_task s) (\<lambda>(tk, s1). submit_single c r e tk s1))"

definition submit_on_core :: "perf_cfg \<Rightarrow> (perf_rnd \<times> perf_env) list \<Rightarrow> perf_sys \<Rightarrow> perf_sys run" where
  "submit_on_core c res s =
     submit_io c res (s\<lparr> sy_channel := True,
       sy_target := (sy_target s)\<lparr> run_timer := True, reset_timer := g_reset c \<rparr> \<rparr>)"

section \<open>Completions\<close>

text \<open>Checking a completion: \<open>iovs\<close> and \<open>rd_md\<close> are what the device hands over.\<close>

definition check_io ::
    "perf_cfg \<Rightarrow> bool \<Rightarrow> u8 list list \<Rightarrow> u8 list option \<Rightarrow> perf_task \<Rightarrow> perf_sys \<Rightarrow> perf_sys run" where
  "check_io c success iovs rd_md tk s =
     (let t = sy_target s in
      if \<not> success then Done (if \<not> g_reset c \<and> \<not> g_continue_on_failure c then fail_run c (- 1) s else s)
      else if g_verify c \<or> g_reset c then
        (if length iovs \<noteq> 1 then Assert_fails
         else run_bind (verify_data (tk_buf tk) (g_buf_size c) (hd iovs) (length (hd iovs)) (tg_block_size t)
                (tk_md tk) rd_md (tg_md_size t) (io_size_blocks t) (tg_dif_disabled t))
           (\<lambda>ok. Done (if \<not> ok then fail_run c (- 1) s else s)))
      else Done s)"

text \<open>The end of a target: the channel is given back and the event is sent.\<close>

definition release_target :: "perf_sys \<Rightarrow> perf_sys run" where
  "release_target s =
     (if current_queue_depth (sy_target s) \<noteq> 0 then Done s
      else if \<not> sy_channel s then Double_free
      else Done (s\<lparr> sy_channel := False, sy_ends := sy_ends s + 1 \<rparr>))"

definition count_io :: "bool \<Rightarrow> perf_sys \<Rightarrow> perf_sys" where
  "count_io success s =
     (let t = sy_target (add_depth (- 1) s) in
      s\<lparr> sy_target := (if success then t\<lparr> io_completed := io_completed t + 1 \<rparr> else t) \<rparr>)"

definition bdevperf_complete ::
    "perf_cfg \<Rightarrow> perf_rnd \<Rightarrow> perf_env \<Rightarrow> bool \<Rightarrow> u8 list list \<Rightarrow> u8 list option \<Rightarrow> perf_task \<Rightarrow> perf_sys \<Rightarrow> perf_sys run" where
  "bdevperf_complete c r e success iovs rd_md tk s =
     run_bind (check_io c success iovs rd_md tk s) (\<lambda>s1.
       let s2 = count_io success s1 in
       if \<not> is_draining (sy_target s2) then submit_single c r e tk s2
       else release_target (put_task tk s2))"

definition verify_write_complete ::
    "perf_cfg \<Rightarrow> perf_rnd \<Rightarrow> perf_env \<Rightarrow> bool \<Rightarrow> perf_task \<Rightarrow> perf_sys \<Rightarrow> perf_sys run" where
  "verify_write_complete c r e success tk s =
     (if success then verify_submit_read c e tk s else bdevperf_complete c r e False [] None tk s)"

definition zcopy_populate_complete ::
    "perf_cfg \<Rightarrow> perf_rnd \<Rightarrow> perf_env \<Rightarrow> bool \<Rightarrow> perf_task \<Rightarrow> perf_sys \<Rightarrow> perf_sys run" where
  "zcopy_populate_complete c r e success tk s =
     (if \<not> success then bdevperf_complete c r e False [] None tk s
      else Done (if e_zcopy_end e = 0 then fly tk Cb_complete s else lose tk True s))"

definition zcopy_get_buf_complete ::
    "perf_cfg \<Rightarrow> perf_env \<Rightarrow> bool \<Rightarrow> u8 list list \<Rightarrow> u8 list option \<Rightarrow> perf_task \<Rightarrow> perf_sys \<Rightarrow> perf_sys run" where
  "zcopy_get_buf_complete c e success iovs io_md tk s =
     (let t = sy_target s; tk1 = tk\<lparr> tk_kind := K_WRITE \<rparr> in
      if \<not> success then Done (lose tk True (fail_run c (- 1) s))
      else if g_verify c \<or> g_reset c then
        (if length iovs \<noteq> 1 then Assert_fails
         else run_bind (copy_data (hd iovs) (length (hd iovs)) (tk_buf tk) (g_buf_size c) (tg_block_size t)
                io_md (tk_md tk) (tg_md_size t) (io_size_blocks t))
           (\<lambda>_. submit_task c e tk1 s))
      else submit_task c e tk1 s)"

section \<open>Resetting the device\<close>

definition reset_cb :: "perf_cfg \<Rightarrow> bool \<Rightarrow> perf_task \<Rightarrow> perf_sys \<Rightarrow> perf_sys" where
  "reset_cb c success tk s =
     (let s1 = put_task tk (if \<not> success then fail_run c (- 1) s else s)
      in s1\<lparr> sy_target := (sy_target s1)\<lparr> reset_timer := True \<rparr> \<rparr>)"

definition reset_target :: "perf_cfg \<Rightarrow> perf_env \<Rightarrow> perf_sys \<Rightarrow> perf_sys run" where
  "reset_target c e s =
     run_bind (get_task (s\<lparr> sy_target := (sy_target s)\<lparr> reset_timer := False \<rparr> \<rparr>)) (\<lambda>(tk, s1).
       on_channel s1 (if e_submit e \<noteq> 0 then Done (lose tk False (fail_run c (- 1) s1))
         else Done (fly tk Cb_reset s1)))"

section \<open>Events\<close>

text \<open>
  The device completes the request at a position of the list, memory for a waiting task has
  become free, a timer expires, or the run is stopped from outside.  An event that is not
  enabled changes nothing.
\<close>

datatype perf_event =
    E_done nat bool "u8 list list" "u8 list option" perf_rnd perf_env
  | E_retry nat perf_env
  | E_end_timer
  | E_reset_timer perf_env
  | E_stop

definition del :: "nat \<Rightarrow> 'a list \<Rightarrow> 'a list" where
  "del k xs = take k xs @ drop (Suc k) xs"

definition flight_done ::
    "perf_cfg \<Rightarrow> bool \<Rightarrow> u8 list list \<Rightarrow> u8 list option \<Rightarrow> perf_rnd \<Rightarrow> perf_env \<Rightarrow> perf_task \<times> perf_cb \<Rightarrow> perf_sys \<Rightarrow> perf_sys run" where
  "flight_done c success iovs md r e f s =
     (case f of
        (tk, Cb_complete) \<Rightarrow> bdevperf_complete c r e success iovs md tk s
      | (tk, Cb_verify_write) \<Rightarrow> verify_write_complete c r e success tk s
      | (tk, Cb_populate) \<Rightarrow> zcopy_populate_complete c r e success tk s
      | (tk, Cb_get_buf) \<Rightarrow> zcopy_get_buf_complete c e success iovs md tk s
      | (tk, Cb_reset) \<Rightarrow> Done (reset_cb c success tk s))"

definition wait_done :: "perf_cfg \<Rightarrow> perf_env \<Rightarrow> perf_task \<times> perf_retry \<Rightarrow> perf_sys \<Rightarrow> perf_sys run" where
  "wait_done c e w s =
     (case w of
        (tk, Retry_submit) \<Rightarrow> submit_task c e tk s
      | (tk, Retry_read) \<Rightarrow> verify_submit_read c e tk s
      | (tk, Retry_prep) \<Rightarrow> prep_zcopy_write_task e tk s)"

fun perf_exec :: "perf_cfg \<Rightarrow> perf_event \<Rightarrow> perf_sys \<Rightarrow> perf_sys run" where
  "perf_exec c (E_done k success iovs md r e) s =
     (if k < length (sy_flights s)
      then flight_done c success iovs md r e (sy_flights s ! k) (s\<lparr> sy_flights := del k (sy_flights s) \<rparr>) else Done s)"
| "perf_exec c (E_retry k e) s =
     (if k < length (sy_waits s)
      then wait_done c e (sy_waits s ! k) (s\<lparr> sy_waits := del k (sy_waits s) \<rparr>) else Done s)"
| "perf_exec c E_end_timer s = Done (if run_timer (sy_target s) then end_target c s else s)"
| "perf_exec c (E_reset_timer e) s = (if reset_timer (sy_target s) then reset_target c e s else Done s)"
| "perf_exec c E_stop s = Done (end_target c s)"

definition perf_start :: "io_target \<Rightarrow> perf_sys" where
  "perf_start t = \<lparr> sy_target = t, sy_run_rc = 0, sy_flights = [], sy_waits = [], sy_lost = [], sy_ends = 0, sy_channel = False \<rparr>"

definition perf_run :: "perf_cfg \<Rightarrow> (perf_rnd \<times> perf_env) list \<Rightarrow> perf_event list \<Rightarrow> io_target \<Rightarrow> perf_sys run" where
  "perf_run c res evs t = run_bind (submit_on_core c res (perf_start t)) (run_fold (perf_exec c) evs)"

end
