(* ===== verification/Bdev_Perf_App.thy ===== *)
theory Bdev_Perf_App
  imports Bdev_Perf
begin

text \<open>
  The benchmark as a program (\<^verbatim>\<open>bdev_perf.c\<close>): its options and their checks, the targets it
  makes of the block devices and spreads over the cores, the tasks of every target, and the
  start and the end of a test, from the command line or by RPC.  Block devices, memory and
  cores are arguments; what is printed is not modelled.
\<close>

section \<open>Options\<close>

record perf_opts = perf_cfg +
  g_queue_depth :: int
  g_io_size :: int
  g_workload_type :: "string option"
  g_time_in_sec :: int
  g_time_in_usec :: int
  g_show_performance_real_time :: bool
  g_show_performance_period_in_usec :: int
  g_show_performance_ema_period :: int
  g_mix_specified :: bool
  g_target_bdev_name :: "string option"
  g_wait_for_tests :: bool
  g_every_core_for_each_bdev :: bool
  rpc_addr :: "string option"
  reactor_mask :: "string option"

definition default_opts :: perf_opts where
  "default_opts = \<lparr> g_rw_percentage = - 1, g_is_random = False, g_verify = False, g_reset = False,
     g_continue_on_failure = False, g_unmap = False, g_write_zeroes = False, g_flush = False, g_zcopy = True,
     g_buf_size = 0, g_queue_depth = 0, g_io_size = 0, g_workload_type = None, g_time_in_sec = 0, g_time_in_usec = 0,
     g_show_performance_real_time = False, g_show_performance_period_in_usec = 1000000,
     g_show_performance_ema_period = 0, g_mix_specified = False, g_target_bdev_name = None, g_wait_for_tests = False,
     g_every_core_for_each_bdev = False, rpc_addr = None, reactor_mask = None \<rparr>"

text \<open>
  One option of the command line: a letter and its argument.  \<open>strtoll\<close> is the library's
  conversion to a number; the answer of a failed one is cut to the width of an \<^verbatim>\<open>int\<close>.
\<close>

definition bdevperf_parse_arg :: "(string \<Rightarrow> int) \<Rightarrow> char \<Rightarrow> string \<Rightarrow> perf_opts \<Rightarrow> int \<times> perf_opts" where
  "bdevperf_parse_arg strtoll ch arg o1 =
     (if ch = CHR ''w'' then (0, o1\<lparr> g_workload_type := Some arg \<rparr>)
      else if ch = CHR ''T'' then (0, o1\<lparr> g_target_bdev_name := Some arg \<rparr>)
      else if ch = CHR ''z'' then (0, o1\<lparr> g_wait_for_tests := True \<rparr>)
      else if ch = CHR ''C'' then (0, o1\<lparr> g_every_core_for_each_bdev := True \<rparr>)
      else if ch = CHR ''f'' then (0, o1\<lparr> g_continue_on_failure := True \<rparr>)
      else let tmp = strtoll arg in
        if tmp < 0 then (sint (word_of_int tmp :: 32 word), o1)
        else if 2 ^ 31 - 1 \<le> tmp then (- ERANGE, o1)
        else if ch = CHR ''q'' then (0, o1\<lparr> g_queue_depth := tmp \<rparr>)
        else if ch = CHR ''o'' then (0, o1\<lparr> g_io_size := tmp \<rparr>)
        else if ch = CHR ''t'' then (0, o1\<lparr> g_time_in_sec := tmp \<rparr>)
        else if ch = CHR ''M'' then (0, o1\<lparr> g_rw_percentage := tmp, g_mix_specified := True \<rparr>)
        else if ch = CHR ''P'' then (0, o1\<lparr> g_show_performance_ema_period := tmp \<rparr>)
        else if ch = CHR ''S'' then (0, o1\<lparr> g_show_performance_real_time := True,
          g_show_performance_period_in_usec := tmp * 1000000 \<rparr>)
        else (- EINVAL, o1))"

definition workloads :: "string list" where
  "workloads = [''read'', ''write'', ''randread'', ''randwrite'', ''rw'', ''randrw'', ''verify'', ''reset'', ''unmap'',
     ''write_zeroes'', ''flush'']"

text \<open>
  The settings that follow from the kind of workload, in the order of the code.  \<open>big\<close> is the
  size of the library's large buffers; \<open>addr\<close> its default address.
\<close>

definition set_workload :: "string \<Rightarrow> perf_opts \<Rightarrow> perf_opts" where
  "set_workload w o1 =
     (let o2 = (if w \<in> {''read'', ''randread''} then o1\<lparr> g_rw_percentage := 100 \<rparr> else o1);
          o3 = (if w \<in> {''write'', ''randwrite''} then o2\<lparr> g_rw_percentage := 0 \<rparr> else o2);
          o4 = (if w = ''unmap'' then o3\<lparr> g_unmap := True \<rparr> else o3);
          o5 = (if w = ''write_zeroes'' then o4\<lparr> g_write_zeroes := True \<rparr> else o4)
      in if w = ''flush'' then o5\<lparr> g_flush := True \<rparr> else o5)"

definition set_verify :: "string \<Rightarrow> perf_opts \<Rightarrow> perf_opts" where
  "set_verify w o1 = o1\<lparr> reactor_mask := None, g_verify := True, g_reset := (w = ''reset'' \<or> g_reset o1) \<rparr>"

definition set_access :: "nat \<Rightarrow> string \<Rightarrow> perf_opts \<Rightarrow> perf_opts" where
  "set_access big w o1 =
     (let o2 = o1\<lparr> g_is_random := w \<notin> {''read'', ''write'', ''rw'', ''verify'', ''reset'', ''unmap'', ''write_zeroes''} \<rparr>
      in if int big < g_io_size o2 then o2\<lparr> g_zcopy := False \<rparr> else o2)"

definition verify_test_params :: "nat \<Rightarrow> string \<Rightarrow> perf_opts \<Rightarrow> int \<times> perf_opts" where
  "verify_test_params big addr o0 =
     (let o1 = (if g_wait_for_tests o0 \<and> rpc_addr o0 = None then o0\<lparr> rpc_addr := Some addr \<rparr> else o0) in
      if g_queue_depth o1 \<le> 0 \<or> g_io_size o1 \<le> 0 \<or> g_workload_type o1 = None \<or> g_time_in_sec o1 \<le> 0 then (1, o1)
      else let w = the (g_workload_type o1); o2 = o1\<lparr> g_time_in_usec := g_time_in_sec o1 * 1000000 \<rparr> in
        if 0 < g_show_performance_ema_period o2 \<and> \<not> g_show_performance_real_time o2 then (1, o2)
        else if w \<notin> set workloads then (1, o2)
        else let o3 = set_workload w o2; checked = w \<in> {''verify'', ''reset''};
                 o4 = (if checked then o3\<lparr> g_rw_percentage := 50 \<rparr> else o3) in
          if checked \<and> int big < g_io_size o4 then (1, o4)
          else let o5 = (if checked then set_verify w o4 else o4) in
            if w \<in> {''rw'', ''randrw''} \<and> (g_rw_percentage o5 < 0 \<or> 100 < g_rw_percentage o5) then (1, o5)
            else (0, set_access big w o5))"

text \<open>The options of a command line; the first error ends the program.\<close>

fun parse_args :: "(string \<Rightarrow> int) \<Rightarrow> (char \<times> string) list \<Rightarrow> perf_opts \<Rightarrow> int \<times> perf_opts" where
  "parse_args strtoll [] o1 = (0, o1)"
| "parse_args strtoll ((ch, arg) # args) o1 =
     (let (rc, o2) = bdevperf_parse_arg strtoll ch arg o1 in if rc \<noteq> 0 then (rc, o2) else parse_args strtoll args o2)"

definition perf_main_opts :: "(string \<Rightarrow> int) \<Rightarrow> nat \<Rightarrow> string \<Rightarrow> (char \<times> string) list \<Rightarrow> int \<times> perf_opts" where
  "perf_main_opts strtoll big addr args =
     (let (rc, o1) = parse_args strtoll args default_opts in if rc \<noteq> 0 then (rc, o1) else verify_test_params big addr o1)"

section \<open>State of the program\<close>

text \<open>What the program asks of a block device.\<close>

record perf_bdev =
  bi_name :: string
  bi_unmap :: bool
  bi_open :: int
  bi_block_size :: nat
  bi_data_block_size :: nat
  bi_md_size :: nat
  bi_md_separate :: bool
  bi_num_blocks :: nat
  bi_dif_check :: bool
  bi_dif_disabled :: bool
  bi_align :: nat

record perf_target =
  pt_bdev :: perf_bdev
  pt_io :: io_target

datatype perf_reply = Reply_result | Reply_failed int | Reply_params | Reply_busy

text \<open>
  \<open>ap_next\<close> is \<^verbatim>\<open>g_next_tg\<close>, the position of the next group or nothing for \<^verbatim>\<open>NULL\<close>;
  \<open>ap_open\<close> counts the open descriptors.
\<close>

record perf_app =
  ap_opts :: perf_opts
  ap_groups :: "(nat \<times> perf_target list) list"
  ap_next :: "nat option"
  ap_count :: nat
  ap_align :: nat
  ap_open :: nat
  ap_run_rc :: int
  ap_shutdown :: bool
  ap_request :: bool
  ap_replies :: "perf_reply list"
  ap_stopped :: "int option"

definition app_start :: "perf_opts \<Rightarrow> perf_app" where
  "app_start opts = \<lparr> ap_opts = opts, ap_groups = [], ap_next = None, ap_count = 0, ap_align = 8, ap_open = 0, ap_run_rc = 0,
     ap_shutdown = False, ap_request = False, ap_replies = [], ap_stopped = None \<rparr>"

text \<open>The groups, one for each core; without memory for one of them there are none.\<close>

definition blockdev_heads_init :: "(nat \<times> bool) list \<Rightarrow> perf_app \<Rightarrow> int \<times> perf_app" where
  "blockdev_heads_init cores a =
     (if list_all snd cores then (0, a\<lparr> ap_groups := ap_groups a @ map (\<lambda>c. (fst c, [])) cores \<rparr>)
      else (- 1, a\<lparr> ap_groups := [] \<rparr>))"

definition blockdev_heads_destroy :: "perf_app \<Rightarrow> perf_app" where
  "blockdev_heads_destroy a = a\<lparr> ap_groups := [] \<rparr>"

definition bdevperf_free_targets :: "perf_app \<Rightarrow> perf_app" where
  "bdevperf_free_targets a = a\<lparr> ap_groups := map (\<lambda>g. (fst g, [])) (ap_groups a) \<rparr>"

section \<open>Making targets\<close>

definition new_io_target :: "perf_bdev \<Rightarrow> nat \<Rightarrow> io_target" where
  "new_io_target b blocks = \<lparr> io_completed = 0, current_queue_depth = 0, size_in_ios = bi_num_blocks b div blocks,
     offset_in_ios = 0, io_size_blocks = blocks, dif_check = bi_dif_check b, is_draining = False, run_timer = False,
     reset_timer = False, task_list = [], tg_block_size = bi_block_size b, tg_md_size = bi_md_size b,
     tg_dif_disabled = bi_dif_disabled b \<rparr>"

text \<open>The next group gets the target; the last one is followed by the first.\<close>

definition add_target :: "perf_target \<Rightarrow> perf_app \<Rightarrow> perf_app run" where
  "add_target p a =
     (let k = (case ap_next a of None \<Rightarrow> 0 | Some k \<Rightarrow> k); gs = ap_groups a in
      if gs = [] then Assert_fails
      else Done (a\<lparr> ap_groups := gs[k := (fst (gs ! k), snd (gs ! k) @ [p])],
        ap_next := (if Suc k < length gs then Some (Suc k) else None), ap_count := (ap_count a + 1) mod 2 ^ 32 \<rparr>))"

text \<open>\<open>mem\<close> says whether there is memory for the target and its name.\<close>

definition bdevperf_construct_target :: "bool \<Rightarrow> perf_bdev \<Rightarrow> perf_app \<Rightarrow> (int \<times> perf_app) run" where
  "bdevperf_construct_target mem b a =
     (let opts = ap_opts a in
      if g_unmap opts \<and> \<not> bi_unmap b then Done (0, a)
      else if \<not> mem then Done (- ENOMEM, a)
      else if bi_open b \<noteq> 0 then Done (0, a)
      else if bi_data_block_size b = 0 then Wild
      else let blocks = nat (g_io_size opts) div bi_data_block_size b in
        if nat (g_io_size opts) mod bi_data_block_size b \<noteq> 0 then Done (0, a)
        else if blocks = 0 then Wild
        else run_bind (add_target \<lparr> pt_bdev = b, pt_io = new_io_target b blocks \<rparr>
               (a\<lparr> ap_open := ap_open a + 1, ap_align := max (ap_align a) (bi_align b),
                  ap_opts := opts\<lparr> g_buf_size := max (g_buf_size opts) (blocks * bi_block_size b) \<rparr> \<rparr>))
          (\<lambda>a'. Done (0, a')))"

text \<open>The targets of the device, one for each core that it is used from; the first failure ends the loop.\<close>

fun construct_loop :: "(bool \<times> perf_bdev) list \<Rightarrow> perf_app \<Rightarrow> perf_app run" where
  "construct_loop [] a = Done a"
| "construct_loop ((mem, b) # bs) a =
     run_bind (bdevperf_construct_target mem b a) (\<lambda>(rc, a'). if rc \<noteq> 0 then Done a' else construct_loop bs a')"

text \<open>
  The devices: the one that \<open>named\<close> knows by the name given, or all leaves.  The number of cores is kept in
  eight bits.  \<open>mem\<close> answers whether there is memory for the target of a device on a core.
\<close>

definition bdevperf_construct_targets :: "nat \<Rightarrow> (nat \<Rightarrow> perf_bdev \<Rightarrow> bool) \<Rightarrow> (string \<Rightarrow> perf_bdev option)
     \<Rightarrow> perf_bdev list \<Rightarrow> perf_app \<Rightarrow> perf_app run" where
  "bdevperf_construct_targets cores mem named leaves a =
     (let n = (if g_every_core_for_each_bdev (ap_opts a) then cores mod 256 else 1);
          devs = (case g_target_bdev_name (ap_opts a) of
            None \<Rightarrow> leaves
          | Some name \<Rightarrow> (case named name of None \<Rightarrow> [] | Some b \<Rightarrow> [b]))
      in construct_loop (concat (map (\<lambda>b. map (\<lambda>i. (mem i b, b)) [0..<n]) devs)) a)"

section \<open>Making tasks\<close>

definition construct_task :: "perf_opts \<Rightarrow> perf_target \<Rightarrow> nat \<Rightarrow> perf_task" where
  "construct_task opts p i = \<lparr> tk_id = i, offset_blocks = 0, tk_kind = K_INVALID, tk_buf = replicate (nat (g_io_size opts)) 0,
     tk_md = (if bi_md_separate (pt_bdev p) then Some (replicate (io_size_blocks (pt_io p) * bi_md_size (pt_bdev p)) 0) else None) \<rparr>"

text \<open>The tasks of a target: memory for the i-th one may be missing, the ones before are kept.\<close>

fun construct_tasks :: "(nat \<Rightarrow> bool) \<Rightarrow> perf_opts \<Rightarrow> nat \<Rightarrow> nat \<Rightarrow> perf_target \<Rightarrow> bool \<times> perf_target" where
  "construct_tasks mem opts i 0 p = (True, p)"
| "construct_tasks mem opts i (Suc n) p =
     (if \<not> mem i then (False, p)
      else construct_tasks mem opts (Suc i) n
        (p\<lparr> pt_io := (pt_io p)\<lparr> task_list := task_list (pt_io p) @ [construct_task opts p i] \<rparr> \<rparr>))"

fun targets_tasks :: "(nat \<Rightarrow> nat \<Rightarrow> nat \<Rightarrow> bool) \<Rightarrow> perf_opts \<Rightarrow> nat \<Rightarrow> nat \<Rightarrow> nat \<Rightarrow> perf_target list \<Rightarrow> bool \<times> perf_target list" where
  "targets_tasks mem opts n g j [] = (True, [])"
| "targets_tasks mem opts n g j (p # ps) =
     (let (ok, p') = construct_tasks (mem g j) opts 0 n p in
      if \<not> ok then (False, p' # ps) else let (ok', ps') = targets_tasks mem opts n g (Suc j) ps in (ok', p' # ps'))"

fun groups_tasks :: "(nat \<Rightarrow> nat \<Rightarrow> nat \<Rightarrow> bool) \<Rightarrow> perf_opts \<Rightarrow> nat \<Rightarrow> nat \<Rightarrow> (nat \<times> perf_target list) list \<Rightarrow> bool \<times> (nat \<times> perf_target list) list" where
  "groups_tasks mem opts n g [] = (True, [])"
| "groups_tasks mem opts n g ((lc, ps) # gs) =
     (let (ok, ps') = targets_tasks mem opts n g 0 ps in
      if \<not> ok then (False, (lc, ps') # gs) else let (ok', gs') = groups_tasks mem opts n (Suc g) gs in (ok', (lc, ps') # gs'))"

definition bdevperf_construct_targets_tasks :: "(nat \<Rightarrow> nat \<Rightarrow> nat \<Rightarrow> bool) \<Rightarrow> perf_app \<Rightarrow> int \<times> perf_app" where
  "bdevperf_construct_targets_tasks mem a =
     (let opts = ap_opts a; n = nat (g_queue_depth opts) + (if g_reset opts then 1 else 0);
          (ok, gs) = groups_tasks mem opts n 0 (ap_groups a)
      in (if ok then 0 else - 1, a\<lparr> ap_groups := gs \<rparr>))"

section \<open>A test\<close>

definition rpc_perform_tests_cb :: "perf_app \<Rightarrow> perf_app" where
  "rpc_perform_tests_cb a = a\<lparr> ap_request := False, ap_run_rc := 0,
     ap_replies := ap_replies a @ [if ap_run_rc a = 0 then Reply_result else Reply_failed (- ap_run_rc a)] \<rparr>"

definition bdevperf_fini :: "perf_app \<Rightarrow> perf_app" where
  "bdevperf_fini a = (blockdev_heads_destroy a)\<lparr> ap_stopped := Some (ap_run_rc a) \<rparr>"

definition bdevperf_test_done :: "perf_app \<Rightarrow> perf_app" where
  "bdevperf_test_done a =
     (let a' = bdevperf_free_targets a in if ap_request a' \<and> \<not> ap_shutdown a' then rpc_perform_tests_cb a' else bdevperf_fini a')"

text \<open>The event that a target sends when it has ended; \<^verbatim>\<open>g_target_count\<close> has 32 bits.\<close>

definition count_down :: "perf_app \<Rightarrow> perf_app" where
  "count_down a = a\<lparr> ap_open := ap_open a - 1, ap_count := (ap_count a + 2 ^ 32 - 1) mod 2 ^ 32 \<rparr>"

definition end_run :: "perf_app \<Rightarrow> perf_app" where
  "end_run a = (let a' = count_down a in if ap_count a' = 0 then bdevperf_test_done a' else a')"

text \<open>A group is started: a target without a channel is skipped; the others are started.\<close>

fun app_submit_on_core :: "(perf_target \<Rightarrow> bool) \<Rightarrow> perf_target list \<Rightarrow> perf_app \<Rightarrow> perf_target list \<times> perf_app" where
  "app_submit_on_core chan [] a = ([], a)"
| "app_submit_on_core chan (p # ps) a =
     (if \<not> chan p then app_submit_on_core chan ps ((count_down a)\<lparr> ap_run_rc := - 1 \<rparr>)
      else let (started, a') = app_submit_on_core chan ps a in (p # started, a'))"

definition bdevperf_test :: "(nat \<Rightarrow> nat \<Rightarrow> nat \<Rightarrow> bool) \<Rightarrow> perf_app \<Rightarrow> int \<times> perf_app" where
  "bdevperf_test mem a = (if ap_count a = 0 then (- ENODEV, a) else bdevperf_construct_targets_tasks mem a)"

text \<open>What remains when a test could not be started.\<close>

definition test_or_done :: "int \<times> perf_app \<Rightarrow> perf_app" where
  "test_or_done r = (if fst r \<noteq> 0 then bdevperf_test_done ((snd r)\<lparr> ap_run_rc := fst r \<rparr>) else snd r)"

definition bdevperf_run ::
    "(nat \<times> bool) list \<Rightarrow> (nat \<Rightarrow> perf_bdev \<Rightarrow> bool) \<Rightarrow> (nat \<Rightarrow> nat \<Rightarrow> nat \<Rightarrow> bool) \<Rightarrow> (string \<Rightarrow> perf_bdev option) \<Rightarrow> perf_bdev list \<Rightarrow> perf_app \<Rightarrow> perf_app run" where
  "bdevperf_run cores mem tmem named leaves a =
     (let (rc, a1) = blockdev_heads_init cores a in
      if rc \<noteq> 0 then Done (a1\<lparr> ap_stopped := Some rc \<rparr>)
      else if g_wait_for_tests (ap_opts a1) then Done a1
      else run_bind (bdevperf_construct_targets (length cores) mem named leaves a1) (\<lambda>a2. Done (test_or_done (bdevperf_test tmem a2))))"

text \<open>The RPC that starts a test; \<open>params\<close> is whether it has parameters.\<close>

definition rpc_perform_tests ::
    "nat \<Rightarrow> (nat \<Rightarrow> perf_bdev \<Rightarrow> bool) \<Rightarrow> (nat \<Rightarrow> nat \<Rightarrow> nat \<Rightarrow> bool) \<Rightarrow> (string \<Rightarrow> perf_bdev option) \<Rightarrow> perf_bdev list \<Rightarrow> bool \<Rightarrow> perf_app \<Rightarrow> perf_app run" where
  "rpc_perform_tests cores mem tmem named leaves params a =
     (if params then Done (a\<lparr> ap_replies := ap_replies a @ [Reply_params] \<rparr>)
      else if ap_request a then Done (a\<lparr> ap_replies := ap_replies a @ [Reply_busy] \<rparr>)
      else run_bind (bdevperf_construct_targets cores mem named leaves (a\<lparr> ap_request := True \<rparr>))
        (\<lambda>a2. Done (test_or_done (bdevperf_test tmem a2))))"

text \<open>The shutdown: whether the targets of the cores are to be stopped, and the program after it.\<close>

definition bdevperf_shutdown :: "perf_app \<Rightarrow> bool \<times> perf_app" where
  "bdevperf_shutdown a =
     (let a' = a\<lparr> ap_shutdown := True \<rparr> in
      if ap_groups a' = [] then (False, a'\<lparr> ap_stopped := Some 0 \<rparr>)
      else if ap_count a' = 0 then (False, bdevperf_test_done a')
      else (True, a'))"

end
