(* ===== verification/Bdev_Perf_Correct.thy ===== *)
theory Bdev_Perf_Correct
  imports Bdev_Perf "HOL-Library.Multiset"
begin

text \<open>
  What the benchmark keeps: no task is ever duplicated, the queue depth counts the tasks that the
  device or the code still owes, and a run whose submissions are accepted ends exactly once;
  and what a refused submission costs.
\<close>

section \<open>The balance of the queue depth\<close>

text \<open>
  What the depth should be: the requests at the device that are not resets, the tasks that
  wait and were counted before, and the forgotten tasks that were.
\<close>

definition counted_flight :: "perf_task \<times> perf_cb \<Rightarrow> bool" where
  "counted_flight f \<longleftrightarrow> snd f \<noteq> Cb_reset"

definition counted_wait :: "perf_cfg \<Rightarrow> perf_task \<times> perf_retry \<Rightarrow> bool" where
  "counted_wait c w \<longleftrightarrow> snd w = Retry_read \<or> snd w = Retry_submit \<and> counted_write c (fst w)"

definition owed :: "perf_cfg \<Rightarrow> perf_sys \<Rightarrow> int" where
  "owed c s = int (length (filter counted_flight (sy_flights s)) + length (filter (counted_wait c) (sy_waits s)) +
     length (filter snd (sy_lost s)))"

definition bal :: "perf_cfg \<Rightarrow> perf_sys \<Rightarrow> int" where
  "bal c s = current_queue_depth (sy_target s) - owed c s"

definition tasks_of :: "perf_sys \<Rightarrow> nat multiset" where
  "tasks_of s = image_mset tk_id (mset (task_list (sy_target s) @ map fst (sy_flights s) @ map fst (sy_waits s) @ map fst (sy_lost s)))"

definition b2i :: "bool \<Rightarrow> int" where "b2i b = (if b then 1 else 0)"

named_theorems perf_parts

lemma perf_fields [perf_parts]:
  "bal c (end_target c' s) = bal c s" "tasks_of (end_target c' s) = tasks_of s"
  "bal c (fail_run c' rc s) = bal c s" "tasks_of (fail_run c' rc s) = tasks_of s"
  "bal c (lose tk b s) = bal c s - b2i b" "tasks_of (lose tk b s) = add_mset (tk_id tk) (tasks_of s)"
  "bal c (fly tk cb s) = bal c s - b2i (cb \<noteq> Cb_reset)" "tasks_of (fly tk cb s) = add_mset (tk_id tk) (tasks_of s)"
  "bal c (queue_io_wait tk r s) = bal c s - b2i (counted_wait c (tk, r))"
  "tasks_of (queue_io_wait tk r s) = add_mset (tk_id tk) (tasks_of s)"
  "bal c (add_depth d s) = bal c s + d" "tasks_of (add_depth d s) = tasks_of s"
  "bal c (put_task tk s) = bal c s" "tasks_of (put_task tk s) = add_mset (tk_id tk) (tasks_of s)"
  "bal c (count_io b s) = bal c s - 1" "tasks_of (count_io b s) = tasks_of s"
  by (simp_all add: bal_def owed_def tasks_of_def end_target_def fail_run_def lose_def fly_def queue_io_wait_def
      add_depth_def put_task_def count_io_def b2i_def counted_flight_def Let_def)

lemma perf_timer [perf_parts]:
  "bal c (s\<lparr> sy_target := (sy_target s)\<lparr> reset_timer := b \<rparr> \<rparr>) = bal c s"
  "tasks_of (s\<lparr> sy_target := (sy_target s)\<lparr> reset_timer := b \<rparr> \<rparr>) = tasks_of s"
  by (simp_all add: bal_def owed_def tasks_of_def)

lemma on_channel_Done [perf_parts]: "on_channel s r = Done s' \<longleftrightarrow> sy_channel s \<and> r = Done s'"
  by (simp add: on_channel_def)

text \<open>Every function that takes a task keeps it, and changes the balance by what it was counted for.\<close>

lemma submitted_parts:
  "submitted c rc tk cb s = Done s' \<Longrightarrow> cb \<noteq> Cb_reset \<Longrightarrow> (rc = 0 \<longrightarrow> \<not> counted_write c tk) \<Longrightarrow>
     bal c s' = bal c s - b2i (counted_write c tk) \<and> tasks_of s' = add_mset (tk_id tk) (tasks_of s)"
  by (auto simp: submitted_def perf_parts b2i_def counted_wait_def ENOMEM_def split: if_splits)

lemma submit_task_parts:
  assumes "submit_task c e tk s = Done s'"
  shows "bal c s' = bal c s - b2i (counted_write c tk) \<and> tasks_of s' = add_mset (tk_id tk) (tasks_of s)"
proof -
  have nc: "\<not> counted_write c tk" if "tk_kind tk \<noteq> K_WRITE \<or> \<not> g_zcopy c" using that by (auto simp: counted_write_def)
  have "(\<exists>rc cb. submitted c rc tk cb s = Done s' \<and> cb \<noteq> Cb_reset \<and> (rc = 0 \<longrightarrow> \<not> counted_write c tk)) \<or>
    counted_write c tk \<and> (\<exists>cb. cb \<noteq> Cb_reset \<and> s' = fly tk cb s \<or> s' = lose tk True s)"
  proof (cases "tk_kind tk = K_WRITE")
    case True
    then show ?thesis
      using assms nc by (auto simp: submit_task_def Let_def on_channel_Done counted_write_def split: if_splits)
  next
    case False
    then obtain cb where "submitted c (e_submit e) tk cb s = Done s'" "cb \<noteq> Cb_reset"
      using assms by (auto simp: submit_task_def on_channel_Done split: io_kind.splits if_splits)
    then show ?thesis using nc False by blast
  qed
  then show ?thesis
  proof (elim disjE exE conjE)
    fix rc cb assume "submitted c rc tk cb s = Done s'" "cb \<noteq> Cb_reset" "rc = 0 \<longrightarrow> \<not> counted_write c tk"
    then show ?thesis by (rule submitted_parts)
  qed (simp_all add: perf_parts b2i_def)
qed

lemma prep_parts:
  "prep_zcopy_write_task e tk s = Done s' \<Longrightarrow> bal c s' = bal c s \<and> tasks_of s' = add_mset (tk_id tk) (tasks_of s)"
  by (auto simp: prep_zcopy_write_task_def perf_parts b2i_def counted_wait_def split: if_splits)

lemma read_parts:
  "verify_submit_read c e tk s = Done s' \<Longrightarrow> bal c s' = bal c s - 1 \<and> tasks_of s' = add_mset (tk_id tk) (tasks_of s)"
  by (auto simp: verify_submit_read_def perf_parts b2i_def counted_wait_def split: if_splits)

lemma next_offset_fields:
  assumes "next_offset c r t = Done (ofs, t')"
  shows "current_queue_depth t' = current_queue_depth t" "task_list t' = task_list t" "is_draining t' = is_draining t"
    "io_size_blocks t' = io_size_blocks t" "size_in_ios t' = size_in_ios t"
  using assms by (auto simp: next_offset_def split: if_splits)

lemma submit_write_parts:
  assumes "submit_write c e tk s = Done s'"
  shows "bal c s' = bal c s \<and> tasks_of s' = add_mset (tk_id tk) (tasks_of s)"
proof (cases "g_zcopy c")
  case True
  then show ?thesis using assms prep_parts by (simp add: submit_write_def)
next
  case False
  then show ?thesis
    using assms submit_task_parts [of c e "tk\<lparr> tk_kind := K_WRITE \<rparr>" s s']
    by (simp add: submit_write_def counted_write_def b2i_def)
qed

lemma submit_kind_parts:
  "submit_task c e (tk\<lparr> tk_kind := k \<rparr>) s = Done s' \<Longrightarrow> k \<noteq> K_WRITE \<Longrightarrow>
     bal c s' = bal c s \<and> tasks_of s' = add_mset (tk_id tk) (tasks_of s)"
  using submit_task_parts [of c e "tk\<lparr> tk_kind := k \<rparr>" s s'] by (simp add: counted_write_def b2i_def)

text \<open>A single submission ends in one of two functions, with the task and a new offset.\<close>

lemma submit_single_cases:
  assumes "submit_single c r e tk s = Done s'"
  obtains ofs t tk' where "next_offset c r (sy_target s) = Done (ofs, t)" and "tk_id tk' = tk_id tk"
    and "offset_blocks tk' = ofs * io_size_blocks t"
    and "submit_write c e tk' (s\<lparr> sy_target := t \<rparr>) = Done s' \<or>
      (\<exists>k. k \<noteq> K_WRITE \<and> submit_task c e (tk'\<lparr> tk_kind := k \<rparr>) (s\<lparr> sy_target := t \<rparr>) = Done s')"
proof -
  obtain ofs t where n: "next_offset c r (sy_target s) = Done (ofs, t)"
    using assms by (auto simp: submit_single_def run_bind_Done)
  let ?tk = "tk\<lparr> offset_blocks := ofs * io_size_blocks t \<rparr>"
  show thesis
  proof (cases "g_verify c \<or> g_reset c")
    case True
    then obtain b m where "submit_write c e (?tk\<lparr> tk_buf := b, tk_md := m \<rparr>) (s\<lparr> sy_target := t \<rparr>) = Done s'"
      using assms n by (auto simp: submit_single_def run_bind_Done Let_def)
    with that [OF n, of "?tk\<lparr> tk_buf := b, tk_md := m \<rparr>"] show ?thesis by simp
  next
    case False
    with assms n that [OF n, of ?tk] show ?thesis
      by (auto simp: submit_single_def Let_def split: if_splits)
  qed
qed

lemma submit_single_parts:
  assumes "submit_single c r e tk s = Done s'"
  shows "bal c s' = bal c s \<and> tasks_of s' = add_mset (tk_id tk) (tasks_of s)"
proof -
  obtain ofs t tk' where n: "next_offset c r (sy_target s) = Done (ofs, t)" "tk_id tk' = tk_id tk"
    and w: "submit_write c e tk' (s\<lparr> sy_target := t \<rparr>) = Done s' \<or>
      (\<exists>k. k \<noteq> K_WRITE \<and> submit_task c e (tk'\<lparr> tk_kind := k \<rparr>) (s\<lparr> sy_target := t \<rparr>) = Done s')"
    by (rule submit_single_cases [OF assms])
  have "bal c (s\<lparr> sy_target := t \<rparr>) = bal c s" "tasks_of (s\<lparr> sy_target := t \<rparr>) = tasks_of s"
    using next_offset_fields [OF n(1)] by (simp_all add: bal_def owed_def tasks_of_def)
  with w submit_write_parts submit_kind_parts n(2) show ?thesis by (metis (no_types, lifting))
qed

lemma check_io_cases:
  assumes "check_io c success iovs md tk s = Done s'"
  shows "s' = s \<or> s' = fail_run c (- 1) s"
  using assms by (auto simp: check_io_def Let_def run_bind_Done split: if_splits)

lemma release_parts: "release_target s = Done s' \<Longrightarrow> bal c s' = bal c s \<and> tasks_of s' = tasks_of s"
  by (auto simp: release_target_def bal_def owed_def tasks_of_def split: if_splits)

lemma complete_parts:
  assumes "bdevperf_complete c r e success iovs md tk s = Done s'"
  shows "bal c s' = bal c s - 1 \<and> tasks_of s' = add_mset (tk_id tk) (tasks_of s)"
proof -
  obtain s1 where c1: "check_io c success iovs md tk s = Done s1"
    and r: "(if \<not> is_draining (sy_target (count_io success s1)) then submit_single c r e tk (count_io success s1)
       else release_target (put_task tk (count_io success s1))) = Done s'"
    using assms by (auto simp: bdevperf_complete_def run_bind_Done Let_def)
  have "bal c s1 = bal c s" "tasks_of s1 = tasks_of s" using check_io_cases [OF c1] by (auto simp: perf_parts)
  then show ?thesis
    using r submit_single_parts [of c r e tk "count_io success s1" s'] release_parts [of "put_task tk (count_io success s1)" s' c]
    by (simp add: perf_parts split: if_splits)
qed

text \<open>
  What the requests look like: inside of the device, with the buffer of a write asked for only
  with zero copy.
\<close>

definition inside :: "io_target \<Rightarrow> perf_task \<Rightarrow> bool" where
  "inside t tk \<longleftrightarrow> offset_blocks tk + io_size_blocks t \<le> size_in_ios t * io_size_blocks t"

definition perf_wf :: "perf_cfg \<Rightarrow> io_target \<Rightarrow> perf_sys \<Rightarrow> bool" where
  "perf_wf c t0 s \<longleftrightarrow> offset_in_ios (sy_target s) < size_in_ios (sy_target s) \<and>
     size_in_ios (sy_target s) = size_in_ios t0 \<and> io_size_blocks (sy_target s) = io_size_blocks t0 \<and>
     (\<forall>f \<in> set (sy_flights s). (snd f = Cb_get_buf \<longrightarrow> g_zcopy c) \<and> (snd f \<noteq> Cb_reset \<longrightarrow> inside (sy_target s) (fst f))) \<and>
     (\<forall>w \<in> set (sy_waits s). (snd w = Retry_prep \<longrightarrow> g_zcopy c) \<and> inside (sy_target s) (fst w))"

named_theorems perf_shape

lemma inside_target [perf_shape]:
  "inside (sy_target (end_target c s)) = inside (sy_target s)" "inside (sy_target (fail_run c rc s)) = inside (sy_target s)"
  "inside (sy_target (lose tk b s)) = inside (sy_target s)" "inside (sy_target (fly tk cb s)) = inside (sy_target s)"
  "inside (sy_target (queue_io_wait tk r s)) = inside (sy_target s)" "inside (sy_target (add_depth d s)) = inside (sy_target s)"
  "inside (sy_target (put_task tk s)) = inside (sy_target s)" "inside (sy_target (count_io b s)) = inside (sy_target s)"
  "inside t (tk\<lparr> tk_kind := k \<rparr>) = inside t tk"
  by (simp_all add: inside_def end_target_def fail_run_def lose_def fly_def queue_io_wait_def add_depth_def put_task_def
      count_io_def Let_def fun_eq_iff)

lemma perf_wf_fields [perf_shape]:
  "perf_wf c t0 (end_target c' s) = perf_wf c t0 s" "perf_wf c t0 (fail_run c' rc s) = perf_wf c t0 s" "perf_wf c t0 (lose tk b s) = perf_wf c t0 s"
  "perf_wf c t0 (fly tk cb s) \<longleftrightarrow> perf_wf c t0 s \<and> (cb = Cb_get_buf \<longrightarrow> g_zcopy c) \<and> (cb \<noteq> Cb_reset \<longrightarrow> inside (sy_target s) tk)"
  "perf_wf c t0 (queue_io_wait tk r s) \<longleftrightarrow> perf_wf c t0 s \<and> (r = Retry_prep \<longrightarrow> g_zcopy c) \<and> inside (sy_target s) tk"
  "perf_wf c t0 (add_depth d s) = perf_wf c t0 s" "perf_wf c t0 (put_task tk s) = perf_wf c t0 s" "perf_wf c t0 (count_io b s) = perf_wf c t0 s"
  by (auto simp: perf_wf_def inside_def end_target_def fail_run_def lose_def fly_def queue_io_wait_def add_depth_def
      put_task_def count_io_def Let_def)

lemma perf_wf_timer: "perf_wf c t0 (s\<lparr> sy_target := (sy_target s)\<lparr> reset_timer := b \<rparr> \<rparr>) = perf_wf c t0 s"
  by (simp add: perf_wf_def inside_def)

lemma submitted_wf:
  "submitted c rc tk cb s = Done s' \<Longrightarrow> perf_wf c t0 s \<Longrightarrow> inside (sy_target s) tk \<Longrightarrow> cb \<noteq> Cb_get_buf \<Longrightarrow> perf_wf c t0 s'"
  by (auto simp: submitted_def perf_shape split: if_splits)

lemma submit_task_wf:
  assumes "submit_task c e tk s = Done s'" and "perf_wf c t0 s" and "inside (sy_target s) tk"
  shows "perf_wf c t0 s'"
  using assms by (auto simp: submit_task_def Let_def on_channel_Done perf_shape
      split: io_kind.splits if_splits elim!: submitted_wf)

lemma prep_wf:
  "prep_zcopy_write_task e tk s = Done s' \<Longrightarrow> perf_wf c t0 s \<Longrightarrow> inside (sy_target s) tk \<Longrightarrow> g_zcopy c \<Longrightarrow> perf_wf c t0 s'"
  by (auto simp: prep_zcopy_write_task_def perf_parts perf_shape split: if_splits)

lemma read_wf:
  "verify_submit_read c e tk s = Done s' \<Longrightarrow> perf_wf c t0 s \<Longrightarrow> inside (sy_target s) tk \<Longrightarrow> perf_wf c t0 s'"
  by (auto simp: verify_submit_read_def perf_parts perf_shape split: if_splits)

lemma submit_write_wf:
  "submit_write c e tk s = Done s' \<Longrightarrow> perf_wf c t0 s \<Longrightarrow> inside (sy_target s) tk \<Longrightarrow> perf_wf c t0 s'"
  by (auto simp: submit_write_def perf_shape split: if_splits elim: prep_wf submit_task_wf)

lemma next_offset_inside:
  assumes "next_offset c r t = Done (ofs, t')" and "offset_in_ios t < size_in_ios t"
  shows "offset_in_ios t' < size_in_ios t'" and "ofs < size_in_ios t'"
proof -
  have "ofs < size_in_ios t' \<and> offset_in_ios t' < size_in_ios t'"
    using assms by (auto simp: next_offset_def split: if_splits)
  then show "offset_in_ios t' < size_in_ios t'" and "ofs < size_in_ios t'" by simp_all
qed

lemma submit_single_wf:
  assumes "submit_single c r e tk s = Done s'" and "perf_wf c t0 s"
  shows "perf_wf c t0 s'"
proof -
  obtain ofs t tk' where n: "next_offset c r (sy_target s) = Done (ofs, t)" and o: "offset_blocks tk' = ofs * io_size_blocks t"
    and w: "submit_write c e tk' (s\<lparr> sy_target := t \<rparr>) = Done s' \<or>
      (\<exists>k. k \<noteq> K_WRITE \<and> submit_task c e (tk'\<lparr> tk_kind := k \<rparr>) (s\<lparr> sy_target := t \<rparr>) = Done s')"
    by (rule submit_single_cases [OF assms(1)])
  have lt: "offset_in_ios t < size_in_ios t" "ofs < size_in_ios t"
    using next_offset_inside [OF n] assms(2) by (simp_all add: perf_wf_def)
  have "Suc ofs * io_size_blocks t \<le> size_in_ios t * io_size_blocks t" using lt(2) by (intro mult_le_mono1) simp
  then have i: "inside t tk'" by (simp add: inside_def o)
  have "perf_wf c t0 (s\<lparr> sy_target := t \<rparr>)"
    using assms(2) lt(1) next_offset_fields [OF n] by (auto simp: perf_wf_def inside_def)
  with w i show ?thesis by (auto simp: perf_shape elim: submit_write_wf submit_task_wf)
qed

lemma complete_wf:
  assumes "bdevperf_complete c r e success iovs md tk s = Done s'" and "perf_wf c t0 s"
  shows "perf_wf c t0 s'"
proof -
  obtain s1 where c1: "check_io c success iovs md tk s = Done s1"
    and r: "(if \<not> is_draining (sy_target (count_io success s1)) then submit_single c r e tk (count_io success s1)
       else release_target (put_task tk (count_io success s1))) = Done s'"
    using assms by (auto simp: bdevperf_complete_def run_bind_Done Let_def)
  have "perf_wf c t0 (count_io success s1)" using check_io_cases [OF c1] assms(2) by (auto simp: perf_shape)
  moreover have "perf_wf c t0 u'" if "release_target u = Done u'" "perf_wf c t0 u" for u u'
    using that by (clarsimp simp: release_target_def split: if_splits) (simp add: perf_wf_def)
  ultimately show ?thesis using r submit_single_wf by (auto simp: perf_shape split: if_splits)
qed

lemma flight_done_parts:
  assumes "flight_done c success iovs md r e f s = Done s'" and "snd f = Cb_get_buf \<longrightarrow> g_zcopy c"
  shows "bal c s' = bal c s - b2i (counted_flight f) \<and> tasks_of s' = add_mset (tk_id (fst f)) (tasks_of s)"
proof (cases f)
  case (Pair tk cb)
  show ?thesis
  proof (cases cb)
    case Cb_complete
    then show ?thesis using assms complete_parts by (simp add: flight_done_def Pair counted_flight_def b2i_def)
  next
    case Cb_verify_write
    then show ?thesis using assms complete_parts read_parts
      by (auto simp: flight_done_def Pair counted_flight_def b2i_def verify_write_complete_def split: if_splits)
  next
    case Cb_populate
    then show ?thesis using assms complete_parts
      by (auto simp: flight_done_def Pair counted_flight_def b2i_def zcopy_populate_complete_def perf_parts split: if_splits)
  next
    case Cb_get_buf
    have sub: "bal c s' = bal c s - 1 \<and> tasks_of s' = add_mset (tk_id tk) (tasks_of s)"
      if "submit_task c e (tk\<lparr> tk_kind := K_WRITE \<rparr>) s = Done s'"
      using submit_task_parts [OF that] assms(2) by (simp add: counted_write_def b2i_def Pair Cb_get_buf)
    show ?thesis using assms(1)
      by (auto simp: flight_done_def Pair Cb_get_buf counted_flight_def zcopy_get_buf_complete_def Let_def run_bind_Done
          perf_parts b2i_def split: if_splits dest!: sub)
  next
    case Cb_reset
    then show ?thesis using assms
      by (auto simp: flight_done_def Pair counted_flight_def b2i_def reset_cb_def Let_def perf_parts)
  qed
qed

lemma flight_done_wf:
  assumes "flight_done c success iovs md r e f s = Done s'" and "perf_wf c t0 s"
    and "snd f \<noteq> Cb_reset \<longrightarrow> inside (sy_target s) (fst f)"
  shows "perf_wf c t0 s'"
proof (cases f)
  case (Pair tk cb)
  show ?thesis
  proof (cases cb)
    case Cb_reset
    then show ?thesis using assms
      by (auto simp: flight_done_def Pair reset_cb_def Let_def perf_shape perf_wf_timer)
  next
    case Cb_get_buf
    then show ?thesis using assms
      by (auto simp: flight_done_def Pair zcopy_get_buf_complete_def Let_def run_bind_Done perf_shape
          split: if_splits elim!: submit_task_wf)
  qed (use assms in \<open>auto simp: flight_done_def Pair verify_write_complete_def zcopy_populate_complete_def perf_shape
      split: if_splits elim: complete_wf read_wf\<close>)
qed

lemma wait_done_parts:
  assumes "wait_done c e w s = Done s'"
  shows "bal c s' = bal c s - b2i (counted_wait c w) \<and> tasks_of s' = add_mset (tk_id (fst w)) (tasks_of s)"
  using assms submit_task_parts read_parts prep_parts
  by (cases w; cases "snd w") (auto simp: wait_done_def counted_wait_def b2i_def)

lemma wait_done_wf:
  assumes "wait_done c e w s = Done s'" and "perf_wf c t0 s" and "inside (sy_target s) (fst w)" and "snd w = Retry_prep \<longrightarrow> g_zcopy c"
  shows "perf_wf c t0 s'"
  using assms by (cases w; cases "snd w") (auto simp: wait_done_def elim: submit_task_wf read_wf prep_wf)

section \<open>One event\<close>

lemma nth_del:
  assumes "k < length xs"
  shows "mset xs = add_mset (xs ! k) (mset (del k xs))" and "set (del k xs) \<subseteq> set xs"
    and "length (filter p xs) = length (filter p (del k xs)) + (if p (xs ! k) then 1 else 0)"
    and "length (del k xs) = length xs - 1"
proof -
  have e: "xs = take k xs @ xs ! k # drop (Suc k) xs" using assms by (rule id_take_nth_drop)
  have "mset xs = mset (take k xs @ xs ! k # drop (Suc k) xs)" using e by simp
  then show m: "mset xs = add_mset (xs ! k) (mset (del k xs))" by (simp add: del_def)
  then show "set (del k xs) \<subseteq> set xs" by (metis set_mset_add_mset_insert set_mset_mset subset_insertI)
  have "length (filter p xs) = size (filter_mset p (mset xs))" by (simp flip: mset_filter)
  also have "\<dots> = size (filter_mset p (mset (del k xs))) + (if p (xs ! k) then 1 else 0)" by (simp add: m)
  also have "size (filter_mset p (mset (del k xs))) = length (filter p (del k xs))" by (simp flip: mset_filter)
  finally show "length (filter p xs) = length (filter p (del k xs)) + (if p (xs ! k) then 1 else 0)" .
  show "length (del k xs) = length xs - 1" using assms by (simp add: del_def)
qed

definition drop_flight :: "nat \<Rightarrow> perf_sys \<Rightarrow> perf_sys" where
  "drop_flight k s = s\<lparr> sy_flights := del k (sy_flights s) \<rparr>"

definition drop_wait :: "nat \<Rightarrow> perf_sys \<Rightarrow> perf_sys" where
  "drop_wait k s = s\<lparr> sy_waits := del k (sy_waits s) \<rparr>"

lemma drop_flight_parts:
  assumes "k < length (sy_flights s)"
  shows "bal c (drop_flight k s) = bal c s + b2i (counted_flight (sy_flights s ! k))"
    and "tasks_of s = add_mset (tk_id (fst (sy_flights s ! k))) (tasks_of (drop_flight k s))"
    and "perf_wf c t0 s \<Longrightarrow> perf_wf c t0 (drop_flight k s)" and "inside (sy_target (drop_flight k s)) = inside (sy_target s)"
  using nth_del [OF assms] by (auto simp: bal_def owed_def tasks_of_def drop_flight_def b2i_def perf_wf_def subset_iff)

lemma drop_wait_parts:
  assumes "k < length (sy_waits s)"
  shows "bal c (drop_wait k s) = bal c s + b2i (counted_wait c (sy_waits s ! k))"
    and "tasks_of s = add_mset (tk_id (fst (sy_waits s ! k))) (tasks_of (drop_wait k s))"
    and "perf_wf c t0 s \<Longrightarrow> perf_wf c t0 (drop_wait k s)" and "inside (sy_target (drop_wait k s)) = inside (sy_target s)"
  using nth_del [OF assms] by (auto simp: bal_def owed_def tasks_of_def drop_wait_def b2i_def perf_wf_def subset_iff)

lemma get_task_parts:
  assumes "get_task s = Done (tk, s')"
  shows "bal c s' = bal c s" and "tasks_of s = add_mset (tk_id tk) (tasks_of s')" and "perf_wf c t0 s' = perf_wf c t0 s"
    and "sy_channel s' = sy_channel s"
proof -
  obtain tks where "task_list (sy_target s) = tk # tks" "s' = s\<lparr> sy_target := (sy_target s)\<lparr> task_list := tks \<rparr> \<rparr>"
    using assms by (auto simp: get_task_def split: list.splits)
  then show "bal c s' = bal c s" and "tasks_of s = add_mset (tk_id tk) (tasks_of s')" and "perf_wf c t0 s' = perf_wf c t0 s"
    and "sy_channel s' = sy_channel s"
    by (simp_all add: bal_def owed_def tasks_of_def perf_wf_def inside_def)
qed

lemma reset_target_parts:
  assumes "reset_target c e s = Done s'" and "perf_wf c t0 s"
  shows "bal c s' = bal c s \<and> tasks_of s' = tasks_of s \<and> perf_wf c t0 s'"
proof -
  define u where "u = s\<lparr> sy_target := (sy_target s)\<lparr> reset_timer := False \<rparr> \<rparr>"
  obtain tk s1 where g: "get_task u = Done (tk, s1)" and
    r: "s' = lose tk False (fail_run c (- 1) s1) \<or> s' = fly tk Cb_reset s1"
    using assms(1) by (auto simp: reset_target_def run_bind_Done on_channel_Done u_def split: if_splits)
  have "bal c u = bal c s" "tasks_of u = tasks_of s" "perf_wf c t0 u" using assms(2) by (simp_all add: u_def perf_parts perf_wf_timer)
  then show ?thesis using r get_task_parts(1-3) [OF g] by (auto simp: perf_parts perf_shape b2i_def)
qed

lemma perf_exec_parts:
  assumes "perf_exec c ev s = Done s'" and "perf_wf c t0 s"
  shows "bal c s' = bal c s \<and> tasks_of s' = tasks_of s \<and> perf_wf c t0 s'"
proof (cases ev)
  case (E_done k success iovs md r e)
  show ?thesis
  proof (cases "k < length (sy_flights s)")
    case True
    let ?f = "sy_flights s ! k"
    have "?f \<in> set (sy_flights s)" using True by simp
    then have f: "snd ?f = Cb_get_buf \<longrightarrow> g_zcopy c" "snd ?f \<noteq> Cb_reset \<longrightarrow> inside (sy_target s) (fst ?f)"
      using assms(2) by (auto simp: perf_wf_def)
    have d: "flight_done c success iovs md r e ?f (drop_flight k s) = Done s'"
      using assms(1) E_done True by (simp add: drop_flight_def)
    note p = drop_flight_parts [OF True]
    show ?thesis
      using flight_done_parts [OF d f(1)] flight_done_wf [OF d] p(1,2) p(3) [OF assms(2)] p(4) f(2) by simp
  qed (use E_done assms in simp)
next
  case (E_retry k e)
  show ?thesis
  proof (cases "k < length (sy_waits s)")
    case True
    let ?w = "sy_waits s ! k"
    have "?w \<in> set (sy_waits s)" using True by simp
    then have w: "inside (sy_target s) (fst ?w)" "snd ?w = Retry_prep \<longrightarrow> g_zcopy c"
      using assms(2) by (auto simp: perf_wf_def)
    have d: "wait_done c e ?w (drop_wait k s) = Done s'"
      using assms(1) E_retry True by (simp add: drop_wait_def)
    note p = drop_wait_parts [OF True]
    show ?thesis
      using wait_done_parts [OF d] wait_done_wf [OF d] p(1,2) p(3) [OF assms(2)] p(4) w by simp
  qed (use E_retry assms in simp)
qed (use assms reset_target_parts in \<open>auto simp: perf_parts perf_shape split: if_splits\<close>)

section \<open>Runs\<close>

lemma submit_io_parts:
  assumes "submit_io c res s = Done s'" and "perf_wf c t0 s"
  shows "bal c s' = bal c s \<and> tasks_of s' = tasks_of s \<and> perf_wf c t0 s'"
proof -
  let ?keep = "\<lambda>u. bal c u = bal c s \<and> tasks_of u = tasks_of s \<and> perf_wf c t0 u"
  show ?thesis
  proof (rule run_fold_inv [OF _ _ assms(1) [unfolded submit_io_def], where keep = ?keep])
    fix x u u'
    assume u: "?keep u" and f: "(\<lambda>(r, e) s. run_bind (get_task s) (\<lambda>(tk, s1). submit_single c r e tk s1)) x u = Done u'"
    obtain r e tk u1 where g: "get_task u = Done (tk, u1)" and b: "submit_single c r e tk u1 = Done u'"
      using f by (cases x) (auto simp: run_bind_Done)
    show "?keep u'" using u get_task_parts(1-3) [OF g] submit_single_parts [OF b] submit_single_wf [OF b] by simp
  qed (use assms(2) in simp)
qed

lemma perf_run_parts:
  assumes "perf_run c res evs t = Done s" and "current_queue_depth t = 0" and "offset_in_ios t < size_in_ios t"
  shows "bal c s = 0 \<and> tasks_of s = image_mset tk_id (mset (task_list t)) \<and> perf_wf c t s"
proof -
  define u0 where "u0 = (perf_start t)\<lparr> sy_channel := True, sy_target := t\<lparr> run_timer := True, reset_timer := g_reset c \<rparr> \<rparr>"
  obtain u where "submit_io c res u0 = Done u" and evs: "run_fold (perf_exec c) evs u = Done s"
    using assms(1) by (auto simp: perf_run_def run_bind_Done submit_on_core_def u0_def perf_start_def)
  moreover have "bal c u0 = 0" "tasks_of u0 = image_mset tk_id (mset (task_list t))" "perf_wf c t u0"
    using assms(2,3) by (simp_all add: u0_def perf_start_def bal_def owed_def tasks_of_def perf_wf_def)
  ultimately have u: "bal c u = 0 \<and> tasks_of u = image_mset tk_id (mset (task_list t)) \<and> perf_wf c t u"
    using submit_io_parts by metis
  show ?thesis
    by (rule run_fold_inv [OF _ _ evs, where keep = "\<lambda>u. bal c u = 0 \<and> tasks_of u = image_mset tk_id (mset (task_list t)) \<and> perf_wf c t u"])
      (use u perf_exec_parts in auto)
qed

end
