(* ===== verification/Bdev_Perf_Ends.thy ===== *)
theory Bdev_Perf_Ends
  imports Bdev_Perf_Correct
begin

text \<open>
  When the benchmark ends: a run whose device accepts everything ends exactly once, with all of
  its tasks given back; a run that has forgotten a task that was counted does not end anymore.
\<close>

section \<open>A forgotten task\<close>

text \<open>Steps that send no end event and forget no task that was forgotten before.\<close>

definition grows :: "perf_sys \<Rightarrow> perf_sys \<Rightarrow> bool" where
  "grows s s' \<longleftrightarrow> sy_ends s' = sy_ends s \<and> set (sy_lost s) \<subseteq> set (sy_lost s')"

lemma grows_trans: "grows s u \<Longrightarrow> grows u s' \<Longrightarrow> grows s s'"
  by (auto simp: grows_def)

lemma grows_fields [simp]:
  "grows s s" "grows s (end_target c s)" "grows s (fail_run c rc s)" "grows s (lose tk b s)" "grows s (fly tk cb s)"
  "grows s (queue_io_wait tk r s)" "grows s (add_depth d s)" "grows s (put_task tk s)" "grows s (count_io b s)"
  "grows s (drop_flight k s)" "grows s (drop_wait k s)" "grows s (s\<lparr> sy_target := t \<rparr>)"
  by (auto simp: grows_def end_target_def fail_run_def lose_def fly_def queue_io_wait_def add_depth_def put_task_def
      count_io_def drop_flight_def drop_wait_def Let_def)

lemma grows_after: "grows s u \<Longrightarrow> grows s (fail_run c rc u)" "grows s u \<Longrightarrow> grows s (lose tk b u)"
  "grows s u \<Longrightarrow> grows s (add_depth d u)" "grows s u \<Longrightarrow> grows s (fly tk cb u)"
  by (rule grows_trans, assumption, simp)+

lemma submitted_grows: "submitted c rc tk cb s = Done s' \<Longrightarrow> grows s s'"
  by (auto simp: submitted_def grows_after split: if_splits)

lemma submit_task_grows: "submit_task c e tk s = Done s' \<Longrightarrow> grows s s'"
  by (auto simp: submit_task_def Let_def on_channel_Done submitted_grows split: io_kind.splits if_splits)

lemma prep_grows: "prep_zcopy_write_task e tk s = Done s' \<Longrightarrow> grows s s'"
  by (auto simp: prep_zcopy_write_task_def on_channel_Done grows_after split: if_splits)

lemma read_grows: "verify_submit_read c e tk s = Done s' \<Longrightarrow> grows s s'"
  by (auto simp: verify_submit_read_def on_channel_Done grows_after split: if_splits)

lemma submit_write_grows: "submit_write c e tk s = Done s' \<Longrightarrow> grows s s'"
  by (auto simp: submit_write_def submit_task_grows prep_grows split: if_splits)

lemma submit_single_grows: "submit_single c r e tk s = Done s' \<Longrightarrow> grows s s'"
  by (erule submit_single_cases) (auto intro: grows_trans [OF grows_fields(12)] submit_write_grows submit_task_grows)

lemma reset_target_grows:
  assumes "reset_target c e s = Done s'"
  shows "grows s s'"
  using assms by (auto simp: reset_target_def run_bind_Done on_channel_Done get_task_def grows_after
      split: list.splits if_splits intro: grows_trans [OF grows_fields(12)])

definition forgot :: "perf_sys \<Rightarrow> bool" where
  "forgot s \<longleftrightarrow> (\<exists>tk. (tk, True) \<in> set (sy_lost s))"

lemma grows_forgot: "grows s s' \<Longrightarrow> forgot s \<Longrightarrow> forgot s'"
  by (auto simp: grows_def forgot_def)

lemma forgot_depth:
  assumes "forgot s" and "bal c s = 0"
  shows "current_queue_depth (sy_target s) \<noteq> 0"
proof -
  obtain tk where "(tk, True) \<in> set (filter snd (sy_lost s))" using assms(1) by (auto simp: forgot_def)
  then have "0 < length (filter snd (sy_lost s))" by (cases "filter snd (sy_lost s)") auto
  then have "0 < owed c s" by (simp only: owed_def of_nat_0_less_iff)
  then show ?thesis using assms(2) by (simp add: bal_def)
qed

lemma complete_grows:
  assumes "bdevperf_complete c r e success iovs md tk s = Done s'" and "bal c s = 1" and "forgot s"
  shows "grows s s'"
proof -
  obtain s1 where c1: "check_io c success iovs md tk s = Done s1"
    and r: "(if \<not> is_draining (sy_target (count_io success s1)) then submit_single c r e tk (count_io success s1)
       else release_target (put_task tk (count_io success s1))) = Done s'"
    using assms(1) by (auto simp: bdevperf_complete_def run_bind_Done Let_def)
  define s2 where "s2 = count_io success s1"
  have "grows s s1" "bal c s1 = 1" using check_io_cases [OF c1] assms(2) by (auto simp: perf_parts)
  then have g: "grows s s2" "bal c s2 = 0" by (auto simp: s2_def perf_parts intro: grows_trans)
  have "forgot (put_task tk s2)" using assms(3) g(1) grows_forgot grows_fields(8) grows_trans by blast
  then have "current_queue_depth (sy_target (put_task tk s2)) \<noteq> 0" using g(2) by (intro forgot_depth) (simp_all add: perf_parts)
  then have "s' = put_task tk s2 \<or> submit_single c r e tk s2 = Done s'"
    using r by (auto simp: release_target_def s2_def split: if_splits)
  then show ?thesis using g(1) submit_single_grows grows_fields(8) grows_trans by blast
qed

lemma flight_done_grows:
  assumes "flight_done c success iovs md r e f s = Done s'" and "bal c s = b2i (counted_flight f)" and "forgot s"
  shows "grows s s'"
proof (cases f)
  case (Pair tk cb)
  show ?thesis
  proof (cases cb)
    case Cb_reset
    have "grows s (put_task tk u)" if "grows s u" for u using that grows_fields(8) grows_trans by blast
    then show ?thesis using assms Cb_reset
      by (auto simp: flight_done_def Pair reset_cb_def Let_def intro: grows_trans [OF _ grows_fields(12)])
  next
    case Cb_get_buf
    then show ?thesis using assms
      by (auto simp: flight_done_def Pair zcopy_get_buf_complete_def Let_def run_bind_Done grows_after
          split: if_splits elim!: submit_task_grows)
  qed (use assms in \<open>auto simp: flight_done_def Pair verify_write_complete_def zcopy_populate_complete_def b2i_def
      counted_flight_def split: if_splits elim: complete_grows read_grows\<close>)
qed

lemma wait_done_grows: "wait_done c e w s = Done s' \<Longrightarrow> grows s s'"
  by (cases w; cases "snd w") (auto simp: wait_done_def submit_task_grows read_grows prep_grows)

lemma perf_exec_grows:
  assumes "perf_exec c ev s = Done s'" and "bal c s = 0" and "forgot s"
  shows "grows s s'"
proof (cases ev)
  case (E_done k success iovs md r e)
  show ?thesis
  proof (cases "k < length (sy_flights s)")
    case True
    have "flight_done c success iovs md r e (sy_flights s ! k) (drop_flight k s) = Done s'"
      using assms(1) E_done True by (simp add: drop_flight_def)
    moreover have "bal c (drop_flight k s) = b2i (counted_flight (sy_flights s ! k))"
      using drop_flight_parts(1) [OF True] assms(2) by simp
    moreover have "forgot (drop_flight k s)" using assms(3) by (simp add: forgot_def drop_flight_def)
    ultimately show ?thesis using flight_done_grows grows_fields(10) grows_trans by blast
  qed (use E_done assms in simp)
next
  case (E_retry k e)
  show ?thesis
  proof (cases "k < length (sy_waits s)")
    case True
    then have "wait_done c e (sy_waits s ! k) (drop_wait k s) = Done s'"
      using assms(1) E_retry by (simp add: drop_wait_def)
    then show ?thesis using wait_done_grows grows_fields(11) grows_trans by blast
  qed (use E_retry assms in simp)
qed (use assms reset_target_grows in \<open>auto split: if_splits\<close>)

lemma perf_run_append: "perf_run c res (evs @ evs') t = run_bind (perf_run c res evs t) (run_fold (perf_exec c) evs')"
  by (simp add: perf_run_def run_fold_append [abs_def] run_bind_assoc)

lemma forgot_never_ends:
  assumes "perf_run c res evs t = Done s" and "current_queue_depth t = 0" and "offset_in_ios t < size_in_ios t"
    and "forgot s" and "perf_run c res (evs @ evs') t = Done s'"
  shows "sy_ends s' = sy_ends s \<and> forgot s'"
proof -
  let ?keep = "\<lambda>u. bal c u = 0 \<and> perf_wf c t u \<and> grows s u"
  have r: "run_fold (perf_exec c) evs' s = Done s'" using assms(1,5) by (simp add: perf_run_append)
  have "?keep s'"
  proof (rule run_fold_inv [OF _ _ r, where keep = ?keep])
    fix ev u u' assume "?keep u" "perf_exec c ev u = Done u'"
    then show "?keep u'"
      using perf_exec_parts perf_exec_grows grows_forgot assms(4) grows_trans by metis
  qed (use perf_run_parts [OF assms(1-3)] in simp)
  then show ?thesis using assms(4) grows_forgot by (auto simp: grows_def)
qed

section \<open>A device that accepts everything\<close>

definition calm_env :: "perf_env \<Rightarrow> bool" where
  "calm_env e \<longleftrightarrow> e_dif e = 0 \<and> e_submit e = 0 \<and> e_zcopy_end e = 0"

definition plain :: "perf_cfg \<Rightarrow> bool" where
  "plain c \<longleftrightarrow> \<not> g_verify c \<and> \<not> g_reset c"

text \<open>One more request at the device, and nothing else.\<close>

definition adds :: "perf_cb set \<Rightarrow> perf_sys \<Rightarrow> perf_sys \<Rightarrow> bool" where
  "adds cbs s s' \<longleftrightarrow> (\<exists>tk cb. cb \<in> cbs \<and> sy_flights s' = sy_flights s @ [(tk, cb)]) \<and>
     sy_waits s' = sy_waits s \<and> sy_lost s' = sy_lost s \<and> sy_ends s' = sy_ends s \<and> sy_channel s' = sy_channel s \<and>
     is_draining (sy_target s') = is_draining (sy_target s)"

abbreviation "calm_cbs \<equiv> {Cb_complete, Cb_populate, Cb_get_buf}"
abbreviation "ends_soon \<equiv> {Cb_complete, Cb_populate}"

lemma adds_mono: "adds A s s' \<Longrightarrow> A \<subseteq> B \<Longrightarrow> adds B s s'"
  by (auto simp: adds_def)

lemma adds_fly [simp]: "cb \<in> cbs \<Longrightarrow> adds cbs s (fly tk cb s)" "cb \<in> cbs \<Longrightarrow> adds cbs s (add_depth d (fly tk cb s))"
  by (simp_all add: adds_def fly_def add_depth_def)

lemma submit_task_calm:
  assumes "calm_env e" and "plain c" and "sy_channel s" and "tk_kind tk \<noteq> K_INVALID"
  shows "\<exists>s'. submit_task c e tk s = Done s' \<and> adds (if tk_kind tk = K_READ then ends_soon else {Cb_complete}) s s'"
  using assms by (cases "tk_kind tk")
    (simp_all add: submit_task_def Let_def on_channel_def submitted_def calm_env_def plain_def ENOMEM_def)

lemma submit_write_calm:
  assumes "calm_env e" and "plain c" and "sy_channel s"
  shows "\<exists>s'. submit_write c e tk s = Done s' \<and> adds calm_cbs s s'"
proof (cases "g_zcopy c")
  case True
  then show ?thesis using assms
    by (simp add: submit_write_def prep_zcopy_write_task_def on_channel_def calm_env_def)
next
  case False
  then show ?thesis using submit_task_calm [OF assms, of "tk\<lparr> tk_kind := K_WRITE \<rparr>"] adds_mono
    by (force simp: submit_write_def)
qed

lemma submit_single_calm:
  assumes "calm_env e" and "plain c" and "sy_channel s" and "offset_in_ios (sy_target s) < size_in_ios (sy_target s)"
  shows "\<exists>s'. submit_single c r e tk s = Done s' \<and> adds calm_cbs s s'"
proof -
  obtain ofs t where n: "next_offset c r (sy_target s) = Done (ofs, t)"
    using assms(4) by (cases "g_is_random c") (auto simp: next_offset_def)
  define s1 where "s1 = s\<lparr> sy_target := t \<rparr>"
  have up: "adds A s s'" if "adds A s1 s'" for A s'
    using that next_offset_fields(3) [OF n] by (simp add: adds_def s1_def)
  have ch: "sy_channel s1" using assms(3) by (simp add: s1_def)
  define tk1 where "tk1 = tk\<lparr> offset_blocks := ofs * io_size_blocks t \<rparr>"
  have run: "submit_single c r e tk s =
    (if g_flush c then submit_task c e (tk1\<lparr> tk_kind := K_FLUSH \<rparr>) s1
     else if g_unmap c then submit_task c e (tk1\<lparr> tk_kind := K_UNMAP \<rparr>) s1
     else if g_write_zeroes c then submit_task c e (tk1\<lparr> tk_kind := K_WRITE_ZEROES \<rparr>) s1
     else if g_rw_percentage c = 100 \<or> g_rw_percentage c \<noteq> 0 \<and> int (r_mix r mod 100) < g_rw_percentage c
     then submit_task c e (tk1\<lparr> tk_kind := K_READ \<rparr>) s1
     else submit_write c e tk1 s1)"
    using assms(2) n by (simp add: submit_single_def plain_def Let_def s1_def tk1_def)
  have kind: "\<exists>s'. submit_task c e (tk1\<lparr> tk_kind := k \<rparr>) s1 = Done s' \<and> adds calm_cbs s s'" if "k \<noteq> K_INVALID" for k
  proof -
    have "\<exists>s'. submit_task c e (tk1\<lparr> tk_kind := k \<rparr>) s1 = Done s' \<and> adds (if k = K_READ then ends_soon else {Cb_complete}) s1 s'"
      using submit_task_calm [OF assms(1,2) ch, of "tk1\<lparr> tk_kind := k \<rparr>"] that by simp
    then obtain s' where s': "submit_task c e (tk1\<lparr> tk_kind := k \<rparr>) s1 = Done s'" and
      a: "adds (if k = K_READ then ends_soon else {Cb_complete}) s1 s'" by blast
    have "adds calm_cbs s1 s'" by (rule adds_mono [OF a]) simp
    then show ?thesis using s' up by blast
  qed
  show ?thesis unfolding run using kind submit_write_calm [OF assms(1,2) ch] up by simp metis
qed

text \<open>The end of a request while draining: its task is given back.\<close>

definition released :: "perf_sys \<Rightarrow> perf_sys \<Rightarrow> bool" where
  "released s s' \<longleftrightarrow> sy_flights s' = sy_flights s \<and> sy_waits s' = sy_waits s \<and> sy_lost s' = sy_lost s \<and> is_draining (sy_target s') \<and>
     (if sy_flights s = [] then \<not> sy_channel s' \<and> sy_ends s' = sy_ends s + 1
      else sy_channel s' = sy_channel s \<and> sy_ends s' = sy_ends s)"

text \<open>A system without waiting or forgotten tasks whose depth counts its requests.\<close>

definition calm :: "perf_cfg \<Rightarrow> io_target \<Rightarrow> perf_sys \<Rightarrow> bool" where
  "calm c t0 s \<longleftrightarrow> perf_wf c t0 s \<and> sy_waits s = [] \<and> sy_lost s = [] \<and> (\<forall>f \<in> set (sy_flights s). snd f \<in> calm_cbs)"

lemma calm_depth:
  assumes "calm c t0 s" and "bal c s = d"
  shows "current_queue_depth (sy_target s) = int (length (sy_flights s)) + d"
proof -
  have "filter counted_flight (sy_flights s) = sy_flights s"
    using assms(1) by (auto simp: calm_def counted_flight_def filter_id_conv)
  then show ?thesis using assms by (simp add: calm_def bal_def owed_def)
qed

lemma calm_fail [simp]: "calm c t0 (fail_run c rc s) = calm c t0 s" "calm c t0 (count_io b s) = calm c t0 s"
  "calm c t0 (put_task tk s) = calm c t0 s"
  by (simp_all add: calm_def perf_shape) (simp_all add: fail_run_def end_target_def count_io_def put_task_def Let_def)

lemma complete_calm:
  assumes "calm_env e" and "plain c" and "sy_channel s" and "calm c t0 s" and "bal c s = 1"
  shows "\<exists>s'. bdevperf_complete c r e success iovs md tk s = Done s' \<and>
    (\<not> is_draining (sy_target s) \<and> adds calm_cbs s s' \<or> released s s')"
proof -
  define s1 where "s1 = (if \<not> success \<and> \<not> g_continue_on_failure c then fail_run c (- 1) s else s)"
  have c1: "check_io c success iovs md tk s = Done s1" and s1: "s1 = s \<or> s1 = fail_run c (- 1) s"
    using assms(2) by (simp_all add: check_io_def plain_def Let_def s1_def)
  define s2 where "s2 = count_io success s1"
  have same: "sy_flights s2 = sy_flights s" "sy_waits s2 = sy_waits s" "sy_lost s2 = sy_lost s" "sy_ends s2 = sy_ends s"
    "sy_channel s2 = sy_channel s" "is_draining (sy_target s) \<longrightarrow> is_draining (sy_target s2)"
    using s1 by (auto simp: s2_def count_io_def add_depth_def fail_run_def end_target_def Let_def)
  have c2: "calm c t0 s2" "bal c s2 = 0" using s1 assms(4,5) by (auto simp: s2_def perf_parts)
  have run: "bdevperf_complete c r e success iovs md tk s =
    (if \<not> is_draining (sy_target s2) then submit_single c r e tk s2 else release_target (put_task tk s2))"
    using c1 by (simp add: bdevperf_complete_def s2_def Let_def)
  show ?thesis
  proof (cases "is_draining (sy_target s2)")
    case True
    have "current_queue_depth (sy_target (put_task tk s2)) = int (length (sy_flights s2))"
      using calm_depth [of c t0 "put_task tk s2" 0] c2 by (simp add: perf_parts) (simp add: put_task_def)
    then show ?thesis
      using True assms(3) run same by (auto simp: release_target_def released_def put_task_def)
  next
    case False
    have "offset_in_ios (sy_target s2) < size_in_ios (sy_target s2)" using c2(1) by (simp add: calm_def perf_wf_def)
    then obtain s' where "submit_single c r e tk s2 = Done s'" "adds calm_cbs s2 s'"
      using submit_single_calm [OF assms(1,2), of s2] assms(3) same(5) by auto
    moreover have "is_draining (sy_target s2) = is_draining (sy_target s)" using False same(6) by simp
    ultimately show ?thesis using False run same by (simp add: adds_def)
  qed
qed

lemma flight_calm:
  assumes "calm_env e" and "plain c" and "sy_channel s" and "calm c t0 s" and "bal c s = 1"
    and "snd f \<in> calm_cbs" and "snd f = Cb_get_buf \<longrightarrow> success"
  shows "\<exists>s'. flight_done c success iovs md r e f s = Done s' \<and>
    (\<not> is_draining (sy_target s) \<and> adds calm_cbs s s' \<or> snd f \<noteq> Cb_complete \<and> adds {Cb_complete} s s' \<or> released s s')"
proof (cases f)
  case (Pair tk cb)
  have fin: ?thesis if "flight_done c success iovs md r e f s = bdevperf_complete c r e b vs m tk s" for b vs m
    using complete_calm [OF assms(1-5), of r b vs m tk] that by auto
  consider "cb = Cb_complete" | "cb = Cb_populate" "\<not> success" | "cb = Cb_populate" success | "cb = Cb_get_buf"
    using assms(6) Pair by auto
  then show ?thesis
  proof cases
    case 1
    then show ?thesis by (intro fin) (simp add: flight_done_def Pair)
  next
    case 2
    then show ?thesis by (intro fin) (simp add: flight_done_def Pair zcopy_populate_complete_def)
  next
    case 3
    then show ?thesis using assms(1) by (simp add: flight_done_def Pair zcopy_populate_complete_def calm_env_def)
  next
    case 4
    then have "flight_done c success iovs md r e f s = submit_task c e (tk\<lparr> tk_kind := K_WRITE \<rparr>) s"
      using assms(2,7) by (simp add: flight_done_def Pair zcopy_get_buf_complete_def plain_def Let_def)
    then show ?thesis using submit_task_calm [OF assms(1-3), of "tk\<lparr> tk_kind := K_WRITE \<rparr>"] 4 Pair by auto
  qed
qed

section \<open>The run ends\<close>

definition flight_weight :: "perf_task \<times> perf_cb \<Rightarrow> nat" where
  "flight_weight f = (if snd f = Cb_complete then 1 else 2)"

definition perf_weight :: "perf_sys \<Rightarrow> nat" where
  "perf_weight s = sum_list (map flight_weight (sy_flights s))"

lemma weight_del: "k < length (sy_flights s) \<Longrightarrow>
    perf_weight s = perf_weight (drop_flight k s) + flight_weight (sy_flights s ! k)"
proof -
  assume "k < length (sy_flights s)"
  from nth_del(1) [OF this] have "sum_mset (image_mset flight_weight (mset (sy_flights s))) =
    flight_weight (sy_flights s ! k) + sum_mset (image_mset flight_weight (mset (del k (sy_flights s))))" by simp
  then show ?thesis by (simp add: perf_weight_def drop_flight_def flip: sum_mset_sum_list mset_map)
qed

lemma weight_le: "perf_weight s \<le> 2 * length (sy_flights s)"
proof -
  have "sum_list (map flight_weight fs) \<le> 2 * length fs" for fs by (induction fs) (auto simp: flight_weight_def)
  then show ?thesis by (simp add: perf_weight_def)
qed

text \<open>A calm system is either running, with its channel and without an end, or has ended once.\<close>

definition running :: "perf_cfg \<Rightarrow> io_target \<Rightarrow> perf_sys \<Rightarrow> bool" where
  "running c t0 s \<longleftrightarrow> calm c t0 s \<and> bal c s = 0 \<and>
     (if sy_flights s = [] then \<not> sy_channel s \<and> sy_ends s = 1 \<and> is_draining (sy_target s) else sy_channel s \<and> sy_ends s = 0)"

definition calm_event :: "perf_cfg \<Rightarrow> perf_event \<Rightarrow> bool" where
  "calm_event c ev = (case ev of
     E_done k success iovs md r e \<Rightarrow> calm_env e \<and> (g_zcopy c \<longrightarrow> success)
   | E_retry k e \<Rightarrow> True | E_end_timer \<Rightarrow> True | E_reset_timer e \<Rightarrow> False | E_stop \<Rightarrow> True)"

lemma done_calm:
  assumes "running c t0 s" and "plain c" and "calm_env e" and "g_zcopy c \<longrightarrow> success" and "k < length (sy_flights s)"
  shows "\<exists>s'. perf_exec c (E_done k success iovs md r e) s = Done s' \<and> running c t0 s' \<and>
    length (sy_flights s') \<le> length (sy_flights s) \<and>
    (is_draining (sy_target s) \<longrightarrow> is_draining (sy_target s') \<and> perf_weight s' < perf_weight s)"
proof -
  define f where "f = sy_flights s ! k"
  define u where "u = drop_flight k s"
  have f: "f \<in> set (sy_flights s)" using assms(5) by (simp add: f_def)
  then have cb: "snd f \<in> calm_cbs" "counted_flight f" "snd f = Cb_get_buf \<longrightarrow> success"
    using assms(1,4) by (auto simp: running_def calm_def counted_flight_def perf_wf_def)
  note d = drop_flight_parts(1) [OF assms(5), of c] drop_flight_parts(3) [OF assms(5), of c t0]
    nth_del(2,4) [OF assms(5)] weight_del [OF assms(5)]
  have ne: "sy_flights s \<noteq> []" using assms(5) by auto
  have u: "sy_channel u" "calm c t0 u" "bal c u = 1" "sy_ends u = 0" "is_draining (sy_target u) = is_draining (sy_target s)"
    using assms(1) d(1,2,3) cb(2) ne by (auto simp: running_def calm_def u_def f_def drop_flight_def b2i_def)
  have len: "Suc (length (sy_flights u)) = length (sy_flights s)" "perf_weight s = perf_weight u + flight_weight f"
    using d(4) assms(5) d(5) by (simp_all add: u_def drop_flight_def f_def)
  obtain s' where s': "flight_done c success iovs md r e f u = Done s'" and
    cs: "\<not> is_draining (sy_target u) \<and> adds calm_cbs u s' \<or> snd f \<noteq> Cb_complete \<and> adds {Cb_complete} u s' \<or> released u s'"
    using flight_calm [OF assms(3,2) u(1-3) cb(1,3)] by blast
  have run: "perf_exec c (E_done k success iovs md r e) s = Done s'"
    using s' assms(5) by (simp add: u_def f_def drop_flight_def)
  have "bal c s' = 0 \<and> perf_wf c t0 s'"
    using perf_exec_parts [OF run, of t0] assms(1) by (simp add: running_def calm_def)
  moreover have "running c t0 s' \<and> length (sy_flights s') \<le> length (sy_flights s) \<and>
    (is_draining (sy_target s) \<longrightarrow> is_draining (sy_target s') \<and> perf_weight s' < perf_weight s)"
    if "bal c s' = 0 \<and> perf_wf c t0 s'"
    using cs
  proof (elim disjE conjE)
    assume "adds calm_cbs u s'" "\<not> is_draining (sy_target u)"
    then show ?thesis using that u len by (auto simp: adds_def running_def calm_def)
  next
    assume "adds {Cb_complete} u s'" "snd f \<noteq> Cb_complete"
    then show ?thesis using that u len by (auto simp: adds_def running_def calm_def perf_weight_def flight_weight_def)
  next
    assume "released u s'"
    then show ?thesis using that u len
      by (auto simp: released_def running_def calm_def perf_weight_def flight_weight_def)
  qed
  ultimately show ?thesis using run by blast
qed

lemma exec_calm:
  assumes "running c t0 s" and "plain c" and "calm_event c ev"
  shows "\<exists>s'. perf_exec c ev s = Done s' \<and> running c t0 s' \<and> length (sy_flights s') \<le> length (sy_flights s) \<and>
    (is_draining (sy_target s) \<longrightarrow> is_draining (sy_target s') \<and> perf_weight s' \<le> perf_weight s)"
proof -
  have e: "running c t0 (end_target c s)" "sy_flights (end_target c s) = sy_flights s" "is_draining (sy_target (end_target c s))"
    using assms(1) by (simp_all add: running_def calm_def perf_shape perf_parts) (simp_all add: end_target_def)
  show ?thesis
  proof (cases ev)
    case (E_done k success iovs md r en)
    then show ?thesis
    proof (cases "k < length (sy_flights s)")
      case True
      then show ?thesis
        using done_calm [OF assms(1,2) _ _ True, of en success iovs md r] assms(3) E_done
        by (fastforce simp: calm_event_def)
    qed (use assms E_done in auto)
  next
    case (E_retry k en)
    then show ?thesis using assms(1) by (simp add: running_def calm_def)
  qed (use assms(3) e assms(1) in \<open>auto simp: calm_event_def perf_weight_def\<close>)
qed

lemma fold_calm:
  assumes "running c t0 s" and "plain c" and "list_all (calm_event c) evs"
  shows "\<exists>s'. run_fold (perf_exec c) evs s = Done s' \<and> running c t0 s' \<and> length (sy_flights s') \<le> length (sy_flights s) \<and>
    (is_draining (sy_target s) \<longrightarrow> is_draining (sy_target s') \<and> perf_weight s' \<le> perf_weight s)"
  using assms
proof (induction evs arbitrary: s)
  case (Cons ev evs)
  obtain u where u: "perf_exec c ev s = Done u" "running c t0 u" "length (sy_flights u) \<le> length (sy_flights s)"
    "is_draining (sy_target s) \<longrightarrow> is_draining (sy_target u) \<and> perf_weight u \<le> perf_weight s"
    using exec_calm [OF Cons.prems(1,2), of ev] Cons.prems(3) by auto
  obtain s' where "run_fold (perf_exec c) evs u = Done s'" "running c t0 s'" "length (sy_flights s') \<le> length (sy_flights u)"
    "is_draining (sy_target u) \<longrightarrow> is_draining (sy_target s') \<and> perf_weight s' \<le> perf_weight u"
    using Cons.IH [OF u(2) Cons.prems(2)] Cons.prems(3) by auto
  then show ?case using u by auto
qed simp

text \<open>Completions of the first request, one after the other, use up the weight.\<close>

definition first_done :: "perf_cfg \<Rightarrow> perf_event \<Rightarrow> bool" where
  "first_done c ev \<longleftrightarrow> calm_event c ev \<and> (\<exists>success iovs md r e. ev = E_done 0 success iovs md r e)"

lemma drain_calm:
  assumes "running c t0 s" and "plain c" and "list_all (first_done c) evs" and "is_draining (sy_target s)"
    and "perf_weight s \<le> length evs"
  shows "\<exists>s'. run_fold (perf_exec c) evs s = Done s' \<and> running c t0 s' \<and> sy_flights s' = []"
  using assms
proof (induction evs arbitrary: s)
  case Nil
  then show ?case by (cases "sy_flights s") (auto simp: perf_weight_def flight_weight_def split: if_splits)
next
  case (Cons ev evs)
  obtain success iovs md r e where ev: "ev = E_done 0 success iovs md r e" "calm_event c ev"
    using Cons.prems(3) by (auto simp: first_done_def)
  have "\<exists>u. perf_exec c ev s = Done u \<and> running c t0 u \<and> is_draining (sy_target u) \<and> perf_weight u \<le> length evs"
  proof (cases "sy_flights s")
    case Nil
    then show ?thesis using ev(1) Cons.prems(1,4) by (auto simp: perf_weight_def)
  next
    case (Cons f fs)
    then show ?thesis
      using done_calm [OF Cons.prems(1,2), of e success 0 iovs md r] ev Cons.prems(4,5) by (auto simp: calm_event_def)
  qed
  then obtain u where "perf_exec c ev s = Done u" "running c t0 u" "is_draining (sy_target u)" "perf_weight u \<le> length evs"
    by blast
  then show ?case using Cons.IH [of u] Cons.prems(2,3) by simp
qed

lemma submit_io_calm:
  assumes "plain c" and "list_all (\<lambda>(r, e). calm_env e) res" and "calm c t0 s" and "sy_channel s" and "sy_ends s = 0"
    and "length (sy_flights s) + length res \<le> size (tasks_of s)"
  shows "\<exists>s'. submit_io c res s = Done s' \<and> calm c t0 s' \<and> sy_channel s' \<and> sy_ends s' = 0 \<and>
    length (sy_flights s') = length (sy_flights s) + length res"
  using assms(2-)
proof (induction res arbitrary: s)
  case Nil
  then show ?case by (simp add: submit_io_def)
next
  case (Cons re res)
  obtain r e where re: "re = (r, e)" by (cases re)
  have "size (tasks_of s) = length (task_list (sy_target s)) + length (sy_flights s)"
    using Cons.prems(2) by (simp add: tasks_of_def calm_def)
  then obtain tk0 tks where "task_list (sy_target s) = tk0 # tks" using Cons.prems(5) by (cases "task_list (sy_target s)") auto
  then obtain tk u where g: "get_task s = Done (tk, u)" and u: "sy_flights u = sy_flights s" "sy_waits u = sy_waits s"
    "sy_lost u = sy_lost s" "sy_ends u = sy_ends s" by (simp add: get_task_def)
  note p = get_task_parts [OF g]
  have cu: "calm c t0 u" using Cons.prems(2) u p(3) [of c t0] by (simp add: calm_def)
  then have "offset_in_ios (sy_target u) < size_in_ios (sy_target u)" by (simp add: calm_def perf_wf_def)
  then obtain s1 where s1: "submit_single c r e tk u = Done s1" "adds calm_cbs u s1"
    using submit_single_calm [OF _ assms(1), of e u] Cons.prems(1,3) p(4) re by auto
  have w: "perf_wf c t0 s1" using submit_single_wf [OF s1(1)] cu by (simp add: calm_def)
  have "tasks_of s1 = tasks_of s" using submit_single_parts [OF s1(1)] p(2) by simp
  moreover have c1: "calm c t0 s1" "sy_channel s1" "sy_ends s1 = 0" "length (sy_flights s1) = Suc (length (sy_flights s))"
    using s1(2) w cu Cons.prems(3,4) u p(4) by (auto simp: calm_def adds_def)
  ultimately obtain s' where "submit_io c res s1 = Done s' \<and> calm c t0 s' \<and> sy_channel s' \<and> sy_ends s' = 0 \<and>
    length (sy_flights s') = length (sy_flights s1) + length res"
    using Cons.IH [OF _ c1(1-3)] Cons.prems(1,5) by auto
  then show ?case using g s1(1) c1(4) re by (simp add: submit_io_def)
qed

lemma start_calm:
  assumes "plain c" and "list_all (\<lambda>(r, e). calm_env e) res" and "length res \<le> length (task_list t)"
    and "res \<noteq> []" and "current_queue_depth t = 0" and "offset_in_ios t < size_in_ios t"
  shows "\<exists>s. submit_on_core c res (perf_start t) = Done s \<and> running c t s \<and> length (sy_flights s) = length res"
proof -
  define u where "u = (perf_start t)\<lparr> sy_channel := True, sy_target := t\<lparr> run_timer := True, reset_timer := g_reset c \<rparr> \<rparr>"
  have u: "calm c t u" "sy_channel u" "sy_ends u = 0" "sy_flights u = []" "size (tasks_of u) = length (task_list t)"
    using assms(6) by (simp_all add: u_def perf_start_def calm_def perf_wf_def tasks_of_def)
  then obtain s where s: "submit_io c res u = Done s" "calm c t s" "sy_channel s" "sy_ends s = 0" "length (sy_flights s) = length res"
    using submit_io_calm [OF assms(1,2) u(1-3)] assms(3) by auto
  have run: "submit_on_core c res (perf_start t) = Done s"
    using s(1) by (simp add: submit_on_core_def u_def perf_start_def)
  then have "perf_run c res [] t = Done s" by (simp add: perf_run_def)
  from perf_run_parts [OF this assms(5,6)] have "bal c s = 0" by simp
  moreover have "sy_flights s \<noteq> []" using s(5) assms(4) by auto
  ultimately show ?thesis using run s by (auto simp: running_def)
qed

text \<open>
  A run that neither verifies nor resets, on a device that accepts every request, ends: after
  the stop, two completions for every request of the queue leave nothing at the device, exactly one end
  event has been sent, the channel is given back and every task is free again.  Before the stop
  the device may complete requests in any order, and with errors too where zero copy is off.
\<close>

theorem perf_run_ends:
  assumes "plain c" and "list_all (\<lambda>(r, e). calm_env e) res" and "length res \<le> length (task_list t)" and "res \<noteq> []"
    and "current_queue_depth t = 0" and "offset_in_ios t < size_in_ios t"
    and "list_all (calm_event c) evs" and "list_all (first_done c) drain" and "2 * length res \<le> length drain"
  shows "\<exists>s. perf_run c res (evs @ E_stop # drain) t = Done s \<and> sy_ends s = 1 \<and> \<not> sy_channel s \<and>
    current_queue_depth (sy_target s) = 0 \<and> image_mset tk_id (mset (task_list (sy_target s))) = image_mset tk_id (mset (task_list t))"
proof -
  obtain u where u: "submit_on_core c res (perf_start t) = Done u" "running c t u" "length (sy_flights u) = length res"
    using start_calm [OF assms(1-6)] by blast
  obtain v where v: "run_fold (perf_exec c) evs u = Done v" "running c t v" "length (sy_flights v) \<le> length res"
    using fold_calm [OF u(2) assms(1,7)] u(3) by auto
  define w where "w = end_target c v"
  have w: "perf_exec c E_stop v = Done w" "is_draining (sy_target w)" "sy_flights w = sy_flights v"
    by (simp_all add: w_def end_target_def)
  have rw: "running c t w" using exec_calm [OF v(2) assms(1), of E_stop] w(1) by (auto simp: calm_event_def)
  have "perf_weight w \<le> length drain" using weight_le [of w] w(3) v(3) assms(9) by simp
  then obtain s where s: "run_fold (perf_exec c) drain w = Done s" "running c t s" "sy_flights s = []"
    using drain_calm [OF rw assms(1,8) w(2)] by auto
  have run: "perf_run c res (evs @ E_stop # drain) t = Done s"
    using u(1) v(1) w(1) s(1) by (simp add: perf_run_def run_fold_append)
  have "tasks_of s = image_mset tk_id (mset (task_list t))" using perf_run_parts [OF run assms(5,6)] by simp
  moreover have "current_queue_depth (sy_target s) = 0" using calm_depth [of c t s 0] s by (simp add: running_def)
  ultimately show ?thesis using run s by (auto simp: running_def calm_def tasks_of_def)
qed

section \<open>The promises of the benchmark\<close>

text \<open>
  C17: Whatever the device answers and in whatever order it completes requests, after every run
  of the benchmark on a target the queue depth is the number of requests at the device that are
  not resets, of waiting tasks that were counted and of forgotten tasks that were; every task of
  the pool is in exactly one place; and every request at the device lies inside of the device.
\<close>

theorem perf_run_invariant:
  assumes "perf_run c res evs t = Done s" and "current_queue_depth t = 0" and "offset_in_ios t < size_in_ios t"
  shows "current_queue_depth (sy_target s) = owed c s \<and>
    image_mset tk_id (mset (task_list (sy_target s))) + image_mset tk_id (mset (map fst (sy_flights s))) +
      image_mset tk_id (mset (map fst (sy_waits s))) + image_mset tk_id (mset (map fst (sy_lost s))) =
      image_mset tk_id (mset (task_list t)) \<and>
    (\<forall>f \<in> set (sy_flights s). snd f \<noteq> Cb_reset \<longrightarrow>
       offset_blocks (fst f) + io_size_blocks t \<le> size_in_ios t * io_size_blocks t)"
proof -
  note p = perf_run_parts [OF assms]
  have "(snd f \<noteq> Cb_reset \<longrightarrow> offset_blocks (fst f) + io_size_blocks t \<le> size_in_ios t * io_size_blocks t)"
    if "f \<in> set (sy_flights s)" for f
    using p that by (auto simp: perf_wf_def inside_def)
  moreover have "tasks_of s = image_mset tk_id (mset (task_list (sy_target s))) + image_mset tk_id (mset (map fst (sy_flights s))) +
      image_mset tk_id (mset (map fst (sy_waits s))) + image_mset tk_id (mset (map fst (sy_lost s)))"
    by (simp add: tasks_of_def)
  ultimately show ?thesis using p by (simp add: bal_def)
qed

definition demo_task :: "nat \<Rightarrow> perf_task" where
  "demo_task k = \<lparr> tk_id = k, offset_blocks = 0, tk_kind = K_INVALID, tk_buf = replicate 8 0, tk_md = None \<rparr>"

definition demo_target :: io_target where
  "demo_target = \<lparr> io_completed = 0, current_queue_depth = 0, size_in_ios = 4, offset_in_ios = 0, io_size_blocks = 2,
     dif_check = False, is_draining = False, run_timer = False, reset_timer = False,
     task_list = [demo_task 0, demo_task 1], tg_block_size = 4, tg_md_size = 0, tg_dif_disabled = True \<rparr>"

definition demo_cfg :: "int \<Rightarrow> perf_cfg" where
  "demo_cfg rw = \<lparr> g_rw_percentage = rw, g_is_random = False, g_verify = False, g_reset = False,
     g_continue_on_failure = False, g_unmap = False, g_write_zeroes = False, g_flush = False, g_zcopy = True, g_buf_size = 8 \<rparr>"

definition demo_rnd :: perf_rnd where "demo_rnd = \<lparr> r_offset = 0, r_seed = 0, r_mix = 0 \<rparr>"

definition env_of :: "int \<Rightarrow> perf_env" where "env_of e = \<lparr> e_dif = 0, e_submit = e, e_zcopy_end = 0 \<rparr>"

definition demo_done :: "bool \<Rightarrow> perf_event" where "demo_done success = E_done 0 success [] None demo_rnd (env_of 0)"

lemmas demo_defs = demo_task_def demo_target_def demo_cfg_def demo_rnd_def env_of_def demo_done_def

lemmas perf_code = perf_run_def perf_start_def submit_on_core_def submit_io_def get_task_def submit_single_def
  next_offset_def submit_write_def prep_zcopy_write_task_def submit_task_def submitted_def on_channel_def fly_def lose_def
  queue_io_wait_def add_depth_def fail_run_def end_target_def flight_done_def wait_done_def zcopy_get_buf_complete_def
  zcopy_populate_complete_def bdevperf_complete_def check_io_def count_io_def put_task_def release_target_def del_def
  verify_submit_read_def verify_write_complete_def counted_write_def ENOMEM_def

theorem perf_run_ends_witness:
  "\<exists>s. perf_run (demo_cfg 100) (replicate 2 (demo_rnd, env_of 0))
       ([E_done 1 True [] None demo_rnd (env_of 0)] @ E_stop # replicate 4 (demo_done True)) demo_target = Done s \<and> sy_ends s = 1"
proof -
  have "plain (demo_cfg 100)" "list_all (\<lambda>(r, e). calm_env e) (replicate 2 (demo_rnd, env_of 0))"
    "length (replicate 2 (demo_rnd, env_of 0)) \<le> length (task_list demo_target)" "replicate 2 (demo_rnd, env_of 0) \<noteq> []"
    "current_queue_depth demo_target = 0" "offset_in_ios demo_target < size_in_ios demo_target"
    "list_all (calm_event (demo_cfg 100)) [E_done 1 True [] None demo_rnd (env_of 0)]"
    "list_all (first_done (demo_cfg 100)) (replicate 4 (demo_done True))"
    by (auto simp: demo_defs plain_def calm_env_def calm_event_def first_done_def numeral_eq_Suc)
  from perf_run_ends [OF this(1-8)] show ?thesis by auto
qed

theorem perf_run_invariant_witness:
  "\<exists>s. perf_run (demo_cfg 100) [(demo_rnd, env_of 0)] [] demo_target = Done s \<and> current_queue_depth (sy_target s) = owed (demo_cfg 100) s"
proof -
  obtain s where s: "perf_run (demo_cfg 100) [(demo_rnd, env_of 0)] [] demo_target = Done s"
    by (simp add: perf_code demo_defs)
  have "current_queue_depth demo_target = 0" "offset_in_ios demo_target < size_in_ios demo_target" by (simp_all add: demo_target_def)
  from perf_run_invariant [OF s this] s show ?thesis by blast
qed

text \<open>
  C32: A task that was counted and then forgotten (a write with zero copy whose buffer is not
  given, a read for verification that is refused) is never counted back: whatever the device
  answers afterwards, no end event is sent anymore.
\<close>

theorem forgotten_task_never_ends:
  assumes "perf_run c res evs t = Done s" and "current_queue_depth t = 0" and "offset_in_ios t < size_in_ios t"
    and "(tk, True) \<in> set (sy_lost s)" and "perf_run c res (evs @ evs') t = Done s'"
  shows "sy_ends s' = sy_ends s \<and> current_queue_depth (sy_target s') \<noteq> 0"
proof -
  have "forgot s" using assms(4) by (auto simp: forgot_def)
  from forgot_never_ends [OF assms(1-3) this assms(5)] have e: "sy_ends s' = sy_ends s" "forgot s'" by simp_all
  have "bal c s' = 0" using perf_run_parts [OF assms(5) assms(2,3)] by simp
  then show ?thesis using forgot_depth [OF e(2)] e(1) by simp
qed

theorem forgotten_task_never_ends_witness:
  "\<exists>s'. perf_run (demo_cfg 0) [(demo_rnd, env_of 0)] ([demo_done False] @ [demo_done True, E_stop]) demo_target = Done s' \<and>
     sy_ends s' = 0 \<and> current_queue_depth (sy_target s') \<noteq> 0"
proof -
  obtain s tk where s: "perf_run (demo_cfg 0) [(demo_rnd, env_of 0)] [demo_done False] demo_target = Done s"
    "(tk, True) \<in> set (sy_lost s)" "sy_ends s = 0" by (simp add: perf_code demo_defs)
  obtain s' where s': "perf_run (demo_cfg 0) [(demo_rnd, env_of 0)] ([demo_done False] @ [demo_done True, E_stop]) demo_target = Done s'"
    by (simp add: perf_code demo_defs)
  have "current_queue_depth demo_target = 0" "offset_in_ios demo_target < size_in_ios demo_target" by (simp_all add: demo_target_def)
  from forgotten_task_never_ends [OF s(1) this s(2) s'] s(3) s' show ?thesis by auto
qed

section \<open>What goes wrong\<close>

text \<open>
  A task that waits for memory is not counted: the target may end before it, and the task is
  then submitted on a channel that has been given back.
\<close>

lemma waiting_task_after_end:
  "perf_run (demo_cfg 100) [(demo_rnd, env_of 0), (demo_rnd, env_of (- ENOMEM))]
     [E_stop, demo_done True, demo_done True, E_retry 0 (env_of 0)] demo_target = Wild"
  by (simp add: perf_code demo_defs)

text \<open>A request that is refused when nothing is in flight stops the timers but sends no end event.\<close>

lemma refused_first_request:
  "\<exists>s. perf_run (demo_cfg 100) [(demo_rnd, env_of (- EINVAL))] [] demo_target = Done s \<and> is_draining (sy_target s) \<and>
     sy_flights s = [] \<and> sy_waits s = [] \<and> current_queue_depth (sy_target s) = 0 \<and> sy_ends s = 0 \<and> sy_channel s"
  by (simp add: perf_code demo_defs EINVAL_def)

text \<open>A device smaller than one request divides by zero, or is asked for blocks behind its end.\<close>

lemma small_device_random:
  "size_in_ios (sy_target s) = 0 \<Longrightarrow> g_is_random c \<Longrightarrow> submit_single c r e tk s = Wild"
  by (simp add: submit_single_def next_offset_def)

lemma small_device_outside:
  assumes "size_in_ios t = 0" and "\<not> g_is_random c" and "next_offset c r t = Done (ofs, t')" and "0 < io_size_blocks t"
  shows "size_in_ios t' * io_size_blocks t' < ofs * io_size_blocks t' + io_size_blocks t'"
  using assms by (auto simp: next_offset_def)

text \<open>A reset that comes back late starts its timer again, and the next reset uses the channel given back.\<close>

lemma reset_after_end:
  assumes "\<not> sy_channel s" and "task_list (sy_target s) = []"
  shows "perf_exec c (E_reset_timer e) (reset_cb c success tk s) = Wild"
  using assms by (cases success)
    (simp_all add: reset_cb_def Let_def put_task_def fail_run_def end_target_def reset_target_def get_task_def on_channel_def)

end
