(* ===== verification/Bdev_Perf_App_Correct.thy ===== *)
theory Bdev_Perf_App_Correct
  imports Bdev_Perf_App Bdev_Perf_Ends
begin

text \<open>
  What the benchmark's setup establishes: settings that agree with the kind of workload, and
  targets on which a run can start; and when a test is answered.
\<close>

section \<open>Options\<close>

text \<open>The flags of the workload, before it is looked at.\<close>

definition no_flags :: "perf_opts \<Rightarrow> bool" where
  "no_flags o1 \<longleftrightarrow> \<not> g_verify o1 \<and> \<not> g_reset o1 \<and> \<not> g_unmap o1 \<and> \<not> g_write_zeroes o1 \<and> \<not> g_flush o1 \<and> g_zcopy o1"

lemma parse_arg_flags: "bdevperf_parse_arg strtoll ch arg o1 = (rc, o2) \<Longrightarrow> no_flags o1 \<Longrightarrow> no_flags o2"
  by (simp add: bdevperf_parse_arg_def Let_def no_flags_def split: if_splits) (auto simp: no_flags_def)

lemma parse_args_flags: "parse_args strtoll args o1 = (rc, o2) \<Longrightarrow> no_flags o1 \<Longrightarrow> no_flags o2"
proof (induction strtoll args o1 rule: parse_args.induct)
  case (2 strtoll ch arg args o1)
  then show ?case using parse_arg_flags by (auto simp: Let_def split: prod.splits if_splits)
qed simp

text \<open>The checks, in one condition.\<close>

lemma checks_pass:
  "(if a then (1, x1) else if b then (1, x2) else if d then (1, x3) else if e then (1, x4) else if f then (1, x5) else (0, y)) =
     (0 :: int, z) \<longleftrightarrow> \<not> a \<and> \<not> b \<and> \<not> d \<and> \<not> e \<and> \<not> f \<and> y = z"
  by simp

lemma verify_params_ok:
  assumes "verify_test_params big addr o0 = (0, opts)"
  obtains w o1 where "w \<in> set workloads" and "g_workload_type o0 = Some w"
    and "0 < g_queue_depth o0" and "0 < g_io_size o0" and "0 < g_time_in_sec o0"
    and "w \<in> {''verify'', ''reset''} \<longrightarrow> g_io_size o0 \<le> int big"
    and "w \<in> {''rw'', ''randrw''} \<longrightarrow> 0 \<le> g_rw_percentage o0 \<and> g_rw_percentage o0 \<le> 100"
    and "o1 = o0 \<or> o1 = o0\<lparr> rpc_addr := Some addr \<rparr>"
    and "opts = set_access big w (let o3 = set_workload w (o1\<lparr> g_time_in_usec := g_time_in_sec o0 * 1000000 \<rparr>) in
      if w \<in> {''verify'', ''reset''} then set_verify w (o3\<lparr> g_rw_percentage := 50 \<rparr>) else o3)"
proof -
  define o1 where "o1 = (if g_wait_for_tests o0 \<and> rpc_addr o0 = None then o0\<lparr> rpc_addr := Some addr \<rparr> else o0)"
  have same: "g_workload_type o1 = g_workload_type o0" "g_queue_depth o1 = g_queue_depth o0" "g_io_size o1 = g_io_size o0"
    "g_time_in_sec o1 = g_time_in_sec o0" "g_rw_percentage o1 = g_rw_percentage o0" by (simp_all add: o1_def)
  define w where "w = the (g_workload_type o0)"
  define o2 where "o2 = o1\<lparr> g_time_in_usec := g_time_in_sec o0 * 1000000 \<rparr>"
  define vr where "vr = (w \<in> {''verify'', ''reset''})"
  define rw where "rw = (w \<in> {''rw'', ''randrw''})"
  define o3 where "o3 = set_workload w o2"
  define o4 where "o4 = (if vr then o3\<lparr> g_rw_percentage := 50 \<rparr> else o3)"
  define o5 where "o5 = (if vr then set_verify w o4 else o4)"
  note run = assms [unfolded verify_test_params_def Let_def, folded o1_def, unfolded same, folded w_def, folded o2_def,
      folded o3_def vr_def rw_def, folded o4_def, folded o5_def, unfolded checks_pass]
  have s3: "g_io_size o3 = g_io_size o0" by (simp add: o3_def set_workload_def Let_def o2_def same)
  have s4: "g_rw_percentage o5 = g_rw_percentage o0" "\<not> vr" if "rw"
    using that by (auto simp: o5_def o4_def o3_def set_workload_def Let_def o2_def same vr_def rw_def)
  show thesis
  proof (rule that [of w o1])
    show "opts = set_access big w (let o3 = set_workload w (o1\<lparr> g_time_in_usec := g_time_in_sec o0 * 1000000 \<rparr>) in
      if w \<in> {''verify'', ''reset''} then set_verify w (o3\<lparr> g_rw_percentage := 50 \<rparr>) else o3)"
      unfolding Let_def o2_def [symmetric] o3_def [symmetric] vr_def [symmetric] using run by (cases vr) (simp_all add: o5_def o4_def)
    show "w \<in> set workloads" "g_workload_type o0 = Some w" using run by (auto simp: w_def)
    show "w \<in> {''verify'', ''reset''} \<longrightarrow> g_io_size o0 \<le> int big"
      using run s3 unfolding vr_def [symmetric] by (auto simp: o4_def)
    show "w \<in> {''rw'', ''randrw''} \<longrightarrow> 0 \<le> g_rw_percentage o0 \<and> g_rw_percentage o0 \<le> 100"
      using run s4 unfolding rw_def [symmetric] by auto
    show "o1 = o0 \<or> o1 = o0\<lparr> rpc_addr := Some addr \<rparr>" by (simp add: o1_def)
  qed (use run in auto)
qed

lemma no_flags_default: "no_flags default_opts"
  by (simp add: no_flags_def default_opts_def)

text \<open>
  A command line that the benchmark accepts names one of the eleven workloads, with a
  positive queue depth, request size and time; the flags, the share of reads, the random access
  and the zero copy that the run uses are those of the workload and the size.
\<close>

theorem accepted_options:
  assumes "perf_main_opts strtoll big addr args = (0, opts)"
  shows "\<exists>w \<in> set workloads. g_workload_type opts = Some w \<and>
    0 < g_queue_depth opts \<and> 0 < g_io_size opts \<and> 0 < g_time_in_sec opts \<and> g_time_in_usec opts = g_time_in_sec opts * 1000000 \<and>
    g_verify opts = (w \<in> {''verify'', ''reset''}) \<and> g_reset opts = (w = ''reset'') \<and>
    g_unmap opts = (w = ''unmap'') \<and> g_write_zeroes opts = (w = ''write_zeroes'') \<and> g_flush opts = (w = ''flush'') \<and>
    (w \<in> {''read'', ''randread''} \<longrightarrow> g_rw_percentage opts = 100) \<and>
    (w \<in> {''write'', ''randwrite''} \<longrightarrow> g_rw_percentage opts = 0) \<and>
    (w \<in> {''rw'', ''randrw''} \<longrightarrow> 0 \<le> g_rw_percentage opts \<and> g_rw_percentage opts \<le> 100) \<and>
    g_is_random opts = (w \<in> {''randread'', ''randwrite'', ''randrw'', ''flush''}) \<and>
    g_zcopy opts = (g_io_size opts \<le> int big) \<and> (g_verify opts \<longrightarrow> g_io_size opts \<le> int big)"
proof -
  obtain o0 where "parse_args strtoll args default_opts = (0, o0)" and v: "verify_test_params big addr o0 = (0, opts)"
    using assms by (auto simp: perf_main_opts_def Let_def split: prod.splits if_splits)
  then have nf: "no_flags o0" using parse_args_flags no_flags_default by blast
  obtain w o1 where w: "w \<in> set workloads" "g_workload_type o0 = Some w"
    and pos: "0 < g_queue_depth o0" "0 < g_io_size o0" "0 < g_time_in_sec o0"
    and vr: "w \<in> {''verify'', ''reset''} \<longrightarrow> g_io_size o0 \<le> int big"
    and rw: "w \<in> {''rw'', ''randrw''} \<longrightarrow> 0 \<le> g_rw_percentage o0 \<and> g_rw_percentage o0 \<le> 100"
    and o1: "o1 = o0 \<or> o1 = o0\<lparr> rpc_addr := Some addr \<rparr>"
    and opts: "opts = set_access big w (let o3 = set_workload w (o1\<lparr> g_time_in_usec := g_time_in_sec o0 * 1000000 \<rparr>) in
      if w \<in> {''verify'', ''reset''} then set_verify w (o3\<lparr> g_rw_percentage := 50 \<rparr>) else o3)"
    by (rule verify_params_ok [OF v])
  have same: "g_queue_depth o1 = g_queue_depth o0" "g_io_size o1 = g_io_size o0" "g_time_in_sec o1 = g_time_in_sec o0"
    "g_rw_percentage o1 = g_rw_percentage o0" "g_workload_type o1 = Some w" "no_flags o1"
    using o1 w(2) nf by (auto simp: no_flags_def)
  note code = set_access_def set_workload_def set_verify_def Let_def no_flags_def
  have "w = ''read'' \<or> w = ''write'' \<or> w = ''randread'' \<or> w = ''randwrite'' \<or> w = ''rw'' \<or> w = ''randrw'' \<or> w = ''verify'' \<or>
    w = ''reset'' \<or> w = ''unmap'' \<or> w = ''write_zeroes'' \<or> w = ''flush''"
    using w(1) by (simp add: workloads_def)
  then show ?thesis
  proof (intro bexI [OF _ w(1)], elim disjE)
  qed (use opts same pos vr rw in \<open>simp_all add: code\<close>)
qed

theorem accepted_options_witness:
  "\<exists>opts. perf_main_opts (\<lambda>_. 64) 65536 ''addr'' [(CHR ''w'', ''randread''), (CHR ''q'', ''64''), (CHR ''o'', ''64''), (CHR ''t'', ''64'')]
     = (0, opts) \<and> g_verify opts = False \<and> g_zcopy opts"
proof -
  define opts where "opts = snd (perf_main_opts (\<lambda>_. 64) 65536 ''addr''
    [(CHR ''w'', ''randread''), (CHR ''q'', ''64''), (CHR ''o'', ''64''), (CHR ''t'', ''64'')])"
  have run: "perf_main_opts (\<lambda>_. 64) 65536 ''addr'' [(CHR ''w'', ''randread''), (CHR ''q'', ''64''), (CHR ''o'', ''64''), (CHR ''t'', ''64'')]
    = (0, opts)" and w: "g_workload_type opts = Some ''randread''" "g_io_size opts = 64"
    by (simp_all add: opts_def perf_main_opts_def bdevperf_parse_arg_def default_opts_def verify_test_params_def workloads_def
        set_workload_def set_access_def Let_def)
  from accepted_options [OF run] w run show ?thesis by auto
qed

section \<open>Targets\<close>

definition all_targets :: "perf_app \<Rightarrow> perf_target list" where
  "all_targets a = concat (map snd (ap_groups a))"

text \<open>A target as it has been made for requests of \<open>g_io_size\<close> bytes.\<close>

definition made :: "perf_opts \<Rightarrow> perf_target \<Rightarrow> bool" where
  "made opts p \<longleftrightarrow> (\<exists>blocks. 0 < blocks \<and> nat (g_io_size opts) = blocks * bi_data_block_size (pt_bdev p) \<and>
     blocks * bi_block_size (pt_bdev p) \<le> g_buf_size opts \<and>
     pt_io p = new_io_target (pt_bdev p) blocks)"

definition app_ok :: "perf_app \<Rightarrow> bool" where
  "app_ok a \<longleftrightarrow> list_all (made (ap_opts a)) (all_targets a) \<and> ap_open a = length (all_targets a) \<and>
     ap_count a = ap_open a mod 2 ^ 32 \<and> (\<forall>k. ap_next a = Some k \<longrightarrow> k < length (ap_groups a))"

lemma all_targets_add:
  "k < length gs \<Longrightarrow> mset (concat (map snd (gs[k := (fst (gs ! k), snd (gs ! k) @ [p])]))) = add_mset p (mset (concat (map snd gs)))"
proof (induction gs arbitrary: k)
  case (Cons g gs)
  then show ?case by (cases k) simp_all
qed simp

lemma add_target_ok:
  assumes "add_target p a = Done a'" and "\<forall>k. ap_next a = Some k \<longrightarrow> k < length (ap_groups a)"
  shows "mset (all_targets a') = add_mset p (mset (all_targets a))" and "\<forall>k. ap_next a' = Some k \<longrightarrow> k < length (ap_groups a')"
    and "ap_count a' = (ap_count a + 1) mod 2 ^ 32" and "ap_opts a' = ap_opts a" and "ap_open a' = ap_open a"
    and "length (ap_groups a') = length (ap_groups a)"
proof -
  define k where "k = (case ap_next a of None \<Rightarrow> 0 | Some k \<Rightarrow> k)"
  have ne: "ap_groups a \<noteq> []" using assms(1) by (auto simp: add_target_def Let_def split: if_splits)
  have k: "k < length (ap_groups a)" using assms(2) ne by (cases "ap_next a") (simp_all add: k_def)
  have a': "a' = a\<lparr> ap_groups := (ap_groups a)[k := (fst (ap_groups a ! k), snd (ap_groups a ! k) @ [p])],
    ap_next := (if Suc k < length (ap_groups a) then Some (Suc k) else None), ap_count := (ap_count a + 1) mod 2 ^ 32 \<rparr>"
    using assms(1) ne by (simp add: add_target_def Let_def flip: k_def)
  show "mset (all_targets a') = add_mset p (mset (all_targets a))"
    using all_targets_add [OF k, of p] by (simp add: a' all_targets_def)
  show "\<forall>k. ap_next a' = Some k \<longrightarrow> k < length (ap_groups a')" "ap_count a' = (ap_count a + 1) mod 2 ^ 32"
    "ap_opts a' = ap_opts a" "ap_open a' = ap_open a" "length (ap_groups a') = length (ap_groups a)" by (simp_all add: a')
qed

lemma made_grow: "made opts p \<Longrightarrow> g_buf_size opts \<le> n \<Longrightarrow> made (opts\<lparr> g_buf_size := n \<rparr>) p"
  by (auto simp: made_def intro: le_trans)

text \<open>Making targets changes no setting but the size of the buffers.\<close>

definition same_opts :: "perf_opts \<Rightarrow> perf_opts \<Rightarrow> bool" where
  "same_opts o1 o2 \<longleftrightarrow> (\<exists>n. o1 = o2\<lparr> g_buf_size := n \<rparr>)"

lemma same_opts_refl [simp]: "same_opts o1 o1" "same_opts (o1\<lparr> g_buf_size := n \<rparr>) o1"
proof -
  have "o1 = o1\<lparr> g_buf_size := g_buf_size o1 \<rparr>" by simp
  then show "same_opts o1 o1" unfolding same_opts_def by blast
qed (auto simp: same_opts_def)

lemma same_opts_trans: "same_opts o1 o2 \<Longrightarrow> same_opts o2 o3 \<Longrightarrow> same_opts o1 o3"
  by (auto simp: same_opts_def)

lemma same_opts_fields: "same_opts o1 o2 \<Longrightarrow> g_io_size o1 = g_io_size o2 \<and> g_queue_depth o1 = g_queue_depth o2 \<and>
    g_reset o1 = g_reset o2 \<and> g_verify o1 = g_verify o2"
  by (auto simp: same_opts_def)

lemma construct_target_ok:
  assumes "bdevperf_construct_target mem b a = Done (rc, a')" and "app_ok a"
  shows "app_ok a' \<and> same_opts (ap_opts a') (ap_opts a)"
proof -
  let ?n = "nat (g_io_size (ap_opts a))" and ?d = "bi_data_block_size b"
  define a1 where "a1 = a\<lparr> ap_open := ap_open a + 1, ap_align := max (ap_align a) (bi_align b),
    ap_opts := (ap_opts a)\<lparr> g_buf_size := max (g_buf_size (ap_opts a)) (?n div ?d * bi_block_size b) \<rparr> \<rparr>"
  define p where "p = \<lparr> pt_bdev = b, pt_io = new_io_target b (?n div ?d) \<rparr>"
  have "a' = a \<or> ?d \<noteq> 0 \<and> ?n mod ?d = 0 \<and> ?n div ?d \<noteq> 0 \<and> add_target p a1 = Done a'"
    using assms(1) by (auto simp: bdevperf_construct_target_def Let_def run_bind_Done a1_def p_def split: if_splits)
  then show ?thesis
  proof (elim disjE conjE)
    assume d: "?d \<noteq> 0" "?n mod ?d = 0" "?n div ?d \<noteq> 0" "add_target p a1 = Done a'"
    have old: "list_all (made (ap_opts a1)) (all_targets a1)"
      using assms(2) by (auto simp: app_ok_def a1_def all_targets_def list_all_iff intro!: made_grow)
    have "?n = ?n div ?d * ?d" using d(2) by (simp add: mult.commute dvd_eq_mod_eq_0 [symmetric])
    then have new: "made (ap_opts a1) p" using d(3) unfolding made_def by (intro exI conjI) (auto simp: a1_def p_def)
    have nx: "\<forall>k. ap_next a1 = Some k \<longrightarrow> k < length (ap_groups a1)" using assms(2) by (simp add: app_ok_def a1_def)
    note t = add_target_ok [OF d(4) nx]
    have "set (all_targets a') = insert p (set (all_targets a1))" by (metis t(1) set_mset_add_mset_insert set_mset_mset)
    then have "list_all (made (ap_opts a')) (all_targets a')" using old new t(4) by (simp add: list_all_iff)
    moreover have "length (all_targets a') = Suc (length (all_targets a1))" by (metis t(1) size_add_mset size_mset)
    moreover have "all_targets a1 = all_targets a" by (simp add: a1_def all_targets_def)
    ultimately show ?thesis using t(2-5) assms(2) by (simp add: app_ok_def) (simp add: a1_def mod_Suc_eq)
  qed (use assms(2) in simp)
qed

lemma construct_loop_ok:
  "construct_loop bs a = Done a' \<Longrightarrow> app_ok a \<Longrightarrow> app_ok a' \<and> same_opts (ap_opts a') (ap_opts a)"
proof (induction bs arbitrary: a)
  case (Cons mb bs)
  obtain mem b rc u where mb: "mb = (mem, b)" and u: "bdevperf_construct_target mem b a = Done (rc, u)"
    and r: "(if rc \<noteq> 0 then Done u else construct_loop bs u) = Done a'"
    using Cons.prems(1) by (cases mb) (auto simp: run_bind_Done)
  note t = construct_target_ok [OF u Cons.prems(2)]
  show ?case
  proof (cases "rc = 0")
    case True
    then show ?thesis using Cons.IH [of u] r t same_opts_trans by auto
  qed (use r t in simp)
qed simp

section \<open>Tasks\<close>

lemma construct_tasks_ok:
  "construct_tasks mem opts i n p = (True, p') \<Longrightarrow>
     p' = p\<lparr> pt_io := (pt_io p)\<lparr> task_list := task_list (pt_io p) @ map (construct_task opts p) [i..<i + n] \<rparr> \<rparr>"
proof (induction n arbitrary: i p)
  case (Suc n)
  define q where "q = p\<lparr> pt_io := (pt_io p)\<lparr> task_list := task_list (pt_io p) @ [construct_task opts p i] \<rparr> \<rparr>"
  have "construct_tasks mem opts (Suc i) n q = (True, p')" using Suc.prems by (auto simp: q_def split: if_splits)
  moreover have "construct_task opts q = construct_task opts p" by (simp add: fun_eq_iff construct_task_def q_def)
  ultimately show ?case using Suc.IH [of "Suc i" q] by (simp add: q_def upt_rec [of i])
qed simp

text \<open>A target with the tasks of its run.\<close>

definition with_tasks :: "perf_opts \<Rightarrow> nat \<Rightarrow> perf_target \<Rightarrow> perf_target \<Rightarrow> bool" where
  "with_tasks opts n p p' \<longleftrightarrow>
     p' = p\<lparr> pt_io := (pt_io p)\<lparr> task_list := task_list (pt_io p) @ map (construct_task opts p) [0..<n] \<rparr> \<rparr>"

lemma targets_tasks_ok: "targets_tasks mem opts n g j ps = (True, ps') \<Longrightarrow> list_all2 (with_tasks opts n) ps ps'"
proof (induction ps arbitrary: j ps')
  case (Cons p ps)
  then show ?case
    by (auto simp: Let_def with_tasks_def split: prod.splits if_splits dest!: construct_tasks_ok)
qed simp

lemma groups_tasks_ok: "groups_tasks mem opts n g gs = (True, gs') \<Longrightarrow>
    list_all2 (with_tasks opts n) (concat (map snd gs)) (concat (map snd gs'))"
proof (induction gs arbitrary: g gs')
  case (Cons h gs)
  then show ?case
    by (cases h) (auto simp: Let_def split: prod.splits if_splits dest!: targets_tasks_ok intro!: list_all2_appendI)
qed simp

lemma tasks_ok:
  assumes "bdevperf_construct_targets_tasks mem a = (0, a')"
  shows "list_all2 (with_tasks (ap_opts a) (nat (g_queue_depth (ap_opts a)) + (if g_reset (ap_opts a) then 1 else 0)))
    (all_targets a) (all_targets a')" and "ap_opts a' = ap_opts a" and "ap_count a' = ap_count a" and "ap_open a' = ap_open a"
  using assms by (auto simp: bdevperf_construct_targets_tasks_def Let_def all_targets_def split: prod.splits if_splits
      dest!: groups_tasks_ok)

text \<open>What a test starts with.\<close>

definition idle :: "perf_app \<Rightarrow> bool" where
  "idle a \<longleftrightarrow> all_targets a = [] \<and> ap_open a = 0 \<and> ap_count a = 0 \<and> (\<forall>k. ap_next a = Some k \<longrightarrow> k < length (ap_groups a))"

lemma setup_ready:
  assumes "bdevperf_construct_targets cores mem named leaves a = Done a1" and "bdevperf_test tmem a1 = (0, a2)"
    and "idle a" and "p' \<in> set (all_targets a2)"
  obtains blocks tks where "0 < blocks" and "nat (g_io_size (ap_opts a)) = blocks * bi_data_block_size (pt_bdev p')"
    and "pt_io p' = (new_io_target (pt_bdev p') blocks)\<lparr> task_list := tks \<rparr>"
    and "length tks = nat (g_queue_depth (ap_opts a)) + (if g_reset (ap_opts a) then 1 else 0)"
proof -
  have "app_ok a" using assms(3) by (simp add: idle_def app_ok_def)
  then have a1: "app_ok a1" "same_opts (ap_opts a1) (ap_opts a)"
    using construct_loop_ok assms(1) by (auto simp: bdevperf_construct_targets_def Let_def)
  have "bdevperf_construct_targets_tasks tmem a1 = (0, a2)"
    using assms(2) by (simp add: bdevperf_test_def ENODEV_def split: if_splits)
  note t = tasks_ok(1) [OF this]
  obtain i where i: "i < length (all_targets a2)" "all_targets a2 ! i = p'" using assms(4) by (auto simp: in_set_conv_nth)
  define p where "p = all_targets a1 ! i"
  have p: "p \<in> set (all_targets a1)" using i(1) list_all2_lengthD [OF t] by (simp add: p_def)
  have w: "with_tasks (ap_opts a1) (nat (g_queue_depth (ap_opts a1)) + (if g_reset (ap_opts a1) then 1 else 0)) p p'"
    using list_all2_nthD2 [OF t i(1)] i(2) by (simp add: p_def)
  obtain blocks where b: "0 < blocks" "nat (g_io_size (ap_opts a1)) = blocks * bi_data_block_size (pt_bdev p)"
    "pt_io p = new_io_target (pt_bdev p) blocks" using a1(1) p by (auto simp: app_ok_def list_all_iff made_def)
  show thesis
    by (rule that [OF b(1)]) (use b w same_opts_fields [OF a1(2)] in \<open>auto simp: with_tasks_def new_io_target_def\<close>)
qed

text \<open>
  C21: From the devices to the end of a run on a device that takes every request. Take a target
  that the setup of a test has made and given its tasks, on a device that holds at least one
  request, with settings without verification and without resets (\<open>plain\<close>). Suppose that the
  device refuses no request and that no check of protection information and no end of a
  zero-copy buffer fails (\<open>calm_env\<close>), that before the stop only completions, retries and end
  timers happen, with zero copy only successful completions (\<open>calm_event\<close>), and that after the
  stop the device completes its oldest request at least twice the depth of the queue
  (\<open>first_done\<close>). Then the run starts its whole queue and ends exactly once, with its channel
  put and every task of the target free again. (Where the device refuses a request, a run need
  not end: \<open>refused_first_request\<close>.)
\<close>

theorem setup_run_ends:
  assumes "bdevperf_construct_targets cores mem named leaves a = Done a1" and "bdevperf_test tmem a1 = (0, a2)"
    and "idle a" and "p \<in> set (all_targets a2)" and "0 < g_queue_depth (ap_opts a)"
    and "io_size_blocks (pt_io p) \<le> bi_num_blocks (pt_bdev p)" and "plain (perf_cfg.truncate (ap_opts a2))"
    and "list_all (\<lambda>(r, e). calm_env e) res" and "length res = nat (g_queue_depth (ap_opts a))"
    and "list_all (calm_event (perf_cfg.truncate (ap_opts a2))) evs"
    and "list_all (first_done (perf_cfg.truncate (ap_opts a2))) drain" and "2 * length res \<le> length drain"
  shows "\<exists>s. perf_run (perf_cfg.truncate (ap_opts a2)) res (evs @ E_stop # drain) (pt_io p) = Done s \<and>
    sy_ends s = 1 \<and> \<not> sy_channel s \<and> length (task_list (sy_target s)) = length (task_list (pt_io p))"
proof -
  obtain blocks tks where b: "0 < blocks" and p: "pt_io p = (new_io_target (pt_bdev p) blocks)\<lparr> task_list := tks \<rparr>"
    and l: "length tks = nat (g_queue_depth (ap_opts a)) + (if g_reset (ap_opts a) then 1 else 0)"
    by (rule setup_ready [OF assms(1-4)])
  have "res \<noteq> []" using assms(5,9) by auto
  moreover have "length res \<le> length (task_list (pt_io p))" using assms(9) l p by simp
  moreover have "current_queue_depth (pt_io p) = 0" "offset_in_ios (pt_io p) < size_in_ios (pt_io p)"
    using b assms(6) by (simp_all add: p new_io_target_def div_greater_zero_iff)
  ultimately obtain s where "perf_run (perf_cfg.truncate (ap_opts a2)) res (evs @ E_stop # drain) (pt_io p) = Done s"
    "sy_ends s = 1" "\<not> sy_channel s"
    "image_mset tk_id (mset (task_list (sy_target s))) = image_mset tk_id (mset (task_list (pt_io p)))"
    using perf_run_ends [OF assms(7,8) _ _ _ _ assms(10-12)] by blast
  then show ?thesis by (metis size_image_mset size_mset)
qed

definition demo_bdev :: perf_bdev where
  "demo_bdev = \<lparr> bi_name = ''Nvme0'', bi_unmap = True, bi_open = 0, bi_block_size = 4, bi_data_block_size = 4, bi_md_size = 0,
     bi_md_separate = False, bi_num_blocks = 8, bi_dif_check = False, bi_dif_disabled = True, bi_align = 8 \<rparr>"

definition demo_app :: perf_app where
  "demo_app = (app_start (default_opts\<lparr> g_queue_depth := 1, g_io_size := 8, g_rw_percentage := 100 \<rparr>))\<lparr> ap_groups := [(0, [])] \<rparr>"

lemmas setup_code = bdevperf_construct_targets_def bdevperf_construct_target_def add_target_def bdevperf_test_def
  bdevperf_construct_targets_tasks_def all_targets_def demo_app_def app_start_def default_opts_def demo_bdev_def ENODEV_def

theorem setup_run_ends_witness:
  "\<exists>a1 a2 p s. bdevperf_construct_targets 1 (\<lambda>_ _. True) (\<lambda>_. None) [demo_bdev] demo_app = Done a1 \<and>
     bdevperf_test (\<lambda>_ _ _. True) a1 = (0, a2) \<and> p \<in> set (all_targets a2) \<and>
     perf_run (perf_cfg.truncate (ap_opts a2)) [(demo_rnd, env_of 0)] ([] @ E_stop # replicate 2 (demo_done True)) (pt_io p) = Done s \<and>
     sy_ends s = 1"
proof -
  obtain a1 where a1: "bdevperf_construct_targets 1 (\<lambda>_ _. True) (\<lambda>_. None) [demo_bdev] demo_app = Done a1"
    and o1: "a1 = demo_app\<lparr> ap_groups := [(0, [\<lparr> pt_bdev = demo_bdev, pt_io = new_io_target demo_bdev 2 \<rparr>])], ap_count := 1,
      ap_open := 1, ap_opts := (ap_opts demo_app)\<lparr> g_buf_size := 8 \<rparr> \<rparr>"
    by (simp add: setup_code Let_def)
  define a2 where "a2 = snd (bdevperf_test (\<lambda>_ _ _. True) a1)"
  define p where "p = hd (all_targets a2)"
  have a2: "bdevperf_test (\<lambda>_ _ _. True) a1 = (0, a2)" "p \<in> set (all_targets a2)"
    and p: "io_size_blocks (pt_io p) \<le> bi_num_blocks (pt_bdev p)" and o2: "ap_opts a2 = ap_opts a1"
    by (simp_all add: p_def a2_def o1 setup_code Let_def new_io_target_def)
  have idle: "idle demo_app" by (simp add: idle_def setup_code)
  have "0 < g_queue_depth (ap_opts demo_app)" "plain (perf_cfg.truncate (ap_opts a2))"
    "list_all (\<lambda>(r, e). calm_env e) [(demo_rnd, env_of 0)]" "length [(demo_rnd, env_of 0)] = nat (g_queue_depth (ap_opts demo_app))"
    "list_all (calm_event (perf_cfg.truncate (ap_opts a2))) []" "2 * length [(demo_rnd, env_of 0)] \<le> length (replicate 2 (demo_done True))"
    "list_all (first_done (perf_cfg.truncate (ap_opts a2))) (replicate 2 (demo_done True))"
    by (auto simp: o2 o1 setup_code plain_def calm_env_def env_of_def first_done_def calm_event_def demo_done_def numeral_eq_Suc
        perf_cfg.truncate_def)
  from setup_run_ends [OF a1 a2(1) idle a2(2) this(1) p this(2-5) this(7,6)] show ?thesis using a1 a2 by blast
qed

section \<open>The answer to a test\<close>

lemma count_down_count: "0 < ap_count a \<Longrightarrow> ap_count a < 2 ^ 32 \<Longrightarrow> ap_count (count_down a) = ap_count a - 1"
proof -
  assume a: "0 < ap_count a" "ap_count a < 2 ^ 32"
  then obtain m where m: "ap_count a = Suc m" by (cases "ap_count a") auto
  then have "(ap_count a + 2 ^ 32 - 1) mod 2 ^ 32 = m" using a(2) by simp
  then show ?thesis using m by (simp add: count_down_def)
qed

text \<open>Until the last target has ended nothing but the counts changes.\<close>

lemma end_runs_before:
  "k < ap_count a \<Longrightarrow> ap_count a < 2 ^ 32 \<Longrightarrow>
     (end_run ^^ k) a = a\<lparr> ap_count := ap_count a - k, ap_open := ap_open a - k \<rparr>"
proof (induction k)
  case (Suc k)
  define b where "b = (end_run ^^ k) a"
  have b: "b = a\<lparr> ap_count := ap_count a - k, ap_open := ap_open a - k \<rparr>" using Suc by (simp add: b_def)
  have "ap_count (count_down b) = ap_count a - Suc k" using Suc.prems count_down_count [of b] by (simp add: b)
  then have "end_run b = b\<lparr> ap_open := ap_open b - 1, ap_count := ap_count a - Suc k \<rparr>"
    using Suc.prems by (simp add: end_run_def Let_def) (simp add: count_down_def)
  then show ?case by (simp add: b flip: b_def)
qed simp

text \<open>
  A test of \<open>n\<close> targets that was started by RPC is answered exactly once, by the end of its last
  target: before that nothing is answered, then the client gets the result or the error of the
  run, the targets are freed and their descriptors closed, and the next test can be started.
\<close>

theorem test_answered_once:
  assumes "ap_count a = n" and "ap_open a = n" and "0 < n" and "n < 2 ^ 32" and "ap_request a" and "\<not> ap_shutdown a"
  shows "(\<forall>k < n. ap_replies ((end_run ^^ k) a) = ap_replies a \<and> ap_request ((end_run ^^ k) a)) \<and>
    ap_replies ((end_run ^^ n) a) = ap_replies a @ [if ap_run_rc a = 0 then Reply_result else Reply_failed (- ap_run_rc a)] \<and>
    \<not> ap_request ((end_run ^^ n) a) \<and> all_targets ((end_run ^^ n) a) = [] \<and>
    ap_count ((end_run ^^ n) a) = 0 \<and> ap_open ((end_run ^^ n) a) = 0"
proof -
  obtain m where n: "n = Suc m" using assms(3) by (cases n) auto
  define b where "b = (end_run ^^ m) a"
  have b: "b = a\<lparr> ap_count := 1, ap_open := 1 \<rparr>" using end_runs_before [of m a] assms n by (simp add: b_def)
  have "ap_count (count_down b) = 0" using count_down_count [of b] by (simp add: b)
  moreover have "(end_run ^^ n) a = end_run b" by (simp add: n b_def)
  ultimately have last: "(end_run ^^ n) a = bdevperf_test_done (count_down b)" by (simp add: end_run_def)
  have "\<forall>k < n. ap_replies ((end_run ^^ k) a) = ap_replies a \<and> ap_request ((end_run ^^ k) a)"
    using end_runs_before [of _ a] assms by simp
  then show ?thesis using assms(5,6) unfolding last
    by (simp add: bdevperf_test_done_def Let_def bdevperf_free_targets_def rpc_perform_tests_cb_def count_down_def b
        all_targets_def comp_def)
qed

theorem test_answered_once_witness:
  "ap_replies ((end_run ^^ 1) (demo_app\<lparr> ap_count := 1, ap_open := 1, ap_request := True \<rparr>)) = [Reply_result]"
  using test_answered_once [of "demo_app\<lparr> ap_count := 1, ap_open := 1, ap_request := True \<rparr>" 1]
  by (simp add: demo_app_def app_start_def)

section \<open>What goes wrong\<close>

text \<open>When no target gets a channel, the count reaches zero without an end: nobody is answered and nothing stops.\<close>

lemma no_channel_no_end:
  "ap_count a = length ps \<Longrightarrow> ap_count a < 2 ^ 32 \<Longrightarrow> app_submit_on_core (\<lambda>_. False) ps a = (started, a') \<Longrightarrow>
     started = [] \<and> ap_count a' = 0 \<and> ap_replies a' = ap_replies a \<and> ap_request a' = ap_request a \<and> ap_stopped a' = ap_stopped a"
proof (induction ps arbitrary: a)
  case (Cons p ps)
  define b where "b = (count_down a)\<lparr> ap_run_rc := - 1 \<rparr>"
  have "ap_count b = length ps" "ap_count b < 2 ^ 32" using Cons.prems(1,2) count_down_count [of a] by (simp_all add: b_def)
  moreover have "app_submit_on_core (\<lambda>_. False) ps b = (started, a')" using Cons.prems(3) by (simp add: b_def)
  ultimately show ?case using Cons.IH [of b] by (simp add: b_def) (simp add: count_down_def)
qed simp

text \<open>
  A test whose tasks could not be made is answered with an error, but its targets stay counted
  and their descriptors open: the next test is not answered when all of its targets have ended.
\<close>

definition failed_test :: perf_app where
  "failed_test = demo_app\<lparr> ap_opts := (ap_opts demo_app)\<lparr> g_buf_size := 8 \<rparr>, ap_count := 1, ap_open := 1,
     ap_replies := [Reply_failed 1] \<rparr>"

lemma failed_test_keeps_count:
  "rpc_perform_tests 1 (\<lambda>_ _. True) (\<lambda>_ _ _. False) (\<lambda>_. None) [demo_bdev] False demo_app = Done failed_test"
  by (simp add: rpc_perform_tests_def failed_test_def setup_code Let_def test_or_done_def bdevperf_test_done_def
      bdevperf_free_targets_def rpc_perform_tests_cb_def)

lemma next_test_never_answered:
  "\<exists>a. rpc_perform_tests 1 (\<lambda>_ _. True) (\<lambda>_ _ _. True) (\<lambda>_. None) [demo_bdev] False failed_test = Done a \<and>
     length (all_targets a) = 1 \<and> ap_request (end_run a) \<and> ap_replies (end_run a) = [Reply_failed 1] \<and> ap_count (end_run a) = 1"
  by (simp add: rpc_perform_tests_def failed_test_def setup_code Let_def test_or_done_def end_run_def count_down_def
      new_io_target_def)

text \<open>The number of cores is kept in eight bits: with 256 cores and one target for each of them there are none.\<close>

lemma no_targets_on_256_cores:
  "g_every_core_for_each_bdev (ap_opts a) \<Longrightarrow> bdevperf_construct_targets 256 mem named leaves a = Done a"
  by (simp add: bdevperf_construct_targets_def Let_def split: option.split) (simp add: concat_eq_Nil_conv map_replicate_const)

text \<open>
  The buffer of a task holds the data of a request, without metadata.  With metadata inside of
  the blocks, the data written for a verification do not fit.
\<close>

lemma generate_inline_overrun:
  "0 < k \<Longrightarrow> md \<le> bs \<Longrightarrow> length b < (i + k) * bs \<Longrightarrow> generate_inline bs md v i k b = Wild"
proof (induction k arbitrary: i b)
  case (Suc k)
  show ?case
  proof (cases k)
    case 0
    then show ?thesis using Suc.prems by (auto simp: memset_at_def algebra_simps)
  next
    case (Suc k')
    have "generate_inline bs md v (Suc i) k b2 = Wild" if "length b2 = length b" for b2
      using Suc.IH [of b2 "Suc i"] Suc.prems that Suc by simp
    then show ?thesis by (auto simp: memset_at_def)
  qed
qed simp

lemma interleaved_verify_overrun:
  assumes "made opts p" and "bi_data_block_size (pt_bdev p) < bi_block_size (pt_bdev p)" and "\<not> bi_md_separate (pt_bdev p)"
    and "bi_md_size (pt_bdev p) \<le> bi_block_size (pt_bdev p)" and "g_verify opts" and "sy_target s = pt_io p"
    and "0 < size_in_ios (pt_io p)"
  shows "submit_single (perf_cfg.truncate opts) r e (construct_task opts p i) s = Wild"
proof -
  obtain blocks where b: "0 < blocks" "nat (g_io_size opts) = blocks * bi_data_block_size (pt_bdev p)"
    "blocks * bi_block_size (pt_bdev p) \<le> g_buf_size opts" "pt_io p = new_io_target (pt_bdev p) blocks"
    using assms(1) by (auto simp: made_def)
  define c where "c = perf_cfg.truncate opts"
  have c: "g_verify c" "g_buf_size c = g_buf_size opts" using assms(5) by (simp_all add: c_def perf_cfg.truncate_def)
  obtain ofs t where n: "next_offset c r (pt_io p) = Done (ofs, t)"
    using assms(7) by (cases "g_is_random c") (auto simp: next_offset_def)
  then have t: "tg_block_size t = bi_block_size (pt_bdev p)" "tg_md_size t = bi_md_size (pt_bdev p)" "io_size_blocks t = blocks"
    by (auto simp: next_offset_def b(4) new_io_target_def split: if_splits)
  have "blocks * bi_data_block_size (pt_bdev p) < blocks * bi_block_size (pt_bdev p)" using assms(2) b(1) by simp
  then have "generate_inline (bi_block_size (pt_bdev p)) (bi_md_size (pt_bdev p)) v 0 blocks
      (replicate (blocks * bi_data_block_size (pt_bdev p)) 0) = Wild" for v
    using assms(4) b(1) by (intro generate_inline_overrun) simp_all
  then show ?thesis
    using n c b(3) assms(3) unfolding c_def [symmetric]
    by (simp add: submit_single_def assms(6) generate_data_def construct_task_def t b(2) Let_def)
qed

end
