(* ===== verification/Fio_Plugin.thy ===== *)
theory Fio_Plugin
  imports Prelude Runs "HOL-Library.Multiset"
begin

text \<open>
  The engine for fio (\<^verbatim>\<open>bdev_fio_plugin.c\<close>): one SPDK thread for every fio thread, requests that are
  given to the device and collected in a queue of completions, opening and closing of the
  devices, and the thread that starts SPDK.  fio, SPDK and the threads of the system are
  arguments: what their calls answer.  The options and the table of the engine are data.
\<close>

section \<open>Time\<close>

text \<open>
  How long the first thread waits, in words of 64 bits: \<open>expiry\<close> is when the next poller
  expires (0 if there is none) and \<open>hz\<close> the ticks in a second; the time is added to \<open>ts\<close>.
\<close>

definition fio_calc_timeout :: "bool \<Rightarrow> u64 \<Rightarrow> u64 \<Rightarrow> u64 \<Rightarrow> u64 \<times> u64 \<Rightarrow> (u64 \<times> u64) run" where
  "fio_calc_timeout active expiry now hz ts =
     (if active then Done ts
      else let timeout = (if expiry = 0 then now + (1000000000 * hz) div 1000000000 else expiry) in
        if timeout > now then
          (if hz = 0 then Wild
           else let t = ((timeout - now) * 1000000000) div hz + fst ts * 1000000000 + snd ts
             in Done (t div 1000000000, t mod 1000000000))
        else Done ts)"

section \<open>State\<close>

text \<open>A device as SPDK knows it, and a file of fio with the position of its target.\<close>

record fio_bdev =
  fb_open :: int
  fb_channel :: bool
  fb_blocks :: nat
  fb_block_size :: nat

record fio_file =
  file_name :: string
  real_file_size :: nat
  fl_target :: "nat option"

text \<open>
  A thread: its open targets, and the completions since the last \<^verbatim>\<open>getevents\<close>.  \<open>ft_pending\<close> are the
  requests at the device.
\<close>

record fio_thread =
  ft_targets :: "string list"
  ft_failed :: bool
  iocq :: "nat list"
  iocq_size :: nat
  ft_pending :: "nat list"

text \<open>What the thread's pointer to the engine's data points to.\<close>

datatype io_ops_data = No_data | Dangling | Thread fio_thread

record fio_td =
  td_iodepth :: nat
  td_use_thread :: bool
  td_files :: "fio_file list"
  td_data :: io_ops_data
  td_error :: "nat \<Rightarrow> int"

definition fio_at :: "fio_td \<Rightarrow> (fio_thread \<Rightarrow> 'a run) \<Rightarrow> 'a run" where
  "fio_at td f = (case td_data td of Thread t \<Rightarrow> f t | _ \<Rightarrow> Wild)"

section \<open>Threads and targets\<close>

text \<open>\<open>mem\<close> and \<open>qmem\<close>: memory for the thread and its queue; \<open>thr\<close>: SPDK made a thread.\<close>

definition fio_init_thread :: "bool \<Rightarrow> bool \<Rightarrow> bool \<Rightarrow> fio_td \<Rightarrow> (int \<times> fio_td) run" where
  "fio_init_thread mem thr qmem td =
     (if \<not> mem then Done (- 1, td)
      else if \<not> thr then Done (- 1, td\<lparr> td_data := Dangling \<rparr>)
      else if \<not> qmem then Assert_fails
      else Done (0, td\<lparr> td_data := Thread \<lparr> ft_targets = [], ft_failed = False, iocq = [], iocq_size = td_iodepth td,
        ft_pending = [] \<rparr> \<rparr>))"

text \<open>Opening the files one after the other; the first that cannot be opened ends it.\<close>

fun fio_open_files ::
    "(nat \<Rightarrow> bool) \<Rightarrow> (string \<Rightarrow> fio_bdev option) \<Rightarrow> fio_file list \<Rightarrow> fio_thread \<Rightarrow> fio_file list \<times> fio_thread" where
  "fio_open_files mem named [] t = ([], t)"
| "fio_open_files mem named (f # fs) t =
     (if \<not> mem (length (ft_targets t)) then (f # fs, t\<lparr> ft_failed := True \<rparr>)
      else case named (file_name f) of
        None \<Rightarrow> (f # fs, t\<lparr> ft_failed := True \<rparr>)
      | Some b \<Rightarrow>
          if fb_open b \<noteq> 0 \<or> \<not> fb_channel b then (f # fs, t\<lparr> ft_failed := True \<rparr>)
          else let (fs', t') = fio_open_files mem named fs (t\<lparr> ft_targets := ft_targets t @ [file_name f] \<rparr>)
            in (f\<lparr> fl_target := Some (length (ft_targets t)) \<rparr> # fs', t'))"

definition fio_bdev_open :: "(nat \<Rightarrow> bool) \<Rightarrow> (string \<Rightarrow> fio_bdev option) \<Rightarrow> fio_td \<Rightarrow> fio_td run" where
  "fio_bdev_open mem named td =
     fio_at td (\<lambda>t. let (fs, t') = fio_open_files mem named (td_files td) t in Done (td\<lparr> td_files := fs, td_data := Thread t' \<rparr>))"

text \<open>Polling until a poll has nothing to do; the list is what the polls answer.\<close>

fun poll_out :: "nat list \<Rightarrow> unit run" where
  "poll_out [] = Hangs"
| "poll_out (n # ns) = (if n > 0 then poll_out ns else Done ())"

definition fio_init ::
    "bool \<Rightarrow> bool \<Rightarrow> bool \<Rightarrow> (nat \<Rightarrow> bool) \<Rightarrow> (string \<Rightarrow> fio_bdev option) \<Rightarrow> nat list \<Rightarrow> fio_td \<Rightarrow> (int \<times> fio_td) run" where
  "fio_init mem thr qmem tmem named polls td =
     run_bind (fio_init_thread mem thr qmem td) (\<lambda>(_, td1).
     run_bind (fio_at td1 (\<lambda>t. Done (td1\<lparr> td_data := Thread (t\<lparr> ft_failed := False \<rparr>) \<rparr>))) (\<lambda>td2.
     run_bind (fio_bdev_open tmem named td2) (\<lambda>td3.
     run_bind (poll_out polls) (\<lambda>_.
     fio_at td3 (\<lambda>t. Done (if ft_failed t then - 1 else 0, td3))))))"

definition fio_close_targets :: "fio_thread \<Rightarrow> fio_thread" where
  "fio_close_targets t = t\<lparr> ft_targets := [] \<rparr>"

text \<open>The thread is polled until it is idle; then it and its queue are given back.\<close>

fun poll_idle :: "bool list \<Rightarrow> unit run" where
  "poll_idle [] = Hangs"
| "poll_idle (idle # is) = (if idle then Done () else poll_idle is)"

definition fio_cleanup_thread :: "bool list \<Rightarrow> fio_thread \<Rightarrow> fio_thread run" where
  "fio_cleanup_thread idles t = run_bind (poll_idle idles) (\<lambda>_. Done (fio_close_targets t))"

definition fio_cleanup :: "bool list \<Rightarrow> fio_td \<Rightarrow> fio_td run" where
  "fio_cleanup idles td = fio_at td (\<lambda>t. run_bind (fio_cleanup_thread idles t) (\<lambda>_. Done (td\<lparr> td_data := No_data \<rparr>)))"

section \<open>Requests\<close>

datatype fio_ddir = DDIR_READ | DDIR_WRITE | DDIR_TRIM | DDIR_OTHER

datatype fio_q_status = FIO_Q_COMPLETED | FIO_Q_QUEUED | FIO_Q_BUSY

text \<open>A request of fio: its number, its direction, its file, and the engine's data made for it.\<close>

record io_u =
  iu_id :: nat
  iu_ddir :: fio_ddir
  iu_target :: "nat option"
  iu_request :: "nat option"

definition EIO :: int where "EIO = 5"

definition fio_io_u_init :: "bool \<Rightarrow> io_u \<Rightarrow> int \<times> io_u" where
  "fio_io_u_init mem u = (if mem then (0, u\<lparr> iu_request := Some (iu_id u) \<rparr>) else (1, u\<lparr> iu_request := None \<rparr>))"

definition fio_io_u_free :: "io_u \<Rightarrow> io_u run" where
  "fio_io_u_free u = (case iu_request u of
     None \<Rightarrow> Done u
   | Some i \<Rightarrow> if i \<noteq> iu_id u then Assert_fails else Done (u\<lparr> iu_request := None \<rparr>))"

definition set_error :: "nat \<Rightarrow> int \<Rightarrow> fio_td \<Rightarrow> fio_td" where
  "set_error i e td = td\<lparr> td_error := (td_error td)(i := e) \<rparr>"

text \<open>Giving a request to the device, which answers \<open>rc\<close>.\<close>

definition fio_queue :: "io_u \<Rightarrow> int \<Rightarrow> fio_td \<Rightarrow> (fio_q_status \<times> fio_td) run" where
  "fio_queue u rc td =
     (case iu_request u of
        None \<Rightarrow> Wild
      | Some i \<Rightarrow> fio_at td (\<lambda>t.
          if iu_target u = None then Done (FIO_Q_COMPLETED, set_error i ENODEV td)
          else if iu_ddir u = DDIR_OTHER then Assert_fails
          else if rc = - ENOMEM then Done (FIO_Q_BUSY, td)
          else if rc \<noteq> 0 then Done (FIO_Q_COMPLETED, set_error i \<bar>rc\<bar> td)
          else Done (FIO_Q_QUEUED, td\<lparr> td_data := Thread (t\<lparr> ft_pending := ft_pending t @ [i] \<rparr>) \<rparr>)))"

text \<open>The device completes the request at a position of those pending.\<close>

definition fio_completion_cb :: "nat \<times> bool \<Rightarrow> fio_td \<Rightarrow> fio_td run" where
  "fio_completion_cb c td = fio_at td (\<lambda>t.
     let (k, success) = c; i = ft_pending t ! k in
     if length (ft_pending t) \<le> k then Done td
     else if iocq_size t \<le> length (iocq t) then Assert_fails
     else Done (set_error i (if success then 0 else EIO)
       (td\<lparr> td_data := Thread (t\<lparr> iocq := iocq t @ [i], ft_pending := take k (ft_pending t) @ drop (Suc k) (ft_pending t) \<rparr>) \<rparr>)))"

definition fio_poll_thread :: "(nat \<times> bool) list \<Rightarrow> fio_td \<Rightarrow> fio_td run" where
  "fio_poll_thread = run_fold fio_completion_cb"

text \<open>
  Collecting completions: for every turn what the poll completes and whether the time is over
  afterwards; \<open>timed\<close> is whether there is a time at all.
\<close>

fun getevents_loop :: "nat \<Rightarrow> bool \<Rightarrow> ((nat \<times> bool) list \<times> bool) list \<Rightarrow> fio_td \<Rightarrow> (nat \<times> fio_td) run" where
  "getevents_loop mn timed [] td = Hangs"
| "getevents_loop mn timed ((cs, late) # turns) td =
     run_bind (fio_poll_thread cs td) (\<lambda>td1. fio_at td1 (\<lambda>t.
       if mn \<le> length (iocq t) \<or> timed \<and> late then Done (length (iocq t), td1)
       else getevents_loop mn timed turns td1))"

definition fio_getevents :: "nat \<Rightarrow> nat \<Rightarrow> bool \<Rightarrow> ((nat \<times> bool) list \<times> bool) list \<Rightarrow> fio_td \<Rightarrow> (nat \<times> fio_td) run" where
  "fio_getevents mn mx timed turns td =
     fio_at td (\<lambda>t. getevents_loop mn timed turns (td\<lparr> td_data := Thread (t\<lparr> iocq := [] \<rparr>) \<rparr>))"

definition fio_event :: "int \<Rightarrow> fio_td \<Rightarrow> nat run" where
  "fio_event e td = fio_at td (\<lambda>t. if e < 0 \<or> int (length (iocq t)) \<le> e then Assert_fails else Done (iocq t ! nat e))"

section \<open>Starting SPDK\<close>

record fio_start =
  st_conf :: "string option"
  st_conf_mem :: bool
  st_conf_read :: int
  st_conf_section :: bool
  st_env :: int
  st_mem :: bool
  st_thread :: bool
  st_qmem :: bool

datatype fio_first = Exits int | Goes fio_td

text \<open>The first thread up to its own SPDK thread; an error ends the process.\<close>

definition init_td :: fio_td where
  "init_td = \<lparr> td_iodepth = 32, td_use_thread = False, td_files = [], td_data = No_data, td_error = (\<lambda>_. 0) \<rparr>"

definition init_thread_start :: "fio_start \<Rightarrow> fio_first run" where
  "init_thread_start s =
     (if st_conf s = None \<or> st_conf s = Some [] then Done (Exits EINVAL)
      else if \<not> st_conf_mem s then Done (Exits ENOMEM)
      else if st_conf_read s \<noteq> 0 then Done (Exits (st_conf_read s))
      else if \<not> st_conf_section s then Done (Exits EINVAL)
      else if st_env s < 0 then Done (Exits EINVAL)
      else run_bind (fio_init_thread (st_mem s) (st_thread s) (st_qmem s) init_td)
        (\<lambda>(rc, td). Done (if rc < 0 then Exits rc else Goes td)))"

text \<open>The loop of the first thread: for every turn, whether the loop is still wanted and what the wait answers.\<close>

definition ETIMEDOUT :: int where "ETIMEDOUT = 110"

fun init_poll_loop :: "(bool \<times> int) list \<Rightarrow> unit run" where
  "init_poll_loop [] = Hangs"
| "init_poll_loop ((wanted, rc) # turns) = (if \<not> wanted then Done () else if rc \<noteq> ETIMEDOUT then Done () else init_poll_loop turns)"

text \<open>A loop that polls at least once: whether it may stop after each poll.\<close>

fun poll_do :: "bool list \<Rightarrow> unit run" where
  "poll_do [] = Hangs"
| "poll_do (stop # ss) = (if stop then Done () else poll_do ss)"

text \<open>
  The whole thread: the signal to the thread that waits for it is sent after the second loop.
  The result is the exit code of the process, or nothing when only the thread ends.
\<close>

definition init_thread_poll ::
    "fio_start \<Rightarrow> bool list \<Rightarrow> nat list \<Rightarrow> (bool \<times> int) list \<Rightarrow> bool list \<Rightarrow> bool list \<Rightarrow> int option run" where
  "init_thread_poll s inits polls turns finis idles =
     run_bind (init_thread_start s) (\<lambda>r. case r of
        Exits rc \<Rightarrow> Done (Some rc)
      | Goes td \<Rightarrow>
          run_bind (poll_do inits) (\<lambda>_. run_bind (poll_out polls) (\<lambda>_. run_bind (init_poll_loop turns) (\<lambda>_.
          run_bind (poll_do finis) (\<lambda>_. run_bind (fio_at td (fio_cleanup_thread idles)) (\<lambda>_. Done None))))))"

text \<open>
  Starting the first thread and waiting for its signal: \<open>attr\<close>, \<open>clock\<close> and \<open>cond\<close> are the errors of
  the condition variable, \<open>create\<close> of making the thread, and \<open>late\<close> is whether the signal comes
  after the wait has begun.  There is no test around the wait.
\<close>

definition fio_init_env :: "int \<Rightarrow> int \<Rightarrow> int \<Rightarrow> int \<Rightarrow> bool \<Rightarrow> int run" where
  "fio_init_env attr clock cond create late =
     (if attr \<noteq> 0 \<or> clock \<noteq> 0 \<or> cond \<noteq> 0 then Done (- 1)
      else if create \<noteq> 0 \<or> \<not> late then Hangs
      else Done create)"

fun setup_files :: "(string \<Rightarrow> fio_bdev option) \<Rightarrow> fio_file list \<Rightarrow> bool \<times> fio_file list" where
  "setup_files named [] = (True, [])"
| "setup_files named (f # fs) =
     (case named (file_name f) of
        None \<Rightarrow> (False, f # fs)
      | Some b \<Rightarrow> (let (ok, fs') = setup_files named fs in (ok, f\<lparr> real_file_size := fb_blocks b * fb_block_size b \<rparr> # fs')))"

text \<open>The setup of a fio thread; \<open>ready\<close> is whether SPDK has been started before, \<open>env\<close> how starting it ends.\<close>

definition fio_setup :: "(string \<Rightarrow> fio_bdev option) \<Rightarrow> int run \<Rightarrow> bool \<Rightarrow> fio_td \<Rightarrow> (int \<times> bool \<times> fio_td) run" where
  "fio_setup named env ready td =
     (if \<not> td_use_thread td then Done (- 1, ready, td)
      else run_bind (if ready then Done 0 else env) (\<lambda>rc.
        if rc \<noteq> 0 then Done (- 1, ready, td)
        else let (ok, fs) = setup_files named (td_files td) in Done (if ok then 0 else - 1, True, td\<lparr> td_files := fs \<rparr>)))"

section \<open>Every request is reported once\<close>

text \<open>
  fio gives a request when fewer than the depth are at the device, or collects completions and
  reads all of them; what was accepted and what was read is recorded.
\<close>

datatype fio_op = F_queue io_u int | F_getevents nat nat bool "((nat \<times> bool) list \<times> bool) list"

fun fio_exec :: "fio_op \<Rightarrow> fio_td \<times> nat list \<times> nat list \<Rightarrow> (fio_td \<times> nat list \<times> nat list) run" where
  "fio_exec (F_queue u rc) (td, q, r) = fio_at td (\<lambda>t.
     if iocq_size t \<le> length (ft_pending t) then Done (td, q, r)
     else run_bind (fio_queue u rc td) (\<lambda>(st, td'). Done (td', if st = FIO_Q_QUEUED then q @ [iu_id u] else q, r)))"
| "fio_exec (F_getevents mn mx timed turns) (td, q, r) =
     run_bind (fio_getevents mn mx timed turns td) (\<lambda>(n, td'). fio_at td' (\<lambda>t. Done (td', q, r @ iocq t)))"

text \<open>A request that was prepared by the engine for an open target, in a direction it knows.\<close>

definition fio_op_ok :: "fio_op \<Rightarrow> bool" where
  "fio_op_ok f = (case f of F_queue u rc \<Rightarrow> iu_request u = Some (iu_id u) \<and> iu_ddir u \<noteq> DDIR_OTHER | _ \<Rightarrow> True)"

text \<open>A thread with room for the completions of everything at the device.\<close>

definition fio_room :: "fio_td \<Rightarrow> nat list \<Rightarrow> bool" where
  "fio_room td have \<longleftrightarrow> (\<exists>t. td_data td = Thread t \<and> length (iocq t) + length (ft_pending t) \<le> iocq_size t \<and>
     mset (iocq t) + mset (ft_pending t) = mset have)"

definition goes :: "'a run \<Rightarrow> ('a \<Rightarrow> bool) \<Rightarrow> bool" where
  "goes r ok \<longleftrightarrow> r = Hangs \<or> (\<exists>x. r = Done x \<and> ok x)"

lemma goes_Done [simp]: "goes (Done x) ok = ok x" and goes_Hangs [simp]: "goes Hangs ok"
  by (simp_all add: goes_def)

lemma goes_bind: "goes r ok \<Longrightarrow> (\<And>x. ok x \<Longrightarrow> goes (f x) ok') \<Longrightarrow> goes (run_bind r f) ok'"
  by (cases r) (auto simp: goes_def)

lemma completion_room:
  assumes "fio_room td have"
  shows "goes (fio_completion_cb c td) (\<lambda>td'. fio_room td' have)"
proof -
  obtain t where t: "td_data td = Thread t" and room: "length (iocq t) + length (ft_pending t) \<le> iocq_size t"
    and m: "mset (iocq t) + mset (ft_pending t) = mset have" using assms by (auto simp: fio_room_def)
  obtain k success where c: "c = (k, success)" by (cases c)
  show ?thesis
  proof (cases "k < length (ft_pending t)")
    case True
    have e: "ft_pending t = take k (ft_pending t) @ ft_pending t ! k # drop (Suc k) (ft_pending t)"
      using True by (rule id_take_nth_drop)
    have "mset (ft_pending t) = add_mset (ft_pending t ! k) (mset (take k (ft_pending t)) + mset (drop (Suc k) (ft_pending t)))"
      by (subst e) simp
    then show ?thesis using True room m t
      by (auto simp: fio_completion_cb_def c fio_at_def fio_room_def set_error_def Let_def)
  next
    case False
    then show ?thesis using assms t by (simp add: fio_completion_cb_def c fio_at_def Let_def)
  qed
qed

lemma poll_room: "fio_room td have \<Longrightarrow> goes (fio_poll_thread cs td) (\<lambda>td'. fio_room td' have)"
  unfolding fio_poll_thread_def by (induction cs arbitrary: td) (auto intro: goes_bind completion_room)

lemma getevents_loop_room:
  "fio_room td have \<Longrightarrow> goes (getevents_loop mn timed turns td) (\<lambda>(n, td'). fio_room td' have)"
proof (induction turns arbitrary: td)
  case (Cons turn turns)
  obtain cs late where t: "turn = (cs, late)" by (cases turn)
  have "goes (fio_at u (\<lambda>t. if mn \<le> length (iocq t) \<or> timed \<and> late then Done (length (iocq t), u)
      else getevents_loop mn timed turns u)) (\<lambda>(n, td'). fio_room td' have)" if "fio_room u have" for u
    using that Cons.IH [OF that] by (auto simp: fio_at_def fio_room_def split: io_ops_data.split)
  then show ?case unfolding t getevents_loop.simps by (rule goes_bind [OF poll_room [OF Cons.prems]])
qed simp

text \<open>What is known between two calls of fio.\<close>

definition fio_sound :: "fio_td \<times> nat list \<times> nat list \<Rightarrow> bool" where
  "fio_sound s = (case s of (td, q, r) \<Rightarrow>
     \<exists>t. td_data td = Thread t \<and> length (ft_pending t) \<le> iocq_size t \<and> mset q = mset r + mset (ft_pending t))"

lemma fio_exec_sound:
  assumes "fio_sound s" and "fio_op_ok f"
  shows "goes (fio_exec f s) fio_sound"
proof -
  obtain td q r t where s: "s = (td, q, r)" and t: "td_data td = Thread t" and room: "length (ft_pending t) \<le> iocq_size t"
    and m: "mset q = mset r + mset (ft_pending t)" using assms(1) by (cases s) (auto simp: fio_sound_def)
  show ?thesis
  proof (cases f)
    case (F_queue u rc)
    then show ?thesis
      using assms(2) t room m
      by (auto simp: s fio_at_def fio_sound_def fio_op_ok_def fio_queue_def set_error_def)
  next
    case (F_getevents mn mx timed turns)
    let ?td = "td\<lparr> td_data := Thread (t\<lparr> iocq := [] \<rparr>) \<rparr>"
    have "fio_room ?td (ft_pending t)" using room by (simp add: fio_room_def)
    note loop = getevents_loop_room [OF this, of mn timed turns]
    have "goes (fio_at td' (\<lambda>t. Done (td', q, r @ iocq t))) fio_sound" if "fio_room td' (ft_pending t)" for td'
      using that m by (auto simp: fio_room_def fio_at_def fio_sound_def)
    then have "goes (run_bind (getevents_loop mn timed turns ?td) (\<lambda>(n, td'). fio_at td' (\<lambda>t. Done (td', q, r @ iocq t)))) fio_sound"
      by (intro goes_bind [OF loop]) auto
    then show ?thesis using t by (simp add: s F_getevents fio_getevents_def fio_at_def)
  qed
qed

lemma fio_run_sound:
  "fio_sound s \<Longrightarrow> list_all fio_op_ok fs \<Longrightarrow> goes (run_fold fio_exec fs s) fio_sound"
  by (induction fs arbitrary: s) (auto intro: goes_bind fio_exec_sound)

text \<open>
  However the device orders its completions and the polls end, no assertion fails and no
  memory is missed; and whenever the run has returned, every request that was accepted is
  reported once or still at the device.
\<close>

theorem fio_reports_once:
  assumes "td_data td = Thread \<lparr> ft_targets = tgs, ft_failed = False, iocq = [], iocq_size = td_iodepth td, ft_pending = [] \<rparr>"
    and "list_all fio_op_ok fs"
  shows "run_fold fio_exec fs (td, [], []) = Hangs \<or>
    (\<exists>td' t q r. run_fold fio_exec fs (td, [], []) = Done (td', q, r) \<and> td_data td' = Thread t \<and>
       mset q = mset r + mset (ft_pending t))"
proof -
  have "fio_sound (td, [], [])" using assms(1) by (simp add: fio_sound_def)
  from fio_run_sound [OF this assms(2)] show ?thesis by (auto simp: goes_def fio_sound_def)
qed

theorem fio_reports_once_witness:
  "\<exists>td' t q r. run_fold fio_exec
       [F_queue \<lparr> iu_id = 7, iu_ddir = DDIR_READ, iu_target = Some 0, iu_request = Some 7 \<rparr> 0,
        F_getevents 1 1 False [([], False), ([(0, True)], False)]]
       (init_td\<lparr> td_data := Thread \<lparr> ft_targets = [''Zcell''], ft_failed = False, iocq = [], iocq_size = 32, ft_pending = [] \<rparr> \<rparr>, [], []) =
     Done (td', q, r) \<and> td_data td' = Thread t \<and> mset q = mset r + mset (ft_pending t) \<and> q = [7]"
proof -
  let ?td = "init_td\<lparr> td_data := Thread \<lparr> ft_targets = [''Zcell''], ft_failed = False, iocq = [], iocq_size = 32, ft_pending = [] \<rparr> \<rparr>"
  let ?fs = "[F_queue \<lparr> iu_id = 7, iu_ddir = DDIR_READ, iu_target = Some 0, iu_request = Some 7 \<rparr> 0,
    F_getevents 1 1 False [([], False), ([(0, True)], False)]]"
  have d: "td_data ?td = Thread \<lparr> ft_targets = [''Zcell''], ft_failed = False, iocq = [], iocq_size = td_iodepth ?td, ft_pending = [] \<rparr>"
    by (simp add: init_td_def)
  have ok: "list_all fio_op_ok ?fs" by (simp add: fio_op_ok_def)
  have run: "\<exists>td' r. run_fold fio_exec ?fs (?td, [], []) = Done (td', [7], r)"
    by (simp add: fio_at_def fio_queue_def fio_getevents_def fio_poll_thread_def fio_completion_cb_def set_error_def ENOMEM_def)
  from fio_reports_once [OF d ok] run show ?thesis by fastforce
qed

section \<open>Opening and closing\<close>

lemma open_files_all:
  assumes "fio_open_files mem named fs t = (fs', t')" and "\<not> ft_failed t"
  shows "if ft_failed t' then length (ft_targets t') < length (ft_targets t) + length fs
    else ft_targets t' = ft_targets t @ map file_name fs \<and>
      map fl_target fs' = map Some [length (ft_targets t)..<length (ft_targets t) + length fs]"
  using assms
proof (induction fs arbitrary: t fs')
  case (Cons f fs)
  show ?case
  proof (cases "mem (length (ft_targets t)) \<and> (\<exists>b. named (file_name f) = Some b \<and> fb_open b = 0 \<and> fb_channel b)")
    case True
    define u where "u = t\<lparr> ft_targets := ft_targets t @ [file_name f] \<rparr>"
    obtain fs1 where r: "fio_open_files mem named fs u = (fs1, t')" "fs' = f\<lparr> fl_target := Some (length (ft_targets t)) \<rparr> # fs1"
      using True Cons.prems(1) by (auto simp: u_def split: prod.splits)
    have "\<not> ft_failed u" using Cons.prems(2) by (simp add: u_def)
    moreover have "[length (ft_targets t)..<length (ft_targets t) + length (f # fs)] =
        length (ft_targets t) # [Suc (length (ft_targets t))..<Suc (length (ft_targets t)) + length fs]"
      by (simp add: upt_conv_Cons del: upt_Suc)
    ultimately show ?thesis using Cons.IH [OF r(1)] by (simp add: u_def r(2) del: upt_Suc split: if_splits)
  next
    case False
    then have "t' = t\<lparr> ft_failed := True \<rparr>" using Cons.prems(1) by (auto split: option.splits if_splits)
    then show ?thesis by simp
  qed
qed auto

text \<open>
  A thread that was initialised with success has one open target for every file, in order; the
  cleanup closes whatever was opened, after a failure too.
\<close>

theorem init_opens_all:
  assumes "fio_init mem thr qmem tmem named polls td = Done (rc, td')" and "td_data td = No_data"
  shows "\<exists>t. td_data td' = Thread t \<and> iocq t = [] \<and> ft_pending t = [] \<and> (rc = 0) = (\<not> ft_failed t) \<and>
    (rc = 0 \<longrightarrow> ft_targets t = map file_name (td_files td) \<and> map fl_target (td_files td') = map Some [0..<length (td_files td)])"
proof -
  define t0 where "t0 = \<lparr> ft_targets = [], ft_failed = False, iocq = [], iocq_size = td_iodepth td, ft_pending = [] \<rparr>"
  obtain fs t where o1: "fio_open_files tmem named (td_files td) t0 = (fs, t)" by fastforce
  have "td' = td\<lparr> td_files := fs, td_data := Thread t \<rparr> \<and> rc = (if ft_failed t then - 1 else 0)"
    using assms o1 by (auto simp: fio_init_def fio_init_thread_def fio_bdev_open_def fio_at_def run_bind_Done t0_def
        split: if_splits prod.splits)
  moreover have "iocq u' = iocq u \<and> ft_pending u' = ft_pending u" if "fio_open_files tmem named gs u = (gs', u')" for gs gs' u u'
    using that by (induction gs arbitrary: u gs') (auto split: if_splits option.splits prod.splits)
  ultimately show ?thesis using open_files_all [OF o1] o1 by (auto simp: t0_def)
qed

theorem init_opens_all_witness:
  "\<exists>rc td' t. fio_init True True True (\<lambda>_. True)
       (\<lambda>_. Some \<lparr> fb_open = 0, fb_channel = True, fb_blocks = 8, fb_block_size = 4096 \<rparr>) [1, 0]
       (init_td\<lparr> td_files := [\<lparr> file_name = ''Zcell'', real_file_size = 0, fl_target = None \<rparr>] \<rparr>) = Done (rc, td') \<and>
     td_data td' = Thread t \<and> (rc = 0) = (\<not> ft_failed t)"
proof -
  let ?td = "init_td\<lparr> td_files := [\<lparr> file_name = ''Zcell'', real_file_size = 0, fl_target = None \<rparr>] \<rparr>"
  let ?n = "\<lambda>_. Some \<lparr> fb_open = 0, fb_channel = True, fb_blocks = 8, fb_block_size = 4096 \<rparr>"
  obtain rc td' where run: "fio_init True True True (\<lambda>_. True) ?n [1, 0] ?td = Done (rc, td')"
    by (simp add: fio_init_def fio_init_thread_def fio_bdev_open_def fio_at_def)
  have "td_data ?td = No_data" by (simp add: init_td_def)
  from init_opens_all [OF run this] run show ?thesis by blast
qed

section \<open>The wait\<close>

text \<open>
  Without a word that overflows, the end of the wait is the time plus the ticks until the next
  poller, in nanoseconds, with the part below a second in its place.
\<close>

theorem calc_timeout_adds:
  assumes "fio_calc_timeout False expiry now hz (sec, nsec) = Done (sec', nsec')" and "expiry > now"
    and "unat (expiry - now) * 1000000000 < 2 ^ 64"
    and "unat (expiry - now) * 1000000000 div unat hz + unat sec * 1000000000 + unat nsec < 2 ^ 64"
  shows "unat sec' * 1000000000 + unat nsec' =
      unat sec * 1000000000 + unat nsec + unat (expiry - now) * 1000000000 div unat hz \<and> unat nsec' < 1000000000"
proof -
  define a where "a = ((expiry - now) * 1000000000) div hz"
  define b where "b = sec * 1000000000"
  define t where "t = a + b + nsec"
  have "expiry \<noteq> 0" using assms(2) by auto
  then have r: "sec' = t div 1000000000" "nsec' = t mod 1000000000"
    using assms(1,2) by (auto simp: fio_calc_timeout_def t_def a_def b_def Let_def split: if_splits)
  have "unat ((expiry - now) * 1000000000) = unat (expiry - now) * 1000000000"
    using assms(3) by (subst unat_mult_lem [THEN iffD1]) simp_all
  then have a: "unat a = unat (expiry - now) * 1000000000 div unat hz" by (simp add: a_def unat_div)
  have b: "unat b = unat sec * 1000000000"
    unfolding b_def using assms(4) by (subst unat_mult_lem [THEN iffD1]) simp_all
  have lt: "unat a + unat b + unat nsec < 2 ^ 64" using assms(4) by (simp only: a b)
  then have "unat a + unat b < 2 ^ 64" by linarith
  then have ab: "unat (a + b) = unat a + unat b" using unat_add_lem [of a b] by simp
  have "unat t = unat a + unat b + unat nsec" unfolding t_def using lt ab unat_add_lem [of "a + b" nsec] by simp
  then have "unat t = unat (expiry - now) * 1000000000 div unat hz + unat sec * 1000000000 + unat nsec" by (simp only: a b)
  moreover have "unat sec' = unat t div 1000000000" "unat nsec' = unat t mod 1000000000"
    by (simp_all add: r unat_div unat_mod)
  ultimately show ?thesis by simp
qed

theorem calc_timeout_adds_witness:
  "\<exists>sec' nsec'. fio_calc_timeout False 150 100 1000 (7, 999999999) = Done (sec', nsec') \<and>
     unat sec' * 1000000000 + unat nsec' = 8049999999"
proof -
  obtain sec' nsec' where r: "fio_calc_timeout False 150 100 1000 (7, 999999999) = Done (sec', nsec')"
    by (simp add: fio_calc_timeout_def)
  have "(150 :: u64) > 100" by simp
  from calc_timeout_adds [OF r this] r show ?thesis by simp
qed

section \<open>What goes wrong\<close>

text \<open>Ticks are multiplied before they are divided: at 2.5 GHz a poller in 8 seconds is waited for 621 ms.\<close>

lemma far_poller_overflows:
  "fio_calc_timeout False 20000000000 0 2500000000 (0, 0) = Done (0, 621302370)"
  by (simp add: fio_calc_timeout_def)

text \<open>The result of making the thread is ignored: the initialisation goes on with memory that was freed.\<close>

lemma init_without_thread: "\<not> thr \<Longrightarrow> fio_init True thr qmem tmem named polls td = Wild"
  by (simp add: fio_init_def fio_init_thread_def fio_at_def)

text \<open>
  The wait for the first thread has no condition: when the thread cannot be made, or its signal
  comes first, it does not return.
\<close>

lemma setup_hangs:
  assumes "create \<noteq> 0 \<or> \<not> late" and "td_use_thread td"
  shows "fio_setup named (fio_init_env 0 0 0 create late) False td = Hangs"
  using assms by (auto simp: fio_setup_def fio_init_env_def)

text \<open>More completions than were asked for are returned.\<close>

lemma getevents_exceeds_max:
  "\<exists>td'. fio_getevents 1 1 False [([(0, True), (0, True)], False)]
     (init_td\<lparr> td_data := Thread \<lparr> ft_targets = [], ft_failed = False, iocq = [], iocq_size = 32, ft_pending = [3, 4] \<rparr> \<rparr>) = Done (2, td')"
  by (simp add: fio_getevents_def fio_at_def fio_poll_thread_def fio_completion_cb_def set_error_def)

end
