(* ===== verification/Bdev_Demo.thy ===== *)
theory Bdev_Demo
  imports Prelude Runs
begin

text \<open>
  The demonstration of the block device (\<^verbatim>\<open>bdev_demo.c\<close>): open a disk, write a block, read it, and
  stop.  What SPDK answers is an argument; a device or a channel that is missing is a null
  pointer that SPDK is then called with.
\<close>

record demo =
  dm_wbuf :: bool
  dm_rbuf :: bool
  dm_desc :: bool
  dm_channel :: bool
  dm_ios :: nat
  dm_stops :: nat

definition demo_start :: demo where
  "demo_start = \<lparr> dm_wbuf = False, dm_rbuf = False, dm_desc = False, dm_channel = False, dm_ios = 0, dm_stops = 0 \<rparr>"

text \<open>Giving everything back; the pointers keep what they pointed to.\<close>

definition demo_app_done :: "demo \<Rightarrow> demo run" where
  "demo_app_done s =
     (if 0 < dm_stops s \<and> (dm_wbuf s \<or> dm_rbuf s \<or> dm_channel s \<or> dm_desc s) then Double_free
      else Done (s\<lparr> dm_stops := dm_stops s + 1 \<rparr>))"

record demo_env =
  de_found :: bool
  de_open :: bool
  de_channel :: bool
  de_write :: int
  de_read :: int

definition demo_app_run :: "demo_env \<Rightarrow> demo \<Rightarrow> demo run" where
  "demo_app_run e s =
     (if \<not> de_found e then run_bind (demo_app_done s) (\<lambda>_. Wild)
      else if \<not> de_open e then run_bind (demo_app_done s) (\<lambda>_. Wild)
      else let s1 = s\<lparr> dm_desc := True \<rparr> in
        if \<not> de_channel e then run_bind (demo_app_done s1) (\<lambda>_. Wild)
        else let s2 = s1\<lparr> dm_channel := True, dm_wbuf := True, dm_rbuf := True \<rparr> in
          if de_write e \<noteq> 0 then Assert_fails else Done (s2\<lparr> dm_ios := dm_ios s2 + 1 \<rparr>))"

definition demo_write_cb :: "demo_env \<Rightarrow> bool \<Rightarrow> demo \<Rightarrow> demo run" where
  "demo_write_cb e success s =
     (if \<not> success then Assert_fails
      else let s1 = s\<lparr> dm_ios := dm_ios s - 1 \<rparr> in
        if de_read e \<noteq> 0 then Assert_fails else Done (s1\<lparr> dm_ios := dm_ios s1 + 1 \<rparr>))"

text \<open>The end of the read: neither its success nor the request is looked after.\<close>

definition demo_read_cb :: "bool \<Rightarrow> demo \<Rightarrow> demo run" where
  "demo_read_cb success s = demo_app_done s"

definition demo_main :: "nat \<Rightarrow> demo_env \<Rightarrow> bool \<Rightarrow> bool \<Rightarrow> demo run" where
  "demo_main argc e wrote read =
     (if 1 < argc then run_bind (demo_app_run e demo_start) (\<lambda>s1. run_bind (demo_write_cb e wrote s1) (demo_read_cb read))
      else Done demo_start)"

text \<open>
  With a device that answers, the demonstration stops once, whether the read had success or
  not, and keeps one request; without an argument it never stops.
\<close>

theorem demo_stops_once:
  assumes "1 < argc" and "de_found e" and "de_open e" and "de_channel e" and "de_write e = 0" and "de_read e = 0"
  shows "\<exists>s. demo_main argc e True read = Done s \<and> dm_stops s = 1 \<and> dm_ios s = 1"
  using assms by (simp add: demo_main_def demo_app_run_def demo_write_cb_def demo_read_cb_def demo_app_done_def demo_start_def Let_def)

theorem demo_stops_once_witness:
  "\<exists>s. demo_main 2 \<lparr> de_found = True, de_open = True, de_channel = True, de_write = 0, de_read = 0 \<rparr> True False = Done s \<and> dm_stops s = 1"
  using demo_stops_once [of 2 "\<lparr> de_found = True, de_open = True, de_channel = True, de_write = 0, de_read = 0 \<rparr>" False] by auto

lemma demo_without_device: "1 < argc \<Longrightarrow> \<not> de_found e \<Longrightarrow> demo_main argc e wrote read = Wild"
  by (simp add: demo_main_def demo_app_run_def demo_app_done_def demo_start_def)

end
