(* ===== verification/Liboss_Ctx.thy ===== *)
theory Liboss_Ctx
  imports Liboss
begin

text \<open>
  The context of a client thread (\<^verbatim>\<open>liboss.c\<close>): starting and stopping the two messagers, channels as
  they are got and given back, and the buffers for data, which come from the C library for a remote
  channel and from SPDK's shared memory for a local one.  Memory is what is live, with the
  allocator it came from; whether there is any is an argument.
\<close>

datatype mem_pool = C_heap | Spdk_shared

record liboss_ctx =
  net_msgr :: bool
  ipc_msgr :: bool
  lc_channels :: "(nat \<times> io_channel) list"
  lc_bufs :: "(nat \<times> mem_pool \<times> nat) list"

definition liboss_ctx_zero :: liboss_ctx where
  "liboss_ctx_zero = \<lparr> net_msgr = False, ipc_msgr = False, lc_channels = [], lc_bufs = [] \<rparr>"

section \<open>Starting and stopping\<close>

text \<open>The messagers' answers to their initialisation.\<close>

definition tls_io_ctx_init :: "int \<Rightarrow> int \<Rightarrow> liboss_ctx \<Rightarrow> (int \<times> liboss_ctx) run" where
  "tls_io_ctx_init net_rc ipc_rc lc =
     (if net_rc \<noteq> 0 then Assert_fails
      else if ipc_rc \<noteq> 0 then Assert_fails
      else Done (ipc_rc, lc\<lparr> net_msgr := True, ipc_msgr := True \<rparr>))"

definition tls_io_ctx_fini :: "liboss_ctx \<Rightarrow> (int \<times> liboss_ctx) run" where
  "tls_io_ctx_fini lc =
     (if \<not> net_msgr lc \<or> \<not> ipc_msgr lc then Wild else Done (0, lc\<lparr> net_msgr := False, ipc_msgr := False \<rparr>))"

section \<open>Channels\<close>

text \<open>A channel at an address; \<open>session\<close> is what connecting answers.\<close>

definition ctx_get_channel :: "nat \<Rightarrow> nat \<Rightarrow> nat \<Rightarrow> nat option \<Rightarrow> liboss_ctx \<Rightarrow> (nat option \<times> liboss_ctx) run" where
  "ctx_get_channel a stype max_qd session lc =
     (if \<not> (if stype = REMOTE then net_msgr lc else ipc_msgr lc) then Wild
      else case get_io_channel stype max_qd session of
        None \<Rightarrow> Done (None, lc)
      | Some ch \<Rightarrow> Done (Some a, lc\<lparr> lc_channels := lc_channels lc @ [(a, ch)] \<rparr>))"

definition ctx_channel :: "nat \<Rightarrow> liboss_ctx \<Rightarrow> io_channel option" where
  "ctx_channel a lc = map_of (lc_channels lc) a"

text \<open>Deleting frees the queue of completions, the descriptors, their bitmap, and the channel.\<close>

definition io_channel_delete :: "nat \<Rightarrow> liboss_ctx \<Rightarrow> liboss_ctx" where
  "io_channel_delete a lc = lc\<lparr> lc_channels := filter (\<lambda>p. fst p \<noteq> a) (lc_channels lc) \<rparr>"

text \<open>Giving back: the session is closed, whatever operations are in progress.\<close>

definition put_io_channel :: "nat \<Rightarrow> liboss_ctx \<Rightarrow> (nat \<times> liboss_ctx) run" where
  "put_io_channel a lc = (case ctx_channel a lc of
     None \<Rightarrow> Wild
   | Some ch \<Rightarrow> Done (ch_session ch, io_channel_delete a lc))"

section \<open>Buffers\<close>

definition net_msgr_data_buffer_alloc :: "nat \<Rightarrow> mem_pool \<times> nat" where
  "net_msgr_data_buffer_alloc sz = (C_heap, sz)"

definition ipc_msgr_meta_buffer_alloc :: "nat \<Rightarrow> mem_pool \<times> nat" where
  "ipc_msgr_meta_buffer_alloc sz = (Spdk_shared, sz)"

definition ipc_msgr_data_buffer_alloc :: "nat \<Rightarrow> mem_pool \<times> nat" where
  "ipc_msgr_data_buffer_alloc sz = (Spdk_shared, if sz \<le> 4096 then 4096 else sz)"

text \<open>Freeing with an allocator the buffer did not come from, or a second time; the null pointer is ignored.\<close>

definition buffer_free :: "mem_pool \<Rightarrow> nat \<Rightarrow> liboss_ctx \<Rightarrow> liboss_ctx run" where
  "buffer_free pool p lc =
     (if p = 0 then Done lc
      else case map_of (lc_bufs lc) p of
        None \<Rightarrow> Double_free
      | Some (pool', n) \<Rightarrow>
          if pool' \<noteq> pool then Wild else Done (lc\<lparr> lc_bufs := filter (\<lambda>b. fst b \<noteq> p) (lc_bufs lc) \<rparr>))"

text \<open>Without memory the pointer is null (0), and the answer is the same.\<close>

definition io_buffer_alloc :: "io_channel \<Rightarrow> nat option \<Rightarrow> nat \<Rightarrow> liboss_ctx \<Rightarrow> int \<times> nat \<times> liboss_ctx" where
  "io_buffer_alloc ch at sz lc =
     (case at of
        None \<Rightarrow> (0, 0, lc)
      | Some p \<Rightarrow> (0, p, lc\<lparr> lc_bufs := (p, if session_type ch = REMOTE then net_msgr_data_buffer_alloc sz
          else ipc_msgr_data_buffer_alloc sz) # lc_bufs lc \<rparr>))"

definition io_buffer_free :: "io_channel \<Rightarrow> nat \<Rightarrow> liboss_ctx \<Rightarrow> (int \<times> liboss_ctx) run" where
  "io_buffer_free ch p lc =
     run_bind (buffer_free (if session_type ch = REMOTE then C_heap else Spdk_shared) p lc) (\<lambda>lc'. Done (0, lc'))"

text \<open>
  A buffer got for a channel holds what was asked for, and is given back with any channel of
  the same kind, leaving the memory as it was; with a channel of the other kind the wrong
  allocator is called.
\<close>

theorem buffer_roundtrip:
  assumes "io_buffer_alloc ch (Some p) sz lc = (rc, q, lc')" and "p \<noteq> 0" and "p \<notin> fst ` set (lc_bufs lc)"
  shows "rc = 0 \<and> q = p \<and> (\<exists>pool n. map_of (lc_bufs lc') p = Some (pool, n) \<and> sz \<le> n) \<and>
    (if (session_type ch' = REMOTE) = (session_type ch = REMOTE) then io_buffer_free ch' p lc' = Done (0, lc)
     else io_buffer_free ch' p lc' = Wild)"
proof -
  have lc': "rc = 0" "q = p" "lc' = lc\<lparr> lc_bufs := (p, if session_type ch = REMOTE then net_msgr_data_buffer_alloc sz
    else ipc_msgr_data_buffer_alloc sz) # lc_bufs lc \<rparr>" using assms(1) by (auto simp: io_buffer_alloc_def)
  have "filter (\<lambda>b. fst b \<noteq> p) (lc_bufs lc) = lc_bufs lc" using assms(3) by (force simp: filter_id_conv)
  then show ?thesis using assms(2)
    by (auto simp: lc' io_buffer_free_def buffer_free_def net_msgr_data_buffer_alloc_def ipc_msgr_data_buffer_alloc_def)
qed

theorem buffer_roundtrip_witness:
  "\<exists>ch lc'. io_buffer_alloc ch (Some 8) 100 liboss_ctx_zero = (0, 8, lc') \<and> io_buffer_free ch 8 lc' = Done (0, liboss_ctx_zero)"
proof -
  define ch where "ch = (io_channel_new 1 1)\<lparr> session_type := LOCAL \<rparr>"
  obtain lc' where a: "io_buffer_alloc ch (Some 8) 100 liboss_ctx_zero = (0, 8, lc')" by (simp add: io_buffer_alloc_def)
  have "(8 :: nat) \<noteq> 0" "8 \<notin> fst ` set (lc_bufs liboss_ctx_zero)" by (simp_all add: liboss_ctx_zero_def)
  from buffer_roundtrip [OF a this, of ch] a show ?thesis by auto
qed

text \<open>A failed allocation is answered with success.\<close>

lemma no_memory_succeeds: "io_buffer_alloc ch None sz lc = (0, 0, lc)"
  by (simp add: io_buffer_alloc_def)

text \<open>A thread that starts, connects, gives back and stops ends as it was.\<close>

lemma session_of_thread:
  assumes "ctx_channel a lc = None" and "\<not> net_msgr lc" and "\<not> ipc_msgr lc"
  shows "\<exists>lc1 lc2 lc3 n. tls_io_ctx_init 0 0 lc = Done (0, lc1) \<and>
    ctx_get_channel a stype qd (Some n) lc1 = Done (Some a, lc2) \<and> put_io_channel a lc2 = Done (n, lc3) \<and>
    tls_io_ctx_fini lc3 = Done (0, lc)"
proof -
  have "filter (\<lambda>p. fst p \<noteq> a) (lc_channels lc) = lc_channels lc"
    using assms(1) by (force simp: filter_id_conv ctx_channel_def map_of_eq_None_iff)
  moreover have "map_of (lc_channels lc @ [(a, ch)]) a = Some ch" for ch
    using assms(1) by (simp add: ctx_channel_def map_add_def)
  ultimately show ?thesis using assms(2,3)
    by (simp add: tls_io_ctx_init_def ctx_get_channel_def get_io_channel_def put_io_channel_def io_channel_delete_def
        tls_io_ctx_fini_def ctx_channel_def)
qed

end
