(* ===== verification/Spec2Isabelle.thy ===== *)
theory Spec2Isabelle
  imports Fixed_Cache Errcode Bitmap Zstore_Shape Messager_Correct Reactor Pm_Copy Net_Sock
    Bdev_Zcell_Correct Bdev_Rpc Admin_Client_Correct Draft_Store Zstore_Open
    Bdev_Perf_App_Correct Fio_Plugin Bdev_Demo Liboss_Ctx
begin

text \<open>
  ZCell, an object store for fast devices and networks (files named here are under
  \<^verbatim>\<open>src/\<close>).

  The program.  A server (\<^verbatim>\<open>server_main.c\<close>) runs one reactor for every core; each has an object store
  of its own, and answers messages that arrive through sockets (\<^verbatim>\<open>messager.c\<close> over \<^verbatim>\<open>net_posix.c\<close>) or
  through rings in shared memory (\<^verbatim>\<open>spdk_ipc_messager.c\<close>).  A message is a header with arguments and
  data (\<^verbatim>\<open>message.h\<close>, \<^verbatim>\<open>operation.h\<close>).  There are three stores (\<^verbatim>\<open>objectstore.c\<close>): one that does nothing
  (\<^verbatim>\<open>nullstore.c\<close>), one that cuts a block device into objects of 4 MiB (\<^verbatim>\<open>chunkstore.c\<close>), and the
  zstore (\<^verbatim>\<open>zstore.c\<close>) with its data on a block device and its metadata in persistent memory, which
  it changes by transactions with a redo log (\<^verbatim>\<open>pm.c\<close>, copying by \<^verbatim>\<open>pm_impl.h\<close>) and whose blocks it
  takes from an allocator (\<^verbatim>\<open>zstore_allocator.h\<close>).  Clients use a library (\<^verbatim>\<open>liboss.c\<close>) with channels
  of operations; on it stand a virtual block device for SPDK (\<^verbatim>\<open>spdk_bdev/bdev_zcell.c\<close>) and an
  administration client (\<^verbatim>\<open>client_main.c\<close>).

  The theories.
  \<^item> \<open>Prelude\<close>: machine types, the macros of \<^verbatim>\<open>util/common.h\<close>, lemmas on bits and lists, and three
    interfaces as locales: \<open>id_source\<close> and its extension \<open>id_pool\<close> (small numbers handed out and
    taken back), \<open>append_log\<close> (a log of entries with a capacity).  \<open>Runs\<close>: outcomes of code that
    may crash or not return.  \<open>Memory\<close>: byte memories and little-endian encodings.
  \<^item> \<open>Errcode\<close>, \<open>Bitmap\<close>, \<open>Fixed_Cache\<close>: \<^verbatim>\<open>util/errcode.h\<close>, \<^verbatim>\<open>util/bitmap.h\<close>, \<^verbatim>\<open>util/fixed_cache.h\<close>; the
    cache is an \<open>id_pool\<close>.
  \<^item> \<open>Allocator\<close>, \<open>Allocator_Correct\<close>: the block allocator, a \<open>record\<close> with the words of the bitmap,
    the counter and the hint; taking one block at a time is an \<open>id_source\<close>.
  \<^item> \<open>Pmem\<close>, \<open>Pmem_Correct\<close>: the memory as a function, every store to it an event, a crash any
    state the events allow; adding to a transaction is an \<open>append_log\<close>.  \<open>Pm_Copy\<close>: the copy and
    flush routines with, for every byte, whether it is in the cache, on its way or durable; a
    streaming store to an unaligned address faults, so a copy returns an \<open>option\<close>.
  \<^item> \<open>Zstore_Layout\<close> to \<open>Zstore_Queue\<close>: the superblock and the object table with their encodings,
    mkfs and mount; preparing the transaction of every operation; its life in the queue and the
    I/O on the device as a step relation (\<open>zy_step\<close>).  \<open>Zstore_Shape\<close>: the allocators stay sound.
    \<open>Zstore_Open\<close>: what mounting, unmounting and mkfs acquire and give back.
  \<^item> \<open>Message\<close>, \<open>Messager\<close>, \<open>Messager_Correct\<close>: messages, sessions, partial sends and receives, the
    kernel being a list of events for every socket; a session that is freed leaves the messager,
    and using it later is \<open>Use_after_free\<close>; \<open>Net_Sock\<close>: making, naming and grouping
    sockets, the kernel being the results of its calls.
  \<^item> \<open>Ipc\<close>, \<open>Ipc_Correct\<close>: the rings; two cores and a ring are an interpretation of the locale
    \<open>fifo_channel\<close>; a pair of sessions with both its rings is a \<open>duplex\<close> link.
  \<^item> \<open>Stores\<close>, \<open>Stores_Correct\<close>: the table of stores, the null store and the chunk store, and the
    locale \<open>object_store\<close>, what the server relies on, which both interpret.  \<open>Server\<close>,
    \<open>Server_Correct\<close>: the life of a request with the ownership of its buffers; the lemmas of the
    server are proved once for any \<open>object_store\<close>.  \<open>Reactor\<close>: options, starting and stopping.
  \<^item> \<open>Liboss\<close>, \<open>Liboss_Correct\<close>: channels, descriptors (an \<open>id_pool\<close>), operations from their
    preparation to their end; \<open>Liboss_Ctx\<close>: the context of a thread, its channels and buffers.
    \<open>End_To_End\<close>: client, rings, server and chunk store together.
  \<^item> \<open>Bdev_Zcell\<close>, \<open>Bdev_Zcell_Correct\<close>: disks, requests and their completion, on top of all that;
    a request gets its buffers from SPDK at once or later, in any number of pieces.
    \<open>Bdev_Rpc\<close>: the remote procedures on disks.  \<open>Admin_Client\<close>, \<open>Admin_Client_Correct\<close>: the
    operations and commands of the client.
  \<^item> \<open>Perf_Data\<close>, \<open>Bdev_Perf\<close>, \<open>Bdev_Perf_App\<close>: the benchmark of block devices (\<^verbatim>\<open>bdev_perf.c\<close>): its data,
    the run on one target as a function on events (\<open>perf_exec\<close>), and the options, targets, tasks
    and tests around it.  \<open>Bdev_Perf_Correct\<close>, \<open>Bdev_Perf_Ends\<close>, \<open>Bdev_Perf_App_Correct\<close>: what every
    run keeps, when it ends and when it cannot, and that the setup makes targets that can run.
  \<^item> \<open>Fio_Plugin\<close>: the engine for the benchmark fio (\<^verbatim>\<open>bdev_fio_plugin.c\<close>): every accepted request is
    reported once.  \<open>Bdev_Demo\<close>: the demonstration \<^verbatim>\<open>bdev_demo.c\<close>.
  \<^item> \<open>Draft_Store\<close>: an earlier store (\<^verbatim>\<open>draft/objectstore.c\<close>), which is not built.

  What is shown.  For the zstore: what was written is looked up again, a transaction without a
  crash writes exactly its entries, transactions commit in order and each ends once, a new store
  mounts (with a multiple of 512 blocks), and both allocators stay sound; and, since the valid bit of the log is never set,
  that no crash is ever repaired.  For the allocator: counters are right and single blocks are
  never handed out twice, but on a fragmented bitmap several blocks may be.  For the transports:
  messages arrive whole, once and in order, and are lost only when a ring is full.  For server
  and client: every message is answered once, descriptors are neither shared nor lost, an
  operation gets the result of its response, every request of the block device is accounted for
  as long as the process lives, and it is known when it does not; a write reaches the blocks of the same numbers.  For the benchmark: the queue depth counts
  what is owed, no task is in two places, and a run without verification and resets on a device
  that accepts everything ends once.  Several theorems state where the code does not do what it means to; they are stated of
  the code as it is.

  Bounds and fuel.  Machine words are kept where the code relies on their width; elsewhere
  natural numbers are used, and what is assumed of them is a hypothesis of the theorem.  Loops are
  recursion on their data or have a measure.  A loop that waits for the outside takes the list
  of what the outside answers; when the list ends it does not return (\<open>Hangs\<close>), and the theorems
  on it show that it returns or give a list that is long enough.  The persistent memory is a
  function on all addresses; that reading a data index must stay inside the 4 GiB that are mapped
  is checked (\<open>index_mapped\<close>), all other addresses are those of regions inside of them, but for
  the last index blocks (shown in \<open>Zstore_Create\<close>).

  Not modelled.  SPDK, libpmem, the kernel and the C library are parameters: their answers are
  arguments, or their documented behaviour a hypothesis.  Logging, clocks and statistics
  (\<^verbatim>\<open>util/log.h\<close>, \<^verbatim>\<open>util/chrono.h\<close>) have no effect on the state.  Of \<^verbatim>\<open>bdev_perf.c\<close> the
  averages of the performance (floating point, printed only) are left out, of \<^verbatim>\<open>bdev_fio_plugin.c\<close>
  the table of options and the entries that do nothing or only call SPDK.  \<^verbatim>\<open>test_objstore.c\<close> and
  \<^verbatim>\<open>test_spdk_ipc.c\<close> are tests.  Of \<^verbatim>\<open>pm_impl.h\<close> the delay loop on the time
  stamp counter is left out, of \<^verbatim>\<open>net_posix.c\<close> what is compiled for FreeBSD or zero-copy sends only.
\<close>

end
